(* ===== verification/RaftPrelude.thy ===== *)
theory RaftPrelude
  imports Complex_Main "HOL-Library.AList"
begin

text \<open>
  The library's prelude: the exceptions of the program and the result type every fallible
  operation returns, dictionaries as association lists in insertion order, Python's list
  access, and the generic facts on lists and majorities that the component theories share.
\<close>

section \<open>Exceptions and results\<close>

text \<open>
  One constructor per exception class the program raises or relies on. The message strings
  are left out. \<open>TransportError\<close> is the class of \<^verbatim>\<open>transport/base.py\<close>, the rows after it
  are the classes of \<^verbatim>\<open>raft/node.py\<close>, \<^verbatim>\<open>raft/persistence.py\<close>, the storage engine and the
  command processor. \<open>InvalidStateError\<close> is raised by a future that is resolved twice,
  \<open>ArgumentTypeError\<close> by the command line, \<open>DemoError\<close> by \<^verbatim>\<open>scripts/demo_failover.py\<close>.
  \<open>OSError\<close> is a failure of the operating system (\<^verbatim>\<open>URLError\<close> is one), \<open>ProtocolError\<close> is
  \<^verbatim>\<open>http.client.HTTPException\<close>.
\<close>

datatype error =
    ValueError
  | RuntimeError
  | TypeError
  | KeyError
  | AttributeError
  | IndexError
  | TransportError
  | NotLeaderError
  | LeadershipTransferInProgressError
  | ReadQuorumError
  | RaftPersistenceError
  | WALCorruptionError
  | CommandQueueFullError
  | InvalidStateError
  | ArgumentTypeError
  | DemoError
  | OSError
  | ProtocolError

type_synonym 'a result = "error + 'a"

abbreviation Ok :: "'a \<Rightarrow> 'a result" where
  "Ok x \<equiv> Inr x"

abbreviation Err :: "error \<Rightarrow> 'a result" where
  "Err e \<equiv> Inl e"

text \<open>
  A method that may raise after it has changed its object is a function into a pair: the
  object as it is left, and the result. \<open>is_ok\<close> says that it returned normally.
\<close>

definition is_ok :: "'a result \<Rightarrow> bool" where
  "is_ok r = (case r of Inl _ \<Rightarrow> False | Inr _ \<Rightarrow> True)"

lemma is_ok_simps [simp]: "is_ok (Ok x)" "\<not> is_ok (Err e)"
  by (simp_all add: is_ok_def)

lemma is_ok_iff: "is_ok r \<longleftrightarrow> (\<exists>x. r = Ok x)"
  by (cases r) simp_all

text \<open>The loop \<^verbatim>\<open>for x in xs: body\<close>, whose body may raise: it stops at the first error.\<close>

fun for_each :: "('a \<Rightarrow> 's \<Rightarrow> 's result) \<Rightarrow> 'a list \<Rightarrow> 's \<Rightarrow> 's result" where
  "for_each f [] s = Ok s"
| "for_each f (x # xs) s = (case f x s of Inl e \<Rightarrow> Err e | Inr s' \<Rightarrow> for_each f xs s')"

lemma for_each_append:
  "for_each f (xs @ ys) s =
     (case for_each f xs s of Inl e \<Rightarrow> Err e | Inr s' \<Rightarrow> for_each f ys s')"
  by (induction xs arbitrary: s) (auto split: sum.splits)

text \<open>A list comprehension \<^verbatim>\<open>[f(x) for x in xs]\<close> whose body may raise.\<close>

fun map_result :: "('a \<Rightarrow> 'b result) \<Rightarrow> 'a list \<Rightarrow> 'b list result" where
  "map_result f [] = Ok []"
| "map_result f (x # xs) =
     (case f x of Inl e \<Rightarrow> Err e
      | Inr y \<Rightarrow> (case map_result f xs of Inl e \<Rightarrow> Err e | Inr ys \<Rightarrow> Ok (y # ys)))"

lemma map_result_map: "(\<And>x. x \<in> set xs \<Longrightarrow> f (g x) = Ok x) \<Longrightarrow> map_result f (map g xs) = Ok xs"
  by (induction xs) auto

lemma map_result_length: "map_result f xs = Ok ys \<Longrightarrow> length ys = length xs"
  by (induction xs arbitrary: ys) (auto split: sum.splits)

section \<open>Hint collections\<close>

text \<open>
  \<open>frame\<close>: what an operation leaves unchanged. \<open>wf\<close>: every operation keeps its component's
  well-formedness. \<open>encode\<close>: decoding an encoded value returns it.
\<close>

named_theorems frame
named_theorems wf
named_theorems encode

section \<open>Dictionaries\<close>

text \<open>
  A Python \<^verbatim>\<open>dict\<close> is the association list of its items in insertion order, its keys
  distinct. \<^const>\<open>AList.update\<close> replaces the value in place or appends a new item,
  \<^const>\<open>AList.delete\<close> removes the item, as the language does.
\<close>

type_synonym ('k, 'v) dict = "('k \<times> 'v) list"

definition dict_wf :: "('k, 'v) dict \<Rightarrow> bool" where
  "dict_wf d = distinct (map fst d)"

lemma dict_wf_Nil [simp, wf]: "dict_wf []"
  by (simp add: dict_wf_def)

lemma dict_wf_update [wf]: "dict_wf d \<Longrightarrow> dict_wf (AList.update k v d)"
  by (simp add: dict_wf_def distinct_update)

lemma dict_wf_delete [wf]: "dict_wf d \<Longrightarrow> dict_wf (AList.delete k d)"
  by (simp add: dict_wf_def distinct_delete)

lemma map_of_update [simp]: "map_of (AList.update k v d) = (map_of d)(k \<mapsto> v)"
  by (rule update_conv')

lemma map_of_delete [simp]: "map_of (AList.delete k d) = (map_of d)(k := None)"
  by (rule delete_conv')

lemma map_of_Some_iff_key: "k \<in> fst ` set d \<longleftrightarrow> map_of d k \<noteq> None"
  by (simp add: map_of_eq_None_iff)

text \<open>\<^verbatim>\<open>d[k]\<close> raises \<open>KeyError\<close> where \<^verbatim>\<open>d.get(k)\<close> is \<^verbatim>\<open>None\<close>.\<close>

definition dict_item :: "('k, 'v) dict \<Rightarrow> 'k \<Rightarrow> 'v result" where
  "dict_item d k = (case map_of d k of None \<Rightarrow> Err KeyError | Some v \<Rightarrow> Ok v)"

lemma dict_item_Ok [simp]: "dict_item d k = Ok v \<longleftrightarrow> map_of d k = Some v"
  by (simp add: dict_item_def split: option.splits)

lemma dict_item_Err [simp]: "dict_item d k = Err e \<longleftrightarrow> map_of d k = None \<and> e = KeyError"
  by (auto simp: dict_item_def split: option.splits)

section \<open>Lists\<close>

text \<open>Reading a list at an index that a guard keeps in range; out of range it is \<open>None\<close>.\<close>

definition nth_opt :: "'a list \<Rightarrow> nat \<Rightarrow> 'a option" where
  "nth_opt xs n = (if n < length xs then Some (xs ! n) else None)"

lemma nth_opt_Some [simp]: "nth_opt xs n = Some x \<longleftrightarrow> n < length xs \<and> xs ! n = x"
  by (auto simp: nth_opt_def)

lemma nth_opt_None [simp]: "nth_opt xs n = None \<longleftrightarrow> length xs \<le> n"
  by (auto simp: nth_opt_def)

lemma nth_opt_take: "nth_opt (take k xs) n = (if n < k then nth_opt xs n else None)"
  by (auto simp: nth_opt_def)

lemma nth_opt_drop: "nth_opt (drop k xs) n = nth_opt xs (n + k)"
  by (auto simp: nth_opt_def add.commute)

lemma nth_opt_append:
  "nth_opt (xs @ ys) n = (if n < length xs then nth_opt xs n else nth_opt ys (n - length xs))"
  by (auto simp: nth_opt_def nth_append)

text \<open>The length of the longest common prefix, as the loop that counts it does.\<close>

fun common_prefix_length :: "'a list \<Rightarrow> 'a list \<Rightarrow> nat" where
  "common_prefix_length (x # xs) (y # ys) =
     (if x = y then Suc (common_prefix_length xs ys) else 0)"
| "common_prefix_length _ _ = 0"

lemma common_prefix_le:
  "common_prefix_length xs ys \<le> length xs" "common_prefix_length xs ys \<le> length ys"
  by (induction xs ys rule: common_prefix_length.induct) auto

lemma common_prefix_take:
  "take (common_prefix_length xs ys) xs = take (common_prefix_length xs ys) ys"
  by (induction xs ys rule: common_prefix_length.induct) auto

lemma common_prefix_split:
  "ys = take (common_prefix_length xs ys) xs @ drop (common_prefix_length xs ys) ys"
  by (metis append_take_drop_id common_prefix_take)

section \<open>Majorities\<close>

text \<open>
  The interface every quorum argument uses: a family of sets that pairwise intersect. The
  election and the read barrier count \<^verbatim>\<open>len(members) // 2 + 1\<close> members.
\<close>

locale quorum_system =
  fixes quorum :: "'a set \<Rightarrow> bool"
  assumes quorum_intersect: "quorum A \<Longrightarrow> quorum B \<Longrightarrow> A \<inter> B \<noteq> {}"
begin

lemma quorum_nonempty: "quorum A \<Longrightarrow> A \<noteq> {}"
  using quorum_intersect [of A A] by simp

text \<open>A function cannot be constant on two quorums with two values.\<close>

lemma quorum_value_unique:
  assumes "quorum A" and "quorum B"
    and "\<And>x. x \<in> A \<Longrightarrow> R x a" and "\<And>x. x \<in> B \<Longrightarrow> R x b"
    and "\<And>x. R x a \<Longrightarrow> R x b \<Longrightarrow> a = b"
  shows "a = b"
  using quorum_intersect [OF assms(1,2)] assms(3-5) by blast

end

definition majority :: "'a set \<Rightarrow> 'a set \<Rightarrow> bool" where
  "majority M A = (A \<subseteq> M \<and> card M div 2 + 1 \<le> card A)"

lemma majority_intersect:
  assumes "finite M" and "majority M A" and "majority M B"
  shows "A \<inter> B \<noteq> {}"
proof
  assume disj: "A \<inter> B = {}"
  have fin: "finite A" "finite B"
    using assms by (auto simp: majority_def intro: finite_subset)
  have "card A + card B = card (A \<union> B)"
    using fin disj by (simp add: card_Un_disjoint)
  also have "\<dots> \<le> card M"
    using assms by (auto simp: majority_def intro: card_mono)
  finally have "card A + card B \<le> card M" .
  moreover have "card M div 2 + 1 \<le> card A" "card M div 2 + 1 \<le> card B"
    using assms(2,3) by (simp_all add: majority_def)
  ultimately show False by linarith
qed

interpretation majority_quorum: quorum_system "\<lambda>A. finite M \<and> majority M A" for M
  by unfold_locales (blast dest: majority_intersect)

end
