(* ===== verification/PyJson.thy ===== *)
theory PyJson
  imports RaftPrelude
begin

text \<open>
  JSON values as \<^verbatim>\<open>json.loads\<close> returns them, and the conversions the decoders apply to them:
  \<^verbatim>\<open>int()\<close>, \<^verbatim>\<open>str()\<close>, \<^verbatim>\<open>bool()\<close>, subscription, \<^verbatim>\<open>.get()\<close> and iteration. Numbers are integers:
  a float in a message or a file is outside the model. Characters are code points below 256.
  An object is a dictionary, its keys distinct.
\<close>

section \<open>Values\<close>

datatype json =
    JNull
  | JBool bool
  | JInt int
  | JStr string
  | JList "json list"
  | JObj "(string \<times> json) list"

definition json_item :: "json \<Rightarrow> string \<Rightarrow> json result" where
  "json_item j k = (case j of JObj d \<Rightarrow> dict_item d k | _ \<Rightarrow> Err TypeError)"

text \<open>\<^verbatim>\<open>j.get(k, default)\<close>: an object that is not a dictionary has no such attribute.\<close>

definition json_get :: "json \<Rightarrow> string \<Rightarrow> json \<Rightarrow> json result" where
  "json_get j k dflt =
     (case j of JObj d \<Rightarrow> Ok (case map_of d k of None \<Rightarrow> dflt | Some v \<Rightarrow> v)
      | _ \<Rightarrow> Err AttributeError)"

text \<open>\<^verbatim>\<open>for x in j\<close>: a list, the keys of a dictionary, the characters of a string.\<close>

definition json_iter :: "json \<Rightarrow> json list result" where
  "json_iter j =
     (case j of JList xs \<Rightarrow> Ok xs
      | JObj d \<Rightarrow> Ok (map (\<lambda>(k, _). JStr k) d)
      | JStr s \<Rightarrow> Ok (map (\<lambda>c. JStr [c]) s)
      | _ \<Rightarrow> Err TypeError)"

section \<open>Truth\<close>

definition py_bool :: "json \<Rightarrow> bool" where
  "py_bool j =
     (case j of JNull \<Rightarrow> False | JBool b \<Rightarrow> b | JInt n \<Rightarrow> n \<noteq> 0 | JStr s \<Rightarrow> s \<noteq> []
      | JList xs \<Rightarrow> xs \<noteq> [] | JObj d \<Rightarrow> d \<noteq> [])"

section \<open>Integers\<close>

definition char_code :: "char \<Rightarrow> int" where
  "char_code c = int (of_char c)"

definition is_space :: "char \<Rightarrow> bool" where
  "is_space c = (char_code c \<in> {9, 10, 11, 12, 13, 28, 29, 30, 31, 32, 133, 160})"

definition py_strip :: "string \<Rightarrow> string" where
  "py_strip s = rev (dropWhile is_space (rev (dropWhile is_space s)))"

text \<open>Digits, with single underscores between them.\<close>

fun parse_digits :: "int \<Rightarrow> bool \<Rightarrow> string \<Rightarrow> int option" where
  "parse_digits acc after_digit [] = (if after_digit then Some acc else None)"
| "parse_digits acc after_digit (c # cs) =
     (if 48 \<le> char_code c \<and> char_code c \<le> 57
      then parse_digits (10 * acc + (char_code c - 48)) True cs
      else if char_code c = 95 \<and> after_digit then parse_digits acc False cs
      else None)"

definition int_of_string :: "string \<Rightarrow> int option" where
  "int_of_string s =
     (case py_strip s of
        [] \<Rightarrow> None
      | c # cs \<Rightarrow>
          (if char_code c = 45 then map_option uminus (parse_digits 0 False cs)
           else if char_code c = 43 then parse_digits 0 False cs
           else parse_digits 0 False (c # cs)))"

definition py_int :: "json \<Rightarrow> int result" where
  "py_int j =
     (case j of
        JInt n \<Rightarrow> Ok n
      | JBool b \<Rightarrow> Ok (if b then 1 else 0)
      | JStr s \<Rightarrow> (case int_of_string s of None \<Rightarrow> Err ValueError | Some n \<Rightarrow> Ok n)
      | _ \<Rightarrow> Err TypeError)"

section \<open>Strings\<close>

definition digit_char :: "nat \<Rightarrow> char" where
  "digit_char n = char_of (if n < 10 then 48 + n else 87 + n)"

fun show_nat :: "nat \<Rightarrow> string" where
  "show_nat n = (if n < 10 then [digit_char n] else show_nat (n div 10) @ [digit_char (n mod 10)])"

declare show_nat.simps [simp del]

definition show_int :: "int \<Rightarrow> string" where
  "show_int n = (if n < 0 then ''-'' @ show_nat (nat (- n)) else show_nat (nat n))"

fun join :: "string \<Rightarrow> string list \<Rightarrow> string" where
  "join sep [] = []"
| "join sep [x] = x"
| "join sep (x # y # ys) = x @ sep @ join sep (y # ys)"

text \<open>\<^verbatim>\<open>repr\<close> of a string: single quotes unless it holds one and no double quote; escapes.\<close>

definition quote :: char where
  "quote = char_of (39 :: nat)"

definition repr_char :: "char \<Rightarrow> char \<Rightarrow> string" where
  "repr_char q c =
     (let n = char_code c; backslash = char_of (92 :: nat) in
      if c = q \<or> c = backslash then [backslash, c]
      else if n = 9 then [backslash, CHR ''t'']
      else if n = 10 then [backslash, CHR ''n'']
      else if n = 13 then [backslash, CHR ''r'']
      else if n < 32 \<or> 127 \<le> n \<and> n \<le> 160 \<or> n = 173
      then [backslash, CHR ''x'', digit_char (nat n div 16), digit_char (nat n mod 16)]
      else [c])"

definition repr_string :: "string \<Rightarrow> string" where
  "repr_string s =
     (let q = (if quote \<in> set s \<and> CHR 34 \<notin> set s then CHR 34 else quote)
      in [q] @ concat (map (repr_char q) s) @ [q])"

fun py_repr :: "json \<Rightarrow> string" where
  "py_repr JNull = ''None''"
| "py_repr (JBool b) = (if b then ''True'' else ''False'')"
| "py_repr (JInt n) = show_int n"
| "py_repr (JStr s) = repr_string s"
| "py_repr (JList xs) = ''['' @ join '', '' (map py_repr xs) @ '']''"
| "py_repr (JObj d) =
     ''{'' @ join '', '' (map (\<lambda>p. repr_string (fst p) @ '': '' @ py_repr (snd p)) d) @ ''}''"

definition py_str :: "json \<Rightarrow> string" where
  "py_str j = (case j of JStr s \<Rightarrow> s | _ \<Rightarrow> py_repr j)"

section \<open>Conversions of encoded values\<close>

text \<open>The exception classes an \<^verbatim>\<open>except\<close> clause names become the class it raises.\<close>

definition catch :: "error set \<Rightarrow> error \<Rightarrow> 'a result \<Rightarrow> 'a result" where
  "catch es e r = (case r of Inl x \<Rightarrow> Err (if x \<in> es then e else x) | Inr v \<Rightarrow> Ok v)"

lemma catch_Ok [simp]: "catch es e (Ok v) = Ok v" "catch es e r = Ok v \<longleftrightarrow> r = Ok v"
  by (auto simp: catch_def split: sum.splits)

lemma catch_Err: "catch es e (Err x) = Err (if x \<in> es then e else x)"
  by (simp add: catch_def)

lemma conversions [simp]:
  "py_int (JInt n) = Ok n" "py_str (JStr s) = s" "py_bool (JBool b) = b"
  "json_item (JObj d) k = dict_item d k"
  "json_get (JObj d) k j = Ok (case map_of d k of None \<Rightarrow> j | Some v \<Rightarrow> v)"
  "json_iter (JList xs) = Ok xs"
  by (simp_all add: py_int_def py_str_def py_bool_def json_item_def json_get_def json_iter_def)

lemma dict_item_Cons [simp]: "dict_item ((k', v) # d) k = (if k = k' then Ok v else dict_item d k)"
  by (simp add: dict_item_def)

text \<open>An optional string is encoded as a string or null.\<close>

definition json_opt :: "string option \<Rightarrow> json" where
  "json_opt x = (case x of None \<Rightarrow> JNull | Some s \<Rightarrow> JStr s)"

text \<open>\<^verbatim>\<open>{str(k): str(v) for k, v in d.items()}\<close>; the keys of a JSON object are strings.\<close>

definition str_items :: "(string \<times> json) list \<Rightarrow> (string, string) dict" where
  "str_items d = map (\<lambda>(k, v). (k, py_str v)) d"

definition json_of_dict :: "(string, string) dict \<Rightarrow> json" where
  "json_of_dict d = JObj (map (\<lambda>(k, v). (k, JStr v)) d)"

lemma str_items_json [encode, simp]: "str_items (map (\<lambda>(k, v). (k, JStr v)) d) = d"
  by (simp add: str_items_def case_prod_beta comp_def)

text \<open>Rendering an integer and reading it back.\<close>

lemma char_code_digit: "n < 10 \<Longrightarrow> char_code (digit_char n) = 48 + int n"
  by (simp add: char_code_def digit_char_def take_bit_eq_mod)

lemma show_nat_nonempty: "show_nat n \<noteq> []"
  by (subst show_nat.simps) simp

lemma parse_digits_append:
  "parse_digits acc b (show_nat n @ cs) =
     parse_digits (acc * 10 ^ length (show_nat n) + int n) True cs"
proof (induction n arbitrary: acc b cs rule: show_nat.induct)
  case (1 n)
  show ?case
  proof (cases "n < 10")
    case True
    then show ?thesis by (subst (1 2) show_nat.simps) (simp add: char_code_digit algebra_simps)
  next
    case False
    have digit: "char_code (digit_char (n mod 10)) = 48 + int (n mod 10)"
      by (rule char_code_digit) simp
    have nine: "n mod 10 \<le> 9" using mod_less_divisor [of 10 n] by linarith
    have "parse_digits acc b (show_nat n @ cs) =
        parse_digits acc b (show_nat (n div 10) @ digit_char (n mod 10) # cs)"
      using False by (subst show_nat.simps) simp
    also have "\<dots> = parse_digits (acc * 10 ^ length (show_nat (n div 10)) + int (n div 10)) True
        (digit_char (n mod 10) # cs)"
      using False by (rule "1.IH")
    also have "\<dots> = parse_digits (10 * (acc * 10 ^ length (show_nat (n div 10)) + int (n div 10))
        + int (n mod 10)) True cs"
      using nine by (simp add: digit)
    also have "10 * (acc * 10 ^ length (show_nat (n div 10)) + int (n div 10)) + int (n mod 10) =
        acc * 10 ^ length (show_nat n) + int n"
    proof -
      have "10 * int (n div 10) + int (n mod 10) = int n"
        by (metis mult_div_mod_eq of_nat_add of_nat_mult of_nat_numeral)
      moreover have "length (show_nat n) = Suc (length (show_nat (n div 10)))"
        using False by (subst show_nat.simps) simp
      ultimately show ?thesis by (simp add: algebra_simps)
    qed
    finally show ?thesis .
  qed
qed

lemma py_strip_id:
  assumes "s \<noteq> []" "\<not> is_space (hd s)" "\<not> is_space (last s)"
  shows "py_strip s = s"
proof -
  have "dropWhile is_space s = s" using assms(1,2) by (cases s) auto
  moreover have "dropWhile is_space (rev s) = rev s"
    using assms(1,3) by (cases s rule: rev_cases) auto
  ultimately show ?thesis by (simp add: py_strip_def)
qed

lemma show_nat_digits: "c \<in> set (show_nat n) \<Longrightarrow> 48 \<le> char_code c \<and> char_code c \<le> 57"
proof (induction n rule: show_nat.induct)
  case (1 n)
  have "char_code (digit_char (n mod 10)) = 48 + int (n mod 10)" "n mod 10 \<le> 9"
    using mod_less_divisor [of 10 n] by (auto intro: char_code_digit)
  then show ?case using 1 by (subst (asm) (2) show_nat.simps) (auto simp: char_code_digit split: if_splits)
qed

lemma not_space_digit: "48 \<le> char_code c \<Longrightarrow> char_code c \<le> 57 \<Longrightarrow> \<not> is_space c"
  by (auto simp: is_space_def)

lemma show_nat_not_space: "c \<in> set (show_nat n) \<Longrightarrow> \<not> is_space c"
  using show_nat_digits not_space_digit by blast

text \<open>\<^verbatim>\<open>int(str(n)) == n\<close>: an integer that was sent as a string decodes to itself.\<close>

lemma int_of_show_int: "int_of_string (show_int n) = Some n"
proof (cases "n < 0")
  case True
  let ?s = "show_nat (nat (- n))"
  have minus: "char_code CHR ''-'' = 45" by (simp add: char_code_def)
  have "last (CHR ''-'' # ?s) \<in> set ?s" using show_nat_nonempty by simp
  then have "\<not> is_space (last (CHR ''-'' # ?s))"
    using show_nat_not_space [of "last (CHR ''-'' # ?s)" "nat (- n)"] by blast
  moreover have "\<not> is_space CHR ''-''" by (simp add: is_space_def minus)
  ultimately have "py_strip (CHR ''-'' # ?s) = CHR ''-'' # ?s"
    by (intro py_strip_id) simp_all
  then show ?thesis
    using parse_digits_append [of 0 False "nat (- n)" "[]"] True
    by (simp add: int_of_string_def show_int_def minus)
next
  case False
  let ?s = "show_nat (nat n)"
  obtain c cs where s: "?s = c # cs" using show_nat_nonempty by (cases ?s) auto
  have c: "48 \<le> char_code c" "char_code c \<le> 57" using show_nat_digits [of c "nat n"] s by simp_all
  have "py_strip ?s = ?s"
    using show_nat_not_space [of "hd ?s" "nat n"] show_nat_not_space [of "last ?s" "nat n"]
      show_nat_nonempty by (intro py_strip_id) simp_all
  then show ?thesis
    using parse_digits_append [of 0 False "nat n" "[]"] False c
    by (simp add: int_of_string_def show_int_def s)
qed

lemma py_int_show_int [simp]: "py_int (JStr (show_int n)) = Ok n"
  by (simp add: py_int_def int_of_show_int)

end
