(* ===== verification/RaftTypes.thy ===== *)
theory RaftTypes
  imports RaftPrelude
begin

text \<open>
  The data of the consensus group: log commands and entries (\<^verbatim>\<open>raft/log.py\<close>), the messages
  (\<^verbatim>\<open>raft/rpc.py\<close>), the snapshot (\<^verbatim>\<open>raft/snapshot.py\<close>) and the per-node state with its role
  transitions (\<^verbatim>\<open>raft/state.py\<close>). Terms and indexes are Python integers.
\<close>

section \<open>Commands and entries\<close>

record raft_command =
  operation :: string
  cmd_key :: string
  cmd_value :: "string option"

record log_entry =
  entry_index :: int
  entry_term :: int
  entry_command :: raft_command

section \<open>Messages\<close>

record request_vote_request =
  rv_term :: int
  rv_candidate_id :: string
  rv_last_log_index :: int
  rv_last_log_term :: int

record request_vote_response =
  rvr_term :: int
  rvr_vote_granted :: bool

record append_entries_request =
  ae_term :: int
  ae_leader_id :: string
  ae_prev_log_index :: int
  ae_prev_log_term :: int
  ae_entries :: "log_entry list"
  ae_leader_commit :: int

record append_entries_response =
  aer_term :: int
  aer_success :: bool

record timeout_now_request =
  tn_term :: int
  tn_leader_id :: string

record timeout_now_response =
  tnr_term :: int
  tnr_accepted :: bool

record install_snapshot_request =
  is_term :: int
  is_leader_id :: string
  is_last_included_index :: int
  is_last_included_term :: int
  is_state :: "(string, string) dict"

record install_snapshot_response =
  isr_term :: int
  isr_success :: bool

section \<open>Snapshots\<close>

record raft_snapshot =
  last_included_index :: int
  last_included_term :: int
  snapshot_state :: "(string, string) dict"
  version :: int

text \<open>The dataclass constructor runs \<open>__post_init__\<close>, which validates the fields in order.\<close>

definition snapshot_post_init :: "raft_snapshot \<Rightarrow> raft_snapshot result" where
  "snapshot_post_init s =
     (if version s \<noteq> 1 then Err ValueError
      else if last_included_index s < 0 then Err ValueError
      else if last_included_term s < 0 then Err ValueError
      else if last_included_index s = 0 \<and> last_included_term s \<noteq> 0 then Err ValueError
      else Ok s)"

definition raft_snapshot :: "int \<Rightarrow> int \<Rightarrow> (string, string) dict \<Rightarrow> int \<Rightarrow> raft_snapshot result" where
  "raft_snapshot idx trm st ver =
     snapshot_post_init \<lparr>last_included_index = idx, last_included_term = trm,
                         snapshot_state = st, version = ver\<rparr>"

text \<open>\<^verbatim>\<open>RaftSnapshot()\<close>: the defaults, the empty boundary at index and term zero.\<close>

definition empty_snapshot :: raft_snapshot where
  "empty_snapshot = \<lparr>last_included_index = 0, last_included_term = 0, snapshot_state = [], version = 1\<rparr>"

definition wf_snapshot :: "raft_snapshot \<Rightarrow> bool" where
  "wf_snapshot s = (version s = 1 \<and> 0 \<le> last_included_index s \<and> 0 \<le> last_included_term s \<and>
     (last_included_index s = 0 \<longrightarrow> last_included_term s = 0))"

lemma snapshot_post_init_iff: "snapshot_post_init s = Ok t \<longleftrightarrow> t = s \<and> wf_snapshot s"
  by (auto simp: snapshot_post_init_def wf_snapshot_def)

lemma snapshot_post_init_wf [simp]: "wf_snapshot s \<Longrightarrow> snapshot_post_init s = Ok s"
  by (simp add: snapshot_post_init_iff)

lemma wf_empty_snapshot [wf, simp]: "wf_snapshot empty_snapshot"
  by (simp add: wf_snapshot_def empty_snapshot_def)

lemma raft_snapshot_OkD: "raft_snapshot i t st v = Ok s \<Longrightarrow>
    wf_snapshot s \<and> last_included_index s = i \<and> last_included_term s = t \<and>
    snapshot_state s = st \<and> version s = v"
  by (simp add: raft_snapshot_def snapshot_post_init_iff)

lemma raft_snapshot_Ok:
  "\<lbrakk>0 \<le> i; 0 \<le> t; i = 0 \<longrightarrow> t = 0\<rbrakk> \<Longrightarrow>
   raft_snapshot i t st 1 = Ok \<lparr>last_included_index = i, last_included_term = t,
                              snapshot_state = st, version = 1\<rparr>"
  by (simp add: raft_snapshot_def wf_snapshot_def)

lemma raft_snapshot_self [simp]:
  "wf_snapshot s \<Longrightarrow> raft_snapshot (last_included_index s) (last_included_term s)
     (snapshot_state s) (version s) = Ok s"
  by (cases s) (simp add: raft_snapshot_def)

section \<open>Per-node state\<close>

datatype node_role = FOLLOWER | CANDIDATE | LEADER

fun role_value :: "node_role \<Rightarrow> string" where
  "role_value FOLLOWER = ''follower''"
| "role_value CANDIDATE = ''candidate''"
| "role_value LEADER = ''leader''"

record raft_state =
  node_id :: string
  commit_index :: int
  current_term :: int
  voted_for :: "string option"
  leader_id :: "string option"
  role :: node_role
  last_applied :: int

text \<open>\<^verbatim>\<open>RaftState(node_id=...)\<close>: every other field has its default.\<close>

definition raft_state_default :: "string \<Rightarrow> raft_state" where
  "raft_state_default nid = \<lparr>node_id = nid, commit_index = 0, current_term = 0, voted_for = None,
     leader_id = None, role = FOLLOWER, last_applied = 0\<rparr>"

definition become_follower :: "int \<Rightarrow> string option \<Rightarrow> raft_state \<Rightarrow> raft_state result" where
  "become_follower trm lid s =
     (if trm < current_term s then Err ValueError
      else let s = (if current_term s < trm then s\<lparr>voted_for := None\<rparr> else s)
           in Ok (s\<lparr>current_term := trm, role := FOLLOWER, leader_id := lid\<rparr>))"

definition become_candidate :: "raft_state \<Rightarrow> raft_state" where
  "become_candidate s = s\<lparr>current_term := current_term s + 1, role := CANDIDATE,
     voted_for := Some (node_id s), leader_id := None\<rparr>"

definition become_leader :: "raft_state \<Rightarrow> raft_state result" where
  "become_leader s =
     (if role s \<noteq> CANDIDATE then Err RuntimeError
      else Ok (s\<lparr>role := LEADER, leader_id := Some (node_id s)\<rparr>))"

subsection \<open>Role transitions\<close>

lemma become_follower_Ok:
  "current_term s \<le> trm \<Longrightarrow> become_follower trm lid s =
     Ok (s\<lparr>voted_for := (if current_term s < trm then None else voted_for s),
           current_term := trm, role := FOLLOWER, leader_id := lid\<rparr>)"
  by (simp add: become_follower_def)

lemma become_follower_Err: "trm < current_term s \<Longrightarrow> become_follower trm lid s = Err ValueError"
  by (simp add: become_follower_def)

lemma become_follower_OkD:
  assumes "become_follower trm lid s = Ok s'"
  shows "current_term s \<le> trm" "current_term s' = trm" "role s' = FOLLOWER" "leader_id s' = lid"
    "voted_for s' = (if current_term s < trm then None else voted_for s)"
    "node_id s' = node_id s" "commit_index s' = commit_index s" "last_applied s' = last_applied s"
  using assms by (auto simp: become_follower_def Let_def split: if_splits)

lemma become_candidate_simps [simp]:
  "current_term (become_candidate s) = current_term s + 1" "role (become_candidate s) = CANDIDATE"
  "voted_for (become_candidate s) = Some (node_id s)" "leader_id (become_candidate s) = None"
  "node_id (become_candidate s) = node_id s" "commit_index (become_candidate s) = commit_index s"
  "last_applied (become_candidate s) = last_applied s"
  by (simp_all add: become_candidate_def)

text \<open>
  The contract on term and vote that the election argument needs of every transition: the
  term never decreases, and within a term a vote once given never changes.
\<close>

definition vote_step :: "raft_state \<Rightarrow> raft_state \<Rightarrow> bool" where
  "vote_step s s' = (node_id s' = node_id s \<and> current_term s \<le> current_term s' \<and>
     (current_term s' = current_term s \<longrightarrow> voted_for s \<noteq> None \<longrightarrow> voted_for s' = voted_for s))"

lemma vote_step_refl [simp, intro]: "vote_step s s"
  by (simp add: vote_step_def)

lemma vote_step_trans [trans]: "vote_step a b \<Longrightarrow> vote_step b c \<Longrightarrow> vote_step a c"
  by (auto simp: vote_step_def)

lemma vote_step_become_follower: "become_follower t l s = Ok s' \<Longrightarrow> vote_step s s'"
  by (auto simp: vote_step_def become_follower_def Let_def split: if_splits)

lemma vote_step_become_candidate: "vote_step s (become_candidate s)"
  by (simp add: vote_step_def)

lemma vote_step_become_leader: "become_leader s = Ok s' \<Longrightarrow> vote_step s s'"
  by (auto simp: vote_step_def become_leader_def split: if_splits)

end
