(* ===== verification/Serialization.thy ===== *)
theory Serialization
  imports PyJson RaftTypes
begin

text \<open>
  The wire format of \<^verbatim>\<open>transport/serialization.py\<close>: each message and log entry as a JSON
  object, and back. A decoder reads its fields in the order of the code and raises the
  exception of the first that fails. Decoding inverts encoding for every message; the facts
  are the collection \<open>encode\<close>.
\<close>

section \<open>Votes\<close>

definition request_vote_to_dict :: "request_vote_request \<Rightarrow> json" where
  "request_vote_to_dict request =
     JObj [(''term'', JInt (rv_term request)),
           (''candidate_id'', JStr (rv_candidate_id request)),
           (''last_log_index'', JInt (rv_last_log_index request)),
           (''last_log_term'', JInt (rv_last_log_term request))]"

text \<open>\<^verbatim>\<open>int(data[k])\<close> and \<^verbatim>\<open>str(data[k])\<close>.\<close>

definition int_item :: "json \<Rightarrow> string \<Rightarrow> int result" where
  "int_item data k = (case json_item data k of Inl e \<Rightarrow> Err e | Inr j \<Rightarrow> py_int j)"

definition str_item :: "json \<Rightarrow> string \<Rightarrow> string result" where
  "str_item data k = (case json_item data k of Inl e \<Rightarrow> Err e | Inr j \<Rightarrow> Ok (py_str j))"

definition bool_item :: "json \<Rightarrow> string \<Rightarrow> bool result" where
  "bool_item data k = (case json_item data k of Inl e \<Rightarrow> Err e | Inr j \<Rightarrow> Ok (py_bool j))"

definition request_vote_from_dict :: "json \<Rightarrow> request_vote_request result" where
  "request_vote_from_dict data =
     (case int_item data ''term'' of Inl e \<Rightarrow> Err e | Inr trm \<Rightarrow>
     (case str_item data ''candidate_id'' of Inl e \<Rightarrow> Err e | Inr candidate_id \<Rightarrow>
     (case int_item data ''last_log_index'' of Inl e \<Rightarrow> Err e | Inr last_log_index \<Rightarrow>
     (case int_item data ''last_log_term'' of Inl e \<Rightarrow> Err e | Inr last_log_term \<Rightarrow>
        Ok \<lparr>rv_term = trm, rv_candidate_id = candidate_id, rv_last_log_index = last_log_index,
            rv_last_log_term = last_log_term\<rparr>))))"

definition request_vote_response_to_dict :: "request_vote_response \<Rightarrow> json" where
  "request_vote_response_to_dict response =
     JObj [(''term'', JInt (rvr_term response)),
           (''vote_granted'', JBool (rvr_vote_granted response))]"

definition request_vote_response_from_dict :: "json \<Rightarrow> request_vote_response result" where
  "request_vote_response_from_dict data =
     (case int_item data ''term'' of Inl e \<Rightarrow> Err e | Inr trm \<Rightarrow>
     (case bool_item data ''vote_granted'' of Inl e \<Rightarrow> Err e | Inr granted \<Rightarrow>
        Ok \<lparr>rvr_term = trm, rvr_vote_granted = granted\<rparr>))"

section \<open>Commands and entries\<close>

definition command_to_dict :: "raft_command \<Rightarrow> json" where
  "command_to_dict command =
     JObj [(''operation'', JStr (operation command)), (''key'', JStr (cmd_key command)),
           (''value'', json_opt (cmd_value command))]"

definition command_from_dict :: "json \<Rightarrow> raft_command result" where
  "command_from_dict data =
     (case json_get data ''value'' JNull of Inl e \<Rightarrow> Err e | Inr v \<Rightarrow>
     (case str_item data ''operation'' of Inl e \<Rightarrow> Err e | Inr oper \<Rightarrow>
     (case str_item data ''key'' of Inl e \<Rightarrow> Err e | Inr k \<Rightarrow>
        Ok \<lparr>operation = oper, cmd_key = k,
            cmd_value = (if v \<noteq> JNull then Some (py_str v) else None)\<rparr>)))"

definition log_entry_to_dict :: "log_entry \<Rightarrow> json" where
  "log_entry_to_dict entry =
     JObj [(''index'', JInt (entry_index entry)), (''term'', JInt (entry_term entry)),
           (''command'', command_to_dict (entry_command entry))]"

definition log_entry_from_dict :: "json \<Rightarrow> log_entry result" where
  "log_entry_from_dict data =
     (case int_item data ''index'' of Inl e \<Rightarrow> Err e | Inr idx \<Rightarrow>
     (case int_item data ''term'' of Inl e \<Rightarrow> Err e | Inr trm \<Rightarrow>
     (case json_item data ''command'' of Inl e \<Rightarrow> Err e | Inr c \<Rightarrow>
     (case command_from_dict c of Inl e \<Rightarrow> Err e | Inr command \<Rightarrow>
        Ok \<lparr>entry_index = idx, entry_term = trm, entry_command = command\<rparr>))))"

section \<open>AppendEntries\<close>

definition append_entries_to_dict :: "append_entries_request \<Rightarrow> json" where
  "append_entries_to_dict request =
     JObj [(''term'', JInt (ae_term request)), (''leader_id'', JStr (ae_leader_id request)),
           (''prev_log_index'', JInt (ae_prev_log_index request)),
           (''prev_log_term'', JInt (ae_prev_log_term request)),
           (''entries'', JList (map log_entry_to_dict (ae_entries request))),
           (''leader_commit'', JInt (ae_leader_commit request))]"

definition append_entries_from_dict :: "json \<Rightarrow> append_entries_request result" where
  "append_entries_from_dict data =
     (case int_item data ''term'' of Inl e \<Rightarrow> Err e | Inr trm \<Rightarrow>
     (case str_item data ''leader_id'' of Inl e \<Rightarrow> Err e | Inr lid \<Rightarrow>
     (case int_item data ''prev_log_index'' of Inl e \<Rightarrow> Err e | Inr prev_index \<Rightarrow>
     (case int_item data ''prev_log_term'' of Inl e \<Rightarrow> Err e | Inr prev_term \<Rightarrow>
     (case json_get data ''entries'' (JList []) of Inl e \<Rightarrow> Err e | Inr raw \<Rightarrow>
     (case json_iter raw of Inl e \<Rightarrow> Err e | Inr raw_entries \<Rightarrow>
     (case map_result log_entry_from_dict raw_entries of Inl e \<Rightarrow> Err e | Inr es \<Rightarrow>
     (case int_item data ''leader_commit'' of Inl e \<Rightarrow> Err e | Inr commit \<Rightarrow>
        Ok \<lparr>ae_term = trm, ae_leader_id = lid, ae_prev_log_index = prev_index,
            ae_prev_log_term = prev_term, ae_entries = es, ae_leader_commit = commit\<rparr>))))))))"

definition append_entries_response_to_dict :: "append_entries_response \<Rightarrow> json" where
  "append_entries_response_to_dict response =
     JObj [(''term'', JInt (aer_term response)), (''success'', JBool (aer_success response))]"

definition append_entries_response_from_dict :: "json \<Rightarrow> append_entries_response result" where
  "append_entries_response_from_dict data =
     (case int_item data ''term'' of Inl e \<Rightarrow> Err e | Inr trm \<Rightarrow>
     (case bool_item data ''success'' of Inl e \<Rightarrow> Err e | Inr success \<Rightarrow>
        Ok \<lparr>aer_term = trm, aer_success = success\<rparr>))"

section \<open>TimeoutNow\<close>

definition timeout_now_to_dict :: "timeout_now_request \<Rightarrow> json" where
  "timeout_now_to_dict request =
     JObj [(''term'', JInt (tn_term request)), (''leader_id'', JStr (tn_leader_id request))]"

definition timeout_now_from_dict :: "json \<Rightarrow> timeout_now_request result" where
  "timeout_now_from_dict data =
     (case int_item data ''term'' of Inl e \<Rightarrow> Err e | Inr trm \<Rightarrow>
     (case str_item data ''leader_id'' of Inl e \<Rightarrow> Err e | Inr lid \<Rightarrow>
        Ok \<lparr>tn_term = trm, tn_leader_id = lid\<rparr>))"

definition timeout_now_response_to_dict :: "timeout_now_response \<Rightarrow> json" where
  "timeout_now_response_to_dict response =
     JObj [(''term'', JInt (tnr_term response)), (''accepted'', JBool (tnr_accepted response))]"

definition timeout_now_response_from_dict :: "json \<Rightarrow> timeout_now_response result" where
  "timeout_now_response_from_dict data =
     (case int_item data ''term'' of Inl e \<Rightarrow> Err e | Inr trm \<Rightarrow>
     (case bool_item data ''accepted'' of Inl e \<Rightarrow> Err e | Inr accepted \<Rightarrow>
        Ok \<lparr>tnr_term = trm, tnr_accepted = accepted\<rparr>))"

section \<open>InstallSnapshot\<close>

definition install_snapshot_to_dict :: "install_snapshot_request \<Rightarrow> json" where
  "install_snapshot_to_dict request =
     JObj [(''term'', JInt (is_term request)), (''leader_id'', JStr (is_leader_id request)),
           (''last_included_index'', JInt (is_last_included_index request)),
           (''last_included_term'', JInt (is_last_included_term request)),
           (''state'', json_of_dict (is_state request))]"

definition install_snapshot_from_dict :: "json \<Rightarrow> install_snapshot_request result" where
  "install_snapshot_from_dict data =
     (case json_item data ''state'' of
        Inl e \<Rightarrow> Err e
      | Inr (JObj raw_state) \<Rightarrow>
          (case int_item data ''term'' of Inl e \<Rightarrow> Err e | Inr trm \<Rightarrow>
          (case str_item data ''leader_id'' of Inl e \<Rightarrow> Err e | Inr lid \<Rightarrow>
          (case int_item data ''last_included_index'' of Inl e \<Rightarrow> Err e | Inr idx \<Rightarrow>
          (case int_item data ''last_included_term'' of Inl e \<Rightarrow> Err e | Inr idx_term \<Rightarrow>
             Ok \<lparr>is_term = trm, is_leader_id = lid, is_last_included_index = idx,
                 is_last_included_term = idx_term, is_state = str_items raw_state\<rparr>))))
      | Inr _ \<Rightarrow> Err TypeError)"

definition install_snapshot_response_to_dict :: "install_snapshot_response \<Rightarrow> json" where
  "install_snapshot_response_to_dict response =
     JObj [(''term'', JInt (isr_term response)), (''success'', JBool (isr_success response))]"

definition install_snapshot_response_from_dict :: "json \<Rightarrow> install_snapshot_response result" where
  "install_snapshot_response_from_dict data =
     (case int_item data ''term'' of Inl e \<Rightarrow> Err e | Inr trm \<Rightarrow>
     (case bool_item data ''success'' of Inl e \<Rightarrow> Err e | Inr success \<Rightarrow>
        Ok \<lparr>isr_term = trm, isr_success = success\<rparr>))"

section \<open>Decoding inverts encoding\<close>

lemmas items = int_item_def str_item_def bool_item_def

lemma vote_roundtrip [encode]:
  "request_vote_from_dict (request_vote_to_dict a) = Ok a"
  "request_vote_response_from_dict (request_vote_response_to_dict b) = Ok b"
  by (simp_all add: items request_vote_from_dict_def request_vote_to_dict_def
      request_vote_response_from_dict_def request_vote_response_to_dict_def)

lemma command_roundtrip [encode, simp]: "command_from_dict (command_to_dict c) = Ok c"
  by (simp add: items command_from_dict_def command_to_dict_def json_opt_def split: option.splits)

lemma log_entry_roundtrip [encode, simp]: "log_entry_from_dict (log_entry_to_dict e) = Ok e"
  by (simp add: items log_entry_from_dict_def log_entry_to_dict_def)

lemma append_entries_roundtrip [encode]:
  "append_entries_from_dict (append_entries_to_dict a) = Ok a"
  "append_entries_response_from_dict (append_entries_response_to_dict b) = Ok b"
  by (simp_all add: items append_entries_from_dict_def append_entries_to_dict_def map_result_map
      append_entries_response_from_dict_def append_entries_response_to_dict_def)

lemma timeout_now_roundtrip [encode]:
  "timeout_now_from_dict (timeout_now_to_dict a) = Ok a"
  "timeout_now_response_from_dict (timeout_now_response_to_dict b) = Ok b"
  by (simp_all add: items timeout_now_from_dict_def timeout_now_to_dict_def
      timeout_now_response_from_dict_def timeout_now_response_to_dict_def)

lemma install_snapshot_roundtrip [encode]:
  "install_snapshot_from_dict (install_snapshot_to_dict a) = Ok a"
  "install_snapshot_response_from_dict (install_snapshot_response_to_dict b) = Ok b"
  by (simp_all add: items install_snapshot_from_dict_def install_snapshot_to_dict_def json_of_dict_def
      install_snapshot_response_from_dict_def install_snapshot_response_to_dict_def)

end
