(* ===== verification/RaftLog.thy ===== *)
theory RaftLog
  imports RaftTypes
begin

text \<open>
  The log of \<^verbatim>\<open>raft/log.py\<close>: a boundary (\<open>base_index\<close>, \<open>base_term\<close>) below which entries have been
  compacted away, and the retained entries, addressed by their logical index. Every log the
  constructor builds is contiguous (\<open>wf_log\<close>), and every method keeps it so. The methods are
  specified by what \<open>log_get\<close> and \<open>term_at\<close> see afterwards.
\<close>

section \<open>The class\<close>

record raft_log =
  base_index :: int
  base_term :: int
  entries :: "log_entry list"

definition first_index :: "raft_log \<Rightarrow> int" where
  "first_index l = base_index l + 1"

definition last_index :: "raft_log \<Rightarrow> int" where
  "last_index l = (if entries l = [] then base_index l else entry_index (last (entries l)))"

definition last_term :: "raft_log \<Rightarrow> int" where
  "last_term l = (if entries l = [] then base_term l else entry_term (last (entries l)))"

definition append_entry :: "log_entry \<Rightarrow> raft_log \<Rightarrow> raft_log result" where
  "append_entry entry l =
     (let expected_index = last_index l + 1
      in if entry_index entry \<noteq> expected_index then Err ValueError
         else Ok (l\<lparr>entries := entries l @ [entry]\<rparr>))"

definition raft_log_init :: "int \<Rightarrow> int \<Rightarrow> log_entry list \<Rightarrow> raft_log result" where
  "raft_log_init base trm es =
     (if base < 0 then Err ValueError
      else if trm < 0 then Err ValueError
      else if base = 0 \<and> trm \<noteq> 0 then Err ValueError
      else for_each append_entry es \<lparr>base_index = base, base_term = trm, entries = []\<rparr>)"

text \<open>\<^verbatim>\<open>RaftLog()\<close>.\<close>

definition empty_log :: raft_log where
  "empty_log = \<lparr>base_index = 0, base_term = 0, entries = []\<rparr>"

definition log_append :: "int \<Rightarrow> raft_command \<Rightarrow> raft_log \<Rightarrow> (raft_log \<times> log_entry) result" where
  "log_append trm command l =
     (if trm < 0 then Err ValueError
      else let entry = \<lparr>entry_index = last_index l + 1, entry_term = trm, entry_command = command\<rparr>
           in Ok (l\<lparr>entries := entries l @ [entry]\<rparr>, entry))"

text \<open>
  The position is in range for every well-formed log (\<open>log_get_in_range\<close>), so the
  \<open>IndexError\<close> of a list access never arises; \<^const>\<open>nth_opt\<close> makes the access total.
\<close>

definition log_get :: "int \<Rightarrow> raft_log \<Rightarrow> log_entry option" where
  "log_get index l =
     (if index \<le> base_index l \<or> last_index l < index then None
      else let position = index - base_index l - 1 in nth_opt (entries l) (nat position))"

definition term_at :: "int \<Rightarrow> raft_log \<Rightarrow> int option" where
  "term_at index l =
     (if index = base_index l then Some (base_term l)
      else (case log_get index l of None \<Rightarrow> None | Some entry \<Rightarrow> Some (entry_term entry)))"

definition truncate_from :: "int \<Rightarrow> raft_log \<Rightarrow> raft_log result" where
  "truncate_from index l =
     (if index \<le> base_index l then Err ValueError
      else let position = index - base_index l - 1
           in if position < int (length (entries l))
              then Ok (l\<lparr>entries := take (nat position) (entries l)\<rparr>) else Ok l)"

definition entries_from :: "int \<Rightarrow> raft_log \<Rightarrow> log_entry list result" where
  "entries_from index l =
     (if index \<le> 0 then Err ValueError
      else let retained_index = max index (first_index l);
               position = retained_index - base_index l - 1
           in Ok (drop (nat position) (entries l)))"

definition compact_through :: "int \<Rightarrow> raft_log \<Rightarrow> raft_log result" where
  "compact_through index l =
     (if index < base_index l then Err ValueError
      else if index = base_index l then Ok l
      else (case term_at index l of
              None \<Rightarrow> Err ValueError
            | Some trm \<Rightarrow>
                (case entries_from (index + 1) l of
                   Inl e \<Rightarrow> Err e
                 | Inr retained \<Rightarrow>
                     Ok (l\<lparr>base_index := index, base_term := trm, entries := retained\<rparr>))))"

definition install_snapshot_boundary :: "int \<Rightarrow> int \<Rightarrow> raft_log \<Rightarrow> raft_log result" where
  "install_snapshot_boundary index trm l =
     (if index < base_index l then Err ValueError
      else if index = base_index l then
        (if trm \<noteq> base_term l then Err ValueError else Ok l)
      else (case (if term_at index l = Some trm then entries_from (index + 1) l else Ok []) of
              Inl e \<Rightarrow> Err e
            | Inr retained \<Rightarrow>
                Ok (l\<lparr>base_index := index, base_term := trm, entries := retained\<rparr>)))"

definition log_copy :: "raft_log \<Rightarrow> raft_log result" where
  "log_copy l = raft_log_init (base_index l) (base_term l) (entries l)"

section \<open>Well-formed logs\<close>

definition contiguous :: "int \<Rightarrow> log_entry list \<Rightarrow> bool" where
  "contiguous base es = (\<forall>i < length es. entry_index (es ! i) = base + 1 + int i)"

definition wf_log :: "raft_log \<Rightarrow> bool" where
  "wf_log l = (0 \<le> base_index l \<and> 0 \<le> base_term l \<and> (base_index l = 0 \<longrightarrow> base_term l = 0) \<and>
     contiguous (base_index l) (entries l))"

lemma contiguous_Nil [simp]: "contiguous b []"
  by (simp add: contiguous_def)

lemma contiguous_Cons:
  "contiguous b (e # es) \<longleftrightarrow> entry_index e = b + 1 \<and> contiguous (b + 1) es"
proof -
  have "(\<forall>i < length (e # es). entry_index ((e # es) ! i) = b + 1 + int i) \<longleftrightarrow>
      entry_index e = b + 1 \<and> (\<forall>i < length es. entry_index (es ! i) = b + 1 + 1 + int i)"
    by (auto simp: All_less_Suc2)
  then show ?thesis by (simp add: contiguous_def)
qed

lemma contiguous_append:
  "contiguous b (xs @ ys) \<longleftrightarrow> contiguous b xs \<and> contiguous (b + int (length xs)) ys"
  by (induction xs arbitrary: b) (simp_all add: contiguous_Cons algebra_simps)

lemma contiguous_take: "contiguous b es \<Longrightarrow> contiguous b (take n es)"
  by (simp add: contiguous_def)

lemma contiguous_drop: "contiguous b es \<Longrightarrow> n \<le> length es \<Longrightarrow> contiguous (b + int n) (drop n es)"
  by (auto simp: contiguous_def)

lemma contiguous_last: "contiguous b es \<Longrightarrow> es \<noteq> [] \<Longrightarrow> entry_index (last es) = b + int (length es)"
  by (cases es rule: rev_cases) (simp_all add: contiguous_append contiguous_Cons)

lemma wf_last_index: "wf_log l \<Longrightarrow> last_index l = base_index l + int (length (entries l))"
  by (auto simp: wf_log_def last_index_def contiguous_last)

lemma last_index_ge_base: "wf_log l \<Longrightarrow> base_index l \<le> last_index l"
  by (simp add: wf_last_index)

lemma wf_empty_log [wf, simp]: "wf_log empty_log"
  by (simp add: wf_log_def empty_log_def)

lemma log_get_in_range:
  assumes "wf_log l" "base_index l < i" "i \<le> last_index l"
  shows "nat (i - base_index l - 1) < length (entries l)"
    "log_get i l = Some (entries l ! nat (i - base_index l - 1))"
  using assms by (auto simp: log_get_def wf_last_index Let_def)

lemma log_get_None_iff: "wf_log l \<Longrightarrow> log_get i l = None \<longleftrightarrow> i \<le> base_index l \<or> last_index l < i"
  by (auto simp: log_get_def wf_last_index Let_def)

lemma log_get_index:
  assumes "wf_log l" "log_get i l = Some e"
  shows "entry_index e = i" "base_index l < i" "i \<le> last_index l" "e \<in> set (entries l)"
  using assms by (auto simp: log_get_def Let_def wf_log_def contiguous_def split: if_splits)

lemma term_at_None_iff: "wf_log l \<Longrightarrow> term_at i l = None \<longleftrightarrow> i < base_index l \<or> last_index l < i"
  using last_index_ge_base [of l] log_get_None_iff [of l i]
  by (cases "log_get i l") (auto simp: term_at_def)

lemma term_at_last:
  assumes "wf_log l"
  shows "term_at (last_index l) l = Some (last_term l)"
proof (cases "entries l = []")
  case True
  then show ?thesis by (simp add: term_at_def last_term_def last_index_def)
next
  case False
  have pos: "nat (last_index l - base_index l - 1) = length (entries l) - 1"
    using wf_last_index [OF assms] False by (simp add: nat_diff_distrib nat_eq_iff2)
  have "base_index l < last_index l"
    using wf_last_index [OF assms] False by simp
  then show ?thesis
    using log_get_in_range(2) [OF assms, of "last_index l"] False
    by (simp add: term_at_def pos last_term_def last_conv_nth)
qed

text \<open>Two well-formed logs with one base are equal when every lookup agrees.\<close>

lemma log_eqI:
  assumes "wf_log a" "wf_log b" "base_index a = base_index b" "base_term a = base_term b"
    and get: "\<And>i. log_get i a = log_get i b"
  shows "a = b"
proof -
  have li: "last_index a = last_index b"
  proof (rule ccontr)
    assume ne: "last_index a \<noteq> last_index b"
    define i where "i = max (last_index a) (last_index b)"
    have "(log_get i a = None) \<noteq> (log_get i b = None)"
      using ne assms(3) last_index_ge_base [OF assms(1)] last_index_ge_base [OF assms(2)]
      by (auto simp: log_get_None_iff [OF assms(1)] log_get_None_iff [OF assms(2)] i_def max_def)
    then show False using get [of i] by simp
  qed
  have len: "length (entries a) = length (entries b)"
    using li assms(3) by (simp add: wf_last_index [OF assms(1)] wf_last_index [OF assms(2)])
  have "entries a ! k = entries b ! k" if "k < length (entries a)" for k
    using get [of "base_index a + 1 + int k"] that len assms(3)
    by (simp add: log_get_def wf_last_index [OF assms(1)] wf_last_index [OF assms(2)] Let_def
        nth_opt_def)
  with len have "entries a = entries b" by (simp add: nth_equalityI)
  with assms(3,4) show ?thesis by (cases a; cases b) simp
qed

section \<open>Every method keeps the log well-formed\<close>

lemma append_entry_Ok_iff:
  "append_entry e l = Ok l' \<longleftrightarrow>
     entry_index e = last_index l + 1 \<and> l' = l\<lparr>entries := entries l @ [e]\<rparr>"
  by (auto simp: append_entry_def Let_def)

lemma wf_append_entry [wf]: "wf_log l \<Longrightarrow> append_entry e l = Ok l' \<Longrightarrow> wf_log l'"
  by (auto simp: append_entry_Ok_iff wf_log_def contiguous_append contiguous_Cons last_index_def
      contiguous_last)

lemma wf_log_append [wf]: "wf_log l \<Longrightarrow> log_append t c l = Ok (l', e) \<Longrightarrow> wf_log l'"
  by (auto simp: log_append_def Let_def wf_log_def contiguous_append contiguous_Cons last_index_def
      contiguous_last split: if_splits)

lemma wf_truncate_from [wf]: "wf_log l \<Longrightarrow> truncate_from i l = Ok l' \<Longrightarrow> wf_log l'"
  by (auto simp: truncate_from_def Let_def wf_log_def contiguous_take split: if_splits)

lemma entries_from_Ok:
  "0 < i \<Longrightarrow> entries_from i l = Ok (drop (nat (max i (first_index l) - base_index l - 1)) (entries l))"
  by (simp add: entries_from_def Let_def)

lemma entries_from_first: "wf_log l \<Longrightarrow> entries_from (first_index l) l = Ok (entries l)"
  by (simp add: entries_from_def first_index_def wf_log_def)

lemma entries_from_subset: "entries_from i l = Ok es \<Longrightarrow> set es \<subseteq> set (entries l)"
  by (auto simp: entries_from_def Let_def simp del: drop_eq_Nil split: if_splits dest: in_set_dropD)

lemma wf_boundary:
  assumes "wf_log l" "base_index l < i" "0 \<le> t" "i \<le> last_index l"
    "entries_from (i + 1) l = Ok es"
  shows "wf_log (l\<lparr>base_index := i, base_term := t, entries := es\<rparr>)"
proof -
  have "es = drop (nat (i - base_index l)) (entries l)"
    using assms by (auto simp: entries_from_def Let_def first_index_def max_def wf_log_def split: if_splits)
  moreover have "contiguous (base_index l + int (nat (i - base_index l))) (drop (nat (i - base_index l)) (entries l))"
    using assms by (intro contiguous_drop) (auto simp: wf_log_def wf_last_index)
  ultimately show ?thesis using assms by (auto simp: wf_log_def)
qed

lemma compact_through_OkD:
  assumes "wf_log l" "compact_through i l = Ok l'"
  shows "l' = l \<and> i = base_index l \<or>
    base_index l < i \<and> i \<le> last_index l \<and> term_at i l = Some (base_term l') \<and> base_index l' = i \<and>
    entries_from (i + 1) l = Ok (entries l')"
  using assms term_at_None_iff [OF assms(1), of i]
  by (auto simp: compact_through_def split: if_splits option.splits sum.splits)

lemma install_snapshot_boundary_OkD:
  assumes "install_snapshot_boundary i t l = Ok l'"
  shows "l' = l \<and> i = base_index l \<and> t = base_term l \<or>
    base_index l < i \<and> base_index l' = i \<and> base_term l' = t \<and>
    (if term_at i l = Some t then entries_from (i + 1) l = Ok (entries l') else entries l' = [])"
  using assms
  by (auto simp: install_snapshot_boundary_def split: if_splits sum.splits)

text \<open>
  Compaction needs the boundary's term to be non-negative, which every entry of the log
  satisfies in a log whose entries were appended with \<open>log_append\<close>: \<open>wf_terms\<close>.
\<close>

definition wf_terms :: "raft_log \<Rightarrow> bool" where
  "wf_terms l = (\<forall>e \<in> set (entries l). 0 \<le> entry_term e)"

lemma term_at_nonneg:
  assumes "wf_log l" "wf_terms l" "term_at i l = Some t"
  shows "0 \<le> t"
proof (cases "i = base_index l")
  case True
  then show ?thesis using assms by (simp add: term_at_def wf_log_def)
next
  case False
  then obtain e where "log_get i l = Some e" "entry_term e = t"
    using assms(3) by (auto simp: term_at_def split: option.splits)
  then show ?thesis using log_get_index(4) [OF assms(1)] assms(2) by (auto simp: wf_terms_def)
qed

lemma wf_compact_through [wf]:
  assumes "wf_log l" "wf_terms l" "compact_through i l = Ok l'"
  shows "wf_log l' \<and> wf_terms l'"
proof -
  consider "l' = l" | "base_index l < i" "i \<le> last_index l" "term_at i l = Some (base_term l')"
      "base_index l' = i" "entries_from (i + 1) l = Ok (entries l')"
    using compact_through_OkD [OF assms(1,3)] by blast
  then show ?thesis
  proof cases
    case 1
    then show ?thesis using assms by simp
  next
    case 2
    have "l' = l\<lparr>base_index := i, base_term := base_term l', entries := entries l'\<rparr>"
      using 2 by simp
    moreover have "wf_log (l\<lparr>base_index := i, base_term := base_term l', entries := entries l'\<rparr>)"
      using wf_boundary [OF assms(1) 2(1) _ 2(2,5)] term_at_nonneg [OF assms(1,2) 2(3)] by blast
    moreover have "set (entries l') \<subseteq> set (entries l)"
      by (rule entries_from_subset [OF 2(5)])
    ultimately show ?thesis using assms(2) by (auto simp: wf_terms_def)
  qed
qed

lemma wf_install_snapshot_boundary [wf]:
  assumes "wf_log l" "wf_terms l" "0 \<le> t" "install_snapshot_boundary i t l = Ok l'"
  shows "wf_log l' \<and> wf_terms l'"
proof -
  consider "l' = l" | "base_index l < i" "base_index l' = i" "base_term l' = t" "entries l' = []"
    | "base_index l < i" "base_index l' = i" "base_term l' = t"
      "term_at i l = Some t" "entries_from (i + 1) l = Ok (entries l')"
    using install_snapshot_boundary_OkD [OF assms(4)] by (auto split: if_splits)
  then show ?thesis
  proof cases
    case 1
    then show ?thesis using assms by simp
  next
    case 2
    then show ?thesis using assms by (simp add: wf_log_def wf_terms_def)
  next
    case 3
    have "l' = l\<lparr>base_index := i, base_term := t, entries := entries l'\<rparr>" using 3 by simp
    moreover have "i \<le> last_index l"
      using 3(1,4) term_at_None_iff [OF assms(1), of i] by auto
    moreover have "set (entries l') \<subseteq> set (entries l)"
      by (rule entries_from_subset [OF 3(5)])
    ultimately show ?thesis
      using wf_boundary [OF assms(1) 3(1) assms(3) _ 3(5)] assms(2) by (auto simp: wf_terms_def)
  qed
qed

section \<open>What the methods do to the lookups\<close>

lemma log_get_nth:
  assumes "wf_log l"
  shows "log_get i l = (if i \<le> base_index l then None
     else nth_opt (entries l) (nat (i - base_index l - 1)))"
  using wf_last_index [OF assms] by (auto simp: log_get_def Let_def nth_opt_def)

lemma append_entry_get:
  assumes "wf_log l" "append_entry e l = Ok l'"
  shows "log_get i l' = (if i = last_index l + 1 then Some e else log_get i l)"
    "last_index l' = last_index l + 1" "base_index l' = base_index l" "base_term l' = base_term l"
proof -
  have wf': "wf_log l'" by (rule wf_append_entry [OF assms])
  have l': "l' = l\<lparr>entries := entries l @ [e]\<rparr>" using assms(2) by (simp add: append_entry_Ok_iff)
  show b: "base_index l' = base_index l" "base_term l' = base_term l" by (simp_all add: l')
  show "last_index l' = last_index l + 1"
    using wf_last_index [OF wf'] wf_last_index [OF assms(1)] by (simp add: l')
  show "log_get i l' = (if i = last_index l + 1 then Some e else log_get i l)"
    using wf_last_index [OF assms(1)]
    by (auto simp: log_get_nth [OF wf' [unfolded l']] log_get_nth [OF assms(1)] l' nth_opt_def
        nth_append)
qed

lemma log_append_eq:
  assumes "wf_log l" "log_append t c l = Ok (l', e)"
  shows "append_entry e l = Ok l'" "entry_term e = t" "entry_command e = c"
    "entry_index e = last_index l + 1" "0 \<le> t"
  using assms(2) by (auto simp: log_append_def Let_def append_entry_Ok_iff split: if_splits)

lemma truncate_from_Ok: "base_index l < i \<Longrightarrow> \<exists>l'. truncate_from i l = Ok l'"
  by (auto simp: truncate_from_def Let_def)

lemma truncate_from_get:
  assumes "wf_log l" "truncate_from i l = Ok l'"
  shows "log_get j l' = (if j < i then log_get j l else None)"
    "last_index l' = min (last_index l) (i - 1)" "base_index l' = base_index l"
    "base_term l' = base_term l" "base_index l < i" "set (entries l') \<subseteq> set (entries l)"
proof -
  have wf': "wf_log l'" by (rule wf_truncate_from [OF assms])
  have l': "l' = l\<lparr>entries := take (nat (i - base_index l - 1)) (entries l)\<rparr>"
    using assms(2) by (auto simp: truncate_from_def Let_def split: if_splits)
  show b: "base_index l' = base_index l" "base_term l' = base_term l" by (simp_all add: l')
  show c: "base_index l < i" using assms(2) by (auto simp: truncate_from_def split: if_splits)
  show "last_index l' = min (last_index l) (i - 1)"
    using wf_last_index [OF wf'] wf_last_index [OF assms(1)] c by (auto simp: l' min_def)
  show "log_get j l' = (if j < i then log_get j l else None)"
    using c
    by (auto simp: log_get_nth [OF wf' [unfolded l']] log_get_nth [OF assms(1)] l' nth_opt_def)
  show "set (entries l') \<subseteq> set (entries l)" using set_take_subset by (auto simp: l' dest: in_set_takeD)
qed

text \<open>Moving the boundary up to a retained index keeps exactly the entries above it.\<close>

lemma boundary_get:
  assumes "wf_log l" "base_index l < i" "0 \<le> t" "i \<le> last_index l"
    "entries_from (i + 1) l = Ok (entries l')" "base_index l' = i" "base_term l' = t"
  shows "log_get j l' = (if j \<le> i then None else log_get j l)" "last_index l' = last_index l"
proof -
  have l': "l' = l\<lparr>base_index := i, base_term := t, entries := entries l'\<rparr>"
    using assms(6,7) by simp
  have wf': "wf_log l'" by (subst l') (rule wf_boundary [OF assms(1-5)])
  have es: "entries l' = drop (nat (i - base_index l)) (entries l)"
    using assms(1,2,5)
    by (auto simp: entries_from_def Let_def first_index_def max_def wf_log_def split: if_splits)
  show "log_get j l' = (if j \<le> i then None else log_get j l)"
  proof (cases "j \<le> i")
    case True
    then show ?thesis by (simp add: log_get_nth [OF wf'] assms(6))
  next
    case False
    then have "nat (j - i - 1) + nat (i - base_index l) = nat (j - base_index l - 1)"
      using assms(2) by linarith
    then show ?thesis using False assms(2)
      by (simp add: log_get_nth [OF wf'] log_get_nth [OF assms(1)] es assms(6) nth_opt_drop)
  qed
  show "last_index l' = last_index l"
    using assms(2,4) wf_last_index [OF wf'] wf_last_index [OF assms(1)]
    by (simp add: assms(6) es)
qed

lemma compact_through_get:
  assumes "wf_log l" "wf_terms l" "compact_through i l = Ok l'"
  shows "log_get j l' = (if j \<le> i then None else log_get j l)" "last_index l' = last_index l"
    "base_index l' = i" "term_at i l = Some (base_term l')"
proof -
  consider (same) "l' = l" "i = base_index l"
    | (moved) "base_index l < i" "i \<le> last_index l" "term_at i l = Some (base_term l')"
        "base_index l' = i" "entries_from (i + 1) l = Ok (entries l')"
    using compact_through_OkD [OF assms(1,3)] by blast
  then have "(log_get j l' = (if j \<le> i then None else log_get j l) \<and> last_index l' = last_index l) \<and>
      base_index l' = i \<and> term_at i l = Some (base_term l')"
  proof cases
    case same
    then show ?thesis using assms(1) by (auto simp: log_get_def term_at_def)
  next
    case moved
    then show ?thesis
      using boundary_get [OF assms(1) moved(1) term_at_nonneg [OF assms(1,2) moved(3)] moved(2,5,4)]
      by simp
  qed
  then show "log_get j l' = (if j \<le> i then None else log_get j l)" "last_index l' = last_index l"
    "base_index l' = i" "term_at i l = Some (base_term l')" by simp_all
qed

lemma compact_through_Ok:
  assumes "wf_log l" "base_index l \<le> i" "i \<le> last_index l"
  shows "\<exists>l'. compact_through i l = Ok l'"
proof -
  obtain t where "term_at i l = Some t"
    using assms term_at_None_iff [OF assms(1), of i] by fastforce
  moreover have "0 < i + 1" using assms by (simp add: wf_log_def)
  ultimately show ?thesis using assms(2) by (auto simp: compact_through_def entries_from_Ok)
qed

lemma install_snapshot_boundary_get:
  assumes "wf_log l" "0 \<le> t" "install_snapshot_boundary i t l = Ok l'"
  shows "log_get j l' = (if i < j \<and> term_at i l = Some t then log_get j l else None)"
    "last_index l' = (if term_at i l = Some t then last_index l else i)"
    "base_index l' = i" "base_term l' = t" "base_index l \<le> i"
proof -
  consider (same) "l' = l" "i = base_index l" "t = base_term l"
    | (fresh) "base_index l < i" "term_at i l \<noteq> Some t" "base_index l' = i" "base_term l' = t"
        "entries l' = []"
    | (kept) "base_index l < i" "term_at i l = Some t" "base_index l' = i" "base_term l' = t"
        "entries_from (i + 1) l = Ok (entries l')"
    using install_snapshot_boundary_OkD [OF assms(3)] by (auto split: if_splits)
  then have "(log_get j l' = (if i < j \<and> term_at i l = Some t then log_get j l else None) \<and>
      last_index l' = (if term_at i l = Some t then last_index l else i)) \<and>
      base_index l' = i \<and> base_term l' = t \<and> base_index l \<le> i"
  proof cases
    case same
    then show ?thesis by (auto simp: log_get_def term_at_def)
  next
    case fresh
    then show ?thesis by (auto simp: log_get_def last_index_def)
  next
    case kept
    have "i \<le> last_index l" using kept(1,2) term_at_None_iff [OF assms(1), of i] by auto
    then show ?thesis
      using boundary_get [OF assms(1) kept(1) assms(2) _ kept(5,3,4)] kept by auto
  qed
  then show "log_get j l' = (if i < j \<and> term_at i l = Some t then log_get j l else None)"
    "last_index l' = (if term_at i l = Some t then last_index l else i)"
    "base_index l' = i" "base_term l' = t" "base_index l \<le> i" by simp_all
qed

lemma for_each_append_entry:
  "wf_log l \<Longrightarrow> contiguous (last_index l) es \<Longrightarrow>
   for_each append_entry es l = Ok (l\<lparr>entries := entries l @ es\<rparr>)"
proof (induction es arbitrary: l)
  case Nil
  then show ?case by simp
next
  case (Cons e es)
  define l1 where "l1 = l\<lparr>entries := entries l @ [e]\<rparr>"
  have step: "append_entry e l = Ok l1"
    using Cons.prems(2) by (simp add: append_entry_Ok_iff l1_def contiguous_Cons)
  have "contiguous (last_index l1) es"
    using Cons.prems(2) append_entry_get(2) [OF Cons.prems(1) step] by (simp add: contiguous_Cons)
  with wf_append_entry [OF Cons.prems(1) step] have "for_each append_entry es l1 = Ok (l1\<lparr>entries := entries l1 @ es\<rparr>)"
    by (rule Cons.IH)
  then show ?case by (simp add: step l1_def)
qed

lemma raft_log_init_Ok:
  assumes "wf_log l"
  shows "raft_log_init (base_index l) (base_term l) (entries l) = Ok l"
proof -
  let ?l0 = "\<lparr>base_index = base_index l, base_term = base_term l, entries = []\<rparr>"
  have "wf_log ?l0" "contiguous (last_index ?l0) (entries l)"
    using assms by (simp_all add: wf_log_def last_index_def)
  then have "for_each append_entry (entries l) ?l0 = Ok (?l0\<lparr>entries := entries ?l0 @ entries l\<rparr>)"
    by (rule for_each_append_entry)
  then show ?thesis using assms by (auto simp: raft_log_init_def wf_log_def)
qed

lemma log_copy_Ok [simp]: "wf_log l \<Longrightarrow> log_copy l = Ok l"
  by (simp add: log_copy_def raft_log_init_Ok)

lemma wf_for_each_append:
  "wf_log l \<Longrightarrow> for_each append_entry es l = Ok l' \<Longrightarrow> wf_log l'"
  by (induction es arbitrary: l) (auto split: sum.splits dest: wf_append_entry)

text \<open>The constructor accepts exactly the well-formed logs, and builds nothing else.\<close>

lemma wf_raft_log_init [wf]:
  assumes "raft_log_init b t es = Ok l"
  shows "wf_log l"
proof -
  have "wf_log \<lparr>base_index = b, base_term = t, entries = []\<rparr>"
    using assms by (auto simp: raft_log_init_def wf_log_def split: if_splits)
  then show ?thesis using assms by (auto simp: raft_log_init_def split: if_splits intro: wf_for_each_append)
qed

lemma for_each_append_Ok:
  "for_each append_entry es l = Ok l' \<Longrightarrow> l' = l\<lparr>entries := entries l @ es\<rparr>"
proof (induction es arbitrary: l)
  case (Cons e es)
  then have "for_each append_entry es (l\<lparr>entries := entries l @ [e]\<rparr>) = Ok l'"
    by (auto simp: append_entry_Ok_iff split: sum.splits)
  from Cons.IH [OF this] show ?case by simp
qed simp

lemma raft_log_init_Ok_iff:
  "raft_log_init b t es = Ok l \<longleftrightarrow> wf_log l \<and> base_index l = b \<and> base_term l = t \<and> entries l = es"
proof
  assume i: "raft_log_init b t es = Ok l"
  then have "l = \<lparr>base_index = b, base_term = t, entries = es\<rparr>"
    by (auto simp: raft_log_init_def split: if_splits dest: for_each_append_Ok)
  then show "wf_log l \<and> base_index l = b \<and> base_term l = t \<and> entries l = es"
    using wf_raft_log_init [OF i] by simp
next
  assume "wf_log l \<and> base_index l = b \<and> base_term l = t \<and> entries l = es"
  then show "raft_log_init b t es = Ok l" using raft_log_init_Ok [of l] by auto
qed

section \<open>The log as an interface\<close>

text \<open>
  What the consistency check and the journal rely on: an index space with a base and a top,
  lookups, a push at the top and a cut of a suffix. The in-memory log below and the journal
  on disk (theory Persistence) are both instances, which is why a restart sees the same log.
\<close>

locale indexed_log =
  fixes lookup :: "int \<Rightarrow> 'l \<Rightarrow> log_entry option"
    and base :: "'l \<Rightarrow> int"
    and top :: "'l \<Rightarrow> int"
    and push :: "log_entry \<Rightarrow> 'l \<Rightarrow> 'l result"
    and cut :: "int \<Rightarrow> 'l \<Rightarrow> 'l result"
    and invar :: "'l \<Rightarrow> bool"
  assumes lookup_dom: "invar l \<Longrightarrow> lookup i l = None \<longleftrightarrow> i \<le> base l \<or> top l < i"
    and lookup_index: "invar l \<Longrightarrow> lookup i l = Some e \<Longrightarrow> entry_index e = i"
    and push_Ok: "invar l \<Longrightarrow> entry_index e = top l + 1 \<Longrightarrow> \<exists>l'. push e l = Ok l'"
    and push_inv: "invar l \<Longrightarrow> entry_index e = top l + 1 \<Longrightarrow> push e l = Ok l' \<Longrightarrow> invar l'"
    and push_base: "invar l \<Longrightarrow> entry_index e = top l + 1 \<Longrightarrow> push e l = Ok l' \<Longrightarrow> base l' = base l"
    and push_top: "invar l \<Longrightarrow> entry_index e = top l + 1 \<Longrightarrow> push e l = Ok l' \<Longrightarrow> top l' = top l + 1"
    and push_lookup: "invar l \<Longrightarrow> entry_index e = top l + 1 \<Longrightarrow> push e l = Ok l' \<Longrightarrow>
          lookup i l' = (if i = top l + 1 then Some e else lookup i l)"
    and cut_Ok: "invar l \<Longrightarrow> base l < i \<Longrightarrow> \<exists>l'. cut i l = Ok l'"
    and cut_inv: "invar l \<Longrightarrow> base l < i \<Longrightarrow> cut i l = Ok l' \<Longrightarrow> invar l'"
    and cut_base: "invar l \<Longrightarrow> base l < i \<Longrightarrow> cut i l = Ok l' \<Longrightarrow> base l' = base l"
    and cut_top: "invar l \<Longrightarrow> base l < i \<Longrightarrow> cut i l = Ok l' \<Longrightarrow> top l' = min (top l) (i - 1)"
    and cut_lookup: "invar l \<Longrightarrow> base l < i \<Longrightarrow> cut i l = Ok l' \<Longrightarrow>
          lookup j l' = (if j < i then lookup j l else None)"
begin

lemmas push_laws = push_inv push_base push_top push_lookup
lemmas cut_laws = cut_inv cut_base cut_top cut_lookup

text \<open>Pushing a contiguous run succeeds, and puts each entry at its own index.\<close>

lemma push_all:
  assumes "invar l" "contiguous (top l) es"
  shows "\<exists>l'. for_each push es l = Ok l' \<and> invar l' \<and> base l' = base l \<and>
    top l' = top l + int (length es) \<and>
    (\<forall>i. lookup i l' = (if top l < i \<and> i \<le> top l + int (length es)
                        then Some (es ! nat (i - top l - 1)) else lookup i l))"
  using assms
proof (induction es arbitrary: l)
  case Nil
  then show ?case by auto
next
  case (Cons e es)
  have idx: "entry_index e = top l + 1" using Cons.prems(2) by (simp add: contiguous_Cons)
  then obtain l1 where l1: "push e l = Ok l1" using push_Ok [OF Cons.prems(1)] by blast
  note laws = push_laws [OF Cons.prems(1) idx l1]
  have "contiguous (top l1) es" using Cons.prems(2) laws(3) by (simp add: contiguous_Cons)
  then obtain l2 where l2: "for_each push es l1 = Ok l2" "invar l2" "base l2 = base l1"
      "top l2 = top l1 + int (length es)"
      "\<forall>i. lookup i l2 = (if top l1 < i \<and> i \<le> top l1 + int (length es)
                        then Some (es ! nat (i - top l1 - 1)) else lookup i l1)"
    using Cons.IH [OF laws(1)] by blast
  have "lookup i l2 = (if top l < i \<and> i \<le> top l + int (length (e # es))
                        then Some ((e # es) ! nat (i - top l - 1)) else lookup i l)" for i
  proof -
    have "nat (i - top l - 1) = Suc (nat (i - top l1 - 1))" if "top l1 < i"
      using that laws(3) by linarith
    then show ?thesis using l2(5) laws(3,4) by (auto simp: nth_Cons')
  qed
  with l1 l2 laws show ?case by auto
qed

text \<open>Replacing the suffix from \<open>i\<close> on: a cut followed by pushes that start at \<open>i\<close>.\<close>

lemma replace_suffix:
  assumes "invar l" "base l < i" "i \<le> top l + 1" "contiguous (i - 1) es"
  shows "\<exists>c l'. cut i l = Ok c \<and> for_each push es c = Ok l' \<and> invar l' \<and> base l' = base l \<and>
    top l' = i - 1 + int (length es) \<and>
    (\<forall>j. lookup j l' = (if j < i then lookup j l
                        else if j < i + int (length es) then Some (es ! nat (j - i)) else None))"
proof -
  obtain c where c: "cut i l = Ok c" using cut_Ok [OF assms(1,2)] by blast
  note laws = cut_laws [OF assms(1,2) c]
  have top: "top c = i - 1" using laws(3) assms(3) by simp
  then obtain l' where l': "for_each push es c = Ok l'" "invar l'" "base l' = base c"
      "top l' = top c + int (length es)"
      "\<forall>i. lookup i l' = (if top c < i \<and> i \<le> top c + int (length es)
                        then Some (es ! nat (i - top c - 1)) else lookup i c)"
    using push_all [OF laws(1), of es] assms(4) by auto
  then show ?thesis using c laws top by (intro exI [of _ c] exI [of _ l']) auto
qed

end

interpretation rl: indexed_log log_get base_index last_index append_entry truncate_from wf_log
proof (unfold_locales, goal_cases)
  case (1 l i)
  then show ?case by (rule log_get_None_iff)
next
  case (2 l i e)
  then show ?case by (rule log_get_index(1))
next
  case (3 l e)
  then show ?case by (auto simp: append_entry_Ok_iff)
next
  case (8 l i)
  then show ?case by (auto intro: truncate_from_Ok)
qed (auto intro: wf_append_entry wf_truncate_from simp: append_entry_get truncate_from_get)

end
