(* ===== verification/Persistence.thy ===== *)
theory Persistence
  imports Serialization RaftLog
begin

text \<open>
  The node's files (\<^verbatim>\<open>raft/persistence.py\<close>): the state and the snapshot, each one JSON object
  replaced atomically, and the log, a journal of records that is appended to. Loading inverts
  saving, and the journal implements the interface \<open>indexed_log\<close>: what a node reads back
  after any appends and truncations is what it had.
\<close>

section \<open>The files\<close>

text \<open>
  A file that \<^verbatim>\<open>_atomic_write\<close> replaced holds one JSON text, valid or not. The journal is a
  sequence of lines: blank, a JSON text, or something that does not parse. Text after the last
  newline is \<open>unterminated\<close> (\<open>Blank\<close> when there is none): a record appended after it continues
  that line. A JSON value spread over several lines is a sequence of \<open>Garbage\<close> lines.
  The operating system's own failures (\<^verbatim>\<open>OSError\<close>) are not modelled.
\<close>

datatype json_text = Valid json | Invalid

datatype journal_line = Blank | Record json | Garbage

record journal =
  complete_lines :: "journal_line list"
  unterminated :: journal_line

record disk =
  state_file :: "json_text option"
  snapshot_file :: "json_text option"
  log_file :: "journal option"

definition empty_disk :: disk where
  "empty_disk = \<lparr>state_file = None, snapshot_file = None, log_file = None\<rparr>"

definition journal_lines :: "journal \<Rightarrow> journal_line list" where
  "journal_lines j =
     complete_lines j @ (if unterminated j = Blank then [] else [unterminated j])"

text \<open>\<^verbatim>\<open>json.loads(content)\<close>, for the text of a whole journal.\<close>

definition whole_text :: "journal \<Rightarrow> json_text" where
  "whole_text j = (case filter (\<lambda>line. line \<noteq> Blank) (journal_lines j) of
     [Record v] \<Rightarrow> Valid v | _ \<Rightarrow> Invalid)"

section \<open>The state file\<close>

definition state_to_json :: "raft_state \<Rightarrow> json" where
  "state_to_json s =
     JObj [(''current_term'', JInt (current_term s)), (''voted_for'', json_opt (voted_for s)),
           (''commit_index'', JInt (commit_index s))]"

definition save_state :: "raft_state \<Rightarrow> disk \<Rightarrow> disk" where
  "save_state s d = d\<lparr>state_file := Some (Valid (state_to_json s))\<rparr>"

text \<open>
  The code keeps whatever value \<^verbatim>\<open>voted_for\<close> has. The model's field is a string or nothing, so
  a file with a vote of another type, which the code never writes, is refused here.
\<close>

definition load_state :: "string \<Rightarrow> disk \<Rightarrow> raft_state result" where
  "load_state nid d =
     (case state_file d of
        None \<Rightarrow> Ok (raft_state_default nid)
      | Some Invalid \<Rightarrow> Err RaftPersistenceError
      | Some (Valid data) \<Rightarrow>
          (case int_item data ''current_term'' of Inl e \<Rightarrow> Err e | Inr trm \<Rightarrow>
          (case json_get data ''voted_for'' JNull of Inl e \<Rightarrow> Err e | Inr vote \<Rightarrow>
          (case json_get data ''commit_index'' (JInt 0) of Inl e \<Rightarrow> Err e | Inr commit \<Rightarrow>
          (case py_int commit of Inl e \<Rightarrow> Err e | Inr idx \<Rightarrow>
          (case vote of
             JNull \<Rightarrow> Ok ((raft_state_default nid)\<lparr>current_term := trm, voted_for := None, commit_index := idx\<rparr>)
           | JStr v \<Rightarrow> Ok ((raft_state_default nid)\<lparr>current_term := trm, voted_for := Some v, commit_index := idx\<rparr>)
           | _ \<Rightarrow> Err TypeError))))))"

section \<open>The snapshot file\<close>

definition snapshot_to_json :: "raft_snapshot \<Rightarrow> json" where
  "snapshot_to_json s =
     JObj [(''version'', JInt (version s)),
           (''last_included_index'', JInt (last_included_index s)),
           (''last_included_term'', JInt (last_included_term s)),
           (''state'', json_of_dict (snapshot_state s))]"

definition save_snapshot :: "raft_snapshot \<Rightarrow> disk \<Rightarrow> disk" where
  "save_snapshot s d = d\<lparr>snapshot_file := Some (Valid (snapshot_to_json s))\<rparr>"

text \<open>\<^verbatim>\<open>int(data.get(k, default))\<close>.\<close>

definition int_get :: "json \<Rightarrow> string \<Rightarrow> int \<Rightarrow> int result" where
  "int_get data k dflt =
     (case json_get data k (JInt dflt) of Inl e \<Rightarrow> Err e | Inr j \<Rightarrow> py_int j)"

definition snapshot_of_json :: "json \<Rightarrow> raft_snapshot result" where
  "snapshot_of_json data =
     (case json_item data ''state'' of
        Inl e \<Rightarrow> Err e
      | Inr (JObj raw_state) \<Rightarrow>
          (case int_get data ''version'' 1 of Inl e \<Rightarrow> Err e | Inr ver \<Rightarrow>
          (case int_get data ''last_included_index'' 0 of Inl e \<Rightarrow> Err e | Inr idx \<Rightarrow>
          (case int_get data ''last_included_term'' 0 of Inl e \<Rightarrow> Err e | Inr trm \<Rightarrow>
             raft_snapshot idx trm (str_items raw_state) ver)))
      | Inr _ \<Rightarrow> Err TypeError)"

definition load_snapshot :: "disk \<Rightarrow> raft_snapshot result" where
  "load_snapshot d =
     (case snapshot_file d of
        None \<Rightarrow> Ok empty_snapshot
      | Some Invalid \<Rightarrow> Err RaftPersistenceError
      | Some (Valid data) \<Rightarrow>
          catch {KeyError, TypeError, ValueError} RaftPersistenceError (snapshot_of_json data))"

section \<open>The journal\<close>

definition rewrite_log_records :: "json list \<Rightarrow> disk \<Rightarrow> disk" where
  "rewrite_log_records records d =
     d\<lparr>log_file := Some \<lparr>complete_lines = map Record records, unterminated = Blank\<rparr>\<rparr>"

text \<open>
  Text appended to a line that has no newline yet belongs to that line, and an object after
  anything else on a line does not parse.
\<close>

definition append_lines :: "json list \<Rightarrow> journal \<Rightarrow> journal" where
  "append_lines records j =
     (if records = [] then j
      else \<lparr>complete_lines = complete_lines j @
              (if unterminated j = Blank then map Record records
               else Garbage # map Record (tl records)),
            unterminated = Blank\<rparr>)"

definition append_log_records :: "json list \<Rightarrow> disk \<Rightarrow> disk" where
  "append_log_records records d =
     (if records = [] then d
      else d\<lparr>log_file := Some (append_lines records
               (case log_file d of None \<Rightarrow> \<lparr>complete_lines = [], unterminated = Blank\<rparr> | Some j \<Rightarrow> j))\<rparr>)"

definition append_record :: "log_entry \<Rightarrow> json" where
  "append_record entry = JObj [(''type'', JStr ''append''), (''entry'', log_entry_to_dict entry)]"

definition truncate_record :: "int \<Rightarrow> json" where
  "truncate_record i = JObj [(''type'', JStr ''truncate''), (''from_index'', JInt i)]"

definition append_log_entries :: "log_entry list \<Rightarrow> disk \<Rightarrow> disk" where
  "append_log_entries es d = append_log_records (map append_record es) d"

definition truncate_log_from :: "int \<Rightarrow> disk \<Rightarrow> disk result" where
  "truncate_log_from i d =
     (if i \<le> 0 then Err ValueError else Ok (append_log_records [truncate_record i] d))"

definition replace_log_suffix :: "int \<Rightarrow> log_entry list \<Rightarrow> disk \<Rightarrow> disk result" where
  "replace_log_suffix i es d =
     (if i \<le> 0 then Err ValueError
      else Ok (append_log_records (truncate_record i # map append_record es) d))"

definition snapshot_record :: "raft_log \<Rightarrow> log_entry list \<Rightarrow> json" where
  "snapshot_record l es =
     JObj [(''type'', JStr ''snapshot''), (''version'', JInt 1),
           (''base_index'', JInt (base_index l)), (''base_term'', JInt (base_term l)),
           (''entries'', JList (map log_entry_to_dict es))]"

definition save_log :: "raft_log \<Rightarrow> disk \<Rightarrow> disk result" where
  "save_log l d =
     (case entries_from (first_index l) l of
        Inl e \<Rightarrow> Err e
      | Inr es \<Rightarrow> Ok (rewrite_log_records [snapshot_record l es] d))"

section \<open>Loading the journal\<close>

definition append_raw :: "json \<Rightarrow> raft_log \<Rightarrow> raft_log result" where
  "append_raw raw l =
     (case log_entry_from_dict raw of Inl e \<Rightarrow> Err e | Inr entry \<Rightarrow> append_entry entry l)"

definition load_record :: "journal_line \<Rightarrow> raft_log \<Rightarrow> raft_log result" where
  "load_record line l =
     (case line of
        Blank \<Rightarrow> Ok l
      | Garbage \<Rightarrow> Err ValueError
      | Record (JObj rec) \<Rightarrow>
          (case map_of rec ''type'' of
             Some (JStr t) \<Rightarrow>
               (if t = ''snapshot'' then
                  (case map_of rec ''entries'' of
                     Some (JList raw_entries) \<Rightarrow>
                       (case int_get (JObj rec) ''base_index'' 0 of Inl e \<Rightarrow> Err e | Inr base \<Rightarrow>
                       (case int_get (JObj rec) ''base_term'' 0 of Inl e \<Rightarrow> Err e | Inr trm \<Rightarrow>
                       (case raft_log_init base trm [] of Inl e \<Rightarrow> Err e | Inr l' \<Rightarrow>
                          for_each append_raw raw_entries l')))
                   | _ \<Rightarrow> Err RaftPersistenceError)
                else if t = ''append'' then
                  (case map_of rec ''entry'' of
                     Some (JObj raw) \<Rightarrow> append_raw (JObj raw) l
                   | _ \<Rightarrow> Err RaftPersistenceError)
                else if t = ''truncate'' then
                  (case int_item (JObj rec) ''from_index'' of
                     Inl e \<Rightarrow> Err e | Inr i \<Rightarrow> truncate_from i l)
                else Err RaftPersistenceError)
           | _ \<Rightarrow> Err RaftPersistenceError)
      | Record _ \<Rightarrow> Err RaftPersistenceError)"

definition load_log :: "disk \<Rightarrow> disk \<times> raft_log result" where
  "load_log d =
     (case log_file d of
        None \<Rightarrow> (d, Ok empty_log)
      | Some j \<Rightarrow>
          (if list_all (\<lambda>line. line = Blank) (journal_lines j) then (d, Ok empty_log)
           else (case whole_text j of
              Valid (JList legacy_data) \<Rightarrow>
                (case catch {KeyError, TypeError, ValueError} RaftPersistenceError
                        (for_each append_raw legacy_data empty_log) of
                   Inl e \<Rightarrow> (d, Err e)
                 | Inr l \<Rightarrow> (case save_log l d of Inl e \<Rightarrow> (d, Err e) | Inr d' \<Rightarrow> (d', Ok l)))
            | _ \<Rightarrow> (d, catch {KeyError, TypeError, ValueError} RaftPersistenceError
                         (for_each load_record (journal_lines j) empty_log)))))"

section \<open>Atomic files read back what was written\<close>

lemma disk_fields [simp]:
  "snapshot_file (save_state s d) = snapshot_file d" "log_file (save_state s d) = log_file d"
  "state_file (save_snapshot sn d) = state_file d" "log_file (save_snapshot sn d) = log_file d"
  "state_file (append_log_records rs d) = state_file d"
  "snapshot_file (append_log_records rs d) = snapshot_file d"
  "state_file (rewrite_log_records rs d) = state_file d"
  "snapshot_file (rewrite_log_records rs d) = snapshot_file d"
  by (simp_all add: save_state_def save_snapshot_def append_log_records_def rewrite_log_records_def)

lemma load_save_state [simp]:
  "load_state nid (save_state s d) =
     Ok ((raft_state_default nid)\<lparr>current_term := current_term s, voted_for := voted_for s,
                                 commit_index := commit_index s\<rparr>)"
  by (simp add: load_state_def save_state_def state_to_json_def int_item_def json_opt_def
      split: option.splits)

lemma load_state_cong: "state_file d = state_file d' \<Longrightarrow> load_state nid d = load_state nid d'"
  by (simp add: load_state_def)

lemma load_snapshot_cong: "snapshot_file d = snapshot_file d' \<Longrightarrow> load_snapshot d = load_snapshot d'"
  by (simp add: load_snapshot_def)

lemma load_log_cong:
  "log_file d = log_file d' \<Longrightarrow> snd (load_log d) = snd (load_log d')"
  by (auto simp: load_log_def save_log_def entries_from_def split: option.splits json_text.splits
      json.splits sum.splits)

lemma load_save_snapshot [simp]:
  "wf_snapshot s \<Longrightarrow> load_snapshot (save_snapshot s d) = Ok s"
  by (simp add: load_snapshot_def save_snapshot_def snapshot_of_json_def snapshot_to_json_def
      json_of_dict_def int_get_def)

text \<open>A snapshot that loads is well-formed, whatever the file holds.\<close>

lemma load_snapshot_wf [wf]: "load_snapshot d = Ok s \<Longrightarrow> wf_snapshot s"
  by (auto simp: load_snapshot_def snapshot_of_json_def split: option.splits json_text.splits
      sum.splits json.splits dest: raft_snapshot_OkD)

section \<open>The journal replays to the log it records\<close>

text \<open>
  \<open>journal_replays l d\<close>: the journal file is complete, and running its records from the empty
  log gives \<open>l\<close>. It is what every journal operation keeps, and it determines what \<open>load_log\<close>
  returns.
\<close>

definition journal_replays :: "raft_log \<Rightarrow> disk \<Rightarrow> bool" where
  "journal_replays l d =
     (case log_file d of
        None \<Rightarrow> l = empty_log
      | Some j \<Rightarrow> unterminated j = Blank \<and>
          for_each load_record (complete_lines j) empty_log = Ok l)"

lemma load_record_simps [simp]:
  "load_record Blank l = Ok l" "load_record Garbage l = Err ValueError"
  "load_record (Record (JList xs)) l = Err RaftPersistenceError"
  by (simp_all add: load_record_def)

lemma load_blank_lines:
  "for_each load_record (filter (\<lambda>line. line \<noteq> Blank) lines) l = for_each load_record lines l"
  by (induction lines arbitrary: l) (auto split: sum.splits)

lemma load_all_blank:
  "list_all (\<lambda>line. line = Blank) lines \<Longrightarrow> for_each load_record lines l = Ok l"
  by (induction lines) auto

lemma load_log_replays:
  assumes "journal_replays l d"
  shows "load_log d = (d, Ok l)"
proof (cases "log_file d")
  case None
  then show ?thesis using assms by (simp add: journal_replays_def load_log_def)
next
  case (Some j)
  have lines: "journal_lines j = complete_lines j"
      and run: "for_each load_record (journal_lines j) empty_log = Ok l"
    using assms Some by (auto simp: journal_replays_def journal_lines_def)
  show ?thesis
  proof (cases "list_all (\<lambda>line. line = Blank) (journal_lines j)")
    case True
    then have "l = empty_log" using load_all_blank [OF True] run by simp
    with True Some show ?thesis by (simp add: load_log_def)
  next
    case False
    have "whole_text j \<noteq> Valid (JList xs)" for xs
    proof
      assume "whole_text j = Valid (JList xs)"
      then have "filter (\<lambda>line. line \<noteq> Blank) (journal_lines j) = [Record (JList xs)]"
        by (auto simp: whole_text_def split: list.splits journal_line.splits)
      then have "for_each load_record [Record (JList xs)] empty_log = Ok l"
        using run load_blank_lines [of "journal_lines j" empty_log] by simp
      then show False by simp
    qed
    then show ?thesis using False Some run
      by (auto simp: load_log_def split: json_text.splits json.splits)
  qed
qed

lemma load_append_raw [simp]: "append_raw (log_entry_to_dict e) l = append_entry e l"
  by (simp add: append_raw_def)

lemma load_append_record [simp]: "load_record (Record (append_record e)) l = append_entry e l"
proof -
  have "load_record (Record (append_record e)) l = append_raw (log_entry_to_dict e) l"
    by (simp add: load_record_def append_record_def log_entry_to_dict_def)
  then show ?thesis by simp
qed

lemma load_truncate_record [simp]: "load_record (Record (truncate_record i)) l = truncate_from i l"
  by (simp add: load_record_def truncate_record_def int_item_def)

lemma load_append_records:
  "for_each load_record (map Record (map append_record es)) l = for_each append_entry es l"
  by (induction es arbitrary: l) (auto split: sum.splits)

lemma for_each_append_raw:
  "for_each append_raw (map log_entry_to_dict es) l = for_each append_entry es l"
  by (induction es arbitrary: l) (auto split: sum.splits)

lemma load_snapshot_record:
  assumes "wf_log l"
  shows "load_record (Record (snapshot_record l (entries l))) l0 = Ok l"
proof -
  have "raft_log_init (base_index l) (base_term l) [] =
      Ok \<lparr>base_index = base_index l, base_term = base_term l, entries = []\<rparr>"
    using assms by (simp add: raft_log_init_def wf_log_def)
  moreover have "for_each append_entry (entries l)
      \<lparr>base_index = base_index l, base_term = base_term l, entries = []\<rparr> = Ok l"
    using raft_log_init_Ok [OF assms] assms
    by (auto simp: raft_log_init_def wf_log_def split: if_splits)
  ultimately show ?thesis
    by (simp add: load_record_def snapshot_record_def int_get_def for_each_append_raw)
qed

text \<open>One step of the journal: the records appended run on the log recorded so far.\<close>

lemma journal_replays_append:
  assumes "journal_replays l d" "for_each load_record (map Record records) l = Ok l'"
  shows "journal_replays l' (append_log_records records d)"
proof (cases "records = []")
  case True
  then show ?thesis using assms by (simp add: append_log_records_def)
next
  case False
  then show ?thesis using assms
    by (auto simp: journal_replays_def append_log_records_def append_lines_def for_each_append
        split: option.splits)
qed

lemma journal_replays_append_entries:
  "journal_replays l d \<Longrightarrow> for_each append_entry es l = Ok l' \<Longrightarrow>
   journal_replays l' (append_log_entries es d)"
  unfolding append_log_entries_def
  by (rule journal_replays_append) (simp_all only: load_append_records)

lemma journal_replays_truncate:
  assumes "journal_replays l d" "truncate_from i l = Ok l'" "truncate_log_from i d = Ok d'"
  shows "journal_replays l' d'"
  using assms journal_replays_append [of l d "[truncate_record i]" l']
  by (auto simp: truncate_log_from_def split: if_splits)

lemma journal_replays_suffix:
  assumes "journal_replays l d" "truncate_from i l = Ok c" "for_each append_entry es c = Ok l'"
    "replace_log_suffix i es d = Ok d'"
  shows "journal_replays l' d'"
proof -
  have "for_each load_record (map Record (truncate_record i # map append_record es)) l = Ok l'"
    using assms(2,3) load_append_records [of es c] by simp
  then show ?thesis
    using assms(4) journal_replays_append [OF assms(1)] by (auto simp: replace_log_suffix_def split: if_splits)
qed

lemma journal_replays_save:
  assumes "wf_log l"
  shows "\<exists>d'. save_log l d = Ok d' \<and> journal_replays l d' \<and> state_file d' = state_file d \<and>
    snapshot_file d' = snapshot_file d"
  using assms load_snapshot_record [OF assms, of empty_log]
  by (simp add: save_log_def entries_from_first journal_replays_def rewrite_log_records_def)

text \<open>Any log a journal replays to is well-formed.\<close>

lemma wf_load_append_raw:
  "wf_log l \<Longrightarrow> for_each append_raw xs l = Ok l' \<Longrightarrow> wf_log l'"
  by (induction xs arbitrary: l) (auto simp: append_raw_def split: sum.splits dest: wf_append_entry)

lemma wf_load_record:
  assumes "load_record line l = Ok l'" "wf_log l"
  shows "wf_log l'"
  using assms
  by (auto simp: load_record_def append_raw_def split: journal_line.splits json.splits option.splits
      if_splits sum.splits dest: wf_append_entry wf_truncate_from wf_raft_log_init wf_load_append_raw)

lemma wf_load_records: "for_each load_record lines l = Ok l' \<Longrightarrow> wf_log l \<Longrightarrow> wf_log l'"
  by (induction lines arbitrary: l) (auto split: sum.splits dest: wf_load_record)

lemma journal_replays_wf: "journal_replays l d \<Longrightarrow> wf_log l"
  by (auto simp: journal_replays_def split: option.splits dest: wf_load_records)

lemma load_log_wf [wf]:
  assumes "load_log d = (d', Ok l)"
  shows "wf_log l"
  using assms
  by (auto simp: load_log_def split: option.splits if_splits json_text.splits json.splits sum.splits
      dest: wf_load_records wf_load_append_raw [OF wf_empty_log])

text \<open>Files without a journal, as a node's first start finds them.\<close>

lemma journal_replays_empty [simp]: "journal_replays empty_log empty_disk"
  by (simp add: journal_replays_def empty_disk_def)

section \<open>The journal as an indexed log\<close>

text \<open>
  The log a restart would load. Under the journal's invariant it behaves as the log of the
  interface \<open>indexed_log\<close>, with one appended record for each push and each cut.
\<close>

definition stored_log :: "disk \<Rightarrow> raft_log" where
  "stored_log d = (case snd (load_log d) of Inl _ \<Rightarrow> empty_log | Inr l \<Rightarrow> l)"

definition journal_invar :: "disk \<Rightarrow> bool" where
  "journal_invar d = (snd (load_log d) = Ok (stored_log d) \<and> journal_replays (stored_log d) d)"

definition journal_push :: "log_entry \<Rightarrow> disk \<Rightarrow> disk result" where
  "journal_push e d = Ok (append_log_entries [e] d)"

lemma journal_replays_stored: "journal_replays l d \<Longrightarrow> stored_log d = l \<and> journal_invar d"
  by (simp add: stored_log_def journal_invar_def load_log_replays)

lemma journal_invarD: "journal_invar d \<Longrightarrow> journal_replays (stored_log d) d \<and> wf_log (stored_log d)"
  using journal_replays_wf by (auto simp: journal_invar_def)

lemma journal_push_step:
  assumes "journal_invar d" "entry_index e = last_index (stored_log d) + 1" "journal_push e d = Ok d'"
  shows "append_entry e (stored_log d) = Ok (stored_log d')" "journal_invar d'"
proof -
  let ?l = "(stored_log d)\<lparr>entries := entries (stored_log d) @ [e]\<rparr>"
  have push: "append_entry e (stored_log d) = Ok ?l" using assms(2) by (simp add: append_entry_Ok_iff)
  moreover have "journal_replays ?l d'"
    using journal_replays_append_entries [of "stored_log d" d "[e]" ?l] journal_invarD [OF assms(1)]
      push assms(3) by (simp add: journal_push_def)
  then have "stored_log d' = ?l \<and> journal_invar d'" by (rule journal_replays_stored)
  ultimately show "append_entry e (stored_log d) = Ok (stored_log d')" "journal_invar d'" by simp_all
qed

lemma journal_cut_step:
  assumes "journal_invar d" "base_index (stored_log d) < i"
  shows "\<exists>d'. truncate_log_from i d = Ok d'"
    "truncate_log_from i d = Ok d' \<Longrightarrow> truncate_from i (stored_log d) = Ok (stored_log d') \<and> journal_invar d'"
proof -
  have wf: "wf_log (stored_log d)" and replays: "journal_replays (stored_log d) d"
    using journal_invarD [OF assms(1)] by simp_all
  have pos: "0 < i" using wf assms(2) by (simp add: wf_log_def)
  then show "\<exists>d'. truncate_log_from i d = Ok d'" by (simp add: truncate_log_from_def)
  obtain l where cut: "truncate_from i (stored_log d) = Ok l" using truncate_from_Ok [OF assms(2)] ..
  assume "truncate_log_from i d = Ok d'"
  then have "journal_replays l d'" by (rule journal_replays_truncate [OF replays cut])
  then show "truncate_from i (stored_log d) = Ok (stored_log d') \<and> journal_invar d'"
    using cut journal_replays_stored by blast
qed

interpretation journal: indexed_log "\<lambda>i d. log_get i (stored_log d)" "\<lambda>d. base_index (stored_log d)"
  "\<lambda>d. last_index (stored_log d)" journal_push truncate_log_from journal_invar
proof (unfold_locales, goal_cases)
  case (1 l i)
  then show ?case using log_get_None_iff journal_invarD by blast
next
  case (2 l i e)
  then show ?case using log_get_index(1) journal_invarD by blast
next
  case (3 l e)
  then show ?case by (simp add: journal_push_def)
next
  case (4 l e l')
  then show ?case by (rule journal_push_step(2))
next
  case (5 l e l')
  note rl.push_base [OF _ 5(2) journal_push_step(1) [OF 5]]
  then show ?case using journal_invarD [OF 5(1)] by simp
next
  case (6 l e l')
  note rl.push_top [OF _ 6(2) journal_push_step(1) [OF 6]]
  then show ?case using journal_invarD [OF 6(1)] by simp
next
  case (7 l e l' i)
  note rl.push_lookup [OF _ 7(2) journal_push_step(1) [OF 7]]
  then show ?case using journal_invarD [OF 7(1)] by simp
next
  case (8 l i)
  then show ?case by (rule journal_cut_step(1))
next
  case (9 l i l')
  then show ?case using journal_cut_step(2) by blast
next
  case (10 l i l')
  then have "truncate_from i (stored_log l) = Ok (stored_log l')" using journal_cut_step(2) by blast
  then show ?case using rl.cut_base journal_invarD 10 by blast
next
  case (11 l i l')
  then have "truncate_from i (stored_log l) = Ok (stored_log l')" using journal_cut_step(2) by blast
  then show ?case using rl.cut_top journal_invarD 11 by blast
next
  case (12 l i l' j)
  then have "truncate_from i (stored_log l) = Ok (stored_log l')" using journal_cut_step(2) by blast
  then show ?case using rl.cut_lookup journal_invarD 12 by blast
qed

section \<open>A crash during an append\<close>

text \<open>
  A crash may leave any number of the new records in the file, and after them the beginning of
  the next: nothing of it, all of it but the newline, or a part that does not parse.
\<close>

definition torn_append :: "nat \<Rightarrow> journal_line \<Rightarrow> json list \<Rightarrow> disk \<Rightarrow> disk" where
  "torn_append k tail records d =
     (let j = (case log_file d of None \<Rightarrow> \<lparr>complete_lines = [], unterminated = Blank\<rparr> | Some j \<Rightarrow> j)
      in d\<lparr>log_file := Some \<lparr>complete_lines = complete_lines j @ map Record (take k records),
                            unterminated = tail\<rparr>\<rparr>)"

lemma torn_append_clean:
  assumes "journal_replays l d" "for_each append_entry (take k es) l = Ok l'"
  shows "journal_replays l' (torn_append k Blank (map append_record es) d)"
proof -
  have "for_each load_record (map Record (take k (map append_record es))) l = Ok l'"
    using assms(2) load_append_records [of "take k es" l] by (simp add: take_map)
  then show ?thesis using assms(1)
    by (auto simp: journal_replays_def torn_append_def Let_def for_each_append split: option.splits)
qed

lemma load_garbage:
  assumes "journal_replays l d"
    and "for_each load_record (map Record (take k records)) l = Ok l'"
  shows "snd (load_log (torn_append k Garbage records d)) = Err RaftPersistenceError"
proof -
  define j where "j = (case log_file d of None \<Rightarrow> \<lparr>complete_lines = [], unterminated = Blank\<rparr> | Some j \<Rightarrow> j)"
  define j' where "j' = \<lparr>complete_lines = complete_lines j @ map Record (take k records),
                        unterminated = Garbage\<rparr>"
  have d': "log_file (torn_append k Garbage records d) = Some j'"
    by (simp add: torn_append_def j_def j'_def Let_def)
  have lines: "journal_lines j' = complete_lines j' @ [Garbage]"
    by (simp add: journal_lines_def j'_def)
  have "for_each load_record (complete_lines j) empty_log = Ok l"
    using assms(1) by (auto simp: journal_replays_def j_def split: option.splits)
  then have run: "for_each load_record (journal_lines j') empty_log = Err ValueError"
    using assms(2) unfolding lines by (simp add: j'_def for_each_append)
  have "whole_text j' \<noteq> Valid v" for v
    by (auto simp: whole_text_def lines split: list.splits journal_line.splits
        dest!: arg_cong [of _ _ last] split: if_splits)
  then have "whole_text j' = Invalid" by (cases "whole_text j'") auto
  then show ?thesis using run lines
    by (simp add: load_log_def d' catch_def)
qed

section \<open>The previous format\<close>

text \<open>A log file in the previous format is one JSON array; loading it rewrites it as a journal.\<close>

lemma load_legacy:
  assumes "wf_log l" "base_index l = 0" "log_file d =
      Some \<lparr>complete_lines = [Record (JList (map log_entry_to_dict (entries l)))], unterminated = Blank\<rparr>"
  shows "\<exists>d'. load_log d = (d', Ok l) \<and> journal_replays l d' \<and> state_file d' = state_file d \<and>
    snapshot_file d' = snapshot_file d"
proof -
  have "for_each append_raw (map log_entry_to_dict (entries l)) empty_log = Ok l"
  proof -
    have "for_each append_entry (entries l) empty_log = Ok (empty_log\<lparr>entries := entries empty_log @ entries l\<rparr>)"
      using assms(1,2) by (intro for_each_append_entry) (simp_all add: wf_log_def empty_log_def last_index_def)
    moreover have "empty_log\<lparr>entries := entries empty_log @ entries l\<rparr> = l"
      using assms(1,2) by (cases l) (simp add: empty_log_def wf_log_def)
    ultimately show ?thesis by (simp add: for_each_append_raw)
  qed
  moreover obtain d' where "save_log l d = Ok d' \<and> journal_replays l d' \<and> state_file d' = state_file d \<and>
      snapshot_file d' = snapshot_file d"
    using journal_replays_save [OF assms(1)] by blast
  ultimately show ?thesis
    using assms(3) by (simp add: load_log_def journal_lines_def whole_text_def)
qed

end
