(* ===== verification/KVStore.thy ===== *)
theory KVStore
  imports RaftPrelude
begin

text \<open>
  The key-value map of \<^verbatim>\<open>storage/store.py\<close>: the dictionary \<open>_data\<close> and its operations.
  The re-entrant lock makes each operation atomic, so each is a function on the map. The
  interface the state machine and the storage engine rely on is the locale \<open>kv_map\<close>.
\<close>

section \<open>The operations\<close>

type_synonym kv_store = "(string, string) dict"

definition kv_empty :: kv_store where
  "kv_empty = []"

definition kv_put :: "string \<Rightarrow> string \<Rightarrow> kv_store \<Rightarrow> kv_store" where
  "kv_put key val d = AList.update key val d"

definition kv_get :: "string \<Rightarrow> kv_store \<Rightarrow> string option" where
  "kv_get key d = map_of d key"

definition kv_delete :: "string \<Rightarrow> kv_store \<Rightarrow> kv_store \<times> bool" where
  "kv_delete key d =
     (if key \<notin> fst ` set d then (d, False) else (AList.delete key d, True))"

definition kv_clear :: "kv_store \<Rightarrow> kv_store" where
  "kv_clear d = []"

text \<open>
  \<open>apply\<close> reads a write-ahead-log record, itself a dictionary: a missing field raises
  \<open>KeyError\<close>, a PUT without a value or an unknown operation raises \<open>ValueError\<close>. The field
  \<open>key\<close> is annotated \<^verbatim>\<open>str\<close> in its callers; a record whose key is null is a \<open>TypeError\<close> here.
\<close>

definition kv_apply :: "(string, string option) dict \<Rightarrow> kv_store \<Rightarrow> kv_store result" where
  "kv_apply entry d =
     (case dict_item entry ''operation'' of Inl e \<Rightarrow> Err e | Inr operation \<Rightarrow>
      (case dict_item entry ''key'' of Inl e \<Rightarrow> Err e | Inr key \<Rightarrow>
       (if operation = Some ''PUT'' then
          (case dict_item entry ''value'' of Inl e \<Rightarrow> Err e
           | Inr None \<Rightarrow> Err ValueError
           | Inr (Some val) \<Rightarrow>
               (case key of None \<Rightarrow> Err TypeError | Some k \<Rightarrow> Ok (kv_put k val d)))
        else if operation = Some ''DELETE'' then
          (case key of None \<Rightarrow> Err TypeError | Some k \<Rightarrow> Ok (fst (kv_delete k d)))
        else Err ValueError)))"

definition kv_snapshot :: "kv_store \<Rightarrow> kv_store" where
  "kv_snapshot d = d"

definition kv_restore :: "kv_store \<Rightarrow> kv_store \<Rightarrow> kv_store" where
  "kv_restore data d = data"

section \<open>The interface\<close>

text \<open>
  What a client of the store relies on: lookups after the writes, and an invariant the
  writes keep. The client lemmas are about a sequence of writes.
\<close>

datatype kv_write = Put string string | Delete string

locale kv_map =
  fixes emp :: "'s"
    and put :: "string \<Rightarrow> string \<Rightarrow> 's \<Rightarrow> 's"
    and get :: "string \<Rightarrow> 's \<Rightarrow> string option"
    and del :: "string \<Rightarrow> 's \<Rightarrow> 's"
    and invar :: "'s \<Rightarrow> bool"
  assumes invar_emp: "invar emp"
    and invar_put: "invar s \<Longrightarrow> invar (put k v s)"
    and invar_del: "invar s \<Longrightarrow> invar (del k s)"
    and get_emp: "get k emp = None"
    and get_put: "invar s \<Longrightarrow> get k (put k' v s) = (if k = k' then Some v else get k s)"
    and get_del: "invar s \<Longrightarrow> get k (del k' s) = (if k = k' then None else get k s)"
begin

fun run_writes :: "kv_write list \<Rightarrow> 's \<Rightarrow> 's" where
  "run_writes [] s = s"
| "run_writes (Put k v # ws) s = run_writes ws (put k v s)"
| "run_writes (Delete k # ws) s = run_writes ws (del k s)"

fun last_write :: "string \<Rightarrow> string option \<Rightarrow> kv_write list \<Rightarrow> string option" where
  "last_write k r [] = r"
| "last_write k r (Put k' v # ws) = last_write k (if k = k' then Some v else r) ws"
| "last_write k r (Delete k' # ws) = last_write k (if k = k' then None else r) ws"

lemma invar_run_writes: "invar s \<Longrightarrow> invar (run_writes ws s)"
  by (induction ws s rule: run_writes.induct) (auto intro: invar_put invar_del)

text \<open>A key holds what the last write to it left.\<close>

lemma get_run_writes: "invar s \<Longrightarrow> get k (run_writes ws s) = last_write k (get k s) ws"
  by (induction ws s rule: run_writes.induct)
     (simp_all add: get_put get_del invar_put invar_del)

lemma last_write_append: "last_write k r (xs @ ys) = last_write k (last_write k r xs) ys"
  by (induction k r xs rule: last_write.induct) auto

text \<open>Repeating a suffix of the writes changes no lookup: replaying a log is idempotent.\<close>

lemma last_write_absorb:
  "last_write k (last_write k r ws) ws = last_write k r ws"
proof -
  have "(\<exists>c. \<forall>r. last_write k r ws = c) \<or> (\<forall>r. last_write k r ws = r)"
  proof (induction ws)
    case Nil
    then show ?case by simp
  next
    case (Cons w ws)
    then show ?case
      by (cases w; cases "k = (case w of Put k' _ \<Rightarrow> k' | Delete k' \<Rightarrow> k')") auto
  qed
  then show ?thesis by metis
qed

lemma get_run_writes_twice:
  assumes "invar s"
  shows "get k (run_writes ws (run_writes ws s)) = get k (run_writes ws s)"
  using assms by (simp add: get_run_writes invar_run_writes last_write_absorb)

end

section \<open>The dictionary implements the interface\<close>

lemma kv_wf [wf]:
  "dict_wf kv_empty"
  "dict_wf d \<Longrightarrow> dict_wf (kv_put k v d)"
  "dict_wf d \<Longrightarrow> dict_wf (fst (kv_delete k d))"
  by (simp_all add: kv_empty_def kv_put_def kv_delete_def wf)

lemma kv_get_simps [simp]:
  "kv_get k kv_empty = None"
  "kv_get k (kv_put k' v d) = (if k = k' then Some v else kv_get k d)"
  "kv_get k (fst (kv_delete k' d)) = (if k = k' then None else kv_get k d)"
  by (simp_all add: kv_get_def kv_empty_def kv_put_def kv_delete_def map_of_Some_iff_key)

lemma kv_delete_found: "snd (kv_delete k d) \<longleftrightarrow> kv_get k d \<noteq> None"
  by (simp add: kv_delete_def kv_get_def map_of_Some_iff_key)

interpretation kv: kv_map kv_empty kv_put kv_get "\<lambda>k d. fst (kv_delete k d)" dict_wf
  by unfold_locales (auto intro: kv_wf)

end
