(* ===== verification/StateMachine.thy ===== *)
theory StateMachine
  imports KVStore RaftLog
begin

text \<open>
  Committed entries reach the key-value map in index order: \<^verbatim>\<open>raft/state_machine.py\<close> and
  \<^verbatim>\<open>raft/commit.py\<close>. The loop of \<open>apply_committed_entries\<close> leaves its progress in the state when
  an entry is missing or a command is invalid, so it returns the state and the result.
\<close>

section \<open>The operations\<close>

definition apply_command :: "raft_command \<Rightarrow> kv_store \<Rightarrow> kv_store result" where
  "apply_command command store =
     (if operation command = ''PUT'' then
        (case cmd_value command of
           None \<Rightarrow> Err ValueError
         | Some v \<Rightarrow> Ok (kv_put (cmd_key command) v store))
      else if operation command = ''DELETE'' then
        Ok (fst (kv_delete (cmd_key command) store))
      else Err ValueError)"

function apply_committed_entries ::
  "raft_log \<Rightarrow> raft_state \<Rightarrow> kv_store \<Rightarrow> (raft_state \<times> kv_store) \<times> unit result" where
  "apply_committed_entries lg s store =
     (if last_applied s < commit_index s then
        let next_index = last_applied s + 1
        in (case log_get next_index lg of
              None \<Rightarrow> ((s, store), Err RuntimeError)
            | Some entry \<Rightarrow>
                (case apply_command (entry_command entry) store of
                   Inl e \<Rightarrow> ((s, store), Err e)
                 | Inr store' \<Rightarrow>
                     apply_committed_entries lg (s\<lparr>last_applied := next_index\<rparr>) store'))
      else ((s, store), Ok ()))"
  by pat_completeness auto
termination
  by (relation "measure (\<lambda>(lg, s, store). nat (commit_index s - last_applied s))") auto

declare apply_committed_entries.simps [simp del]

definition update_follower_commit ::
  "raft_log \<Rightarrow> int \<Rightarrow> raft_state \<Rightarrow> kv_store \<Rightarrow> (raft_state \<times> kv_store) \<times> unit result" where
  "update_follower_commit lg leader_commit s store =
     (if leader_commit \<le> commit_index s then ((s, store), Ok ())
      else apply_committed_entries lg
             (s\<lparr>commit_index := min leader_commit (last_index lg)\<rparr>) store)"

section \<open>The reference: running a list of commands\<close>

text \<open>
  A command is valid when the state machine accepts it; its effect is then one write. The
  reference runs the commands of consecutive entries, with no index arithmetic.
\<close>

definition valid_command :: "raft_command \<Rightarrow> bool" where
  "valid_command c = (operation c = ''PUT'' \<and> cmd_value c \<noteq> None \<or> operation c = ''DELETE'')"

definition command_write :: "raft_command \<Rightarrow> kv_write" where
  "command_write c = (case (operation c = ''PUT'', cmd_value c) of
     (True, Some v) \<Rightarrow> Put (cmd_key c) v | _ \<Rightarrow> Delete (cmd_key c))"

definition run_commands :: "log_entry list \<Rightarrow> kv_store \<Rightarrow> kv_store" where
  "run_commands es store = kv.run_writes (map (command_write \<circ> entry_command) es) store"

definition slice :: "int \<Rightarrow> int \<Rightarrow> raft_log \<Rightarrow> log_entry list" where
  "slice a b l = take (nat (b - a)) (drop (nat (a - base_index l)) (entries l))"

definition valid_entries :: "raft_log \<Rightarrow> bool" where
  "valid_entries l = (\<forall>e \<in> set (entries l). valid_command (entry_command e))"

lemma apply_command_Ok_iff: "is_ok (apply_command c st) \<longleftrightarrow> valid_command c"
  by (auto simp: apply_command_def valid_command_def split: option.splits)

lemma apply_command_valid:
  "valid_command c \<Longrightarrow> apply_command c st = Ok (kv.run_writes [command_write c] st)"
  by (auto simp: apply_command_def valid_command_def command_write_def)

lemma run_commands_Nil [simp]: "run_commands [] st = st"
  by (simp add: run_commands_def)

lemma run_commands_Cons:
  "run_commands (e # es) st = run_commands es (kv.run_writes [command_write (entry_command e)] st)"
  by (cases "command_write (entry_command e)") (simp_all add: run_commands_def)

lemma run_commands_append: "run_commands (xs @ ys) st = run_commands ys (run_commands xs st)"
  by (induction xs arbitrary: st) (simp_all add: run_commands_Cons)

lemma slice_empty [simp]: "b \<le> a \<Longrightarrow> slice a b l = []"
  by (simp add: slice_def)

lemma slice_Cons:
  assumes "wf_log l" "base_index l \<le> a" "a < b" "b \<le> last_index l"
  obtains e where "log_get (a + 1) l = Some e" "slice a b l = e # slice (a + 1) b l"
    "e \<in> set (entries l)"
proof -
  let ?n = "nat (a - base_index l)"
  have n: "?n < length (entries l)" using assms by (simp add: wf_last_index)
  have e: "log_get (a + 1) l = Some (entries l ! ?n)"
    using log_get_in_range(2) [OF assms(1), of "a + 1"] assms by simp
  have "drop ?n (entries l) = entries l ! ?n # drop (Suc ?n) (entries l)"
    using n by (simp add: Cons_nth_drop_Suc)
  moreover have "nat (b - a) = Suc (nat (b - (a + 1)))" "nat (a + 1 - base_index l) = Suc ?n"
    using assms by linarith+
  ultimately have "slice a b l = entries l ! ?n # slice (a + 1) b l"
    by (simp add: slice_def)
  with e n show thesis by (intro that) auto
qed

lemma slice_append:
  assumes "base_index l \<le> a" "a \<le> b" "b \<le> c"
  shows "slice a c l = slice a b l @ slice b c l"
proof -
  let ?k = "nat (b - a)"
  have "nat (c - a) = ?k + nat (c - b)" "nat (b - base_index l) = ?k + nat (a - base_index l)"
    using assms by linarith+
  then show ?thesis by (simp add: slice_def take_add)
qed

text \<open>
  A slice depends only on the entries it covers: two logs that agree on \<open>a+1\<dots>b\<close> have the
  same slice, whatever their boundaries.
\<close>

lemma slice_nth:
  assumes "wf_log l" "base_index l \<le> a" "b \<le> last_index l"
  shows "slice a b l = map (\<lambda>k. the (log_get (a + 1 + int k) l)) [0..<nat (b - a)]"
proof (rule nth_equalityI)
  show "length (slice a b l) = length (map (\<lambda>k. the (log_get (a + 1 + int k) l)) [0..<nat (b - a)])"
    using assms by (auto simp: slice_def wf_last_index)
next
  fix k
  assume "k < length (slice a b l)"
  then have k: "k < nat (b - a)" "nat (a - base_index l) + k < length (entries l)"
    by (auto simp: slice_def)
  have "nat (a + 1 + int k - base_index l - 1) = nat (a - base_index l) + k"
    using assms(2) by linarith
  then have "log_get (a + 1 + int k) l = Some (entries l ! (nat (a - base_index l) + k))"
    using assms k by (simp add: log_get_nth nth_opt_def)
  then show "slice a b l ! k = map (\<lambda>k. the (log_get (a + 1 + int k) l)) [0..<nat (b - a)] ! k"
    using k by (simp add: slice_def)
qed

lemma slice_cong:
  assumes "wf_log l" "wf_log l'" "base_index l \<le> a" "base_index l' \<le> a"
    and "b \<le> last_index l" "b \<le> last_index l'"
    and "\<And>i. a < i \<Longrightarrow> i \<le> b \<Longrightarrow> log_get i l = log_get i l'"
  shows "slice a b l = slice a b l'"
proof -
  have "the (log_get (a + 1 + int k) l) = the (log_get (a + 1 + int k) l')"
    if "k < nat (b - a)" for k
    using assms(7) [of "a + 1 + int k"] that by simp
  then show ?thesis
    by (simp add: slice_nth [OF assms(1,3,5)] slice_nth [OF assms(2,4,6)])
qed

section \<open>The loop implements the reference\<close>

lemma apply_committed_noop:
  "commit_index s \<le> last_applied s \<Longrightarrow> apply_committed_entries l s st = ((s, st), Ok ())"
  by (simp add: apply_committed_entries.simps)

lemma apply_committed_reference:
  assumes "wf_log l" "valid_entries l" "base_index l \<le> last_applied s"
    "last_applied s \<le> commit_index s" "commit_index s \<le> last_index l"
  shows "apply_committed_entries l s st =
    ((s\<lparr>last_applied := commit_index s\<rparr>, run_commands (slice (last_applied s) (commit_index s) l) st), Ok ())"
  using assms
proof (induction l s st rule: apply_committed_entries.induct)
  case (1 l s st)
  show ?case
  proof (cases "last_applied s < commit_index s")
    case False
    then have "last_applied s = commit_index s" using "1.prems" by simp
    then show ?thesis by (simp add: apply_committed_noop)
  next
    case True
    obtain e where e: "log_get (last_applied s + 1) l = Some e" "e \<in> set (entries l)"
        "slice (last_applied s) (commit_index s) l = e # slice (last_applied s + 1) (commit_index s) l"
      using slice_Cons [OF "1.prems"(1,3) True "1.prems"(5)] by metis
    have ok: "apply_command (entry_command e) st =
        Ok (kv.run_writes [command_write (entry_command e)] st)"
      using "1.prems"(2) e(2) by (intro apply_command_valid) (simp add: valid_entries_def)
    show ?thesis
      using "1.IH" [OF True refl e(1) ok] "1.prems" True
      by (simp add: apply_committed_entries.simps [of l s] e(1,3) ok run_commands_Cons Let_def)
  qed
qed

text \<open>The loop stops at the first command it refuses.\<close>

lemma apply_committed_stops:
  assumes "wf_log l" "base_index l \<le> last_applied s" "last_applied s \<le> i" "i < commit_index s"
    and "\<forall>j e. last_applied s < j \<and> j \<le> i \<and> log_get j l = Some e \<longrightarrow> valid_command (entry_command e)"
    and "log_get (i + 1) l = Some bad" "\<not> valid_command (entry_command bad)"
  shows "apply_committed_entries l s st =
    ((s\<lparr>last_applied := i\<rparr>, run_commands (slice (last_applied s) i l) st), Err ValueError)"
  using assms(2-5)
proof (induction "nat (i - last_applied s)" arbitrary: s st)
  case 0
  then have i: "i = last_applied s" by simp
  have "apply_command (entry_command bad) st = Err ValueError"
    using assms(7) by (auto simp: apply_command_def valid_command_def split: option.splits)
  then show ?case using "0.prems"(3) assms(6) by (simp add: i apply_committed_entries.simps slice_def)
next
  case (Suc n)
  let ?s = "s\<lparr>last_applied := last_applied s + 1\<rparr>"
  have lt: "last_applied s < i" "i \<le> last_index l"
    using Suc.hyps(2) log_get_index(3) [OF assms(1,6)] by simp_all
  obtain e where e: "log_get (last_applied s + 1) l = Some e"
      "slice (last_applied s) i l = e # slice (last_applied s + 1) i l"
    using slice_Cons [OF assms(1) Suc.prems(1) lt] by blast
  have ok: "apply_command (entry_command e) st = Ok (kv.run_writes [command_write (entry_command e)] st)"
    using Suc.prems(4) [rule_format, of "last_applied s + 1" e] e(1) lt(1) apply_command_valid by simp
  have "apply_committed_entries l ?s (kv.run_writes [command_write (entry_command e)] st) =
      ((?s\<lparr>last_applied := i\<rparr>,
        run_commands (slice (last_applied ?s) i l) (kv.run_writes [command_write (entry_command e)] st)), Err ValueError)"
  proof (rule Suc.hyps(1))
    show "\<forall>j e. last_applied ?s < j \<and> j \<le> i \<and> log_get j l = Some e \<longrightarrow> valid_command (entry_command e)"
      by (intro allI impI, rule Suc.prems(4) [rule_format]) auto
  qed (use Suc.hyps(2) Suc.prems(1,3) lt(1) in auto)
  then show ?case
    using Suc.prems(3) lt(1) by (simp add: apply_committed_entries.simps [of l s] e ok run_commands_Cons Let_def)
qed

text \<open>Whatever happens, the loop touches nothing but \<open>last_applied\<close> and the store.\<close>

lemma apply_committed_frame_conj:
  "apply_committed_entries l s st = ((s', st'), r) \<Longrightarrow>
   s' = s\<lparr>last_applied := last_applied s'\<rparr> \<and> last_applied s \<le> last_applied s' \<and>
   (last_applied s' = last_applied s \<or> last_applied s' \<le> commit_index s)"
proof (induction l s st arbitrary: s' st' r rule: apply_committed_entries.induct)
  case (1 l s st)
  from "1.prems" consider "s' = s"
    | entry store' where "last_applied s < commit_index s"
        "log_get (last_applied s + 1) l = Some entry"
        "apply_command (entry_command entry) st = Inr store'"
        "apply_committed_entries l (s\<lparr>last_applied := last_applied s + 1\<rparr>) store' = ((s', st'), r)"
    unfolding apply_committed_entries.simps [of l s st]
    by (auto simp: Let_def split: if_splits option.splits sum.splits)
  then show ?case
  proof cases
    case 1
    then show ?thesis by simp
  next
    case (2 entry store')
    then show ?thesis using "1.IH" [OF 2(1) refl 2(2,3,4)] by auto
  qed
qed

lemma apply_committed_frame:
  assumes "apply_committed_entries l s st = ((s', st'), r)"
  shows "s' = s\<lparr>last_applied := last_applied s'\<rparr>"
    "last_applied s \<le> last_applied s'"
    "last_applied s' = last_applied s \<or> last_applied s' \<le> commit_index s"
  using apply_committed_frame_conj [OF assms] by simp_all

lemma apply_committed_fields [frame]:
  assumes "apply_committed_entries l s st = ((s', st'), r)"
  shows "node_id s' = node_id s" "commit_index s' = commit_index s"
    "current_term s' = current_term s" "voted_for s' = voted_for s" "role s' = role s"
    "leader_id s' = leader_id s"
proof -
  have s': "s' = s\<lparr>last_applied := last_applied s'\<rparr>" by (rule apply_committed_frame(1) [OF assms])
  show "node_id s' = node_id s" "commit_index s' = commit_index s"
    "current_term s' = current_term s" "voted_for s' = voted_for s" "role s' = role s"
    "leader_id s' = leader_id s"
    by (subst s', simp)+
qed

lemma apply_committed_dict_wf [wf]:
  "apply_committed_entries l s st = ((s', st'), r) \<Longrightarrow> dict_wf st \<Longrightarrow> dict_wf st'"
proof (induction l s st arbitrary: s' st' r rule: apply_committed_entries.induct)
  case (1 l s st)
  have wf_step: "dict_wf st2" if "apply_command c st = Inr st2" for c st2
    using that "1.prems"(2) by (auto simp: apply_command_def wf split: if_splits option.splits)
  show ?case
    using "1.prems" "1.IH" wf_step unfolding apply_committed_entries.simps [of l s st]
    by (auto simp: Let_def split: if_splits option.splits sum.splits)
qed

lemma update_follower_commit_fields [frame]:
  assumes "update_follower_commit l lc s st = ((s', st'), r)"
  shows "node_id s' = node_id s" "current_term s' = current_term s" "voted_for s' = voted_for s"
    "role s' = role s" "leader_id s' = leader_id s"
    "commit_index s' = (if lc \<le> commit_index s then commit_index s else min lc (last_index l))"
  using assms
  by (auto simp: update_follower_commit_def dest: apply_committed_fields split: if_splits)

text \<open>The follower's commit rule: the minimum of the leader's index and its own last index.\<close>

lemma update_follower_commit_reference:
  assumes "wf_log l" "valid_entries l" "base_index l \<le> last_applied s"
    "last_applied s \<le> commit_index s" "commit_index s \<le> last_index l" "commit_index s < lc"
  shows "update_follower_commit l lc s st =
    ((s\<lparr>commit_index := min lc (last_index l), last_applied := min lc (last_index l)\<rparr>,
      run_commands (slice (last_applied s) (min lc (last_index l)) l) st), Ok ())"
  using assms
  by (simp add: update_follower_commit_def apply_committed_reference)

end
