(* ===== verification/Replication.thy ===== *)
theory Replication
  imports StateMachine
begin

text \<open>
  The follower's side of log replication, \<^verbatim>\<open>raft/replication.py\<close>: the consistency check, the
  repair of the log and the follower's commit. The repair loop is shown equal
  to one equation: keep the longest prefix of the request that is already there, and replace
  the rest if anything is missing or conflicts.
\<close>

section \<open>The follower\<close>

text \<open>\<^verbatim>\<open>for entry in request.entries\<close>: the log as the loop leaves it, also when it raises.\<close>

fun sync_entries :: "log_entry list \<Rightarrow> raft_log \<Rightarrow> raft_log \<times> unit result" where
  "sync_entries [] l = (l, Ok ())"
| "sync_entries (entry # es) l =
     (case log_get (entry_index entry) l of
        Some existing \<Rightarrow>
          (if entry_term existing = entry_term entry then sync_entries es l
           else (case truncate_from (entry_index entry) l of
                   Inl e \<Rightarrow> (l, Err e)
                 | Inr l \<Rightarrow>
                     (case append_entry entry l of
                        Inl e \<Rightarrow> (l, Err e)
                      | Inr l \<Rightarrow> sync_entries es l)))
      | None \<Rightarrow>
          (case append_entry entry l of
             Inl e \<Rightarrow> (l, Err e)
           | Inr l \<Rightarrow> sync_entries es l))"

definition handle_append_entries ::
  "append_entries_request \<Rightarrow> raft_state \<Rightarrow> raft_log \<Rightarrow> kv_store option \<Rightarrow>
   (raft_state \<times> raft_log \<times> kv_store option) \<times> append_entries_response result" where
  "handle_append_entries request s l store =
     (if ae_term request < current_term s then
        ((s, l, store), Ok \<lparr>aer_term = current_term s, aer_success = False\<rparr>)
      else
        (case become_follower (ae_term request) (Some (ae_leader_id request)) s of
           Inl e \<Rightarrow> ((s, l, store), Err e)
         | Inr s \<Rightarrow>
             (if last_index l < ae_prev_log_index request then
                ((s, l, store), Ok \<lparr>aer_term = current_term s, aer_success = False\<rparr>)
              else if term_at (ae_prev_log_index request) l \<noteq> Some (ae_prev_log_term request) then
                ((s, l, store), Ok \<lparr>aer_term = current_term s, aer_success = False\<rparr>)
              else
                (case sync_entries (ae_entries request) l of
                   (l, Inl e) \<Rightarrow> ((s, l, store), Err e)
                 | (l, Inr _) \<Rightarrow>
                     (case store of
                        None \<Rightarrow> ((s, l, None), Ok \<lparr>aer_term = current_term s, aer_success = True\<rparr>)
                      | Some st \<Rightarrow>
                          (case update_follower_commit l (ae_leader_commit request) s st of
                             ((s, st), Inl e) \<Rightarrow> ((s, l, Some st), Err e)
                           | ((s, st), Inr _) \<Rightarrow>
                               ((s, l, Some st),
                                Ok \<lparr>aer_term = current_term s, aer_success = True\<rparr>)))))))"

section \<open>The repair loop, in one equation\<close>

text \<open>How many leading entries of the request the log already holds (same index and term).\<close>

fun matched :: "log_entry list \<Rightarrow> raft_log \<Rightarrow> nat" where
  "matched [] l = 0"
| "matched (e # es) l =
     (case log_get (entry_index e) l of
        Some x \<Rightarrow> if entry_term x = entry_term e then Suc (matched es l) else 0
      | None \<Rightarrow> 0)"

definition repaired :: "int \<Rightarrow> log_entry list \<Rightarrow> raft_log \<Rightarrow> raft_log" where
  "repaired prev es l =
     (if matched es l = length es then l
      else l\<lparr>entries := take (nat (prev - base_index l) + matched es l) (entries l)
                       @ drop (matched es l) es\<rparr>)"

lemma matched_le: "matched es l \<le> length es"
  by (induction es) (auto split: option.splits)

lemma sync_entries_push:
  assumes "wf_log l" "contiguous (last_index l) es"
  shows "sync_entries es l = (l\<lparr>entries := entries l @ es\<rparr>, Ok ())"
  using assms
proof (induction es arbitrary: l)
  case Nil
  then show ?case by simp
next
  case (Cons e es)
  define l1 where "l1 = l\<lparr>entries := entries l @ [e]\<rparr>"
  have idx: "entry_index e = last_index l + 1" using Cons.prems(2) by (simp add: contiguous_Cons)
  have step: "append_entry e l = Ok l1" using idx by (simp add: append_entry_Ok_iff l1_def)
  have "contiguous (last_index l1) es"
    using Cons.prems(2) append_entry_get(2) [OF Cons.prems(1) step] by (simp add: contiguous_Cons)
  with wf_append_entry [OF Cons.prems(1) step]
  have "sync_entries es l1 = (l1\<lparr>entries := entries l1 @ es\<rparr>, Ok ())"
    by (rule Cons.IH)
  moreover have "log_get (entry_index e) l = None"
    using log_get_None_iff [OF Cons.prems(1)] idx by simp
  ultimately show ?case by (simp add: step l1_def)
qed

theorem sync_entries_repaired:
  assumes "wf_log l" "contiguous prev es" "base_index l \<le> prev" "prev \<le> last_index l"
  shows "sync_entries es l = (repaired prev es l, Ok ())"
  using assms
proof (induction es arbitrary: prev)
  case Nil
  then show ?case by (simp add: repaired_def)
next
  case (Cons e es)
  note wf = Cons.prems(1)
  let ?n = "nat (prev - base_index l)"
  have idx: "entry_index e = prev + 1" and rest: "contiguous (prev + 1) es"
    using Cons.prems(2) by (simp_all add: contiguous_Cons)
  have n: "?n \<le> length (entries l)"
    using Cons.prems(3,4) by (simp add: wf_last_index [OF wf])
  show ?case
  proof (cases "log_get (prev + 1) l")
    case None
    then have top: "last_index l = prev"
      using log_get_None_iff [OF wf] Cons.prems(3,4) by simp
    then have "?n = length (entries l)" by (simp add: wf_last_index [OF wf])
    then show ?thesis
      using sync_entries_push [OF wf, of "e # es"] Cons.prems(2) top None
      by (simp add: repaired_def idx)
  next
    case (Some x)
    show ?thesis
    proof (cases "entry_term x = entry_term e")
      case True
      have "prev + 1 \<le> last_index l" using log_get_index(3) [OF wf Some] .
      then have "sync_entries es l = (repaired (prev + 1) es l, Ok ())"
        using Cons.IH [OF wf rest] Cons.prems(3) by simp
      moreover have "nat (prev + 1 - base_index l) = Suc ?n" using Cons.prems(3) by linarith
      ultimately show ?thesis using Some True by (simp add: repaired_def idx)
    next
      case False
      obtain l1 where l1: "truncate_from (prev + 1) l = Ok l1"
        using truncate_from_Ok [of l "prev + 1"] Cons.prems(3) by auto
      have "prev + 1 \<le> last_index l" using log_get_index(3) [OF wf Some] .
      then have l1_def: "l1 = l\<lparr>entries := take ?n (entries l)\<rparr>"
        using l1 Cons.prems(3) by (auto simp: truncate_from_def Let_def wf_last_index [OF wf] split: if_splits)
      have top: "last_index l1 = prev"
        using truncate_from_get(2) [OF wf l1] Cons.prems(4) by simp
      have wf1: "wf_log l1" by (rule wf_truncate_from [OF wf l1])
      have none: "log_get (prev + 1) l1 = None"
        using log_get_None_iff [OF wf1] top by simp
      have "sync_entries (e # es) l1 = (l1\<lparr>entries := entries l1 @ e # es\<rparr>, Ok ())"
        using sync_entries_push [OF wf1, of "e # es"] Cons.prems(2) top by simp
      then show ?thesis
        using Some False l1 none by (simp add: repaired_def idx l1_def)
    qed
  qed
qed

lemma matched_lookup:
  "contiguous prev es \<Longrightarrow> k < matched es l \<Longrightarrow>
   \<exists>x. log_get (prev + 1 + int k) l = Some x \<and> entry_term x = entry_term (es ! k)"
proof (induction es arbitrary: prev k)
  case Nil
  then show ?case by simp
next
  case (Cons e es)
  then obtain x where x: "log_get (prev + 1) l = Some x" "entry_term x = entry_term e"
      "k < Suc (matched es l)"
    by (auto simp: contiguous_Cons split: option.splits if_splits)
  show ?case
  proof (cases k)
    case 0
    then show ?thesis using x by simp
  next
    case (Suc j)
    then show ?thesis
      using Cons.IH [of "prev + 1" j] Cons.prems(1) x by (simp add: contiguous_Cons algebra_simps)
  qed
qed

lemma matched_all_iff:
  assumes "contiguous prev es"
  shows "matched es l = length es \<longleftrightarrow>
    (\<forall>k < length es. \<exists>x. log_get (prev + 1 + int k) l = Some x \<and> entry_term x = entry_term (es ! k))"
proof
  assume "matched es l = length es"
  then show "\<forall>k < length es. \<exists>x. log_get (prev + 1 + int k) l = Some x \<and> entry_term x = entry_term (es ! k)"
    using matched_lookup [OF assms] by simp
next
  assume "\<forall>k < length es. \<exists>x. log_get (prev + 1 + int k) l = Some x \<and> entry_term x = entry_term (es ! k)"
  then show "matched es l = length es" using assms
  proof (induction es arbitrary: prev)
    case Nil
    then show ?case by simp
  next
    case (Cons e es)
    have "\<forall>k < length es. \<exists>x. log_get (prev + 1 + 1 + int k) l = Some x \<and> entry_term x = entry_term (es ! k)"
    proof (intro allI impI)
      fix k
      assume "k < length es"
      then show "\<exists>x. log_get (prev + 1 + 1 + int k) l = Some x \<and> entry_term x = entry_term (es ! k)"
        using Cons.prems(1) [rule_format, of "Suc k"] by (simp add: algebra_simps)
    qed
    moreover have "\<exists>x. log_get (prev + 1) l = Some x \<and> entry_term x = entry_term e"
      using Cons.prems(1) [rule_format, of 0] by simp
    ultimately show ?case using Cons.IH [of "prev + 1"] Cons.prems(2) by (auto simp: contiguous_Cons)
  qed
qed

text \<open>The count stops at the first entry that is missing or has another term.\<close>

lemma matched_stops:
  "contiguous prev es \<Longrightarrow> matched es l < length es \<Longrightarrow>
   log_get (prev + 1 + int (matched es l)) l = Some x \<Longrightarrow> entry_term x \<noteq> entry_term (es ! matched es l)"
proof (induction es arbitrary: prev)
  case Nil
  then show ?case by simp
next
  case (Cons e es)
  have idx: "entry_index e = prev + 1" and rest: "contiguous (prev + 1) es"
    using Cons.prems(1) by (simp_all add: contiguous_Cons)
  show ?case
  proof (cases "\<exists>y. log_get (prev + 1) l = Some y \<and> entry_term y = entry_term e")
    case True
    then show ?thesis
      using Cons.IH [OF rest] Cons.prems(2,3) idx by (auto simp: algebra_simps)
  next
    case False
    then have "matched (e # es) l = 0" using idx by (auto split: option.splits)
    then show ?thesis using False Cons.prems(3) by auto
  qed
qed

text \<open>The repaired log, by its lookups.\<close>

lemma matched_bound:
  assumes "wf_log l" "contiguous prev es" "base_index l \<le> prev" "prev \<le> last_index l"
  shows "nat (prev - base_index l) + matched es l \<le> length (entries l)"
proof (cases "matched es l")
  case 0
  then show ?thesis using assms(3,4) by (simp add: wf_last_index [OF assms(1)])
next
  case (Suc j)
  then obtain x where "log_get (prev + 1 + int j) l = Some x"
    using matched_lookup [OF assms(2), of j l] by auto
  from log_get_index(3) [OF assms(1) this]
  have "prev + 1 + int j \<le> base_index l + int (length (entries l))"
    by (simp add: wf_last_index [OF assms(1)])
  then show ?thesis using assms(3) Suc by linarith
qed

lemma repaired_wf [wf]:
  assumes "wf_log l" "contiguous prev es" "base_index l \<le> prev" "prev \<le> last_index l"
  shows "wf_log (repaired prev es l)"
proof (cases "matched es l = length es")
  case True
  then show ?thesis using assms(1) by (simp add: repaired_def)
next
  case False
  let ?m = "matched es l" and ?n = "nat (prev - base_index l)"
  have m: "?m < length es" using False matched_le [of es l] by simp
  note len = matched_bound [OF assms(1-4)]
  have base: "base_index l + int (?n + ?m) = prev + int ?m" using assms(3) by simp
  have length: "length (take (?n + ?m) (entries l)) = ?n + ?m" using len by simp
  have "contiguous (prev + int ?m) (drop ?m es)"
    using contiguous_drop [OF assms(2), of ?m] m by simp
  then have "contiguous (base_index l) (take (?n + ?m) (entries l) @ drop ?m es)"
    unfolding contiguous_append length base using assms(1) by (simp add: contiguous_take wf_log_def)
  then show ?thesis using assms(1) False by (simp add: repaired_def wf_log_def)
qed

lemma repaired_base [simp]:
  "base_index (repaired prev es l) = base_index l" "base_term (repaired prev es l) = base_term l"
  by (simp_all add: repaired_def)


lemma repaired_get:
  assumes "wf_log l" "contiguous prev es" "base_index l \<le> prev" "prev \<le> last_index l"
    and m: "matched es l \<noteq> length es"
  shows "log_get i (repaired prev es l) =
    (if i \<le> prev + int (matched es l) then log_get i l
     else if i \<le> prev + int (length es) then Some (es ! nat (i - prev - 1)) else None)"
    "last_index (repaired prev es l) = prev + int (length es)"
proof -
  let ?m = "matched es l" and ?n = "nat (prev - base_index l)"
  note wf' = repaired_wf [OF assms(1-4)]
  have mlt: "?m < length es" using m matched_le [of es l] by simp
  note len = matched_bound [OF assms(1-4)]
  have es: "entries (repaired prev es l) = take (?n + ?m) (entries l) @ drop ?m es"
    using m by (simp add: repaired_def)
  show "last_index (repaired prev es l) = prev + int (length es)"
    using len mlt assms(3) by (simp add: wf_last_index [OF wf'] es)
  show "log_get i (repaired prev es l) =
    (if i \<le> prev + int ?m then log_get i l
     else if i \<le> prev + int (length es) then Some (es ! nat (i - prev - 1)) else None)"
  proof (cases "i \<le> base_index l")
    case True
    then show ?thesis using assms(3) by (simp add: log_get_nth [OF wf'] log_get_nth [OF assms(1)])
  next
    case False
    let ?k = "nat (i - base_index l - 1)"
    have k1: "?k < ?n + ?m \<longleftrightarrow> i \<le> prev + int ?m" using False assms(3) by linarith
    have k2: "?m + (?k - (?n + ?m)) = nat (i - prev - 1)" if "\<not> i \<le> prev + int ?m"
      using that False assms(3) by linarith
    show ?thesis
      using False len mlt k1 k2 assms(3)
      by (auto simp: log_get_nth [OF wf'] log_get_nth [OF assms(1)] es nth_opt_def nth_append)
  qed
qed

lemma repaired_id: "matched es l = length es \<Longrightarrow> repaired prev es l = l"
  by (simp add: repaired_def)

text \<open>
  What the repair guarantees: the prefix up to \<open>prev\<close> is untouched, every entry of the request
  is there by its term, and an index already matched keeps its own entry.
\<close>

lemma repaired_prefix:
  assumes "wf_log l" "contiguous prev es" "base_index l \<le> prev" "prev \<le> last_index l" "i \<le> prev"
  shows "log_get i (repaired prev es l) = log_get i l"
  using repaired_get(1) [OF assms(1-4), of i] assms(5)
  by (cases "matched es l = length es") (auto simp: repaired_id)

lemma repaired_holds:
  assumes "wf_log l" "contiguous prev es" "base_index l \<le> prev" "prev \<le> last_index l" "k < length es"
  shows "\<exists>x. log_get (prev + 1 + int k) (repaired prev es l) = Some x \<and> entry_term x = entry_term (es ! k) \<and>
    (x = es ! k \<or> log_get (prev + 1 + int k) l = Some x)"
proof (cases "k < matched es l")
  case True
  then show ?thesis
    using matched_lookup [OF assms(2) True] repaired_get(1) [OF assms(1-4), of "prev + 1 + int k"]
    by (cases "matched es l = length es") (auto simp: repaired_id)
next
  case False
  then have "matched es l \<noteq> length es" using assms(5) by auto
  then show ?thesis
    using repaired_get(1) [OF assms(1-4), of "prev + 1 + int k"] False assms(5) by auto
qed

lemma repaired_last:
  assumes "wf_log l" "contiguous prev es" "base_index l \<le> prev" "prev \<le> last_index l"
  shows "prev + int (length es) \<le> last_index (repaired prev es l)"
proof (cases "matched es l = length es")
  case False
  then show ?thesis using repaired_get(2) [OF assms] by simp
next
  case True
  show ?thesis
  proof (cases es)
    case Nil
    then show ?thesis using assms(4) True by (simp add: repaired_id)
  next
    case (Cons e es')
    then have "length es - 1 < length es" by simp
    then obtain x where "log_get (prev + 1 + int (length es - 1)) l = Some x"
      using matched_lookup [OF assms(2), of "length es - 1" l] True by auto
    from log_get_index(3) [OF assms(1) this] show ?thesis
      using Cons True by (simp add: repaired_id)
  qed
qed

text \<open>Repairing twice with the same request changes nothing more.\<close>

lemma repaired_idem:
  assumes "wf_log l" "contiguous prev es" "base_index l \<le> prev" "prev \<le> last_index l"
  shows "repaired prev es (repaired prev es l) = repaired prev es l"
proof (rule repaired_id, subst matched_all_iff [OF assms(2)], intro allI impI)
  fix k
  assume "k < length es"
  then show "\<exists>x. log_get (prev + 1 + int k) (repaired prev es l) = Some x \<and> entry_term x = entry_term (es ! k)"
    using repaired_holds [OF assms] by blast
qed

text \<open>An index the request does not contradict, with everything before it, survives the repair.\<close>

lemma repaired_keeps:
  assumes "wf_log l" "contiguous prev es" "base_index l \<le> prev" "prev \<le> last_index l"
    and agree: "\<And>k x. k < length es \<Longrightarrow> prev + 1 + int k \<le> c \<Longrightarrow>
       log_get (prev + 1 + int k) l = Some x \<Longrightarrow> entry_term x = entry_term (es ! k)"
    and "i \<le> c" "c \<le> last_index l"
  shows "log_get i (repaired prev es l) = log_get i l"
proof (cases "matched es l = length es \<or> i \<le> prev + int (matched es l)")
  case True
  then show ?thesis using repaired_get(1) [OF assms(1-4), of i]
    by (cases "matched es l = length es") (auto simp: repaired_id)
next
  case False
  let ?m = "matched es l"
  have m: "?m < length es" and idx: "prev + 1 + int ?m \<le> c"
    using False matched_le [of es l] assms(6) by auto
  obtain x where x: "log_get (prev + 1 + int ?m) l = Some x"
    using log_get_None_iff [OF assms(1), of "prev + 1 + int ?m"] idx assms(3,7) by fastforce
  show ?thesis using agree [OF m idx x] matched_stops [OF assms(2) m x] by simp
qed

section \<open>The handler\<close>

lemma sync_entries_wf [wf]:
  "sync_entries es l = (l', r) \<Longrightarrow> wf_log l \<Longrightarrow>
   wf_log l' \<and> base_index l' = base_index l \<and> base_term l' = base_term l"
proof (induction es arbitrary: l)
  case Nil
  then show ?case by simp
next
  case (Cons e es)
  from Cons.prems(1) consider "l' = l"
    | "sync_entries es l = (l', r)"
    | l1 where "append_entry e l = Inr l1" "sync_entries es l1 = (l', r)"
    | l1 where "truncate_from (entry_index e) l = Inr l1" "l' = l1"
    | l1 l2 where "truncate_from (entry_index e) l = Inr l1" "append_entry e l1 = Inr l2"
        "sync_entries es l2 = (l', r)"
    by (auto split: option.splits sum.splits if_splits)
  then show ?case
  proof cases
    case 3
    then show ?thesis
      using Cons.IH wf_append_entry [OF Cons.prems(2)] append_entry_get(3,4) [OF Cons.prems(2)] by metis
  next
    case 4
    then show ?thesis
      using wf_truncate_from [OF Cons.prems(2)] truncate_from_get(3,4) [OF Cons.prems(2)] by metis
  next
    case (5 l1 l2)
    note wf1 = wf_truncate_from [OF Cons.prems(2) 5(1)]
    show ?thesis
      using Cons.IH [OF 5(3) wf_append_entry [OF wf1 5(2)]] append_entry_get(3,4) [OF wf1 5(2)]
        truncate_from_get(3,4) [OF Cons.prems(2) 5(1)] by simp
  qed (use Cons in auto)
qed

text \<open>Every outcome, errors included, in terms of the sub-calls.\<close>

lemma handle_append_entries_cases:
  assumes "handle_append_entries req s l st = ((s', l', st'), res)"
  obtains (stale) "ae_term req < current_term s" "s' = s" "l' = l" "st' = st"
      "res = Ok \<lparr>aer_term = current_term s, aer_success = False\<rparr>"
    | (refused) "current_term s \<le> ae_term req"
      "become_follower (ae_term req) (Some (ae_leader_id req)) s = Ok s'" "l' = l" "st' = st"
      "last_index l < ae_prev_log_index req \<or> term_at (ae_prev_log_index req) l \<noteq> Some (ae_prev_log_term req)"
      "res = Ok \<lparr>aer_term = ae_term req, aer_success = False\<rparr>"
    | (sync_error) e where "current_term s \<le> ae_term req"
      "become_follower (ae_term req) (Some (ae_leader_id req)) s = Ok s'"
      "ae_prev_log_index req \<le> last_index l" "term_at (ae_prev_log_index req) l = Some (ae_prev_log_term req)"
      "sync_entries (ae_entries req) l = (l', Err e)" "st' = st" "res = Err e"
    | (no_store) "current_term s \<le> ae_term req"
      "become_follower (ae_term req) (Some (ae_leader_id req)) s = Ok s'"
      "ae_prev_log_index req \<le> last_index l" "term_at (ae_prev_log_index req) l = Some (ae_prev_log_term req)"
      "sync_entries (ae_entries req) l = (l', Ok ())" "st = None" "st' = None"
      "res = Ok \<lparr>aer_term = ae_term req, aer_success = True\<rparr>"
    | (committed) s1 store store' r where "current_term s \<le> ae_term req"
      "become_follower (ae_term req) (Some (ae_leader_id req)) s = Ok s1"
      "ae_prev_log_index req \<le> last_index l" "term_at (ae_prev_log_index req) l = Some (ae_prev_log_term req)"
      "sync_entries (ae_entries req) l = (l', Ok ())" "st = Some store" "st' = Some store'"
      "update_follower_commit l' (ae_leader_commit req) s1 store = ((s', store'), r)"
      "res = (case r of Inl e \<Rightarrow> Err e | Inr _ \<Rightarrow> Ok \<lparr>aer_term = ae_term req, aer_success = True\<rparr>)"
proof (cases "ae_term req < current_term s")
  case True
  then show thesis using assms by (intro stale) (auto simp: handle_append_entries_def)
next
  case False
  then obtain s1 where s1: "become_follower (ae_term req) (Some (ae_leader_id req)) s = Ok s1"
    using become_follower_Ok [of s "ae_term req" "Some (ae_leader_id req)"] by (metis not_less)
  have t1: "current_term s1 = ae_term req" by (rule become_follower_OkD(2) [OF s1])
  obtain l1 r1 where l1: "sync_entries (ae_entries req) l = (l1, r1)" by fastforce
  obtain s2 st2 r2 where u: "update_follower_commit l1 (ae_leader_commit req) s1 (the st) = ((s2, st2), r2)"
    by (metis prod.exhaust)
  note body = assms [unfolded handle_append_entries_def, simplified False s1 l1, simplified]
  show thesis
  proof (cases "last_index l < ae_prev_log_index req \<or>
      term_at (ae_prev_log_index req) l \<noteq> Some (ae_prev_log_term req)")
    case True
    then show thesis using body False s1 t1 by (intro refused) (auto split: if_splits)
  next
    case ok: False
    show thesis
    proof (cases r1)
      case (Inl e)
      then show thesis using body False s1 ok l1 by (intro sync_error [of e]) auto
    next
      case (Inr x)
      show thesis
      proof (cases st)
        case None
        then show thesis using body False s1 ok l1 Inr t1 by (intro no_store) auto
      next
        case (Some store)
        have t2: "current_term s2 = ae_term req"
          using update_follower_commit_fields(2) [OF u] t1 by simp
        show thesis
          using body False s1 ok l1 Inr Some u t2
          by (intro committed [of s1 store st2 r2]) (auto split: sum.splits)
      qed
    qed
  qed
qed

lemma handle_append_entries_frame [frame]:
  assumes "handle_append_entries req s l st = ((s', l', st'), res)"
  shows "vote_step s s'" "node_id s' = node_id s"
    "current_term s' = max (current_term s) (ae_term req)"
    "ae_term req < current_term s \<Longrightarrow> s' = s" "current_term s \<le> ae_term req \<Longrightarrow> role s' = FOLLOWER"
    "voted_for s' = (if current_term s < ae_term req then None else voted_for s)"
proof -
  have "vote_step s s' \<and> node_id s' = node_id s \<and> current_term s' = max (current_term s) (ae_term req) \<and>
    (ae_term req < current_term s \<longrightarrow> s' = s) \<and> (current_term s \<le> ae_term req \<longrightarrow> role s' = FOLLOWER) \<and>
    voted_for s' = (if current_term s < ae_term req then None else voted_for s)"
    using assms
  proof (cases rule: handle_append_entries_cases)
    case (committed s1 store store' r)
    note u = update_follower_commit_fields [OF committed(8)]
    note f = become_follower_OkD [OF committed(2)]
    show ?thesis using u f committed(1) by (auto simp: vote_step_def)
  qed (auto simp: vote_step_def dest: become_follower_OkD)
  then show "vote_step s s'" "node_id s' = node_id s"
    "current_term s' = max (current_term s) (ae_term req)"
    "ae_term req < current_term s \<Longrightarrow> s' = s" "current_term s \<le> ae_term req \<Longrightarrow> role s' = FOLLOWER"
    "voted_for s' = (if current_term s < ae_term req then None else voted_for s)" by blast+
qed

lemma handle_append_entries_wf [wf]:
  assumes "handle_append_entries req s l st = ((s', l', st'), res)" "wf_log l"
  shows "wf_log l'" "base_index l' = base_index l" "base_term l' = base_term l"
  using assms(1)
  by (cases rule: handle_append_entries_cases; use assms(2) in \<open>auto dest: sync_entries_wf\<close>)+

lemma term_at_range:
  assumes "wf_log l" "term_at i l = Some t"
  shows "base_index l \<le> i" "i \<le> last_index l"
  using term_at_None_iff [OF assms(1), of i] assms(2) by auto

text \<open>A response of success: the log is the repaired one, and the commit rule has run.\<close>

lemma handle_append_entries_success:
  assumes "handle_append_entries req s l st = ((s', l', st'), Ok resp)" "aer_success resp"
    "wf_log l" "contiguous (ae_prev_log_index req) (ae_entries req)"
  shows "current_term s \<le> ae_term req" "aer_term resp = ae_term req"
    "term_at (ae_prev_log_index req) l = Some (ae_prev_log_term req)"
    "l' = repaired (ae_prev_log_index req) (ae_entries req) l"
proof -
  have "current_term s \<le> ae_term req \<and> aer_term resp = ae_term req \<and>
    term_at (ae_prev_log_index req) l = Some (ae_prev_log_term req) \<and>
    sync_entries (ae_entries req) l = (l', Ok ())"
    using assms(1,2) by (cases rule: handle_append_entries_cases) (auto split: sum.splits)
  then show "current_term s \<le> ae_term req" "aer_term resp = ae_term req"
    "term_at (ae_prev_log_index req) l = Some (ae_prev_log_term req)"
    "l' = repaired (ae_prev_log_index req) (ae_entries req) l"
    using sync_entries_repaired [OF assms(3,4)] term_at_range [OF assms(3)] by auto
qed

text \<open>A refused or stale request leaves the log, the store and the indexes alone.\<close>

lemma handle_append_entries_refused:
  assumes "handle_append_entries req s l st = ((s', l', st'), Ok resp)" "\<not> aer_success resp"
  shows "l' = l" "st' = st" "commit_index s' = commit_index s" "last_applied s' = last_applied s"
  using assms
  by (cases rule: handle_append_entries_cases; auto dest: become_follower_OkD split: sum.splits)+

end
