(* ===== verification/Election.thy ===== *)
theory Election
  imports RaftTypes
begin

text \<open>
  Elections: the vote decision (\<^verbatim>\<open>raft/vote.py\<close>), the candidate's tally (\<^verbatim>\<open>raft/election.py\<close>), the
  randomised timer (\<^verbatim>\<open>raft/timer.py\<close>), the trigger (\<^verbatim>\<open>raft/election_trigger.py\<close>) and the bare
  heartbeat handler (\<^verbatim>\<open>raft/heartbeat.py\<close>). A Python set is the list of its elements, without
  repetition, in its iteration order. The clock and the random source are inputs.
\<close>

section \<open>Voting\<close>

definition is_candidate_log_up_to_date :: "int \<Rightarrow> int \<Rightarrow> int \<Rightarrow> int \<Rightarrow> bool" where
  "is_candidate_log_up_to_date candidate_last_index candidate_last_term local_last_index local_last_term =
     (if candidate_last_term \<noteq> local_last_term then local_last_term < candidate_last_term
      else local_last_index \<le> candidate_last_index)"

definition handle_request_vote ::
  "request_vote_request \<Rightarrow> int \<Rightarrow> int \<Rightarrow> raft_state \<Rightarrow> (raft_state \<times> request_vote_response) result" where
  "handle_request_vote request local_last_index local_last_term s =
     (if rv_term request < current_term s then
        Ok (s, \<lparr>rvr_term = current_term s, rvr_vote_granted = False\<rparr>)
      else
        (case (if current_term s < rv_term request then become_follower (rv_term request) None s else Ok s) of
           Inl e \<Rightarrow> Err e
         | Inr s \<Rightarrow>
             (let can_vote = (voted_for s = None \<or> voted_for s = Some (rv_candidate_id request));
                  log_is_current = is_candidate_log_up_to_date (rv_last_log_index request)
                    (rv_last_log_term request) local_last_index local_last_term;
                  vote_granted = (can_vote \<and> log_is_current);
                  s = (if vote_granted then s\<lparr>voted_for := Some (rv_candidate_id request)\<rparr> else s)
              in Ok (s, \<lparr>rvr_term = current_term s, rvr_vote_granted = vote_granted\<rparr>))))"

section \<open>The election timer\<close>

text \<open>
  Times are seconds. \<open>clock_rnd\<close> is the value of \<^verbatim>\<open>random.random()\<close>, in \<open>[0, 1)\<close>, from which
  \<^verbatim>\<open>random.uniform(a, b)\<close> computes \<open>a + (b - a) * random()\<close>.
\<close>

record clock =
  clock_now :: real
  clock_rnd :: real

definition wf_clock :: "clock \<Rightarrow> bool" where
  "wf_clock c = (0 \<le> clock_now c \<and> 0 \<le> clock_rnd c \<and> clock_rnd c < 1)"

record election_timer =
  min_timeout :: real
  max_timeout :: real
  deadline :: real

definition timer_reset :: "clock \<Rightarrow> election_timer \<Rightarrow> election_timer" where
  "timer_reset c t =
     (let timeout = min_timeout t + (max_timeout t - min_timeout t) * clock_rnd c
      in t\<lparr>deadline := clock_now c + timeout\<rparr>)"

definition timer_init :: "real \<Rightarrow> real \<Rightarrow> clock \<Rightarrow> election_timer result" where
  "timer_init mn mx c =
     (if mn \<le> 0 then Err ValueError
      else if mx \<le> mn then Err ValueError
      else Ok (timer_reset c \<lparr>min_timeout = mn, max_timeout = mx, deadline = 0\<rparr>))"

definition timer_expired :: "clock \<Rightarrow> election_timer \<Rightarrow> bool" where
  "timer_expired c t = (deadline t \<le> clock_now c)"

definition timer_remaining :: "clock \<Rightarrow> election_timer \<Rightarrow> real" where
  "timer_remaining c t = max 0 (deadline t - clock_now c)"

definition timer_expire_now :: "election_timer \<Rightarrow> election_timer" where
  "timer_expire_now t = t\<lparr>deadline := 0\<rparr>"

text \<open>\<^verbatim>\<open>ElectionTimer()\<close>, with the default bounds.\<close>

definition default_timer :: "clock \<Rightarrow> election_timer" where
  "default_timer c = timer_reset c \<lparr>min_timeout = 3 / 2, max_timeout = 3, deadline = 0\<rparr>"

section \<open>The candidate's tally\<close>

text \<open>
  The tracker holds a reference to the node's \<^verbatim>\<open>RaftState\<close> and changes it, so its methods
  take and return both objects.
\<close>

record election_tracker =
  tracker_members :: "string list"
  votes_received :: "string list"
  active :: bool

definition set_add :: "'a \<Rightarrow> 'a list \<Rightarrow> 'a list" where
  "set_add x xs = (if x \<in> set xs then xs else xs @ [x])"

definition tracker_init :: "raft_state \<Rightarrow> string list \<Rightarrow> election_tracker result" where
  "tracker_init s members =
     (if members = [] then Err ValueError
      else if node_id s \<notin> set members then Err ValueError
      else Ok \<lparr>tracker_members = members, votes_received = [], active = False\<rparr>)"

definition quorum_size :: "election_tracker \<Rightarrow> nat" where
  "quorum_size t = length (tracker_members t) div 2 + 1"

definition promote_if_quorum ::
  "election_tracker \<Rightarrow> raft_state \<Rightarrow> (election_tracker \<times> raft_state) \<times> bool result" where
  "promote_if_quorum t s =
     (if length (votes_received t) < quorum_size t then ((t, s), Ok False)
      else (case become_leader s of
              Inl e \<Rightarrow> ((t, s), Err e)
            | Inr s \<Rightarrow> ((t\<lparr>active := False\<rparr>, s), Ok True)))"

definition tracker_start ::
  "election_tracker \<Rightarrow> raft_state \<Rightarrow> (election_tracker \<times> raft_state) \<times> bool result" where
  "tracker_start t s =
     (let s = become_candidate s;
          t = t\<lparr>votes_received := [node_id s], active := True\<rparr>
      in promote_if_quorum t s)"

definition record_vote ::
  "string \<Rightarrow> request_vote_response \<Rightarrow> election_tracker \<Rightarrow> raft_state \<Rightarrow>
   (election_tracker \<times> raft_state) \<times> bool result" where
  "record_vote voter_id response t s =
     (if \<not> active t then ((t, s), Ok False)
      else if current_term s < rvr_term response then
        (case become_follower (rvr_term response) None s of
           Inl e \<Rightarrow> ((t, s), Err e)
         | Inr s \<Rightarrow> ((t\<lparr>active := False\<rparr>, s), Ok False))
      else if rvr_term response < current_term s then ((t, s), Ok False)
      else if role s \<noteq> CANDIDATE then ((t\<lparr>active := False\<rparr>, s), Ok False)
      else if voter_id \<notin> set (tracker_members t) then ((t, s), Ok False)
      else promote_if_quorum
             (if rvr_vote_granted response
              then t\<lparr>votes_received := set_add voter_id (votes_received t)\<rparr> else t) s)"

section \<open>The trigger and the heartbeat\<close>

definition start_election_if_needed ::
  "clock \<Rightarrow> int \<Rightarrow> int \<Rightarrow> election_tracker \<Rightarrow> election_timer \<Rightarrow> raft_state \<Rightarrow>
   (election_tracker \<times> election_timer \<times> raft_state) \<times> (string, request_vote_request) dict result" where
  "start_election_if_needed c local_last_index local_last_term t tm s =
     (if \<not> timer_expired c tm then ((t, tm, s), Ok [])
      else (case tracker_start t s of
              ((t, s), Inl e) \<Rightarrow> ((t, tm, s), Err e)
            | ((t, s), Inr _) \<Rightarrow>
                (let tm = timer_reset c tm in
                 if role s = LEADER then ((t, tm, s), Ok [])
                 else let request = \<lparr>rv_term = current_term s, rv_candidate_id = node_id s,
                          rv_last_log_index = local_last_index, rv_last_log_term = local_last_term\<rparr>
                      in ((t, tm, s), Ok (map (\<lambda>p. (p, request))
                            (filter (\<lambda>p. p \<noteq> node_id s) (tracker_members t)))))))"

definition handle_heartbeat ::
  "clock \<Rightarrow> append_entries_request \<Rightarrow> raft_state \<Rightarrow> election_timer \<Rightarrow>
   (raft_state \<times> election_timer) \<times> append_entries_response result" where
  "handle_heartbeat c request s tm =
     (if ae_term request < current_term s then
        ((s, tm), Ok \<lparr>aer_term = current_term s, aer_success = False\<rparr>)
      else (case become_follower (ae_term request) (Some (ae_leader_id request)) s of
              Inl e \<Rightarrow> ((s, tm), Err e)
            | Inr s \<Rightarrow> ((s, timer_reset c tm), Ok \<lparr>aer_term = current_term s, aer_success = True\<rparr>)))"

section \<open>Voting: the decision\<close>

lemma up_to_date_refl: "is_candidate_log_up_to_date i t i t"
  by (simp add: is_candidate_log_up_to_date_def)

lemma up_to_date_total:
  "is_candidate_log_up_to_date i t i' t' \<or> is_candidate_log_up_to_date i' t' i t"
  by (auto simp: is_candidate_log_up_to_date_def)

lemma up_to_date_trans:
  "is_candidate_log_up_to_date a s b t \<Longrightarrow> is_candidate_log_up_to_date b t c u \<Longrightarrow>
   is_candidate_log_up_to_date a s c u"
  by (auto simp: is_candidate_log_up_to_date_def split: if_splits)

lemma handle_request_vote_cases:
  "handle_request_vote request li lt s =
     (if rv_term request < current_term s then
        Ok (s, \<lparr>rvr_term = current_term s, rvr_vote_granted = False\<rparr>)
      else let s1 = (if current_term s < rv_term request
                     then s\<lparr>voted_for := None, current_term := rv_term request,
                            role := FOLLOWER, leader_id := None\<rparr> else s);
               granted = ((voted_for s1 = None \<or> voted_for s1 = Some (rv_candidate_id request)) \<and>
                 is_candidate_log_up_to_date (rv_last_log_index request) (rv_last_log_term request) li lt)
           in Ok (if granted then s1\<lparr>voted_for := Some (rv_candidate_id request)\<rparr> else s1,
                  \<lparr>rvr_term = rv_term request, rvr_vote_granted = granted\<rparr>))"
  by (auto simp: handle_request_vote_def become_follower_def Let_def)

lemma handle_request_vote_Ok: "\<exists>s' r. handle_request_vote request li lt s = Ok (s', r)"
  by (auto simp: handle_request_vote_cases Let_def)

lemma handle_request_vote_frame [frame]:
  assumes "handle_request_vote request li lt s = Ok (s', r)"
  shows "vote_step s s'" "commit_index s' = commit_index s" "last_applied s' = last_applied s"
    "node_id s' = node_id s" "current_term s' = max (current_term s) (rv_term request)"
    "rvr_term r = current_term s'"
    "role s' = (if current_term s < rv_term request then FOLLOWER else role s)"
  using assms by (auto simp: handle_request_vote_cases Let_def vote_step_def split: if_splits)

text \<open>A granted vote is recorded, in the candidate's term, for a candidate that is up to date.\<close>

lemma handle_request_vote_granted:
  assumes "handle_request_vote request li lt s = Ok (s', r)" "rvr_vote_granted r"
  shows "voted_for s' = Some (rv_candidate_id request)" "current_term s' = rv_term request"
    "is_candidate_log_up_to_date (rv_last_log_index request) (rv_last_log_term request) li lt"
    "current_term s = rv_term request \<Longrightarrow> voted_for s \<in> {None, Some (rv_candidate_id request)}"
  using assms by (auto simp: handle_request_vote_cases Let_def split: if_splits)

lemma handle_request_vote_role:
  assumes "handle_request_vote request li lt s = Ok (s', r)" "current_term s' = current_term s"
  shows "role s' = role s" "leader_id s' = leader_id s"
  using assms by (auto simp: handle_request_vote_cases Let_def split: if_splits)

section \<open>The timer\<close>

lemma timer_reset_fields [simp]:
  "min_timeout (timer_reset c t) = min_timeout t" "max_timeout (timer_reset c t) = max_timeout t"
  by (simp_all add: timer_reset_def Let_def)

lemma timer_reset_deadline:
  assumes "wf_clock c" "min_timeout t \<le> max_timeout t"
  shows "clock_now c + min_timeout t \<le> deadline (timer_reset c t)"
    "deadline (timer_reset c t) \<le> clock_now c + max_timeout t"
proof -
  let ?d = "(max_timeout t - min_timeout t) * clock_rnd c"
  have "0 \<le> ?d" using assms by (simp add: wf_clock_def)
  moreover have "?d \<le> (max_timeout t - min_timeout t) * 1"
    using assms by (intro mult_left_mono) (simp_all add: wf_clock_def)
  ultimately show "clock_now c + min_timeout t \<le> deadline (timer_reset c t)"
    "deadline (timer_reset c t) \<le> clock_now c + max_timeout t"
    by (simp_all add: timer_reset_def Let_def)
qed

lemma timer_expire_now_expired: "wf_clock c \<Longrightarrow> timer_expired c (timer_expire_now t)"
  by (simp add: timer_expired_def timer_expire_now_def wf_clock_def)

lemma timer_remaining_zero_iff: "timer_remaining c t = 0 \<longleftrightarrow> timer_expired c t"
  by (auto simp: timer_remaining_def timer_expired_def)

section \<open>The tally\<close>

text \<open>
  The tally's invariant: the votes counted are distinct members, so that counting the list
  is counting voters.
\<close>

definition wf_tracker :: "election_tracker \<Rightarrow> raft_state \<Rightarrow> bool" where
  "wf_tracker t s = (distinct (tracker_members t) \<and> node_id s \<in> set (tracker_members t) \<and>
     distinct (votes_received t) \<and> set (votes_received t) \<subseteq> set (tracker_members t))"

lemma distinct_set_add: "distinct xs \<Longrightarrow> distinct (set_add x xs)"
  by (simp add: set_add_def)

lemma set_set_add [simp]: "set (set_add x xs) = insert x (set xs)"
  by (auto simp: set_add_def)

lemma wf_tracker_majority:
  assumes "wf_tracker t s" "quorum_size t \<le> length (votes_received t)"
  shows "majority (set (tracker_members t)) (set (votes_received t))"
  using assms by (simp add: wf_tracker_def majority_def quorum_size_def distinct_card)

lemma promote_if_quorum_cases:
  assumes "role s = CANDIDATE"
  shows "promote_if_quorum t s =
     (if length (votes_received t) < quorum_size t then ((t, s), Ok False)
      else ((t\<lparr>active := False\<rparr>, s\<lparr>role := LEADER, leader_id := Some (node_id s)\<rparr>), Ok True))"
  using assms by (simp add: promote_if_quorum_def become_leader_def)

lemma tracker_start_cases:
  "tracker_start t s =
     (let t1 = t\<lparr>votes_received := [node_id s], active := True\<rparr>; s1 = become_candidate s
      in if 1 < quorum_size t then ((t1, s1), Ok False)
         else ((t1\<lparr>active := False\<rparr>, s1\<lparr>role := LEADER, leader_id := Some (node_id s)\<rparr>), Ok True))"
  by (simp add: tracker_start_def promote_if_quorum_cases Let_def quorum_size_def)

lemma record_vote_cases:
  assumes "record_vote voter r t s = ((t', s'), res)"
  obtains (ignored) "s' = s" "votes_received t' = votes_received t" "tracker_members t' = tracker_members t"
      "active t' \<longrightarrow> active t" "res = Ok False"
    | (stale) "active t" "current_term s < rvr_term r" "become_follower (rvr_term r) None s = Ok s'"
      "votes_received t' = votes_received t" "tracker_members t' = tracker_members t" "\<not> active t'"
      "res = Ok False"
    | (tallied) "active t" "rvr_term r = current_term s" "role s = CANDIDATE"
      "tracker_members t' = tracker_members t"
      "voter \<in> set (tracker_members t)" "rvr_vote_granted r"
      "votes_received t' = set_add voter (votes_received t)"
      "length (votes_received t') < quorum_size t" "s' = s" "active t'" "res = Ok False"
    | (elected) "active t" "rvr_term r = current_term s" "role s = CANDIDATE"
      "tracker_members t' = tracker_members t"
      "voter \<in> set (tracker_members t)"
      "votes_received t' = (if rvr_vote_granted r then set_add voter (votes_received t) else votes_received t)"
      "quorum_size t \<le> length (votes_received t')"
      "s' = s\<lparr>role := LEADER, leader_id := Some (node_id s)\<rparr>" "\<not> active t'" "res = Ok True"
  using assms
  by (auto simp: record_vote_def promote_if_quorum_cases become_follower_def quorum_size_def Let_def
      split: if_splits)

lemma record_vote_wf [wf]:
  assumes "record_vote voter r t s = ((t', s'), res)" "wf_tracker t s"
  shows "wf_tracker t' s'"
  using assms(1)
  by (cases rule: record_vote_cases)
     (use assms(2) in \<open>auto simp: wf_tracker_def distinct_set_add dest: become_follower_OkD\<close>)

lemma tracker_start_wf [wf]:
  assumes "tracker_start t s = ((t', s'), res)" "wf_tracker t s"
  shows "wf_tracker t' s'"
  using assms by (auto simp: tracker_start_cases Let_def wf_tracker_def split: if_splits)

lemma record_vote_vote_step:
  assumes "record_vote voter r t s = ((t', s'), res)"
  shows "vote_step s s'"
  using assms
  by (cases rule: record_vote_cases)
     (auto simp: vote_step_def become_follower_def Let_def split: if_splits)

text \<open>Becoming leader by a vote needs a quorum of distinct members, in the candidate's term.\<close>

lemma record_vote_leader:
  assumes "record_vote voter r t s = ((t', s'), res)" "role s' = LEADER" "role s \<noteq> LEADER"
    "wf_tracker t s"
  shows "majority (set (tracker_members t)) (set (votes_received t'))" "role s = CANDIDATE"
    "current_term s' = current_term s" "res = Ok True"
    "set (votes_received t') \<subseteq> (if rvr_vote_granted r then insert voter (set (votes_received t))
                               else set (votes_received t))"
proof -
  have wf': "wf_tracker t' s'" by (rule record_vote_wf [OF assms(1,4)])
  from assms(1) have "majority (set (tracker_members t)) (set (votes_received t')) \<and> role s = CANDIDATE \<and>
      current_term s' = current_term s \<and> res = Ok True \<and>
      set (votes_received t') \<subseteq> (if rvr_vote_granted r then insert voter (set (votes_received t))
                               else set (votes_received t))"
  proof (cases rule: record_vote_cases)
    case elected
    then show ?thesis using wf_tracker_majority [OF wf'] by (auto simp: quorum_size_def)
  qed (use assms(2,3) in \<open>auto dest: become_follower_OkD\<close>)
  then show "majority (set (tracker_members t)) (set (votes_received t'))" "role s = CANDIDATE"
    "current_term s' = current_term s" "res = Ok True"
    "set (votes_received t') \<subseteq> (if rvr_vote_granted r then insert voter (set (votes_received t))
                               else set (votes_received t))" by simp_all
qed

end
