(* ===== verification/Leader.thy ===== *)
theory Leader
  imports Replication Election "HOL-Library.Multiset"
begin

text \<open>
  The leader's side of log replication, \<^verbatim>\<open>raft/leader.py\<close>: the progress it keeps per follower,
  the requests it builds from it, and the commit rule. The commit rule is shown sound (the
  new index is on a majority, in the leader's term) and complete.
\<close>

section \<open>The leader\<close>

text \<open>
  \<^verbatim>\<open>LeaderReplication\<close> refers to the node's state and log objects; its methods take them as
  arguments. \<open>next_index\<close> and \<open>match_index\<close> are dictionaries over the followers.
\<close>

record leader_replication =
  repl_members :: "string list"
  followers :: "string list"
  next_index :: "(string, int) dict"
  match_index :: "(string, int) dict"

definition leader_replication_init ::
  "raft_state \<Rightarrow> raft_log \<Rightarrow> string list \<Rightarrow> leader_replication result" where
  "leader_replication_init s l members =
     (if role s \<noteq> LEADER then Err ValueError
      else if node_id s \<notin> set members then Err ValueError
      else let fs = filter (\<lambda>m. m \<noteq> node_id s) members
           in Ok \<lparr>repl_members = members, followers = fs,
                 next_index = map (\<lambda>f. (f, last_index l + 1)) fs,
                 match_index = map (\<lambda>f. (f, 0)) fs\<rparr>)"

definition build_request ::
  "string \<Rightarrow> int option \<Rightarrow> raft_state \<Rightarrow> raft_log \<Rightarrow> leader_replication \<Rightarrow>
   append_entries_request result" where
  "build_request follower leader_commit s l r =
     (if follower \<notin> set (followers r) then Err ValueError
      else (case dict_item (next_index r) follower of
              Inl e \<Rightarrow> Err e
            | Inr next \<Rightarrow>
                (if next \<le> base_index l then Err ValueError
                 else let prev_log_index = next - 1 in
                   (case term_at prev_log_index l of
                      None \<Rightarrow> Err ValueError
                    | Some prev_log_term \<Rightarrow>
                        (case entries_from next l of
                           Inl e \<Rightarrow> Err e
                         | Inr es \<Rightarrow>
                             Ok \<lparr>ae_term = current_term s, ae_leader_id = node_id s,
                                 ae_prev_log_index = prev_log_index, ae_prev_log_term = prev_log_term,
                                 ae_entries = es,
                                 ae_leader_commit = (case leader_commit of
                                     None \<Rightarrow> commit_index s | Some c \<Rightarrow> c)\<rparr>)))))"

text \<open>Raising a follower's \<open>match_index\<close> to at least \<open>idx\<close>, as both success methods do.\<close>

definition raise_match :: "string \<Rightarrow> int \<Rightarrow> leader_replication \<Rightarrow> leader_replication result" where
  "raise_match follower idx r =
     (if follower \<notin> set (followers r) then Err ValueError
      else (case dict_item (match_index r) follower of
              Inl e \<Rightarrow> Err e
            | Inr m \<Rightarrow>
                Ok (r\<lparr>match_index := AList.update follower (max m idx) (match_index r),
                      next_index := AList.update follower (max m idx + 1) (next_index r)\<rparr>)))"

definition record_success ::
  "string \<Rightarrow> append_entries_request \<Rightarrow> leader_replication \<Rightarrow> leader_replication result" where
  "record_success follower request r =
     raise_match follower
       (if ae_entries request \<noteq> [] then entry_index (last (ae_entries request))
        else ae_prev_log_index request) r"

definition record_snapshot_success ::
  "string \<Rightarrow> int \<Rightarrow> leader_replication \<Rightarrow> leader_replication result" where
  "record_snapshot_success follower last_included r = raise_match follower last_included r"

definition record_failure :: "string \<Rightarrow> leader_replication \<Rightarrow> leader_replication result" where
  "record_failure follower r =
     (if follower \<notin> set (followers r) then Err ValueError
      else (case dict_item (next_index r) follower of
              Inl e \<Rightarrow> Err e
            | Inr n \<Rightarrow> Ok (r\<lparr>next_index := AList.update follower (max 1 (n - 1)) (next_index r)\<rparr>)))"

definition advance_commit_index ::
  "raft_log \<Rightarrow> leader_replication \<Rightarrow> raft_state \<Rightarrow> (raft_state \<times> int) result" where
  "advance_commit_index l r s =
     (let replicated_indexes = rev (sort (last_index l # map snd (match_index r)));
          quorum_position = length (repl_members r) div 2
      in (case nth_opt replicated_indexes quorum_position of
            None \<Rightarrow> Err IndexError
          | Some candidate_index \<Rightarrow>
              (if candidate_index \<le> commit_index s then Ok (s, commit_index s)
               else (case log_get candidate_index l of
                       None \<Rightarrow> Ok (s, commit_index s)
                     | Some entry \<Rightarrow>
                         (if entry_term entry \<noteq> current_term s then Ok (s, commit_index s)
                          else let s = s\<lparr>commit_index := candidate_index\<rparr>
                               in Ok (s, commit_index s))))))"

section \<open>The leader's bookkeeping\<close>

definition wf_replication :: "leader_replication \<Rightarrow> raft_state \<Rightarrow> bool" where
  "wf_replication r s = (distinct (repl_members r) \<and> node_id s \<in> set (repl_members r) \<and>
     followers r = filter (\<lambda>m. m \<noteq> node_id s) (repl_members r) \<and>
     map fst (next_index r) = followers r \<and> map fst (match_index r) = followers r \<and>
     (\<forall>n \<in> snd ` set (next_index r). 1 \<le> n) \<and> (\<forall>m \<in> snd ` set (match_index r). 0 \<le> m))"

lemma map_fst_update: "k \<in> set (map fst d) \<Longrightarrow> map fst (AList.update k v d) = map fst d"
  by (induction d) auto

lemma snd_set_update: "(\<forall>x \<in> snd ` set d. P x) \<Longrightarrow> P v \<Longrightarrow> \<forall>x \<in> snd ` set (AList.update k v d). P x"
  by (induction d) auto

lemma wf_replication_pos:
  assumes "wf_replication r s"
  shows "\<forall>n \<in> snd ` set (next_index r). 1 \<le> n" "\<forall>m \<in> snd ` set (match_index r). 0 \<le> m"
  using assms unfolding wf_replication_def by blast+

lemma wf_replication_lookup:
  assumes "wf_replication r s" "f \<in> set (followers r)"
  obtains n m where "map_of (next_index r) f = Some n" "map_of (match_index r) f = Some m" "1 \<le> n" "0 \<le> m"
proof -
  have "f \<in> fst ` set (next_index r)" "f \<in> fst ` set (match_index r)"
    using assms by (auto simp: wf_replication_def simp flip: set_map)
  then obtain n m where nm: "map_of (next_index r) f = Some n" "map_of (match_index r) f = Some m"
    by (auto simp: map_of_Some_iff_key)
  then have "1 \<le> n" "0 \<le> m"
    using assms(1) map_of_SomeD [OF nm(1)] map_of_SomeD [OF nm(2)]
    by (force simp: wf_replication_def)+
  with nm show thesis by (rule that)
qed

lemma leader_replication_init_wf [wf]:
  assumes "leader_replication_init s l members = Ok r" "distinct members" "wf_log l"
  shows "wf_replication r s"
  using assms last_index_ge_base [OF assms(3)]
  by (auto simp: leader_replication_init_def wf_replication_def Let_def comp_def wf_log_def split: if_splits)

lemma raise_match_Ok_iff:
  "raise_match f i r = Ok r' \<longleftrightarrow> f \<in> set (followers r) \<and> (\<exists>m. map_of (match_index r) f = Some m \<and>
     r' = r\<lparr>match_index := AList.update f (max m i) (match_index r),
             next_index := AList.update f (max m i + 1) (next_index r)\<rparr>)"
  by (cases "map_of (match_index r) f") (auto simp: raise_match_def dict_item_def)

lemma record_failure_Ok_iff:
  "record_failure f r = Ok r' \<longleftrightarrow> f \<in> set (followers r) \<and> (\<exists>n. map_of (next_index r) f = Some n \<and>
     r' = r\<lparr>next_index := AList.update f (max 1 (n - 1)) (next_index r)\<rparr>)"
  by (cases "map_of (next_index r) f") (auto simp: record_failure_def dict_item_def)

lemma raise_match_wf [wf]:
  assumes "raise_match f i r = Ok r'" "wf_replication r s"
  shows "wf_replication r' s"
proof -
  obtain m where f: "f \<in> set (followers r)" "map_of (match_index r) f = Some m"
      and r': "r' = r\<lparr>match_index := AList.update f (max m i) (match_index r),
                   next_index := AList.update f (max m i + 1) (next_index r)\<rparr>"
    using assms(1) unfolding raise_match_Ok_iff by blast
  have m: "0 \<le> m" using wf_replication_lookup [OF assms(2) f(1)] f(2) by auto
  have "\<forall>n \<in> snd ` set (AList.update f (max m i + 1) (next_index r)). 1 \<le> n"
    by (rule snd_set_update [OF wf_replication_pos(1) [OF assms(2)]]) (use m in simp)
  moreover have "\<forall>n \<in> snd ` set (AList.update f (max m i) (match_index r)). 0 \<le> n"
    by (rule snd_set_update [OF wf_replication_pos(2) [OF assms(2)]]) (use m in simp)
  ultimately show ?thesis
    using assms(2) f(1) unfolding r' wf_replication_def by (simp only: leader_replication.simps map_fst_update)
      (auto simp: map_fst_update)
qed

lemma record_failure_wf [wf]:
  assumes "record_failure f r = Ok r'" "wf_replication r s"
  shows "wf_replication r' s"
proof -
  obtain n where f: "f \<in> set (followers r)"
      and r': "r' = r\<lparr>next_index := AList.update f (max 1 (n - 1)) (next_index r)\<rparr>"
    using assms(1) unfolding record_failure_Ok_iff by blast
  have "\<forall>n \<in> snd ` set (AList.update f (max 1 (n - 1)) (next_index r)). 1 \<le> n"
    by (rule snd_set_update [OF wf_replication_pos(1) [OF assms(2)]]) simp
  then show ?thesis
    using assms(2) f unfolding r' wf_replication_def by (auto simp: map_fst_update)
qed

text \<open>A request built for a follower carries everything from \<open>next_index\<close> to the end of the log.\<close>

lemma build_request_OkD:
  assumes "build_request f lc s l r = Ok req" "wf_log l"
  obtains n where "map_of (next_index r) f = Some n" "base_index l < n" "n \<le> last_index l + 1"
    "f \<in> set (followers r)"
    "ae_term req = current_term s" "ae_leader_id req = node_id s" "ae_prev_log_index req = n - 1"
    "term_at (n - 1) l = Some (ae_prev_log_term req)"
    "ae_entries req = drop (nat (n - 1 - base_index l)) (entries l)"
    "contiguous (n - 1) (ae_entries req)" "n - 1 + int (length (ae_entries req)) = last_index l"
    "ae_leader_commit req = (case lc of None \<Rightarrow> commit_index s | Some c \<Rightarrow> c)"
proof -
  obtain n t es where n: "map_of (next_index r) f = Some n" "base_index l < n" "f \<in> set (followers r)"
      "term_at (n - 1) l = Some t" "entries_from n l = Ok es"
    and req: "req = \<lparr>ae_term = current_term s, ae_leader_id = node_id s, ae_prev_log_index = n - 1,
        ae_prev_log_term = t, ae_entries = es,
        ae_leader_commit = (case lc of None \<Rightarrow> commit_index s | Some c \<Rightarrow> c)\<rparr>"
    using assms(1) by (auto simp: build_request_def Let_def split: if_splits sum.splits option.splits)
  have top: "n - 1 \<le> last_index l" using term_at_range(2) [OF assms(2) n(4)] .
  have es: "es = drop (nat (n - 1 - base_index l)) (entries l)"
    using n(2,5) by (auto simp: entries_from_def Let_def first_index_def max_def diff_diff_eq
        add.commute split: if_splits)
  have "contiguous (base_index l + int (nat (n - 1 - base_index l))) es"
    unfolding es using assms(2) n(2) top
    by (intro contiguous_drop) (auto simp: wf_log_def wf_last_index)
  then have "contiguous (n - 1) es" using n(2) by simp
  moreover have "n - 1 + int (length es) = last_index l"
    using n(2) top by (simp add: es wf_last_index [OF assms(2)])
  ultimately show thesis using n top es by (intro that [of n]) (auto simp: req)
qed

section \<open>The commit rule\<close>

text \<open>
  The element at position \<open>q\<close> of a list sorted downwards: more than \<open>q\<close> elements reach it, and
  it is the largest value more than \<open>q\<close> elements reach.
\<close>

lemma rev_sort_count:
  assumes "q < length xs"
  shows "q < length (filter (\<lambda>x. rev (sort xs) ! q \<le> x) xs)"
proof -
  let ?ys = "rev (sort xs)" and ?c = "rev (sort xs) ! q"
  have "?c \<le> ?ys ! i" if "i \<le> q" for i
  proof -
    have "sort xs ! (length xs - Suc q) \<le> sort xs ! (length xs - Suc i)"
      using assms that by (intro sorted_nth_mono) auto
    then show ?thesis using assms that by (simp add: rev_nth)
  qed
  then have "filter (\<lambda>x. ?c \<le> x) (take (Suc q) ?ys) = take (Suc q) ?ys"
    using assms by (auto simp: filter_id_conv in_set_conv_nth)
  then have "Suc q \<le> length (filter (\<lambda>x. ?c \<le> x) (take (Suc q) ?ys @ drop (Suc q) ?ys))"
    using assms by (simp add: filter_append del: append_take_drop_id)
  also have "\<dots> = size (filter_mset (\<lambda>x. ?c \<le> x) (mset ?ys))"
    by (simp only: append_take_drop_id mset_filter [symmetric] size_mset)
  also have "\<dots> = length (filter (\<lambda>x. ?c \<le> x) xs)"
    by (simp add: mset_filter [symmetric] size_mset del: mset_filter)
  finally show ?thesis by simp
qed

lemma rev_sort_max:
  assumes "q < length (filter (\<lambda>x. c \<le> x) xs)"
  shows "c \<le> rev (sort xs) ! q"
proof (rule ccontr)
  let ?ys = "rev (sort xs)"
  have len: "q < length xs" using assms length_filter_le [of "\<lambda>x. c \<le> x" xs] by linarith
  assume "\<not> c \<le> ?ys ! q"
  moreover have "?ys ! i \<le> ?ys ! q" if "q \<le> i" "i < length xs" for i
  proof -
    have "sort xs ! (length xs - Suc i) \<le> sort xs ! (length xs - Suc q)"
      using len that by (intro sorted_nth_mono) auto
    then show ?thesis using len that by (simp add: rev_nth)
  qed
  ultimately have small: "\<not> c \<le> ?ys ! i" if "q \<le> i" "i < length xs" for i
    using that by fastforce
  have "\<not> c \<le> x" if x: "x \<in> set (drop q ?ys)" for x
  proof -
    obtain k where "k < length (drop q ?ys)" "x = drop q ?ys ! k"
      using x by (metis in_set_conv_nth)
    then show ?thesis using small [of "q + k"] len by simp
  qed
  then have none: "filter (\<lambda>x. c \<le> x) (drop q ?ys) = []" by (auto simp: filter_empty_conv)
  have "length (filter (\<lambda>x. c \<le> x) xs) = size (filter_mset (\<lambda>x. c \<le> x) (mset ?ys))"
    by (simp add: mset_filter [symmetric] size_mset del: mset_filter)
  also have "\<dots> = length (filter (\<lambda>x. c \<le> x) (take q ?ys @ drop q ?ys))"
    by (simp only: append_take_drop_id mset_filter [symmetric] size_mset)
  also have "\<dots> = length (filter (\<lambda>x. c \<le> x) (take q ?ys))" by (simp add: none del: append_take_drop_id)
  also have "\<dots> \<le> q" using length_filter_le [of "\<lambda>x. c \<le> x" "take q ?ys"] by simp
  finally show False using assms by simp
qed

text \<open>The members that have reached an index: the leader itself and its matched followers.\<close>

definition replicated_on :: "raft_state \<Rightarrow> leader_replication \<Rightarrow> int \<Rightarrow> string set" where
  "replicated_on s r i = insert (node_id s) {f. \<exists>m. map_of (match_index r) f = Some m \<and> i \<le> m}"

lemma filter_match_card:
  assumes "distinct (map fst d)"
  shows "length (filter (\<lambda>x. i \<le> x) (map snd d)) = card {f. \<exists>m. map_of d f = Some m \<and> (i::int) \<le> m}"
proof -
  have "{f. \<exists>m. map_of d f = Some m \<and> i \<le> m} = set (map fst (filter (\<lambda>p. i \<le> snd p) d))"
    using assms by (force simp: map_of_eq_Some_iff)
  moreover have "distinct (map fst (filter (\<lambda>p. i \<le> snd p) d))"
    using assms by (rule distinct_map_filter)
  moreover have "length (filter (\<lambda>x. i \<le> x) (map snd d)) = length (filter (\<lambda>p. i \<le> snd p) d)"
    by (simp add: filter_map comp_def)
  ultimately show ?thesis by (simp only: distinct_card length_map)
qed

lemma replicated_count:
  assumes "wf_replication r s" "i \<le> last_index l"
  shows "length (filter (\<lambda>x. i \<le> x) (last_index l # map snd (match_index r))) = card (replicated_on s r i)"
    "replicated_on s r i \<subseteq> set (repl_members r)"
proof -
  let ?F = "{f. \<exists>m. map_of (match_index r) f = Some m \<and> i \<le> m}"
  have keys: "set (map fst (match_index r)) = set (followers r)" "distinct (map fst (match_index r))"
    using assms(1) by (auto simp: wf_replication_def)
  have sub: "?F \<subseteq> set (followers r)"
    unfolding keys(1) [symmetric] by (force dest: map_of_SomeD)
  then have "node_id s \<notin> ?F" "finite ?F"
    using assms(1) by (auto simp: wf_replication_def intro: finite_subset)
  then show "length (filter (\<lambda>x. i \<le> x) (last_index l # map snd (match_index r))) = card (replicated_on s r i)"
    using assms(2) filter_match_card [OF keys(2)] by (simp add: replicated_on_def)
  show "replicated_on s r i \<subseteq> set (repl_members r)"
    using sub assms(1) by (auto simp: replicated_on_def wf_replication_def)
qed

lemma replicated_length:
  assumes "wf_replication r s"
  shows "length (last_index l # map snd (match_index r)) = length (repl_members r)"
proof -
  have "length (match_index r) = length (followers r)"
    using assms by (metis length_map wf_replication_def)
  also have "followers r = remove1 (node_id s) (repl_members r)"
    using assms by (simp add: wf_replication_def distinct_remove1_removeAll removeAll_filter_not_eq eq_commute)
  finally show ?thesis
    using assms by (auto simp: wf_replication_def length_remove1 dest: length_pos_if_in_set)
qed

lemma advance_commit_index_at:
  assumes "nth_opt (rev (sort (last_index l # map snd (match_index r)))) (length (repl_members r) div 2) = Some x"
  shows "advance_commit_index l r s =
    (if x \<le> commit_index s then Ok (s, commit_index s)
     else (case log_get x l of
             None \<Rightarrow> Ok (s, commit_index s)
           | Some e \<Rightarrow> if entry_term e \<noteq> current_term s then Ok (s, commit_index s)
                       else Ok (s\<lparr>commit_index := x\<rparr>, x)))"
  unfolding advance_commit_index_def Let_def assms by (simp split: option.split)

lemma advance_commit_index_cases:
  assumes "advance_commit_index l r s = Ok (s', c)" "wf_log l" "wf_replication r s"
  shows "c = commit_index s'" "s' = s\<lparr>commit_index := commit_index s'\<rparr>" "commit_index s \<le> commit_index s'"
    "commit_index s' \<noteq> commit_index s \<Longrightarrow>
       term_at (commit_index s') l = Some (current_term s) \<and> commit_index s' \<le> last_index l \<and>
       base_index l < commit_index s' \<and>
       majority (set (repl_members r)) (replicated_on s r (commit_index s'))"
proof -
  let ?xs = "last_index l # map snd (match_index r)" and ?q = "length (repl_members r) div 2"
  let ?c = "rev (sort ?xs) ! ?q"
  have "0 < length (repl_members r)" using assms(3) by (auto simp: wf_replication_def)
  then have q: "?q < length ?xs" unfolding replicated_length [OF assms(3)] by simp
  then have cand: "nth_opt (rev (sort ?xs)) ?q = Some ?c" by simp
  define x where "x = ?c"
  note body = advance_commit_index_at [OF cand, of s, folded x_def]
  consider "s' = s" "c = commit_index s"
    | e where "commit_index s < x" "log_get x l = Some e" "entry_term e = current_term s"
        "s' = s\<lparr>commit_index := x\<rparr>" "c = x"
  proof (cases "log_get x l")
    case None
    then show ?thesis using assms(1) by (intro that(1)) (auto simp: body split: if_splits)
  next
    case (Some e)
    show ?thesis
    proof (cases "x \<le> commit_index s \<or> entry_term e \<noteq> current_term s")
      case True
      then show ?thesis using assms(1) Some by (intro that(1)) (auto simp: body split: if_splits)
    next
      case False
      then show ?thesis using assms(1) Some by (intro that(2) [of e]) (auto simp: body)
    qed
  qed
  then have "c = commit_index s' \<and> s' = s\<lparr>commit_index := commit_index s'\<rparr> \<and>
      commit_index s \<le> commit_index s' \<and> (commit_index s' \<noteq> commit_index s \<longrightarrow>
       term_at (commit_index s') l = Some (current_term s) \<and> commit_index s' \<le> last_index l \<and>
       base_index l < commit_index s' \<and>
       majority (set (repl_members r)) (replicated_on s r (commit_index s')))"
  proof cases
    case 1
    then show ?thesis by simp
  next
    case (2 e)
    note range = log_get_index [OF assms(2) 2(2)]
    have "?q < card (replicated_on s r x)"
      using rev_sort_count [OF q] unfolding x_def [symmetric] replicated_count(1) [OF assms(3) range(3)] .
    moreover have "card (set (repl_members r)) = length (repl_members r)"
      using assms(3) by (simp add: wf_replication_def distinct_card)
    ultimately have "majority (set (repl_members r)) (replicated_on s r x)"
      using replicated_count(2) [OF assms(3) range(3)] by (simp add: majority_def)
    then show ?thesis using 2 range by (simp add: term_at_def)
  qed
  then show "c = commit_index s'" "s' = s\<lparr>commit_index := commit_index s'\<rparr>" "commit_index s \<le> commit_index s'"
    "commit_index s' \<noteq> commit_index s \<Longrightarrow>
       term_at (commit_index s') l = Some (current_term s) \<and> commit_index s' \<le> last_index l \<and>
       base_index l < commit_index s' \<and>
       majority (set (repl_members r)) (replicated_on s r (commit_index s'))" by blast+
qed

lemma advance_commit_index_Ok:
  assumes "wf_replication r s"
  shows "\<exists>s' c. advance_commit_index l r s = Ok (s', c)"
proof -
  let ?xs = "last_index l # map snd (match_index r)" and ?q = "length (repl_members r) div 2"
  have "0 < length (repl_members r)" using assms by (auto simp: wf_replication_def)
  then have "?q < length ?xs" unfolding replicated_length [OF assms] by simp
  then have "nth_opt (rev (sort ?xs)) ?q = Some (rev (sort ?xs) ! ?q)" by simp
  from advance_commit_index_at [OF this] show ?thesis by (simp split: option.split)
qed

text \<open>The rule is complete: an entry of the current term on a majority is committed.\<close>

lemma advance_commit_index_complete:
  assumes "advance_commit_index l r s = Ok (s', c)" "wf_log l" "wf_replication r s"
    and "majority (set (repl_members r)) (replicated_on s r i)" "i \<le> last_index l" "base_index l < i"
    and matched_le: "\<And>f m. map_of (match_index r) f = Some m \<Longrightarrow> m \<le> last_index l"
    and terms: "\<And>j. i \<le> j \<Longrightarrow> j \<le> last_index l \<Longrightarrow> term_at j l = Some (current_term s)"
  shows "i \<le> commit_index s'"
proof -
  let ?xs = "last_index l # map snd (match_index r)" and ?q = "length (repl_members r) div 2"
  let ?c = "rev (sort ?xs) ! ?q"
  have "card (set (repl_members r)) = length (repl_members r)"
    using assms(3) by (simp add: wf_replication_def distinct_card)
  then have "?q < length (filter (\<lambda>x. i \<le> x) ?xs)"
    using assms(4) replicated_count(1) [OF assms(3,5)] by (simp add: majority_def)
  then have ci: "i \<le> ?c" and q: "?q < length ?xs"
    using rev_sort_max length_filter_le [of "\<lambda>x. i \<le> x" ?xs] by (blast, linarith)
  have "?c \<in> set ?xs" using q by (metis length_rev length_sort nth_mem set_rev set_sort)
  moreover have "distinct (map fst (match_index r))" using assms(3) by (simp add: wf_replication_def)
  ultimately have cl: "?c \<le> last_index l"
    using matched_le by (auto simp: map_of_eq_Some_iff simp del: rev_sort_count)
  then obtain e where e: "log_get ?c l = Some e" "entry_term e = current_term s"
    using terms [OF ci cl] ci assms(6) by (auto simp: term_at_def split: option.splits if_splits)
  have cand: "nth_opt (rev (sort ?xs)) ?q = Some ?c" using q by simp
  show ?thesis
    using assms(1) e ci unfolding advance_commit_index_at [OF cand] by (auto split: if_splits)
qed

section \<open>A round with one follower\<close>

lemma replication_round_agrees:
  assumes l: "wf_log l" and r: "wf_replication r s" and q: "build_request f lc s l r = Ok q"
    and lf: "wf_log lf" and h: "handle_append_entries q sf lf st = ((sf', lf', st'), Ok a)" "aer_success a"
    and m: "record_success f q r = Ok r'"
  shows "(\<forall>i. ae_prev_log_index q \<le> i \<and> i \<le> last_index l \<longrightarrow> term_at i lf' = term_at i l) \<and>
    (\<exists>m. map_of (match_index r') f = Some m \<and> last_index l \<le> m \<and> map_of (next_index r') f = Some (m + 1))"
  using q l
proof (cases rule: build_request_OkD)
  case (1 n)
  let ?p = "ae_prev_log_index q" and ?es = "ae_entries q"
  have C: "contiguous ?p ?es" using 1(7,10) by simp
  note S = handle_append_entries_success [OF h lf C]
  note R = term_at_range [OF lf S(3)]
  have agree: "term_at i lf' = term_at i l" if "?p \<le> i" "i \<le> last_index l" for i
  proof (cases "i = ?p")
    case True
    have "log_get ?p lf' = log_get ?p lf" using repaired_prefix [OF lf C R order_refl] S(4) by simp
    then have "term_at ?p lf' = term_at ?p lf" using S(4) by (simp add: term_at_def)
    then show ?thesis using True S(3) 1(7,8) by simp
  next
    case False
    then have i: "?p < i" "nat (i - ?p - 1) < length ?es" using that 1(7,11) by auto
    have es: "?es ! nat (i - ?p - 1) = entries l ! nat (i - base_index l - 1)"
      using i 1(2,7,9) by (simp add: nat_add_distrib [symmetric])
    have g: "log_get i l = Some (?es ! nat (i - ?p - 1))"
      using log_get_in_range(2) [OF l, of i] that(2) i(1) 1(2,7) es by simp
    obtain x where x: "log_get (?p + 1 + int (nat (i - ?p - 1))) lf' = Some x"
        "entry_term x = entry_term (?es ! nat (i - ?p - 1))"
      using repaired_holds [OF lf C R i(2)] S(4) by blast
    have "log_get i lf' = Some x" using x(1) i(1) by simp
    moreover have "i \<noteq> base_index l" "i \<noteq> base_index lf'" using i(1) 1(2,7) R(1) S(4) by auto
    ultimately show ?thesis using g x(2) by (simp add: term_at_def)
  qed
  have last: "(if ?es \<noteq> [] then entry_index (last ?es) else ?p) = last_index l"
    using contiguous_last [OF C] 1(7,11) by auto
  obtain m0 where "r' = r\<lparr>match_index := AList.update f (max m0 (last_index l)) (match_index r),
      next_index := AList.update f (max m0 (last_index l) + 1) (next_index r)\<rparr>"
    using m unfolding record_success_def last raise_match_Ok_iff by blast
  then show ?thesis using agree by auto
qed

end
