(* ===== verification/Node.thy ===== *)
theory Node
  imports Persistence Leader
begin

text \<open>
  The node of \<^verbatim>\<open>raft/node.py\<close>: its components as one record, construction and recovery from the
  files, persistence, snapshots and the handlers of inbound messages. Each method runs under
  the node's re-entrant lock, so it is a function on the node. The node's invariant says how
  the components fit together; \<open>durable\<close> says that the files hold what the node would lose.
  Every handler keeps both, and a restart from durable files gives the same node, as a follower.
\<close>

section \<open>The node\<close>

text \<open>What the node reports to its observer; durations and sizes are left out.\<close>

datatype node_event =
    ElectionAttempt
  | LeadershipChange
  | Rpc string bool
  | ReadBarrier bool
  | SnapshotInstallation
  | LogCompaction

text \<open>
  \<open>LeaderReplication\<close> shares the node's state and log objects, so the record holds them once.
  \<open>n_disk\<close> is the directory of \<^verbatim>\<open>RaftPersistence\<close>, \<open>None\<close> without one. The thread pools are in
  the theory of the outbound operations.
\<close>

record raft_node =
  n_id :: string
  n_members :: "string list"
  n_state :: raft_state
  n_snapshot :: raft_snapshot
  n_log :: raft_log
  n_store :: kv_store
  n_timer :: election_timer
  n_election :: election_tracker
  n_replication :: "leader_replication option"
  n_disk :: "disk option"
  read_lease_duration :: real
  last_read_quorum_term :: "int option"
  last_read_quorum_time :: "real option"
  transfer_in_progress :: bool
  n_observer :: "node_event list option"

definition observe :: "node_event \<Rightarrow> raft_node \<Rightarrow> raft_node" where
  "observe ev n = n\<lparr>n_observer := map_option (\<lambda>evs. evs @ [ev]) (n_observer n)\<rparr>"

text \<open>An observer is the list of the events it has been told.\<close>

definition set_observer :: "node_event list option \<Rightarrow> raft_node \<Rightarrow> raft_node" where
  "set_observer observer n = n\<lparr>n_observer := observer\<rparr>"

section \<open>Construction and recovery\<close>

text \<open>State, snapshot and log from the files, with the repair of an interrupted compaction.\<close>

definition load_files ::
  "string \<Rightarrow> disk \<Rightarrow> disk \<times> (raft_state \<times> raft_snapshot \<times> raft_log) result" where
  "load_files nid d =
     (case load_state nid d of Inl e \<Rightarrow> (d, Err e) | Inr s \<Rightarrow>
     (case load_snapshot d of Inl e \<Rightarrow> (d, Err e) | Inr sn \<Rightarrow>
     (case load_log d of (d, Inl e) \<Rightarrow> (d, Err e) | (d, Inr l) \<Rightarrow>
       (if last_included_index sn < base_index l then (d, Err RuntimeError)
        else if last_included_index sn = base_index l \<and> last_included_term sn \<noteq> base_term l
        then (d, Err RuntimeError)
        else if base_index l < last_included_index sn then
          (case install_snapshot_boundary (last_included_index sn) (last_included_term sn) l of
             Inl e \<Rightarrow> (d, Err e)
           | Inr l \<Rightarrow> (case save_log l d of Inl e \<Rightarrow> (d, Err e) | Inr d \<Rightarrow> (d, Ok (s, sn, l))))
        else (d, Ok (s, sn, l))))))"

definition node_init ::
  "clock \<Rightarrow> string \<Rightarrow> string list \<Rightarrow> disk option \<Rightarrow> disk option \<times> raft_node result" where
  "node_init c nid members dsk =
     (if nid \<notin> set members then (dsk, Err ValueError)
      else
        (case (case dsk of
                 None \<Rightarrow> (None, Ok (raft_state_default nid, empty_snapshot, empty_log))
               | Some d \<Rightarrow> (case load_files nid d of (d, r) \<Rightarrow> (Some d, r))) of
           (dsk, Inl e) \<Rightarrow> (dsk, Err e)
         | (dsk, Inr (s, sn, l)) \<Rightarrow>
             (let behind = commit_index s < last_included_index sn;
                  s = (if behind then s\<lparr>commit_index := last_included_index sn\<rparr> else s);
                  dsk = (if behind then map_option (save_state s) dsk else dsk)
              in if last_index l < commit_index s then (dsk, Err RuntimeError)
                 else let store = kv_restore (snapshot_state sn) kv_empty;
                          s = s\<lparr>last_applied := last_included_index sn\<rparr>
                   in (case (if last_applied s < commit_index s then apply_committed_entries l s store
                             else ((s, store), Ok ())) of
                         (_, Inl e) \<Rightarrow> (dsk, Err e)
                       | ((s, store), Inr _) \<Rightarrow>
                           (let s = s\<lparr>role := FOLLOWER, leader_id := None\<rparr> in
                            (case tracker_init s members of
                               Inl e \<Rightarrow> (dsk, Err e)
                             | Inr t \<Rightarrow>
                                 (dsk, Ok \<lparr>n_id = nid, n_members = members, n_state = s,
                                    n_snapshot = sn, n_log = l, n_store = store,
                                    n_timer = default_timer c, n_election = t,
                                    n_replication = None, n_disk = dsk,
                                    read_lease_duration = 1 / 2, last_read_quorum_term = None,
                                    last_read_quorum_time = None, transfer_in_progress = False,
                                    n_observer = None\<rparr>)))))))"

section \<open>Persistence\<close>

definition persist_state :: "raft_node \<Rightarrow> raft_node" where
  "persist_state n = n\<lparr>n_disk := map_option (save_state (n_state n)) (n_disk n)\<rparr>"

definition persist_log_change ::
  "log_entry list \<Rightarrow> log_entry list \<Rightarrow> disk \<Rightarrow> disk result" where
  "persist_log_change before after d =
     (if before = after then Ok d
      else let p = common_prefix_length before after;
               new_suffix = drop p after
           in if p = length before then Ok (append_log_entries new_suffix d)
              else replace_log_suffix (entry_index (before ! p)) new_suffix d)"

section \<open>Snapshots\<close>

definition create_snapshot :: "raft_node \<Rightarrow> raft_node \<times> bool result" where
  "create_snapshot n =
     (let snapshot_index = min (commit_index (n_state n)) (last_applied (n_state n))
      in if snapshot_index \<le> base_index (n_log n) then (n, Ok False)
         else (case term_at snapshot_index (n_log n) of
                 None \<Rightarrow> (n, Err RuntimeError)
               | Some snapshot_term \<Rightarrow>
                   (case raft_snapshot snapshot_index snapshot_term (kv_snapshot (n_store n)) 1 of
                      Inl e \<Rightarrow> (n, Err e)
                    | Inr sn \<Rightarrow>
                        (let n = n\<lparr>n_disk := map_option (save_snapshot sn) (n_disk n)\<rparr> in
                         (case (case log_copy (n_log n) of
                                  Inl e \<Rightarrow> Err e
                                | Inr l \<Rightarrow> compact_through snapshot_index l) of
                            Inl e \<Rightarrow> (n, Err e)
                          | Inr compacted_log \<Rightarrow>
                              (case (case n_disk n of
                                       None \<Rightarrow> Ok n
                                     | Some d \<Rightarrow>
                                         (case save_log compacted_log d of
                                            Inl e \<Rightarrow> Err e
                                          | Inr d \<Rightarrow> Ok (persist_state (n\<lparr>n_disk := Some d\<rparr>)))) of
                                 Inl e \<Rightarrow> (n, Err e)
                               | Inr n \<Rightarrow>
                                   (observe LogCompaction (n\<lparr>n_snapshot := sn, n_log := compacted_log\<rparr>),
                                    Ok True)))))))"

section \<open>The handlers\<close>

text \<open>\<^verbatim>\<open>if self.state.role != LEADER: self.replication = None\<close>.\<close>

definition drop_replication :: "raft_node \<Rightarrow> raft_node" where
  "drop_replication n = (if role (n_state n) \<noteq> LEADER then n\<lparr>n_replication := None\<rparr> else n)"

definition node_request_vote ::
  "clock \<Rightarrow> request_vote_request \<Rightarrow> raft_node \<Rightarrow> raft_node \<times> request_vote_response result" where
  "node_request_vote c request n =
     (case handle_request_vote request (last_index (n_log n)) (last_term (n_log n)) (n_state n) of
        Inl e \<Rightarrow> (n, Err e)
      | Inr (s, response) \<Rightarrow>
          (let n = persist_state (n\<lparr>n_state := s\<rparr>);
               n = (if rvr_vote_granted response then n\<lparr>n_timer := timer_reset c (n_timer n)\<rparr> else n)
           in (drop_replication n, Ok response)))"

text \<open>The fields of the state that the state file holds.\<close>

definition durable_fields :: "raft_state \<Rightarrow> int \<times> string option \<times> int" where
  "durable_fields s = (current_term s, voted_for s, commit_index s)"

definition node_append_entries ::
  "clock \<Rightarrow> append_entries_request \<Rightarrow> raft_node \<Rightarrow> raft_node \<times> append_entries_response result" where
  "node_append_entries c request n =
     (case entries_from (first_index (n_log n)) (n_log n) of Inl e \<Rightarrow> (n, Err e) | Inr before \<Rightarrow>
     (case handle_append_entries request (n_state n) (n_log n) (Some (n_store n)) of
        ((s, l, store), r) \<Rightarrow>
          (let before_state = durable_fields (n_state n);
               n = n\<lparr>n_state := s, n_log := l, n_store := the store\<rparr>
           in (case r of Inl e \<Rightarrow> (n, Err e) | Inr response \<Rightarrow>
              (case entries_from (first_index l) l of Inl e \<Rightarrow> (n, Err e) | Inr after \<Rightarrow>
              (case (case n_disk n of
                       None \<Rightarrow> Ok None
                     | Some d \<Rightarrow> (case persist_log_change before after d of
                                   Inl e \<Rightarrow> Err e | Inr d \<Rightarrow> Ok (Some d))) of
                 Inl e \<Rightarrow> (n, Err e)
               | Inr dsk \<Rightarrow>
                   (let n = n\<lparr>n_disk := dsk\<rparr>;
                        n = (if durable_fields s \<noteq> before_state then persist_state n else n);
                        n = (if aer_success response
                             then n\<lparr>n_timer := timer_reset c (n_timer n)\<rparr> else n)
                    in (drop_replication n, Ok response))))))))"

text \<open>\<^verbatim>\<open>if self.state.current_term != previous_term: self._persist_state()\<close>.\<close>

definition persist_new_term :: "int \<Rightarrow> raft_node \<Rightarrow> raft_node" where
  "persist_new_term previous_term n =
     (if current_term (n_state n) \<noteq> previous_term then persist_state n else n)"

text \<open>
  The end of the handler: the snapshot is on disk before the compacted journal, the commit
  index after both.
\<close>

definition finish_install ::
  "clock \<Rightarrow> raft_snapshot \<Rightarrow> raft_log \<Rightarrow> int \<Rightarrow> raft_node \<Rightarrow> raft_node \<times> install_snapshot_response result" where
  "finish_install c sn new_log new_commit_index n =
     (case (case n_disk n of
              None \<Rightarrow> Ok None
            | Some d \<Rightarrow> (case save_log new_log (save_snapshot sn d) of
                          Inl e \<Rightarrow> Err e | Inr d \<Rightarrow> Ok (Some d))) of
        Inl e \<Rightarrow> (n\<lparr>n_disk := map_option (save_snapshot sn) (n_disk n)\<rparr>, Err e)
      | Inr dsk \<Rightarrow>
          (let store = kv_restore (snapshot_state sn) (n_store n);
               s = (n_state n)\<lparr>commit_index := new_commit_index, last_applied := last_included_index sn\<rparr>
           in (case (if last_applied s < commit_index s then apply_committed_entries new_log s store
                     else ((s, store), Ok ())) of
                 ((s, store), r) \<Rightarrow>
                   (let n = n\<lparr>n_state := s, n_snapshot := sn, n_log := new_log,
                              n_store := store, n_disk := dsk\<rparr>
                    in (case r of
                          Inl e \<Rightarrow> (n, Err e)
                        | Inr _ \<Rightarrow>
                            (let n = persist_state n;
                                 n = n\<lparr>n_timer := timer_reset c (n_timer n)\<rparr>
                             in (observe SnapshotInstallation n,
                                 Ok \<lparr>isr_term = current_term s, isr_success = True\<rparr>)))))))"

definition node_install_snapshot ::
  "clock \<Rightarrow> install_snapshot_request \<Rightarrow> raft_node \<Rightarrow> raft_node \<times> install_snapshot_response result" where
  "node_install_snapshot c request n =
     (if is_term request < current_term (n_state n) then
        (n, Ok \<lparr>isr_term = current_term (n_state n), isr_success = False\<rparr>)
      else
        (case become_follower (is_term request) (Some (is_leader_id request)) (n_state n) of
           Inl e \<Rightarrow> (n, Err e)
         | Inr s \<Rightarrow>
             (let previous_term = current_term (n_state n);
                  idx = is_last_included_index request;
                  trm = is_last_included_term request;
                  n = n\<lparr>n_state := s, n_replication := None\<rparr>;
                  failed = (persist_new_term previous_term n,
                            Ok \<lparr>isr_term = current_term s, isr_success = False\<rparr>)
              in if idx < 0 \<or> trm < 0 then failed
                 else if idx < last_included_index (n_snapshot n) then
                   (let n = persist_new_term previous_term n
                    in (n\<lparr>n_timer := timer_reset c (n_timer n)\<rparr>,
                        Ok \<lparr>isr_term = current_term s, isr_success = True\<rparr>))
                 else if idx < commit_index s \<and> term_at idx (n_log n) \<noteq> Some trm then failed
                 else
                   (case raft_snapshot idx trm (is_state request) 1 of Inl e \<Rightarrow> (n, Err e) | Inr sn \<Rightarrow>
                   (case log_copy (n_log n) of Inl e \<Rightarrow> (n, Err e) | Inr l \<Rightarrow>
                   (case install_snapshot_boundary idx trm l of
                      Inl e \<Rightarrow> (if e = ValueError then failed else (n, Err e))
                    | Inr new_log \<Rightarrow>
                        (let new_commit_index = max (commit_index s) idx
                         in if last_index new_log < new_commit_index then failed
                            else finish_install c sn new_log new_commit_index n)))))))"

definition node_timeout_now ::
  "timeout_now_request \<Rightarrow> raft_node \<Rightarrow> raft_node \<times> timeout_now_response result" where
  "node_timeout_now request n =
     (if tn_term request < current_term (n_state n) then
        (n, Ok \<lparr>tnr_term = current_term (n_state n), tnr_accepted = False\<rparr>)
      else
        (case (if current_term (n_state n) < tn_term request
               then become_follower (tn_term request) (Some (tn_leader_id request)) (n_state n)
               else Ok (n_state n)) of
           Inl e \<Rightarrow> (n, Err e)
         | Inr s \<Rightarrow>
             (let previous_term = current_term (n_state n);
                  n = n\<lparr>n_state := s\<rparr>;
                  accepted = (role s = FOLLOWER \<and> leader_id s = Some (tn_leader_id request));
                  n = persist_new_term previous_term n;
                  n = (if accepted then n\<lparr>n_timer := timer_expire_now (n_timer n)\<rparr> else n)
              in (n, Ok \<lparr>tnr_term = current_term s, tnr_accepted = accepted\<rparr>))))"

end
