(* ===== verification/NodeInvariant.thy ===== *)
theory NodeInvariant
  imports Node
begin

text \<open>
  How the components of a node fit together, and that every operation on them keeps it: the log
  starts at the snapshot's boundary, the committed prefix is applied, the store is the
  snapshot's state with the committed entries run on it, and the files hold the term, the vote,
  the commit index, the snapshot and the log.
\<close>

section \<open>The data invariant\<close>

definition data_wf :: "raft_state \<Rightarrow> raft_snapshot \<Rightarrow> raft_log \<Rightarrow> kv_store \<Rightarrow> bool" where
  "data_wf s sn l store =
     (wf_log l \<and> wf_terms l \<and> valid_entries l \<and> wf_snapshot sn \<and>
      last_included_index sn = base_index l \<and> last_included_term sn = base_term l \<and>
      base_index l \<le> commit_index s \<and> commit_index s \<le> last_index l \<and>
      last_applied s = commit_index s \<and>
      store = run_commands (slice (base_index l) (commit_index s) l) (snapshot_state sn))"

lemma data_wfD:
  assumes "data_wf s sn l store"
  shows "wf_log l" "wf_terms l" "valid_entries l" "wf_snapshot sn"
    "last_included_index sn = base_index l" "last_included_term sn = base_term l"
    "base_index l \<le> commit_index s" "commit_index s \<le> last_index l" "last_applied s = commit_index s"
    "store = run_commands (slice (base_index l) (commit_index s) l) (snapshot_state sn)"
  using assms by (simp_all add: data_wf_def)

lemma data_wf_cong:
  "data_wf s sn l store \<Longrightarrow> commit_index s' = commit_index s \<Longrightarrow> last_applied s' = last_applied s \<Longrightarrow>
   data_wf s' sn l store"
  by (simp add: data_wf_def)

text \<open>
  A request a leader can have sent: its entries follow \<open>prev_log_index\<close> without a gap, with
  commands the state machine accepts. It agrees with the committed prefix of the receiver when
  it contradicts no committed entry; that all leaders' requests do is Raft's safety argument.
\<close>

definition wf_append_request :: "append_entries_request \<Rightarrow> bool" where
  "wf_append_request req =
     (contiguous (ae_prev_log_index req) (ae_entries req) \<and>
      (\<forall>e \<in> set (ae_entries req). valid_command (entry_command e) \<and> 0 \<le> entry_term e))"

definition agrees_committed :: "append_entries_request \<Rightarrow> raft_state \<Rightarrow> raft_log \<Rightarrow> bool" where
  "agrees_committed req s l =
     (\<forall>e \<in> set (ae_entries req). entry_index e \<le> commit_index s \<longrightarrow>
        (case log_get (entry_index e) l of
           None \<Rightarrow> True | Some x \<Rightarrow> entry_term x = entry_term e))"

lemma wf_append_requestD:
  assumes "wf_append_request req"
  shows "contiguous (ae_prev_log_index req) (ae_entries req)"
    "e \<in> set (ae_entries req) \<Longrightarrow> valid_command (entry_command e)"
    "e \<in> set (ae_entries req) \<Longrightarrow> 0 \<le> entry_term e"
  using assms by (simp_all add: wf_append_request_def)

lemma repaired_entries: "set (entries (repaired prev es l)) \<subseteq> set (entries l) \<union> set es"
  by (auto simp: repaired_def dest: in_set_takeD in_set_dropD)

lemma repaired_agrees:
  assumes "wf_log l" "wf_append_request req" "base_index l \<le> ae_prev_log_index req"
    "ae_prev_log_index req \<le> last_index l" "agrees_committed req s l"
    "i \<le> commit_index s" "commit_index s \<le> last_index l"
  shows "log_get i (repaired (ae_prev_log_index req) (ae_entries req) l) = log_get i l"
proof (rule repaired_keeps [OF assms(1) wf_append_requestD(1) [OF assms(2)] assms(3,4) _ assms(6,7)])
  fix k x
  assume k: "k < length (ae_entries req)" "ae_prev_log_index req + 1 + int k \<le> commit_index s"
    and x: "log_get (ae_prev_log_index req + 1 + int k) l = Some x"
  have "entry_index (ae_entries req ! k) = ae_prev_log_index req + 1 + int k"
    using wf_append_requestD(1) [OF assms(2)] k(1) by (simp add: contiguous_def)
  then show "entry_term x = entry_term (ae_entries req ! k)"
    using assms(5) k x nth_mem [OF k(1)] unfolding agrees_committed_def by fastforce
qed

lemma last_index_ge_commit:
  assumes "wf_log l" "wf_log l'" "base_index l' = base_index l"
    and "base_index l \<le> c" "c \<le> last_index l" and "log_get c l' = log_get c l"
  shows "c \<le> last_index l'"
proof (cases "c = base_index l")
  case True
  then show ?thesis using last_index_ge_base [OF assms(2)] assms(3) by simp
next
  case False
  then obtain e where "log_get c l = Some e"
    using log_get_in_range(2) [OF assms(1), of c] assms(4,5) by auto
  then show ?thesis using log_get_index(3) [OF assms(2), of c e] assms(6) by simp
qed

text \<open>Committing further along a log that keeps the committed prefix.\<close>

lemma commit_to_data_wf:
  assumes wf: "data_wf s sn l store"
    and l': "wf_log l'" "wf_terms l'" "valid_entries l'" "base_index l' = base_index l"
      "base_term l' = base_term l"
    and keeps: "\<And>i. i \<le> commit_index s \<Longrightarrow> log_get i l' = log_get i l"
    and s1: "commit_index s1 = commit_index s" "last_applied s1 = last_applied s"
    and u: "update_follower_commit l' c s1 store = ((s', store'), r)"
  shows "data_wf s' sn l' store' \<and> r = Ok ()"
proof -
  note D = data_wfD [OF wf]
  have le: "commit_index s \<le> last_index l'"
    using last_index_ge_commit [OF D(1) l'(1,4) D(7,8)] keeps by simp
  have old: "store = run_commands (slice (base_index l') (commit_index s) l') (snapshot_state sn)"
    using D slice_cong [OF D(1) l'(1) _ _ D(8) le, of "base_index l"] keeps l'(4) by simp
  show ?thesis
  proof (cases "c \<le> commit_index s")
    case True
    then have "s' = s1" "store' = store" "r = Ok ()"
      using u s1 by (simp_all add: update_follower_commit_def)
    then show ?thesis using old le D l' s1 by (simp add: data_wf_def)
  next
    case False
    let ?m = "min c (last_index l')"
    have eq: "update_follower_commit l' c s1 store =
        ((s1\<lparr>commit_index := ?m, last_applied := ?m\<rparr>,
          run_commands (slice (last_applied s1) ?m l') store), Ok ())"
      using False D l' s1 le by (intro update_follower_commit_reference) auto
    have "slice (base_index l') ?m l' = slice (base_index l') (commit_index s) l' @ slice (commit_index s) ?m l'"
      using False le D(7) l'(4) by (intro slice_append) auto
    then have "store' = run_commands (slice (base_index l') ?m l') (snapshot_state sn)"
      using u eq old s1 D(9) by (simp add: run_commands_append)
    then show ?thesis using u eq False le D l' s1 by (simp add: data_wf_def)
  qed
qed

lemma handle_append_entries_data_wf:
  assumes "handle_append_entries req s l (Some store) = ((s', l', store'), res)"
    and wf: "data_wf s sn l store" and req: "wf_append_request req" "agrees_committed req s l"
  shows "data_wf s' sn l' (the store') \<and> is_ok res \<and> store' \<noteq> None"
  using assms(1)
proof (cases rule: handle_append_entries_cases)
  case stale
  then show ?thesis using wf by simp
next
  case refused
  then show ?thesis
    using data_wf_cong [OF wf] become_follower_OkD(7,8) [OF refused(2)] by simp
next
  case no_store
  then show ?thesis by simp
next
  case (sync_error e)
  note D = data_wfD [OF wf]
  have "sync_entries (ae_entries req) l = (repaired (ae_prev_log_index req) (ae_entries req) l, Ok ())"
    using sync_entries_repaired [OF D(1) wf_append_requestD(1) [OF req(1)]]
      term_at_range [OF D(1) sync_error(4)] by blast
  then show ?thesis using sync_error(5) by simp
next
  case (committed s1 st st' r)
  note D = data_wfD [OF wf]
  have range: "base_index l \<le> ae_prev_log_index req" "ae_prev_log_index req \<le> last_index l"
    using term_at_range [OF D(1) committed(4)] by simp_all
  have l': "l' = repaired (ae_prev_log_index req) (ae_entries req) l"
    using sync_entries_repaired [OF D(1) wf_append_requestD(1) [OF req(1)] range] committed(5) by simp
  have set: "set (entries l') \<subseteq> set (entries l) \<union> set (ae_entries req)"
    unfolding l' by (rule repaired_entries)
  have wf': "wf_log l'" "base_index l' = base_index l" "base_term l' = base_term l"
    using repaired_wf [OF D(1) wf_append_requestD(1) [OF req(1)] range] by (simp_all add: l')
  have terms: "wf_terms l'" "valid_entries l'"
    using set D(2,3) wf_append_requestD(2,3) [OF req(1)]
    unfolding wf_terms_def valid_entries_def by blast+
  have keeps: "log_get i l' = log_get i l" if "i \<le> commit_index s" for i
    unfolding l' by (rule repaired_agrees [OF D(1) req(1) range req(2) that D(8)])
  have st: "st = store" using committed(6) by simp
  have "data_wf s' sn l' st' \<and> r = Ok ()"
    using committed(8) become_follower_OkD(7,8) [OF committed(2)] unfolding st
    by (intro commit_to_data_wf [OF wf wf'(1) terms wf'(2,3) keeps])
  then show ?thesis using committed(7,9) by simp
qed

section \<open>Compaction and installed snapshots\<close>

lemma valid_entries_subset: "valid_entries l \<Longrightarrow> set (entries l') \<subseteq> set (entries l) \<Longrightarrow> valid_entries l'"
  by (auto simp: valid_entries_def)

lemma compact_data_wf:
  assumes wf: "data_wf s sn l store" and "base_index l < commit_index s"
  obtains trm l' sn' where "term_at (commit_index s) l = Some trm"
    "compact_through (commit_index s) l = Ok l'"
    "raft_snapshot (commit_index s) trm store 1 = Ok sn'"
    "data_wf s sn' l' store" "last_index l' = last_index l"
    "sn' = \<lparr>last_included_index = commit_index s, last_included_term = trm, snapshot_state = store, version = 1\<rparr>"
proof -
  note D = data_wfD [OF wf]
  obtain l' where l': "compact_through (commit_index s) l = Ok l'"
    using compact_through_Ok [OF D(1,7,8)] ..
  note G = compact_through_get [OF D(1,2) l']
  have nn: "0 \<le> base_term l'" using term_at_nonneg [OF D(1,2) G(4)] .
  have pos: "0 < commit_index s" using D(1) assms(2) by (simp add: wf_log_def)
  define sn' where "sn' = \<lparr>last_included_index = commit_index s, last_included_term = base_term l',
                        snapshot_state = store, version = 1\<rparr>"
  have wf_sn: "wf_snapshot sn'" using nn pos by (simp add: sn'_def wf_snapshot_def)
  then have sn': "raft_snapshot (commit_index s) (base_term l') store 1 = Ok sn'"
    by (simp add: raft_snapshot_def sn'_def)
  have wf': "wf_log l' \<and> wf_terms l'" by (rule wf_compact_through [OF D(1,2) l'])
  have "set (entries l') \<subseteq> set (entries l)"
    using compact_through_OkD [OF D(1) l'] entries_from_subset by auto
  then have "valid_entries l'" by (rule valid_entries_subset [OF D(3)])
  then have "data_wf s sn' l' store"
    using wf' wf_sn G D by (simp add: data_wf_def sn'_def)
  then show thesis using that [OF G(4) l' sn' _ G(2) sn'_def] by blast
qed

text \<open>
  The state after an installed snapshot: committed entries after the boundary are kept only if
  the boundary matched, and are run on the snapshot's state.
\<close>

lemma install_data_wf:
  assumes wf: "data_wf s sn l store"
    and sn': "raft_snapshot idx trm st 1 = Ok sn'"
    and l': "install_snapshot_boundary idx trm l = Ok l'"
    and commit: "max (commit_index s) idx \<le> last_index l'"
    and s1: "commit_index s1 = max (commit_index s) idx" "last_applied s1 = idx"
  obtains store' where
    "apply_committed_entries l' s1 st = ((s1\<lparr>last_applied := commit_index s1\<rparr>, store'), Ok ())"
    "data_wf (s1\<lparr>last_applied := commit_index s1\<rparr>) sn' l' store'"
    "store' = run_commands (slice idx (commit_index s1) l') st"
proof -
  note D = data_wfD [OF wf]
  note S = raft_snapshot_OkD [OF sn']
  have nn: "0 \<le> trm" using S by (auto simp: wf_snapshot_def)
  note G = install_snapshot_boundary_get [OF D(1) nn l']
  have wf': "wf_log l' \<and> wf_terms l'" by (rule wf_install_snapshot_boundary [OF D(1,2) nn l'])
  have "set (entries l') \<subseteq> set (entries l)"
    using install_snapshot_boundary_OkD [OF l'] entries_from_subset by (auto split: if_splits)
  then have valid: "valid_entries l'" by (rule valid_entries_subset [OF D(3)])
  have eq: "apply_committed_entries l' s1 st = ((s1\<lparr>last_applied := commit_index s1\<rparr>,
      run_commands (slice (last_applied s1) (commit_index s1) l') st), Ok ())"
    using wf' valid G(3) commit s1 by (intro apply_committed_reference) auto
  have "data_wf (s1\<lparr>last_applied := commit_index s1\<rparr>) sn' l' (run_commands (slice idx (commit_index s1) l') st)"
    using wf' valid S G(3,4) commit s1 by (simp add: data_wf_def)
  with eq s1 show thesis by (intro that) simp_all
qed

section \<open>The files\<close>

text \<open>\<open>_persist_log_change\<close> journals exactly the difference of the two logs.\<close>

lemma persist_log_change_replays:
  assumes "wf_log l" "wf_log l'" "base_index l' = base_index l" "base_term l' = base_term l"
    and replays: "journal_replays l d"
  shows "\<exists>d'. persist_log_change (entries l) (entries l') d = Ok d' \<and> journal_replays l' d' \<and>
    state_file d' = state_file d \<and> snapshot_file d' = snapshot_file d"
proof -
  let ?b = "entries l" and ?a = "entries l'"
  define p where "p = common_prefix_length ?b ?a"
  define c where "c = l\<lparr>entries := take p ?b\<rparr>"
  have pb: "p \<le> length ?b" and pa: "p \<le> length ?a" and split: "?a = take p ?b @ drop p ?a"
    using common_prefix_le [of ?b ?a] common_prefix_split [of ?a ?b] unfolding p_def by blast+
  have cont: "contiguous (base_index l) ?b" "contiguous (base_index l) ?a"
    using assms(1-3) by (auto simp: wf_log_def)
  have wf_c: "wf_log c" using assms(1) contiguous_take [OF cont(1)] by (auto simp: wf_log_def c_def)
  have last_c: "last_index c = base_index l + int p"
    using wf_last_index [OF wf_c] pb by (simp add: c_def)
  have push: "for_each append_entry (drop p ?a) c = Ok (c\<lparr>entries := entries c @ drop p ?a\<rparr>)"
    using contiguous_drop [OF cont(2) pa] last_c by (intro for_each_append_entry [OF wf_c]) simp
  moreover have "c\<lparr>entries := entries c @ drop p ?a\<rparr> = l'"
    using assms(3,4) split by (simp add: c_def)
  ultimately have push: "for_each append_entry (drop p ?a) c = Ok l'" by simp
  show ?thesis
  proof (cases "?b = ?a")
    case True
    then have "l' = l" using assms(3,4) by simp
    then show ?thesis using replays by (simp add: persist_log_change_def)
  next
    case diff: False
    show ?thesis
    proof (cases "p = length ?b")
      case True
      then have "c = l" by (simp add: c_def)
      then have "journal_replays l' (append_log_entries (drop p ?a) d)"
        using push by (intro journal_replays_append_entries [OF replays]) simp
      then show ?thesis using diff True
        by (simp add: persist_log_change_def Let_def p_def [symmetric] append_log_entries_def)
    next
      case False
      let ?i = "entry_index (?b ! p)"
      have p: "p < length ?b" using False pb by simp
      have i: "?i = base_index l + 1 + int p" using cont(1) p by (simp add: contiguous_def)
      have "truncate_from ?i l = Ok c" using p i by (simp add: truncate_from_def c_def Let_def)
      moreover obtain d' where d': "replace_log_suffix ?i (drop p ?a) d = Ok d'"
        using i assms(1) by (simp add: replace_log_suffix_def wf_log_def)
      ultimately have "journal_replays l' d'" by (intro journal_replays_suffix [OF replays _ push])
      moreover have "state_file d' = state_file d \<and> snapshot_file d' = snapshot_file d"
        using d' by (auto simp: replace_log_suffix_def split: if_splits)
      ultimately show ?thesis using diff False d'
        by (simp add: persist_log_change_def Let_def p_def [symmetric])
    qed
  qed
qed

section \<open>The node's invariants\<close>

definition node_wf :: "raft_node \<Rightarrow> bool" where
  "node_wf n =
     (data_wf (n_state n) (n_snapshot n) (n_log n) (n_store n) \<and>
      node_id (n_state n) = n_id n \<and> distinct (n_members n) \<and> n_id n \<in> set (n_members n) \<and>
      wf_tracker (n_election n) (n_state n) \<and> tracker_members (n_election n) = n_members n \<and>
      (\<forall>r. n_replication n = Some r \<longrightarrow> wf_replication r (n_state n) \<and> repl_members r = n_members n) \<and>
      0 \<le> current_term (n_state n) \<and>
      (role (n_state n) \<noteq> FOLLOWER \<longrightarrow> voted_for (n_state n) = Some (n_id n)))"

text \<open>What a restart would read is what the node has; a node without files has nothing to lose.\<close>

definition durable_state :: "raft_node \<Rightarrow> disk \<Rightarrow> bool" where
  "durable_state n d =
     (load_state (n_id n) d =
        Ok ((raft_state_default (n_id n))\<lparr>current_term := current_term (n_state n),
             voted_for := voted_for (n_state n), commit_index := commit_index (n_state n)\<rparr>))"

definition durable_log :: "raft_node \<Rightarrow> disk \<Rightarrow> bool" where
  "durable_log n d = (load_snapshot d = Ok (n_snapshot n) \<and> journal_replays (n_log n) d)"

definition node_durable :: "raft_node \<Rightarrow> bool" where
  "node_durable n = (\<forall>d. n_disk n = Some d \<longrightarrow> durable_state n d \<and> durable_log n d)"

lemma durable_save_state: "durable_state n (save_state (n_state n) d)"
  by (simp add: durable_state_def)

lemma durable_log_save_state [simp]: "durable_log n (save_state s d) = durable_log n d"
proof -
  have "load_snapshot (save_state s d) = load_snapshot d" by (rule load_snapshot_cong) simp
  then show ?thesis by (simp add: durable_log_def journal_replays_def)
qed

lemma persist_state_fields [simp]:
  "n_id (persist_state n) = n_id n" "n_members (persist_state n) = n_members n"
  "n_state (persist_state n) = n_state n" "n_snapshot (persist_state n) = n_snapshot n"
  "n_log (persist_state n) = n_log n" "n_store (persist_state n) = n_store n"
  "n_election (persist_state n) = n_election n" "n_replication (persist_state n) = n_replication n"
  "n_disk (persist_state n) = map_option (save_state (n_state n)) (n_disk n)"
  by (simp_all add: persist_state_def)

lemma node_wf_persist [simp]: "node_wf (persist_state n) = node_wf n"
  by (simp add: node_wf_def)

text \<open>Both invariants look only at the fields that a handler may change.\<close>

lemma node_durable_cong:
  assumes "node_durable n" "n_id n' = n_id n" "durable_fields (n_state n') = durable_fields (n_state n)"
    "n_snapshot n' = n_snapshot n" "n_log n' = n_log n" "n_disk n' = n_disk n"
  shows "node_durable n'"
  using assms by (simp add: node_durable_def durable_state_def durable_log_def durable_fields_def)

lemma node_durable_persist:
  assumes "\<And>d. n_disk n = Some d \<Longrightarrow> durable_log n d"
  shows "node_durable (persist_state n)"
proof -
  have "durable_log (persist_state n) d = durable_log n d" "durable_state (persist_state n) d = durable_state n d" for d
    by (simp_all add: durable_log_def durable_state_def)
  then show ?thesis using assms by (auto simp: node_durable_def durable_save_state)
qed

lemma wf_tracker_cong: "wf_tracker t s \<Longrightarrow> node_id s' = node_id s \<Longrightarrow> wf_tracker t s'"
  by (simp add: wf_tracker_def)

lemma wf_replication_cong: "wf_replication r s \<Longrightarrow> node_id s' = node_id s \<Longrightarrow> wf_replication r s'"
  by (simp add: wf_replication_def)

text \<open>Changing the state's term, vote and role alone keeps \<open>node_wf\<close>.\<close>

lemma node_wf_state:
  assumes "node_wf n" "n_id n' = n_id n" "n_members n' = n_members n" "n_snapshot n' = n_snapshot n"
    "n_log n' = n_log n" "n_store n' = n_store n" "n_election n' = n_election n"
    "n_replication n' = n_replication n \<or> n_replication n' = None"
    and "node_id (n_state n') = node_id (n_state n)"
    "commit_index (n_state n') = commit_index (n_state n)"
    "last_applied (n_state n') = last_applied (n_state n)"
    "current_term (n_state n) \<le> current_term (n_state n')"
    "role (n_state n') \<noteq> FOLLOWER \<Longrightarrow> voted_for (n_state n') = Some (n_id n)"
  shows "node_wf n'"
proof -
  have "wf_tracker (n_election n') (n_state n')"
    using assms(1,7,9) wf_tracker_cong unfolding node_wf_def by metis
  moreover have "wf_replication r (n_state n') \<and> repl_members r = n_members n'"
    if "n_replication n' = Some r" for r
  proof -
    have "n_replication n = Some r" using assms(8) that by auto
    then have "wf_replication r (n_state n)" "repl_members r = n_members n"
      using assms(1) by (simp_all add: node_wf_def)
    then show ?thesis using assms(3,9) wf_replication_cong by simp
  qed
  moreover have "data_wf (n_state n') (n_snapshot n') (n_log n') (n_store n')"
    using assms(1,4-6,10,11) data_wf_cong unfolding node_wf_def by metis
  ultimately show ?thesis using assms by (auto simp: node_wf_def)
qed

lemma node_wf_data: "node_wf n \<Longrightarrow> data_wf (n_state n) (n_snapshot n) (n_log n) (n_store n)"
  by (simp add: node_wf_def)

lemma node_wf_log: "node_wf n \<Longrightarrow> wf_log (n_log n)"
  by (simp add: node_wf_def data_wf_def)

lemma drop_replication_fields [simp]:
  "n_id (drop_replication n) = n_id n" "n_members (drop_replication n) = n_members n"
  "n_state (drop_replication n) = n_state n" "n_snapshot (drop_replication n) = n_snapshot n"
  "n_log (drop_replication n) = n_log n" "n_store (drop_replication n) = n_store n"
  "n_election (drop_replication n) = n_election n" "n_disk (drop_replication n) = n_disk n"
  "n_replication (drop_replication n) = (if role (n_state n) = LEADER then n_replication n else None)"
  by (simp_all add: drop_replication_def)

lemma observe_fields [simp]:
  "n_id (observe ev n) = n_id n" "n_members (observe ev n) = n_members n"
  "n_state (observe ev n) = n_state n" "n_snapshot (observe ev n) = n_snapshot n"
  "n_log (observe ev n) = n_log n" "n_store (observe ev n) = n_store n"
  "n_election (observe ev n) = n_election n" "n_replication (observe ev n) = n_replication n"
  "n_disk (observe ev n) = n_disk n"
  by (simp_all add: observe_def)

end
