(* ===== verification/Outbound.thy ===== *)
theory Outbound
  imports NodeInvariant "HOL-Library.List_Lexorder" "HOL-Library.Char_ord"
begin

text \<open>
  The outbound operations of \<^verbatim>\<open>raft/node.py\<close>: elections, replication, reads, leadership transfer and
  client commands. None of them holds the node's lock during network input and output, so each
  is a sequence of critical sections. A section is a function on the node; what other threads do
  to the node between two sections (inbound handlers, the workers of other followers) is a
  function \<open>env\<close> given as an argument. The network is an argument too.
\<close>

section \<open>Elections\<close>

definition initialize_leader_replication :: "raft_node \<Rightarrow> raft_node \<times> unit result" where
  "initialize_leader_replication n =
     (if role (n_state n) \<noteq> LEADER then (n\<lparr>n_replication := None\<rparr>, Ok ())
      else (case n_replication n of
              Some _ \<Rightarrow> (n, Ok ())
            | None \<Rightarrow>
                (case leader_replication_init (n_state n) (n_log n) (n_members n) of
                   Inl e \<Rightarrow> (n, Err e)
                 | Inr r \<Rightarrow> (n\<lparr>n_replication := Some r\<rparr>, Ok ()))))"

text \<open>
  The first section of \<open>tick\<close>: the vote requests to send, none when the method returns at once.
\<close>

definition tick_begin ::
  "clock \<Rightarrow> raft_node \<Rightarrow> raft_node \<times> (string, request_vote_request) dict result" where
  "tick_begin c n =
     (case start_election_if_needed c (last_index (n_log n)) (last_term (n_log n)) (n_election n)
             (n_timer n) (n_state n) of
        ((t, tm, s), r) \<Rightarrow>
          (let previous = n_state n;
               n = n\<lparr>n_election := t, n_timer := tm, n_state := s\<rparr>
           in (case r of
                 Inl e \<Rightarrow> (n, Err e)
               | Inr requests \<Rightarrow>
                   (let n = (if current_term s \<noteq> current_term previous \<and> voted_for s = Some (n_id n)
                             then observe ElectionAttempt n else n);
                        n = (if current_term s \<noteq> current_term previous \<or> voted_for s \<noteq> voted_for previous
                             then persist_state n else n)
                    in if role s = LEADER then
                         (case initialize_leader_replication n of
                            (n, Inl e) \<Rightarrow> (n, Err e)
                          | (n, Inr _) \<Rightarrow>
                              (if role previous \<noteq> LEADER then observe LeadershipChange n else n, Ok []))
                       else (n, Ok requests)))))"

text \<open>The section after one response: \<open>Some\<close> role when \<open>tick\<close> returns it, \<open>None\<close> to go on.\<close>

definition tick_response ::
  "string \<Rightarrow> request_vote_request \<Rightarrow> request_vote_response result \<Rightarrow> raft_node \<Rightarrow>
   raft_node \<times> node_role option result" where
  "tick_response peer request outcome n =
     (let moved_on = (role (n_state n) \<noteq> CANDIDATE \<or> current_term (n_state n) \<noteq> rv_term request) in
      (case outcome of
         Inl e \<Rightarrow>
           (if e \<noteq> TransportError then (n, Err e)
            else (n, Ok (if moved_on then Some (role (n_state n)) else None)))
       | Inr response \<Rightarrow>
           (if moved_on then (n, Ok (Some (role (n_state n))))
            else (case record_vote peer response (n_election n) (n_state n) of
                    ((t, s), r) \<Rightarrow>
                      (let previous = n_state n;
                           n = n\<lparr>n_election := t, n_state := s\<rparr>
                       in (case r of
                             Inl e \<Rightarrow> (n, Err e)
                           | Inr _ \<Rightarrow>
                               (let n = (if current_term s \<noteq> current_term previous \<or>
                                            voted_for s \<noteq> voted_for previous
                                         then persist_state n else n)
                                in if role s = LEADER then
                                     (case initialize_leader_replication n of
                                        (n, Inl e) \<Rightarrow> (n, Err e)
                                      | (n, Inr _) \<Rightarrow> (observe LeadershipChange n, Ok (Some LEADER)))
                                   else if role s = FOLLOWER then
                                     (n\<lparr>n_replication := None\<rparr>, Ok (Some FOLLOWER))
                                   else (n, Ok None))))))))"

text \<open>
  A completed vote request: what happened to the node before it was looked at, the peer, the
  request, and the response or the exception of the transport.
\<close>

type_synonym vote_completion =
  "(raft_node \<Rightarrow> raft_node) \<times> string \<times> request_vote_request \<times> request_vote_response result"

fun tick_votes :: "vote_completion list \<Rightarrow> raft_node \<Rightarrow> raft_node \<times> node_role result" where
  "tick_votes [] n = (n, Ok (role (n_state n)))"
| "tick_votes ((env, peer, request, outcome) # rest) n =
     (let n = observe (Rpc ''request_vote'' (is_ok outcome)) (env n)
      in (case tick_response peer request outcome n of
            (n, Inl e) \<Rightarrow> (n, Err e)
          | (n, Inr (Some r)) \<Rightarrow> (n, Ok r)
          | (n, Inr None) \<Rightarrow> tick_votes rest n))"

definition tick ::
  "clock \<Rightarrow> ((string, request_vote_request) dict \<Rightarrow> vote_completion list) \<Rightarrow> raft_node \<Rightarrow>
   raft_node \<times> node_role result" where
  "tick c network n =
     (case tick_begin c n of
        (n, Inl e) \<Rightarrow> (n, Err e)
      | (n, Inr requests) \<Rightarrow>
          (if requests = [] then (n, Ok (role (n_state n))) else tick_votes (network requests) n))"

section \<open>One follower's replication worker\<close>

datatype worker_request =
    SnapshotRequest install_snapshot_request
  | AppendRequest append_entries_request

fun request_term :: "worker_request \<Rightarrow> int" where
  "request_term (SnapshotRequest q) = is_term q"
| "request_term (AppendRequest q) = ae_term q"

text \<open>The section that builds a request: \<open>None\<close> when the worker returns \<open>False\<close>.\<close>

definition worker_build :: "string \<Rightarrow> raft_node \<Rightarrow> worker_request option result" where
  "worker_build follower n =
     (if role (n_state n) \<noteq> LEADER then Ok None
      else (case n_replication n of
              None \<Rightarrow> Ok None
            | Some r \<Rightarrow>
                (case dict_item (next_index r) follower of
                   Inl e \<Rightarrow> Err e
                 | Inr next \<Rightarrow>
                     (if next \<le> base_index (n_log n) then
                        (if last_included_index (n_snapshot n) \<noteq> base_index (n_log n) \<or>
                            last_included_term (n_snapshot n) \<noteq> base_term (n_log n)
                         then Err RuntimeError
                         else Ok (Some (SnapshotRequest
                                \<lparr>is_term = current_term (n_state n), is_leader_id = n_id n,
                                 is_last_included_index = last_included_index (n_snapshot n),
                                 is_last_included_term = last_included_term (n_snapshot n),
                                 is_state = snapshot_state (n_snapshot n)\<rparr>)))
                      else (case build_request follower (Some (commit_index (n_state n))) (n_state n)
                                   (n_log n) r of
                              Inl e \<Rightarrow> Err e
                            | Inr q \<Rightarrow> Ok (Some (AppendRequest q)))))))"

text \<open>\<^verbatim>\<open>become_follower(term)\<close>, persisted, and the leader's progress forgotten.\<close>

definition step_down :: "int \<Rightarrow> raft_node \<Rightarrow> raft_node \<times> unit result" where
  "step_down trm n =
     (case become_follower trm None (n_state n) of
        Inl e \<Rightarrow> (n, Err e)
      | Inr s \<Rightarrow> ((persist_state (n\<lparr>n_state := s\<rparr>))\<lparr>n_replication := None\<rparr>, Ok ()))"

text \<open>The section after the response: \<open>Some\<close> result when the worker returns, \<open>None\<close> to loop.\<close>

definition worker_response ::
  "string \<Rightarrow> worker_request \<Rightarrow> int \<Rightarrow> bool \<Rightarrow> raft_node \<Rightarrow> raft_node \<times> bool option result" where
  "worker_response follower request response_term success n =
     (case n_replication n of
        None \<Rightarrow> (n, Ok (Some False))
      | Some r \<Rightarrow>
          (if role (n_state n) \<noteq> LEADER \<or> current_term (n_state n) \<noteq> request_term request
           then (n, Ok (Some False))
           else if current_term (n_state n) < response_term then
             (case step_down response_term n of
                (n, Inl e) \<Rightarrow> (n, Err e) | (n, Inr _) \<Rightarrow> (n, Ok (Some False)))
           else (case request of
              SnapshotRequest q \<Rightarrow>
                (if \<not> success then (n, Ok (Some False))
                 else (case record_snapshot_success follower (is_last_included_index q) r of
                         Inl e \<Rightarrow> (n, Err e)
                       | Inr r \<Rightarrow>
                           (let n = n\<lparr>n_replication := Some r\<rparr> in
                            (case dict_item (next_index r) follower of
                               Inl e \<Rightarrow> (n, Err e)
                             | Inr next \<Rightarrow>
                                 (n, Ok (if next \<le> last_index (n_log n) then None else Some True))))))
            | AppendRequest q \<Rightarrow>
                (if success then
                   (case record_success follower q r of
                      Inl e \<Rightarrow> (n, Err e)
                    | Inr r \<Rightarrow>
                        (let n = n\<lparr>n_replication := Some r\<rparr> in
                         (case dict_item (next_index r) follower of
                            Inl e \<Rightarrow> (n, Err e)
                          | Inr next \<Rightarrow>
                              (n, Ok (if next \<le> last_index (n_log n) \<or>
                                         ae_leader_commit q < commit_index (n_state n)
                                      then None else Some True)))))
                 else (case record_failure follower r of
                         Inl e \<Rightarrow> (n, Err e)
                       | Inr r \<Rightarrow> (n\<lparr>n_replication := Some r\<rparr>, Ok None))))))"

text \<open>
  The transport's calls, on the caller's node and the rest of the world: the node may change
  while the call is in flight. A response is its term and its success flag.
\<close>

record 'w network =
  net_append :: "string \<Rightarrow> append_entries_request \<Rightarrow> raft_node \<times> 'w \<Rightarrow>
                 (raft_node \<times> 'w) \<times> append_entries_response result"
  net_install :: "string \<Rightarrow> install_snapshot_request \<Rightarrow> raft_node \<times> 'w \<Rightarrow>
                  (raft_node \<times> 'w) \<times> install_snapshot_response result"
  net_timeout :: "string \<Rightarrow> timeout_now_request \<Rightarrow> raft_node \<times> 'w \<Rightarrow>
                  (raft_node \<times> 'w) \<times> timeout_now_response result"

definition worker_send ::
  "'w network \<Rightarrow> string \<Rightarrow> worker_request \<Rightarrow> raft_node \<times> 'w \<Rightarrow> (raft_node \<times> 'w) \<times> (int \<times> bool) result" where
  "worker_send net follower request nw =
     (case request of
        SnapshotRequest q \<Rightarrow>
          (case net_install net follower q nw of
             ((n, w), r) \<Rightarrow>
               ((observe (Rpc ''install_snapshot'' (is_ok r)) n, w),
                (case r of Inl e \<Rightarrow> Err e | Inr a \<Rightarrow> Ok (isr_term a, isr_success a))))
      | AppendRequest q \<Rightarrow>
          (case net_append net follower q nw of
             ((n, w), r) \<Rightarrow>
               ((observe (Rpc ''append_entries'' (is_ok r)) n, w),
                (case r of Inl e \<Rightarrow> Err e | Inr a \<Rightarrow> Ok (aer_term a, aer_success a)))))"

text \<open>
  The worker's loop sends until the follower has caught up, the leader has stepped down, or the
  transport fails. It has no bound of its own: \<open>fuel\<close> counts iterations, and running out is
  \<open>None\<close>, which is not a result of the code.
\<close>

fun replicate_to_follower ::
  "nat \<Rightarrow> 'w network \<Rightarrow> string \<Rightarrow> raft_node \<times> 'w \<Rightarrow> (raft_node \<times> 'w) \<times> bool result option" where
  "replicate_to_follower 0 net follower nw = (nw, None)"
| "replicate_to_follower (Suc fuel) net follower (n, w) =
     (case worker_build follower n of
        Inl e \<Rightarrow> ((n, w), Some (Err e))
      | Inr None \<Rightarrow> ((n, w), Some (Ok False))
      | Inr (Some request) \<Rightarrow>
          (case worker_send net follower request (n, w) of
             ((n, w), Inl e) \<Rightarrow>
               ((n, w), Some (if e = TransportError then Ok False else Err e))
           | ((n, w), Inr (trm, success)) \<Rightarrow>
               (case worker_response follower request trm success n of
                  (n, Inl e) \<Rightarrow> ((n, w), Some (Err e))
                | (n, Inr (Some b)) \<Rightarrow> ((n, w), Some (Ok b))
                | (n, Inr None) \<Rightarrow> replicate_to_follower fuel net follower (n, w))))"

section \<open>One round over all followers\<close>

text \<open>
  \<^verbatim>\<open>_replication_futures\<close>: the outstanding worker of each follower. A worker that is done has
  returned a result or raised.
\<close>

datatype future = Running | Done "bool result"

type_synonym futures = "(string, future) dict"

text \<open>Collect what finished since the last round, and start a worker where none is running.\<close>

fun submit_workers ::
  "string list \<Rightarrow> futures \<Rightarrow> (string, bool) dict \<Rightarrow> futures \<times> (string, bool) dict result" where
  "submit_workers [] futures results = (futures, Ok results)"
| "submit_workers (follower # fs) futures results =
     (case map_of futures follower of
        None \<Rightarrow> submit_workers fs (AList.update follower Running futures) results
      | Some Running \<Rightarrow> submit_workers fs futures results
      | Some (Done (Inl e)) \<Rightarrow> (futures, Err e)
      | Some (Done (Inr b)) \<Rightarrow>
          submit_workers fs (AList.update follower Running (AList.delete follower futures))
            (AList.update follower b results))"

text \<open>The followers whose workers one \<open>wait\<close> found done, in the order of \<open>active\<close>.\<close>

fun collect_done ::
  "string list \<Rightarrow> (string, bool result) dict \<Rightarrow> futures \<Rightarrow> (string, bool) dict \<Rightarrow>
   futures \<times> (string, bool) dict result" where
  "collect_done [] finished futures results = (futures, Ok results)"
| "collect_done (follower # fs) finished futures results =
     (case map_of finished follower of
        None \<Rightarrow> collect_done fs finished futures results
      | Some (Inl e) \<Rightarrow> (futures, Err e)
      | Some (Inr b) \<Rightarrow>
          collect_done fs finished (AList.delete follower futures) (AList.update follower b results))"

text \<open>
  The loop over \<open>pending\<close>. Each element of \<open>batches\<close> is what one \<open>wait\<close> finds done; no further
  batch, or an empty one, is the deadline.
\<close>

fun wait_round ::
  "string option \<Rightarrow> nat \<Rightarrow> (string, bool result) dict list \<Rightarrow> string list \<Rightarrow> futures \<Rightarrow>
   (string, bool) dict \<Rightarrow> futures \<times> (string, bool) dict result" where
  "wait_round required follower_quorum [] pending futures results = (futures, Ok results)"
| "wait_round required follower_quorum (batch # batches) pending futures results =
     (let finished = filter (\<lambda>p. fst p \<in> set pending) batch in
      if pending = [] \<or> finished = [] then (futures, Ok results)
      else (case collect_done pending finished futures results of
              (futures, Inl e) \<Rightarrow> (futures, Err e)
            | (futures, Inr results) \<Rightarrow>
                (if required = None \<and> follower_quorum \<le> length (filter (\<lambda>p. snd p) results)
                 then (futures, Ok results)
                 else if (case required of None \<Rightarrow> False | Some f \<Rightarrow> f \<in> fst ` set results)
                 then (futures, Ok results)
                 else wait_round required follower_quorum batches
                        (filter (\<lambda>f. f \<notin> fst ` set finished) pending) futures results)))"

text \<open>
  The whole round. \<open>env\<close> is what the workers and the other threads do to the node and to the
  outstanding futures meanwhile.
\<close>

type_synonym node_env = "raft_node \<times> futures \<Rightarrow> raft_node \<times> futures"

type_synonym round = "node_env \<times> (string, bool result) dict list"

definition replicate_followers ::
  "round \<Rightarrow> string option \<Rightarrow> raft_node \<times> futures \<Rightarrow>
   (raft_node \<times> futures) \<times> (string, bool) dict result" where
  "replicate_followers rnd required nf =
     (case (rnd, nf) of ((env, batches), (n, futures)) \<Rightarrow>
       (if role (n_state n) \<noteq> LEADER then ((n, futures), Ok [])
        else (case initialize_leader_replication n of
                (n, Inl e) \<Rightarrow> ((n, futures), Err e)
              | (n, Inr _) \<Rightarrow>
                  (case n_replication n of
                     None \<Rightarrow> ((n, futures), Ok [])
                   | Some r \<Rightarrow>
                       (if followers r = [] then ((n, futures), Ok [])
                        else (case submit_workers (followers r) futures [] of
                                (futures, Inl e) \<Rightarrow> ((n, futures), Err e)
                              | (futures, Inr results) \<Rightarrow>
                                  (case wait_round required (length (n_members n) div 2) batches
                                          (followers r) futures results of
                                     (futures, r) \<Rightarrow> (env (n, futures), r))))))))"

definition replicate_log_finish :: "raft_node \<Rightarrow> raft_node \<times> unit result" where
  "replicate_log_finish n =
     (case n_replication n of
        None \<Rightarrow> (n, Ok ())
      | Some r \<Rightarrow>
          (if role (n_state n) \<noteq> LEADER then (n, Ok ())
           else (case advance_commit_index (n_log n) r (n_state n) of
                   Inl e \<Rightarrow> (n, Err e)
                 | Inr (s, _) \<Rightarrow>
                     (let previous_commit_index = commit_index (n_state n);
                          n = n\<lparr>n_state := s\<rparr>
                      in if commit_index s = previous_commit_index then (n, Ok ())
                         else let n = persist_state n in
                           (case apply_committed_entries (n_log n) (n_state n) (n_store n) of
                              ((s, store), r) \<Rightarrow> (n\<lparr>n_state := s, n_store := store\<rparr>, r))))))"

definition replicate_log ::
  "round \<Rightarrow> raft_node \<times> futures \<Rightarrow> (raft_node \<times> futures) \<times> unit result" where
  "replicate_log rnd nf =
     (case nf of (n, futures) \<Rightarrow>
       (if role (n_state n) \<noteq> LEADER then ((n, futures), Err NotLeaderError)
        else (case initialize_leader_replication n of
                (n, Inl e) \<Rightarrow> ((n, futures), Err e)
              | (n, Inr _) \<Rightarrow>
                  (if n_replication n = None then ((n, futures), Err RuntimeError)
                   else (case replicate_followers rnd None (n, futures) of
                           ((n, futures), Inl e) \<Rightarrow> ((n, futures), Err e)
                         | ((n, futures), Inr _) \<Rightarrow>
                             (case replicate_log_finish n of (n, r) \<Rightarrow> ((n, futures), r)))))))"

definition send_heartbeats ::
  "round \<Rightarrow> raft_node \<times> futures \<Rightarrow> (raft_node \<times> futures) \<times> (string, bool) dict result" where
  "send_heartbeats rnd nf = replicate_followers rnd None nf"

section \<open>Reads\<close>

text \<open>
  One visit to each follower in the loop of \<^verbatim>\<open>_confirm_read_quorum\<close>. Only a worker started by this
  read (\<open>fresh\<close>) counts: one that was already running may have heard from the follower before
  the read began.
\<close>

record read_progress =
  read_futures :: futures
  fresh :: "string list"
  confirmed :: "string list"
  failed :: "string list"

fun read_visit :: "string list \<Rightarrow> read_progress \<Rightarrow> read_progress \<times> string list result" where
  "read_visit [] p = (p, Ok [])"
| "read_visit (follower # fs) p =
     (if follower \<in> set (confirmed p) \<or> follower \<in> set (failed p) then read_visit fs p
      else
        (let submitted = p\<lparr>read_futures := AList.update follower Running (AList.delete follower (read_futures p)),
                          fresh := set_add follower (fresh p)\<rparr>;
             wait = (\<lambda>p. case read_visit fs p of
                          (p, Inl e) \<Rightarrow> (p, Err e) | (p, Inr waiting) \<Rightarrow> (p, Ok (follower # waiting)))
         in (case map_of (read_futures p) follower of
               None \<Rightarrow> wait submitted
             | Some Running \<Rightarrow> wait p
             | Some (Done (Inl e)) \<Rightarrow> (p, Err e)
             | Some (Done (Inr b)) \<Rightarrow>
                 (if follower \<in> set (fresh p) then
                    (let p = p\<lparr>read_futures := AList.delete follower (read_futures p)\<rparr>
                     in read_visit fs (if b then p\<lparr>confirmed := set_add follower (confirmed p)\<rparr>
                                       else p\<lparr>failed := set_add follower (failed p)\<rparr>))
                  else wait submitted))))"

text \<open>
  The loop. Each element of \<open>waits\<close> is what the workers did before the next visit; the end of
  the list is the deadline.
\<close>

definition finish_workers :: "(string, bool result) dict \<Rightarrow> futures \<Rightarrow> futures" where
  "finish_workers finished futures =
     map (\<lambda>(f, x). (f, case (x, map_of finished f) of (Running, Some r) \<Rightarrow> Done r | _ \<Rightarrow> x)) futures"

fun read_loop ::
  "nat \<Rightarrow> string list \<Rightarrow> (string, bool result) dict list \<Rightarrow> read_progress \<Rightarrow>
   read_progress \<times> unit result" where
  "read_loop quorum fs [] p = (p, Ok ())"
| "read_loop quorum fs (w # ws) p =
     (if quorum \<le> 1 + length (confirmed p) then (p, Ok ())
      else (case read_visit fs (p\<lparr>read_futures := finish_workers w (read_futures p)\<rparr>) of
              (p, Inl e) \<Rightarrow> (p, Err e)
            | (p, Inr waiting) \<Rightarrow>
                (if quorum \<le> 1 + length (confirmed p) then (p, Ok ())
                 else if waiting = [] then (p, Ok ())
                 else read_loop quorum fs ws p)))"

text \<open>\<^verbatim>\<open>apply_committed_entries\<close> on the node's own fields.\<close>

definition node_apply :: "raft_node \<Rightarrow> raft_node \<times> unit result" where
  "node_apply n =
     (case apply_committed_entries (n_log n) (n_state n) (n_store n) of
        ((s, store), r) \<Rightarrow> (n\<lparr>n_state := s, n_store := store\<rparr>, r))"

definition read_confirmed :: "int \<Rightarrow> real \<Rightarrow> bool \<Rightarrow> raft_node \<Rightarrow> raft_node \<times> unit result" where
  "read_confirmed read_term now has_quorum n =
     (if role (n_state n) \<noteq> LEADER \<or> current_term (n_state n) \<noteq> read_term then (n, Err ReadQuorumError)
      else if \<not> has_quorum then (n, Err ReadQuorumError)
      else node_apply (n\<lparr>last_read_quorum_term := Some read_term,
                          last_read_quorum_time := Some now\<rparr>))"

text \<open>\<open>now\<close> is the monotonic time when the quorum has answered.\<close>

type_synonym read_round = "node_env \<times> (string, bool result) dict list"

definition confirm_read_quorum_body ::
  "read_round \<Rightarrow> real \<Rightarrow> raft_node \<times> futures \<Rightarrow> (raft_node \<times> futures) \<times> unit result" where
  "confirm_read_quorum_body rnd now nf =
     (case (rnd, nf) of ((env, waits), (n, futures)) \<Rightarrow>
       (if role (n_state n) \<noteq> LEADER then ((n, futures), Err NotLeaderError)
        else (case initialize_leader_replication n of
                (n, Inl e) \<Rightarrow> ((n, futures), Err e)
              | (n, Inr _) \<Rightarrow>
                  (case n_replication n of
                     None \<Rightarrow> ((n, futures), Err RuntimeError)
                   | Some r \<Rightarrow>
                       (let read_term = current_term (n_state n);
                            quorum = length (n_members n) div 2 + 1;
                            p0 = \<lparr>read_futures = futures, fresh = [], confirmed = [], failed = []\<rparr>
                        in (case (if quorum = 1 then (p0, Ok ())
                                  else read_loop quorum (followers r) waits p0) of
                              (p, Inl e) \<Rightarrow> (env (n, read_futures p), Err e)
                            | (p, Inr _) \<Rightarrow>
                                (case env (n, read_futures p) of
                                   (n, futures) \<Rightarrow>
                                     (case read_confirmed read_term now
                                             (quorum \<le> 1 + length (confirmed p)) n of
                                        (n, r) \<Rightarrow> ((n, futures), r)))))))))"

definition confirm_read_quorum ::
  "read_round \<Rightarrow> real \<Rightarrow> raft_node \<times> futures \<Rightarrow> (raft_node \<times> futures) \<times> unit result" where
  "confirm_read_quorum rnd now nf =
     (case confirm_read_quorum_body rnd now nf of
        ((n, futures), r) \<Rightarrow> ((observe (ReadBarrier (is_ok r)) n, futures), r))"

definition has_valid_read_lease :: "real \<Rightarrow> raft_node \<Rightarrow> bool" where
  "has_valid_read_lease now n =
     (if role (n_state n) \<noteq> LEADER then False
      else if last_read_quorum_term n \<noteq> Some (current_term (n_state n)) then False
      else (case last_read_quorum_time n of
              None \<Rightarrow> False
            | Some t \<Rightarrow> let elapsed = now - t in 0 \<le> elapsed \<and> elapsed < read_lease_duration n))"

text \<open>\<open>t0 \<le> t1 \<le> t2\<close>: the lease check, the quorum's answer, the second lease check.\<close>

definition linearizable_get ::
  "string \<Rightarrow> read_round \<Rightarrow> real \<times> real \<times> real \<Rightarrow> node_env \<Rightarrow> raft_node \<times> futures \<Rightarrow>
   (raft_node \<times> futures) \<times> string option result" where
  "linearizable_get key rnd ts env nf =
     (case (ts, nf) of ((t0, t1, t2), (n, futures)) \<Rightarrow>
       (if role (n_state n) \<noteq> LEADER then ((n, futures), Err NotLeaderError)
        else if has_valid_read_lease t0 n then
          (case node_apply n of
             (n, Inl e) \<Rightarrow> ((n, futures), Err e)
           | (n, Inr _) \<Rightarrow> ((n, futures), Ok (kv_get key (n_store n))))
        else (case confirm_read_quorum rnd t1 (n, futures) of
                ((n, futures), Inl e) \<Rightarrow> ((n, futures), Err e)
              | ((n, futures), Inr _) \<Rightarrow>
                  (case env (n, futures) of
                     (n, futures) \<Rightarrow>
                       (if \<not> has_valid_read_lease t2 n then ((n, futures), Err ReadQuorumError)
                        else ((n, futures), Ok (kv_get key (n_store n))))))))"

section \<open>Leadership transfer\<close>

text \<open>The followers that answered in this round and hold the whole log.\<close>

fun eligible_followers ::
  "(string, bool) dict \<Rightarrow> raft_node \<Rightarrow> leader_replication \<Rightarrow> string list \<Rightarrow> string list result" where
  "eligible_followers results n r [] = Ok []"
| "eligible_followers results n r (f # fs) =
     (if map_of results f \<noteq> Some True then eligible_followers results n r fs
      else (case dict_item (match_index r) f of
              Inl e \<Rightarrow> Err e
            | Inr m \<Rightarrow>
                (case eligible_followers results n r fs of
                   Inl e \<Rightarrow> Err e
                 | Inr es \<Rightarrow> Ok (if last_index (n_log n) \<le> m then f # es else es))))"

text \<open>The section that selects the target, \<open>None\<close> when the transfer is given up.\<close>

definition transfer_select ::
  "int \<Rightarrow> string option \<Rightarrow> (string, bool) dict \<Rightarrow> raft_node \<Rightarrow> string option result" where
  "transfer_select transfer_term target results n =
     (if role (n_state n) \<noteq> LEADER \<or> current_term (n_state n) \<noteq> transfer_term then Ok None
      else (case n_replication n of
              None \<Rightarrow> Ok None
            | Some r \<Rightarrow>
                (case eligible_followers results n r (followers r) of
                   Inl e \<Rightarrow> Err e
                 | Inr eligible \<Rightarrow>
                     (case target of
                        None \<Rightarrow> Ok (if eligible = [] then None else Some (Min (set eligible)))
                      | Some f \<Rightarrow> Ok (if f \<in> set eligible then Some f else None)))))"

definition transfer_finish :: "int \<Rightarrow> timeout_now_response \<Rightarrow> raft_node \<Rightarrow> raft_node \<times> bool result" where
  "transfer_finish transfer_term response n =
     (if role (n_state n) \<noteq> LEADER \<or> current_term (n_state n) \<noteq> transfer_term then (n, Ok False)
      else if current_term (n_state n) < tnr_term response then
        (case step_down (tnr_term response) n of (n, Inl e) \<Rightarrow> (n, Err e) | (n, Inr _) \<Rightarrow> (n, Ok False))
      else if \<not> tnr_accepted response then (n, Ok False)
      else (case become_follower transfer_term None (n_state n) of
              Inl e \<Rightarrow> (n, Err e)
            | Inr s \<Rightarrow> (n\<lparr>n_state := s, n_replication := None\<rparr>, Ok True)))"

text \<open>The body of the \<^verbatim>\<open>try\<close> block.\<close>

definition transfer_attempt ::
  "int \<Rightarrow> string option \<Rightarrow> round \<Rightarrow> 'w network \<Rightarrow> (raft_node \<times> futures) \<times> 'w \<Rightarrow>
   ((raft_node \<times> futures) \<times> 'w) \<times> bool result" where
  "transfer_attempt transfer_term target rnd net nfw =
     (case nfw of (nf, w) \<Rightarrow>
       (case replicate_followers rnd target nf of
          (nf, Inl e) \<Rightarrow> ((nf, w), Err e)
        | ((n, futures), Inr results) \<Rightarrow>
            (case transfer_select transfer_term target results n of
               Inl e \<Rightarrow> (((n, futures), w), Err e)
             | Inr None \<Rightarrow> (((n, futures), w), Ok False)
             | Inr (Some selected) \<Rightarrow>
                 (case net_timeout net selected \<lparr>tn_term = transfer_term, tn_leader_id = n_id n\<rparr> (n, w) of
                    ((n, w), r) \<Rightarrow>
                      (let n = observe (Rpc ''timeout_now'' (is_ok r)) n in
                       (case r of
                          Inl e \<Rightarrow> (((n, futures), w), if e = TransportError then Ok False else Err e)
                        | Inr response \<Rightarrow>
                            (case transfer_finish transfer_term response n of
                               (n, r) \<Rightarrow> (((n, futures), w), r))))))))"

definition transfer_leadership ::
  "string option \<Rightarrow> round \<Rightarrow> 'w network \<Rightarrow> (raft_node \<times> futures) \<times> 'w \<Rightarrow>
   ((raft_node \<times> futures) \<times> 'w) \<times> bool result" where
  "transfer_leadership target rnd net nfw =
     (case nfw of ((n, futures), w) \<Rightarrow>
       (if role (n_state n) \<noteq> LEADER then (((n, futures), w), Err NotLeaderError)
        else (case initialize_leader_replication n of
                (n, Inl e) \<Rightarrow> (((n, futures), w), Err e)
              | (n, Inr _) \<Rightarrow>
                  (case n_replication n of
                     None \<Rightarrow> (((n, futures), w), Ok False)
                   | Some r \<Rightarrow>
                       (if (case target of None \<Rightarrow> False | Some f \<Rightarrow> f \<notin> set (followers r))
                        then (((n, futures), w), Err ValueError)
                        else
                          (case transfer_attempt (current_term (n_state n)) target rnd net
                                  ((n\<lparr>transfer_in_progress := True\<rparr>, futures), w) of
                             (((n, futures), w), r) \<Rightarrow>
                               (((n\<lparr>transfer_in_progress := False\<rparr>, futures), w), r)))))))"

section \<open>Client commands\<close>

definition check_command :: "raft_command \<Rightarrow> unit \<Rightarrow> unit result" where
  "check_command command u =
     (if operation command \<notin> {''PUT'', ''DELETE''} then Err ValueError
      else if operation command = ''PUT'' \<and> cmd_value command = None then Err ValueError
      else Ok ())"

fun append_commands ::
  "int \<Rightarrow> raft_command list \<Rightarrow> raft_log \<Rightarrow> raft_log \<times> log_entry list result" where
  "append_commands trm [] l = (l, Ok [])"
| "append_commands trm (c # cs) l =
     (case log_append trm c l of
        Inl e \<Rightarrow> (l, Err e)
      | Inr (l, entry) \<Rightarrow>
          (case append_commands trm cs l of
             (l, Inl e) \<Rightarrow> (l, Err e)
           | (l, Inr es) \<Rightarrow> (l, Ok (entry # es))))"

definition submit_begin :: "raft_command list \<Rightarrow> raft_node \<Rightarrow> raft_node \<times> log_entry list result" where
  "submit_begin commands n =
     (if transfer_in_progress n then (n, Err LeadershipTransferInProgressError)
      else if role (n_state n) \<noteq> LEADER then (n, Err NotLeaderError)
      else (case for_each check_command commands () of
              Inl e \<Rightarrow> (n, Err e)
            | Inr _ \<Rightarrow>
                (case append_commands (current_term (n_state n)) commands (n_log n) of
                   (l, Inl e) \<Rightarrow> (n\<lparr>n_log := l\<rparr>, Err e)
                 | (l, Inr es) \<Rightarrow>
                     (let n = n\<lparr>n_log := l, n_disk := map_option (append_log_entries es) (n_disk n)\<rparr> in
                      (case initialize_leader_replication n of
                         (n, Inl e) \<Rightarrow> (n, Err e) | (n, Inr _) \<Rightarrow> (n, Ok es))))))"

definition submit_results :: "log_entry list \<Rightarrow> raft_node \<Rightarrow> bool list" where
  "submit_results es n =
     (if role (n_state n) \<noteq> LEADER \<or> n_replication n = None then map (\<lambda>_. False) es
      else map (\<lambda>entry. entry_index entry \<le> commit_index (n_state n)) es)"

text \<open>\<open>env1\<close> and \<open>env2\<close> are what happens between the sections, before and after \<open>replicate_log\<close>.\<close>

definition submit_commands ::
  "raft_command list \<Rightarrow> node_env \<Rightarrow> round \<Rightarrow> node_env \<Rightarrow> round \<Rightarrow> raft_node \<times> futures \<Rightarrow>
   (raft_node \<times> futures) \<times> bool list result" where
  "submit_commands commands env1 rnd env2 heartbeat_rnd nf =
     (if commands = [] then (nf, Ok [])
      else (case nf of (n, futures) \<Rightarrow>
        (case submit_begin commands n of
           (n, Inl e) \<Rightarrow> ((n, futures), Err e)
         | (n, Inr es) \<Rightarrow>
             (case replicate_log rnd (env1 (n, futures)) of
                (nf, Inl e) \<Rightarrow> (nf, Err e)
              | (nf, Inr _) \<Rightarrow>
                  (let nf = env2 nf;
                       results = submit_results es (fst nf)
                   in if True \<notin> set results then (nf, Ok results)
                      else (case send_heartbeats heartbeat_rnd nf of
                              (nf, Inl e) \<Rightarrow> (nf, Err e)
                            | (nf, Inr _) \<Rightarrow> (nf, Ok results)))))))"

definition submit_command ::
  "raft_command \<Rightarrow> node_env \<Rightarrow> round \<Rightarrow> node_env \<Rightarrow> round \<Rightarrow> raft_node \<times> futures \<Rightarrow>
   (raft_node \<times> futures) \<times> bool result" where
  "submit_command command env1 rnd env2 heartbeat_rnd nf =
     (case submit_commands [command] env1 rnd env2 heartbeat_rnd nf of
        (nf, Inl e) \<Rightarrow> (nf, Err e)
      | (nf, Inr []) \<Rightarrow> (nf, Err IndexError)
      | (nf, Inr (b # _)) \<Rightarrow> (nf, Ok b))"

definition node_put ::
  "string \<Rightarrow> string \<Rightarrow> node_env \<Rightarrow> round \<Rightarrow> node_env \<Rightarrow> round \<Rightarrow> raft_node \<times> futures \<Rightarrow>
   (raft_node \<times> futures) \<times> bool result" where
  "node_put key val = submit_command \<lparr>operation = ''PUT'', cmd_key = key, cmd_value = Some val\<rparr>"

definition node_delete ::
  "string \<Rightarrow> node_env \<Rightarrow> round \<Rightarrow> node_env \<Rightarrow> round \<Rightarrow> raft_node \<times> futures \<Rightarrow>
   (raft_node \<times> futures) \<times> bool result" where
  "node_delete key = submit_command \<lparr>operation = ''DELETE'', cmd_key = key, cmd_value = None\<rparr>"

end
