(* ===== verification/NodeHandlers.thy ===== *)
theory NodeHandlers
  imports NodeInvariant
begin

text \<open>
  Every inbound operation of the node keeps \<open>node_wf\<close> and \<open>node_durable\<close>: when its response
  leaves, the files hold what the response promised. Restarting from durable files gives the
  node back. The multi-step operations are also shown safe at each intermediate state of the
  files.
\<close>

section \<open>The voter\<close>

lemma handle_request_vote_voter:
  assumes "handle_request_vote req li lt s = Ok (s', r)"
  shows "role s' \<noteq> FOLLOWER \<Longrightarrow> role s' = role s \<and> (voted_for s = None \<or> voted_for s' = voted_for s)"
  using assms by (auto simp: handle_request_vote_cases Let_def split: if_splits)

lemma node_request_vote_eq:
  obtains s r where "handle_request_vote req (last_index (n_log n)) (last_term (n_log n)) (n_state n) = Ok (s, r)"
    "node_request_vote c req n =
      (drop_replication (let m = persist_state (n\<lparr>n_state := s\<rparr>)
         in if rvr_vote_granted r then m\<lparr>n_timer := timer_reset c (n_timer m)\<rparr> else m), Ok r)"
proof -
  obtain s r where "handle_request_vote req (last_index (n_log n)) (last_term (n_log n)) (n_state n) = Ok (s, r)"
    using handle_request_vote_Ok by blast
  then show thesis by (intro that) (simp_all add: node_request_vote_def Let_def)
qed

lemma node_request_vote_keeps:
  assumes "node_request_vote c req n = (n', res)" "node_wf n" "node_durable n"
  shows "node_wf n' \<and> node_durable n'"
proof -
  obtain s r where h: "handle_request_vote req (last_index (n_log n)) (last_term (n_log n)) (n_state n) = Ok (s, r)"
      and n': "n' = drop_replication (let m = persist_state (n\<lparr>n_state := s\<rparr>)
         in if rvr_vote_granted r then m\<lparr>n_timer := timer_reset c (n_timer m)\<rparr> else m)"
    using node_request_vote_eq [of req n c] assms(1) by (metis prod.inject)
  define m where "m = persist_state (n\<lparr>n_state := s\<rparr>)"
  note F = handle_request_vote_frame [OF h]
  have voter: "voted_for s = Some (n_id n)" if "role s \<noteq> FOLLOWER"
    using handle_request_vote_voter [OF h that] assms(2) that by (auto simp: node_wf_def)
  have "node_wf m"
    by (rule node_wf_state [OF assms(2)]) (use F voter in \<open>simp_all add: m_def vote_step_def\<close>)
  moreover have "node_durable m"
    using assms(3) unfolding m_def
    by (intro node_durable_persist) (simp add: node_durable_def durable_log_def)
  moreover have same: "n_id n' = n_id m" "n_members n' = n_members m" "n_state n' = n_state m"
      "n_snapshot n' = n_snapshot m" "n_log n' = n_log m" "n_store n' = n_store m"
      "n_election n' = n_election m" "n_disk n' = n_disk m"
      "n_replication n' = n_replication m \<or> n_replication n' = None"
    by (auto simp: n' m_def Let_def)
  ultimately show ?thesis
    using node_wf_state [of m n'] node_durable_cong [of m n'] by (auto simp: node_wf_def)
qed

section \<open>The follower\<close>

lemma node_append_entries_keeps:
  assumes step: "node_append_entries c req n = (n', res)" and wf: "node_wf n" "node_durable n"
    and req: "wf_append_request req" "agrees_committed req (n_state n) (n_log n)"
  shows "node_wf n' \<and> node_durable n' \<and> is_ok res"
proof -
  let ?l = "n_log n"
  note wfl = node_wf_log [OF wf(1)]
  obtain s l store r where h: "handle_append_entries req (n_state n) ?l (Some (n_store n)) = ((s, l, store), r)"
    by (metis prod.exhaust)
  have data: "data_wf s (n_snapshot n) l (the store)" and ok: "is_ok r"
    using handle_append_entries_data_wf [OF h node_wf_data [OF wf(1)] req] by simp_all
  obtain resp where r: "r = Ok resp" using ok by (auto simp: is_ok_iff)
  note F = handle_append_entries_frame [OF h]
  note W = handle_append_entries_wf [OF h wfl]
  define m where "m = n\<lparr>n_state := s, n_log := l, n_store := the store\<rparr>"
  obtain dsk where dsk: "(case n_disk n of None \<Rightarrow> Ok None
          | Some d \<Rightarrow> (case persist_log_change (entries ?l) (entries l) d of
                        Inl e \<Rightarrow> Err e | Inr d \<Rightarrow> Ok (Some d))) = Ok dsk"
      and files: "\<And>d'. dsk = Some d' \<Longrightarrow> durable_log (m\<lparr>n_disk := dsk\<rparr>) d' \<and>
         (\<exists>d. n_disk n = Some d \<and> state_file d' = state_file d)"
  proof (cases "n_disk n")
    case None
    then show thesis using that [of None] by simp
  next
    case (Some d)
    have D: "durable_log n d" using wf(2) Some by (simp add: node_durable_def)
    obtain d' where "persist_log_change (entries ?l) (entries l) d = Ok d'" "journal_replays l d'"
        "state_file d' = state_file d" "snapshot_file d' = snapshot_file d"
      using persist_log_change_replays [OF wfl W, of d] D by (auto simp: durable_log_def)
    then show thesis
      using that [of "Some d'"] Some D load_snapshot_cong [of d' d] by (simp add: durable_log_def m_def)
  qed
  define k where "k = m\<lparr>n_disk := dsk\<rparr>"
  define k' where "k' = (if durable_fields s \<noteq> durable_fields (n_state n) then persist_state k else k)"
  define k'' where "k'' = (if aer_success resp then k'\<lparr>n_timer := timer_reset c (n_timer k')\<rparr> else k')"
  have out: "n' = drop_replication k''" "res = Ok resp"
    using step entries_from_first [OF wfl] entries_from_first [OF W(1)] dsk
    by (auto simp: node_append_entries_def h r m_def k_def k'_def k''_def Let_def)
  have fields: "n_id n' = n_id n" "n_members n' = n_members n" "n_state n' = s"
      "n_snapshot n' = n_snapshot n" "n_log n' = l" "n_store n' = the store"
      "n_election n' = n_election n"
      "n_replication n' = (if role s = LEADER then n_replication n else None)"
      "n_disk n' = n_disk k'"
    by (simp_all add: out(1) k''_def k'_def k_def m_def)
  have stays: "voted_for s = Some (n_id n)" if "role s \<noteq> FOLLOWER"
  proof -
    have "s = n_state n" using F(4,5) that by force
    then show ?thesis using wf(1) that by (simp add: node_wf_def)
  qed
  have repl: "wf_replication x s \<and> repl_members x = n_members n" if "n_replication n' = Some x" for x
  proof -
    have "n_replication n = Some x" using that fields(8) by (auto split: if_splits)
    then show ?thesis using wf(1) F(2) wf_replication_cong unfolding node_wf_def by blast
  qed
  have "wf_tracker (n_election n') s"
    using wf(1) F(2) wf_tracker_cong fields unfolding node_wf_def by metis
  then have "node_wf n'"
    using wf(1) F(2,3) data stays repl by (simp add: node_wf_def fields le_max_iff_disj)
  moreover have "node_durable n'"
  proof -
    have "node_durable k'"
    proof (cases "durable_fields s = durable_fields (n_state n)")
      case False
      have "node_durable (persist_state k)"
        by (rule node_durable_persist) (use files in \<open>auto simp: k_def\<close>)
      then show ?thesis using False by (simp add: k'_def)
    next
      case True
      have "durable_state k d'" if d': "dsk = Some d'" for d'
      proof -
        obtain d where d: "n_disk n = Some d" "state_file d' = state_file d" using files [OF d'] by blast
        then have "durable_state n d" using wf(2) by (simp add: node_durable_def)
        then show ?thesis
          using True load_state_cong [OF d(2)] by (simp add: durable_state_def k_def m_def durable_fields_def)
      qed
      then show ?thesis using True files by (simp add: k'_def node_durable_def k_def)
    qed
    moreover have "n_id n' = n_id k'" "n_state n' = n_state k'" "n_snapshot n' = n_snapshot k'"
        "n_log n' = n_log k'" "n_disk n' = n_disk k'"
      by (simp_all add: fields) (simp_all add: k'_def k_def m_def)
    ultimately show ?thesis using node_durable_cong [of k' n'] by simp
  qed
  ultimately show ?thesis by (simp add: out(2))
qed

section \<open>TimeoutNow\<close>

lemma node_timeout_now_keeps:
  assumes "node_timeout_now req n = (n', res)" "node_wf n" "node_durable n"
  shows "node_wf n' \<and> node_durable n' \<and> is_ok res"
proof (cases "tn_term req < current_term (n_state n)")
  case True
  then show ?thesis using assms by (auto simp: node_timeout_now_def)
next
  case False
  define s where "s = (if current_term (n_state n) < tn_term req
      then (n_state n)\<lparr>voted_for := None, current_term := tn_term req, role := FOLLOWER,
              leader_id := Some (tn_leader_id req)\<rparr> else n_state n)"
  define m where "m = persist_new_term (current_term (n_state n)) (n\<lparr>n_state := s\<rparr>)"
  have eq: "(if current_term (n_state n) < tn_term req
      then become_follower (tn_term req) (Some (tn_leader_id req)) (n_state n) else Ok (n_state n)) = Ok s"
    by (simp add: s_def become_follower_Ok)
  have out: "n' = (if role s = FOLLOWER \<and> leader_id s = Some (tn_leader_id req)
        then m\<lparr>n_timer := timer_expire_now (n_timer m)\<rparr> else m)" "is_ok res"
    using assms(1) False unfolding node_timeout_now_def eq by (auto simp: m_def Let_def)
  have same: "n_id m = n_id n" "n_members m = n_members n" "n_state m = s" "n_snapshot m = n_snapshot n"
      "n_log m = n_log n" "n_store m = n_store n" "n_election m = n_election n"
      "n_replication m = n_replication n"
    by (simp_all add: m_def persist_new_term_def)
  have "node_wf m"
    by (rule node_wf_state [OF assms(2)]) (use same assms(2) in \<open>auto simp: s_def node_wf_def\<close>)
  moreover have "node_durable m"
  proof (cases "current_term s = current_term (n_state n)")
    case True
    then have "s = n_state n" using False by (auto simp: s_def split: if_splits)
    then show ?thesis using assms(3) by (simp add: m_def persist_new_term_def)
  next
    case False
    then have "m = persist_state (n\<lparr>n_state := s\<rparr>)" by (simp add: m_def persist_new_term_def)
    then show ?thesis using assms(3)
      by (simp only:) (intro node_durable_persist, simp add: node_durable_def durable_log_def)
  qed
  ultimately show ?thesis
    using node_wf_state [of m n'] node_durable_cong [of m n'] out by (auto simp: node_wf_def)
qed

section \<open>Snapshots from the leader\<close>

text \<open>
  Everything the handler may do before the snapshot itself is installed: a new term, no vote.
\<close>

lemma follow_term_keeps:
  assumes "node_wf n" "node_durable n" "become_follower trm lid (n_state n) = Ok s"
  shows "node_wf (persist_new_term (current_term (n_state n)) (n\<lparr>n_state := s, n_replication := None\<rparr>))"
    "node_durable (persist_new_term (current_term (n_state n)) (n\<lparr>n_state := s, n_replication := None\<rparr>))"
proof -
  note B = become_follower_OkD [OF assms(3)]
  let ?m = "n\<lparr>n_state := s, n_replication := None\<rparr>"
  have wf: "node_wf ?m" by (rule node_wf_state [OF assms(1)]) (use B in simp_all)
  then show "node_wf (persist_new_term (current_term (n_state n)) ?m)"
    by (simp add: persist_new_term_def)
  show "node_durable (persist_new_term (current_term (n_state n)) ?m)"
  proof (cases "current_term s = current_term (n_state n)")
    case True
    then have "durable_fields s = durable_fields (n_state n)" using B by (simp add: durable_fields_def)
    then have "node_durable ?m" by (intro node_durable_cong [OF assms(2)]) simp_all
    then show ?thesis using True by (simp add: persist_new_term_def)
  next
    case False
    have "node_durable (persist_state ?m)"
      using assms(2) by (intro node_durable_persist) (simp add: node_durable_def durable_log_def)
    then show ?thesis using False by (simp add: persist_new_term_def)
  qed
qed

lemma node_timer_keeps:
  "node_wf (n\<lparr>n_timer := t\<rparr>) = node_wf n" "node_durable (n\<lparr>n_timer := t\<rparr>) = node_durable n"
  "node_wf (observe ev n) = node_wf n" "node_durable (observe ev n) = node_durable n"
  by (simp_all add: node_wf_def node_durable_def durable_state_def durable_log_def observe_def)

text \<open>
  The two outcomes of the handler: nothing but the term has changed, or the snapshot has been
  installed. The proviso on index zero is the constructor's: \<^verbatim>\<open>RaftSnapshot\<close> refuses a term there.
\<close>

definition wf_install_request :: "install_snapshot_request \<Rightarrow> bool" where
  "wf_install_request req =
     (is_last_included_index req = 0 \<longrightarrow> is_last_included_term req = 0)"

lemma install_snapshot_boundary_Err: "install_snapshot_boundary i t l = Err e \<Longrightarrow> e = ValueError"
  by (auto simp: install_snapshot_boundary_def entries_from_def Let_def split: if_splits)

lemma node_install_snapshot_cases:
  assumes step: "node_install_snapshot c req n = (n', res)" and wf: "node_wf n" "wf_install_request req"
  obtains (stale) "is_term req < current_term (n_state n)" "n' = n"
      "res = Ok \<lparr>isr_term = current_term (n_state n), isr_success = False\<rparr>"
    | (unchanged) s m where
      "become_follower (is_term req) (Some (is_leader_id req)) (n_state n) = Ok s"
      "m = persist_new_term (current_term (n_state n)) (n\<lparr>n_state := s, n_replication := None\<rparr>)"
      "n' = m \<or> n' = m\<lparr>n_timer := timer_reset c (n_timer m)\<rparr>"
      "res = Ok \<lparr>isr_term = current_term s,
         isr_success = (0 \<le> is_last_included_index req \<and> 0 \<le> is_last_included_term req \<and>
           is_last_included_index req < last_included_index (n_snapshot n))\<rparr>"
    | (installed) s sn l s' store dsk where
      "become_follower (is_term req) (Some (is_leader_id req)) (n_state n) = Ok s"
      "raft_snapshot (is_last_included_index req) (is_last_included_term req) (is_state req) 1 = Ok sn"
      "install_snapshot_boundary (is_last_included_index req) (is_last_included_term req) (n_log n) = Ok l"
      "max (commit_index s) (is_last_included_index req) \<le> last_index l"
      "s' = s\<lparr>commit_index := max (commit_index s) (is_last_included_index req),
              last_applied := max (commit_index s) (is_last_included_index req)\<rparr>"
      "data_wf s' sn l store"
      "store = run_commands (slice (is_last_included_index req) (commit_index s') l) (is_state req)"
      "dsk = map_option (\<lambda>d. rewrite_log_records [snapshot_record l (entries l)] (save_snapshot sn d)) (n_disk n)"
      "n' = (let m = persist_state (n\<lparr>n_replication := None, n_state := s', n_snapshot := sn,
                     n_log := l, n_store := store, n_disk := dsk\<rparr>)
             in observe SnapshotInstallation (m\<lparr>n_timer := timer_reset c (n_timer m)\<rparr>))"
      "res = Ok \<lparr>isr_term = current_term s, isr_success = True\<rparr>"
proof (cases "is_term req < current_term (n_state n)")
  case True
  then show thesis using step by (intro stale) (auto simp: node_install_snapshot_def)
next
  case False
  let ?idx = "is_last_included_index req" and ?trm = "is_last_included_term req"
  obtain s where s: "become_follower (is_term req) (Some (is_leader_id req)) (n_state n) = Ok s"
    using become_follower_Ok False by (metis not_less)
  note D = data_wfD [OF node_wf_data [OF wf(1)]]
  have ci: "commit_index s = commit_index (n_state n)" using become_follower_OkD(7) [OF s] .
  define m where "m = n\<lparr>n_state := s, n_replication := None\<rparr>"
  define failed where "failed = (persist_new_term (current_term (n_state n)) m,
      Ok \<lparr>isr_term = current_term s, isr_success = False\<rparr>)"
  have fail: thesis if "(n', res) = failed" "\<not> (0 \<le> ?idx \<and> 0 \<le> ?trm \<and> ?idx < last_included_index (n_snapshot n))"
    by (rule unchanged [OF s refl]) (use that in \<open>auto simp: failed_def m_def\<close>)
  note body = step [unfolded node_install_snapshot_def Let_def, simplified False s if_False sum.case,
      folded m_def, folded failed_def]
  consider "?idx < 0 \<or> ?trm < 0"
    | "0 \<le> ?idx" "0 \<le> ?trm" "?idx < last_included_index (n_snapshot n)"
    | "0 \<le> ?idx" "0 \<le> ?trm" "last_included_index (n_snapshot n) \<le> ?idx"
      "?idx < commit_index s \<and> term_at ?idx (n_log n) \<noteq> Some ?trm"
    | (go) "0 \<le> ?idx" "0 \<le> ?trm" "last_included_index (n_snapshot n) \<le> ?idx"
      "\<not> (?idx < commit_index s \<and> term_at ?idx (n_log n) \<noteq> Some ?trm)"
    by linarith
  then show thesis
  proof cases
    case 1
    then show thesis using body by (intro fail) auto
  next
    case 2
    then show thesis using body
      by (intro unchanged [OF s refl]) (auto simp: m_def)
  next
    case 3
    then show thesis using body by (intro fail) (auto simp: m_def)
  next
    case go
    obtain sn where sn: "raft_snapshot ?idx ?trm (is_state req) 1 = Ok sn"
      using raft_snapshot_Ok [OF go(1,2)] wf(2) by (auto simp: wf_install_request_def)
    show thesis
    proof (cases "install_snapshot_boundary ?idx ?trm (n_log n)")
      case (Inl e)
      then have "e = ValueError" by (rule install_snapshot_boundary_Err)
      then show thesis using body go Inl sn D(1) by (intro fail) (simp_all add: m_def)
    next
      case (Inr l)
      show thesis
      proof (cases "last_index l < max (commit_index s) ?idx")
        case True
        then show thesis using body go Inr sn D(1) by (intro fail) (simp_all add: m_def)
      next
        case le: False
        define s1 where "s1 = s\<lparr>commit_index := max (commit_index s) ?idx, last_applied := ?idx\<rparr>"
        have c: "max (commit_index (n_state n)) ?idx \<le> last_index l"
            "commit_index s1 = max (commit_index (n_state n)) ?idx" "last_applied s1 = ?idx"
          using le by (auto simp: s1_def ci)
        obtain store where app: "apply_committed_entries l s1 (is_state req) =
              ((s1\<lparr>last_applied := commit_index s1\<rparr>, store), Ok ())"
            and data: "data_wf (s1\<lparr>last_applied := commit_index s1\<rparr>) sn l store"
            and store: "store = run_commands (slice ?idx (commit_index s1) l) (is_state req)"
          by (rule install_data_wf [OF node_wf_data [OF wf(1)] sn Inr c]) blast
        have st: "snapshot_state sn = is_state req" using raft_snapshot_OkD [OF sn] by simp
        have save: "save_log l d = Ok (rewrite_log_records [snapshot_record l (entries l)] d)" for d
          using entries_from_first [of l] data by (simp add: save_log_def data_wf_def)
        define dsk where "dsk = map_option (\<lambda>d. rewrite_log_records [snapshot_record l (entries l)]
            (save_snapshot sn d)) (n_disk n)"
        have "(n', res) = (let k = persist_state (n\<lparr>n_replication := None,
              n_state := s1\<lparr>last_applied := commit_index s1\<rparr>,
              n_snapshot := sn, n_log := l, n_store := store, n_disk := dsk\<rparr>)
            in observe SnapshotInstallation (k\<lparr>n_timer := timer_reset c (n_timer k)\<rparr>),
            Ok \<lparr>isr_term = current_term s, isr_success = True\<rparr>)"
          using body go Inr sn D(1) le app st
          by (cases "n_disk n"; cases "?idx < commit_index s")
             (simp_all add: finish_install_def raft_snapshot_OkD [OF sn] kv_restore_def s1_def m_def dsk_def
                save persist_state_def apply_committed_noop Let_def)
        then show thesis using sn Inr le store data
          by (intro installed [OF s sn Inr _ _ _ _ dsk_def, of "s1\<lparr>last_applied := commit_index s1\<rparr>" store])
             (auto simp: s1_def Let_def)
      qed
    qed
  qed
qed

lemma node_install_snapshot_keeps:
  assumes "node_install_snapshot c req n = (n', res)" "node_wf n" "node_durable n"
    "wf_install_request req"
  shows "node_wf n' \<and> node_durable n' \<and> is_ok res"
  using assms(1,2,4)
proof (cases rule: node_install_snapshot_cases)
  case stale
  then show ?thesis using assms(2,3) by simp
next
  case (unchanged s m)
  then show ?thesis using follow_term_keeps [OF assms(2,3) unchanged(1)] by (auto simp: node_timer_keeps)
next
  case (installed s sn l s' store dsk)
  note B = become_follower_OkD [OF installed(1)]
  define m where "m = n\<lparr>n_replication := None, n_state := s', n_snapshot := sn,
                     n_log := l, n_store := store, n_disk := dsk\<rparr>"
  have s': "node_id s' = node_id (n_state n)" "current_term (n_state n) \<le> current_term s'" "role s' = FOLLOWER"
    using B by (simp_all add: installed(5))
  have "wf_tracker (n_election n) s'"
    using assms(2) s'(1) wf_tracker_cong unfolding node_wf_def by blast
  then have "node_wf m"
    using assms(2) installed(6) s' by (simp add: node_wf_def m_def)
  moreover have "node_durable (persist_state m)"
  proof (rule node_durable_persist)
    fix d' assume "n_disk m = Some d'"
    then obtain d where d': "d' = rewrite_log_records [snapshot_record l (entries l)] (save_snapshot sn d)"
      by (auto simp: m_def installed(8))
    have wfl: "wf_log l" and wfs: "wf_snapshot sn" using data_wfD(1,4) [OF installed(6)] by simp_all
    have "journal_replays l d'"
      using load_snapshot_record [OF wfl, of empty_log]
      by (simp add: d' journal_replays_def rewrite_log_records_def)
    moreover have "load_snapshot d' = load_snapshot (save_snapshot sn d)"
      by (rule load_snapshot_cong) (simp add: d')
    ultimately show "durable_log m d'" using wfs by (simp add: durable_log_def m_def)
  qed
  ultimately show ?thesis
    using installed(9,10) by (simp add: m_def [symmetric] Let_def node_timer_keeps)
qed

section \<open>Taking a snapshot\<close>

lemma create_snapshot_cases:
  assumes "create_snapshot n = (n', res)" "node_wf n"
  obtains (nothing) "commit_index (n_state n) = base_index (n_log n)" "n' = n" "res = Ok False"
    | (compacted) trm sn l where "base_index (n_log n) < commit_index (n_state n)"
      "term_at (commit_index (n_state n)) (n_log n) = Some trm"
      "compact_through (commit_index (n_state n)) (n_log n) = Ok l"
      "sn = \<lparr>last_included_index = commit_index (n_state n), last_included_term = trm,
             snapshot_state = n_store n, version = 1\<rparr>"
      "data_wf (n_state n) sn l (n_store n)" "last_index l = last_index (n_log n)"
      "n' = observe LogCompaction (n\<lparr>n_disk := map_option (\<lambda>d. save_state (n_state n)
            (rewrite_log_records [snapshot_record l (entries l)] (save_snapshot sn d))) (n_disk n),
          n_snapshot := sn, n_log := l\<rparr>)"
      "res = Ok True"
proof -
  note wf = node_wf_data [OF assms(2)]
  note D = data_wfD [OF wf]
  show thesis
  proof (cases "base_index (n_log n) < commit_index (n_state n)")
    case False
    then have eq: "commit_index (n_state n) = base_index (n_log n)" using D(7) by simp
    then have "create_snapshot n = (n, Ok False)" using D(9) by (simp add: create_snapshot_def Let_def)
    then have "n' = n" "res = Ok False" using assms(1) by simp_all
    with eq show thesis by (rule nothing)
  next
    case True
    obtain trm l sn where c: "term_at (commit_index (n_state n)) (n_log n) = Some trm"
      "compact_through (commit_index (n_state n)) (n_log n) = Ok l"
      "raft_snapshot (commit_index (n_state n)) trm (n_store n) 1 = Ok sn"
      "data_wf (n_state n) sn l (n_store n)" "last_index l = last_index (n_log n)"
      "sn = \<lparr>last_included_index = commit_index (n_state n), last_included_term = trm,
             snapshot_state = n_store n, version = 1\<rparr>"
      by (rule compact_data_wf [OF wf True]) blast
    have save: "save_log l d = Ok (rewrite_log_records [snapshot_record l (entries l)] d)" for d
      using entries_from_first [of l] c(4) by (simp add: save_log_def data_wf_def)
    have "(n', res) = (observe LogCompaction (n\<lparr>n_disk := map_option (\<lambda>d. save_state (n_state n)
          (rewrite_log_records [snapshot_record l (entries l)] (save_snapshot sn d))) (n_disk n),
        n_snapshot := sn, n_log := l\<rparr>), Ok True)"
      using assms(1) True c(1-3) D(1,9)
      by (cases "n_disk n") (simp_all add: create_snapshot_def Let_def kv_snapshot_def save
            persist_state_def observe_def)
    then show thesis using compacted [OF True c(1,2,6,4,5)] by simp
  qed
qed

lemma create_snapshot_keeps:
  assumes "create_snapshot n = (n', res)" "node_wf n" "node_durable n"
  shows "node_wf n' \<and> node_durable n' \<and> is_ok res"
  using assms(1,2)
proof (cases rule: create_snapshot_cases)
  case nothing
  then show ?thesis using assms by simp
next
  case (compacted trm sn l)
  have wf: "node_wf n'"
    using assms(2) compacted(5) by (simp add: compacted(7) node_timer_keeps) (simp add: node_wf_def)
  moreover have "node_durable n'"
  proof -
    define m where "m = n\<lparr>n_disk := map_option (\<lambda>d. rewrite_log_records [snapshot_record l (entries l)]
        (save_snapshot sn d)) (n_disk n), n_snapshot := sn, n_log := l\<rparr>"
    have "node_durable (persist_state m)"
    proof (rule node_durable_persist)
      fix d' assume "n_disk m = Some d'"
      then obtain d where d': "d' = rewrite_log_records [snapshot_record l (entries l)] (save_snapshot sn d)"
        by (auto simp: m_def)
      have "journal_replays l d'"
        using load_snapshot_record [OF data_wfD(1) [OF compacted(5)], of empty_log]
        by (simp add: d' journal_replays_def rewrite_log_records_def)
      moreover have "load_snapshot d' = load_snapshot (save_snapshot sn d)"
        by (rule load_snapshot_cong) (simp add: d')
      ultimately show "durable_log m d'"
        using data_wfD(4) [OF compacted(5)] by (simp add: durable_log_def m_def)
    qed
    moreover have "persist_state m = n\<lparr>n_disk := map_option (\<lambda>d. save_state (n_state n)
          (rewrite_log_records [snapshot_record l (entries l)] (save_snapshot sn d))) (n_disk n),
        n_snapshot := sn, n_log := l\<rparr>"
      by (cases "n_disk n") (simp_all add: persist_state_def m_def)
    ultimately show ?thesis by (simp add: compacted(7) node_timer_keeps)
  qed
  ultimately show ?thesis using compacted(8) by simp
qed

section \<open>Restarting\<close>

text \<open>The node that construction gives, from what the files held.\<close>

definition recovered ::
  "clock \<Rightarrow> string list \<Rightarrow> raft_state \<Rightarrow> raft_snapshot \<Rightarrow> raft_log \<Rightarrow> kv_store \<Rightarrow> disk option \<Rightarrow> raft_node" where
  "recovered c members s sn l store dsk =
     \<lparr>n_id = node_id s, n_members = members, n_state = s\<lparr>role := FOLLOWER, leader_id := None\<rparr>,
      n_snapshot = sn, n_log = l, n_store = store, n_timer = default_timer c,
      n_election = \<lparr>tracker_members = members, votes_received = [], active = False\<rparr>,
      n_replication = None, n_disk = dsk, read_lease_duration = 1 / 2,
      last_read_quorum_term = None, last_read_quorum_time = None, transfer_in_progress = False,
      n_observer = None\<rparr>"

lemma recovered_wf:
  assumes "data_wf s sn l store" "node_id s \<in> set members" "distinct members" "0 \<le> current_term s"
  shows "node_wf (recovered c members s sn l store dsk)"
  using assms by (auto simp: node_wf_def recovered_def wf_tracker_def intro: data_wf_cong)

lemma node_init_recovered:
  assumes load: "load_files nid d = (d', Ok (s0, sn, l))" and "nid \<in> set members"
    and s0: "s0 = (raft_state_default nid)\<lparr>current_term := t, voted_for := v, commit_index := ci\<rparr>"
    and data: "data_wf s sn l store" and s: "node_id s = nid" "current_term s = t" "voted_for s = v"
      "commit_index s = max ci (base_index l)"
  shows "node_init c nid members (Some d) =
    (Some (if ci < base_index l then save_state s d' else d'),
     Ok (recovered c members s sn l store (Some (if ci < base_index l then save_state s d' else d'))))"
proof -
  note D = data_wfD [OF data]
  define s1 where "s1 = s0\<lparr>commit_index := commit_index s, last_applied := base_index l\<rparr>"
  have app: "apply_committed_entries l s1 (snapshot_state sn) = ((s1\<lparr>last_applied := commit_index s1\<rparr>, store), Ok ())"
    using apply_committed_reference [OF D(1,3), of s1 "snapshot_state sn"] D(7,8,10) by (simp add: s1_def)
  have app': "(if base_index l < commit_index s1 then apply_committed_entries l s1 (snapshot_state sn)
      else ((s1, snapshot_state sn), Ok ())) = ((s1\<lparr>last_applied := commit_index s1\<rparr>, store), Ok ())"
    using app apply_committed_noop [of s1 l "snapshot_state sn"] D(7) by (auto simp: s1_def)
  have s2: "s1\<lparr>last_applied := commit_index s1\<rparr>\<lparr>role := FOLLOWER, leader_id := None\<rparr> =
      s\<lparr>role := FOLLOWER, leader_id := None\<rparr>"
    using s D(9) by (cases s) (simp add: s1_def s0 raft_state_default_def)
  have track: "tracker_init (s\<lparr>role := FOLLOWER, leader_id := None\<rparr>) members =
      Ok \<lparr>tracker_members = members, votes_received = [], active = False\<rparr>"
    using assms(2) s(1) by (auto simp: tracker_init_def)
  have behind: "ci < last_included_index sn \<longleftrightarrow> ci < base_index l" using D(5) by simp
  have ci: "(if ci < base_index l then s0\<lparr>commit_index := base_index l\<rparr> else s0)\<lparr>last_applied := base_index l\<rparr> = s1"
    using s(4) by (simp add: s1_def s0 raft_state_default_def max_def)
  have save: "save_state (s0\<lparr>commit_index := base_index l\<rparr>) d' = save_state s d'" if "ci < base_index l"
    using that s by (simp add: save_state_def state_to_json_def s0 raft_state_default_def)
  have top: "\<not> last_index l < commit_index (if ci < base_index l then s0\<lparr>commit_index := base_index l\<rparr> else s0)"
    using D(8) s(4) by (auto simp: s0)
  have last: "last_applied s1 = base_index l" by (simp add: s1_def)
  have c0: "commit_index s0 = ci" by (simp add: s0)
  have "node_init c nid members (Some d) =
    (Some (if ci < base_index l then save_state s d' else d'),
     Ok \<lparr>n_id = nid, n_members = members, n_state = s\<lparr>role := FOLLOWER, leader_id := None\<rparr>,
      n_snapshot = sn, n_log = l, n_store = store, n_timer = default_timer c,
      n_election = \<lparr>tracker_members = members, votes_received = [], active = False\<rparr>,
      n_replication = None, n_disk = Some (if ci < base_index l then save_state s d' else d'),
      read_lease_duration = 1 / 2,
      last_read_quorum_term = None, last_read_quorum_time = None, transfer_in_progress = False,
      n_observer = None\<rparr>)"
    using assms(2)
    by (simp only: node_init_def load Let_def prod.case sum.case option.case if_False not_not
          kv_restore_def c0 D(5) top ci last app' s2 track option.map if_distrib [of Some] simp_thms)
       (simp add: save)
  then show ?thesis using s(1) by (simp add: recovered_def)
qed

text \<open>Files that hold the node's own snapshot and log, and files with a later snapshot.\<close>

lemma load_files_same:
  assumes "load_state nid d = Ok s0" "load_snapshot d = Ok sn" "journal_replays l d"
    "last_included_index sn = base_index l" "last_included_term sn = base_term l"
  shows "load_files nid d = (d, Ok (s0, sn, l))"
  using assms by (simp add: load_files_def load_log_replays)

lemma load_files_behind:
  assumes "load_state nid d = Ok s0" "load_snapshot d = Ok sn" "journal_replays l d"
    "install_snapshot_boundary (last_included_index sn) (last_included_term sn) l = Ok l'"
    "base_index l < last_included_index sn" "wf_log l'"
  shows "load_files nid d = (rewrite_log_records [snapshot_record l' (entries l')] d, Ok (s0, sn, l'))"
  using assms entries_from_first [of l']
  by (simp add: load_files_def load_log_replays save_log_def)

lemma restart_durable:
  assumes wf: "node_wf n" and durable: "node_durable n" and d: "n_disk n = Some d"
  shows "node_init c (n_id n) (n_members n) (Some d) =
    (Some d, Ok (recovered c (n_members n) (n_state n) (n_snapshot n) (n_log n) (n_store n) (Some d)))"
proof -
  note D = data_wfD [OF node_wf_data [OF wf]]
  have ds: "durable_state n d" "durable_log n d" using durable d by (simp_all add: node_durable_def)
  have load: "load_files (n_id n) d = (d, Ok ((raft_state_default (n_id n))\<lparr>current_term := current_term (n_state n),
      voted_for := voted_for (n_state n), commit_index := commit_index (n_state n)\<rparr>, n_snapshot n, n_log n))"
    using ds D(5,6) by (intro load_files_same) (simp_all add: durable_state_def durable_log_def)
  have "n_id n \<in> set (n_members n)" "node_id (n_state n) = n_id n" using wf by (simp_all add: node_wf_def)
  from node_init_recovered [OF load this(1) refl node_wf_data [OF wf] this(2) refl refl, of c] D(7)
  show ?thesis by simp
qed

section \<open>Crashes between the writes of one operation\<close>

lemma install_matching_boundary:
  assumes "wf_log l" "base_index l < i" "term_at i l = Some t"
  shows "install_snapshot_boundary i t l = compact_through i l"
  using assms by (simp add: install_snapshot_boundary_def compact_through_def)

text \<open>
  A later snapshot is on disk and the journal may or may not have been rewritten; the state file
  is the old one. A restart completes the operation, with the old term and vote.
\<close>

lemma restart_after_snapshot:
  assumes wf: "node_wf n" and durable: "durable_state n d" "durable_log n d"
    and sn: "wf_snapshot sn" and l': "install_snapshot_boundary (last_included_index sn) (last_included_term sn)
        (n_log n) = Ok l'"
    and data: "data_wf s sn l' store" and s: "node_id s = n_id n" "current_term s = current_term (n_state n)"
      "voted_for s = voted_for (n_state n)" "commit_index s = max (commit_index (n_state n)) (last_included_index sn)"
    and d': "d' = save_snapshot sn d \<or> d' = rewrite_log_records [snapshot_record l' (entries l')] (save_snapshot sn d)"
  shows "\<exists>d''. node_init c (n_id n) (n_members n) (Some d') =
    (Some d'', Ok (recovered c (n_members n) s sn l' store (Some d'')))"
proof -
  let ?s0 = "(raft_state_default (n_id n))\<lparr>current_term := current_term (n_state n),
      voted_for := voted_for (n_state n), commit_index := commit_index (n_state n)\<rparr>"
  note D = data_wfD [OF data]
  have state: "load_state (n_id n) d' = Ok ?s0"
  proof -
    have "state_file d' = state_file d" using d' by auto
    then show ?thesis using durable(1) load_state_cong unfolding durable_state_def by metis
  qed
  have snap: "load_snapshot d' = Ok sn"
  proof -
    have "snapshot_file d' = snapshot_file (save_snapshot sn d)" using d' by auto
    then show ?thesis using load_snapshot_cong load_save_snapshot [OF sn] by metis
  qed
  have base: "base_index (n_log n) \<le> last_included_index sn"
    using install_snapshot_boundary_OkD [OF l'] by auto
  have "\<exists>d1. load_files (n_id n) d' = (d1, Ok (?s0, sn, l'))"
  proof (cases "journal_replays l' d'")
    case True
    then show ?thesis using load_files_same [OF state snap True] D(5,6) by blast
  next
    case False
    have "journal_replays l' (rewrite_log_records [snapshot_record l' (entries l')] (save_snapshot sn d))"
      using load_snapshot_record [OF D(1), of empty_log] by (simp add: journal_replays_def rewrite_log_records_def)
    then have "d' = save_snapshot sn d" using d' False by auto
    then have replays: "journal_replays (n_log n) d'"
      using durable(2) by (simp add: durable_log_def journal_replays_def)
    then have "n_log n \<noteq> l'" using False by auto
    then have "base_index (n_log n) < last_included_index sn"
      using install_snapshot_boundary_OkD [OF l'] base by auto
    then show ?thesis using load_files_behind [OF state snap replays l' _ D(1)] by blast
  qed
  then obtain d1 where load: "load_files (n_id n) d' = (d1, Ok (?s0, sn, l'))" ..
  have "n_id n \<in> set (n_members n)" using wf by (simp add: node_wf_def)
  from node_init_recovered [OF load this refl data s(1-3), of c] s(4) D(5)
  show ?thesis by auto
qed

lemma create_snapshot_crash:
  assumes wf: "node_wf n" "node_durable n" "n_disk n = Some d"
    and step: "create_snapshot n = (n', Ok True)"
    and d': "d' \<in> {d, save_snapshot (n_snapshot n') d,
               rewrite_log_records [snapshot_record (n_log n') (entries (n_log n'))] (save_snapshot (n_snapshot n') d)}"
  shows "\<exists>d'' m. node_init c (n_id n) (n_members n) (Some d') = (Some d'', Ok m) \<and> node_wf m \<and>
    durable_fields (n_state m) = durable_fields (n_state n) \<and> n_store m = n_store n \<and>
    (\<forall>i > commit_index (n_state n). log_get i (n_log m) = log_get i (n_log n)) \<and>
    last_index (n_log m) = last_index (n_log n)"
proof -
  have ids: "node_id (n_state n) = n_id n" "n_id n \<in> set (n_members n)" "distinct (n_members n)"
      "0 \<le> current_term (n_state n)"
    using wf(1) by (simp_all add: node_wf_def)
  note D = data_wfD [OF node_wf_data [OF wf(1)]]
  have durable: "durable_state n d" "durable_log n d" using wf(2,3) by (simp_all add: node_durable_def)
  show ?thesis
  proof (cases "d' = d")
    case True
    then show ?thesis
      using restart_durable [OF wf, of c] recovered_wf [OF node_wf_data [OF wf(1)]] ids
      by (simp add: recovered_def durable_fields_def)
  next
    case new: False
    from step wf(1) show ?thesis
    proof (cases rule: create_snapshot_cases)
      case nothing
      then show ?thesis by simp
    next
      case (compacted trm sn l)
      have sn: "n_snapshot n' = sn" "n_log n' = l"
        unfolding compacted(7) by (simp_all add: observe_def)
      have l: "install_snapshot_boundary (last_included_index sn) (last_included_term sn) (n_log n) = Ok l"
        using install_matching_boundary [OF D(1) compacted(1,2)] compacted(3,4) by simp
      have c: "commit_index (n_state n) = max (commit_index (n_state n)) (last_included_index sn)"
        by (simp add: compacted(4))
      have d1: "d' = save_snapshot sn d \<or> d' = rewrite_log_records [snapshot_record l (entries l)] (save_snapshot sn d)"
        using d' new sn by auto
      obtain d'' where "node_init c (n_id n) (n_members n) (Some d') =
          (Some d'', Ok (recovered c (n_members n) (n_state n) sn l (n_store n) (Some d'')))"
        using restart_after_snapshot [OF wf(1) durable data_wfD(4) [OF compacted(5)] l compacted(5) ids(1) refl refl c d1]
        by blast
      moreover have "node_wf (recovered c (n_members n) (n_state n) sn l (n_store n) (Some d''))"
        using compacted(5) ids by (intro recovered_wf) simp_all
      moreover have "log_get i l = log_get i (n_log n)" if "commit_index (n_state n) < i" for i
        using compact_through_get(1) [OF D(1,2) compacted(3)] that by simp
      ultimately show ?thesis using compacted(6) by (simp add: recovered_def durable_fields_def)
    qed
  qed
qed

lemma install_snapshot_crash:
  assumes wf: "node_wf n" "node_durable n" "n_disk n = Some d" "wf_install_request req"
    and step: "node_install_snapshot c0 req n = (n', Ok r)" "isr_success r"
      "last_included_index (n_snapshot n) \<le> is_last_included_index req"
    and d': "d' \<in> {save_snapshot (n_snapshot n') d,
               rewrite_log_records [snapshot_record (n_log n') (entries (n_log n'))] (save_snapshot (n_snapshot n') d)}"
  shows "\<exists>d'' m. node_init c (n_id n) (n_members n) (Some d') = (Some d'', Ok m) \<and> node_wf m \<and>
    current_term (n_state m) = current_term (n_state n) \<and> voted_for (n_state m) = voted_for (n_state n) \<and>
    commit_index (n_state m) = commit_index (n_state n') \<and> n_snapshot m = n_snapshot n' \<and>
    n_log m = n_log n' \<and> n_store m = n_store n'"
proof -
  have ids: "node_id (n_state n) = n_id n" "n_id n \<in> set (n_members n)" "distinct (n_members n)"
      "0 \<le> current_term (n_state n)"
    using wf(1) by (simp_all add: node_wf_def)
  have durable: "durable_state n d" "durable_log n d" using wf(2,3) by (simp_all add: node_durable_def)
  from step(1) wf(1,4) show ?thesis
  proof (cases rule: node_install_snapshot_cases)
    case stale
    then show ?thesis using step(2) by simp
  next
    case (unchanged s m)
    then show ?thesis using step(2,3) by simp
  next
    case (installed s sn l s' store dsk)
    note B = become_follower_OkD [OF installed(1)]
    note S = raft_snapshot_OkD [OF installed(2)]
    define t where "t = (n_state n)\<lparr>commit_index := commit_index s', last_applied := commit_index s'\<rparr>"
    have n': "n_snapshot n' = sn" "n_log n' = l" "n_store n' = store" "n_state n' = s'"
      unfolding installed(9) by (simp_all add: observe_def Let_def)
    have data: "data_wf t sn l store"
      by (rule data_wf_cong [OF installed(6)]) (simp_all add: t_def installed(5))
    have l: "install_snapshot_boundary (last_included_index sn) (last_included_term sn) (n_log n) = Ok l"
      using installed(3) S by simp
    have t: "node_id t = n_id n" "current_term t = current_term (n_state n)" "voted_for t = voted_for (n_state n)"
        "commit_index t = max (commit_index (n_state n)) (last_included_index sn)"
      using S B by (simp_all add: t_def ids(1) installed(5))
    have d1: "d' = save_snapshot sn d \<or> d' = rewrite_log_records [snapshot_record l (entries l)] (save_snapshot sn d)"
      using d' n' by auto
    obtain d'' where "node_init c (n_id n) (n_members n) (Some d') =
        (Some d'', Ok (recovered c (n_members n) t sn l store (Some d'')))"
      using restart_after_snapshot [OF wf(1) durable data_wfD(4) [OF data] l data t d1] by blast
    moreover have "node_wf (recovered c (n_members n) t sn l store (Some d''))"
      using data ids t by (intro recovered_wf) simp_all
    ultimately show ?thesis using n' by (simp add: recovered_def t_def)
  qed
qed

end
