(* ===== verification/OutboundInvariant.thy ===== *)
theory OutboundInvariant
  imports Outbound NodeHandlers
begin

text \<open>
  Every critical section of the outbound operations keeps the node's invariants, and so do the
  operations composed of them, whatever happens to the node between the sections as long as
  that keeps the invariants too.
\<close>

section \<open>Sections\<close>

definition node_ok :: "raft_node \<Rightarrow> bool" where
  "node_ok n = (node_wf n \<and> node_durable n)"

definition env_ok :: "node_env \<Rightarrow> bool" where
  "env_ok env = (\<forall>n fs. node_ok n \<longrightarrow> node_ok (fst (env (n, fs))))"

lemma env_okD: "env_ok env \<Longrightarrow> node_ok (fst nf) \<Longrightarrow> node_ok (fst (env nf))"
  by (cases nf) (simp add: env_ok_def)

lemma env_ok_id [simp]: "env_ok (\<lambda>nf. nf)"
  by (simp add: env_ok_def)

text \<open>The handlers of inbound messages are such interference.\<close>

lemma handlers_ok:
  "node_ok n \<Longrightarrow> node_ok (fst (node_request_vote c q n))"
  "node_ok n \<Longrightarrow> wf_append_request a \<Longrightarrow> agrees_committed a (n_state n) (n_log n) \<Longrightarrow>
   node_ok (fst (node_append_entries c a n))"
  "node_ok n \<Longrightarrow> wf_install_request i \<Longrightarrow> node_ok (fst (node_install_snapshot c i n))"
  "node_ok n \<Longrightarrow> node_ok (fst (node_timeout_now t n))"
  "node_ok n \<Longrightarrow> node_ok (fst (create_snapshot n))"
  using node_request_vote_keeps [of c q n] node_append_entries_keeps [of c a n]
    node_install_snapshot_keeps [of c i n] node_timeout_now_keeps [of t n] create_snapshot_keeps [of n]
  unfolding node_ok_def by (metis prod.exhaust_sel)+

lemma node_ok_same:
  assumes "node_ok n" "n_id n' = n_id n" "n_members n' = n_members n" "n_snapshot n' = n_snapshot n"
    "n_log n' = n_log n" "n_store n' = n_store n" "n_election n' = n_election n"
    "n_replication n' = n_replication n \<or> n_replication n' = None" "n_disk n' = n_disk n"
    "n_state n' = n_state n"
  shows "node_ok n'"
proof -
  have "role (n_state n) \<noteq> FOLLOWER \<Longrightarrow> voted_for (n_state n) = Some (n_id n)"
    using assms(1) by (simp add: node_ok_def node_wf_def)
  then have "node_wf n'" using assms by (intro node_wf_state [of n n']) (simp_all add: node_ok_def)
  moreover have "node_durable n'" using assms by (intro node_durable_cong [of n n']) (simp_all add: node_ok_def)
  ultimately show ?thesis by (simp add: node_ok_def)
qed

lemma node_ok_observe [simp]: "node_ok (observe ev n) = node_ok n"
  by (simp add: node_ok_def node_timer_keeps)

lemma node_ok_timer [simp]: "node_ok (n\<lparr>n_timer := t\<rparr>) = node_ok n"
  by (simp add: node_ok_def node_timer_keeps)

lemma node_ok_lease [simp]:
  "node_ok (n\<lparr>last_read_quorum_term := a, last_read_quorum_time := b\<rparr>) = node_ok n"
  "node_ok (n\<lparr>transfer_in_progress := c\<rparr>) = node_ok n"
  by (simp_all add: node_ok_def node_wf_def node_durable_def durable_state_def durable_log_def)

lemma node_ok_no_replication: "node_ok n \<Longrightarrow> node_ok (n\<lparr>n_replication := None\<rparr>)"
  by (rule node_ok_same) simp_all

text \<open>A section may also set the state, with its vote and term recorded, and the tally.\<close>

lemma node_ok_state:
  assumes ok: "node_ok n"
    and same: "n_id m = n_id n" "n_members m = n_members n" "n_snapshot m = n_snapshot n"
      "n_log m = n_log n" "n_store m = n_store n" "n_disk m = n_disk n"
      "n_replication m = n_replication n \<or> n_replication m = None"
    and s: "node_id (n_state m) = node_id (n_state n)" "commit_index (n_state m) = commit_index (n_state n)"
      "last_applied (n_state m) = last_applied (n_state n)"
      "current_term (n_state n) \<le> current_term (n_state m)"
      "role (n_state m) \<noteq> FOLLOWER \<Longrightarrow> voted_for (n_state m) = Some (n_id n)"
    and t: "wf_tracker (n_election m) (n_state m)" "tracker_members (n_election m) = n_members n"
  shows "durable_fields (n_state m) = durable_fields (n_state n) \<Longrightarrow> node_ok m"
    "node_ok (persist_state m)"
proof -
  have wf: "node_wf n" "node_durable n" using ok by (simp_all add: node_ok_def)
  have data: "data_wf (n_state m) (n_snapshot m) (n_log m) (n_store m)"
    using data_wf_cong [OF node_wf_data [OF wf(1)]] same s by simp
  have repl: "wf_replication r (n_state m) \<and> repl_members r = n_members m" if "n_replication m = Some r" for r
  proof -
    have "n_replication n = Some r" using same(7) that by auto
    then show ?thesis using wf(1) s(1) same(2) wf_replication_cong unfolding node_wf_def by metis
  qed
  have m: "node_wf m" using wf(1) data same(1,2) s(1,4,5) t repl by (simp add: node_wf_def)
  show "node_ok m" if "durable_fields (n_state m) = durable_fields (n_state n)"
    using m node_durable_cong [OF wf(2), of m] same that by (simp add: node_ok_def)
  have "node_durable (persist_state m)"
    using wf(2) same by (intro node_durable_persist) (simp add: node_durable_def durable_log_def)
  then show "node_ok (persist_state m)" using m by (simp add: node_ok_def)
qed

section \<open>Elections\<close>

lemma initialize_cases:
  assumes "node_ok n"
  obtains (follower) "role (n_state n) \<noteq> LEADER"
      "initialize_leader_replication n = (n\<lparr>n_replication := None\<rparr>, Ok ())"
    | (leader) r where "role (n_state n) = LEADER" "wf_replication r (n_state n)" "repl_members r = n_members n"
      "initialize_leader_replication n = (n\<lparr>n_replication := Some r\<rparr>, Ok ())"
proof (cases "role (n_state n) = LEADER")
  case False
  then show thesis by (intro follower) (simp_all add: initialize_leader_replication_def)
next
  case True
  have wf: "node_wf n" using assms by (simp add: node_ok_def)
  show thesis
  proof (cases "n_replication n")
    case (Some r)
    have "wf_replication r (n_state n)" "repl_members r = n_members n"
      using wf Some by (simp_all add: node_wf_def)
    moreover have "n\<lparr>n_replication := Some r\<rparr> = n" using Some by (cases n) simp
    ultimately show thesis
      by (intro leader [OF True, of r]) (simp_all add: initialize_leader_replication_def True Some)
  next
    case None
    have mem: "node_id (n_state n) \<in> set (n_members n)" "distinct (n_members n)" using wf by (simp_all add: node_wf_def)
    obtain r where r: "leader_replication_init (n_state n) (n_log n) (n_members n) = Ok r" "repl_members r = n_members n"
      using True mem by (simp add: leader_replication_init_def Let_def)
    then have "wf_replication r (n_state n)" using mem node_wf_log [OF wf] leader_replication_init_wf by blast
    then show thesis using True None r by (intro leader) (simp_all add: initialize_leader_replication_def)
  qed
qed

lemma node_ok_replication:
  "node_ok n \<Longrightarrow> wf_replication r (n_state n) \<Longrightarrow> repl_members r = n_members n \<Longrightarrow>
   node_ok (n\<lparr>n_replication := Some r\<rparr>)"
  by (auto simp: node_ok_def node_wf_def node_durable_def durable_state_def durable_log_def)

lemma initialize_ok:
  assumes "initialize_leader_replication n = (n', res)" "node_ok n"
  shows "node_ok n'" "res = Ok ()" "n_state n' = n_state n" "n_log n' = n_log n" "n_store n' = n_store n"
    "role (n_state n) = LEADER \<Longrightarrow> n_replication n' \<noteq> None"
  using assms(2)
  by (rule initialize_cases;
      use assms in \<open>auto intro: node_ok_no_replication node_ok_replication\<close>)+

lemma tracker_start_Ok: "\<exists>t' s' b. tracker_start t s = ((t', s'), Ok b)"
  by (auto simp: tracker_start_cases Let_def)

lemma start_election_cases:
  assumes "start_election_if_needed c li lt t tm s = ((t', tm', s'), r)"
  obtains (idle) "t' = t" "tm' = tm" "s' = s" "r = Ok []"
    | (started) b where "tracker_start t s = ((t', s'), Ok b)" "tm' = timer_reset c tm" "is_ok r"
      "role s' = LEADER \<Longrightarrow> r = Ok []"
proof (cases "timer_expired c tm")
  case False
  then show thesis using assms by (intro idle) (auto simp: start_election_if_needed_def)
next
  case True
  obtain t1 s1 b where start: "tracker_start t s = ((t1, s1), Ok b)"
    using tracker_start_Ok by blast
  show thesis
    using assms True start
    by (intro started [of b]) (auto simp: start_election_if_needed_def Let_def split: if_splits)
qed

lemma tracker_start_state:
  assumes "tracker_start t s = ((t', s'), r)"
  shows "node_id s' = node_id s" "commit_index s' = commit_index s" "last_applied s' = last_applied s"
    "current_term s' = current_term s + 1" "voted_for s' = Some (node_id s)" "role s' \<noteq> FOLLOWER"
    "tracker_members t' = tracker_members t"
  using assms by (auto simp: tracker_start_cases Let_def split: if_splits)

lemma start_election_state:
  assumes e: "start_election_if_needed c li lt t tm s = ((t', tm', s'), r)" and wf: "wf_tracker t s"
    and "role s \<noteq> FOLLOWER \<Longrightarrow> voted_for s = Some (node_id s)"
  shows "node_id s' = node_id s" "commit_index s' = commit_index s" "last_applied s' = last_applied s"
    "current_term s \<le> current_term s'" "role s' \<noteq> FOLLOWER \<Longrightarrow> voted_for s' = Some (node_id s)"
    "wf_tracker t' s'" "tracker_members t' = tracker_members t" "is_ok r"
proof -
  from e have "node_id s' = node_id s \<and> commit_index s' = commit_index s \<and> last_applied s' = last_applied s \<and>
    current_term s \<le> current_term s' \<and> (role s' \<noteq> FOLLOWER \<longrightarrow> voted_for s' = Some (node_id s)) \<and>
    wf_tracker t' s' \<and> tracker_members t' = tracker_members t \<and> is_ok r"
  proof (cases rule: start_election_cases)
    case idle
    then show ?thesis using assms(2,3) by simp
  next
    case (started b)
    then show ?thesis using tracker_start_state [OF started(1)] tracker_start_wf [OF started(1) wf] by simp
  qed
  then show "node_id s' = node_id s" "commit_index s' = commit_index s" "last_applied s' = last_applied s"
    "current_term s \<le> current_term s'" "role s' \<noteq> FOLLOWER \<Longrightarrow> voted_for s' = Some (node_id s)"
    "wf_tracker t' s'" "tracker_members t' = tracker_members t" "is_ok r" by simp_all
qed

lemma tick_begin_ok:
  assumes step: "tick_begin c n = (n', res)" and ok: "node_ok n"
  shows "node_ok n' \<and> is_ok res"
proof -
  let ?s = "n_state n"
  have wf: "node_wf n" using ok by (simp add: node_ok_def)
  have W: "node_id ?s = n_id n" "wf_tracker (n_election n) ?s" "tracker_members (n_election n) = n_members n"
      "role ?s \<noteq> FOLLOWER \<Longrightarrow> voted_for ?s = Some (n_id n)"
    using wf by (simp_all add: node_wf_def)
  obtain t tm s r where e: "start_election_if_needed c (last_index (n_log n)) (last_term (n_log n)) (n_election n)
             (n_timer n) ?s = ((t, tm, s), r)"
    by (metis prod.exhaust)
  define k where "k = (if current_term s \<noteq> current_term ?s \<and> voted_for s = Some (n_id n)
      then observe ElectionAttempt (n\<lparr>n_election := t, n_timer := tm, n_state := s\<rparr>)
      else n\<lparr>n_election := t, n_timer := tm, n_state := s\<rparr>)"
  define m where "m = (if current_term s \<noteq> current_term ?s \<or> voted_for s \<noteq> voted_for ?s then persist_state k else k)"
  have "role ?s \<noteq> FOLLOWER \<Longrightarrow> voted_for ?s = Some (node_id ?s)" using W by simp
  note S = start_election_state [OF e W(2) this]
  have k: "n_id k = n_id n" "n_members k = n_members n" "n_snapshot k = n_snapshot n"
      "n_log k = n_log n" "n_store k = n_store n" "n_disk k = n_disk n" "n_replication k = n_replication n"
      "n_state k = s" "n_election k = t"
    by (simp_all add: k_def)
  have m: "node_ok m"
    using node_ok_state [OF ok, of k] k S W(1-3) by (auto simp: m_def durable_fields_def)
  obtain requests where r: "r = Ok requests" using S(8) by (auto simp: is_ok_iff)
  have eq: "tick_begin c n = (if role s = LEADER then
      (case initialize_leader_replication m of (n, Inl e) \<Rightarrow> (n, Err e)
        | (n, Inr _) \<Rightarrow> (if role ?s \<noteq> LEADER then observe LeadershipChange n else n, Ok []))
      else (m, Ok requests))"
    unfolding tick_begin_def e prod.case r Let_def sum.case m_def k_def by simp
  obtain n1 r1 where i: "initialize_leader_replication m = (n1, r1)" by fastforce
  show ?thesis
    using step initialize_ok [OF i m] m unfolding eq i by (auto split: if_splits)
qed

lemma record_vote_state:
  assumes "record_vote voter r t s = ((t', s'), res)" "wf_tracker t s" "role s = CANDIDATE"
  shows "node_id s' = node_id s \<and> commit_index s' = commit_index s \<and> last_applied s' = last_applied s \<and>
    current_term s \<le> current_term s' \<and> (role s' \<noteq> FOLLOWER \<longrightarrow> voted_for s' = voted_for s) \<and>
    wf_tracker t' s' \<and> tracker_members t' = tracker_members t \<and> is_ok res"
proof -
  have wf: "wf_tracker t' s'" by (rule record_vote_wf [OF assms(1,2)])
  from assms(1) show ?thesis
    by (cases rule: record_vote_cases) (use assms(3) wf in \<open>auto dest: become_follower_OkD\<close>)
qed

lemma tick_response_ok:
  assumes step: "tick_response peer request outcome n = (n', res)" and ok: "node_ok n"
  shows "node_ok n'"
proof -
  let ?s = "n_state n"
  have W: "node_id ?s = n_id n" "wf_tracker (n_election n) ?s" "tracker_members (n_election n) = n_members n"
      "role ?s \<noteq> FOLLOWER \<Longrightarrow> voted_for ?s = Some (n_id n)"
    using ok by (simp_all add: node_ok_def node_wf_def)
  show ?thesis
  proof (cases "\<exists>a. outcome = Ok a \<and> role ?s = CANDIDATE \<and> current_term ?s = rv_term request")
    case False
    then have "n' = n"
      using step by (cases outcome) (auto simp: tick_response_def Let_def split: if_splits)
    then show ?thesis using ok by simp
  next
    case True
    then obtain a where a: "outcome = Ok a" "role ?s = CANDIDATE" "current_term ?s = rv_term request" by blast
    obtain t s r where v: "record_vote peer a (n_election n) ?s = ((t, s), r)" by (metis prod.exhaust)
    note S = record_vote_state [OF v W(2) a(2)]
    define k where "k = n\<lparr>n_election := t, n_state := s\<rparr>"
    define m where "m = (if current_term s \<noteq> current_term ?s \<or> voted_for s \<noteq> voted_for ?s then persist_state k else k)"
    have k: "n_id k = n_id n" "n_members k = n_members n" "n_snapshot k = n_snapshot n"
        "n_log k = n_log n" "n_store k = n_store n" "n_disk k = n_disk n" "n_replication k = n_replication n"
        "n_state k = s" "n_election k = t"
      by (simp_all add: k_def)
    have m: "node_ok m"
      using node_ok_state [OF ok, of k] k S W a(2) by (auto simp: m_def durable_fields_def)
    obtain x where r: "r = Ok x" using S by (auto simp: is_ok_iff)
    have eq: "tick_response peer request outcome n = (if role s = LEADER then
        (case initialize_leader_replication m of (n, Inl e) \<Rightarrow> (n, Err e)
          | (n, Inr _) \<Rightarrow> (observe LeadershipChange n, Ok (Some LEADER)))
        else if role s = FOLLOWER then (m\<lparr>n_replication := None\<rparr>, Ok (Some FOLLOWER)) else (m, Ok None))"
      unfolding tick_response_def v prod.case r Let_def sum.case m_def k_def a(1) using a by simp
    obtain n1 r1 where i: "initialize_leader_replication m = (n1, r1)" by fastforce
    show ?thesis
      using step initialize_ok [OF i m] m node_ok_no_replication [OF m] unfolding eq i by (auto split: if_splits)
  qed
qed

definition completion_ok :: "vote_completion \<Rightarrow> bool" where
  "completion_ok x = (\<forall>n. node_ok n \<longrightarrow> node_ok (fst x n))"

lemma tick_votes_ok:
  "tick_votes completions n = (n', res) \<Longrightarrow> node_ok n \<Longrightarrow> list_all completion_ok completions \<Longrightarrow> node_ok n'"
proof (induction completions n arbitrary: n' res rule: tick_votes.induct)
  case (1 n)
  then show ?case by simp
next
  case (2 env peer request outcome rest n)
  define m where "m = observe (Rpc ''request_vote'' (is_ok outcome)) (env n)"
  have m: "node_ok m" using "2.prems" by (simp add: m_def completion_ok_def)
  obtain m' r where r: "tick_response peer request outcome m = (m', r)" by fastforce
  have m': "node_ok m'" by (rule tick_response_ok [OF r m])
  have eq: "tick_votes ((env, peer, request, outcome) # rest) n = (case r of Inl e \<Rightarrow> (m', Err e)
      | Inr None \<Rightarrow> tick_votes rest m' | Inr (Some x) \<Rightarrow> (m', Ok x))"
    by (simp add: m_def [symmetric] Let_def r split: sum.splits option.splits)
  show ?case
    using "2.prems" m' "2.IH" [OF m_def r [symmetric]] unfolding eq
    by (auto split: sum.splits option.splits)
qed

lemma tick_ok:
  assumes "tick c network n = (n', res)" "node_ok n" "\<And>requests. list_all completion_ok (network requests)"
  shows "node_ok n'"
proof -
  obtain m r where b: "tick_begin c n = (m, r)" by fastforce
  have m: "node_ok m" "is_ok r" using tick_begin_ok [OF b assms(2)] by simp_all
  then show ?thesis using assms(1,3) tick_votes_ok [OF _ m(1)]
    by (auto simp: tick_def b split: sum.splits if_splits)
qed

section \<open>Replication\<close>

lemma step_down_ok:
  assumes "step_down trm n = (n', res)" "node_ok n"
  shows "node_ok n'" "res = Ok () \<Longrightarrow> current_term (n_state n') = trm \<and> role (n_state n') = FOLLOWER"
proof -
  have W: "wf_tracker (n_election n) (n_state n)" "tracker_members (n_election n) = n_members n"
    using assms(2) by (simp_all add: node_ok_def node_wf_def)
  have "node_ok n' \<and> (res = Ok () \<longrightarrow> current_term (n_state n') = trm \<and> role (n_state n') = FOLLOWER)"
  proof (cases "become_follower trm None (n_state n)")
    case (Inl e)
    then show ?thesis using assms by (auto simp: step_down_def)
  next
    case (Inr s)
    note B = become_follower_OkD [OF Inr]
    have "node_ok (persist_state (n\<lparr>n_state := s\<rparr>))"
      using B W wf_tracker_cong [OF W(1), of s]
      by (intro node_ok_state(2) [OF assms(2)]) simp_all
    then show ?thesis using assms(1) B Inr node_ok_no_replication by (auto simp: step_down_def)
  qed
  then show "node_ok n'" "res = Ok () \<Longrightarrow> current_term (n_state n') = trm \<and> role (n_state n') = FOLLOWER" by simp_all
qed

lemma worker_response_cases:
  assumes "worker_response f request rt success n = (n', res)"
  obtains (same) "n' = n"
    | (stepped) r where "step_down rt n = (n', r)" "current_term (n_state n) < rt"
    | (raised) r q i where "n_replication n = Some r" "raise_match f i r = Ok q" "success"
        "role (n_state n) = LEADER" "current_term (n_state n) = request_term request"
        "n' = n\<lparr>n_replication := Some q\<rparr>"
        "i = (case request of SnapshotRequest a \<Rightarrow> is_last_included_index a
              | AppendRequest a \<Rightarrow> if ae_entries a \<noteq> [] then entry_index (last (ae_entries a))
                                  else ae_prev_log_index a)"
    | (backed) r q where "n_replication n = Some r" "record_failure f r = Ok q" "\<not> success"
        "n' = n\<lparr>n_replication := Some q\<rparr>"
proof (cases "n_replication n")
  case None
  then show thesis using assms by (intro same) (auto simp: worker_response_def)
next
  case r: (Some r)
  show thesis
  proof (cases "role (n_state n) \<noteq> LEADER \<or> current_term (n_state n) \<noteq> request_term request")
    case True
    then show thesis using assms r by (intro same) (auto simp: worker_response_def)
  next
    case lead: False
    show thesis
    proof (cases "current_term (n_state n) < rt")
      case True
      obtain m x where "step_down rt n = (m, x)" by fastforce
      then show thesis using assms r lead True
        by (intro stepped [of x]) (auto simp: worker_response_def split: sum.splits)
    next
      case False
      note body = assms [unfolded worker_response_def, simplified r option.case lead False if_False]
      define i where "i = (case request of SnapshotRequest a \<Rightarrow> is_last_included_index a
          | AppendRequest a \<Rightarrow> if ae_entries a \<noteq> [] then entry_index (last (ae_entries a))
                              else ae_prev_log_index a)"
      show thesis
      proof (cases "\<exists>q. success \<and> raise_match f i r = Ok q \<or> \<not> success \<and> record_failure f r = Ok q")
        case False
        have "n' = n"
        proof (cases success)
          case True
          then obtain e where "raise_match f i r = Err e" using False by (cases "raise_match f i r") auto
          then show ?thesis using body True
            by (auto simp: i_def record_success_def record_snapshot_success_def split: worker_request.splits if_splits)
        next
          case fail: False
          then obtain e where "record_failure f r = Err e" using False by (cases "record_failure f r") auto
          then show ?thesis using body fail by (auto split: worker_request.splits)
        qed
        then show thesis by (rule same)
      next
        case True
        then obtain q where "success \<and> raise_match f i r = Ok q \<or> \<not> success \<and> record_failure f r = Ok q" ..
        then show thesis
        proof (elim disjE conjE)
          assume q: "success" "raise_match f i r = Ok q"
          have "n' = n\<lparr>n_replication := Some q\<rparr>"
            using body q
            by (auto simp: i_def record_success_def record_snapshot_success_def Let_def
                split: worker_request.splits if_splits sum.splits)
          then show thesis using q lead by (intro raised [OF r q(2) q(1) _ _ _ i_def]) simp_all
        next
          assume q: "\<not> success" "record_failure f r = Ok q"
          have "n' = n \<or> n' = n\<lparr>n_replication := Some q\<rparr>"
            using body q by (auto split: worker_request.splits)
          then show thesis using same backed [OF r q(2) q(1)] by blast
        qed
      qed
    qed
  qed
qed

lemma worker_response_ok:
  assumes "worker_response f request rt success n = (n', res)" "node_ok n"
  shows "node_ok n'"
  using assms(1)
proof (cases rule: worker_response_cases)
  case same
  then show ?thesis using assms(2) by simp
next
  case (stepped r)
  then show ?thesis using step_down_ok(1) assms(2) by blast
next
  case (raised r q i)
  have "wf_replication r (n_state n)" "repl_members r = n_members n"
    using assms(2) raised(1) by (simp_all add: node_ok_def node_wf_def)
  moreover have "repl_members q = repl_members r" using raised(2) unfolding raise_match_Ok_iff by auto
  ultimately show ?thesis
    using node_ok_replication [OF assms(2), of q] raise_match_wf [OF raised(2)] raised(6) by simp
next
  case (backed r q)
  have "wf_replication r (n_state n)" "repl_members r = n_members n"
    using assms(2) backed(1) by (simp_all add: node_ok_def node_wf_def)
  moreover have "repl_members q = repl_members r" using backed(2) unfolding record_failure_Ok_iff by auto
  ultimately show ?thesis
    using node_ok_replication [OF assms(2), of q] record_failure_wf [OF backed(2)] backed(4) by simp
qed

text \<open>A network whose calls keep the caller's invariants: what runs there are other operations.\<close>

definition network_ok :: "'w network \<Rightarrow> bool" where
  "network_ok net = (\<forall>f n w. node_ok n \<longrightarrow>
     (\<forall>q. node_ok (fst (fst (net_append net f q (n, w))))) \<and>
     (\<forall>q. node_ok (fst (fst (net_install net f q (n, w))))) \<and>
     (\<forall>q. node_ok (fst (fst (net_timeout net f q (n, w))))))"

lemma worker_send_ok:
  assumes "worker_send net f request (n, w) = ((n', w'), res)" "node_ok n" "network_ok net"
  shows "node_ok n'"
proof (cases request)
  case (SnapshotRequest q)
  obtain m w2 r where m: "net_install net f q (n, w) = ((m, w2), r)" by (metis prod.exhaust)
  have "node_ok m" using assms(2,3) m unfolding network_ok_def by (metis fst_conv)
  then show ?thesis using assms(1) m SnapshotRequest by (auto simp: worker_send_def)
next
  case (AppendRequest q)
  obtain m w2 r where m: "net_append net f q (n, w) = ((m, w2), r)" by (metis prod.exhaust)
  have "node_ok m" using assms(2,3) m unfolding network_ok_def by (metis fst_conv)
  then show ?thesis using assms(1) m AppendRequest by (auto simp: worker_send_def)
qed

lemma replicate_to_follower_ok:
  "replicate_to_follower fuel net f (n, w) = ((n', w'), res) \<Longrightarrow> node_ok n \<Longrightarrow> network_ok net \<Longrightarrow> node_ok n'"
proof (induction fuel arbitrary: n w)
  case 0
  then show ?case by simp
next
  case (Suc fuel)
  show ?case
  proof (cases "worker_build f n")
    case (Inl e)
    then show ?thesis using Suc.prems by simp
  next
    case b: (Inr built)
    show ?thesis
    proof (cases built)
      case None
      then show ?thesis using Suc.prems b by simp
    next
      case (Some request)
      obtain m w2 r where s: "worker_send net f request (n, w) = ((m, w2), r)" by (metis prod.exhaust)
      have m: "node_ok m" by (rule worker_send_ok [OF s Suc.prems(2,3)])
      show ?thesis
      proof (cases r)
        case (Inl e)
        then show ?thesis using Suc.prems b Some s m by simp
      next
        case (Inr p)
        obtain k r2 where k: "worker_response f request (fst p) (snd p) m = (k, r2)" by fastforce
        have "node_ok k" by (rule worker_response_ok [OF k m])
        then show ?thesis using Suc.prems Suc.IH b Some s Inr k
          by (auto split: sum.splits option.splits simp: case_prod_beta)
      qed
    qed
  qed
qed

lemma replicate_followers_ok:
  assumes "replicate_followers (env, batches) required (n, fs) = ((n', fs'), res)" "node_ok n" "env_ok env"
  shows "node_ok n'"
proof (cases "role (n_state n) = LEADER")
  case False
  then show ?thesis using assms by (simp add: replicate_followers_def)
next
  case True
  obtain m x where i: "initialize_leader_replication n = (m, x)" by fastforce
  note I = initialize_ok [OF i assms(2)]
  obtain r where r: "n_replication m = Some r" using I(6) True by blast
  have env: "node_ok (fst (env (m, gs)))" for gs using env_okD [OF assms(3), of "(m, gs)"] I(1) by simp
  obtain gs x where s: "submit_workers (followers r) fs [] = (gs, x)" by fastforce
  show ?thesis
  proof (cases "followers r = [] \<or> \<not> is_ok x")
    case True
    then show ?thesis using assms(1) \<open>role (n_state n) = LEADER\<close> i I r s
      by (cases x) (auto simp: replicate_followers_def split: if_splits)
  next
    case False
    then obtain y where y: "x = Ok y" by (auto simp: is_ok_iff)
    obtain hs z where w: "wait_round required (length (n_members m) div 2) batches (followers r) gs y = (hs, z)"
      by fastforce
    have "(n', fs') = env (m, hs)"
      using assms(1) True i I r s False y w by (simp add: replicate_followers_def)
    then show ?thesis using env [of hs] by (metis fst_conv)
  qed
qed

text \<open>The section that commits: the commit index is on disk before the entries are applied.\<close>

lemma replicate_log_finish_ok:
  assumes "replicate_log_finish n = (n', res)" "node_ok n"
  shows "node_ok n'" "res = Ok ()" "n_log n' = n_log n" "current_term (n_state n') = current_term (n_state n)"
    "commit_index (n_state n) \<le> commit_index (n_state n')"
    "commit_index (n_state n') \<noteq> commit_index (n_state n) \<Longrightarrow>
       role (n_state n) = LEADER \<and>
       term_at (commit_index (n_state n')) (n_log n) = Some (current_term (n_state n)) \<and>
       (\<exists>r. n_replication n = Some r \<and> majority (set (n_members n))
          (replicated_on (n_state n) r (commit_index (n_state n'))))"
proof -
  have wf: "node_wf n" "node_durable n" using assms(2) by (simp_all add: node_ok_def)
  note D = data_wfD [OF node_wf_data [OF wf(1)]]
  have "node_ok n' \<and> res = Ok () \<and> n_log n' = n_log n \<and> current_term (n_state n') = current_term (n_state n) \<and>
    commit_index (n_state n) \<le> commit_index (n_state n') \<and>
    (commit_index (n_state n') \<noteq> commit_index (n_state n) \<longrightarrow> role (n_state n) = LEADER \<and>
       term_at (commit_index (n_state n')) (n_log n) = Some (current_term (n_state n)) \<and>
       (\<exists>r. n_replication n = Some r \<and> majority (set (n_members n))
          (replicated_on (n_state n) r (commit_index (n_state n')))))"
  proof (cases "n_replication n = None \<or> role (n_state n) \<noteq> LEADER")
    case True
    then have "n' = n" "res = Ok ()" using assms(1) by (auto simp: replicate_log_finish_def split: option.splits)
    then show ?thesis using assms(2) by simp
  next
    case False
    then obtain r where r: "n_replication n = Some r" and lead: "role (n_state n) = LEADER" by auto
    have R: "wf_replication r (n_state n)" "repl_members r = n_members n" using wf(1) r by (simp_all add: node_wf_def)
    obtain s c where a: "advance_commit_index (n_log n) r (n_state n) = Ok (s, c)"
      using advance_commit_index_Ok [OF R(1)] by blast
    note A = advance_commit_index_cases [OF a D(1) R(1)]
    have frame: "node_id s = node_id (n_state n)" "current_term s = current_term (n_state n)"
        "voted_for s = voted_for (n_state n)" "role s = role (n_state n)" "leader_id s = leader_id (n_state n)"
        "last_applied s = last_applied (n_state n)"
      by (subst A(2), simp)+
    show ?thesis
    proof (cases "commit_index s = commit_index (n_state n)")
      case True
      then have "s = n_state n" using A(2) by simp
      then have "n' = n" "res = Ok ()" using assms(1) r lead a by (auto simp: replicate_log_finish_def Let_def)
      then show ?thesis using assms(2) by simp
    next
      case changed: False
      note C = A(4) [OF changed]
      have range: "base_index (n_log n) \<le> last_applied s" "last_applied s \<le> commit_index s"
          "commit_index s \<le> last_index (n_log n)"
        using C A(3) D(7,9) frame(6) by simp_all
      define store where "store = run_commands (slice (last_applied s) (commit_index s) (n_log n)) (n_store n)"
      define t where "t = s\<lparr>last_applied := commit_index s\<rparr>"
      have app: "apply_committed_entries (n_log n) s (n_store n) = ((t, store), Ok ())"
        unfolding t_def store_def by (rule apply_committed_reference [OF D(1,3) range])
      have n': "n' = n\<lparr>n_disk := map_option (save_state s) (n_disk n), n_state := t, n_store := store\<rparr>" "res = Ok ()"
        using assms(1) r lead a changed app
        by (simp_all add: replicate_log_finish_def Let_def persist_state_def)
      have "slice (base_index (n_log n)) (commit_index s) (n_log n) =
          slice (base_index (n_log n)) (last_applied s) (n_log n) @ slice (last_applied s) (commit_index s) (n_log n)"
        using range by (intro slice_append) simp_all
      then have "store = run_commands (slice (base_index (n_log n)) (commit_index s) (n_log n)) (snapshot_state (n_snapshot n))"
        using D(9,10) frame(6) by (simp add: store_def run_commands_append)
      then have "data_wf t (n_snapshot n) (n_log n) store"
        using D range by (simp add: data_wf_def t_def)
      moreover have "wf_tracker (n_election n) t" "wf_replication r t"
        using wf(1) R(1) frame(1) wf_tracker_cong [of _ "n_state n" t] wf_replication_cong [of r "n_state n" t]
        by (simp_all add: node_wf_def t_def)
      ultimately have "node_wf n'"
        using wf(1) frame r R(2) by (simp add: n' node_wf_def t_def)
      moreover have "node_durable n'"
      proof -
        have same: "save_state s = save_state t"
          by (rule ext) (simp add: save_state_def state_to_json_def t_def)
        have "n' = persist_state (n\<lparr>n_state := t, n_store := store\<rparr>)"
          by (cases n) (simp add: n' persist_state_def same)
        moreover have "node_durable (persist_state (n\<lparr>n_state := t, n_store := store\<rparr>))"
          using wf(2) by (intro node_durable_persist) (simp add: node_durable_def durable_log_def)
        ultimately show ?thesis by simp
      qed
      ultimately show ?thesis
        using C A(3) n' lead r R(2) frame by (simp add: node_ok_def t_def)
    qed
  qed
  then show "node_ok n'" "res = Ok ()" "n_log n' = n_log n" "current_term (n_state n') = current_term (n_state n)"
    "commit_index (n_state n) \<le> commit_index (n_state n')"
    "commit_index (n_state n') \<noteq> commit_index (n_state n) \<Longrightarrow> role (n_state n) = LEADER \<and>
       term_at (commit_index (n_state n')) (n_log n) = Some (current_term (n_state n)) \<and>
       (\<exists>r. n_replication n = Some r \<and> majority (set (n_members n))
          (replicated_on (n_state n) r (commit_index (n_state n'))))" by blast+
qed

lemma replicate_log_ok:
  assumes "replicate_log (env, batches) (n, fs) = ((n', fs'), res)" "node_ok n" "env_ok env"
  shows "node_ok n'"
proof -
  obtain m x where i: "initialize_leader_replication n = (m, x)" by fastforce
  note I = initialize_ok [OF i assms(2)]
  obtain k gs y where k: "replicate_followers (env, batches) None (m, fs) = ((k, gs), y)" by (metis prod.exhaust)
  have ok: "node_ok k" by (rule replicate_followers_ok [OF k I(1) assms(3)])
  obtain q z where q: "replicate_log_finish k = (q, z)" by fastforce
  show ?thesis
    using assms(1,2) I ok replicate_log_finish_ok(1) [OF q ok]
    by (auto simp: replicate_log_def i k q split: if_splits sum.splits)
qed

section \<open>Reads\<close>

text \<open>Everything committed is applied in every reachable state, so a read applies nothing.\<close>

lemma node_apply_noop:
  assumes "node_ok n"
  shows "node_apply n = (n, Ok ())"
proof -
  have "last_applied (n_state n) = commit_index (n_state n)"
    using data_wfD(9) node_wf_data assms unfolding node_ok_def by blast
  then show ?thesis by (simp add: node_apply_def apply_committed_noop)
qed

lemma read_confirmed_cases:
  assumes "read_confirmed read_term now q n = (n', res)" "node_ok n"
  shows "node_ok n'" "res = Ok () \<Longrightarrow> q \<and> role (n_state n) = LEADER \<and> current_term (n_state n) = read_term \<and>
      n' = n\<lparr>last_read_quorum_term := Some read_term, last_read_quorum_time := Some now\<rparr>"
    "res \<noteq> Ok () \<Longrightarrow> n' = n \<and> res = Err ReadQuorumError"
proof -
  have "node_ok (n\<lparr>last_read_quorum_term := Some read_term, last_read_quorum_time := Some now\<rparr>)"
    using assms(2) by simp
  from node_apply_noop [OF this]
  show "node_ok n'" "res = Ok () \<Longrightarrow> q \<and> role (n_state n) = LEADER \<and> current_term (n_state n) = read_term \<and>
      n' = n\<lparr>last_read_quorum_term := Some read_term, last_read_quorum_time := Some now\<rparr>"
    "res \<noteq> Ok () \<Longrightarrow> n' = n \<and> res = Err ReadQuorumError"
    using assms by (auto simp: read_confirmed_def split: if_splits)
qed

lemma confirm_body_cases:
  assumes "confirm_read_quorum_body (env, waits) now (n, fs) = ((n', fs'), res)" "node_ok n" "env_ok env"
  obtains (refused) "role (n_state n) \<noteq> LEADER" "n' = n" "res = Err NotLeaderError"
    | (raised) e where "role (n_state n) = LEADER" "node_ok n'" "res = Err e"
    | (confirmed) m r p k gs where "role (n_state n) = LEADER" "n_state m = n_state n" "n_replication m = Some r"
        "node_ok m" "n_members m = n_members n"
        "length (n_members n) div 2 + 1 = 1 \<or>
         read_loop (length (n_members n) div 2 + 1) (followers r) waits
           \<lparr>read_futures = fs, fresh = [], confirmed = [], failed = []\<rparr> = (p, Ok ()) \<and>
         length (n_members n) div 2 + 1 \<le> 1 + length (confirmed p)"
        "(k, gs) = env (m, read_futures p)" "node_ok k" "role (n_state k) = LEADER"
        "current_term (n_state k) = current_term (n_state n)"
        "n' = k\<lparr>last_read_quorum_term := Some (current_term (n_state n)), last_read_quorum_time := Some now\<rparr>"
        "res = Ok ()"
proof (cases "role (n_state n) = LEADER")
  case False
  then show thesis using assms(1) by (intro refused) (simp_all add: confirm_read_quorum_body_def)
next
  case lead: True
  show thesis
    using assms(2)
  proof (cases rule: initialize_cases)
    case follower
    then show thesis using lead by simp
  next
    case (leader r)
    define m where "m = n\<lparr>n_replication := Some r\<rparr>"
    have m: "node_ok m" using node_ok_replication [OF assms(2) leader(2,3)] by (simp add: m_def)
    let ?q = "length (n_members n) div 2 + 1"
    let ?p0 = "\<lparr>read_futures = fs, fresh = [], confirmed = [], failed = []\<rparr>"
    obtain p x where p: "(if ?q = 1 then (?p0, Ok ()) else read_loop ?q (followers r) waits ?p0) = (p, x)" by fastforce
    obtain k gs where k: "env (m, read_futures p) = (k, gs)" by fastforce
    have ok: "node_ok k" using env_okD [OF assms(3), of "(m, read_futures p)"] m k by simp
    obtain z y where z: "read_confirmed (current_term (n_state n)) now (?q \<le> 1 + length (confirmed p)) k = (z, y)" by fastforce
    note body = assms(1) [unfolded confirm_read_quorum_body_def, simplified lead leader(4)
        m_def [symmetric] prod.case sum.case Let_def]
    have fields: "n_replication m = Some r" "n_state m = n_state n" "n_members m = n_members n" by (simp_all add: m_def)
    show thesis
    proof (cases x)
      case (Inl e)
      then have "n' = k" "res = Err e" using body p k fields by (auto split: if_splits)
      then show thesis using raised lead ok by blast
    next
      case (Inr u)
      then have out: "n' = z" "res = y" using body p k z fields by (auto split: if_splits)
      note Z = read_confirmed_cases [OF z ok]
      show thesis
      proof (cases "y = Ok ()")
        case False
        then show thesis using raised lead Z out by metis
      next
        case True
        have "?q = 1 \<or> read_loop ?q (followers r) waits ?p0 = (p, Ok ()) \<and> ?q \<le> 1 + length (confirmed p)"
          using p Inr Z(2) [OF True] by (cases "?q = 1") auto
        then show thesis
          using Z(2) [OF True] out True ok fields m k lead
          by (intro confirmed [of m r p k gs]) auto
      qed
    qed
  qed
qed

lemma confirm_read_quorum_ok:
  assumes "confirm_read_quorum (env, waits) now (n, fs) = ((n', fs'), res)" "node_ok n" "env_ok env"
  shows "node_ok n'"
proof -
  obtain m gs r where m: "confirm_read_quorum_body (env, waits) now (n, fs) = ((m, gs), r)" by (metis prod.exhaust)
  from m assms(2,3) have "node_ok m"
    by (cases rule: confirm_body_cases) (use assms(2) in auto)
  then show ?thesis using assms(1) m by (auto simp: confirm_read_quorum_def)
qed

lemma linearizable_get_ok:
  assumes "linearizable_get key (env1, waits) ts env (n, fs) = ((n', fs'), res)" "node_ok n" "env_ok env1" "env_ok env"
  shows "node_ok n'"
proof -
  obtain t0 t1 t2 where ts: "ts = (t0, t1, t2)" by (cases ts) auto
  obtain m gs r where m: "confirm_read_quorum (env1, waits) t1 (n, fs) = ((m, gs), r)" by (metis prod.exhaust)
  have ok: "node_ok m" by (rule confirm_read_quorum_ok [OF m assms(2,3)])
  obtain k hs where k: "env (m, gs) = (k, hs)" by fastforce
  have "node_ok k" using env_okD [OF assms(4), of "(m, gs)"] ok k by simp
  then show ?thesis
    using assms(1,2) ok node_apply_noop [OF assms(2)]
    by (auto simp: linearizable_get_def ts m k split: if_splits sum.splits)
qed

text \<open>
  Which answer counts for a read: that of the worker the read itself has started. It starts one for
  a follower in the first visit, or, where an older worker was running, in the visit after the first
  wait that saw the older one end; its answer is the first one after that.
\<close>

definition own_worker :: "futures \<Rightarrow> (string, bool result) dict list \<Rightarrow> string \<Rightarrow> nat \<Rightarrow> bool" where
  "own_worker fs waits f i =
     (i < length waits \<and>
      (if map_of fs f = Some Running then map_of (waits ! i) f \<noteq> None \<and> (\<forall>k < i. map_of (waits ! k) f = None)
       else i = 0))"

definition own_answer :: "futures \<Rightarrow> (string, bool result) dict list \<Rightarrow> string \<Rightarrow> bool result \<Rightarrow> bool" where
  "own_answer fs waits f r =
     (\<exists>i j. own_worker fs waits f i \<and> i < j \<and> j < length waits \<and> map_of (waits ! j) f = Some r \<and>
        (\<forall>k. i < k \<longrightarrow> k < j \<longrightarrow> map_of (waits ! k) f = None))"

text \<open>It has been started and has not answered yet; and an older worker still runs.\<close>

definition own_running :: "futures \<Rightarrow> (string, bool result) dict list \<Rightarrow> string \<Rightarrow> bool" where
  "own_running fs waits f =
     (\<exists>i. own_worker fs waits f i \<and> (\<forall>k. i < k \<longrightarrow> k < length waits \<longrightarrow> map_of (waits ! k) f = None))"

definition old_running :: "futures \<Rightarrow> (string, bool result) dict list \<Rightarrow> string \<Rightarrow> bool" where
  "old_running fs waits f = (map_of fs f = Some Running \<and> (\<forall>w \<in> set waits. map_of w f = None))"

lemma own_worker_append: "own_worker fs waits f i \<Longrightarrow> own_worker fs (waits @ rest) f i"
  by (auto simp: own_worker_def nth_append)

lemma own_answer_append:
  assumes "own_answer fs waits f r"
  shows "own_answer fs (waits @ rest) f r"
proof -
  obtain i j where ij: "own_worker fs waits f i" "i < j" "j < length waits" "map_of (waits ! j) f = Some r"
      "\<forall>k. i < k \<longrightarrow> k < j \<longrightarrow> map_of (waits ! k) f = None"
    using assms by (auto simp: own_answer_def)
  then show ?thesis
    unfolding own_answer_def
    by (intro exI [of _ i] exI [of _ j]) (auto simp: own_worker_append nth_append)
qed

lemma own_running_snoc:
  assumes "own_running fs waits f"
  shows "map_of w f = None \<Longrightarrow> own_running fs (waits @ [w]) f"
    "map_of w f = Some r \<Longrightarrow> own_answer fs (waits @ [w]) f r"
proof -
  obtain i where i: "own_worker fs waits f i" "\<forall>k. i < k \<longrightarrow> k < length waits \<longrightarrow> map_of (waits ! k) f = None"
    using assms by (auto simp: own_running_def)
  have len: "i < length waits" using i(1) by (simp add: own_worker_def)
  show "own_running fs (waits @ [w]) f" if "map_of w f = None"
    unfolding own_running_def using i that by (intro exI [of _ i]) (auto simp: own_worker_append nth_append)
  show "own_answer fs (waits @ [w]) f r" if "map_of w f = Some r"
    unfolding own_answer_def using i that len
    by (intro exI [of _ i] exI [of _ "length waits"]) (auto simp: own_worker_append nth_append)
qed

lemma own_running_start:
  "map_of fs f \<noteq> Some Running \<Longrightarrow> own_running fs [w] f"
  "old_running fs waits f \<Longrightarrow> map_of w f \<noteq> None \<Longrightarrow> own_running fs (waits @ [w]) f"
proof -
  show "own_running fs [w] f" if "map_of fs f \<noteq> Some Running"
    using that by (auto simp: own_running_def own_worker_def)
  show "own_running fs (waits @ [w]) f" if "old_running fs waits f" "map_of w f \<noteq> None"
    unfolding own_running_def using that
    by (intro exI [of _ "length waits"]) (auto simp: own_worker_def old_running_def nth_append)
qed

lemma old_running_snoc: "old_running fs waits f \<Longrightarrow> map_of w f = None \<Longrightarrow> old_running fs (waits @ [w]) f"
  by (auto simp: old_running_def)

text \<open>
  What the loop knows of a follower that is neither confirmed nor failed, after a visit
  (\<open>visit_done\<close>) and before one (\<open>visit_ready\<close>), and of the confirmed ones.
\<close>

definition visit_ready :: "futures \<Rightarrow> (string, bool result) dict list \<Rightarrow> read_progress \<Rightarrow> string \<Rightarrow> bool" where
  "visit_ready fs ws p f =
     (f \<in> set (confirmed p) \<or> f \<in> set (failed p) \<or>
      (case map_of (read_futures p) f of
         None \<Rightarrow> own_running fs ws f
       | Some Running \<Rightarrow> if f \<in> set (fresh p) then own_running fs ws f else old_running fs ws f
       | Some (Done r) \<Rightarrow> if f \<in> set (fresh p) then own_answer fs ws f r else own_running fs ws f))"

definition visit_done :: "futures \<Rightarrow> (string, bool result) dict list \<Rightarrow> read_progress \<Rightarrow> string \<Rightarrow> bool" where
  "visit_done fs ws p f =
     (f \<in> set (confirmed p) \<or> f \<in> set (failed p) \<or>
      map_of (read_futures p) f = Some Running \<and>
        (if f \<in> set (fresh p) then own_running fs ws f else old_running fs ws f))"

definition confirmed_ok :: "string set \<Rightarrow> futures \<Rightarrow> (string, bool result) dict list \<Rightarrow> read_progress \<Rightarrow> bool" where
  "confirmed_ok F fs ws p =
     (distinct (confirmed p) \<and> (\<forall>f \<in> set (confirmed p). f \<in> F \<and> own_answer fs ws f (Ok True)))"

text \<open>One visit to one follower that does not raise.\<close>

definition visited :: "string \<Rightarrow> read_progress \<Rightarrow> read_progress" where
  "visited f p =
     (if f \<in> set (confirmed p) \<or> f \<in> set (failed p) \<or> map_of (read_futures p) f = Some Running then p
      else (case (f \<in> set (fresh p), map_of (read_futures p) f) of
              (True, Some (Done (Inr b))) \<Rightarrow>
                (let p = p\<lparr>read_futures := AList.delete f (read_futures p)\<rparr>
                 in if b then p\<lparr>confirmed := set_add f (confirmed p)\<rparr> else p\<lparr>failed := set_add f (failed p)\<rparr>)
            | _ \<Rightarrow> p\<lparr>read_futures := AList.update f Running (AList.delete f (read_futures p)),
                     fresh := set_add f (fresh p)\<rparr>))"

text \<open>The three things it can come to.\<close>

definition read_submit :: "string \<Rightarrow> read_progress \<Rightarrow> read_progress" where
  "read_submit f p = p\<lparr>read_futures := AList.update f Running (AList.delete f (read_futures p)),
                       fresh := set_add f (fresh p)\<rparr>"

definition read_count :: "string \<Rightarrow> bool \<Rightarrow> read_progress \<Rightarrow> read_progress" where
  "read_count f b p = (let p = p\<lparr>read_futures := AList.delete f (read_futures p)\<rparr>
     in if b then p\<lparr>confirmed := set_add f (confirmed p)\<rparr> else p\<lparr>failed := set_add f (failed p)\<rparr>)"

lemma visited_cases:
  obtains (kept) "visited f p = p"
      "f \<in> set (confirmed p) \<or> f \<in> set (failed p) \<or> map_of (read_futures p) f = Some Running"
    | (counted) b where "visited f p = read_count f b p" "f \<notin> set (confirmed p)" "f \<notin> set (failed p)"
      "f \<in> set (fresh p)" "map_of (read_futures p) f = Some (Done (Ok b))"
    | (submitted) "visited f p = read_submit f p" "f \<notin> set (confirmed p)" "f \<notin> set (failed p)"
      "map_of (read_futures p) f = None \<or> (\<exists>e. map_of (read_futures p) f = Some (Done (Err e))) \<or>
       f \<notin> set (fresh p) \<and> (\<exists>b. map_of (read_futures p) f = Some (Done (Ok b)))"
proof (cases "f \<in> set (confirmed p) \<or> f \<in> set (failed p) \<or> map_of (read_futures p) f = Some Running")
  case True
  then show ?thesis by (intro kept) (simp_all add: visited_def)
next
  case False
  then have no: "f \<notin> set (confirmed p)" "f \<notin> set (failed p)" "map_of (read_futures p) f \<noteq> Some Running" by simp_all
  show ?thesis
  proof (cases "f \<in> set (fresh p) \<and> (\<exists>b. map_of (read_futures p) f = Some (Done (Ok b)))")
    case True
    then obtain b where "map_of (read_futures p) f = Some (Done (Ok b))" "f \<in> set (fresh p)" by blast
    then show ?thesis using no by (intro counted [of b]) (simp_all add: visited_def read_count_def)
  next
    case nc: False
    have "visited f p = read_submit f p"
      unfolding visited_def read_submit_def using no nc
      by (cases "map_of (read_futures p) f") (auto split: future.splits sum.splits bool.splits)
    moreover have "map_of (read_futures p) f = None \<or> (\<exists>e. map_of (read_futures p) f = Some (Done (Err e))) \<or>
       f \<notin> set (fresh p) \<and> (\<exists>b. map_of (read_futures p) f = Some (Done (Ok b)))"
    proof (cases "map_of (read_futures p) f")
      case (Some x)
      then show ?thesis using no(3) nc by (cases x; cases "case x of Done r \<Rightarrow> r | _ \<Rightarrow> Err OSError") auto
    qed simp
    ultimately show ?thesis using no by (intro submitted)
  qed
qed

lemma read_visit_Cons:
  assumes run: "read_visit (f # fl) p = (p', Ok waiting)"
  obtains waiting' where "read_visit fl (visited f p) = (p', Ok waiting')"
proof (cases rule: visited_cases [of f p])
  case kept
  then show ?thesis using run that unfolding kept(1) by (auto simp: Let_def split: if_splits prod.splits sum.splits)
next
  case (counted b)
  then show ?thesis using run that unfolding counted(1) read_count_def by (simp add: Let_def)
next
  case submitted
  then show ?thesis
    using run that unfolding submitted(1) read_submit_def
    by (auto simp: Let_def split: prod.splits sum.splits if_splits)
qed

lemma visited_done:
  assumes ready: "visit_ready fs ws p f" and run: "\<nexists>e. map_of (read_futures p) f = Some (Done (Err e))"
  shows "visit_done fs ws (visited f p) f"
proof (cases rule: visited_cases [of f p])
  case kept
  then show ?thesis using ready unfolding kept(1) by (auto simp: visit_ready_def visit_done_def)
next
  case (counted b)
  show ?thesis unfolding counted(1) by (simp add: visit_done_def read_count_def Let_def)
next
  case submitted
  have "own_running fs ws f" using submitted(2-4) ready run by (auto simp: visit_ready_def)
  then show ?thesis unfolding submitted(1) by (simp add: visit_done_def read_submit_def)
qed

lemma visit_cong:
  assumes "map_of (read_futures q) g = map_of (read_futures p) g" "g \<in> set (fresh q) \<longleftrightarrow> g \<in> set (fresh p)"
    "g \<in> set (confirmed q) \<longleftrightarrow> g \<in> set (confirmed p)" "g \<in> set (failed q) \<longleftrightarrow> g \<in> set (failed p)"
  shows "visit_ready fs ws q g = visit_ready fs ws p g" "visit_done fs ws q g = visit_done fs ws p g"
  unfolding visit_ready_def visit_done_def assms by (rule refl)+

lemma visited_other:
  assumes "g \<noteq> f"
  shows "visit_ready fs ws (visited f p) g = visit_ready fs ws p g" "visit_done fs ws (visited f p) g = visit_done fs ws p g"
proof -
  have sub: "visit_ready fs ws (read_submit f p) g = visit_ready fs ws p g"
      "visit_done fs ws (read_submit f p) g = visit_done fs ws p g"
    by (rule visit_cong; use assms in \<open>simp add: read_submit_def\<close>)+
  have cnt: "visit_ready fs ws (read_count f b p) g = visit_ready fs ws p g"
      "visit_done fs ws (read_count f b p) g = visit_done fs ws p g" for b
    by (rule visit_cong; use assms in \<open>simp add: read_count_def Let_def\<close>)+
  have "visited f p = p \<or> visited f p = read_submit f p \<or> (\<exists>b. visited f p = read_count f b p)"
    by (cases rule: visited_cases [of f p]) blast+
  then show "visit_ready fs ws (visited f p) g = visit_ready fs ws p g" "visit_done fs ws (visited f p) g = visit_done fs ws p g"
    using sub cnt by metis+
qed

lemma visited_confirmed:
  assumes ok: "confirmed_ok F fs ws p" and ready: "visit_ready fs ws p f" and f: "f \<in> F"
  shows "confirmed_ok F fs ws (visited f p)"
proof (cases rule: visited_cases [of f p])
  case kept
  show ?thesis unfolding kept(1) by (rule ok)
next
  case (counted b)
  have "own_answer fs ws f (Ok b)" using ready counted(2-5) by (simp add: visit_ready_def)
  then show ?thesis
    using ok f unfolding counted(1) by (auto simp: confirmed_ok_def read_count_def Let_def distinct_set_add)
next
  case submitted
  show ?thesis unfolding submitted(1) using ok by (simp add: confirmed_ok_def read_submit_def)
qed

lemma done_ready: "visit_done fs ws p f \<Longrightarrow> visit_ready fs ws p f"
  by (auto simp: visit_done_def visit_ready_def)

lemma read_visit_done:
  "read_visit fl p = (p', Ok waiting) \<Longrightarrow> \<forall>f \<in> F. visit_ready fs ws p f \<Longrightarrow> confirmed_ok F fs ws p \<Longrightarrow> set fl \<subseteq> F \<Longrightarrow>
    confirmed_ok F fs ws p' \<and> (\<forall>f. f \<in> set fl \<or> visit_done fs ws p f \<longrightarrow> visit_done fs ws p' f)"
proof (induction fl arbitrary: p waiting)
  case (Cons f fl)
  obtain w where w: "read_visit fl (visited f p) = (p', Ok w)" using read_visit_Cons [OF Cons.prems(1)] .
  have f: "f \<in> F" "set fl \<subseteq> F" using Cons.prems(4) by simp_all
  have e: "\<nexists>e. map_of (read_futures p) f = Some (Done (Err e))" if "f \<notin> set (confirmed p)" "f \<notin> set (failed p)"
    using Cons.prems(1) that by auto
  have "visit_done fs ws (visited f p) f"
  proof (cases "f \<in> set (confirmed p) \<or> f \<in> set (failed p)")
    case True
    then have "visited f p = p" unfolding visited_def by (subst if_P) blast+
    then show ?thesis using True unfolding visit_done_def by metis
  next
    case False
    then show ?thesis using visited_done [of fs ws p f] e Cons.prems(2) f(1) by blast
  qed
  then have d: "visit_done fs ws (visited f p) g" if "g = f \<or> visit_done fs ws p g" for g
    using that visited_other(2) [of g f fs ws p] by (cases "g = f") auto
  have "\<forall>g \<in> F. visit_ready fs ws (visited f p) g"
    using Cons.prems(2) visited_other(1) [of _ f fs ws p] done_ready [OF d] by metis
  moreover have "confirmed_ok F fs ws (visited f p)"
    using visited_confirmed Cons.prems(2,3) f(1) by blast
  ultimately show ?case using Cons.IH [OF w _ _ f(2)] d by auto
qed simp

lemma map_of_finish_workers:
  "map_of (finish_workers w fs) f = map_option (\<lambda>x. case (x, map_of w f) of
     (Running, Some r) \<Rightarrow> Done r | _ \<Rightarrow> x) (map_of fs f)"
  by (induction fs) (auto simp: finish_workers_def split: future.splits option.splits)

lemma finish_ready:
  assumes "visit_done fs ws p f"
  shows "visit_ready fs (ws @ [w]) (p\<lparr>read_futures := finish_workers w (read_futures p)\<rparr>) f"
  using assms own_running_snoc [of fs ws f w] own_running_start(2) [of fs ws f w] old_running_snoc [of fs ws f w]
  by (cases "map_of w f") (auto simp: visit_done_def visit_ready_def map_of_finish_workers)

lemma first_ready:
  "visit_ready fs [w] \<lparr>read_futures = finish_workers w fs, fresh = [], confirmed = [], failed = []\<rparr> f"
proof (cases "map_of fs f = Some Running")
  case True
  then have "old_running fs [] f" by (simp add: old_running_def)
  then show ?thesis
    using own_running_start(2) [of fs "[]" f w] old_running_snoc [of fs "[]" f w] True
    by (cases "map_of w f") (auto simp: visit_ready_def map_of_finish_workers)
next
  case False
  then have "own_running fs [w] f" by (rule own_running_start)
  then show ?thesis
    using False by (auto simp: visit_ready_def map_of_finish_workers split: option.splits future.splits)
qed

lemma confirmed_ok_append: "confirmed_ok F fs ws p \<Longrightarrow> confirmed_ok F fs (ws @ rest) p"
  by (auto simp: confirmed_ok_def own_answer_append)

lemma read_loop_own:
  "read_loop q fl ws p = (p', Ok ()) \<Longrightarrow> confirmed_ok (set fl) fs before p \<Longrightarrow>
    \<forall>w rest. ws = w # rest \<longrightarrow> (\<forall>f \<in> set fl. visit_ready fs (before @ [w])
      (p\<lparr>read_futures := finish_workers w (read_futures p)\<rparr>) f) \<Longrightarrow>
    confirmed_ok (set fl) fs (before @ ws) p'"
proof (induction q fl ws p arbitrary: p' before rule: read_loop.induct)
  case (1 q fl p)
  then show ?case by simp
next
  case (2 q fl w ws p)
  let ?p = "p\<lparr>read_futures := finish_workers w (read_futures p)\<rparr>"
  obtain m r where m: "read_visit fl ?p = (m, r)" by fastforce
  show ?case
  proof (cases "q \<le> 1 + length (confirmed p)")
    case True
    then show ?thesis using "2.prems" by (auto intro: confirmed_ok_append)
  next
    case False
    obtain waiting where r: "r = Ok waiting" using "2.prems"(1) m False by (cases r) auto
    have c: "confirmed_ok (set fl) fs (before @ [w]) ?p"
      using confirmed_ok_append [OF "2.prems"(2), of "[w]"] by (simp add: confirmed_ok_def)
    have M: "confirmed_ok (set fl) fs (before @ [w]) m" "\<forall>f \<in> set fl. visit_done fs (before @ [w]) m f"
      using read_visit_done [OF m [unfolded r] _ c order_refl] "2.prems"(3) by auto
    show ?thesis
    proof (cases "q \<le> 1 + length (confirmed m) \<or> waiting = []")
      case True
      then have "p' = m" using "2.prems"(1) m r False by (auto split: if_splits)
      then show ?thesis using confirmed_ok_append [OF M(1), of ws] by simp
    next
      case go: False
      then have run: "read_loop q fl ws m = (p', Ok ())" using "2.prems"(1) m r False by simp
      have "confirmed_ok (set fl) fs ((before @ [w]) @ ws) p'"
      proof (rule "2.IH")
        show "\<not> q \<le> 1 + length (confirmed p)" by (rule False)
        show "(m, r) = read_visit fl ?p" using m by simp
        show "r = Inr waiting" by (rule r)
        show "\<not> q \<le> 1 + length (confirmed m)" "waiting \<noteq> []" using go by simp_all
        show "read_loop q fl ws m = (p', Ok ())" "confirmed_ok (set fl) fs (before @ [w]) m" by (rule run, rule M)
        show "\<forall>v rest. ws = v # rest \<longrightarrow> (\<forall>f \<in> set fl. visit_ready fs ((before @ [w]) @ [v])
            (m\<lparr>read_futures := finish_workers v (read_futures m)\<rparr>) f)"
          using M(2) finish_ready by blast
      qed
      then show ?thesis by simp
    qed
  qed
qed

section \<open>Transfer\<close>

lemma transfer_finish_ok:
  assumes "transfer_finish t response n = (n', res)" "node_ok n"
  shows "node_ok n'"
proof -
  obtain m x where d: "step_down (tnr_term response) n = (m, x)" by fastforce
  note S = step_down_ok(1) [OF d assms(2)]
  have W: "wf_tracker (n_election n) (n_state n)" "tracker_members (n_election n) = n_members n"
    using assms(2) by (simp_all add: node_ok_def node_wf_def)
  have "node_ok (n\<lparr>n_state := s, n_replication := None\<rparr>)"
    if "become_follower t None (n_state n) = Ok s" "current_term (n_state n) = t" for s
    using become_follower_OkD [OF that(1)] that(2) W wf_tracker_cong [OF W(1), of s]
    by (intro node_ok_state(1) [OF assms(2)]) (simp_all add: durable_fields_def)
  then show ?thesis using assms S
    by (auto simp: transfer_finish_def d split: if_splits sum.splits)
qed

lemma transfer_leadership_ok:
  assumes "transfer_leadership target (env, batches) net ((n, fs), w) = (((n', fs'), w'), res)"
    "node_ok n" "env_ok env" "network_ok net"
  shows "node_ok n'"
proof (cases "role (n_state n) = LEADER")
  case False
  then show ?thesis using assms by (simp add: transfer_leadership_def)
next
  case lead: True
  obtain m x where i: "initialize_leader_replication n = (m, x)" by fastforce
  note I = initialize_ok [OF i assms(2)]
  obtain r where r: "n_replication m = Some r" using I(6) lead by blast
  define t where "t = m\<lparr>transfer_in_progress := True\<rparr>"
  have t: "node_ok t" using I(1) by (simp add: t_def)
  have attempt: "node_ok k" if a: "transfer_attempt trm target (env, batches) net ((t, fs), w) = (((k, gs), w2), z)"
    for trm k gs w2 z
  proof -
    obtain k1 hs y where y: "replicate_followers (env, batches) target (t, fs) = ((k1, hs), y)" by (metis prod.exhaust)
    have k1: "node_ok k1" by (rule replicate_followers_ok [OF y t assms(3)])
    show ?thesis
    proof (cases "\<exists>results sel. y = Ok results \<and> transfer_select trm target results k1 = Ok (Some sel)")
      case False
      then show ?thesis using a k1
        by (auto simp: transfer_attempt_def y split: sum.splits option.splits)
    next
      case True
      then obtain results sel where s: "y = Ok results" "transfer_select trm target results k1 = Ok (Some sel)" by blast
      obtain k2 w3 v where v: "net_timeout net sel \<lparr>tn_term = trm, tn_leader_id = n_id k1\<rparr> (k1, w) = ((k2, w3), v)"
        by (metis prod.exhaust)
      have k2: "node_ok k2" using k1 v assms(4) unfolding network_ok_def by (metis fst_conv)
      define k3 where "k3 = observe (Rpc ''timeout_now'' (is_ok v)) k2"
      have k3: "node_ok k3" using k2 by (simp add: k3_def)
      obtain k4 u where u: "transfer_finish trm (projr v) k3 = (k4, u)" by fastforce
      have "node_ok k4" by (rule transfer_finish_ok [OF u k3])
      then show ?thesis using a k2 u
        by (cases v) (auto simp: transfer_attempt_def y s v k3_def Let_def)
    qed
  qed
  obtain k gs w2 z where a: "transfer_attempt (current_term (n_state m)) target (env, batches) net ((t, fs), w) =
      (((k, gs), w2), z)" by (metis prod.exhaust)
  have "node_ok k" by (rule attempt [OF a])
  then show ?thesis
    using assms(1) lead i I r a
    by (auto simp: transfer_leadership_def t_def [symmetric] split: if_splits)
qed

section \<open>Commands\<close>

lemma append_commands_Ok:
  "wf_log l \<Longrightarrow> 0 \<le> trm \<Longrightarrow>
   \<exists>es. append_commands trm cs l = (l\<lparr>entries := entries l @ es\<rparr>, Ok es) \<and> contiguous (last_index l) es \<and>
     map entry_command es = cs \<and> (\<forall>e \<in> set es. entry_term e = trm)"
proof (induction cs arbitrary: l)
  case Nil
  then show ?case by simp
next
  case (Cons c cs)
  define e where "e = \<lparr>entry_index = last_index l + 1, entry_term = trm, entry_command = c\<rparr>"
  define l1 where "l1 = l\<lparr>entries := entries l @ [e]\<rparr>"
  have step: "log_append trm c l = Ok (l1, e)"
    using Cons.prems(2) by (simp add: log_append_def e_def l1_def Let_def)
  have wf1: "wf_log l1" by (rule wf_log_append [OF Cons.prems(1) step])
  have last: "last_index l1 = last_index l + 1"
    using append_entry_get(2) [OF Cons.prems(1)] log_append_eq(1) [OF Cons.prems(1) step] by blast
  obtain es where es: "append_commands trm cs l1 = (l1\<lparr>entries := entries l1 @ es\<rparr>, Ok es)"
      "contiguous (last_index l1) es" "map entry_command es = cs" "\<forall>e \<in> set es. entry_term e = trm"
    using Cons.IH [OF wf1 Cons.prems(2)] by blast
  then show ?case
    by (intro exI [of _ "e # es"]) (simp add: step last contiguous_Cons, simp add: e_def l1_def)
qed

lemma check_commands_valid:
  "for_each check_command cs u = Ok () \<longleftrightarrow> (\<forall>c \<in> set cs. valid_command c)"
  by (induction cs arbitrary: u) (auto simp: check_command_def valid_command_def)

text \<open>
  The section that accepts commands: they are refused or appended and journalled as a whole,
  each as an entry of the leader's term.
\<close>

lemma submit_begin_cases:
  assumes step: "submit_begin cs n = (n', res)" and ok: "node_ok n"
  obtains (refused) e where "n' = n" "res = Err e"
    | (accepted) es where "role (n_state n) = LEADER" "\<not> transfer_in_progress n" "res = Ok es"
        "map entry_command es = cs" "\<forall>e \<in> set es. entry_term e = current_term (n_state n) \<and> valid_command (entry_command e)"
        "contiguous (last_index (n_log n)) es" "n_log n' = (n_log n)\<lparr>entries := entries (n_log n) @ es\<rparr>"
        "n_state n' = n_state n" "n_store n' = n_store n" "n_replication n' \<noteq> None" "node_ok n'"
proof (cases "transfer_in_progress n \<or> role (n_state n) \<noteq> LEADER \<or> \<not> (\<forall>c \<in> set cs. valid_command c)")
  case True
  then have "\<exists>e. n' = n \<and> res = Err e"
    using step check_commands_valid [of cs "()"]
    by (cases "for_each check_command cs ()") (auto simp: submit_begin_def split: if_splits)
  then show thesis using refused by blast
next
  case False
  have wf: "node_wf n" "node_durable n" using ok by (simp_all add: node_ok_def)
  note D = data_wfD [OF node_wf_data [OF wf(1)]]
  have trm: "0 \<le> current_term (n_state n)" using wf(1) by (simp add: node_wf_def)
  obtain es where es: "append_commands (current_term (n_state n)) cs (n_log n) =
        ((n_log n)\<lparr>entries := entries (n_log n) @ es\<rparr>, Ok es)"
      "contiguous (last_index (n_log n)) es" "map entry_command es = cs"
      "\<forall>e \<in> set es. entry_term e = current_term (n_state n)"
    using append_commands_Ok [OF D(1) trm] by blast
  define l where "l = (n_log n)\<lparr>entries := entries (n_log n) @ es\<rparr>"
  have push: "for_each append_entry es (n_log n) = Ok l"
    unfolding l_def by (rule for_each_append_entry [OF D(1) es(2)])
  have wfl: "wf_log l" by (rule wf_for_each_append [OF D(1) push])
  have cmds: "\<forall>e \<in> set es. valid_command (entry_command e)" using False es(3) by auto
  have get: "log_get i l = log_get i (n_log n)" if "i \<le> last_index (n_log n)" for i
    using that wf_last_index [OF D(1)] log_get_nth [OF D(1), of i] log_get_nth [OF wfl, of i]
    by (auto simp: l_def nth_opt_append)
  have last: "last_index (n_log n) \<le> last_index l"
    using wf_last_index [OF D(1)] wf_last_index [OF wfl] by (simp add: l_def)
  have base: "base_index l = base_index (n_log n)" "base_term l = base_term (n_log n)" by (simp_all add: l_def)
  have same: "slice (base_index (n_log n)) (commit_index (n_state n)) l =
      slice (base_index (n_log n)) (commit_index (n_state n)) (n_log n)"
    using get last D(8) by (intro slice_cong [OF wfl D(1)]) (simp_all add: base)
  have "wf_terms l" "valid_entries l"
    using D(2,3) es(4) trm cmds by (auto simp: l_def wf_terms_def valid_entries_def)
  then have data: "data_wf (n_state n) (n_snapshot n) l (n_store n)"
    using D wfl last same by (simp add: data_wf_def base)
  define m where "m = n\<lparr>n_log := l, n_disk := map_option (append_log_entries es) (n_disk n)\<rparr>"
  have "node_wf m" using wf(1) data by (simp add: node_wf_def m_def)
  moreover have "node_durable m"
  proof -
    have "durable_state m (append_log_entries es d) \<and> durable_log m (append_log_entries es d)"
      if d: "n_disk n = Some d" for d
    proof -
      have "durable_state n d" "durable_log n d" using wf(2) d by (simp_all add: node_durable_def)
      moreover have "load_state (n_id n) (append_log_entries es d) = load_state (n_id n) d"
          "load_snapshot (append_log_entries es d) = load_snapshot d"
        by (simp_all add: append_log_entries_def load_state_def load_snapshot_def)
      ultimately show ?thesis
        using journal_replays_append_entries [OF _ push] by (simp add: durable_state_def durable_log_def m_def)
    qed
    then show ?thesis by (auto simp: node_durable_def m_def)
  qed
  ultimately have m: "node_ok m" by (simp add: node_ok_def)
  obtain k x where i: "initialize_leader_replication m = (k, x)" by fastforce
  note I = initialize_ok [OF i m]
  have "(n', res) = (k, Ok es)"
    using step False es(1) check_commands_valid [of cs "()"] i I(2)
    by (simp add: submit_begin_def l_def [symmetric] m_def [symmetric])
  then show thesis using False es cmds I
    by (intro accepted [of es]) (simp_all add: m_def l_def)
qed

lemma submit_commands_ok:
  assumes "submit_commands cs env1 (env2, b1) env3 (env4, b2) (n, fs) = ((n', fs'), res)" "node_ok n"
    "env_ok env1" "env_ok env2" "env_ok env3" "env_ok env4"
  shows "node_ok n'"
proof (cases "cs = []")
  case True
  then show ?thesis using assms by (simp add: submit_commands_def)
next
  case False
  obtain m r where m: "submit_begin cs n = (m, r)" by fastforce
  from m assms(2) have ok: "node_ok m" by (cases rule: submit_begin_cases) (use assms(2) in auto)
  obtain k gs y where k: "replicate_log (env2, b1) (env1 (m, fs)) = ((k, gs), y)" by (metis prod.exhaust)
  have "node_ok k"
    using replicate_log_ok [of env2 b1 "fst (env1 (m, fs))" "snd (env1 (m, fs))"] k
      env_okD [OF assms(3), of "(m, fs)"] ok assms(4) by simp
  then have e: "node_ok (fst (env3 (k, gs)))" using env_okD [OF assms(5), of "(k, gs)"] by simp
  obtain h hs z where h: "send_heartbeats (env4, b2) (env3 (k, gs)) = ((h, hs), z)" by (metis prod.exhaust)
  have "node_ok h"
    using replicate_followers_ok [of env4 b2 None "fst (env3 (k, gs))" "snd (env3 (k, gs))"] h e assms(6)
    by (simp add: send_heartbeats_def)
  then show ?thesis
    using assms(1) False ok e \<open>node_ok k\<close>
    by (auto simp: submit_commands_def m k h Let_def split: sum.splits if_splits)
qed

end
