(* ===== verification/VoteFrame.thy ===== *)
theory VoteFrame
  imports OutboundInvariant
begin

text \<open>
  What the operations that are not part of an election do to a node's term, vote and role, on
  every outcome, exceptions included, and for messages of any content: they keep the vote
  within a term, enter a later term only as a follower without a vote, never make a leader, and
  write nothing else to the state file.
\<close>

definition state_saved :: "raft_state \<Rightarrow> disk \<Rightarrow> disk \<Rightarrow> bool" where
  "state_saved s d d' =
     (state_file d' = state_file d \<or>
      (\<exists>s1. state_file d' = Some (Valid (state_to_json s1)) \<and>
        current_term s1 = current_term s \<and> voted_for s1 = voted_for s))"

definition disk_step :: "raft_node \<Rightarrow> raft_node \<Rightarrow> bool" where
  "disk_step n n' =
     (case (n_disk n, n_disk n') of
        (None, None) \<Rightarrow> True
      | (Some d, Some d') \<Rightarrow> state_saved (n_state n') d d'
      | _ \<Rightarrow> False)"

definition vote_neutral :: "raft_node \<Rightarrow> raft_node \<Rightarrow> bool" where
  "vote_neutral n n' =
     (n_id n' = n_id n \<and> node_id (n_state n') = node_id (n_state n) \<and> n_members n' = n_members n \<and>
      n_election n' = n_election n \<and>
      (current_term (n_state n') = current_term (n_state n) \<and> voted_for (n_state n') = voted_for (n_state n) \<and>
       (role (n_state n') = role (n_state n) \<or> role (n_state n') = FOLLOWER) \<or>
       current_term (n_state n) < current_term (n_state n') \<and> voted_for (n_state n') = None \<and>
       role (n_state n') = FOLLOWER) \<and>
      disk_step n n')"

lemma disk_step_same: "n_disk n' = n_disk n \<Longrightarrow> disk_step n n'"
  by (auto simp: disk_step_def state_saved_def split: option.splits)

lemma state_saved_refl [simp]: "state_saved s d d"
  by (simp add: state_saved_def)

lemma state_savedI: "state_file d' = state_file d \<Longrightarrow> state_saved s d d'"
  by (simp add: state_saved_def)

lemma state_saved_save [simp]: "state_saved s d (save_state s d')"
  by (auto simp: state_saved_def save_state_def)

lemma state_saved_log [simp]:
  "state_saved s d (save_snapshot sn d') = state_saved s d d'"
  "state_saved s d (rewrite_log_records rs d') = state_saved s d d'"
  "state_saved s d (append_log_entries es d') = state_saved s d d'"
  by (simp_all add: state_saved_def append_log_entries_def)

lemma disk_step_cong:
  "disk_step n m \<Longrightarrow> n_disk n' = n_disk m \<Longrightarrow> n_state n' = n_state m \<Longrightarrow> disk_step n n'"
  by (auto simp: disk_step_def split: option.splits)

lemma disk_step_persist:
  "n_disk m = n_disk n \<Longrightarrow> n_state n' = n_state m \<Longrightarrow> n_disk n' = map_option (save_state (n_state m)) (n_disk m) \<Longrightarrow>
   disk_step n n'"
  by (auto simp: disk_step_def split: option.splits)

text \<open>Same state, same files up to the log and the snapshot: nothing to show.\<close>

lemma vote_neutral_same:
  assumes "n_id n' = n_id n" "n_members n' = n_members n" "n_election n' = n_election n"
    "n_state n' = n_state n" "disk_step n n'"
  shows "vote_neutral n n'"
  using assms by (simp add: vote_neutral_def)

lemma vote_neutral_refl [simp]: "vote_neutral n n"
  by (rule vote_neutral_same) (simp_all add: disk_step_same)

lemma vote_neutral_follower:
  assumes "become_follower t lid (n_state n) = Ok s"
    and "n_id n' = n_id n" "n_members n' = n_members n" "n_election n' = n_election n"
    and "node_id (n_state n') = node_id s" "current_term (n_state n') = current_term s"
      "voted_for (n_state n') = voted_for s" "role (n_state n') = role s" "disk_step n n'"
  shows "vote_neutral n n'"
  using assms(2-) become_follower_OkD [OF assms(1)] by (auto simp: vote_neutral_def)

lemma neutral_create_snapshot:
  assumes "create_snapshot n = (n', res)"
  shows "vote_neutral n n'"
proof -
  have "n_id n' = n_id n \<and> n_members n' = n_members n \<and> n_election n' = n_election n \<and>
    n_state n' = n_state n \<and> disk_step n n'"
    using assms
    by (auto simp: create_snapshot_def Let_def save_log_def persist_state_def disk_step_def
        split: if_splits option.splits sum.splits)
  then show ?thesis by (intro vote_neutral_same) simp_all
qed

lemma persist_log_change_state:
  "persist_log_change a b d = Ok d' \<Longrightarrow> state_file d' = state_file d"
  by (auto simp: persist_log_change_def Let_def append_log_entries_def replace_log_suffix_def split: if_splits)

lemma neutral_append_entries:
  assumes "node_append_entries c req n = (n', res)"
  shows "vote_neutral n n'"
proof -
  obtain s l store r where h: "handle_append_entries req (n_state n) (n_log n) (Some (n_store n)) = ((s, l, store), r)"
    by (metis prod.exhaust)
  note F = handle_append_entries_frame [OF h]
  have step: "node_id s = node_id (n_state n) \<and>
     (current_term s = current_term (n_state n) \<and> voted_for s = voted_for (n_state n) \<and>
       (role s = role (n_state n) \<or> role s = FOLLOWER) \<or>
      current_term (n_state n) < current_term s \<and> voted_for s = None \<and> role s = FOLLOWER)"
    using F by (cases "ae_term req < current_term (n_state n)"; cases "current_term (n_state n) < ae_term req") auto
  have "n' = n \<or> (n_id n' = n_id n \<and> n_members n' = n_members n \<and> n_election n' = n_election n \<and>
      n_state n' = s \<and> disk_step n n')"
    using assms unfolding node_append_entries_def h
    by (auto simp: Let_def disk_step_def drop_replication_def persist_state_def
        split: if_splits option.splits sum.splits dest!: persist_log_change_state intro: state_savedI)
  then show ?thesis using step by (auto simp: vote_neutral_def disk_step_same)
qed

lemma neutral_timeout_now:
  assumes "node_timeout_now req n = (n', res)"
  shows "vote_neutral n n'"
proof (cases "current_term (n_state n) < tn_term req")
  case True
  obtain s where s: "become_follower (tn_term req) (Some (tn_leader_id req)) (n_state n) = Ok s"
    using become_follower_Ok True by (metis less_imp_le)
  have t: "current_term s \<noteq> current_term (n_state n)" using True become_follower_OkD(2) [OF s] by simp
  have "n_id n' = n_id n \<and> n_members n' = n_members n \<and> n_election n' = n_election n \<and> n_state n' = s \<and>
      n_disk n' = map_option (save_state s) (n_disk n)"
    using assms True s t by (auto simp: node_timeout_now_def Let_def persist_new_term_def split: if_splits)
  then show ?thesis
    by (intro vote_neutral_follower [OF s] disk_step_persist [of "n\<lparr>n_state := s\<rparr>"]) simp_all
next
  case False
  then have "n_id n' = n_id n \<and> n_members n' = n_members n \<and> n_election n' = n_election n \<and>
      n_state n' = n_state n \<and> n_disk n' = n_disk n"
    using assms by (auto simp: node_timeout_now_def Let_def persist_new_term_def split: if_splits)
  then show ?thesis by (intro vote_neutral_same disk_step_same) simp_all
qed

lemma neutral_step_down:
  assumes "step_down t n = (n', res)"
  shows "vote_neutral n n'"
proof (cases "become_follower t None (n_state n)")
  case (Inl e)
  then show ?thesis using assms by (simp add: step_down_def)
next
  case (Inr s)
  have "n' = (persist_state (n\<lparr>n_state := s\<rparr>))\<lparr>n_replication := None\<rparr>"
    using assms Inr by (simp add: step_down_def)
  then show ?thesis
    by (intro vote_neutral_follower [OF Inr] disk_step_persist [of "n\<lparr>n_state := s\<rparr>"]) simp_all
qed

lemma neutral_worker_response:
  assumes "worker_response f request rt success n = (n', res)"
  shows "vote_neutral n n'"
proof -
  have "n' = n \<or> (\<exists>r. step_down rt n = (n', r)) \<or> (\<exists>q. n' = n\<lparr>n_replication := q\<rparr>)"
    using assms
    by (auto simp: worker_response_def Let_def split: option.splits if_splits sum.splits prod.splits
        worker_request.splits)
  then show ?thesis
    using neutral_step_down [of rt n n'] vote_neutral_same [of n' n] disk_step_same [of n' n] by auto
qed

lemma neutral_initialize:
  assumes "initialize_leader_replication n = (n', res)"
  shows "vote_neutral n n'" "n_state n' = n_state n" "n_disk n' = n_disk n"
  using assms
  by (auto simp: initialize_leader_replication_def split: if_splits option.splits sum.splits
      intro!: vote_neutral_same disk_step_same)

lemma neutral_finish:
  assumes "replicate_log_finish n = (n', res)"
  shows "vote_neutral n n'"
proof (cases "n_replication n = None \<or> role (n_state n) \<noteq> LEADER \<or>
    \<not> is_ok (advance_commit_index (n_log n) (the (n_replication n)) (n_state n))")
  case True
  then have "n' = n" using assms
    by (auto simp: replicate_log_finish_def split: option.splits if_splits sum.splits)
  then show ?thesis by simp
next
  case False
  then obtain r s c where r: "n_replication n = Some r" "role (n_state n) = LEADER"
      "advance_commit_index (n_log n) r (n_state n) = Ok (s, c)"
    by (auto simp: is_ok_iff)
  have s: "node_id s = node_id (n_state n) \<and> current_term s = current_term (n_state n) \<and>
      voted_for s = voted_for (n_state n) \<and> role s = role (n_state n)"
    using r(3) by (auto simp: advance_commit_index_def Let_def split: option.splits if_splits)
  obtain s2 st x where a: "apply_committed_entries (n_log n) s (n_store n) = ((s2, st), x)" by (metis prod.exhaust)
  have "n_id n' = n_id n \<and> n_members n' = n_members n \<and> n_election n' = n_election n \<and>
      (n_state n' = s \<or> n_state n' = s2) \<and> disk_step n n'"
    using assms r a apply_committed_fields [OF a] s
    by (auto simp: replicate_log_finish_def Let_def disk_step_def state_saved_def save_state_def
        split: if_splits option.splits)
  then show ?thesis using s apply_committed_fields [OF a] by (auto simp: vote_neutral_def)
qed

lemma neutral_submit_begin:
  assumes "submit_begin cs n = (n', res)"
  shows "vote_neutral n n'"
proof -
  have "n' = n \<or> (\<exists>l d. d \<in> {n_disk n, map_option (append_log_entries l) (n_disk n)} \<and>
     (\<exists>lg m. m = n\<lparr>n_log := lg, n_disk := d\<rparr> \<and> (n' = m \<or> n' = n\<lparr>n_log := lg\<rparr> \<or> (\<exists>r. initialize_leader_replication m = (n', r)))))"
    using assms unfolding submit_begin_def Let_def
    by (auto split: if_splits sum.splits prod.splits)
  then show ?thesis
  proof (elim disjE exE conjE)
    fix l d lg m r
    assume d: "d \<in> {n_disk n, map_option (append_log_entries l) (n_disk n)}" and m: "m = n\<lparr>n_log := lg, n_disk := d\<rparr>"
      and i: "initialize_leader_replication m = (n', r)"
    have "disk_step n m" using d by (auto simp: m disk_step_def split: option.splits)
    then have "disk_step n n'" by (rule disk_step_cong) (simp_all add: neutral_initialize(2,3) [OF i])
    then show ?thesis using neutral_initialize(1) [OF i] m by (simp add: vote_neutral_def)
  next
    fix l d lg m
    assume "d \<in> {n_disk n, map_option (append_log_entries l) (n_disk n)}" "m = n\<lparr>n_log := lg, n_disk := d\<rparr>" "n' = m"
    then show ?thesis
      by (auto intro!: vote_neutral_same simp: disk_step_def split: option.splits)
  qed (auto intro!: vote_neutral_same disk_step_same)
qed

lemma neutral_read_confirmed:
  assumes "read_confirmed t now q n = (n', res)"
  shows "vote_neutral n n'"
proof -
  obtain s st r where a: "apply_committed_entries (n_log n) (n_state n) (n_store n) = ((s, st), r)"
    by (metis prod.exhaust)
  note F = apply_committed_fields [OF a]
  have "n' = n \<or> n' = n\<lparr>last_read_quorum_term := Some t, last_read_quorum_time := Some now, n_state := s, n_store := st\<rparr>"
    using assms a by (simp add: read_confirmed_def node_apply_def split: if_splits)
  then show ?thesis
  proof
    assume n': "n' = n\<lparr>last_read_quorum_term := Some t, last_read_quorum_time := Some now, n_state := s, n_store := st\<rparr>"
    have "disk_step n n'" by (rule disk_step_same) (simp add: n')
    then show ?thesis using F by (simp add: n' vote_neutral_def)
  qed simp
qed

lemma neutral_transfer_finish:
  assumes "transfer_finish t response n = (n', res)"
  shows "vote_neutral n n'"
proof -
  have "n' = n \<or> (\<exists>r. step_down (tnr_term response) n = (n', r)) \<or>
     (\<exists>s. become_follower t None (n_state n) = Ok s \<and> n' = n\<lparr>n_state := s, n_replication := None\<rparr>)"
    using assms by (auto simp: transfer_finish_def split: if_splits sum.splits prod.splits)
  then show ?thesis
    using neutral_step_down by (auto intro: vote_neutral_follower simp: disk_step_same)
qed

lemma finish_install_effect:
  assumes "finish_install c sn l ci m = (n', res)"
  shows "n_id n' = n_id m \<and> n_members n' = n_members m \<and> n_election n' = n_election m \<and>
    node_id (n_state n') = node_id (n_state m) \<and> current_term (n_state n') = current_term (n_state m) \<and>
    voted_for (n_state n') = voted_for (n_state m) \<and> role (n_state n') = role (n_state m) \<and> disk_step m n'"
proof -
  define s where "s = (n_state m)\<lparr>commit_index := ci, last_applied := last_included_index sn\<rparr>"
  obtain s2 st r where a: "(if last_applied s < commit_index s
      then apply_committed_entries l s (kv_restore (snapshot_state sn) (n_store m))
      else ((s, kv_restore (snapshot_state sn) (n_store m)), Ok ())) = ((s2, st), r)"
    by (metis prod.exhaust)
  have s2: "node_id s2 = node_id s \<and> current_term s2 = current_term s \<and> voted_for s2 = voted_for s \<and> role s2 = role s"
    using a apply_committed_fields by (auto split: if_splits)
  have "n' = m\<lparr>n_disk := map_option (save_snapshot sn) (n_disk m)\<rparr> \<or>
    (n_id n' = n_id m \<and> n_members n' = n_members m \<and> n_election n' = n_election m \<and> n_state n' = s2 \<and> disk_step m n')"
    using assms unfolding finish_install_def Let_def s_def [symmetric] a
    by (auto simp: save_log_def disk_step_def split: option.splits sum.splits)
  moreover have "disk_step m (m\<lparr>n_disk := map_option (save_snapshot sn) (n_disk m)\<rparr>)"
    by (simp add: disk_step_def split: option.splits)
  ultimately show ?thesis using s2 by (auto simp: s_def)
qed

lemma neutral_install_snapshot:
  assumes "node_install_snapshot c req n = (n', res)"
  shows "vote_neutral n n'"
proof (cases "is_term req < current_term (n_state n)")
  case True
  then show ?thesis using assms by (simp add: node_install_snapshot_def)
next
  case False
  obtain s where s: "become_follower (is_term req) (Some (is_leader_id req)) (n_state n) = Ok s"
    using become_follower_Ok False by (metis not_less)
  define m where "m = n\<lparr>n_state := s, n_replication := None\<rparr>"
  define failed where "failed = (persist_new_term (current_term (n_state n)) m,
      Ok \<lparr>isr_term = current_term s, isr_success = False\<rparr>)"
  note body = assms [unfolded node_install_snapshot_def Let_def, simplified False s if_False sum.case,
      folded m_def, folded failed_def]
  have m: "n_id m = n_id n" "n_members m = n_members n" "n_election m = n_election n" "n_state m = s" "n_disk m = n_disk n"
    by (simp_all add: m_def)
  have p: "n_id (persist_new_term t m) = n_id n \<and> n_members (persist_new_term t m) = n_members n \<and>
      n_election (persist_new_term t m) = n_election n \<and> n_state (persist_new_term t m) = s \<and>
      (n_disk (persist_new_term t m) = n_disk n \<or> n_disk (persist_new_term t m) = map_option (save_state s) (n_disk n))" for t
    by (simp add: persist_new_term_def m)
  have "(n_id n' = n_id n \<and> n_members n' = n_members n \<and> n_election n' = n_election n \<and> n_state n' = s \<and>
      (n_disk n' = n_disk n \<or> n_disk n' = map_option (save_state s) (n_disk n))) \<or>
      (\<exists>sn l ci. finish_install c sn l ci m = (n', res))"
    using body p [of "current_term (n_state n)"] m by (auto simp: failed_def split: if_splits sum.splits)
  then show ?thesis
  proof (elim disjE conjE exE)
    fix sn l ci assume "finish_install c sn l ci m = (n', res)"
    from finish_install_effect [OF this] show ?thesis
      using m by (intro vote_neutral_follower [OF s]) (auto simp: disk_step_def)
  qed (auto intro!: vote_neutral_follower [OF s] intro: disk_step_same disk_step_persist [of m] simp: m)
qed

section \<open>The operations of an election\<close>

text \<open>The first section of \<open>tick\<close>: nothing, or a new term with a vote for oneself, on disk.\<close>

lemma tick_begin_effect:
  assumes "tick_begin c n = (n', res)"
  obtains (idle) "vote_neutral n n'" "n_state n' = n_state n" "\<And>reqs. res = Ok reqs \<Longrightarrow> reqs = []"
    | (started) t s b where "tracker_start (n_election n) (n_state n) = ((t, s), Ok b)"
      "n_id n' = n_id n" "n_members n' = n_members n" "n_state n' = s" "n_election n' = t"
      "n_disk n' = map_option (save_state s) (n_disk n)"
      "\<And>reqs p q. res = Ok reqs \<Longrightarrow> (p, q) \<in> set reqs \<Longrightarrow>
         rv_term q = current_term s \<and> rv_candidate_id q = node_id s"
proof (cases "timer_expired c (n_timer n)")
  case False
  then have e: "start_election_if_needed c (last_index (n_log n)) (last_term (n_log n)) (n_election n) (n_timer n) (n_state n) =
      ((n_election n, n_timer n, n_state n), Ok [])"
    by (simp add: start_election_if_needed_def)
  obtain k r where i: "initialize_leader_replication n = (k, r)" by fastforce
  note I = neutral_initialize [OF i]
  have "n' = n \<or> n' = k \<or> n' = observe LeadershipChange k" "\<And>reqs. res = Ok reqs \<Longrightarrow> reqs = []"
    using assms by (auto simp: tick_begin_def e i Let_def split: if_splits sum.splits)
  moreover have "vote_neutral n (observe LeadershipChange k)"
    using I(1) by (auto simp: vote_neutral_def disk_step_def split: option.splits)
  ultimately show thesis using I by (intro idle) auto
next
  case True
  obtain t s b where start: "tracker_start (n_election n) (n_state n) = ((t, s), Ok b)"
    using tracker_start_Ok by blast
  note T = tracker_start_state [OF start]
  define reqs where "reqs = (if role s = LEADER then [] else map (\<lambda>p. (p, \<lparr>rv_term = current_term s,
      rv_candidate_id = node_id s, rv_last_log_index = last_index (n_log n), rv_last_log_term = last_term (n_log n)\<rparr>))
      (filter (\<lambda>p. p \<noteq> node_id s) (tracker_members t)))"
  have e: "start_election_if_needed c (last_index (n_log n)) (last_term (n_log n)) (n_election n) (n_timer n) (n_state n) =
      ((t, timer_reset c (n_timer n), s), Ok reqs)"
    using True by (simp add: start_election_if_needed_def start reqs_def Let_def)
  define k where "k = (if voted_for s = Some (n_id n)
      then observe ElectionAttempt (n\<lparr>n_election := t, n_timer := timer_reset c (n_timer n), n_state := s\<rparr>)
      else n\<lparr>n_election := t, n_timer := timer_reset c (n_timer n), n_state := s\<rparr>)"
  have K: "n_id k = n_id n" "n_members k = n_members n" "n_state k = s" "n_election k = t" "n_disk k = n_disk n"
    by (simp_all add: k_def)
  obtain x r where i: "initialize_leader_replication (persist_state k) = (x, r)" by fastforce
  have X: "n_id x = n_id n" "n_members x = n_members n" "n_state x = s" "n_election x = t"
      "n_disk x = map_option (save_state s) (n_disk n)"
    using neutral_initialize [OF i] K by (simp_all add: vote_neutral_def)
  have changed: "current_term s \<noteq> current_term (n_state n)" using T(4) by simp
  have "tick_begin c n = (if role s = LEADER then
      (case initialize_leader_replication (persist_state k) of (m, Inl e) \<Rightarrow> (m, Err e)
        | (m, Inr _) \<Rightarrow> (if role (n_state n) \<noteq> LEADER then observe LeadershipChange m else m, Ok []))
      else (persist_state k, Ok reqs))"
    using changed by (simp add: tick_begin_def e Let_def k_def)
  then have out: "n' \<in> {x, observe LeadershipChange x, persist_state k} \<and> (\<forall>rs. res = Ok rs \<longrightarrow> rs = [] \<or> rs = reqs)"
    using assms unfolding i by (auto split: sum.splits if_splits)
  have "rv_term q = current_term s \<and> rv_candidate_id q = node_id s" if "(p, q) \<in> set reqs" for p q
    using that by (auto simp: reqs_def split: if_splits)
  then show thesis
    using out X K by (intro started [OF start]) auto
qed

text \<open>A vote: recorded in the state file before the response.\<close>

lemma node_request_vote_effect:
  assumes "node_request_vote c req n = (n', res)"
  obtains s r where "handle_request_vote req (last_index (n_log n)) (last_term (n_log n)) (n_state n) = Ok (s, r)"
    "res = Ok r" "n_id n' = n_id n" "n_members n' = n_members n" "n_state n' = s" "n_election n' = n_election n"
    "n_disk n' = map_option (save_state s) (n_disk n)"
proof -
  obtain s r where h: "handle_request_vote req (last_index (n_log n)) (last_term (n_log n)) (n_state n) = Ok (s, r)"
    "node_request_vote c req n = (drop_replication (let m = persist_state (n\<lparr>n_state := s\<rparr>)
         in if rvr_vote_granted r then m\<lparr>n_timer := timer_reset c (n_timer m)\<rparr> else m), Ok r)"
    by (rule node_request_vote_eq)
  then show thesis using assms by (intro that [OF h(1)]) (auto simp: Let_def)
qed

text \<open>A response to a vote request: ignored, or recorded in the tally.\<close>

lemma tick_response_effect:
  assumes "tick_response peer req outcome n = (n', res)"
  obtains (ignored) "n' = n"
    | (recorded) a t s r where "outcome = Ok a" "role (n_state n) = CANDIDATE" "current_term (n_state n) = rv_term req"
      "record_vote peer a (n_election n) (n_state n) = ((t, s), r)"
      "n_id n' = n_id n" "n_members n' = n_members n" "n_state n' = s" "n_election n' = t"
      "n_disk n' = n_disk n \<or> n_disk n' = map_option (save_state s) (n_disk n)"
proof (cases "\<exists>a. outcome = Ok a \<and> role (n_state n) = CANDIDATE \<and> current_term (n_state n) = rv_term req")
  case False
  then have "n' = n"
    using assms by (cases outcome) (auto simp: tick_response_def Let_def split: if_splits)
  then show thesis by (rule ignored)
next
  case True
  then obtain a where a: "outcome = Ok a" "role (n_state n) = CANDIDATE" "current_term (n_state n) = rv_term req" by blast
  obtain t s r where v: "record_vote peer a (n_election n) (n_state n) = ((t, s), r)" by (metis prod.exhaust)
  define k where "k = n\<lparr>n_election := t, n_state := s\<rparr>"
  define m where "m = (if current_term s \<noteq> current_term (n_state n) \<or> voted_for s \<noteq> voted_for (n_state n)
      then persist_state k else k)"
  have M: "n_id m = n_id n" "n_members m = n_members n" "n_state m = s" "n_election m = t"
      "n_disk m = n_disk n \<or> n_disk m = map_option (save_state s) (n_disk n)"
    by (auto simp: m_def k_def)
  obtain x y where i: "initialize_leader_replication m = (x, y)" by fastforce
  have X: "n_id x = n_id n" "n_members x = n_members n" "n_state x = s" "n_election x = t" "n_disk x = n_disk m"
    using neutral_initialize [OF i] M by (simp_all add: vote_neutral_def)
  have "tick_response peer req outcome n = (case r of Inl e \<Rightarrow> (k, Err e)
      | Inr _ \<Rightarrow> if role s = LEADER then
          (case initialize_leader_replication m of (x, Inl e) \<Rightarrow> (x, Err e)
            | (x, Inr _) \<Rightarrow> (observe LeadershipChange x, Ok (Some LEADER)))
        else if role s = FOLLOWER then (m\<lparr>n_replication := None\<rparr>, Ok (Some FOLLOWER)) else (m, Ok None))"
    unfolding tick_response_def a(1) sum.case v prod.case Let_def m_def k_def using a(2,3)
    by (simp split: sum.splits)
  then have "n' \<in> {k, m, x, observe LeadershipChange x, m\<lparr>n_replication := None\<rparr>}"
    using assms unfolding i by (auto split: sum.splits if_splits)
  then show thesis using X M by (intro recorded [OF a v]) (auto simp: k_def)
qed

section \<open>Recovery\<close>

lemma load_log_state_file: "load_log d = (d', r) \<Longrightarrow> state_file d' = state_file d"
  by (auto simp: load_log_def save_log_def split: option.splits if_splits json_text.splits json.splits sum.splits)

lemma load_files_state:
  assumes "load_files nid d = (d', r)"
  shows "state_file d' = state_file d" "r = Ok (s, sn, l) \<Longrightarrow> load_state nid d = Ok s"
  using assms
  by (auto simp: load_files_def save_log_def split: sum.splits prod.splits if_splits dest!: load_log_state_file)

text \<open>A node that comes up has the term and the vote of its state file, and keeps them there.\<close>

lemma node_init_effect:
  assumes "node_init c nid members (Some d) = (dsk, Ok n)"
  obtains s0 d' s1 where "load_state nid d = Ok s0" "nid \<in> set members" "n_id n = nid" "n_members n = members"
    "node_id (n_state n) = nid" "current_term (n_state n) = current_term s0" "voted_for (n_state n) = voted_for s0"
    "role (n_state n) = FOLLOWER" "n_election n = \<lparr>tracker_members = members, votes_received = [], active = False\<rparr>"
    "n_disk n = Some d'" "load_state nid d' = Ok s1" "current_term s1 = current_term s0" "voted_for s1 = voted_for s0"
proof -
  have mem: "nid \<in> set members" using assms by (auto simp: node_init_def split: if_splits)
  obtain d1 r where lf: "load_files nid d = (d1, r)" by fastforce
  obtain s0 sn l where r: "r = Ok (s0, sn, l)"
    using assms mem lf by (cases r) (auto simp: node_init_def)
  define s1 where "s1 = (if commit_index s0 < last_included_index sn
      then s0\<lparr>commit_index := last_included_index sn\<rparr> else s0)"
  define d2 where "d2 = (if commit_index s0 < last_included_index sn then save_state s1 d1 else d1)"
  define s2 where "s2 = s1\<lparr>last_applied := last_included_index sn\<rparr>"
  define st0 where "st0 = kv_restore (snapshot_state sn) kv_empty"
  obtain s3 st x where app: "(if last_applied s2 < commit_index s2 then apply_committed_entries l s2 st0
      else ((s2, st0), Ok ())) = ((s3, st), x)"
    by (metis prod.exhaust)
  note L = load_files_state [OF lf]
  have s0: "load_state nid d = Ok s0" using L(2) r by blast
  have id: "node_id s0 = nid"
    using s0 by (auto simp: load_state_def raft_state_default_def split: option.splits json_text.splits
        sum.splits json.splits)
  have s3: "node_id s3 = nid" "current_term s3 = current_term s0" "voted_for s3 = voted_for s0"
    using app id by (auto simp: s2_def s1_def dest: apply_committed_fields split: if_splits)
  define s4 where "s4 = s3\<lparr>role := FOLLOWER, leader_id := None\<rparr>"
  have track: "tracker_init s4 members = Ok \<lparr>tracker_members = members, votes_received = [], active = False\<rparr>"
    using mem s3(1) by (auto simp: tracker_init_def s4_def)
  have behind: "s0\<lparr>commit_index := last_included_index sn\<rparr> = s1" if "commit_index s0 < last_included_index sn"
    using that by (simp add: s1_def)
  have "node_init c nid members (Some d) =
      (if last_index l < commit_index s1 then (Some d2, Err RuntimeError)
       else (case x of Inl e \<Rightarrow> (Some d2, Err e)
         | Inr _ \<Rightarrow> (Some d2, Ok \<lparr>n_id = nid, n_members = members, n_state = s4,
             n_snapshot = sn, n_log = l, n_store = st,
             n_timer = default_timer c, n_election = \<lparr>tracker_members = members, votes_received = [], active = False\<rparr>,
             n_replication = None, n_disk = Some d2,
             read_lease_duration = 1 / 2, last_read_quorum_term = None,
             last_read_quorum_time = None, transfer_in_progress = False,
             n_observer = None\<rparr>)))"
    using mem app track
    by (simp add: node_init_def lf r Let_def s1_def [symmetric] s2_def [symmetric] st0_def [symmetric]
        s4_def [symmetric] d2_def behind split: sum.splits)
  then have n: "n = \<lparr>n_id = nid, n_members = members, n_state = s4,
             n_snapshot = sn, n_log = l, n_store = st,
             n_timer = default_timer c, n_election = \<lparr>tracker_members = members, votes_received = [], active = False\<rparr>,
             n_replication = None, n_disk = Some d2,
             read_lease_duration = 1 / 2, last_read_quorum_term = None,
             last_read_quorum_time = None, transfer_in_progress = False,
             n_observer = None\<rparr>"
    using assms by (auto split: if_splits sum.splits)
  have "load_state nid d1 = Ok s0" using load_state_cong [OF L(1)] s0 by simp
  then obtain s5 where "load_state nid d2 = Ok s5" "current_term s5 = current_term s0" "voted_for s5 = voted_for s0"
    by (cases "commit_index s0 < last_included_index sn") (auto simp: d2_def s1_def)
  then show thesis using s0 mem s3 by (intro that [of s0 d2 s5]) (simp_all add: n s4_def)
qed

lemma node_init_no_files:
  assumes "node_init c nid members None = (dsk, Ok n)"
  shows "nid \<in> set members" "n_id n = nid" "n_members n = members" "node_id (n_state n) = nid"
    "current_term (n_state n) = 0" "voted_for (n_state n) = None" "role (n_state n) = FOLLOWER"
    "n_election n = \<lparr>tracker_members = members, votes_received = [], active = False\<rparr>" "n_disk n = None"
  using assms
  by (auto simp: node_init_def Let_def empty_log_def empty_snapshot_def last_index_def raft_state_default_def
      tracker_init_def split: if_splits)

end
