(* ===== verification/NodeLife.thy ===== *)
theory NodeLife
  imports VoteFrame
begin

text \<open>
  The life of one node: the step relation of everything that changes a node (the handlers, the
  sections of the node's own operations, a restart from its files), the states reachable from
  start-up, and two facts about them. The invariant \<open>node_ok\<close> always holds, and what is
  committed stays: the commit index never decreases and a committed entry never changes.
\<close>

section \<open>The steps of a node\<close>

text \<open>
  Each rule is one critical section of \<^verbatim>\<open>raft/node.py\<close>. A message of the leader is assumed to be
  well formed and to agree with what the node has committed, the guarantee of the leaders of the
  protocol (\<open>agrees_committed\<close>). No other message is restricted.
\<close>

inductive node_step :: "raft_node \<Rightarrow> raft_node \<Rightarrow> bool" where
  election: "tick_begin c n = (n', r1) \<Longrightarrow> node_step n n'"
| tally: "tick_response peer rv outcome n = (n', r2) \<Longrightarrow> node_step n n'"
| vote: "node_request_vote c rv n = (n', r3) \<Longrightarrow> node_step n n'"
| append: "wf_append_request ae \<Longrightarrow> agrees_committed ae (n_state n) (n_log n) \<Longrightarrow>
    node_append_entries c ae n = (n', r4) \<Longrightarrow> node_step n n'"
| install: "wf_install_request ins \<Longrightarrow> node_install_snapshot c ins n = (n', r5) \<Longrightarrow> node_step n n'"
| timeout: "node_timeout_now tn n = (n', r6) \<Longrightarrow> node_step n n'"
| snapshot: "create_snapshot n = (n', r7) \<Longrightarrow> node_step n n'"
| start_replication: "initialize_leader_replication n = (n', r8) \<Longrightarrow> node_step n n'"
| progress: "worker_response f request t success n = (n', r9) \<Longrightarrow> node_step n n'"
| commit: "replicate_log_finish n = (n', r10) \<Longrightarrow> node_step n n'"
| submit: "submit_begin cs n = (n', r11) \<Longrightarrow> node_step n n'"
| transfer_flag: "n' = n\<lparr>transfer_in_progress := b\<rparr> \<Longrightarrow> node_step n n'"
| transfer: "transfer_finish t response n = (n', r12) \<Longrightarrow> node_step n n'"
| read: "read_confirmed t now q n = (n', r13) \<Longrightarrow> node_step n n'"
| observer: "n' = set_observer obs n \<Longrightarrow> node_step n n'"
| restart: "n_disk n = Some d \<Longrightarrow> node_init c (n_id n) (n_members n) (Some d) = (dsk, Ok n') \<Longrightarrow> node_step n n'"

text \<open>A node starts with no data directory, or with an empty one.\<close>

inductive node_reachable :: "raft_node \<Rightarrow> bool" where
  start: "distinct members \<Longrightarrow> dsk = None \<or> dsk = Some empty_disk \<Longrightarrow>
    node_init c i members dsk = (dsk', Ok n) \<Longrightarrow> node_reachable n"
| step: "node_reachable n \<Longrightarrow> node_step n n' \<Longrightarrow> node_reachable n'"

section \<open>The invariant\<close>

lemma restart_ok:
  assumes ok: "node_ok n" and d: "n_disk n = Some d"
    and init: "node_init c (n_id n) (n_members n) (Some d) = (dsk, Ok n')"
  shows "n' = recovered c (n_members n) (n_state n) (n_snapshot n) (n_log n) (n_store n) (Some d)"
    "node_ok n'"
proof -
  have wf: "node_wf n" "node_durable n" using ok by (simp_all add: node_ok_def)
  show n': "n' = recovered c (n_members n) (n_state n) (n_snapshot n) (n_log n) (n_store n) (Some d)"
    using restart_durable [OF wf d, of c] init by simp
  have W: "node_id (n_state n) = n_id n" "n_id n \<in> set (n_members n)" "distinct (n_members n)"
      "0 \<le> current_term (n_state n)"
    using wf(1) by (simp_all add: node_wf_def)
  have "node_wf n'" unfolding n' using recovered_wf [OF node_wf_data [OF wf(1)]] W by simp
  moreover have "node_durable n'"
    using wf(2) d W(1) by (simp add: n' node_durable_def durable_state_def durable_log_def recovered_def)
  ultimately show "node_ok n'" by (simp add: node_ok_def)
qed

lemma start_data: "data_wf (raft_state_default i) empty_snapshot empty_log []"
  by (simp add: data_wf_def wf_terms_def valid_entries_def raft_state_default_def empty_snapshot_def
      empty_log_def last_index_def slice_def wf_log_def wf_snapshot_def)

lemma start_load: "load_files i empty_disk = (empty_disk, Ok (raft_state_default i, empty_snapshot, empty_log))"
  by (simp add: load_files_def load_state_def load_snapshot_def load_log_def empty_disk_def empty_snapshot_def empty_log_def)

lemma node_init_empty:
  assumes "i \<in> set members"
  shows "node_init c i members (Some empty_disk) = (Some empty_disk,
    Ok (recovered c members (raft_state_default i) empty_snapshot empty_log [] (Some empty_disk)))"
  using node_init_recovered [OF start_load assms _ start_data, where t = 0 and v = None and ci = 0 and c = c]
  by (auto simp: raft_state_default_def empty_log_def)

lemma start_ok:
  assumes "distinct members" "dsk = None \<or> dsk = Some empty_disk"
    and init: "node_init c i members dsk = (dsk', Ok n)"
  shows "node_ok n" "commit_index (n_state n) = 0" "n_log n = empty_log" "n_store n = []"
proof -
  have mem: "i \<in> set members" using init by (auto simp: node_init_def split: if_splits)
  have n: "n = recovered c members (raft_state_default i) empty_snapshot empty_log [] dsk \<and> dsk' = dsk"
    using assms(2)
  proof
    assume dsk: "dsk = Some empty_disk"
    show ?thesis
      using node_init_empty [OF mem, of c] init by (auto simp: dsk)
  next
    assume "dsk = None"
    moreover have "members \<noteq> []" using mem by auto
    ultimately show ?thesis using init mem
      by (auto simp: node_init_def raft_state_default_def empty_log_def empty_snapshot_def last_index_def
          tracker_init_def recovered_def kv_restore_def kv_empty_def Let_def)
  qed
  have wf: "node_wf n"
    using recovered_wf [OF start_data] mem assms(1) n by (simp add: raft_state_default_def)
  have "node_durable n"
    using assms(2) n start_load [of i]
    by (auto simp: node_durable_def durable_state_def durable_log_def recovered_def load_state_def
        load_snapshot_def empty_disk_def raft_state_default_def journal_replays_def)
  then show "node_ok n" using wf by (simp add: node_ok_def)
  show "commit_index (n_state n) = 0" "n_log n = empty_log" "n_store n = []"
    using n by (simp_all add: recovered_def raft_state_default_def)
qed

lemma node_step_ok:
  assumes "node_step n n'" "node_ok n"
  shows "node_ok n'"
  using assms
proof cases
  case (election c r)
  then show ?thesis using tick_begin_ok assms(2) by blast
next
  case (tally peer rv outcome r)
  then show ?thesis using tick_response_ok assms(2) by blast
next
  case (vote c rv r)
  then show ?thesis using handlers_ok(1) [OF assms(2), of c rv] by simp
next
  case (append ae c r)
  then show ?thesis using handlers_ok(2) [OF assms(2), of ae c] by simp
next
  case (install ins c r)
  then show ?thesis using handlers_ok(3) [OF assms(2), of ins c] by simp
next
  case (timeout tn r)
  then show ?thesis using handlers_ok(4) [OF assms(2), of tn] by simp
next
  case (snapshot r)
  then show ?thesis using handlers_ok(5) [OF assms(2)] by simp
next
  case (start_replication r)
  then show ?thesis using initialize_ok(1) assms(2) by blast
next
  case (progress f request t success r)
  then show ?thesis using worker_response_ok assms(2) by blast
next
  case (commit r)
  then show ?thesis using replicate_log_finish_ok(1) assms(2) by blast
next
  case (submit cs r)
  from this(1) assms(2) show ?thesis by (cases rule: submit_begin_cases) (use assms(2) in simp_all)
next
  case (transfer_flag b)
  then show ?thesis using assms(2) by simp
next
  case (transfer t response r)
  then show ?thesis using transfer_finish_ok assms(2) by blast
next
  case (read t now q r)
  then show ?thesis using read_confirmed_cases(1) assms(2) by blast
next
  case (observer obs)
  then show ?thesis using node_ok_same [OF assms(2), of n'] by (simp add: set_observer_def)
next
  case (restart d c dsk)
  then show ?thesis using restart_ok(2) assms(2) by blast
qed

lemma node_reachable_ok: "node_reachable n \<Longrightarrow> node_ok n"
  by (induction rule: node_reachable.induct) (auto intro: start_ok(1) node_step_ok)

section \<open>Committed entries stay\<close>

text \<open>
  What every step keeps: the term and the commit index do not decrease, the log's base does not
  either, and below the old commit index the log that is left reads as before.
\<close>

definition commit_kept :: "raft_node \<Rightarrow> raft_node \<Rightarrow> bool" where
  "commit_kept n n' =
     (n_id n' = n_id n \<and> current_term (n_state n) \<le> current_term (n_state n') \<and>
      commit_index (n_state n) \<le> commit_index (n_state n') \<and> base_index (n_log n) \<le> base_index (n_log n') \<and>
      (\<forall>i. base_index (n_log n') < i \<longrightarrow> i \<le> commit_index (n_state n) \<longrightarrow>
         log_get i (n_log n') = log_get i (n_log n)))"

lemma commit_kept_refl [simp]: "commit_kept n n"
  by (simp add: commit_kept_def)

lemma commit_kept_trans: "commit_kept a b \<Longrightarrow> commit_kept b c \<Longrightarrow> commit_kept a c"
  unfolding commit_kept_def by (metis (no_types, lifting) order_trans order_le_less_trans)

lemma commit_kept_same_log:
  "n_id n' = n_id n \<Longrightarrow> n_log n' = n_log n \<Longrightarrow> current_term (n_state n) \<le> current_term (n_state n') \<Longrightarrow>
   commit_index (n_state n) \<le> commit_index (n_state n') \<Longrightarrow> commit_kept n n'"
  by (simp add: commit_kept_def)

lemma initialize_log: "initialize_leader_replication n = (n', r) \<Longrightarrow> n_log n' = n_log n"
  by (auto simp: initialize_leader_replication_def split: if_splits option.splits sum.splits)

lemma tick_begin_log: "tick_begin c n = (n', r) \<Longrightarrow> n_log n' = n_log n"
  by (auto simp: tick_begin_def Let_def split: if_splits prod.splits sum.splits dest!: initialize_log)

lemma tick_response_log: "tick_response peer rv outcome n = (n', r) \<Longrightarrow> n_log n' = n_log n"
  by (auto simp: tick_response_def Let_def split: if_splits prod.splits sum.splits dest!: initialize_log)

lemma step_down_log: "step_down t n = (n', r) \<Longrightarrow> n_log n' = n_log n \<and>
    commit_index (n_state n') = commit_index (n_state n)"
  by (auto simp: step_down_def dest: become_follower_OkD split: sum.splits)

lemma transfer_finish_log: "transfer_finish t response n = (n', r) \<Longrightarrow> n_log n' = n_log n \<and>
    commit_index (n_state n') = commit_index (n_state n)"
  by (auto simp: transfer_finish_def dest: become_follower_OkD step_down_log split: sum.splits if_splits prod.splits)

lemma neutral_term: "vote_neutral n n' \<Longrightarrow> n_id n' = n_id n \<and> current_term (n_state n) \<le> current_term (n_state n')"
  by (auto simp: vote_neutral_def)

lemma replicate_log_finish_store:
  assumes step: "replicate_log_finish n = (n', res)" and ok: "node_ok n"
  shows "n_store n' = run_commands (slice (commit_index (n_state n)) (commit_index (n_state n')) (n_log n)) (n_store n)"
proof -
  have wf: "node_wf n" using ok by (simp add: node_ok_def)
  note D = data_wfD [OF node_wf_data [OF wf]]
  have same: "run_commands (slice c c (n_log n)) st = st" for c st by (simp add: slice_def)
  show ?thesis
  proof (cases "n_replication n")
    case None
    then show ?thesis using step same by (simp add: replicate_log_finish_def)
  next
    case (Some r)
    have R: "wf_replication r (n_state n)" using wf Some by (simp add: node_wf_def)
    obtain s x where a: "advance_commit_index (n_log n) r (n_state n) = Ok (s, x)"
      using advance_commit_index_Ok [OF R] by blast
    note A = advance_commit_index_cases [OF a D(1) R]
    have s: "s = (n_state n)\<lparr>commit_index := commit_index s\<rparr>" by (rule A(2))
    have "last_applied s = last_applied (n_state n)" by (subst s) simp
    moreover have "commit_index s \<le> last_index (n_log n)" using A(4) D(8) by (cases "commit_index s = commit_index (n_state n)") auto
    ultimately have "apply_committed_entries (n_log n) s (n_store n) =
        ((s\<lparr>last_applied := commit_index s\<rparr>,
          run_commands (slice (commit_index (n_state n)) (commit_index s) (n_log n)) (n_store n)), Ok ())"
      using apply_committed_reference [OF D(1,3), of s "n_store n"] D(7,9) A(3) by simp
    then show ?thesis
      using step a Some same by (auto simp: replicate_log_finish_def Let_def split: if_splits)
  qed
qed

text \<open>When a batch is accepted.\<close>

lemma submit_begin_decision:
  assumes step: "submit_begin cs n = (n', res)" and ok: "node_ok n"
  shows "(is_ok res \<longleftrightarrow> \<not> transfer_in_progress n \<and> role (n_state n) = LEADER \<and> list_all valid_command cs) \<and>
    (res = Err LeadershipTransferInProgressError \<longleftrightarrow> transfer_in_progress n) \<and>
    (res = Err NotLeaderError \<longleftrightarrow> \<not> transfer_in_progress n \<and> role (n_state n) \<noteq> LEADER) \<and>
    (is_ok res \<or> n' = n)"
proof (cases "\<not> transfer_in_progress n \<and> role (n_state n) = LEADER")
  case False
  then show ?thesis using step by (cases "transfer_in_progress n") (auto simp: submit_begin_def)
next
  case True
  have wf: "node_wf n" using ok by (simp add: node_ok_def)
  have check: "for_each check_command cs () = Ok () \<longleftrightarrow> list_all valid_command cs"
    by (simp add: check_commands_valid list_all_iff)
  show ?thesis
  proof (cases "for_each check_command cs ()")
    case (Inl e)
    have "e = ValueError" using Inl
      by (induction cs) (auto simp: check_command_def split: if_splits)
    then show ?thesis using True step Inl check by (auto simp: submit_begin_def)
  next
    case (Inr u)
    obtain es where es: "append_commands (current_term (n_state n)) cs (n_log n) =
        ((n_log n)\<lparr>entries := entries (n_log n) @ es\<rparr>, Ok es)"
      using append_commands_Ok [OF node_wf_log [OF wf], of "current_term (n_state n)" cs] wf
      by (auto simp: node_wf_def)
    define k where "k = n\<lparr>n_log := (n_log n)\<lparr>entries := entries (n_log n) @ es\<rparr>,
      n_disk := map_option (append_log_entries es) (n_disk n)\<rparr>"
    have "snd (initialize_leader_replication k) = Ok ()"
      using True wf
      by (auto simp: k_def initialize_leader_replication_def leader_replication_init_def node_wf_def Let_def
          split: option.splits)
    then have "is_ok res"
      using True step Inr es
      by (auto simp: submit_begin_def k_def Let_def split: prod.splits sum.splits)
    then show ?thesis using True Inr check by auto
  qed
qed

lemma node_append_entries_handler:
  assumes "node_append_entries c ae n = (n', Ok a)"
  shows "\<exists>s l st. handle_append_entries ae (n_state n) (n_log n) (Some (n_store n)) = ((s, l, st), Ok a) \<and>
    n_state n' = s \<and> n_log n' = l"
proof -
  obtain s l st r where h: "handle_append_entries ae (n_state n) (n_log n) (Some (n_store n)) = ((s, l, st), r)"
    by (metis prod.exhaust)
  then show ?thesis
    using assms unfolding node_append_entries_def h
    by (auto simp: Let_def split: sum.splits option.splits)
qed

lemma commit_kept_append:
  assumes step: "node_append_entries c ae n = (n', res)" and ok: "node_ok n"
    and ae: "wf_append_request ae" "agrees_committed ae (n_state n) (n_log n)"
  shows "commit_kept n n'"
proof -
  have data: "data_wf (n_state n) (n_snapshot n) (n_log n) (n_store n)"
    using ok by (simp add: node_ok_def node_wf_data)
  note D = data_wfD [OF data]
  obtain s l st r where h: "handle_append_entries ae (n_state n) (n_log n) (Some (n_store n)) = ((s, l, st), r)"
    by (metis prod.exhaust)
  have "n' = n \<or> n_state n' = s \<and> n_log n' = l"
    using step unfolding node_append_entries_def h
    by (auto simp: Let_def split: sum.splits option.splits)
  moreover have "base_index l = base_index (n_log n) \<and> commit_index (n_state n) \<le> commit_index s \<and>
      (\<forall>i \<le> commit_index (n_state n). log_get i l = log_get i (n_log n))"
    using h
  proof (cases rule: handle_append_entries_cases)
    case stale
    then show ?thesis by simp
  next
    case refused
    then show ?thesis using become_follower_OkD(7) by fastforce
  next
    case (sync_error e)
    have "sync_entries (ae_entries ae) (n_log n) = (repaired (ae_prev_log_index ae) (ae_entries ae) (n_log n), Ok ())"
      using sync_entries_repaired [OF D(1) wf_append_requestD(1) [OF ae(1)]] term_at_range [OF D(1) sync_error(4)] by blast
    then show ?thesis using sync_error(5) by simp
  next
    case no_store
    then show ?thesis by simp
  next
    case (committed s1 store store' r')
    note R = term_at_range [OF D(1) committed(4)]
    have l: "l = repaired (ae_prev_log_index ae) (ae_entries ae) (n_log n)"
      using sync_entries_repaired [OF D(1) wf_append_requestD(1) [OF ae(1)] R] committed(5) by simp
    have get: "log_get i l = log_get i (n_log n)" if "i \<le> commit_index (n_state n)" for i
      unfolding l using repaired_agrees [OF D(1) ae(1) R ae(2) that D(8)] .
    have "commit_index (n_state n) \<le> last_index l"
      using last_index_ge_commit [OF D(1) _ _ D(7,8) get] handle_append_entries_wf(1,2) [OF h D(1)] by blast
    then show ?thesis
      using get handle_append_entries_wf(2) [OF h D(1)] update_follower_commit_fields(6) [OF committed(8)]
        become_follower_OkD(7) [OF committed(2)] by auto
  qed
  moreover have "n_id n' = n_id n \<and> current_term (n_state n) \<le> current_term (n_state n')"
    using neutral_term neutral_append_entries [OF step] by blast
  ultimately show ?thesis by (auto simp: commit_kept_def)
qed

lemma commit_kept_install:
  assumes step: "node_install_snapshot c q n = (n', res)" and ok: "node_ok n" and q: "wf_install_request q"
  shows "commit_kept n n'"
proof -
  have wf: "node_wf n" using ok by (simp add: node_ok_def)
  note T = neutral_term [OF neutral_install_snapshot [OF step]]
  note L = node_wf_log [OF wf]
  from step wf q show ?thesis
  proof (cases rule: node_install_snapshot_cases)
    case stale
    then show ?thesis by simp
  next
    case (unchanged s m)
    have "n_log m = n_log n" "n_state m = s"
      using unchanged(2) by (simp_all add: persist_new_term_def)
    then have "n_log n' = n_log n" "n_state n' = s" using unchanged(3) by auto
    then show ?thesis using T become_follower_OkD(7) [OF unchanged(1)] by (simp add: commit_kept_same_log)
  next
    case (installed s sn l s' store dsk)
    have n': "n_log n' = l" "n_state n' = s'" using installed(9) by (simp_all add: Let_def)
    have t: "0 \<le> is_last_included_term q"
      using raft_snapshot_OkD [OF installed(2)] by (simp add: wf_snapshot_def)
    note G = install_snapshot_boundary_get [OF L t installed(3)]
    have "commit_index s = commit_index (n_state n)" using become_follower_OkD(7) [OF installed(1)] .
    then show ?thesis
      using T G installed(4,5) n' by (auto simp: commit_kept_def split: if_splits)
  qed
qed

lemma commit_kept_snapshot:
  assumes step: "create_snapshot n = (n', res)" and ok: "node_ok n"
  shows "commit_kept n n'"
proof -
  have wf: "node_wf n" using ok by (simp add: node_ok_def)
  note D = data_wfD [OF node_wf_data [OF wf]]
  from step wf show ?thesis
  proof (cases rule: create_snapshot_cases)
    case nothing
    then show ?thesis by simp
  next
    case (compacted trm sn l)
    have n': "n_log n' = l" "n_state n' = n_state n" "n_id n' = n_id n" using compacted(7) by simp_all
    show ?thesis
      using compact_through_get [OF D(1,2) compacted(3)] compacted(1) by (auto simp: commit_kept_def n')
  qed
qed

lemma log_get_appended:
  assumes "wf_log l" "i \<le> last_index l" "contiguous (last_index l) es"
  shows "log_get i (l\<lparr>entries := entries l @ es\<rparr>) = log_get i l"
proof -
  have "for_each append_entry es l = Ok (l\<lparr>entries := entries l @ es\<rparr>)"
    using for_each_append_entry [OF assms(1,3)] .
  then show ?thesis using rl.push_all [OF assms(1,3)] assms(2) by auto
qed

lemma commit_kept_submit:
  assumes step: "submit_begin cs n = (n', res)" and ok: "node_ok n"
  shows "commit_kept n n'"
proof -
  have wf: "node_wf n" using ok by (simp add: node_ok_def)
  note D = data_wfD [OF node_wf_data [OF wf]]
  note T = neutral_term [OF neutral_submit_begin [OF step]]
  from step ok show ?thesis
  proof (cases rule: submit_begin_cases)
    case (refused e)
    then show ?thesis by simp
  next
    case (accepted es)
    then show ?thesis
      using T log_get_appended [OF D(1) order_trans [OF _ D(8)] accepted(6)] by (simp add: commit_kept_def)
  qed
qed

theorem node_step_commit:
  assumes "node_step n n'" "node_ok n"
  shows "commit_kept n n'"
  using assms(1)
proof cases
  case (election c r)
  have "commit_index (n_state n') = commit_index (n_state n) \<and> n_id n' = n_id n \<and>
      current_term (n_state n) \<le> current_term (n_state n')"
    using election
  proof (cases rule: tick_begin_effect)
    case idle
    then show ?thesis using neutral_term by simp
  next
    case (started t s b)
    then show ?thesis using tracker_start_state(2,4) by fastforce
  qed
  then show ?thesis using tick_begin_log [OF election] by (simp add: commit_kept_same_log)
next
  case (tally peer rv outcome r)
  have W: "wf_tracker (n_election n) (n_state n)" using assms(2) by (simp add: node_ok_def node_wf_def)
  have "commit_index (n_state n') = commit_index (n_state n) \<and> n_id n' = n_id n \<and>
      current_term (n_state n) \<le> current_term (n_state n')"
    using tally
  proof (cases rule: tick_response_effect)
    case ignored
    then show ?thesis by simp
  next
    case (recorded a t s r)
    then show ?thesis using record_vote_state [OF recorded(4) W recorded(2)] by simp
  qed
  then show ?thesis using tick_response_log [OF tally] by (simp add: commit_kept_same_log)
next
  case (vote c rv r)
  from vote obtain s r where "handle_request_vote rv (last_index (n_log n)) (last_term (n_log n)) (n_state n) = Ok (s, r)"
      "n_id n' = n_id n" "n_state n' = s"
    by (rule node_request_vote_effect)
  moreover have "n_log n' = n_log n"
    using vote by (auto simp: node_request_vote_def Let_def split: sum.splits if_splits)
  ultimately show ?thesis using handle_request_vote_frame(2,5) by (intro commit_kept_same_log) auto
next
  case (append ae c r)
  then show ?thesis using commit_kept_append assms(2) by blast
next
  case (install ins c r)
  then show ?thesis using commit_kept_install assms(2) by blast
next
  case (timeout tn r)
  have "n_log n' = n_log n" "commit_index (n_state n') = commit_index (n_state n)"
    using timeout
    by (auto simp: node_timeout_now_def persist_new_term_def Let_def dest: become_follower_OkD
        split: if_splits sum.splits)
  then show ?thesis using neutral_term [OF neutral_timeout_now [OF timeout]] by (simp add: commit_kept_same_log)
next
  case (snapshot r)
  then show ?thesis using commit_kept_snapshot assms(2) by blast
next
  case (start_replication r)
  then show ?thesis
    using initialize_ok [OF _ assms(2)] neutral_term [OF neutral_initialize(1)] by (simp add: commit_kept_same_log)
next
  case (progress f request t success r)
  have "n_log n' = n_log n \<and> commit_index (n_state n') = commit_index (n_state n)"
    using progress by (cases rule: worker_response_cases) (auto dest: step_down_log)
  then show ?thesis
    using neutral_term [OF neutral_worker_response [OF progress]] by (simp add: commit_kept_same_log)
next
  case (commit r)
  then show ?thesis
    using replicate_log_finish_ok(3-5) [OF _ assms(2)] neutral_term [OF neutral_finish]
    by (simp add: commit_kept_same_log)
next
  case (submit cs r)
  then show ?thesis using commit_kept_submit assms(2) by blast
next
  case (transfer t response r)
  then show ?thesis
    using transfer_finish_log neutral_term [OF neutral_transfer_finish [OF transfer]]
    by (simp add: commit_kept_same_log)
next
  case (read t now q r)
  note R = read_confirmed_cases [OF read assms(2)]
  show ?thesis by (cases "r = Ok ()") (use R(2,3) in \<open>auto intro: commit_kept_same_log\<close>)
next
  case (restart d c dsk)
  have "node_id (n_state n) = n_id n" using assms(2) by (simp add: node_ok_def node_wf_def)
  then show ?thesis
    unfolding restart_ok(1) [OF assms(2) restart] by (intro commit_kept_same_log) (simp_all add: recovered_def)
qed (simp_all add: commit_kept_same_log set_observer_def)

lemma node_steps_commit:
  assumes "node_step\<^sup>*\<^sup>* n n'" "node_ok n"
  shows "commit_kept n n' \<and> node_ok n'"
  using assms
proof (induction rule: rtranclp_induct)
  case (step y z)
  then show ?case using node_step_commit node_step_ok commit_kept_trans by blast
qed simp

section \<open>The target of a transfer\<close>

lemma eligible_followers_caught_up:
  "eligible_followers results n r fs = Ok es \<Longrightarrow> f \<in> set es \<Longrightarrow>
   f \<in> set fs \<and> map_of results f = Some True \<and> (\<exists>m. map_of (match_index r) f = Some m \<and> last_index (n_log n) \<le> m)"
  by (induction fs arbitrary: es) (auto split: if_splits sum.splits)

lemma transfer_select_target:
  assumes step: "transfer_select t target results n = Ok (Some f)" and ok: "node_ok n"
  shows "role (n_state n) = LEADER \<and> current_term (n_state n) = t \<and> f \<in> set (n_members n) - {n_id n} \<and>
    map_of results f = Some True \<and>
    (\<exists>r m. n_replication n = Some r \<and> map_of (match_index r) f = Some m \<and> last_index (n_log n) \<le> m) \<and>
    (case target of Some g \<Rightarrow> f = g
     | None \<Rightarrow> \<exists>r es. n_replication n = Some r \<and> eligible_followers results n r (followers r) = Ok es \<and> f = Min (set es))"
proof -
  obtain r es where r: "n_replication n = Some r" "eligible_followers results n r (followers r) = Ok es"
      "role (n_state n) = LEADER" "current_term (n_state n) = t"
      "(case target of None \<Rightarrow> es \<noteq> [] \<and> f = Min (set es) | Some g \<Rightarrow> f = g \<and> f \<in> set es)"
    using step by (auto simp: transfer_select_def split: if_splits option.splits sum.splits)
  have f: "f \<in> set es" using r(5) Min_in [of "set es"] by (auto split: option.splits)
  have R: "wf_replication r (n_state n)" "repl_members r = n_members n" "node_id (n_state n) = n_id n"
    using ok r(1) by (simp_all add: node_ok_def node_wf_def)
  have "set (followers r) = set (n_members n) - {n_id n}" using R by (auto simp: wf_replication_def)
  then show ?thesis
    using eligible_followers_caught_up [OF r(2) f] r by (auto split: option.splits)
qed

section \<open>A torn journal\<close>

lemma torn_node_init:
  assumes ok: "node_ok n" and d: "n_disk n = Some d" and es: "contiguous (last_index (n_log n)) es"
  shows "snd (node_init c (n_id n) (n_members n) (Some (torn_append k Garbage (map append_record es) d))) =
    Err RaftPersistenceError"
proof -
  let ?d = "torn_append k Garbage (map append_record es) d"
  have wf: "node_wf n" "node_durable n" using ok by (simp_all add: node_ok_def)
  have D: "durable_state n d" "load_snapshot d = Ok (n_snapshot n)" "journal_replays (n_log n) d"
    using wf(2) d by (simp_all add: node_durable_def durable_log_def)
  have files: "state_file ?d = state_file d" "snapshot_file ?d = snapshot_file d"
    by (simp_all add: torn_append_def Let_def)
  obtain s where s: "load_state (n_id n) ?d = Ok s"
    using D(1) load_state_cong [OF files(1)] by (simp add: durable_state_def)
  have sn: "load_snapshot ?d = Ok (n_snapshot n)" using D(2) load_snapshot_cong [OF files(2)] by simp
  have "for_each append_entry (take k es) (n_log n) = Ok ((n_log n)\<lparr>entries := entries (n_log n) @ take k es\<rparr>)"
    using for_each_append_entry [OF node_wf_log [OF wf(1)] contiguous_take [OF es]] .
  then have "for_each load_record (map Record (take k (map append_record es))) (n_log n) =
      Ok ((n_log n)\<lparr>entries := entries (n_log n) @ take k es\<rparr>)"
    using load_append_records [of "take k es"] by (simp add: take_map)
  from load_garbage [OF D(3) this] have "snd (load_log ?d) = Err RaftPersistenceError" .
  then obtain d' where "load_log ?d = (d', Err RaftPersistenceError)" by (metis prod.collapse)
  then have "load_files (n_id n) ?d = (d', Err RaftPersistenceError)" by (simp add: load_files_def s sn)
  moreover have "n_id n \<in> set (n_members n)" using wf(1) by (simp add: node_wf_def)
  ultimately show ?thesis by (simp add: node_init_def)
qed

section \<open>Reads\<close>

lemma read_quorum_majority:
  assumes step: "confirm_read_quorum_body (env, waits) now (n, fs) = ((n', fs'), Ok ())"
    and ok: "node_ok n" and env: "env_ok env"
  shows "role (n_state n') = LEADER \<and> current_term (n_state n') = current_term (n_state n) \<and>
    last_read_quorum_term n' = Some (current_term (n_state n)) \<and> last_read_quorum_time n' = Some now \<and>
    (\<exists>Q. majority (set (n_members n)) (insert (n_id n) Q) \<and>
       (\<forall>f \<in> Q. own_answer fs waits f (Ok True)))"
  using step ok env
proof (cases rule: confirm_body_cases)
  case (confirmed m r p k gs)
  let ?M = "set (n_members n)" and ?q = "length (n_members n) div 2 + 1"
  have W: "distinct (n_members n)" "n_id n \<in> ?M" "node_id (n_state n) = n_id n"
    using ok by (simp_all add: node_ok_def node_wf_def)
  have R: "wf_replication r (n_state n)" "repl_members r = n_members n"
    using confirmed(2-5) by (simp_all add: node_ok_def node_wf_def)
  have F: "set (followers r) = ?M - {n_id n}"
    using R W(3) by (auto simp: wf_replication_def)
  have card: "card ?M = length (n_members n)" using W(1) by (rule distinct_card)
  have "\<exists>Q. majority ?M (insert (n_id n) Q) \<and> (\<forall>f \<in> Q. own_answer fs waits f (Ok True))"
  proof (cases "?q = 1")
    case True
    have "majority ?M (insert (n_id n) {})" using W(2) True card by (simp add: majority_def)
    then show ?thesis by blast
  next
    case False
    then have loop: "read_loop ?q (followers r) waits \<lparr>read_futures = fs, fresh = [], confirmed = [], failed = []\<rparr> = (p, Ok ())"
        "?q \<le> 1 + length (read_progress.confirmed p)"
      using confirmed(6) by blast+
    have "confirmed_ok (set (followers r)) fs ([] @ waits) p"
      by (rule read_loop_own [OF loop(1)]) (simp_all add: confirmed_ok_def first_ready)
    then have I: "distinct (read_progress.confirmed p)" "set (read_progress.confirmed p) \<subseteq> set (followers r)"
        "\<forall>f \<in> set (read_progress.confirmed p). own_answer fs waits f (Ok True)"
      by (auto simp: confirmed_ok_def)
    have "n_id n \<notin> set (read_progress.confirmed p)" using I(2) F by blast
    then have "card (insert (n_id n) (set (read_progress.confirmed p))) = 1 + length (read_progress.confirmed p)"
      using distinct_card [OF I(1)] by simp
    then have "majority ?M (insert (n_id n) (set (read_progress.confirmed p)))"
      using I(2) F W(2) loop(2) card by (auto simp: majority_def)
    then show ?thesis using I(3) by blast
  qed
  then show ?thesis using confirmed by simp
qed simp_all

lemma read_committed:
  assumes step: "linearizable_get key (env1, waits) (t0, t1, t2) env2 (n, fs) = ((n', fs'), Ok v)"
    and ok: "node_ok n" and env: "env_ok env1" "env_ok env2"
  shows "v = kv_get key (run_commands
      (slice (base_index (n_log n')) (commit_index (n_state n')) (n_log n')) (snapshot_state (n_snapshot n'))) \<and>
    role (n_state n') = LEADER \<and> (has_valid_read_lease t0 n' \<or> has_valid_read_lease t2 n')"
proof -
  have ok': "node_ok n'" using linearizable_get_ok [OF step ok env] .
  have "v = kv_get key (n_store n') \<and> (has_valid_read_lease t0 n' \<or> has_valid_read_lease t2 n')"
    using step node_apply_noop [OF ok]
    by (auto simp: linearizable_get_def split: if_splits prod.splits sum.splits)
  moreover have "role (n_state n') = LEADER" if "has_valid_read_lease t n'" for t
    using that by (simp add: has_valid_read_lease_def split: if_splits)
  ultimately show ?thesis
    using data_wfD(10) [OF node_wf_data] ok' by (auto simp: node_ok_def)
qed

end
