(* ===== verification/Cluster.thy ===== *)
theory Cluster
  imports VoteFrame
begin

text \<open>
  The group of nodes: its steps are the critical sections of the nodes' own operations, taken
  in any order on any node, with messages that may be lost, delayed, duplicated and reordered,
  and crashes at any point. Vote requests and responses are those the nodes produced; every
  other message may have any content. At most one node is ever leader in a term.
\<close>

section \<open>States and steps\<close>

text \<open>
  \<open>vote_requests\<close> and \<open>vote_replies\<close> hold every message ever sent, with the receiver and the
  voter. \<open>history\<close> and \<open>leaders\<close> are for the proofs: the votes given (voter, term, candidate)
  and the leaders there have been (term, node).
\<close>

record cluster =
  nodes :: "string \<Rightarrow> raft_node"
  vote_requests :: "(string \<times> request_vote_request) set"
  vote_replies :: "(string \<times> request_vote_request \<times> request_vote_response) set"
  history :: "(string \<times> int \<times> string) set"
  leaders :: "(int \<times> string) set"

definition votes_of :: "string \<Rightarrow> raft_node \<Rightarrow> (string \<times> int \<times> string) set" where
  "votes_of i n = {(i, current_term (n_state n), c) | c. voted_for (n_state n) = Some c}"

definition leads :: "string \<Rightarrow> raft_node \<Rightarrow> (int \<times> string) set" where
  "leads i n = (if role (n_state n) = LEADER then {(current_term (n_state n), i)} else {})"

definition put_node :: "string \<Rightarrow> raft_node \<Rightarrow> cluster \<Rightarrow> cluster" where
  "put_node i n C = C\<lparr>nodes := (nodes C)(i := n), history := history C \<union> votes_of i n,
                      leaders := leaders C \<union> leads i n\<rparr>"

text \<open>
  \<open>crash\<close> and restart: the operation under way may have written any part of the log and the
  snapshot, or all of it. The state file is replaced as a whole, so it is old or new.
\<close>

inductive cluster_step :: "string list \<Rightarrow> cluster \<Rightarrow> cluster \<Rightarrow> bool" for members where
  tick_start: "i \<in> set members \<Longrightarrow> tick_begin c (nodes C i) = (n, Ok reqs) \<Longrightarrow>
    cluster_step members C (put_node i n (C\<lparr>vote_requests := vote_requests C \<union> set reqs\<rparr>))"
| tick_error: "i \<in> set members \<Longrightarrow> tick_begin c (nodes C i) = (n, Err e) \<Longrightarrow>
    cluster_step members C (put_node i n C)"
| vote: "j \<in> set members \<Longrightarrow> (j, q) \<in> vote_requests C \<Longrightarrow> node_request_vote c q (nodes C j) = (n, Ok a) \<Longrightarrow>
    cluster_step members C (put_node j n (C\<lparr>vote_replies := insert (j, q, a) (vote_replies C)\<rparr>))"
| tally: "i \<in> set members \<Longrightarrow> (j, q, a) \<in> vote_replies C \<Longrightarrow> rv_candidate_id q = i \<Longrightarrow>
    tick_response j q (Ok a) (nodes C i) = (n, r) \<Longrightarrow> cluster_step members C (put_node i n C)"
| tally_failure: "i \<in> set members \<Longrightarrow> tick_response j q (Err e) (nodes C i) = (n, r) \<Longrightarrow>
    cluster_step members C (put_node i n C)"
| append: "i \<in> set members \<Longrightarrow> node_append_entries c q (nodes C i) = (n, r) \<Longrightarrow>
    cluster_step members C (put_node i n C)"
| install: "i \<in> set members \<Longrightarrow> node_install_snapshot c q' (nodes C i) = (n, r) \<Longrightarrow>
    cluster_step members C (put_node i n C)"
| timeout: "i \<in> set members \<Longrightarrow> node_timeout_now q'' (nodes C i) = (n, r) \<Longrightarrow>
    cluster_step members C (put_node i n C)"
| snapshot: "i \<in> set members \<Longrightarrow> create_snapshot (nodes C i) = (n, r) \<Longrightarrow>
    cluster_step members C (put_node i n C)"
| progress: "i \<in> set members \<Longrightarrow> worker_response f request t success (nodes C i) = (n, r) \<Longrightarrow>
    cluster_step members C (put_node i n C)"
| commit: "i \<in> set members \<Longrightarrow> replicate_log_finish (nodes C i) = (n, r) \<Longrightarrow>
    cluster_step members C (put_node i n C)"
| start_replication: "i \<in> set members \<Longrightarrow> initialize_leader_replication (nodes C i) = (n, r) \<Longrightarrow>
    cluster_step members C (put_node i n C)"
| submit: "i \<in> set members \<Longrightarrow> submit_begin cs (nodes C i) = (n, r) \<Longrightarrow>
    cluster_step members C (put_node i n C)"
| transfer: "i \<in> set members \<Longrightarrow> transfer_finish t response (nodes C i) = (n, r) \<Longrightarrow>
    cluster_step members C (put_node i n C)"
| read: "i \<in> set members \<Longrightarrow> read_confirmed t now b (nodes C i) = (n, r) \<Longrightarrow>
    cluster_step members C (put_node i n C)"
| transfer_flag: "i \<in> set members \<Longrightarrow> n = (nodes C i)\<lparr>transfer_in_progress := b\<rparr> \<Longrightarrow>
    cluster_step members C (put_node i n C)"
| observer: "i \<in> set members \<Longrightarrow> n = set_observer obs (nodes C i) \<Longrightarrow>
    cluster_step members C (put_node i n C)"
| crash: "i \<in> set members \<Longrightarrow> n_disk (nodes C i) = Some d \<Longrightarrow> state_file d' = state_file d \<Longrightarrow>
    node_init c i members (Some d') = (dsk, Ok n) \<Longrightarrow> cluster_step members C (put_node i n C)"

definition cluster_init :: "string list \<Rightarrow> cluster \<Rightarrow> bool" where
  "cluster_init members C =
     (distinct members \<and> vote_requests C = {} \<and> vote_replies C = {} \<and> leaders C = {} \<and>
      history C = (\<Union>i \<in> set members. votes_of i (nodes C i)) \<and>
      (\<forall>i \<in> set members. \<exists>c dsk dsk'. node_init c i members dsk = (dsk', Ok (nodes C i))))"

inductive reachable :: "string list \<Rightarrow> cluster \<Rightarrow> bool" for members where
  init: "cluster_init members C \<Longrightarrow> reachable members C"
| step: "reachable members C \<Longrightarrow> cluster_step members C C' \<Longrightarrow> reachable members C'"

inductive_cases cluster_stepE [consumes 1, case_names tick_start tick_error vote tally
    tally_failure append install timeout snapshot progress commit start_replication submit transfer
    read transfer_flag observer crash]: "cluster_step members C C'"

section \<open>The invariant\<close>

text \<open>A term and vote that contradict no vote the node has given.\<close>

definition hist_ok :: "(string \<times> int \<times> string) set \<Rightarrow> string \<Rightarrow> int \<Rightarrow> string option \<Rightarrow> bool" where
  "hist_ok H i t v = (\<forall>t' c. (i, t', c) \<in> H \<longrightarrow> t' < t \<or> t' = t \<and> v = Some c)"

definition disk_ok :: "(string \<times> int \<times> string) set \<Rightarrow> string \<Rightarrow> raft_node \<Rightarrow> bool" where
  "disk_ok H i n = (\<forall>d s0. n_disk n = Some d \<longrightarrow> load_state i d = Ok s0 \<longrightarrow>
     hist_ok H i (current_term s0) (voted_for s0))"

definition elected :: "string list \<Rightarrow> (string \<times> int \<times> string) set \<Rightarrow> int \<Rightarrow> string \<Rightarrow> bool" where
  "elected members H t i = (\<exists>Q. majority (set members) Q \<and> (\<forall>v \<in> Q. (v, t, i) \<in> H))"

definition node_inv :: "string list \<Rightarrow> (string \<times> int \<times> string) set \<Rightarrow> string \<Rightarrow> raft_node \<Rightarrow> bool" where
  "node_inv members H i n =
     (n_id n = i \<and> node_id (n_state n) = i \<and> n_members n = members \<and>
      wf_tracker (n_election n) (n_state n) \<and> tracker_members (n_election n) = members \<and>
      hist_ok H i (current_term (n_state n)) (voted_for (n_state n)) \<and> votes_of i n \<subseteq> H \<and>
      disk_ok H i n \<and>
      (role (n_state n) = CANDIDATE \<and> active (n_election n) \<longrightarrow>
         (\<forall>v \<in> set (votes_received (n_election n)). (v, current_term (n_state n), i) \<in> H)) \<and>
      (role (n_state n) = LEADER \<longrightarrow> elected members H (current_term (n_state n)) i))"

definition cluster_inv :: "string list \<Rightarrow> cluster \<Rightarrow> bool" where
  "cluster_inv members C =
     (distinct members \<and>
      (\<forall>v t a b. (v, t, a) \<in> history C \<longrightarrow> (v, t, b) \<in> history C \<longrightarrow> a = b) \<and>
      (\<forall>i \<in> set members. node_inv members (history C) i (nodes C i)) \<and>
      (\<forall>j q a. (j, q, a) \<in> vote_replies C \<longrightarrow> rvr_vote_granted a \<longrightarrow>
         (j, rv_term q, rv_candidate_id q) \<in> history C) \<and>
      (\<forall>(t, i) \<in> leaders C. elected members (history C) t i))"

lemma elected_mono: "elected members H t i \<Longrightarrow> H \<subseteq> H' \<Longrightarrow> elected members H' t i"
  unfolding elected_def by blast

text \<open>Two leaders of one term have a voter in common, who voted once.\<close>

lemma elected_unique:
  assumes "elected members H t a" "elected members H t b"
    and "\<And>v. (v, t, a) \<in> H \<Longrightarrow> (v, t, b) \<in> H \<Longrightarrow> a = b"
  shows "a = b"
proof -
  obtain A B where "majority (set members) A" "majority (set members) B"
      "\<And>v. v \<in> A \<Longrightarrow> (v, t, a) \<in> H" "\<And>v. v \<in> B \<Longrightarrow> (v, t, b) \<in> H"
    using assms(1,2) unfolding elected_def by blast
  then show ?thesis
    using majority_quorum.quorum_value_unique [of "set members" A B "\<lambda>v c. (v, t, c) \<in> H" a b] assms(3) by blast
qed

lemma votes_of_other: "i \<noteq> j \<Longrightarrow> (j, t, c) \<notin> votes_of i n"
  by (simp add: votes_of_def)

lemma node_inv_other:
  assumes "node_inv members H j n" "i \<noteq> j"
  shows "node_inv members (H \<union> votes_of i m) j n"
proof -
  have same: "(j, t, c) \<in> H \<union> votes_of i m \<longleftrightarrow> (j, t, c) \<in> H" for t c
    using votes_of_other [OF assms(2)] by simp
  have "hist_ok (H \<union> votes_of i m) j t v = hist_ok H j t v" for t v
    unfolding hist_ok_def same ..
  moreover have "elected members H t j \<Longrightarrow> elected members (H \<union> votes_of i m) t j" for t
    by (erule elected_mono) simp
  ultimately show ?thesis using assms(1) by (auto simp: node_inv_def disk_ok_def)
qed

text \<open>One node changes, and with it the history: what is left to show is about that node.\<close>

lemma cluster_inv_put:
  assumes inv: "cluster_inv members C"
    and H: "hist_ok (history C) i (current_term (n_state n)) (voted_for (n_state n))"
    and n: "node_inv members (history C \<union> votes_of i n) i n"
    and replies: "\<And>j q a. (j, q, a) \<in> R \<Longrightarrow> rvr_vote_granted a \<Longrightarrow>
       (j, rv_term q, rv_candidate_id q) \<in> history C \<union> votes_of i n"
  shows "cluster_inv members (put_node i n (C\<lparr>vote_requests := Q, vote_replies := R\<rparr>))"
proof -
  let ?H = "history C \<union> votes_of i n"
  have fresh: "c = c'" if "(i, t, c) \<in> history C" "(i, t, c') \<in> votes_of i n" for t c c'
    using H that by (auto simp: hist_ok_def votes_of_def)
  have functional: "a = b" if "(v, t, a) \<in> ?H" "(v, t, b) \<in> ?H" for v t a b
  proof (cases "(v, t, a) \<in> history C \<and> (v, t, b) \<in> history C")
    case True
    then show ?thesis using inv by (auto simp: cluster_inv_def)
  next
    case False
    then have "v = i" using that by (auto simp: votes_of_def)
    then show ?thesis using that fresh False by (auto simp: votes_of_def)
  qed
  have nodes: "node_inv members ?H j (((nodes C)(i := n)) j)" if "j \<in> set members" for j
    using n node_inv_other [of members "history C" j "nodes C j" i n] inv that
    by (cases "j = i") (auto simp: cluster_inv_def)
  have leaders: "elected members ?H t j" if "(t, j) \<in> leaders C \<union> leads i n" for t j
  proof (cases "(t, j) \<in> leaders C")
    case True
    then have "elected members (history C) t j" using inv by (auto simp: cluster_inv_def)
    then show ?thesis by (rule elected_mono) simp
  next
    case False
    then show ?thesis using n that by (auto simp: leads_def node_inv_def split: if_splits)
  qed
  show ?thesis
    using inv functional nodes leaders replies
    by (simp add: cluster_inv_def put_node_def) blast
qed

lemma cluster_inv_put_same:
  assumes inv: "cluster_inv members C"
    and "hist_ok (history C) i (current_term (n_state n)) (voted_for (n_state n))"
    and "node_inv members (history C \<union> votes_of i n) i n"
  shows "cluster_inv members (put_node i n (C\<lparr>vote_requests := Q\<rparr>))"
proof -
  have "cluster_inv members (put_node i n (C\<lparr>vote_requests := Q, vote_replies := vote_replies C\<rparr>))"
    using inv by (intro cluster_inv_put [OF assms]) (simp add: cluster_inv_def)
  then show ?thesis by simp
qed

section \<open>Every step keeps it\<close>

lemma hist_ok_vote:
  "hist_ok H i t v \<Longrightarrow> hist_ok (H \<union> {(i, t, c) | c. v = Some c}) i t v"
  by (auto simp: hist_ok_def)

text \<open>Operations outside an election: no vote is added.\<close>

lemma load_state_to_json:
  "state_file d = Some (Valid (state_to_json s)) \<Longrightarrow> load_state i d = load_state i (save_state s d)"
  by (rule load_state_cong) (simp add: save_state_def)

lemma node_inv_neutral:
  assumes inv: "node_inv members H i n" and step: "vote_neutral n n'"
  shows "hist_ok H i (current_term (n_state n')) (voted_for (n_state n')) \<and>
    node_inv members (H \<union> votes_of i n') i n'"
proof -
  let ?s = "n_state n" and ?s' = "n_state n'"
  have same_or_new: "current_term ?s' = current_term ?s \<and> voted_for ?s' = voted_for ?s \<and>
       (role ?s' = role ?s \<or> role ?s' = FOLLOWER) \<or>
       current_term ?s < current_term ?s' \<and> voted_for ?s' = None \<and> role ?s' = FOLLOWER"
    and ids: "n_id n' = i" "node_id ?s' = i" "n_members n' = members" "n_election n' = n_election n"
    and disk: "disk_step n n'"
    using step inv by (auto simp: vote_neutral_def node_inv_def)
  have hist: "hist_ok H i (current_term ?s') (voted_for ?s')"
    unfolding hist_ok_def
  proof (intro allI impI)
    fix t' c assume "(i, t', c) \<in> H"
    then have "t' < current_term ?s \<or> t' = current_term ?s \<and> voted_for ?s = Some c"
      using inv by (auto simp: node_inv_def hist_ok_def)
    then show "t' < current_term ?s' \<or> t' = current_term ?s' \<and> voted_for ?s' = Some c"
      using same_or_new by auto
  qed
  have votes: "H \<union> votes_of i n' = H"
    using inv same_or_new by (auto simp: node_inv_def votes_of_def)
  have "disk_ok H i n'"
    unfolding disk_ok_def
  proof (intro allI impI)
    fix d' s0 assume d': "n_disk n' = Some d'" and s0: "load_state i d' = Ok s0"
    obtain d where d: "n_disk n = Some d" "state_saved ?s' d d'"
      using disk d' by (auto simp: disk_step_def split: option.splits)
    from d(2) show "hist_ok H i (current_term s0) (voted_for s0)"
      unfolding state_saved_def
    proof
      assume "state_file d' = state_file d"
      then have "load_state i d = Ok s0" using s0 load_state_cong by metis
      then show ?thesis using inv d(1) by (auto simp: node_inv_def disk_ok_def)
    next
      assume "\<exists>s1. state_file d' = Some (Valid (state_to_json s1)) \<and>
        current_term s1 = current_term ?s' \<and> voted_for s1 = voted_for ?s'"
      then obtain s1 where s1: "load_state i d' = load_state i (save_state s1 d')"
          "current_term s1 = current_term ?s'" "voted_for s1 = voted_for ?s'"
        using load_state_to_json by blast
      then show ?thesis using s0 hist by auto
    qed
  qed
  moreover have "wf_tracker (n_election n') ?s'"
    using inv ids wf_tracker_cong [of "n_election n" ?s ?s'] by (simp add: node_inv_def)
  ultimately have "node_inv members H i n'"
    using inv same_or_new ids hist votes by (auto simp: node_inv_def)
  then show ?thesis using hist votes by simp
qed

lemma cluster_inv_neutral:
  assumes "cluster_inv members C" "i \<in> set members" "vote_neutral (nodes C i) n"
  shows "cluster_inv members (put_node i n C)"
proof -
  have "node_inv members (history C) i (nodes C i)" using assms(1,2) by (simp add: cluster_inv_def)
  from node_inv_neutral [OF this assms(3)]
  have "cluster_inv members (put_node i n (C\<lparr>vote_requests := vote_requests C\<rparr>))"
    using assms(1) by (intro cluster_inv_put_same) simp_all
  then show ?thesis by simp
qed

text \<open>The other steps write the state file whenever they give a vote.\<close>

lemma disk_ok_saved:
  assumes "n_disk n = map_option (save_state s) dsk" "hist_ok H i (current_term s) (voted_for s)"
  shows "disk_ok H i n"
  using assms by (auto simp: disk_ok_def)

lemma node_inv_tick:
  assumes inv: "node_inv members H i n" and i: "i \<in> set members" "distinct members"
    and start: "tracker_start (n_election n) (n_state n) = ((t, s), Ok b)"
    and n': "n_id n' = n_id n" "n_members n' = n_members n" "n_state n' = s" "n_election n' = t"
      "n_disk n' = map_option (save_state s) (n_disk n)"
  shows "hist_ok H i (current_term s) (voted_for s) \<and> node_inv members (H \<union> votes_of i n') i n'"
proof -
  note T = tracker_start_state [OF start]
  have N: "node_id (n_state n) = i" "n_id n = i" "n_members n = members" "wf_tracker (n_election n) (n_state n)"
      "tracker_members (n_election n) = members" "hist_ok H i (current_term (n_state n)) (voted_for (n_state n))"
    using inv by (simp_all add: node_inv_def)
  have hist: "hist_ok H i (current_term s) (voted_for s)"
    unfolding hist_ok_def
  proof (intro allI impI)
    fix t' c assume "(i, t', c) \<in> H"
    then have "t' < current_term (n_state n) \<or> t' = current_term (n_state n)"
      using N(6) by (auto simp: hist_ok_def)
    then show "t' < current_term s \<or> t' = current_term s \<and> voted_for s = Some c" using T(4) by auto
  qed
  have votes: "votes_of i n' = {(i, current_term s, i)}"
    using T(5) N(1) n'(3) by (auto simp: votes_of_def)
  have hist': "hist_ok (H \<union> votes_of i n') i (current_term s) (voted_for s)"
    using hist T(5) N(1) by (auto simp: votes hist_ok_def)
  have received: "set (votes_received t) = {i}"
    using start N(1) by (auto simp: tracker_start_cases Let_def split: if_splits)
  have wf: "wf_tracker t s" by (rule tracker_start_wf [OF start N(4)])
  have "elected members (H \<union> votes_of i n') (current_term s) i" if "role s = LEADER"
  proof -
    have "quorum_size t \<le> length (votes_received t)"
      using start that by (auto simp: tracker_start_cases Let_def quorum_size_def split: if_splits)
    then have "majority (set (tracker_members t)) (set (votes_received t))" by (rule wf_tracker_majority [OF wf])
    then show ?thesis using received votes T(7) N(5) unfolding elected_def by auto
  qed
  moreover have "disk_ok (H \<union> votes_of i n') i n'" by (rule disk_ok_saved [OF n'(5) hist'])
  ultimately show ?thesis
    using hist hist' n' N T wf received votes by (auto simp: node_inv_def)
qed

lemma node_inv_vote:
  assumes inv: "node_inv members H j n"
    and h: "handle_request_vote q li lt (n_state n) = Ok (s, a)"
    and n': "n_id n' = n_id n" "n_members n' = n_members n" "n_state n' = s" "n_election n' = n_election n"
      "n_disk n' = map_option (save_state s) (n_disk n)"
  shows "hist_ok H j (current_term s) (voted_for s) \<and> node_inv members (H \<union> votes_of j n') j n'"
    "rvr_vote_granted a \<Longrightarrow> (j, rv_term q, rv_candidate_id q) \<in> votes_of j n'"
proof -
  have N: "node_id (n_state n) = j" "n_id n = j" "n_members n = members" "wf_tracker (n_election n) (n_state n)"
      "tracker_members (n_election n) = members" "hist_ok H j (current_term (n_state n)) (voted_for (n_state n))"
    using inv by (simp_all add: node_inv_def)
  note F = handle_request_vote_frame [OF h]
  have hist: "hist_ok H j (current_term s) (voted_for s)"
    unfolding hist_ok_def
  proof (intro allI impI)
    fix t' c assume "(j, t', c) \<in> H"
    then have "t' < current_term (n_state n) \<or> t' = current_term (n_state n) \<and> voted_for (n_state n) = Some c"
      using N(6) by (auto simp: hist_ok_def)
    then show "t' < current_term s \<or> t' = current_term s \<and> voted_for s = Some c"
      using F(1) by (auto simp: vote_step_def)
  qed
  have hist': "hist_ok (H \<union> votes_of j n') j (current_term s) (voted_for s)"
    using hist n'(3) by (auto simp: hist_ok_def votes_of_def)
  have wf: "wf_tracker (n_election n) s" using N(4) F(4) by (rule wf_tracker_cong)
  have role: "current_term s = current_term (n_state n) \<and> role s = role (n_state n) \<or> role s = FOLLOWER"
    using F(5,7) by auto
  have "disk_ok (H \<union> votes_of j n') j n'" by (rule disk_ok_saved [OF n'(5) hist'])
  moreover have "elected members H (current_term s) j" if "role s = LEADER"
    using inv role that by (auto simp: node_inv_def)
  then have "elected members (H \<union> votes_of j n') (current_term s) j" if "role s = LEADER"
    using that elected_mono by blast
  moreover have "(v, current_term s, j) \<in> H" if "role s = CANDIDATE" "active (n_election n)"
      "v \<in> set (votes_received (n_election n))" for v
    using inv role that by (auto simp: node_inv_def)
  ultimately show "hist_ok H j (current_term s) (voted_for s) \<and> node_inv members (H \<union> votes_of j n') j n'"
    using hist hist' n' N wf F(4) by (auto simp: node_inv_def)
  show "(j, rv_term q, rv_candidate_id q) \<in> votes_of j n'" if "rvr_vote_granted a"
    using handle_request_vote_granted(1,2) [OF h that] n'(3) by (simp add: votes_of_def)
qed

lemma node_inv_tally:
  assumes inv: "node_inv members H i n" and i: "i \<in> set members" "distinct members"
    and reply: "rvr_vote_granted a \<Longrightarrow> (j, rv_term q, i) \<in> H"
    and cand: "role (n_state n) = CANDIDATE" "current_term (n_state n) = rv_term q"
    and rec: "record_vote j a (n_election n) (n_state n) = ((t, s), r)"
    and n': "n_id n' = n_id n" "n_members n' = n_members n" "n_state n' = s" "n_election n' = t"
      "n_disk n' = n_disk n \<or> n_disk n' = map_option (save_state s) (n_disk n)"
  shows "hist_ok H i (current_term s) (voted_for s) \<and> node_inv members (H \<union> votes_of i n') i n'"
proof -
  have N: "node_id (n_state n) = i" "n_id n = i" "n_members n = members" "wf_tracker (n_election n) (n_state n)"
      "tracker_members (n_election n) = members" "hist_ok H i (current_term (n_state n)) (voted_for (n_state n))"
      "votes_of i n \<subseteq> H" "disk_ok H i n"
      "active (n_election n) \<Longrightarrow> v \<in> set (votes_received (n_election n)) \<Longrightarrow> (v, current_term (n_state n), i) \<in> H" for v
    using inv cand by (auto simp: node_inv_def)
  note S = record_vote_state [OF rec N(4) cand(1)]
  have step: "vote_step (n_state n) s" by (rule record_vote_vote_step [OF rec])
  have hist: "hist_ok H i (current_term s) (voted_for s)"
    unfolding hist_ok_def
  proof (intro allI impI)
    fix t' c assume "(i, t', c) \<in> H"
    then have "t' < current_term (n_state n) \<or> t' = current_term (n_state n) \<and> voted_for (n_state n) = Some c"
      using N(6) by (auto simp: hist_ok_def)
    then show "t' < current_term s \<or> t' = current_term s \<and> voted_for s = Some c"
      using step by (auto simp: vote_step_def)
  qed
  have votes: "H \<union> votes_of i n' = H"
    using rec
  proof (cases rule: record_vote_cases)
    case stale
    then show ?thesis using become_follower_OkD [OF stale(3)] n'(3) by (auto simp: votes_of_def)
  qed (use N(7) n'(3) in \<open>auto simp: votes_of_def\<close>)
  have disk: "disk_ok H i n'"
    using n'(5)
  proof
    assume "n_disk n' = n_disk n"
    then show ?thesis using N(8) by (simp add: disk_ok_def)
  next
    assume "n_disk n' = map_option (save_state s) (n_disk n)"
    then show ?thesis using hist by (rule disk_ok_saved)
  qed
  have leader: "elected members H (current_term s) i" if "role s = LEADER"
  proof -
    have "role (n_state n) \<noteq> LEADER" using cand by simp
    note L = record_vote_leader [OF rec that this N(4)]
    have "active (n_election n) \<and> (rvr_vote_granted a \<longrightarrow> rvr_term a = current_term (n_state n))"
      using rec
    proof (cases rule: record_vote_cases)
      case stale
      then show ?thesis using that become_follower_OkD(3) by fastforce
    qed (use that cand in auto)
    then have "\<forall>v \<in> set (votes_received t). (v, current_term s, i) \<in> H"
      using L(3,5) N(9) reply cand(2) by (auto split: if_splits)
    then show ?thesis using L(1) N(5) unfolding elected_def by auto
  qed
  have tally: "(v, current_term s, i) \<in> H" if "role s = CANDIDATE" "active t" "v \<in> set (votes_received t)" for v
    using rec
  proof (cases rule: record_vote_cases)
    case ignored
    then show ?thesis using N(9) that by simp
  next
    case stale
    then show ?thesis using that by simp
  next
    case tallied
    then show ?thesis using N(9) reply cand(2) that by auto
  next
    case elected
    then show ?thesis using that by simp
  qed
  have "node_inv members H i n'"
    using hist n' N S votes disk leader tally by (auto simp: node_inv_def)
  then show ?thesis using hist votes by simp
qed

lemma node_inv_recovered:
  assumes n: "n_id n = i" "n_members n = members" "node_id (n_state n) = i"
      "role (n_state n) = FOLLOWER" "n_election n = \<lparr>tracker_members = members, votes_received = [], active = False\<rparr>"
    and hist: "hist_ok H i (current_term (n_state n)) (voted_for (n_state n))"
    and disk: "\<And>d s0. n_disk n = Some d \<Longrightarrow> load_state i d = Ok s0 \<Longrightarrow>
       current_term s0 = current_term (n_state n) \<and> voted_for s0 = voted_for (n_state n)"
    and i: "i \<in> set members" "distinct members"
  shows "node_inv members (H \<union> votes_of i n) i n"
proof -
  have hist': "hist_ok (H \<union> votes_of i n) i (current_term (n_state n)) (voted_for (n_state n))"
    using hist by (auto simp: hist_ok_def votes_of_def)
  then have "disk_ok (H \<union> votes_of i n) i n" using disk by (auto simp: disk_ok_def)
  then show ?thesis using n hist' i by (simp add: node_inv_def wf_tracker_def)
qed

theorem cluster_inv_step:
  assumes inv: "cluster_inv members C" and step: "cluster_step members C C'"
  shows "cluster_inv members C'"
proof -
  have N: "node_inv members (history C) i (nodes C i)" if "i \<in> set members" for i
    using inv that by (simp add: cluster_inv_def)
  have D: "distinct members" using inv by (simp add: cluster_inv_def)
  have keep_tick: "cluster_inv members (put_node i n (C\<lparr>vote_requests := Q\<rparr>))"
    if i: "i \<in> set members" and b: "tick_begin c (nodes C i) = (n, r)" for i c n r Q
    using b
  proof (cases rule: tick_begin_effect)
    case idle
    then show ?thesis using node_inv_neutral [OF N [OF i] idle(1)] by (intro cluster_inv_put_same [OF inv]) simp_all
  next
    case (started t s x)
    then show ?thesis
      using node_inv_tick [OF N [OF i] i D started(1-6)] by (intro cluster_inv_put_same [OF inv]) simp_all
  qed
  have keep_tally: "cluster_inv members (put_node i n C)"
    if i: "i \<in> set members" and t: "tick_response j q out (nodes C i) = (n, r)"
      and reply: "\<And>a. out = Ok a \<Longrightarrow> rvr_vote_granted a \<Longrightarrow> (j, rv_term q, i) \<in> history C" for i j q out n r
    using t
  proof (cases rule: tick_response_effect)
    case ignored
    then show ?thesis using cluster_inv_neutral [OF inv i, of n] by simp
  next
    case (recorded a t s x)
    have "hist_ok (history C) i (current_term s) (voted_for s) \<and> node_inv members (history C \<union> votes_of i n) i n"
      using reply [OF recorded(1)] by (intro node_inv_tally [OF N [OF i] i D _ recorded(2-9)])
    then have "cluster_inv members (put_node i n (C\<lparr>vote_requests := vote_requests C\<rparr>))"
      using recorded(7) by (intro cluster_inv_put_same [OF inv]) simp_all
    then show ?thesis by simp
  qed
  from step show ?thesis
  proof (cases rule: cluster_stepE)
    case (tick_start i c n reqs)
    then show ?thesis using keep_tick by simp
  next
    case (tick_error i c n e)
    then show ?thesis using keep_tick [of i c n "Err e" "vote_requests C"] by simp
  next
    case (vote j q c n a)
    obtain s r where h: "handle_request_vote q (last_index (n_log (nodes C j))) (last_term (n_log (nodes C j)))
          (n_state (nodes C j)) = Ok (s, r)" "Ok a = Ok r" "n_id n = n_id (nodes C j)" "n_members n = n_members (nodes C j)"
        "n_state n = s" "n_election n = n_election (nodes C j)" "n_disk n = map_option (save_state s) (n_disk (nodes C j))"
      by (rule node_request_vote_effect [OF vote(4)])
    note V = node_inv_vote [OF N [OF vote(2)] h(1) h(3-7)]
    have "cluster_inv members (put_node j n (C\<lparr>vote_requests := vote_requests C,
        vote_replies := insert (j, q, a) (vote_replies C)\<rparr>))"
      using V h(2,5) inv by (intro cluster_inv_put [OF inv]) (auto simp: cluster_inv_def)
    then show ?thesis using vote(1) by simp
  next
    case (tally j q a n r)
    then show ?thesis
      using inv keep_tally [of "rv_candidate_id q" j q "Ok a" n r] by (auto simp: cluster_inv_def)
  next
    case (tally_failure i j q e n r)
    then show ?thesis using keep_tally [of i j q "Err e" n r] by simp
  next
    case (append i c q n r)
    then show ?thesis using cluster_inv_neutral [OF inv] neutral_append_entries by simp
  next
    case (install i c q' n r)
    then show ?thesis using cluster_inv_neutral [OF inv] neutral_install_snapshot by simp
  next
    case (timeout i q'' n r)
    then show ?thesis using cluster_inv_neutral [OF inv] neutral_timeout_now by simp
  next
    case (snapshot i n r)
    then show ?thesis using cluster_inv_neutral [OF inv] neutral_create_snapshot by simp
  next
    case (progress i f request t success n r)
    then show ?thesis using cluster_inv_neutral [OF inv] neutral_worker_response by simp
  next
    case (commit i n r)
    then show ?thesis using cluster_inv_neutral [OF inv] neutral_finish by simp
  next
    case (start_replication i n r)
    then show ?thesis using cluster_inv_neutral [OF inv] neutral_initialize(1) by simp
  next
    case (submit i cs n r)
    then show ?thesis using cluster_inv_neutral [OF inv] neutral_submit_begin by simp
  next
    case (transfer i t response n r)
    then show ?thesis using cluster_inv_neutral [OF inv] neutral_transfer_finish by simp
  next
    case (read i t now b n r)
    then show ?thesis using cluster_inv_neutral [OF inv] neutral_read_confirmed by simp
  next
    case (transfer_flag i b)
    have "vote_neutral (nodes C i) ((nodes C i)\<lparr>transfer_in_progress := b\<rparr>)"
      by (intro vote_neutral_same disk_step_same) simp_all
    then show ?thesis using cluster_inv_neutral [OF inv] transfer_flag by simp
  next
    case (observer i obs)
    have "vote_neutral (nodes C i) (set_observer obs (nodes C i))"
      by (intro vote_neutral_same disk_step_same) (simp_all add: set_observer_def)
    then show ?thesis using cluster_inv_neutral [OF inv] observer by simp
  next
    case (crash i d d' c dsk n)
    obtain s0 d2 s1 where e: "load_state i d' = Ok s0" "i \<in> set members" "n_id n = i" "n_members n = members"
        "node_id (n_state n) = i" "current_term (n_state n) = current_term s0" "voted_for (n_state n) = voted_for s0"
        "role (n_state n) = FOLLOWER" "n_election n = \<lparr>tracker_members = members, votes_received = [], active = False\<rparr>"
        "n_disk n = Some d2" "load_state i d2 = Ok s1" "current_term s1 = current_term s0" "voted_for s1 = voted_for s0"
      by (rule node_init_effect [OF crash(5)])
    have "load_state i d = Ok s0" using e(1) load_state_cong [OF crash(4)] by simp
    then have hist: "hist_ok (history C) i (current_term (n_state n)) (voted_for (n_state n))"
      using N [OF crash(2)] crash(3) e(6,7) by (simp add: node_inv_def disk_ok_def)
    have "node_inv members (history C \<union> votes_of i n) i n"
      using e by (intro node_inv_recovered [OF e(3,4,5,8,9) hist _ e(2) D]) auto
    then have "cluster_inv members (put_node i n (C\<lparr>vote_requests := vote_requests C\<rparr>))"
      using hist by (intro cluster_inv_put_same [OF inv])
    then show ?thesis using crash(1) by simp
  qed
qed

lemma cluster_inv_init:
  assumes "cluster_init members C"
  shows "cluster_inv members C"
proof -
  have D: "distinct members" and H: "history C = (\<Union>i \<in> set members. votes_of i (nodes C i))"
    using assms by (simp_all add: cluster_init_def)
  have mine: "(i, t, c) \<in> history C \<longleftrightarrow> i \<in> set members \<and> (i, t, c) \<in> votes_of i (nodes C i)" for i t c
    by (auto simp: H votes_of_def)
  have "node_inv members (history C) i (nodes C i)" if i: "i \<in> set members" for i
  proof -
    let ?n = "nodes C i"
    obtain c dsk dsk' where start: "node_init c i members dsk = (dsk', Ok ?n)"
      using assms i by (auto simp: cluster_init_def)
    have "node_inv members (history C \<union> votes_of i ?n) i ?n"
    proof (cases dsk)
      case None
      note N = node_init_no_files [OF start [unfolded None]]
      show ?thesis
        by (rule node_inv_recovered) (use N i D mine in \<open>auto simp: hist_ok_def votes_of_def\<close>)
    next
      case (Some d)
      obtain s0 d2 s1 where l: "load_state i d = Ok s0" "i \<in> set members" and e: "n_id ?n = i" "n_members ?n = members" "node_id (n_state ?n) = i"
          "current_term (n_state ?n) = current_term s0" "voted_for (n_state ?n) = voted_for s0"
          "role (n_state ?n) = FOLLOWER"
          "n_election ?n = \<lparr>tracker_members = members, votes_received = [], active = False\<rparr>"
          "n_disk ?n = Some d2" "load_state i d2 = Ok s1" "current_term s1 = current_term s0" "voted_for s1 = voted_for s0"
        by (rule node_init_effect [OF start [unfolded Some]])
      show ?thesis
        by (rule node_inv_recovered) (use e i D mine in \<open>auto simp: hist_ok_def votes_of_def\<close>)
    qed
    moreover have "history C \<union> votes_of i ?n = history C" using i unfolding H by blast
    ultimately show ?thesis by simp
  qed
  moreover have "a = b" if "(v, t, a) \<in> history C" "(v, t, b) \<in> history C" for v t a b
    using that unfolding mine by (auto simp: votes_of_def)
  ultimately show ?thesis using assms D by (auto simp: cluster_inv_def cluster_init_def)
qed

lemma reachable_inv: "reachable members C \<Longrightarrow> cluster_inv members C"
  by (induction rule: reachable.induct) (auto intro: cluster_inv_init cluster_inv_step)

section \<open>Election safety\<close>

text \<open>\<open>leaders\<close> records every node that is ever leader, with its term.\<close>

lemma cluster_step_shape:
  assumes "cluster_step members C C'"
  shows "\<exists>j n D. C' = put_node j n D \<and> nodes D = nodes C \<and> leaders D = leaders C"
  using assms
proof (cases rule: cluster_stepE)
qed (rule exI, rule exI, rule exI, rule conjI, assumption, simp)+

lemma leaders_mono: "cluster_step members C C' \<Longrightarrow> leaders C \<subseteq> leaders C'"
  using cluster_step_shape by (fastforce simp: put_node_def)

lemma leaders_record:
  "reachable members C \<Longrightarrow> i \<in> set members \<Longrightarrow> role (n_state (nodes C i)) = LEADER \<Longrightarrow>
   (current_term (n_state (nodes C i)), i) \<in> leaders C"
proof (induction arbitrary: i rule: reachable.induct)
  case (init C)
  then obtain c dsk dsk' where start: "node_init c i members dsk = (dsk', Ok (nodes C i))"
    by (auto simp: cluster_init_def)
  have "role (n_state (nodes C i)) = FOLLOWER"
  proof (cases dsk)
    case None
    then show ?thesis using node_init_no_files(7) start by blast
  next
    case (Some d)
    show ?thesis by (rule node_init_effect [OF start [unfolded Some]])
  qed
  then show ?case using init by simp
next
  case (step C C')
  obtain j n D where "C' = put_node j n D" "nodes D = nodes C" "leaders D = leaders C"
    using cluster_step_shape [OF step.hyps(2)] by blast
  then show ?case using step.IH [of i] step.prems by (auto simp: leads_def put_node_def split: if_splits)
qed

lemma leaders_unique:
  assumes "reachable members C" "(t, a) \<in> leaders C" "(t, b) \<in> leaders C"
  shows "a = b"
proof -
  have inv: "cluster_inv members C" by (rule reachable_inv [OF assms(1)])
  then have "elected members (history C) t a" "elected members (history C) t b"
    using assms(2,3) by (auto simp: cluster_inv_def)
  moreover have "x = y" if "(v, u, x) \<in> history C" "(v, u, y) \<in> history C" for v u x y
    using inv that unfolding cluster_inv_def by blast
  ultimately show ?thesis by (rule elected_unique)
qed

end
