(* ===== verification/RaftProtocol.thy ===== *)
theory RaftProtocol
  imports Election
begin

text \<open>
  The protocol behind the nodes, as an abstract specification: per node a term, a whole log and a
  commit index, per term the log its leader was elected with and has grown since, and the votes,
  acknowledgements and commits there have been. The invariant gives leader completeness and, from
  it, that any two committed prefixes agree. The steps are what the program's sections do to this
  state; each is shown to keep the invariant. The program's cluster is related to it elsewhere.
\<close>

section \<open>States\<close>

text \<open>
  \<open>p_base t\<close> is the leader of term \<open>t\<close> with the log it was elected with, \<open>p_llog t\<close> its log since.
  A candidacy is recorded with the candidate's log, a vote with the voter's log when it was given, an
  acknowledgement \<open>(j, t, k)\<close> says that \<open>j\<close> held the first \<open>k\<close> entries of the leader of term \<open>t\<close>.
  \<open>(k, t)\<close> in \<open>p_com\<close>: the leader of term \<open>t\<close> has committed its first \<open>k\<close> entries.
\<close>

record proto =
  p_term :: "string \<Rightarrow> int"
  p_log :: "string \<Rightarrow> log_entry list"
  p_commit :: "string \<Rightarrow> nat"
  p_lead :: "string \<Rightarrow> bool"
  p_base :: "int \<Rightarrow> (string \<times> log_entry list) option"
  p_llog :: "int \<Rightarrow> log_entry list"
  p_cands :: "(string \<times> int \<times> log_entry list) set"
  p_votes :: "(string \<times> int \<times> string \<times> log_entry list) set"
  p_acks :: "(string \<times> int \<times> nat) set"
  p_com :: "(nat \<times> int) set"

text \<open>An entry of term \<open>t\<close> stands in the log of the leader of \<open>t\<close>, with everything before it.\<close>

definition grounded :: "proto \<Rightarrow> log_entry list \<Rightarrow> bool" where
  "grounded P lg = (\<forall>k < length lg. p_base P (entry_term (lg ! k)) \<noteq> None \<and>
     take (Suc k) lg = take (Suc k) (p_llog P (entry_term (lg ! k))) \<and>
     k < length (p_llog P (entry_term (lg ! k))))"

definition wf_plog :: "proto \<Rightarrow> log_entry list \<Rightarrow> bool" where
  "wf_plog P lg = (grounded P lg \<and> sorted (map entry_term lg))"

definition final_term :: "log_entry list \<Rightarrow> int" where
  "final_term lg = (if lg = [] then 0 else entry_term (last lg))"

definition up_to_date :: "log_entry list \<Rightarrow> log_entry list \<Rightarrow> bool" where
  "up_to_date clg lg = (final_term lg < final_term clg \<or> final_term lg = final_term clg \<and> length lg \<le> length clg)"

definition holds :: "proto \<Rightarrow> int \<Rightarrow> nat \<Rightarrow> log_entry list \<Rightarrow> bool" where
  "holds P t k lg = (take k lg = take k (p_llog P t))"

text \<open>A leader between the terms \<open>t\<close> and \<open>u\<close> was elected without those entries.\<close>

definition overruled :: "proto \<Rightarrow> int \<Rightarrow> nat \<Rightarrow> int \<Rightarrow> bool" where
  "overruled P t k u = (\<exists>t' c b. t < t' \<and> t' < u \<and> p_base P t' = Some (c, b) \<and> \<not> holds P t k b)"

definition committed :: "proto \<Rightarrow> int \<Rightarrow> nat \<Rightarrow> log_entry list \<Rightarrow> bool" where
  "committed P T c lg = (c = 0 \<or> (\<exists>k t. (k, t) \<in> p_com P \<and> t \<le> T \<and> c \<le> k \<and> holds P t c lg))"

section \<open>The invariant\<close>

definition member_ok :: "proto \<Rightarrow> string \<Rightarrow> bool" where
  "member_ok P i = (0 \<le> p_term P i \<and> wf_plog P (p_log P i) \<and> (\<forall>e \<in> set (p_log P i). entry_term e \<le> p_term P i) \<and>
     committed P (p_term P i) (p_commit P i) (p_log P i) \<and>
     (p_lead P i \<longrightarrow> (\<exists>b. p_base P (p_term P i) = Some (i, b)) \<and> p_log P i = p_llog P (p_term P i)))"

definition leader_ok :: "string set \<Rightarrow> proto \<Rightarrow> int \<Rightarrow> string \<Rightarrow> log_entry list \<Rightarrow> bool" where
  "leader_ok M P t c b = (0 < t \<and> wf_plog P b \<and> (\<forall>e \<in> set b. entry_term e < t) \<and>
     (\<exists>new. p_llog P t = b @ new \<and> (\<forall>e \<in> set new. entry_term e = t)) \<and>
     c \<in> M \<and> t \<le> p_term P c \<and> (c, t, b) \<in> p_cands P \<and>
     (\<exists>Q. majority M Q \<and> (\<forall>v \<in> Q. \<exists>lg. (v, t, c, lg) \<in> p_votes P)))"

definition cand_ok :: "string set \<Rightarrow> proto \<Rightarrow> string \<Rightarrow> int \<Rightarrow> log_entry list \<Rightarrow> bool" where
  "cand_ok M P c t lg = (c \<in> M \<and> 0 < t \<and> t \<le> p_term P c \<and> wf_plog P lg \<and> (\<forall>e \<in> set lg. entry_term e < t))"

definition vote_ok :: "string set \<Rightarrow> proto \<Rightarrow> string \<Rightarrow> int \<Rightarrow> string \<Rightarrow> log_entry list \<Rightarrow> bool" where
  "vote_ok M P v t c lg = (v \<in> M \<and> t \<le> p_term P v \<and> wf_plog P lg \<and>
     (\<exists>clg. (c, t, clg) \<in> p_cands P \<and> up_to_date clg lg))"

text \<open>
  A node that has acknowledged a prefix has it in its log, unless a later leader that it has heard
  of was elected without it; and it had it when it voted in a later term, with the same exception.
\<close>

definition ack_ok :: "string set \<Rightarrow> proto \<Rightarrow> string \<Rightarrow> int \<Rightarrow> nat \<Rightarrow> bool" where
  "ack_ok M P j t k = (j \<in> M \<and> t \<le> p_term P j \<and> p_base P t \<noteq> None \<and> k \<le> length (p_llog P t) \<and>
     (\<forall>m \<le> k. holds P t m (p_log P j) \<or> overruled P t m (p_term P j + 1)))"

definition voted_ok :: "proto \<Rightarrow> int \<Rightarrow> nat \<Rightarrow> int \<Rightarrow> log_entry list \<Rightarrow> bool" where
  "voted_ok P t k t' lg = (t < t' \<longrightarrow> (\<forall>m \<le> k. holds P t m lg \<or> overruled P t m t'))"

definition commit_ok :: "string set \<Rightarrow> proto \<Rightarrow> nat \<Rightarrow> int \<Rightarrow> bool" where
  "commit_ok M P k t = (0 < k \<and> k \<le> length (p_llog P t) \<and> entry_term (p_llog P t ! (k - 1)) = t \<and>
     p_base P t \<noteq> None \<and> (\<exists>Q. majority M Q \<and> (\<forall>v \<in> Q. \<exists>m \<ge> k. (v, t, m) \<in> p_acks P)))"

definition proto_inv :: "string set \<Rightarrow> proto \<Rightarrow> bool" where
  "proto_inv M P = (finite M \<and> (\<forall>i \<in> M. member_ok P i) \<and>
     (\<forall>t c b. p_base P t = Some (c, b) \<longrightarrow> leader_ok M P t c b) \<and>
     (\<forall>c t lg. (c, t, lg) \<in> p_cands P \<longrightarrow> cand_ok M P c t lg) \<and>
     (\<forall>c t a b. (c, t, a) \<in> p_cands P \<longrightarrow> (c, t, b) \<in> p_cands P \<longrightarrow> a = b) \<and>
     (\<forall>v t c lg. (v, t, c, lg) \<in> p_votes P \<longrightarrow> vote_ok M P v t c lg) \<and>
     (\<forall>j t k. (j, t, k) \<in> p_acks P \<longrightarrow> ack_ok M P j t k) \<and>
     (\<forall>j t k t' c lg. (j, t, k) \<in> p_acks P \<longrightarrow> (j, t', c, lg) \<in> p_votes P \<longrightarrow> voted_ok P t k t' lg) \<and>
     (\<forall>k t. (k, t) \<in> p_com P \<longrightarrow> commit_ok M P k t))"

lemma proto_invD:
  assumes "proto_inv M P"
  shows "finite M" "i \<in> M \<Longrightarrow> member_ok P i" "p_base P t = Some (c, b) \<Longrightarrow> leader_ok M P t c b"
    "(c, t, lg) \<in> p_cands P \<Longrightarrow> cand_ok M P c t lg"
    "(c, t, lg) \<in> p_cands P \<Longrightarrow> (c, t, lg') \<in> p_cands P \<Longrightarrow> lg = lg'"
    "(v, t, c, lg) \<in> p_votes P \<Longrightarrow> vote_ok M P v t c lg"
    "(j, t, k) \<in> p_acks P \<Longrightarrow> ack_ok M P j t k"
    "(j, t, k) \<in> p_acks P \<Longrightarrow> (j, t', c, lg) \<in> p_votes P \<Longrightarrow> voted_ok P t k t' lg"
    "(k, t) \<in> p_com P \<Longrightarrow> commit_ok M P k t"
  using assms unfolding proto_inv_def by (elim conjE; metis)+

section \<open>Log matching\<close>

lemma grounded_nth:
  assumes "grounded P lg" "k < length lg"
  shows "p_base P (entry_term (lg ! k)) \<noteq> None"
    "take (Suc k) lg = take (Suc k) (p_llog P (entry_term (lg ! k)))"
    "k < length (p_llog P (entry_term (lg ! k)))"
  using assms by (auto simp: grounded_def)

lemma log_matching:
  assumes "grounded P a" "grounded P b" "k < length a" "k < length b" "entry_term (a ! k) = entry_term (b ! k)"
  shows "take (Suc k) a = take (Suc k) b"
  using grounded_nth(2) [OF assms(1,3)] grounded_nth(2) [OF assms(2,4)] assms(5) by simp

lemma grounded_take: "grounded P lg \<Longrightarrow> grounded P (take n lg)"
  by (auto simp: grounded_def min_def)

lemma wf_plog_take: "wf_plog P lg \<Longrightarrow> wf_plog P (take n lg)"
  by (auto simp: wf_plog_def grounded_take take_map [symmetric] sorted_wrt_take)

lemma wf_plog_Nil [simp]: "wf_plog P []"
  by (simp add: wf_plog_def grounded_def)

lemma take_eq_shorter: "take n a = take n b \<Longrightarrow> m \<le> n \<Longrightarrow> take m a = take m b"
  by (metis min.absorb1 take_take)

lemma take_eq_length: "take k a = take k b \<Longrightarrow> k \<le> length b \<Longrightarrow> k \<le> length a"
  by (metis length_take min.absorb2 min.cobounded1)

lemma take_Suc_eq_nth: "take (Suc k) a = take (Suc k) b \<Longrightarrow> k < length a \<Longrightarrow> k < length b \<Longrightarrow> a ! k = b ! k"
  by (metis lessI nth_take)

text \<open>The log of a leader.\<close>

lemma llog_facts:
  assumes "leader_ok M P t c b" and t: "p_base P t = Some (c, b)"
  shows "wf_plog P (p_llog P t)" "\<And>e. e \<in> set (p_llog P t) \<Longrightarrow> entry_term e \<le> t"
    "take (length b) (p_llog P t) = b" "length b \<le> length (p_llog P t)"
    "\<And>k. k < length (p_llog P t) \<Longrightarrow> entry_term (p_llog P t ! k) = t \<longleftrightarrow> length b \<le> k"
proof -
  obtain new where b: "wf_plog P b" "\<And>e. e \<in> set b \<Longrightarrow> entry_term e < t"
      and new: "p_llog P t = b @ new" "\<And>e. e \<in> set new \<Longrightarrow> entry_term e = t"
    using assms(1) unfolding leader_ok_def by blast
  show "take (length b) (p_llog P t) = b" "length b \<le> length (p_llog P t)" by (simp_all add: new(1))
  show le: "entry_term e \<le> t" if "e \<in> set (p_llog P t)" for e using that b(2) new by fastforce
  show iff: "entry_term (p_llog P t ! k) = t \<longleftrightarrow> length b \<le> k" if "k < length (p_llog P t)" for k
  proof (cases "k < length b")
    case True
    then show ?thesis using b(2) [of "b ! k"] by (simp add: new(1) nth_append)
  next
    case False
    then show ?thesis using new(2) [of "new ! (k - length b)"] that by (simp add: new(1) nth_append)
  qed
  have "grounded P (p_llog P t)"
    unfolding grounded_def
  proof (intro allI impI)
    fix k assume k: "k < length (p_llog P t)"
    show "p_base P (entry_term (p_llog P t ! k)) \<noteq> None \<and>
        take (Suc k) (p_llog P t) = take (Suc k) (p_llog P (entry_term (p_llog P t ! k))) \<and>
        k < length (p_llog P (entry_term (p_llog P t ! k)))"
    proof (cases "length b \<le> k")
      case True
      then show ?thesis using iff [OF k] t k by simp
    next
      case False
      have "grounded P b" using b(1) by (simp add: wf_plog_def)
      then show ?thesis using grounded_nth [of P b k] False by (simp add: new(1) nth_append)
    qed
  qed
  moreover have "sorted (map entry_term (p_llog P t))"
  proof -
    have "map entry_term new = replicate (length new) t"
      using new(2) by (intro nth_equalityI) simp_all
    then show ?thesis using b by (auto simp: new(1) wf_plog_def sorted_append dest: less_imp_le)
  qed
  ultimately show "wf_plog P (p_llog P t)" by (simp add: wf_plog_def)
qed

section \<open>Leader completeness\<close>

lemma wf_plog_last:
  assumes "wf_plog P lg" "lg \<noteq> []"
  shows "take (length lg) (p_llog P (final_term lg)) = lg" "p_base P (final_term lg) \<noteq> None"
    "length lg \<le> length (p_llog P (final_term lg))"
proof -
  have last: "lg ! (length lg - 1) = last lg" "length lg - 1 < length lg" "Suc (length lg - 1) = length lg"
    using assms(2) by (simp_all add: last_conv_nth)
  have "grounded P lg" using assms(1) by (simp add: wf_plog_def)
  note G = grounded_nth [OF this last(2), unfolded last(1,3)]
  show "take (length lg) (p_llog P (final_term lg)) = lg" "p_base P (final_term lg) \<noteq> None"
    "length lg \<le> length (p_llog P (final_term lg))"
    using G assms(2) by (simp_all add: final_term_def)
qed

lemma final_term_nth:
  assumes "wf_plog P lg" "k < length lg"
  shows "entry_term (lg ! k) \<le> final_term lg"
proof -
  have "map entry_term lg ! k \<le> map entry_term lg ! (length lg - 1)"
    using assms by (intro sorted_nth_mono) (simp_all add: wf_plog_def)
  then show ?thesis using assms(2) by (auto simp: final_term_def last_conv_nth)
qed

text \<open>The induction step: a candidate whose voters hold a committed prefix holds it as well.\<close>

lemma candidate_holds:
  assumes inv: "proto_inv M P"
    and T: "0 < t" and k: "0 < k" "k \<le> length (p_llog P t)" "entry_term (p_llog P t ! (k - 1)) = t"
    and IH: "\<And>u c b. t < u \<Longrightarrow> u < T \<Longrightarrow> p_base P u = Some (c, b) \<Longrightarrow> holds P t k b"
    and b: "wf_plog P b" "\<And>e. e \<in> set b \<Longrightarrow> entry_term e < T"
    and lg: "wf_plog P lg" "holds P t k lg" "up_to_date b lg"
  shows "holds P t k b"
proof -
  have len: "k \<le> length lg" using lg(2) k(2) take_eq_length unfolding holds_def by blast
  have kth: "lg ! (k - 1) = p_llog P t ! (k - 1)"
    using take_Suc_eq_nth [of "k - 1" lg "p_llog P t"] lg(2) k len by (simp add: holds_def)
  have t: "t \<le> final_term lg" using final_term_nth [OF lg(1), of "k - 1"] k len kth by simp
  from lg(3) consider "final_term lg < final_term b" | "final_term lg = final_term b" "length lg \<le> length b"
    by (auto simp: up_to_date_def)
  then show ?thesis
  proof cases
    case 1
    show ?thesis
    proof (cases "b = []")
      case True
      then show ?thesis using 1 t T by (simp add: final_term_def)
    next
      case False
      let ?u = "final_term b"
      have "last b \<in> set b" using False by simp
      then have u: "t < ?u" "?u < T" using b(2) 1 t False by (simp_all add: final_term_def)
      note B = wf_plog_last [OF b(1) False]
      obtain c b' where b': "p_base P ?u = Some (c, b')" using B(2) by auto
      have "holds P t k b'" by (rule IH [OF u b'])
      note L = llog_facts [OF proto_invD(3) [OF inv b'] b']
      have "p_llog P ?u ! (length b - 1) = last b"
        using B(1) False by (metis diff_less last_conv_nth length_greater_0_conv nth_take zero_less_one)
      moreover have "length b - 1 < length (p_llog P ?u)" using B(3) False by (cases b) simp_all
      ultimately have b'_len: "length b' \<le> length b - 1"
        using L(5) [of "length b - 1"] False by (simp add: final_term_def)
      have "k \<le> length b'" using \<open>holds P t k b'\<close> k(2) take_eq_length unfolding holds_def by blast
      then have "take k b = take k b'"
        using b'_len B(1) L(3) by (metis diff_le_self le_trans min.absorb1 take_take)
      then show ?thesis using \<open>holds P t k b'\<close> by (simp add: holds_def)
    qed
  next
    case 2
    have "lg \<noteq> []" using len k(1) by auto
    then have "b \<noteq> []" using 2(2) by auto
    have "take (length lg) b = lg"
      using wf_plog_last(1) [OF b(1) \<open>b \<noteq> []\<close>] wf_plog_last(1) [OF lg(1) \<open>lg \<noteq> []\<close>] 2
      by (metis min.absorb1 take_take)
    then have "take k b = take k lg" using len by (metis min.absorb1 take_take)
    then show ?thesis using lg(2) by (simp add: holds_def)
  qed
qed

text \<open>What a leader has committed is in the log of every later leader from its election on.\<close>

lemma later_leader_holds:
  assumes inv: "proto_inv M P" and com: "(k, t) \<in> p_com P"
  shows "t < u \<Longrightarrow> p_base P u = Some (c, b) \<Longrightarrow> holds P t k b"
proof (induction "nat (u - t)" arbitrary: u c b rule: less_induct)
  case less
  note I = proto_invD [OF inv]
  have K: "0 < k" "k \<le> length (p_llog P t)" "entry_term (p_llog P t ! (k - 1)) = t" "p_base P t \<noteq> None"
    using I(9) [OF com] by (simp_all add: commit_ok_def)
  obtain Q where Q: "majority M Q" "\<And>v. v \<in> Q \<Longrightarrow> \<exists>m \<ge> k. (v, t, m) \<in> p_acks P"
    using I(9) [OF com] by (auto simp: commit_ok_def)
  have t: "0 < t" using K(4) I(3) by (auto simp: leader_ok_def)
  have IH: "holds P t k b'" if "t < u'" "u' < u" "p_base P u' = Some (c', b')" for u' c' b'
    using less.hyps [of u' c' b'] that by simp
  have B: "wf_plog P b" "\<And>e. e \<in> set b \<Longrightarrow> entry_term e < u" "(c, u, b) \<in> p_cands P"
    using I(3) [OF less.prems(2)] by (simp_all add: leader_ok_def)
  obtain R where R: "majority M R" "\<And>v. v \<in> R \<Longrightarrow> \<exists>lg. (v, u, c, lg) \<in> p_votes P"
    using I(3) [OF less.prems(2)] by (auto simp: leader_ok_def)
  obtain v where "v \<in> Q" "v \<in> R" using majority_intersect [OF I(1) Q(1) R(1)] by blast
  obtain m lg where m: "k \<le> m" "(v, t, m) \<in> p_acks P" and lg: "(v, u, c, lg) \<in> p_votes P"
    using Q(2) [OF \<open>v \<in> Q\<close>] R(2) [OF \<open>v \<in> R\<close>] by blast
  have "holds P t k lg \<or> overruled P t k u"
    using I(8) [OF m(2) lg] less.prems(1) m(1) by (simp add: voted_ok_def)
  then have holds: "holds P t k lg" using IH by (auto simp: overruled_def)
  obtain clg where V: "wf_plog P lg" "(c, u, clg) \<in> p_cands P" "up_to_date clg lg"
    using I(6) [OF lg] by (auto simp: vote_ok_def)
  have "clg = b" by (rule I(5) [OF V(2) B(3)])
  then show ?case using V by (intro candidate_holds [OF inv t K(1-3) IH B(1,2) V(1) holds]) simp_all
qed

text \<open>So the leaders' logs agree on it, and any two committed prefixes agree as far as both go.\<close>

lemma llog_holds:
  assumes inv: "proto_inv M P" and com: "(k, t) \<in> p_com P" "t \<le> u" "p_base P u \<noteq> None"
  shows "holds P t k (p_llog P u)"
proof (cases "t = u")
  case True
  then show ?thesis by (simp add: holds_def)
next
  case False
  obtain c b where b: "p_base P u = Some (c, b)" using com(3) by auto
  have h: "holds P t k b" using later_leader_holds [OF inv com(1) _ b] False com(2) by simp
  have "k \<le> length (p_llog P t)" using proto_invD(9) [OF inv com(1)] by (simp add: commit_ok_def)
  then have "k \<le> length b" using h take_eq_length unfolding holds_def by blast
  then have "take k (p_llog P u) = take k b"
    using llog_facts(3) [OF proto_invD(3) [OF inv b] b] by (metis min.absorb1 take_take)
  then show ?thesis using h by (simp add: holds_def)
qed

lemma committed_agree:
  assumes inv: "proto_inv M P" and a: "committed P T c a" and b: "committed P U d b" and m: "m \<le> c" "m \<le> d"
  shows "take m a = take m b"
proof (cases "m = 0")
  case False
  obtain k t where kt: "(k, t) \<in> p_com P" "c \<le> k" "holds P t c a" using a m False by (auto simp: committed_def)
  obtain l u where lu: "(l, u) \<in> p_com P" "d \<le> l" "holds P u d b" using b m False by (auto simp: committed_def)
  have bases: "p_base P t \<noteq> None" "p_base P u \<noteq> None"
    using proto_invD(9) [OF inv kt(1)] proto_invD(9) [OF inv lu(1)] by (simp_all add: commit_ok_def)
  have "take m (p_llog P t) = take m (p_llog P u)"
  proof (cases "t \<le> u")
    case True
    then have "take k (p_llog P u) = take k (p_llog P t)"
      using llog_holds [OF inv kt(1) True bases(2)] by (simp add: holds_def)
    then show ?thesis using take_eq_shorter [of k "p_llog P u" "p_llog P t" m] kt(2) m(1) by simp
  next
    case False
    then have "take l (p_llog P t) = take l (p_llog P u)"
      using llog_holds [OF inv lu(1) _ bases(1)] by (simp add: holds_def)
    then show ?thesis using take_eq_shorter [of l "p_llog P t" "p_llog P u" m] lu(2) m(2) by simp
  qed
  moreover have "take m a = take m (p_llog P t)" using kt(3) m(1) take_eq_shorter unfolding holds_def by blast
  moreover have "take m b = take m (p_llog P u)" using lu(3) m(2) take_eq_shorter unfolding holds_def by blast
  ultimately show ?thesis by simp
qed simp

text \<open>What is committed below a term is in the log of that term's leader.\<close>

lemma committed_llog:
  assumes inv: "proto_inv M P" and c: "committed P T c lg" and T: "p_base P T \<noteq> None"
  shows "take c lg = take c (p_llog P T)" "c \<le> length (p_llog P T)"
proof -
  have "take c lg = take c (p_llog P T) \<and> c \<le> length (p_llog P T)"
  proof (cases "c = 0")
    case False
    obtain k t where kt: "(k, t) \<in> p_com P" "t \<le> T" "c \<le> k" "holds P t c lg"
      using c False by (auto simp: committed_def)
    have k: "k \<le> length (p_llog P t)" using proto_invD(9) [OF inv kt(1)] by (simp add: commit_ok_def)
    have h: "take k (p_llog P T) = take k (p_llog P t)"
      using llog_holds [OF inv kt(1,2) T] by (simp add: holds_def)
    then have "k \<le> length (p_llog P T)" using k take_eq_length by blast
    moreover have "take c (p_llog P T) = take c (p_llog P t)" using take_eq_shorter [OF h kt(3)] .
    ultimately show ?thesis using kt(3,4) by (simp add: holds_def)
  qed simp
  then show "take c lg = take c (p_llog P T)" "c \<le> length (p_llog P T)" by simp_all
qed

section \<open>Growth\<close>

text \<open>Terms, votes, acknowledgements, commits and leaders' logs only grow.\<close>

definition grows :: "proto \<Rightarrow> proto \<Rightarrow> bool" where
  "grows P P' = ((\<forall>i. p_term P i \<le> p_term P' i) \<and> p_cands P \<subseteq> p_cands P' \<and> p_votes P \<subseteq> p_votes P' \<and>
     p_acks P \<subseteq> p_acks P' \<and> p_com P \<subseteq> p_com P' \<and>
     (\<forall>t. p_base P t \<noteq> None \<longrightarrow> p_base P' t = p_base P t \<and>
        (\<exists>new. p_llog P' t = p_llog P t @ new \<and> (\<forall>e \<in> set new. entry_term e = t))))"

lemma grows_refl [simp]: "grows P P"
  by (simp add: grows_def)

lemma growsD:
  assumes "grows P P'"
  shows "p_term P i \<le> p_term P' i" "x \<in> p_cands P \<Longrightarrow> x \<in> p_cands P'" "y \<in> p_votes P \<Longrightarrow> y \<in> p_votes P'"
    "z \<in> p_acks P \<Longrightarrow> z \<in> p_acks P'" "w \<in> p_com P \<Longrightarrow> w \<in> p_com P'"
    "p_base P t \<noteq> None \<Longrightarrow> p_base P' t = p_base P t"
    "p_base P t \<noteq> None \<Longrightarrow> \<exists>new. p_llog P' t = p_llog P t @ new \<and> (\<forall>e \<in> set new. entry_term e = t)"
  using assms unfolding grows_def by auto

lemma grows_trans:
  assumes "grows P Q" "grows Q R"
  shows "grows P R"
proof -
  have "p_base R t = p_base P t \<and> (\<exists>new. p_llog R t = p_llog P t @ new \<and> (\<forall>e \<in> set new. entry_term e = t))"
    if t: "p_base P t \<noteq> None" for t
  proof -
    note Q = growsD(6) [OF assms(1) t]
    obtain a where a: "p_llog Q t = p_llog P t @ a" "\<forall>e \<in> set a. entry_term e = t"
      using growsD(7) [OF assms(1) t] by blast
    obtain b where b: "p_llog R t = p_llog Q t @ b" "\<forall>e \<in> set b. entry_term e = t"
      using growsD(7) [OF assms(2), of t] t Q by auto
    have "p_base R t = p_base P t" using growsD(6) [OF assms(2), of t] t Q by simp
    then show ?thesis using a b by (intro conjI exI [of _ "a @ b"]) auto
  qed
  moreover have "p_term P i \<le> p_term R i" for i
    using growsD(1) [OF assms(1), of i] growsD(1) [OF assms(2), of i] by simp
  ultimately show ?thesis using growsD [OF assms(1)] growsD [OF assms(2)] unfolding grows_def by (simp add: subset_iff)
qed

lemma grows_llog:
  assumes "grows P P'" "p_base P t \<noteq> None"
  shows "length (p_llog P t) \<le> length (p_llog P' t)" "k \<le> length (p_llog P t) \<Longrightarrow> take k (p_llog P' t) = take k (p_llog P t)"
    "j < length (p_llog P t) \<Longrightarrow> p_llog P' t ! j = p_llog P t ! j"
  using growsD(7) [OF assms] by (auto simp: nth_append)

lemma grows_grounded:
  assumes "grows P P'" "grounded P lg"
  shows "grounded P' lg"
  unfolding grounded_def
proof (intro allI impI)
  fix k assume "k < length lg"
  note G = grounded_nth [OF assms(2) this]
  show "p_base P' (entry_term (lg ! k)) \<noteq> None \<and>
      take (Suc k) lg = take (Suc k) (p_llog P' (entry_term (lg ! k))) \<and> k < length (p_llog P' (entry_term (lg ! k)))"
    using growsD(6) [OF assms(1) G(1)] grows_llog [OF assms(1) G(1)] G by (metis Suc_leI less_le_trans)
qed

lemma grows_wf_plog: "grows P P' \<Longrightarrow> wf_plog P lg \<Longrightarrow> wf_plog P' lg"
  by (simp add: wf_plog_def grows_grounded)

lemma grows_holds:
  "grows P P' \<Longrightarrow> p_base P t \<noteq> None \<Longrightarrow> k \<le> length (p_llog P t) \<Longrightarrow> holds P' t k lg \<longleftrightarrow> holds P t k lg"
  by (simp add: holds_def grows_llog)

lemma grows_overruled:
  assumes "grows P P'" "p_base P t \<noteq> None" "k \<le> length (p_llog P t)" "overruled P t k u" "u \<le> u'"
  shows "overruled P' t k u'"
proof -
  obtain t' c b where o: "t < t'" "t' < u" "p_base P t' = Some (c, b)" "\<not> holds P t k b"
    using assms(4) by (auto simp: overruled_def)
  have "p_base P' t' = Some (c, b)" using growsD(6) [OF assms(1), of t'] o(3) by simp
  then show ?thesis
    using o assms(5) grows_holds [OF assms(1-3), of b] unfolding overruled_def by fastforce
qed

lemma grows_committed:
  assumes inv: "proto_inv M P" and g: "grows P P'" and c: "committed P T c lg" and T: "T \<le> T'"
  shows "committed P' T' c lg"
proof (cases "c = 0")
  case False
  obtain k t where kt: "(k, t) \<in> p_com P" "t \<le> T" "c \<le> k" "holds P t c lg"
    using c False by (auto simp: committed_def)
  have "p_base P t \<noteq> None" "k \<le> length (p_llog P t)"
    using proto_invD(9) [OF inv kt(1)] by (simp_all add: commit_ok_def)
  then have "holds P' t c lg" using grows_holds [OF g, of t c lg] kt(3,4) by simp
  then show ?thesis using kt growsD(5) [OF g kt(1)] T by (auto simp: committed_def)
qed (simp add: committed_def)

lemma grows_leader_ok:
  assumes g: "grows P P'" and "leader_ok M P t c b" "p_base P t = Some (c, b)"
  shows "leader_ok M P' t c b"
proof -
  obtain new new' where new: "p_llog P t = b @ new" "\<forall>e \<in> set new. entry_term e = t"
      "p_llog P' t = p_llog P t @ new'" "\<forall>e \<in> set new'. entry_term e = t"
    using assms(2,3) growsD(7) [OF g, of t] by (auto simp: leader_ok_def)
  have "\<exists>new. p_llog P' t = b @ new \<and> (\<forall>e \<in> set new. entry_term e = t)"
    using new by (intro exI [of _ "new @ new'"]) auto
  moreover have "t \<le> p_term P' c" "(c, t, b) \<in> p_cands P'" "wf_plog P' b"
    using assms(2) growsD(1,2) [OF g] grows_wf_plog [OF g] order_trans unfolding leader_ok_def by blast+
  moreover have "\<exists>Q. majority M Q \<and> (\<forall>v \<in> Q. \<exists>lg. (v, t, c, lg) \<in> p_votes P')"
    using assms(2) growsD(3) [OF g] unfolding leader_ok_def by blast
  ultimately show ?thesis using assms(2) by (simp add: leader_ok_def)
qed

lemma grows_cand_ok: "grows P P' \<Longrightarrow> cand_ok M P c t lg \<Longrightarrow> cand_ok M P' c t lg"
  using growsD(1) [of P P' c] grows_wf_plog by (fastforce simp: cand_ok_def)

lemma grows_vote_ok:
  assumes "grows P P'" "vote_ok M P v t c lg"
  shows "vote_ok M P' v t c lg"
  using assms growsD(1) [OF assms(1), of v] growsD(2) [OF assms(1)] grows_wf_plog [OF assms(1)]
  by (fastforce simp: vote_ok_def)

lemma grows_ack_ok:
  assumes g: "grows P P'" and "ack_ok M P j t k" "p_log P' j = p_log P j"
  shows "ack_ok M P' j t k"
proof -
  have A: "j \<in> M" "t \<le> p_term P j" "p_base P t \<noteq> None" "k \<le> length (p_llog P t)"
      "\<And>m. m \<le> k \<Longrightarrow> holds P t m (p_log P j) \<or> overruled P t m (p_term P j + 1)"
    using assms(2) by (simp_all add: ack_ok_def)
  have "holds P' t m (p_log P j) \<or> overruled P' t m (p_term P' j + 1)" if "m \<le> k" for m
    using A(5) [OF that] grows_holds [OF g A(3)] grows_overruled [OF g A(3)] growsD(1) [OF g, of j] that A(4) by fastforce
  then show ?thesis
    using A growsD(1) [OF g, of j] growsD(6) [OF g A(3)] grows_llog(1) [OF g A(3)] assms(3) by (simp add: ack_ok_def)
qed

lemma grows_voted_ok:
  assumes g: "grows P P'" and "voted_ok P t k t' lg" "p_base P t \<noteq> None" "k \<le> length (p_llog P t)"
  shows "voted_ok P' t k t' lg"
  using assms(2,4) grows_holds [OF g assms(3)] grows_overruled [OF g assms(3)] unfolding voted_ok_def
  by (metis order.refl order.trans)

lemma grows_commit_ok:
  assumes g: "grows P P'" and "commit_ok M P k t"
  shows "commit_ok M P' k t"
proof -
  have b: "p_base P t \<noteq> None" "0 < k" "k \<le> length (p_llog P t)" using assms(2) by (simp_all add: commit_ok_def)
  have "\<exists>Q. majority M Q \<and> (\<forall>v \<in> Q. \<exists>m \<ge> k. (v, t, m) \<in> p_acks P')"
    using assms(2) growsD(4) [OF g] unfolding commit_ok_def by blast
  then show ?thesis
    using assms(2) growsD(6) [OF g b(1)] grows_llog(1) [OF g b(1)] grows_llog(3) [OF g b(1), of "k - 1"] b
    by (simp add: commit_ok_def)
qed

text \<open>A node whose log and commit index stay, and which is no new leader.\<close>

lemma grows_member_ok:
  assumes inv: "proto_inv M P" and g: "grows P P'" and ok: "member_ok P i"
    and "p_log P' i = p_log P i" "p_commit P' i = p_commit P i"
    and lead: "p_lead P' i \<Longrightarrow> p_lead P i \<and> p_term P' i = p_term P i \<and> p_llog P' (p_term P i) = p_llog P (p_term P i)"
  shows "member_ok P' i"
proof -
  have "wf_plog P' (p_log P i)" "committed P' (p_term P' i) (p_commit P i) (p_log P i)"
    using ok grows_wf_plog [OF g] grows_committed [OF inv g _ growsD(1) [OF g]] by (simp_all add: member_ok_def)
  moreover have "\<exists>b. p_base P' (p_term P' i) = Some (i, b)" "p_log P i = p_llog P' (p_term P' i)" if "p_lead P' i"
    using lead [OF that] ok growsD(6) [OF g, of "p_term P i"] by (auto simp: member_ok_def)
  ultimately show ?thesis
    using ok growsD(1) [OF g, of i] assms(4,5) by (fastforce simp: member_ok_def)
qed

text \<open>
  The invariant after a step: what was there before is kept by growth, so what is new is left to show.
\<close>

lemma proto_inv_grows:
  assumes inv: "proto_inv M P" and g: "grows P P'"
    and node: "\<And>i. i \<in> M \<Longrightarrow> member_ok P' i"
    and lead: "\<And>t c b. p_base P t = None \<Longrightarrow> p_base P' t = Some (c, b) \<Longrightarrow> leader_ok M P' t c b"
    and cand: "\<And>c t lg. (c, t, lg) \<in> p_cands P' \<Longrightarrow> (c, t, lg) \<notin> p_cands P \<Longrightarrow>
      cand_ok M P' c t lg \<and> (\<forall>lg'. (c, t, lg') \<in> p_cands P' \<longrightarrow> lg' = lg)"
    and vote: "\<And>v t c lg. (v, t, c, lg) \<in> p_votes P' \<Longrightarrow> (v, t, c, lg) \<notin> p_votes P \<Longrightarrow>
      vote_ok M P' v t c lg \<and> (\<forall>u k. (v, u, k) \<in> p_acks P' \<longrightarrow> voted_ok P' u k t lg)"
    and ack: "\<And>j t k. (j, t, k) \<in> p_acks P' \<Longrightarrow> (j, t, k) \<notin> p_acks P \<or> p_log P' j \<noteq> p_log P j \<Longrightarrow> ack_ok M P' j t k"
    and voted: "\<And>j t k u c lg. (j, t, k) \<in> p_acks P' \<Longrightarrow> (j, t, k) \<notin> p_acks P \<Longrightarrow> (j, u, c, lg) \<in> p_votes P \<Longrightarrow>
      voted_ok P' t k u lg"
    and com: "\<And>k t. (k, t) \<in> p_com P' \<Longrightarrow> (k, t) \<notin> p_com P \<Longrightarrow> commit_ok M P' k t"
  shows "proto_inv M P'"
proof -
  note I = proto_invD [OF inv]
  have "leader_ok M P' t c b" if "p_base P' t = Some (c, b)" for t c b
  proof (cases "p_base P t")
    case None
    then show ?thesis using lead that by blast
  next
    case (Some x)
    then have "p_base P t = Some (c, b)" using growsD(6) [OF g, of t] that by simp
    then show ?thesis using grows_leader_ok [OF g] I(3) by blast
  qed
  moreover have "cand_ok M P' c t lg" if "(c, t, lg) \<in> p_cands P'" for c t lg
    using cand [OF that] I(4) grows_cand_ok [OF g] by blast
  moreover have "lg = lg'" if "(c, t, lg) \<in> p_cands P'" "(c, t, lg') \<in> p_cands P'" for c t lg lg'
    using cand [OF that(1)] cand [OF that(2)] that I(5) by blast
  moreover have "vote_ok M P' v t c lg" if "(v, t, c, lg) \<in> p_votes P'" for v t c lg
    using vote [OF that] I(6) grows_vote_ok [OF g] by blast
  moreover have "ack_ok M P' j t k" if "(j, t, k) \<in> p_acks P'" for j t k
    using ack [OF that] I(7) grows_ack_ok [OF g] by blast
  moreover have "voted_ok P' t k u lg" if a: "(j, t, k) \<in> p_acks P'" and v: "(j, u, c, lg) \<in> p_votes P'" for j t k u c lg
  proof (cases "(j, u, c, lg) \<in> p_votes P")
    case True
    show ?thesis
    proof (cases "(j, t, k) \<in> p_acks P")
      case old: True
      have "ack_ok M P j t k" "voted_ok P t k u lg" using I(7) [OF old] I(8) [OF old True] by simp_all
      then show ?thesis using grows_voted_ok [OF g] by (simp add: ack_ok_def)
    next
      case False
      then show ?thesis using voted [OF a _ True] by blast
    qed
  next
    case False
    then show ?thesis using vote [OF v] a by blast
  qed
  moreover have "commit_ok M P' k t" if "(k, t) \<in> p_com P'" for k t
    using com [OF that] I(9) grows_commit_ok [OF g] by blast
  ultimately show ?thesis
    using I(1) node unfolding proto_inv_def by - (intro conjI allI impI ballI; metis)
qed

section \<open>Steps\<close>

text \<open>
  \<open>step_down\<close>: a node learns of a term, or gives up its role. \<open>stand\<close>: it enters the next term as a
  candidate. \<open>vote\<close>: recorded until the term has a leader. \<open>win\<close>: a candidate with a majority of the
  recorded votes. \<open>extend\<close>: a leader appends entries of its term. \<open>replace\<close>: a log that differs from the
  leader's first \<open>m\<close> entries becomes these entries. \<open>ack\<close>: a node has the leader's first \<open>k\<close> entries.
  \<open>decide\<close>: a leader commits an entry of its term that a majority acknowledged. \<open>learn\<close>: a node moves
  its commit index, to one that is known to be committed.
\<close>

inductive proto_step :: "string set \<Rightarrow> string \<Rightarrow> proto \<Rightarrow> proto \<Rightarrow> bool" for M i where
  step_down: "i \<in> M \<Longrightarrow> p_term P i \<le> T \<Longrightarrow>
    proto_step M i P (P\<lparr>p_term := (p_term P)(i := T), p_lead := (p_lead P)(i := False)\<rparr>)"
| stand: "i \<in> M \<Longrightarrow> T = p_term P i + 1 \<Longrightarrow>
    proto_step M i P (P\<lparr>p_term := (p_term P)(i := T), p_lead := (p_lead P)(i := False),
      p_cands := insert (i, T, p_log P i) (p_cands P)\<rparr>)"
| vote: "i \<in> M \<Longrightarrow> p_base P (p_term P i) = None \<Longrightarrow> (c, p_term P i, clg) \<in> p_cands P \<Longrightarrow>
    up_to_date clg (p_log P i) \<Longrightarrow>
    proto_step M i P (P\<lparr>p_votes := insert (i, p_term P i, c, p_log P i) (p_votes P)\<rparr>)"
| win: "i \<in> M \<Longrightarrow> p_base P (p_term P i) = None \<Longrightarrow> (i, p_term P i, p_log P i) \<in> p_cands P \<Longrightarrow> majority M Q \<Longrightarrow>
    (\<And>v. v \<in> Q \<Longrightarrow> \<exists>lg. (v, p_term P i, i, lg) \<in> p_votes P) \<Longrightarrow>
    proto_step M i P (P\<lparr>p_lead := (p_lead P)(i := True), p_base := (p_base P)(p_term P i := Some (i, p_log P i)),
      p_llog := (p_llog P)(p_term P i := p_log P i)\<rparr>)"
| extend: "i \<in> M \<Longrightarrow> p_lead P i \<Longrightarrow> (\<And>e. e \<in> set es \<Longrightarrow> entry_term e = p_term P i) \<Longrightarrow>
    proto_step M i P (P\<lparr>p_log := (p_log P)(i := p_log P i @ es),
      p_llog := (p_llog P)(p_term P i := p_llog P (p_term P i) @ es)\<rparr>)"
| replace: "i \<in> M \<Longrightarrow> \<not> p_lead P i \<Longrightarrow> T = p_term P i \<Longrightarrow> p_base P T \<noteq> None \<Longrightarrow> take m (p_log P i) \<noteq> take m (p_llog P T) \<Longrightarrow>
    proto_step M i P (P\<lparr>p_log := (p_log P)(i := take m (p_llog P T))\<rparr>)"
| ack: "i \<in> M \<Longrightarrow> T = p_term P i \<Longrightarrow> p_base P T \<noteq> None \<Longrightarrow> k \<le> length (p_llog P T) \<Longrightarrow>
    take k (p_log P i) = take k (p_llog P T) \<Longrightarrow>
    proto_step M i P (P\<lparr>p_acks := insert (i, T, k) (p_acks P)\<rparr>)"
| decide: "i \<in> M \<Longrightarrow> p_lead P i \<Longrightarrow> 0 < k \<Longrightarrow> k \<le> length (p_log P i) \<Longrightarrow> entry_term (p_log P i ! (k - 1)) = p_term P i \<Longrightarrow>
    majority M Q \<Longrightarrow> (\<And>v. v \<in> Q \<Longrightarrow> \<exists>m \<ge> k. (v, p_term P i, m) \<in> p_acks P) \<Longrightarrow>
    proto_step M i P (P\<lparr>p_com := insert (k, p_term P i) (p_com P)\<rparr>)"
| learn: "i \<in> M \<Longrightarrow> committed P (p_term P i) c (p_log P i) \<Longrightarrow>
    proto_step M i P (P\<lparr>p_commit := (p_commit P)(i := c)\<rparr>)"

lemma proto_step_grows:
  assumes "proto_inv M P" "proto_step M i P P'"
  shows "grows P P'"
  using assms(2)
proof cases
  case (extend es)
  have "p_llog P' t = (if t = p_term P i then p_llog P t @ es else p_llog P t)" for t
    by (simp add: extend(1))
  then show ?thesis using extend by (auto simp: grows_def)
next
  case (win Q)
  then show ?thesis by (auto simp: grows_def)
qed (auto simp: grows_def)

lemma wf_plog_llog: "proto_inv M P \<Longrightarrow> p_base P t \<noteq> None \<Longrightarrow> wf_plog P (p_llog P t)"
  using llog_facts(1) proto_invD(3) by fastforce

lemma llog_terms: "proto_inv M P \<Longrightarrow> p_base P t \<noteq> None \<Longrightarrow> e \<in> set (p_llog P t) \<Longrightarrow> entry_term e \<le> t"
  using llog_facts(2) proto_invD(3) by fastforce

lemma inv_step_down:
  assumes inv: "proto_inv M P" and i: "i \<in> M" "p_term P i \<le> T"
    and P': "P' = P\<lparr>p_term := (p_term P)(i := T), p_lead := (p_lead P)(i := False)\<rparr>"
  shows "proto_inv M P'"
proof -
  have g: "grows P P'" using i by (auto simp: P' grows_def)
  show ?thesis
  proof (rule proto_inv_grows [OF inv g])
    show "member_ok P' j" if "j \<in> M" for j
      by (rule grows_member_ok [OF inv g proto_invD(2) [OF inv that]]) (auto simp: P' split: if_splits)
  qed (use P' in simp_all)
qed

lemma inv_stand:
  assumes inv: "proto_inv M P" and i: "i \<in> M" "T = p_term P i + 1"
    and P': "P' = P\<lparr>p_term := (p_term P)(i := T), p_lead := (p_lead P)(i := False),
      p_cands := insert (i, T, p_log P i) (p_cands P)\<rparr>"
  shows "proto_inv M P'"
proof -
  have g: "grows P P'" using i by (auto simp: P' grows_def)
  have node: "member_ok P i" by (rule proto_invD(2) [OF inv i(1)])
  have ok: "cand_ok M P' i T (p_log P i)"
    using node i grows_wf_plog [OF g] by (fastforce simp: cand_ok_def member_ok_def P')
  have unique: "lg = p_log P i" if "(i, T, lg) \<in> p_cands P'" for lg
    using that proto_invD(4) [OF inv, of i T lg] i(2) by (auto simp: P' cand_ok_def)
  have new: "cand_ok M P' c t lg \<and> (\<forall>lg'. (c, t, lg') \<in> p_cands P' \<longrightarrow> lg' = lg)"
    if "(c, t, lg) \<in> p_cands P'" "(c, t, lg) \<notin> p_cands P" for c t lg
  proof -
    have "c = i" "t = T" "lg = p_log P i" using that by (simp_all add: P')
    then show ?thesis using ok unique by blast
  qed
  show ?thesis
  proof (rule proto_inv_grows [OF inv g])
    show "member_ok P' j" if "j \<in> M" for j
      by (rule grows_member_ok [OF inv g proto_invD(2) [OF inv that]]) (auto simp: P' split: if_splits)
  qed (use P' new in simp_all)
qed

lemma inv_vote:
  assumes inv: "proto_inv M P" and v: "v \<in> M" and none: "p_base P (p_term P v) = None"
    and c: "(c, p_term P v, clg) \<in> p_cands P" "up_to_date clg (p_log P v)"
    and P': "P' = P\<lparr>p_votes := insert (v, p_term P v, c, p_log P v) (p_votes P)\<rparr>"
  shows "proto_inv M P'"
proof -
  have g: "grows P P'" by (auto simp: P' grows_def)
  have node: "member_ok P v" by (rule proto_invD(2) [OF inv v])
  have "vote_ok M P' v (p_term P v) c (p_log P v)"
    using v c node grows_wf_plog [OF g] by (auto simp: vote_ok_def member_ok_def P')
  moreover have "voted_ok P' u k (p_term P v) (p_log P v)" if "(v, u, k) \<in> p_acks P" for u k
  proof -
    have A: "ack_ok M P v u k" by (rule proto_invD(7) [OF inv that])
    have "overruled P u m (p_term P v)" if "overruled P u m (p_term P v + 1)" for m
    proof -
      obtain t' d b where o: "u < t'" "t' < p_term P v + 1" "p_base P t' = Some (d, b)" "\<not> holds P u m b"
        using \<open>overruled P u m (p_term P v + 1)\<close> by (auto simp: overruled_def)
      then have "t' \<noteq> p_term P v" using none by auto
      then show ?thesis using o unfolding overruled_def by fastforce
    qed
    then have "voted_ok P u k (p_term P v) (p_log P v)" using A unfolding ack_ok_def voted_ok_def by blast
    then show ?thesis using A grows_voted_ok [OF g] by (simp add: ack_ok_def)
  qed
  moreover have "member_ok P' j" if "j \<in> M" for j
    by (rule grows_member_ok [OF inv g proto_invD(2) [OF inv that]]) (simp_all add: P')
  ultimately show ?thesis by (intro proto_inv_grows [OF inv g]) (auto simp: P')
qed

lemma inv_win:
  assumes inv: "proto_inv M P" and i: "i \<in> M" and none: "p_base P (p_term P i) = None"
    and c: "(i, p_term P i, p_log P i) \<in> p_cands P" and Q: "majority M Q"
      "\<And>v. v \<in> Q \<Longrightarrow> \<exists>lg. (v, p_term P i, i, lg) \<in> p_votes P"
    and P': "P' = P\<lparr>p_lead := (p_lead P)(i := True), p_base := (p_base P)(p_term P i := Some (i, p_log P i)),
      p_llog := (p_llog P)(p_term P i := p_log P i)\<rparr>"
  shows "proto_inv M P'"
proof -
  have g: "grows P P'" using none by (auto simp: P' grows_def)
  have "cand_ok M P i (p_term P i) (p_log P i)" by (rule proto_invD(4) [OF inv c])
  then have "leader_ok M P' (p_term P i) i (p_log P i)"
    using i c Q grows_wf_plog [OF g] by (auto simp: leader_ok_def cand_ok_def P')
  moreover have "member_ok P' j" if j: "j \<in> M" for j
  proof (cases "j = i")
    case True
    have ok: "member_ok P i" by (rule proto_invD(2) [OF inv i])
    then have "committed P' (p_term P i) (p_commit P i) (p_log P i)"
      by (intro grows_committed [OF inv g]) (auto simp: member_ok_def)
    then show ?thesis using ok grows_wf_plog [OF g] True by (simp add: member_ok_def P')
  next
    case False
    have ok: "member_ok P j" by (rule proto_invD(2) [OF inv j])
    show ?thesis
      by (rule grows_member_ok [OF inv g ok]) (use False none ok in \<open>auto simp: P' member_ok_def\<close>)
  qed
  ultimately show ?thesis
    by (intro proto_inv_grows [OF inv g]) (use P' in \<open>auto split: if_splits\<close>)
qed

lemma inv_extend:
  assumes inv: "proto_inv M P" and i: "i \<in> M" "p_lead P i" and es: "\<And>e. e \<in> set es \<Longrightarrow> entry_term e = p_term P i"
    and P': "P' = P\<lparr>p_log := (p_log P)(i := p_log P i @ es),
      p_llog := (p_llog P)(p_term P i := p_llog P (p_term P i) @ es)\<rparr>"
  shows "proto_inv M P'"
proof -
  let ?T = "p_term P i"
  have ok: "member_ok P i" by (rule proto_invD(2) [OF inv i(1)])
  obtain b where b: "p_base P ?T = Some (i, b)" and lg: "p_log P i = p_llog P ?T"
    using ok i(2) by (auto simp: member_ok_def)
  have g: "grows P P'" using es by (auto simp: P' grows_def)
  have ok': "member_ok P' i"
  proof -
    have "leader_ok M P' ?T i b" using proto_invD(3) [OF inv b] by (rule grows_leader_ok [OF g _ b])
    then have "wf_plog P' (p_llog P' ?T)" by (rule llog_facts(1)) (simp add: P' b)
    moreover have "committed P' ?T (p_commit P i) (p_log P i @ es)"
    proof -
      have c: "committed P' ?T (p_commit P i) (p_log P i)"
        using ok by (intro grows_committed [OF inv g]) (auto simp: member_ok_def)
      have "p_commit P i \<le> length (p_log P i)"
        using committed_llog(2) [OF inv, of ?T "p_commit P i" "p_log P i"] ok b lg by (simp add: member_ok_def)
      then show ?thesis using c by (simp add: committed_def holds_def)
    qed
    ultimately show ?thesis using ok es lg b by (auto simp: member_ok_def P')
  qed
  have node: "member_ok P' j" if j: "j \<in> M" for j
  proof (cases "j = i")
    case False
    have okj: "member_ok P j" by (rule proto_invD(2) [OF inv j])
    then show ?thesis using False b by (intro grows_member_ok [OF inv g okj]) (auto simp: P' member_ok_def)
  qed (simp add: ok')
  have ack: "ack_ok M P' i t k" if "(i, t, k) \<in> p_acks P" for t k
  proof -
    have A: "ack_ok M P i t k" by (rule proto_invD(7) [OF inv that])
    have kept: "holds P t m (p_log P i @ es)" if "holds P t m (p_log P i)" "m \<le> k" for m
    proof -
      have "m \<le> length (p_llog P t)" using that(2) A by (simp add: ack_ok_def)
      then have "m \<le> length (p_log P i)" using that(1) take_eq_length unfolding holds_def by blast
      then show ?thesis using that(1) by (simp add: holds_def)
    qed
    have t: "p_base P t \<noteq> None" "k \<le> length (p_llog P t)" using A by (simp_all add: ack_ok_def)
    have "holds P' t m (p_log P' i) \<or> overruled P' t m (p_term P' i + 1)" if m: "m \<le> k" for m
    proof -
      have m': "m \<le> length (p_llog P t)" using m t(2) by simp
      have "holds P t m (p_log P i) \<or> overruled P t m (p_term P i + 1)" using A m by (simp add: ack_ok_def)
      then show ?thesis
      proof
        assume "holds P t m (p_log P i)"
        then have "holds P' t m (p_log P i @ es)" using kept m grows_holds [OF g t(1) m'] by blast
        then show ?thesis by (simp add: P')
      next
        assume "overruled P t m (p_term P i + 1)"
        then have "overruled P' t m (p_term P i + 1)" by (rule grows_overruled [OF g t(1) m']) simp
        then show ?thesis by (simp add: P')
      qed
    qed
    moreover have "t \<le> p_term P' i" using A growsD(1) [OF g, of i] by (simp add: ack_ok_def)
    ultimately show ?thesis
      using A growsD(6) [OF g] grows_llog(1) [OF g t(1)] t by (simp add: ack_ok_def)
  qed
  show ?thesis
  proof (rule proto_inv_grows [OF inv g node])
    show "ack_ok M P' j t k" if "(j, t, k) \<in> p_acks P'" "(j, t, k) \<notin> p_acks P \<or> p_log P' j \<noteq> p_log P j" for j t k
      using that ack by (auto simp: P' split: if_splits)
  qed (simp_all add: P')
qed

lemma inv_replace:
  assumes inv: "proto_inv M P" and j: "j \<in> M" "\<not> p_lead P j" and T: "T = p_term P j" "p_base P T \<noteq> None"
    and differs: "take m (p_log P j) \<noteq> take m (p_llog P T)"
    and P': "P' = P\<lparr>p_log := (p_log P)(j := take m (p_llog P T))\<rparr>"
  shows "proto_inv M P'"
proof -
  have g: "grows P P'" by (auto simp: P' grows_def)
  have same: "take k (p_llog P T) = take k (take m (p_llog P T))" if "take k (p_log P j) = take k (p_llog P T)" for k
  proof -
    have "k \<le> m" using differs take_eq_shorter [OF that, of m] by linarith
    then show ?thesis by (simp add: min_absorb1)
  qed
  have ok: "member_ok P j" by (rule proto_invD(2) [OF inv j(1)])
  have node: "member_ok P' i" if i: "i \<in> M" for i
  proof (cases "i = j")
    case True
    have c: "committed P T (p_commit P j) (p_log P j)" using ok T(1) by (simp add: member_ok_def)
    have "committed P T (p_commit P j) (take m (p_llog P T))"
      using c committed_llog(1) [OF inv c T(2)] same [of "p_commit P j"] by (auto simp: committed_def holds_def)
    then have "committed P' T (p_commit P j) (take m (p_llog P T))" by (rule grows_committed [OF inv g]) simp
    moreover have "wf_plog P' (take m (p_llog P T))"
      by (intro grows_wf_plog [OF g] wf_plog_take wf_plog_llog [OF inv T(2)])
    moreover have "entry_term e \<le> p_term P j" if "e \<in> set (take m (p_llog P T))" for e
      using llog_terms [OF inv T(2)] in_set_takeD [OF that] T(1) by blast
    ultimately show ?thesis using ok j(2) T(1) True by (simp add: member_ok_def P')
  next
    case False
    show ?thesis using False by (intro grows_member_ok [OF inv g proto_invD(2) [OF inv i]]) (simp_all add: P')
  qed
  obtain c b where b: "p_base P T = Some (c, b)" using T(2) by auto
  have ack: "ack_ok M P' j t k" if "(j, t, k) \<in> p_acks P" for t k
  proof -
    have A: "ack_ok M P j t k" by (rule proto_invD(7) [OF inv that])
    have "holds P t n (take m (p_llog P T)) \<or> overruled P t n (T + 1)" if n: "n \<le> k" for n
    proof (cases "overruled P t n (T + 1)")
      case False
      then have h: "holds P t n (p_log P j)" using A n T(1) by (auto simp: ack_ok_def)
      have "take n (p_llog P T) = take n (p_llog P t)"
      proof (cases "t = T")
        case False
        then have "t < T" using A T(1) by (simp add: ack_ok_def)
        then have hb: "holds P t n b" using \<open>\<not> overruled P t n (T + 1)\<close> b by (auto simp: overruled_def)
        have "n \<le> length (p_llog P t)" using A n by (simp add: ack_ok_def)
        then have "n \<le> length b" using hb take_eq_length unfolding holds_def by blast
        then have "take n (p_llog P T) = take n b"
          using llog_facts(3) [OF proto_invD(3) [OF inv b] b] by (metis min.absorb1 take_take)
        then show ?thesis using hb by (simp add: holds_def)
      qed simp
      then show ?thesis using h same [of n] by (simp add: holds_def)
    qed simp
    then show ?thesis using A T(1) by (simp add: ack_ok_def P' holds_def overruled_def)
  qed
  show ?thesis
  proof (rule proto_inv_grows [OF inv g node])
    show "ack_ok M P' i t k" if "(i, t, k) \<in> p_acks P'" "(i, t, k) \<notin> p_acks P \<or> p_log P' i \<noteq> p_log P i" for i t k
      using that ack by (auto simp: P' split: if_splits)
  qed (simp_all add: P')
qed

lemma inv_ack:
  assumes inv: "proto_inv M P" and j: "j \<in> M" and T: "T = p_term P j" "p_base P T \<noteq> None"
    and k: "k \<le> length (p_llog P T)" "take k (p_log P j) = take k (p_llog P T)"
    and P': "P' = P\<lparr>p_acks := insert (j, T, k) (p_acks P)\<rparr>"
  shows "proto_inv M P'"
proof -
  have g: "grows P P'" by (auto simp: P' grows_def)
  have "ack_ok M P' j T k"
    using j T k take_eq_shorter [OF k(2)] by (simp add: ack_ok_def P' holds_def)
  moreover have "voted_ok P' T k u lg" if "(j, u, c, lg) \<in> p_votes P" for u c lg
    using proto_invD(6) [OF inv that] T by (simp add: vote_ok_def voted_ok_def)
  moreover have "member_ok P' i" if i: "i \<in> M" for i
    by (rule grows_member_ok [OF inv g proto_invD(2) [OF inv i]]) (simp_all add: P')
  ultimately show ?thesis by (intro proto_inv_grows [OF inv g]) (auto simp: P')
qed

lemma inv_decide:
  assumes inv: "proto_inv M P" and i: "i \<in> M" "p_lead P i"
    and k: "0 < k" "k \<le> length (p_log P i)" "entry_term (p_log P i ! (k - 1)) = p_term P i"
    and Q: "majority M Q" "\<And>v. v \<in> Q \<Longrightarrow> \<exists>m \<ge> k. (v, p_term P i, m) \<in> p_acks P"
    and P': "P' = P\<lparr>p_com := insert (k, p_term P i) (p_com P)\<rparr>"
  shows "proto_inv M P'"
proof -
  have g: "grows P P'" by (auto simp: P' grows_def)
  have ok: "member_ok P i" by (rule proto_invD(2) [OF inv i(1)])
  have "commit_ok M P' k (p_term P i)"
    using k Q i(2) ok by (auto simp: commit_ok_def member_ok_def P')
  moreover have "member_ok P' j" if j: "j \<in> M" for j
    by (rule grows_member_ok [OF inv g proto_invD(2) [OF inv j]]) (simp_all add: P')
  ultimately show ?thesis by (intro proto_inv_grows [OF inv g]) (auto simp: P')
qed

lemma inv_learn:
  assumes inv: "proto_inv M P" and i: "i \<in> M" and c: "committed P (p_term P i) c (p_log P i)"
    and P': "P' = P\<lparr>p_commit := (p_commit P)(i := c)\<rparr>"
  shows "proto_inv M P'"
proof -
  have g: "grows P P'" by (auto simp: P' grows_def)
  have "member_ok P' j" if j: "j \<in> M" for j
  proof (cases "j = i")
    case True
    have "committed P' (p_term P i) c (p_log P i)" by (rule grows_committed [OF inv g c]) simp
    then show ?thesis
      using proto_invD(2) [OF inv i] grows_wf_plog [OF g] True by (simp add: member_ok_def P')
  next
    case False
    then show ?thesis by (intro grows_member_ok [OF inv g proto_invD(2) [OF inv j]]) (simp_all add: P')
  qed
  then show ?thesis by (intro proto_inv_grows [OF inv g]) (auto simp: P')
qed

theorem proto_step_inv:
  assumes "proto_inv M P" "proto_step M i P P'"
  shows "proto_inv M P'"
  using assms(2)
proof cases
  case (step_down T)
  then show ?thesis using inv_step_down [OF assms(1)] by simp
next
  case (stand T)
  then show ?thesis using inv_stand [OF assms(1)] by simp
next
  case (vote c clg)
  then show ?thesis using inv_vote [OF assms(1)] by simp
next
  case (win Q)
  then show ?thesis using inv_win [OF assms(1)] by simp
next
  case (extend es)
  then show ?thesis using inv_extend [OF assms(1)] by simp
next
  case (replace T m)
  then show ?thesis using inv_replace [OF assms(1)] by simp
next
  case (ack T k)
  then show ?thesis using inv_ack [OF assms(1)] by simp
next
  case (decide k Q)
  then show ?thesis using inv_decide [OF assms(1)] by simp
next
  case (learn c)
  then show ?thesis using inv_learn [OF assms(1)] by simp
qed

lemma proto_steps_inv: "(proto_step M i)\<^sup>*\<^sup>* P P' \<Longrightarrow> proto_inv M P \<Longrightarrow> proto_inv M P' \<and> grows P P'"
  by (induction rule: rtranclp_induct) (auto intro: proto_step_inv grows_trans proto_step_grows)

text \<open>A member's steps leave the other members alone, and make nobody else a leader.\<close>

lemma proto_step_other:
  assumes "proto_step M i P P'"
  shows "j \<noteq> i \<Longrightarrow> p_term P' j = p_term P j \<and> p_log P' j = p_log P j \<and> p_commit P' j = p_commit P j \<and>
      (p_lead P' j \<longleftrightarrow> p_lead P j)"
    "p_base P' t \<noteq> p_base P t \<Longrightarrow> \<exists>b. p_base P' t = Some (i, b)"
  using assms by (cases, auto split: if_splits)+

lemma proto_steps_other:
  "(proto_step M i)\<^sup>*\<^sup>* P P' \<Longrightarrow>
   (\<forall>j. j \<noteq> i \<longrightarrow> p_term P' j = p_term P j \<and> p_log P' j = p_log P j \<and> p_commit P' j = p_commit P j \<and>
      (p_lead P' j \<longleftrightarrow> p_lead P j)) \<and>
   (\<forall>t. p_base P' t = p_base P t \<or> (\<exists>b. p_base P' t = Some (i, b)))"
proof (induction rule: rtranclp_induct)
  case (step Q R)
  then show ?case using proto_step_other [OF step.hyps(2)] by metis
qed simp

text \<open>Before anything has happened.\<close>

definition proto_start :: proto where
  "proto_start = \<lparr>p_term = (\<lambda>i. 0), p_log = (\<lambda>i. []), p_commit = (\<lambda>i. 0), p_lead = (\<lambda>i. False),
     p_base = (\<lambda>t. None), p_llog = (\<lambda>t. []), p_cands = {}, p_votes = {}, p_acks = {}, p_com = {}\<rparr>"

lemma proto_inv_start: "finite M \<Longrightarrow> proto_inv M proto_start"
  by (simp add: proto_inv_def proto_start_def member_ok_def committed_def)

end
