(* ===== verification/RaftSystem.thy ===== *)
theory RaftSystem
  imports NodeLife Cluster RaftProtocol
begin

text \<open>
  The group of nodes with the messages of replication: the steps of the theory Cluster, where a
  leader's requests are those a leader has built and the progress it records is what a follower has
  answered. The log a node stands for is the one that was compacted away followed by the one it
  retains. Its operations on the retained part are described here on the whole.
\<close>

section \<open>The system\<close>

text \<open>
  \<open>sent\<close> holds every request a worker has built, with the follower it is for, \<open>answers\<close> every
  response, with the follower, the request, and the response's term and success.
\<close>

record system =
  group :: cluster
  sent :: "(string \<times> worker_request) set"
  answers :: "(string \<times> worker_request \<times> int \<times> bool) set"

fun request_leader :: "worker_request \<Rightarrow> string" where
  "request_leader (SnapshotRequest q) = is_leader_id q"
| "request_leader (AppendRequest q) = ae_leader_id q"

definition ok_requests :: "(string \<times> request_vote_request) list result \<Rightarrow> (string \<times> request_vote_request) set" where
  "ok_requests r = (case r of Inl e \<Rightarrow> {} | Inr reqs \<Rightarrow> set reqs)"

text \<open>
  A request may be delivered any number of times, at any later time or never, and so may its
  response. A node may stop and be started again from its files between any two steps. The messages
  of a leadership transfer have any content.
\<close>

inductive system_step :: "string list \<Rightarrow> system \<Rightarrow> system \<Rightarrow> bool" for members where
  tick: "i \<in> set members \<Longrightarrow> tick_begin c (nodes (group S) i) = (n, r) \<Longrightarrow>
    system_step members S (S\<lparr>group := put_node i n ((group S)\<lparr>vote_requests :=
      vote_requests (group S) \<union> ok_requests r\<rparr>)\<rparr>)"
| vote: "j \<in> set members \<Longrightarrow> (j, q) \<in> vote_requests (group S) \<Longrightarrow>
    node_request_vote c q (nodes (group S) j) = (n, Ok a) \<Longrightarrow>
    system_step members S (S\<lparr>group := put_node j n ((group S)\<lparr>vote_replies :=
      insert (j, q, a) (vote_replies (group S))\<rparr>)\<rparr>)"
| tally: "i \<in> set members \<Longrightarrow> (j, q, a) \<in> vote_replies (group S) \<Longrightarrow> rv_candidate_id q = i \<Longrightarrow>
    tick_response j q (Ok a) (nodes (group S) i) = (n, r) \<Longrightarrow>
    system_step members S (S\<lparr>group := put_node i n (group S)\<rparr>)"
| tally_failure: "i \<in> set members \<Longrightarrow> tick_response j q (Err e) (nodes (group S) i) = (n, r) \<Longrightarrow>
    system_step members S (S\<lparr>group := put_node i n (group S)\<rparr>)"
| start_replication: "i \<in> set members \<Longrightarrow> initialize_leader_replication (nodes (group S) i) = (n, r) \<Longrightarrow>
    system_step members S (S\<lparr>group := put_node i n (group S)\<rparr>)"
| send: "i \<in> set members \<Longrightarrow> worker_build f (nodes (group S) i) = Ok (Some req) \<Longrightarrow>
    system_step members S (S\<lparr>sent := insert (f, req) (sent S)\<rparr>)"
| append: "j \<in> set members \<Longrightarrow> (j, AppendRequest q) \<in> sent S \<Longrightarrow>
    node_append_entries c q (nodes (group S) j) = (n, r) \<Longrightarrow>
    system_step members S (S\<lparr>group := put_node j n (group S),
      answers := answers S \<union> {(j, AppendRequest q, aer_term a, aer_success a) | a. r = Ok a}\<rparr>)"
| install: "j \<in> set members \<Longrightarrow> (j, SnapshotRequest q) \<in> sent S \<Longrightarrow>
    node_install_snapshot c q (nodes (group S) j) = (n, r) \<Longrightarrow>
    system_step members S (S\<lparr>group := put_node j n (group S),
      answers := answers S \<union> {(j, SnapshotRequest q, isr_term a, isr_success a) | a. r = Ok a}\<rparr>)"
| progress: "i \<in> set members \<Longrightarrow> (f, req, t, success) \<in> answers S \<Longrightarrow> request_leader req = i \<Longrightarrow>
    worker_response f req t success (nodes (group S) i) = (n, r) \<Longrightarrow>
    system_step members S (S\<lparr>group := put_node i n (group S)\<rparr>)"
| commit: "i \<in> set members \<Longrightarrow> replicate_log_finish (nodes (group S) i) = (n, r) \<Longrightarrow>
    system_step members S (S\<lparr>group := put_node i n (group S)\<rparr>)"
| submit: "i \<in> set members \<Longrightarrow> submit_begin cs (nodes (group S) i) = (n, r) \<Longrightarrow>
    system_step members S (S\<lparr>group := put_node i n (group S)\<rparr>)"
| snapshot: "i \<in> set members \<Longrightarrow> create_snapshot (nodes (group S) i) = (n, r) \<Longrightarrow>
    system_step members S (S\<lparr>group := put_node i n (group S)\<rparr>)"
| timeout: "i \<in> set members \<Longrightarrow> node_timeout_now tn (nodes (group S) i) = (n, r) \<Longrightarrow>
    system_step members S (S\<lparr>group := put_node i n (group S)\<rparr>)"
| transfer: "i \<in> set members \<Longrightarrow> transfer_finish t response (nodes (group S) i) = (n, r) \<Longrightarrow>
    system_step members S (S\<lparr>group := put_node i n (group S)\<rparr>)"
| read: "i \<in> set members \<Longrightarrow> read_confirmed t now b (nodes (group S) i) = (n, r) \<Longrightarrow>
    system_step members S (S\<lparr>group := put_node i n (group S)\<rparr>)"
| transfer_flag: "i \<in> set members \<Longrightarrow> n = (nodes (group S) i)\<lparr>transfer_in_progress := b\<rparr> \<Longrightarrow>
    system_step members S (S\<lparr>group := put_node i n (group S)\<rparr>)"
| observer: "i \<in> set members \<Longrightarrow> n = set_observer obs (nodes (group S) i) \<Longrightarrow>
    system_step members S (S\<lparr>group := put_node i n (group S)\<rparr>)"
| restart: "i \<in> set members \<Longrightarrow> n_disk (nodes (group S) i) = Some d \<Longrightarrow>
    node_init c i members (Some d) = (dsk, Ok n) \<Longrightarrow>
    system_step members S (S\<lparr>group := put_node i n (group S)\<rparr>)"

text \<open>Every node starts without a data directory or with an empty one.\<close>

definition system_init :: "string list \<Rightarrow> system \<Rightarrow> bool" where
  "system_init members S =
     (distinct members \<and> vote_requests (group S) = {} \<and> vote_replies (group S) = {} \<and>
      leaders (group S) = {} \<and> history (group S) = {} \<and> sent S = {} \<and> answers S = {} \<and>
      (\<forall>i \<in> set members. \<exists>c dsk dsk'. (dsk = None \<or> dsk = Some empty_disk) \<and>
         node_init c i members dsk = (dsk', Ok (nodes (group S) i))))"

definition system_reachable :: "string list \<Rightarrow> system \<Rightarrow> bool" where
  "system_reachable members S = (\<exists>S0. system_init members S0 \<and> (system_step members)\<^sup>*\<^sup>* S0 S)"

section \<open>The steps are the cluster's\<close>

lemma system_step_cluster:
  assumes "system_step members S S'"
  shows "group S' = group S \<or> cluster_step members (group S) (group S')"
  using assms
proof cases
  case (tick i c n r)
  then show ?thesis
    using cluster_step.tick_start [of i members c "group S" n] cluster_step.tick_error [of i members c "group S" n]
    by (cases r) (simp_all add: ok_requests_def)
next
  case (vote j q c n a)
  then show ?thesis using cluster_step.vote [OF vote(2,3,4)] by simp
next
  case (tally i j q a n r)
  then show ?thesis using cluster_step.tally [OF tally(2,3,4,5)] by simp
next
  case (tally_failure i j q e n r)
  then show ?thesis using cluster_step.tally_failure [OF tally_failure(2,3)] by simp
next
  case (start_replication i n r)
  then show ?thesis using cluster_step.start_replication [OF start_replication(2,3)] by simp
next
  case (append j q c n r)
  then show ?thesis using cluster_step.append [OF append(2,4)] by simp
next
  case (install j q c n r)
  then show ?thesis using cluster_step.install [OF install(2,4)] by simp
next
  case (progress i f req t success n r)
  then show ?thesis using cluster_step.progress [OF progress(2,5)] by simp
next
  case (commit i n r)
  then show ?thesis using cluster_step.commit [OF commit(2,3)] by simp
next
  case (submit i cs n r)
  then show ?thesis using cluster_step.submit [OF submit(2,3)] by simp
next
  case (snapshot i n r)
  then show ?thesis using cluster_step.snapshot [OF snapshot(2,3)] by simp
next
  case (timeout i tn n r)
  then show ?thesis using cluster_step.timeout [OF timeout(2,3)] by simp
next
  case (transfer i t response n r)
  then show ?thesis using cluster_step.transfer [OF transfer(2,3)] by simp
next
  case (read i t now b n r)
  then show ?thesis using cluster_step.read [OF read(2,3)] by simp
next
  case (transfer_flag i n b)
  then show ?thesis using cluster_step.transfer_flag [OF transfer_flag(2) refl] by simp
next
  case (observer i n obs)
  then show ?thesis using cluster_step.observer [OF observer(2) refl] by simp
next
  case (restart i d c dsk n)
  then show ?thesis using cluster_step.crash [OF restart(2,3) refl restart(4)] by simp
qed simp

lemma start_state:
  assumes "distinct members" "dsk = None \<or> dsk = Some empty_disk" "node_init c i members dsk = (dsk', Ok n)"
  shows "current_term (n_state n) = 0" "voted_for (n_state n) = None" "role (n_state n) = FOLLOWER"
    "n_replication n = None" "snapshot_state (n_snapshot n) = []" "n_id n = i" "n_members n = members"
    "n_log n = empty_log" "commit_index (n_state n) = 0"
proof -
  have mem: "i \<in> set members" using assms(3) by (auto simp: node_init_def split: if_splits)
  have "n = recovered c members (raft_state_default i) empty_snapshot empty_log [] dsk"
    using assms(2)
  proof
    assume dsk: "dsk = Some empty_disk"
    then show ?thesis using node_init_empty [OF mem, of c] assms(3) by auto
  next
    assume "dsk = None"
    moreover have "members \<noteq> []" using mem by auto
    ultimately show ?thesis using assms(3) mem
      by (auto simp: node_init_def raft_state_default_def empty_log_def empty_snapshot_def last_index_def
          tracker_init_def recovered_def kv_restore_def kv_empty_def Let_def)
  qed
  then show "current_term (n_state n) = 0" "voted_for (n_state n) = None" "role (n_state n) = FOLLOWER"
    "n_replication n = None" "snapshot_state (n_snapshot n) = []" "n_id n = i" "n_members n = members"
    "n_log n = empty_log" "commit_index (n_state n) = 0"
    by (simp_all add: recovered_def raft_state_default_def empty_snapshot_def)
qed

lemma system_init_cluster:
  assumes "system_init members S"
  shows "cluster_init members (group S)"
proof -
  have I: "\<exists>c dsk dsk'. (dsk = None \<or> dsk = Some empty_disk) \<and> node_init c i members dsk = (dsk', Ok (nodes (group S) i))"
      if "i \<in> set members" for i
    using assms that unfolding system_init_def by blast
  have D: "distinct members" using assms by (simp add: system_init_def)
  have "votes_of i (nodes (group S) i) = {}" if i: "i \<in> set members" for i
  proof -
    obtain c dsk dsk' where "dsk = None \<or> dsk = Some empty_disk"
        "node_init c i members dsk = (dsk', Ok (nodes (group S) i))"
      using I [OF i] by blast
    from start_state(2) [OF D this] show ?thesis by (simp add: votes_of_def)
  qed
  moreover have "\<exists>c dsk dsk'. node_init c i members dsk = (dsk', Ok (nodes (group S) i))" if "i \<in> set members" for i
    using I [OF that] by blast
  ultimately show ?thesis using assms by (simp add: cluster_init_def system_init_def)
qed

section \<open>The log a node stands for\<close>

definition log_abs :: "log_entry list \<Rightarrow> raft_log \<Rightarrow> bool" where
  "log_abs lg l = (wf_log l \<and> contiguous 0 lg \<and> base_index l \<le> int (length lg) \<and>
     drop (nat (base_index l)) lg = entries l \<and> base_term l = final_term (take (nat (base_index l)) lg))"

lemma final_term_take: "k \<le> length lg \<Longrightarrow> final_term (take k lg) = (if k = 0 then 0 else entry_term (lg ! (k - 1)))"
  by (cases k) (auto simp: final_term_def take_Suc_conv_app_nth)

lemma log_absD:
  assumes "log_abs lg l"
  shows "wf_log l" "contiguous 0 lg" "0 \<le> base_index l" "base_index l \<le> int (length lg)"
    "drop (nat (base_index l)) lg = entries l" "base_term l = final_term (take (nat (base_index l)) lg)"
    "length (entries l) = length lg - nat (base_index l)"
proof -
  show D: "wf_log l" "contiguous 0 lg" "base_index l \<le> int (length lg)"
    "drop (nat (base_index l)) lg = entries l" "base_term l = final_term (take (nat (base_index l)) lg)"
    using assms by (simp_all add: log_abs_def)
  show "0 \<le> base_index l" using D(1) by (simp add: wf_log_def)
  show "length (entries l) = length lg - nat (base_index l)" unfolding D(4) [symmetric] by simp
qed

lemma log_abs_last: "log_abs lg l \<Longrightarrow> last_index l = int (length lg)"
  using log_absD [of lg l] by (simp add: wf_last_index)

lemma log_abs_get:
  assumes "log_abs lg l"
  shows "log_get i l = (if base_index l < i \<and> i \<le> int (length lg) then Some (lg ! (nat i - 1)) else None)"
proof (cases "base_index l < i \<and> i \<le> int (length lg)")
  case True
  note A = log_absD [OF assms]
  have "nat (base_index l) + nat (i - base_index l - 1) = nat i - 1" using True A(3) by linarith
  moreover have "nat (i - base_index l - 1) < length (entries l)" using True A(3,7) by linarith
  ultimately have "entries l ! nat (i - base_index l - 1) = lg ! (nat i - 1)"
    unfolding A(5) [symmetric] by (simp add: nth_drop)
  then show ?thesis
    using log_get_in_range(2) [OF A(1), of i] True by (simp add: log_abs_last [OF assms])
next
  case False
  then show ?thesis
    using log_get_None_iff [OF log_absD(1) [OF assms], of i] log_abs_last [OF assms] by auto
qed

lemma log_abs_term:
  assumes "log_abs lg l"
  shows "term_at i l = (if base_index l \<le> i \<and> i \<le> int (length lg) then Some (final_term (take (nat i) lg)) else None)"
  using log_absD [OF assms] final_term_take [of "nat i" lg]
  by (auto simp: term_at_def log_abs_get [OF assms] nat_le_iff)

lemma log_abs_last_term: "log_abs lg l \<Longrightarrow> last_term l = final_term lg"
  using term_at_last [OF log_absD(1)] log_abs_term [of lg l "last_index l"] log_abs_last [of lg l]
    log_absD(4) [of lg l] by (metis log_absD(1) nat_int option.inject take_all order_refl)

lemma log_abs_slice:
  assumes "log_abs lg l" "base_index l \<le> a" "a \<le> b"
  shows "slice a b l = take (nat (b - a)) (drop (nat a) lg)"
proof -
  note A = log_absD [OF assms(1)]
  have "nat a = nat (a - base_index l) + nat (base_index l)" using assms(2) A(3) by linarith
  then show ?thesis unfolding slice_def A(5) [symmetric] by (simp add: add.commute)
qed

lemma take_slice: "take (nat a) lg @ take (nat (b - a)) (drop (nat a) lg) = take (nat b) lg"
  if "0 \<le> a" "a \<le> b"
proof -
  have "nat b = nat a + nat (b - a)" using that by linarith
  then show ?thesis by (simp add: take_add)
qed

lemma contiguous_nth: "contiguous 0 lg \<Longrightarrow> k < length lg \<Longrightarrow> entry_index (lg ! k) = int k + 1"
  by (simp add: contiguous_def)

text \<open>Logs with the same boundary that stand for the same whole log are equal.\<close>

lemma log_abs_eqI:
  assumes "log_abs lg a" "log_abs lg b" "base_index a = base_index b"
  shows "a = b"
  using log_absD(5,6) [OF assms(1)] log_absD(5,6) [OF assms(2)] assms(3) by (cases a; cases b) simp

end
