(* ===== verification/SystemRefinement.thy ===== *)
theory SystemRefinement
  imports RaftSystem
begin

text \<open>
  The system refines the protocol of the theory RaftProtocol: a forward simulation, in which each
  step of a node is a run of protocol steps of the same member.
\<close>

section \<open>Forward simulation\<close>

locale forward_simulation =
  fixes init :: "'s \<Rightarrow> bool" and step :: "'s \<Rightarrow> 's \<Rightarrow> bool"
    and start :: "'a \<Rightarrow> bool" and astep :: "'a \<Rightarrow> 'a \<Rightarrow> bool" and related :: "'s \<Rightarrow> 'a \<Rightarrow> bool"
  assumes simulate_init: "init s \<Longrightarrow> \<exists>a. start a \<and> related s a"
    and simulate_step: "related s a \<Longrightarrow> step s s' \<Longrightarrow> \<exists>a'. astep\<^sup>*\<^sup>* a a' \<and> related s' a'"
begin

lemma simulate_run: "step\<^sup>*\<^sup>* s s' \<Longrightarrow> related s a \<Longrightarrow> \<exists>a'. astep\<^sup>*\<^sup>* a a' \<and> related s' a'"
proof (induction rule: rtranclp_induct)
  case (step t u)
  then obtain b where b: "astep\<^sup>*\<^sup>* a b" "related t b" by blast
  obtain b' where "astep\<^sup>*\<^sup>* b b'" "related u b'" using simulate_step [OF b(2) step.hyps(2)] by blast
  then show ?case using b(1) by (meson rtranclp_trans)
qed blast

lemma simulate_reachable: "init s \<Longrightarrow> step\<^sup>*\<^sup>* s s' \<Longrightarrow> \<exists>a0 a. start a0 \<and> astep\<^sup>*\<^sup>* a0 a \<and> related s' a"
  using simulate_init simulate_run by blast

end

section \<open>The relation\<close>

text \<open>
  What the messages say of the protocol's state. A leader's request carries a piece of its log that
  reaches at least to its commit index; a snapshot is the effect of a committed prefix.
\<close>

definition append_ok :: "proto \<Rightarrow> append_entries_request \<Rightarrow> bool" where
  "append_ok P q = (let L = p_llog P (ae_term q); prev = ae_prev_log_index q;
       m = nat prev + length (ae_entries q) in
     p_base P (ae_term q) \<noteq> None \<and> 0 \<le> prev \<and> m \<le> length L \<and>
     ae_entries q = drop (nat prev) (take m L) \<and> ae_prev_log_term q = final_term (take (nat prev) L) \<and>
     (\<forall>e \<in> set (ae_entries q). valid_command (entry_command e) \<and> 0 \<le> entry_term e) \<and>
     nat (ae_leader_commit q) \<le> m \<and> committed P (ae_term q) (nat (ae_leader_commit q)) L)"

definition install_ok :: "proto \<Rightarrow> install_snapshot_request \<Rightarrow> bool" where
  "install_ok P q = (let L = p_llog P (is_term q); k = nat (is_last_included_index q) in
     p_base P (is_term q) \<noteq> None \<and> 0 \<le> is_last_included_index q \<and> k \<le> length L \<and>
     is_last_included_term q = final_term (take k L) \<and> 0 \<le> is_last_included_term q \<and>
     is_state q = run_commands (take k L) [] \<and> committed P (is_term q) k L)"

fun request_ok :: "proto \<Rightarrow> worker_request \<Rightarrow> bool" where
  "request_ok P (AppendRequest q) = append_ok P q"
| "request_ok P (SnapshotRequest q) = install_ok P q"

text \<open>How far a follower that answers with success has the leader's log.\<close>

fun request_reach :: "worker_request \<Rightarrow> nat" where
  "request_reach (AppendRequest q) = nat (ae_prev_log_index q) + length (ae_entries q)"
| "request_reach (SnapshotRequest q) = nat (is_last_included_index q)"

definition vote_request_ok :: "proto \<Rightarrow> request_vote_request \<Rightarrow> bool" where
  "vote_request_ok P q = (\<exists>lg. (rv_candidate_id q, rv_term q, lg) \<in> p_cands P \<and>
     rv_last_log_index q = int (length lg) \<and> rv_last_log_term q = final_term lg)"

definition vote_recorded :: "proto \<Rightarrow> string \<Rightarrow> int \<Rightarrow> string \<Rightarrow> bool" where
  "vote_recorded P v t c = (p_base P t = None \<longrightarrow> (\<exists>lg. (v, t, c, lg) \<in> p_votes P))"

text \<open>
  A node and its part of the protocol's state. The progress a leader keeps may be left over from an
  earlier term it led (a leader that stands again keeps the object), and is then within its log.
\<close>

definition match_ok :: "proto \<Rightarrow> string \<Rightarrow> string \<Rightarrow> int \<Rightarrow> bool" where
  "match_ok P i f m = (nat m \<le> length (p_log P i) \<and>
     (p_lead P i \<longrightarrow> (\<forall>b. p_base P (p_term P i) = Some (i, b) \<longrightarrow>
        nat m \<le> length b \<or> (\<exists>k \<ge> nat m. (f, p_term P i, k) \<in> p_acks P))))"

definition node_rel :: "string list \<Rightarrow> proto \<Rightarrow> string \<Rightarrow> raft_node \<Rightarrow> bool" where
  "node_rel members P i n =
     (node_ok n \<and> n_id n = i \<and> n_members n = members \<and> p_term P i = current_term (n_state n) \<and>
      (p_lead P i \<longleftrightarrow> role (n_state n) = LEADER) \<and> log_abs (p_log P i) (n_log n) \<and>
      p_commit P i = nat (commit_index (n_state n)) \<and>
      snapshot_state (n_snapshot n) = run_commands (take (nat (base_index (n_log n))) (p_log P i)) [] \<and>
      (role (n_state n) = CANDIDATE \<longrightarrow> (i, p_term P i, p_log P i) \<in> p_cands P \<and>
         (\<forall>b. p_base P (p_term P i) \<noteq> Some (i, b)) \<and>
         (active (n_election n) \<longrightarrow> (\<forall>v \<in> set (votes_received (n_election n)). vote_recorded P v (p_term P i) i))) \<and>
      (\<forall>r f m. n_replication n = Some r \<longrightarrow> map_of (match_index r) f = Some m \<longrightarrow> match_ok P i f m))"

definition system_rel :: "string list \<Rightarrow> system \<Rightarrow> proto \<Rightarrow> bool" where
  "system_rel members S P =
     (reachable members (group S) \<and> proto_inv (set members) P \<and>
      (\<forall>i \<in> set members. node_rel members P i (nodes (group S) i)) \<and>
      (\<forall>(p, q) \<in> vote_requests (group S). vote_request_ok P q) \<and>
      (\<forall>(j, q, a) \<in> vote_replies (group S). rvr_vote_granted a \<longrightarrow> vote_recorded P j (rv_term q) (rv_candidate_id q)) \<and>
      (\<forall>(f, req) \<in> sent S. request_ok P req) \<and>
      (\<forall>(j, req, t, b) \<in> answers S. request_ok P req \<and> (b \<longrightarrow> (j, request_term req, request_reach req) \<in> p_acks P)) \<and>
      (\<forall>t. p_base P t \<noteq> None \<longrightarrow> contiguous 0 (p_llog P t)) \<and>
      (\<forall>t c b. p_base P t = Some (c, b) \<longrightarrow> (t, c) \<in> leaders (group S)))"

section \<open>What is said stays true\<close>

lemma committed_cong: "take c a = take c b \<Longrightarrow> committed P T c a \<longleftrightarrow> committed P T c b"
  by (simp add: committed_def holds_def)

lemma grows_append_ok:
  assumes inv: "proto_inv M P" and g: "grows P P'" and ok: "append_ok P q"
  shows "append_ok P' q"
proof -
  let ?T = "ae_term q" and ?m = "nat (ae_prev_log_index q) + length (ae_entries q)"
  have b: "p_base P ?T \<noteq> None" "?m \<le> length (p_llog P ?T)" using ok by (simp_all add: append_ok_def Let_def)
  have same: "take k (p_llog P' ?T) = take k (p_llog P ?T)" if "k \<le> ?m" for k
    using grows_llog(2) [OF g b(1)] that b(2) by simp
  have "nat (ae_leader_commit q) \<le> ?m" "committed P ?T (nat (ae_leader_commit q)) (p_llog P ?T)"
    using ok by (simp_all add: append_ok_def Let_def)
  then have "committed P' ?T (nat (ae_leader_commit q)) (p_llog P' ?T)"
    using grows_committed [OF inv g] committed_cong [OF same] by blast
  then show ?thesis
    using ok same growsD(6) [OF g b(1)] grows_llog(1) [OF g b(1)] by (simp add: append_ok_def Let_def)
qed

lemma grows_install_ok:
  assumes inv: "proto_inv M P" and g: "grows P P'" and ok: "install_ok P q"
  shows "install_ok P' q"
proof -
  let ?T = "is_term q" and ?k = "nat (is_last_included_index q)"
  have b: "p_base P ?T \<noteq> None" "?k \<le> length (p_llog P ?T)" using ok by (simp_all add: install_ok_def Let_def)
  have same: "take ?k (p_llog P' ?T) = take ?k (p_llog P ?T)" by (rule grows_llog(2) [OF g b])
  have "committed P ?T ?k (p_llog P ?T)" using ok by (simp add: install_ok_def Let_def)
  then have "committed P' ?T ?k (p_llog P' ?T)"
    using grows_committed [OF inv g] committed_cong [OF same] by blast
  then show ?thesis
    using ok same growsD(6) [OF g b(1)] grows_llog(1) [OF g b(1)] by (simp add: install_ok_def Let_def)
qed

lemma grows_request_ok: "proto_inv M P \<Longrightarrow> grows P P' \<Longrightarrow> request_ok P req \<Longrightarrow> request_ok P' req"
  by (cases req) (auto intro: grows_append_ok grows_install_ok)

lemma grows_vote_request_ok: "grows P P' \<Longrightarrow> vote_request_ok P q \<Longrightarrow> vote_request_ok P' q"
  using growsD(2) unfolding vote_request_ok_def by blast

lemma grows_vote_recorded: "grows P P' \<Longrightarrow> vote_recorded P v t c \<Longrightarrow> vote_recorded P' v t c"
  using growsD(3,6) unfolding vote_recorded_def by metis

lemma grows_match_ok:
  assumes "grows P P'" "match_ok P i f m" "p_term P' i = p_term P i" "length (p_log P i) \<le> length (p_log P' i)"
    "p_lead P' i \<Longrightarrow> p_lead P i \<and> p_base P (p_term P i) \<noteq> None"
  shows "match_ok P' i f m"
proof -
  have "p_base P' (p_term P i) = p_base P (p_term P i)" if "p_lead P' i"
    using assms(5) [OF that] growsD(6) [OF assms(1)] by simp
  then show ?thesis using assms(2-5) growsD(4) [OF assms(1)] unfolding match_ok_def by fastforce
qed

lemma node_rel_other:
  assumes rel: "node_rel members P j n" and inv: "proto_inv M P" "j \<in> M"
    and steps: "(proto_step M i)\<^sup>*\<^sup>* P P'" and "j \<noteq> i"
  shows "node_rel members P' j n"
proof -
  have g: "grows P P'" using proto_steps_inv [OF steps inv(1)] by simp
  note O = proto_steps_other [OF steps]
  have same: "p_term P' j = p_term P j" "p_log P' j = p_log P j" "p_commit P' j = p_commit P j"
      "p_lead P' j \<longleftrightarrow> p_lead P j"
    using O \<open>j \<noteq> i\<close> by blast+
  have base: "p_base P' t \<noteq> Some (j, b)" if "p_base P t \<noteq> Some (j, b)" for t b
    using O that \<open>j \<noteq> i\<close> by (metis option.inject prod.inject)
  have "member_ok P j" by (rule proto_invD(2) [OF inv])
  then have lead: "p_base P (p_term P j) \<noteq> None" if "p_lead P j" using that by (auto simp: member_ok_def)
  have "match_ok P' j f m" if "match_ok P j f m" for f m
    by (rule grows_match_ok [OF g that]) (use same lead in simp_all)
  then show ?thesis
    using rel same base growsD(2) [OF g] grows_vote_recorded [OF g] by (auto simp: node_rel_def)
qed

section \<open>Operations that leave the log alone\<close>

text \<open>Log and snapshot stay, and every recorded progress is an old one or zero.\<close>

definition repl_kept :: "raft_node \<Rightarrow> raft_node \<Rightarrow> bool" where
  "repl_kept n n' = (n_log n' = n_log n \<and> n_snapshot n' = n_snapshot n \<and>
     (\<forall>r f m. n_replication n' = Some r \<longrightarrow> map_of (match_index r) f = Some m \<longrightarrow>
        m = 0 \<or> (\<exists>r0. n_replication n = Some r0 \<and> map_of (match_index r0) f = Some m)))"

lemma repl_kept_same:
  "n_log n' = n_log n \<Longrightarrow> n_snapshot n' = n_snapshot n \<Longrightarrow>
   n_replication n' = n_replication n \<or> n_replication n' = None \<Longrightarrow> repl_kept n n'"
  by (auto simp: repl_kept_def)

lemma repl_kept_trans: "repl_kept a b \<Longrightarrow> repl_kept b c \<Longrightarrow> repl_kept a c"
  unfolding repl_kept_def by (metis (no_types))

lemma repl_kept_initialize:
  assumes "initialize_leader_replication n = (n', r)"
  shows "repl_kept n n'"
proof -
  have zero: "m = 0" if "leader_replication_init s l ms = Inr x" "map_of (match_index x) f = Some m" for s l ms x f m
    using that by (auto simp: leader_replication_init_def Let_def map_of_map_keys split: if_splits dest!: map_of_SomeD)
  show ?thesis
    using assms zero
    by (auto simp: initialize_leader_replication_def repl_kept_def split: if_splits option.splits sum.splits)
qed

lemma repl_kept_tick:
  assumes "tick_begin c n = (n', r)"
  shows "repl_kept n n'"
proof -
  obtain t tm s q where e: "start_election_if_needed c (last_index (n_log n)) (last_term (n_log n)) (n_election n)
             (n_timer n) (n_state n) = ((t, tm, s), q)"
    by (metis prod.exhaust)
  define k where "k = (if current_term s \<noteq> current_term (n_state n) \<and> voted_for s = Some (n_id n)
      then observe ElectionAttempt (n\<lparr>n_election := t, n_timer := tm, n_state := s\<rparr>)
      else n\<lparr>n_election := t, n_timer := tm, n_state := s\<rparr>)"
  define m where "m = (if current_term s \<noteq> current_term (n_state n) \<or> voted_for s \<noteq> voted_for (n_state n)
      then persist_state k else k)"
  obtain x y where i: "initialize_leader_replication m = (x, y)" by fastforce
  have km: "repl_kept n m" by (rule repl_kept_same) (simp_all add: m_def k_def)
  have kx: "repl_kept n x" by (rule repl_kept_trans [OF km repl_kept_initialize [OF i]])
  have "repl_kept n (observe LeadershipChange x)" using kx by (simp add: repl_kept_def)
  moreover have "repl_kept n (n\<lparr>n_election := t, n_timer := tm, n_state := s\<rparr>)" by (rule repl_kept_same) simp_all
  moreover have "n' \<in> {n\<lparr>n_election := t, n_timer := tm, n_state := s\<rparr>, m, x, observe LeadershipChange x}"
  proof -
    have "tick_begin c n = (case q of Inl er \<Rightarrow> (n\<lparr>n_election := t, n_timer := tm, n_state := s\<rparr>, Err er)
        | Inr reqs \<Rightarrow> if role s = LEADER then
            (case initialize_leader_replication m of (n, Inl e) \<Rightarrow> (n, Err e)
              | (n1, Inr _) \<Rightarrow> (if role (n_state n) \<noteq> LEADER then observe LeadershipChange n1 else n1, Ok []))
            else (m, Ok reqs))"
      unfolding tick_begin_def e prod.case Let_def m_def k_def by (cases q) simp_all
    then show ?thesis using assms unfolding i by (auto split: sum.splits if_splits)
  qed
  ultimately show ?thesis using km kx by auto
qed

lemma repl_kept_tally:
  assumes "tick_response peer q out n = (n', r)"
  shows "repl_kept n n'"
proof (cases "\<exists>a. out = Ok a \<and> role (n_state n) = CANDIDATE \<and> current_term (n_state n) = rv_term q")
  case False
  then have "n' = n"
    using assms by (cases out) (auto simp: tick_response_def Let_def split: if_splits)
  then show ?thesis by (simp add: repl_kept_same)
next
  case True
  then obtain a where a: "out = Ok a" "role (n_state n) = CANDIDATE" "current_term (n_state n) = rv_term q" by blast
  obtain t s v where v: "record_vote peer a (n_election n) (n_state n) = ((t, s), v)" by (metis prod.exhaust)
  define k where "k = n\<lparr>n_election := t, n_state := s\<rparr>"
  define m where "m = (if current_term s \<noteq> current_term (n_state n) \<or> voted_for s \<noteq> voted_for (n_state n)
      then persist_state k else k)"
  obtain x y where i: "initialize_leader_replication m = (x, y)" by fastforce
  have kk: "repl_kept n k" and km: "repl_kept n m" by (rule repl_kept_same; simp add: m_def k_def)+
  have kx: "repl_kept n x" by (rule repl_kept_trans [OF km repl_kept_initialize [OF i]])
  have "repl_kept n (observe LeadershipChange x)" using kx by (simp add: repl_kept_def)
  moreover have "repl_kept n (m\<lparr>n_replication := None\<rparr>)" using km by (simp add: repl_kept_def)
  moreover have "n' \<in> {k, m, x, observe LeadershipChange x, m\<lparr>n_replication := None\<rparr>}"
  proof -
    have "tick_response peer q out n = (case v of Inl e \<Rightarrow> (k, Err e)
      | Inr _ \<Rightarrow> if role s = LEADER then
          (case initialize_leader_replication m of (x, Inl e) \<Rightarrow> (x, Err e)
            | (x, Inr _) \<Rightarrow> (observe LeadershipChange x, Ok (Some LEADER)))
        else if role s = FOLLOWER then (m\<lparr>n_replication := None\<rparr>, Ok (Some FOLLOWER)) else (m, Ok None))"
      unfolding tick_response_def a(1) sum.case v prod.case Let_def m_def k_def using a(2,3)
      by (simp split: sum.splits)
    then show ?thesis using assms unfolding i by (auto split: sum.splits if_splits)
  qed
  ultimately show ?thesis using kk km kx by auto
qed

lemma repl_kept_vote:
  assumes "node_request_vote c q n = (n', r)"
  shows "repl_kept n n'"
proof -
  obtain s a where "node_request_vote c q n = (drop_replication (let m = persist_state (n\<lparr>n_state := s\<rparr>)
         in if rvr_vote_granted a then m\<lparr>n_timer := timer_reset c (n_timer m)\<rparr> else m), Ok a)"
    by (rule node_request_vote_eq)
  then show ?thesis using assms by (intro repl_kept_same) (auto simp: Let_def)
qed

lemma repl_kept_step_down: "step_down t n = (n', r) \<Longrightarrow> repl_kept n n'"
  by (rule repl_kept_same) (auto simp: step_down_def split: sum.splits)

lemma repl_kept_transfer: "transfer_finish t a n = (n', r) \<Longrightarrow> repl_kept n n'"
  using repl_kept_same [of n n] repl_kept_step_down [of "tnr_term a" n]
  by (auto simp: transfer_finish_def split: if_splits sum.splits prod.splits intro: repl_kept_same)

lemma repl_kept_timeout: "node_timeout_now q n = (n', r) \<Longrightarrow> repl_kept n n'"
  by (rule repl_kept_same)
     (auto simp: node_timeout_now_def persist_new_term_def Let_def split: if_splits sum.splits)

lemma repl_kept_finish: "replicate_log_finish n = (n', r) \<Longrightarrow> repl_kept n n'"
  by (rule repl_kept_same)
     (auto simp: replicate_log_finish_def Let_def split: if_splits sum.splits option.splits prod.splits)

lemma node_relD:
  assumes "node_rel members P i n"
  shows "node_ok n" "n_id n = i" "n_members n = members" "p_term P i = current_term (n_state n)"
    "p_lead P i \<longleftrightarrow> role (n_state n) = LEADER" "log_abs (p_log P i) (n_log n)"
    "p_commit P i = nat (commit_index (n_state n))"
    "snapshot_state (n_snapshot n) = run_commands (take (nat (base_index (n_log n))) (p_log P i)) []"
    "role (n_state n) = CANDIDATE \<Longrightarrow> (i, p_term P i, p_log P i) \<in> p_cands P"
    "role (n_state n) = CANDIDATE \<Longrightarrow> p_base P (p_term P i) \<noteq> Some (i, b)"
    "role (n_state n) = CANDIDATE \<Longrightarrow> active (n_election n) \<Longrightarrow> v \<in> set (votes_received (n_election n)) \<Longrightarrow>
       vote_recorded P v (p_term P i) i"
    "n_replication n = Some r \<Longrightarrow> map_of (match_index r) f = Some m \<Longrightarrow> match_ok P i f m"
  using assms unfolding node_rel_def by blast+

lemma node_rel_state:
  assumes rel: "node_rel members P i n" and g: "grows P P'" and inv: "proto_inv M P" "i \<in> M"
    and log: "p_log P' i = p_log P i"
    and n': "node_ok n'" "repl_kept n n'" "n_id n' = n_id n" "n_members n' = n_members n"
    and st: "p_term P' i = current_term (n_state n')" "p_lead P' i \<longleftrightarrow> role (n_state n') = LEADER"
      "p_commit P' i = nat (commit_index (n_state n'))"
    and cand: "role (n_state n') = CANDIDATE \<Longrightarrow> (i, p_term P' i, p_log P i) \<in> p_cands P'"
      "\<And>b. role (n_state n') = CANDIDATE \<Longrightarrow> p_base P' (p_term P' i) \<noteq> Some (i, b)"
      "\<And>v. role (n_state n') = CANDIDATE \<Longrightarrow> active (n_election n') \<Longrightarrow> v \<in> set (votes_received (n_election n')) \<Longrightarrow>
         vote_recorded P' v (p_term P' i) i"
    and lead: "p_lead P' i \<Longrightarrow> p_lead P i \<and> p_term P' i = p_term P i \<or> p_base P' (p_term P' i) = Some (i, p_log P i)"
  shows "node_rel members P' i n'"
proof -
  note R = node_relD [OF rel]
  have lg: "n_log n' = n_log n" "n_snapshot n' = n_snapshot n" using n'(2) by (simp_all add: repl_kept_def)
  have "member_ok P i" by (rule proto_invD(2) [OF inv])
  then have based: "p_base P (p_term P i) \<noteq> None" if "p_lead P i" using that by (auto simp: member_ok_def)
  have match: "match_ok P' i f m" if r: "n_replication n' = Some r" "map_of (match_index r) f = Some m" for r f m
  proof -
    have "m = 0 \<or> match_ok P i f m" using n'(2) r R(12) unfolding repl_kept_def by blast
    then show ?thesis
    proof
      assume m: "match_ok P i f m"
      show ?thesis
      proof (cases "p_lead P' i \<and> \<not> (p_lead P i \<and> p_term P' i = p_term P i)")
        case True
        then have "p_base P' (p_term P' i) = Some (i, p_log P i)" using lead by blast
        then show ?thesis using m log by (auto simp: match_ok_def)
      next
        case False
        show ?thesis
        proof (cases "p_lead P' i")
          case True
          then show ?thesis using False based log by (intro grows_match_ok [OF g m]) simp_all
        next
          case False
          then show ?thesis using m log by (simp add: match_ok_def)
        qed
      qed
    qed (simp add: match_ok_def)
  qed
  show ?thesis
    unfolding node_rel_def log lg
    using R(2,3,6,8) n' st cand match by blast
qed

text \<open>The node's state changes no further than its term, role, tally and timers: the same protocol state.\<close>

lemma node_rel_quiet:
  assumes rel: "node_rel members P i n" and inv: "proto_inv M P" "i \<in> M"
    and n': "node_ok n'" "repl_kept n n'" "n_id n' = n_id n" "n_members n' = n_members n"
    and st: "n_state n' = n_state n" "n_election n' = n_election n"
  shows "node_rel members P i n'"
  by (rule node_rel_state [OF rel grows_refl inv]) (use assms node_relD [OF rel] in simp_all)

text \<open>A later term, or the same one, as a follower.\<close>

lemma node_rel_step_down:
  assumes rel: "node_rel members P i n" and inv: "proto_inv M P" "i \<in> M"
    and n': "node_ok n'" "repl_kept n n'" "n_id n' = n_id n" "n_members n' = n_members n"
    and st: "role (n_state n') = FOLLOWER" "current_term (n_state n) \<le> current_term (n_state n')"
      "commit_index (n_state n') = commit_index (n_state n)"
    and P': "P' = P\<lparr>p_term := (p_term P)(i := current_term (n_state n')), p_lead := (p_lead P)(i := False)\<rparr>"
  shows "proto_step M i P P'" "node_rel members P' i n'"
proof -
  note R = node_relD [OF rel]
  show step: "proto_step M i P P'"
    unfolding P' using inv(2) R(4) st(2) by (intro proto_step.step_down) simp_all
  show "node_rel members P' i n'"
    by (rule node_rel_state [OF rel proto_step_grows [OF inv(1) step] inv]) (use n' st R(7) P' in simp_all)
qed

section \<open>One node moves\<close>

text \<open>
  A run of one member's protocol steps that fits what its node has become. Only a leader adds to the
  log of a term.
\<close>

definition local_run :: "string list \<Rightarrow> string \<Rightarrow> proto \<Rightarrow> proto \<Rightarrow> raft_node \<Rightarrow> bool" where
  "local_run members i P P' n =
     ((proto_step (set members) i)\<^sup>*\<^sup>* P P' \<and> node_rel members P' i n \<and>
      (\<forall>t. p_base P' t = p_base P t \<and> p_llog P' t = p_llog P t \<or> t = p_term P' i \<and> p_lead P' i))"

lemma local_run_refl: "node_rel members P i n \<Longrightarrow> local_run members i P P n"
  by (simp add: local_run_def)

lemma local_run_step:
  "proto_step (set members) i P P' \<Longrightarrow> node_rel members P' i n \<Longrightarrow> p_base P' = p_base P \<Longrightarrow> p_llog P' = p_llog P \<Longrightarrow>
   local_run members i P P' n"
  by (simp add: local_run_def r_into_rtranclp)

lemma system_relD:
  assumes "system_rel members S P"
  shows "reachable members (group S)" "proto_inv (set members) P"
    "i \<in> set members \<Longrightarrow> node_rel members P i (nodes (group S) i)"
    "(p, q) \<in> vote_requests (group S) \<Longrightarrow> vote_request_ok P q"
    "(j, q, a) \<in> vote_replies (group S) \<Longrightarrow> rvr_vote_granted a \<Longrightarrow> vote_recorded P j (rv_term q) (rv_candidate_id q)"
    "(f, req) \<in> sent S \<Longrightarrow> request_ok P req"
    "(j, req, t, b) \<in> answers S \<Longrightarrow> request_ok P req"
    "(j, req, t, b) \<in> answers S \<Longrightarrow> b \<Longrightarrow> (j, request_term req, request_reach req) \<in> p_acks P"
    "p_base P u \<noteq> None \<Longrightarrow> contiguous 0 (p_llog P u)"
    "p_base P u = Some (d, lg) \<Longrightarrow> (u, d) \<in> leaders (group S)"
  using assms unfolding system_rel_def by (elim conjE; fast)+

lemma system_rel_put:
  assumes rel: "system_rel members S P" and i: "i \<in> set members" and run: "local_run members i P P' n"
    and step: "system_step members S S'" and C': "group S' = put_node i n C" "nodes C = nodes (group S)"
      "leaders C = leaders (group S)"
    and reqs: "\<And>p q. (p, q) \<in> vote_requests C \<Longrightarrow> (p, q) \<in> vote_requests (group S) \<or> vote_request_ok P' q"
    and votes: "\<And>j q a. (j, q, a) \<in> vote_replies C \<Longrightarrow> rvr_vote_granted a \<Longrightarrow>
       (j, q, a) \<in> vote_replies (group S) \<or> vote_recorded P' j (rv_term q) (rv_candidate_id q)"
    and snt: "sent S' = sent S"
    and ans: "\<And>j req t b. (j, req, t, b) \<in> answers S' \<Longrightarrow> (j, req, t, b) \<in> answers S \<or>
       request_ok P' req \<and> (b \<longrightarrow> (j, request_term req, request_reach req) \<in> p_acks P')"
  shows "system_rel members S' P'"
proof -
  note R = system_relD [OF rel]
  have steps: "(proto_step (set members) i)\<^sup>*\<^sup>* P P'" and node: "node_rel members P' i n"
      and led: "\<And>t. p_base P' t = p_base P t \<and> p_llog P' t = p_llog P t \<or> t = p_term P' i \<and> p_lead P' i"
    using run by (simp_all add: local_run_def)
  have inv': "proto_inv (set members) P'" and g: "grows P P'" using proto_steps_inv [OF steps R(2)] by simp_all
  have own: "p_base P' t \<noteq> None \<and> (\<exists>b. p_base P' t = Some (i, b)) \<and> p_llog P' t = p_log P' i \<and> (t, i) \<in> leads i n"
    if "t = p_term P' i" "p_lead P' i" for t
  proof -
    have "member_ok P' i" by (rule proto_invD(2) [OF inv' i])
    then show ?thesis using that node_relD(4,5) [OF node] by (auto simp: member_ok_def leads_def)
  qed
  have "reachable members (group S')"
    using system_step_cluster [OF step] R(1) reachable.step by auto
  moreover have "node_rel members P' j (nodes (group S') j)" if j: "j \<in> set members" for j
    using node node_rel_other [OF R(3) [OF j] R(2) j steps] by (simp add: C' put_node_def)
  moreover have "vote_request_ok P' q" if "(p, q) \<in> vote_requests (group S')" for p q
    using that reqs R(4) grows_vote_request_ok [OF g] unfolding C'(1) put_node_def by fastforce
  moreover have "vote_recorded P' j (rv_term q) (rv_candidate_id q)"
    if "(j, q, a) \<in> vote_replies (group S')" "rvr_vote_granted a" for j q a
    using that votes R(5) grows_vote_recorded [OF g] unfolding C'(1) put_node_def by fastforce
  moreover have "request_ok P' req" if "(f, req) \<in> sent S'" for f req
    using that R(6) grows_request_ok [OF R(2) g] unfolding snt by blast
  moreover have "request_ok P' req \<and> (b \<longrightarrow> (j, request_term req, request_reach req) \<in> p_acks P')"
    if "(j, req, t, b) \<in> answers S'" for j req t b
    using ans [OF that] R(7,8) grows_request_ok [OF R(2) g] growsD(4) [OF g] by blast
  moreover have "contiguous 0 (p_llog P' t)" if "p_base P' t \<noteq> None" for t
    using led [of t] own [of t] R(9) that log_absD(2) [OF node_relD(6) [OF node]] by metis
  moreover have "(t, c) \<in> leaders (group S')" if "p_base P' t = Some (c, b)" for t c b
  proof (cases "p_base P' t = p_base P t")
    case True
    then have "(t, c) \<in> leaders (group S)" using R(10) [of t c b] that by simp
    then show ?thesis by (simp add: C' put_node_def)
  next
    case False
    then show ?thesis using led [of t] own [of t] that by (auto simp: C' put_node_def)
  qed
  ultimately show ?thesis using inv' unfolding system_rel_def by fast
qed

text \<open>The usual case: the node alone changes.\<close>

lemma system_rel_node:
  assumes "system_rel members S P" "i \<in> set members" "local_run members i P P' n"
    "system_step members S (S\<lparr>group := put_node i n (group S)\<rparr>)"
  shows "system_rel members (S\<lparr>group := put_node i n (group S)\<rparr>) P'"
  by (rule system_rel_put [OF assms, where C = "group S"]) simp_all

end
