(* ===== verification/SystemSteps.thy ===== *)
theory SystemSteps
  imports SystemRefinement
begin

text \<open>Each step of a node, replication aside, as a run of protocol steps.\<close>

section \<open>Elections\<close>

lemma vote_step_recorded:
  assumes inv: "proto_inv M P" and i: "i \<in> M" and c: "(c, p_term P i, clg) \<in> p_cands P" "up_to_date clg (p_log P i)"
  obtains P' where "(proto_step M i)\<^sup>*\<^sup>* P P'" "P' = P\<lparr>p_votes := p_votes P'\<rparr>" "p_votes P \<subseteq> p_votes P'"
    "vote_recorded P' i (p_term P i) c"
proof (cases "p_base P (p_term P i) = None")
  case True
  let ?P = "P\<lparr>p_votes := insert (i, p_term P i, c, p_log P i) (p_votes P)\<rparr>"
  have "proto_step M i P ?P" by (rule proto_step.vote [OF i True c])
  then show thesis by (intro that [of ?P]) (auto simp: vote_recorded_def)
next
  case False
  then show thesis by (intro that [of P]) (auto simp: vote_recorded_def)
qed

lemma up_to_date_self: "up_to_date lg lg"
  by (simp add: up_to_date_def)

text \<open>The first section of \<open>tick\<close>.\<close>

lemma tick_requests:
  assumes "tick_begin c n = (n', Ok reqs)" "(p, q) \<in> set reqs"
  shows "rv_last_log_index q = last_index (n_log n)" "rv_last_log_term q = last_term (n_log n)"
    "role (n_state n') \<noteq> LEADER"
proof -
  have "rv_last_log_index q = last_index (n_log n) \<and> rv_last_log_term q = last_term (n_log n) \<and> role (n_state n') \<noteq> LEADER"
    using assms
    by (auto simp: tick_begin_def start_election_if_needed_def Let_def split: if_splits prod.splits sum.splits)
  then show "rv_last_log_index q = last_index (n_log n)" "rv_last_log_term q = last_term (n_log n)"
    "role (n_state n') \<noteq> LEADER" by simp_all
qed

lemma tick_run:
  assumes rel: "node_rel members P i n" and inv: "proto_inv (set members) P" and i: "i \<in> set members" "distinct members"
    and step: "tick_begin c n = (n', r)"
  obtains P' where "local_run members i P P' n'" "\<And>p q. (p, q) \<in> ok_requests r \<Longrightarrow> vote_request_ok P' q"
proof -
  note R = node_relD [OF rel]
  have ok: "node_ok n'" using tick_begin_ok [OF step R(1)] by simp
  have kept: "repl_kept n n'" by (rule repl_kept_tick [OF step])
  from step show thesis
  proof (cases rule: tick_begin_effect)
    case idle
    have "node_rel members P i n'"
      using idle(1,2) by (intro node_rel_quiet [OF rel inv i(1) ok kept]) (simp_all add: vote_neutral_def)
    moreover have "ok_requests r = {}" using idle(3) by (auto simp: ok_requests_def split: sum.splits)
    ultimately show thesis by (intro that [of P]) (simp_all add: local_run_refl)
  next
    case (started t s b)
    let ?T = "p_term P i + 1"
    define P1 where "P1 = P\<lparr>p_term := (p_term P)(i := ?T), p_lead := (p_lead P)(i := False),
      p_cands := insert (i, ?T, p_log P i) (p_cands P)\<rparr>"
    have s1: "proto_step (set members) i P P1" unfolding P1_def by (rule proto_step.stand [OF i(1) refl])
    have inv1: "proto_inv (set members) P1" by (rule proto_step_inv [OF inv s1])
    have P1: "p_term P1 i = ?T" "p_log P1 i = p_log P i" "(i, ?T, p_log P i) \<in> p_cands P1"
      by (simp_all add: P1_def)
    obtain P2 where s2: "(proto_step (set members) i)\<^sup>*\<^sup>* P1 P2" and P2: "P2 = P1\<lparr>p_votes := p_votes P2\<rparr>"
        and v2: "vote_recorded P2 i ?T i"
      using vote_step_recorded [OF inv1 i(1), of i "p_log P i"] P1 up_to_date_self by metis
    have inv2: "proto_inv (set members) P2" and g2: "grows P1 P2" using proto_steps_inv [OF s2 inv1] by simp_all
    have s12: "(proto_step (set members) i)\<^sup>*\<^sup>* P P2" by (rule converse_rtranclp_into_rtranclp [OF s1 s2])
    have g: "grows P P2" using proto_steps_inv [OF s12 inv] by simp
    have F2: "p_term P2 i = ?T" "p_log P2 i = p_log P i" "p_lead P2 i = False" "p_commit P2 i = p_commit P i"
        "p_base P2 = p_base P" "p_llog P2 = p_llog P" "(i, ?T, p_log P i) \<in> p_cands P2"
      by (subst P2, simp add: P1_def)+
    note T = tracker_start_state [OF started(1)]
    have tid: "node_id (n_state n) = i" "tracker_members (n_election n) = members"
      using R(1-3) by (simp_all add: node_ok_def node_wf_def)
    have now: "current_term s = ?T" using T(4) R(4) by simp
    have fresh: "p_base P ?T \<noteq> Some (i, b)" for b
    proof
      assume "p_base P ?T = Some (i, b)"
      from proto_invD(3) [OF inv this] show False by (simp add: leader_ok_def)
    qed
    show thesis
    proof (cases "1 < quorum_size (n_election n)")
      case True
      then have s: "s = become_candidate (n_state n)" "votes_received t = [i]"
        using started(1) tid by (auto simp: tracker_start_cases Let_def quorum_size_def)
      have "node_rel members P2 i n'"
        by (rule node_rel_state [OF rel g inv i(1) F2(2) ok kept started(2,3)])
           (use F2 R(7) started(4,5) s now fresh v2 in simp_all)
      moreover have "vote_request_ok P2 q" if "(p, q) \<in> ok_requests r" for p q
      proof -
        obtain reqs where reqs: "r = Ok reqs" "(p, q) \<in> set reqs"
          using \<open>(p, q) \<in> ok_requests r\<close> unfolding ok_requests_def by (cases r) auto
        then show ?thesis
          using tick_requests [of c n n' reqs p q] step started(7) [OF reqs] F2(7) now T(1) tid(1)
            log_abs_last [OF R(6)] log_abs_last_term [OF R(6)]
          by (auto simp: vote_request_ok_def)
      qed
      ultimately show thesis using s12 F2 by (intro that [of P2]) (simp_all add: local_run_def)
    next
      case False
      then have s: "s = (become_candidate (n_state n))\<lparr>role := LEADER, leader_id := Some i\<rparr>"
        using started(1) tid by (auto simp: tracker_start_cases Let_def quorum_size_def)
      have "length members \<le> 1" using False tid(2) by (simp add: quorum_size_def)
      then have single: "set members = {i}" using i(1) by (cases members) auto
      then have Q: "majority (set members) {i}" by (simp add: majority_def)
      have none: "p_base P ?T = None"
      proof (rule ccontr)
        assume "p_base P ?T \<noteq> None"
        then obtain d lg where d: "p_base P ?T = Some (d, lg)" by auto
        then have "d \<in> set members" using proto_invD(3) [OF inv d] by (simp add: leader_ok_def)
        then show False using d fresh single by simp
      qed
      define P3 where "P3 = P2\<lparr>p_lead := (p_lead P2)(i := True), p_base := (p_base P2)(p_term P2 i := Some (i, p_log P2 i)),
          p_llog := (p_llog P2)(p_term P2 i := p_log P2 i)\<rparr>"
      have "\<exists>lg. (v, p_term P2 i, i, lg) \<in> p_votes P2" if "v \<in> {i}" for v
        using that v2 none F2 by (simp add: vote_recorded_def)
      then have s3: "proto_step (set members) i P2 P3"
        unfolding P3_def using i(1) none F2 Q by (intro proto_step.win [where Q = "{i}"]) auto
      have s13: "(proto_step (set members) i)\<^sup>*\<^sup>* P P3" by (rule rtranclp.rtrancl_into_rtrancl [OF s12 s3])
      have F3: "p_term P3 i = ?T" "p_log P3 i = p_log P i" "p_lead P3 i" "p_commit P3 i = p_commit P i"
          "p_base P3 = (p_base P)(?T := Some (i, p_log P i))" "p_llog P3 = (p_llog P)(?T := p_log P i)"
        by (simp_all add: P3_def F2)
      have g3: "grows P P3" using proto_steps_inv [OF s13 inv] by simp
      have "node_rel members P3 i n'"
        by (rule node_rel_state [OF rel g3 inv i(1) F3(2) ok kept started(2,3)])
           (use F3 R(7) started(4,5) s now in simp_all)
      moreover have "ok_requests r = {}"
      proof (cases r)
        case (Inr reqs)
        then show ?thesis
          using tick_requests(3) [of c n n' reqs] step started(4) s by (cases reqs) (fastforce simp: ok_requests_def)+
      qed (simp add: ok_requests_def)
      ultimately show thesis using s13 F3 by (intro that [of P3]) (simp_all add: local_run_def)
    qed
  qed
qed

text \<open>A vote.\<close>

lemma up_to_date_iff:
  "is_candidate_log_up_to_date (int (length clg)) (final_term clg) (int (length lg)) (final_term lg) \<longleftrightarrow> up_to_date clg lg"
  by (auto simp: is_candidate_log_up_to_date_def up_to_date_def)

lemma vote_run:
  assumes rel: "node_rel members P i n" and inv: "proto_inv (set members) P" and i: "i \<in> set members"
    and q: "vote_request_ok P q" and step: "node_request_vote c q n = (n', Ok a)"
  obtains P' where "local_run members i P P' n'"
    "rvr_vote_granted a \<Longrightarrow> vote_recorded P' i (rv_term q) (rv_candidate_id q)"
proof -
  note R = node_relD [OF rel]
  have ok: "node_ok n'" using handlers_ok(1) [OF R(1), of c q] step by simp
  have kept: "repl_kept n n'" by (rule repl_kept_vote [OF step])
  obtain s x where h: "handle_request_vote q (last_index (n_log n)) (last_term (n_log n)) (n_state n) = Ok (s, x)"
      and x: "Ok a = Ok x" and n': "n_id n' = n_id n" "n_members n' = n_members n" "n_state n' = s"
      "n_election n' = n_election n"
    by (rule node_request_vote_effect [OF step])
  have a: "x = a" using x by simp
  note F = handle_request_vote_frame [OF h]
  define P1 where "P1 = (if current_term (n_state n) < rv_term q
      then P\<lparr>p_term := (p_term P)(i := rv_term q), p_lead := (p_lead P)(i := False)\<rparr> else P)"
  have s1: "(proto_step (set members) i)\<^sup>*\<^sup>* P P1"
    using proto_step.step_down [OF i, of P "rv_term q"] R(4) by (auto simp: P1_def)
  have inv1: "proto_inv (set members) P1" using proto_steps_inv [OF s1 inv] by simp
  have F1: "p_term P1 i = current_term s" "p_log P1 i = p_log P i" "p_commit P1 i = p_commit P i"
      "p_base P1 = p_base P" "p_llog P1 = p_llog P" "p_cands P1 = p_cands P"
    using F(5) R(4) by (auto simp: P1_def)
  have lead1: "p_lead P1 i \<longleftrightarrow> role s = LEADER"
    using F(7) R(5) by (simp add: P1_def)
  obtain clg where clg: "(rv_candidate_id q, rv_term q, clg) \<in> p_cands P" "rv_last_log_index q = int (length clg)"
      "rv_last_log_term q = final_term clg"
    using q by (auto simp: vote_request_ok_def)
  obtain P2 where s2: "(proto_step (set members) i)\<^sup>*\<^sup>* P1 P2" and P2: "P2 = P1\<lparr>p_votes := p_votes P2\<rparr>"
      and v2: "rvr_vote_granted a \<Longrightarrow> vote_recorded P2 i (rv_term q) (rv_candidate_id q)"
  proof (cases "rvr_vote_granted a")
    case True
    note G = handle_request_vote_granted [OF h, unfolded a, OF True]
    have "up_to_date clg (p_log P1 i)"
      using G(3) clg log_abs_last [OF R(6)] log_abs_last_term [OF R(6)] up_to_date_iff F1(2) by simp
    then show thesis
      using vote_step_recorded [OF inv1 i, of "rv_candidate_id q" clg] clg(1) F1 G(2) that by metis
  next
    case False
    then show thesis using that [of P1] by simp
  qed
  have s12: "(proto_step (set members) i)\<^sup>*\<^sup>* P P2" using s1 s2 by simp
  have g: "grows P P2" using proto_steps_inv [OF s12 inv] by simp
  have F2: "p_term P2 i = current_term s" "p_log P2 i = p_log P i" "p_commit P2 i = p_commit P i"
      "p_base P2 = p_base P" "p_llog P2 = p_llog P" "p_cands P2 = p_cands P" "p_lead P2 i \<longleftrightarrow> role s = LEADER"
    by (subst P2, simp add: F1 lead1)+
  have same: "role s = role (n_state n) \<and> current_term s = current_term (n_state n)" if "role s \<noteq> FOLLOWER"
    using F(5,7) that by (auto split: if_splits)
  have cand: "role (n_state n) = CANDIDATE \<and> p_term P2 i = p_term P i" if "role s = CANDIDATE"
    using same that F2(1) R(4) by simp
  have "node_rel members P2 i n'"
  proof (rule node_rel_state [OF rel g inv i F2(2) ok kept n'(1,2)])
    show "vote_recorded P2 v (p_term P2 i) i"
      if "role (n_state n') = CANDIDATE" "active (n_election n')" "v \<in> set (votes_received (n_election n'))" for v
      using R(11) cand that grows_vote_recorded [OF g] unfolding n'(3,4) by simp
  qed (use F2 F(2) R(4,5,7,9,10) n'(3) cand same in auto)
  then show thesis using s12 F2 v2 by (intro that [of P2]) (simp_all add: local_run_def)
qed

text \<open>What is no part of an election: nothing changes for the protocol, or a node steps down.\<close>

lemma neutral_run:
  assumes rel: "node_rel members P i n" and inv: "proto_inv (set members) P" and i: "i \<in> set members"
    and ok: "node_ok n'" and kept: "repl_kept n n'" and neutral: "vote_neutral n n'"
    and commit: "commit_index (n_state n') = commit_index (n_state n)"
  obtains P' where "local_run members i P P' n'"
proof -
  note R = node_relD [OF rel]
  have ids: "n_id n' = n_id n" "n_members n' = n_members n" "n_election n' = n_election n"
    using neutral by (simp_all add: vote_neutral_def)
  show thesis
  proof (cases "role (n_state n') = FOLLOWER")
    case True
    have "current_term (n_state n) \<le> current_term (n_state n')" using neutral by (auto simp: vote_neutral_def)
    note D = node_rel_step_down [OF rel inv i ok kept ids(1,2) True this commit refl]
    show thesis by (rule that, rule local_run_step [OF D]) simp_all
  next
    case False
    then have same: "role (n_state n') = role (n_state n)" "current_term (n_state n') = current_term (n_state n)"
      using neutral by (auto simp: vote_neutral_def)
    have "node_rel members P i n'"
      by (rule node_rel_state [OF rel grows_refl inv i refl ok kept ids(1,2)])
         (use same ids(3) R commit in simp_all)
    then show thesis using that local_run_refl by blast
  qed
qed

lemma tally_run:
  assumes rel: "node_rel members P i n" and inv: "proto_inv (set members) P" and i: "i \<in> set members"
    and q: "rv_candidate_id q = i" "rvr_vote_granted a \<Longrightarrow> vote_recorded P j (rv_term q) i"
    and step: "tick_response j q (Ok a) n = (n', r)"
    and unique: "\<And>c b. role (n_state n') = LEADER \<Longrightarrow> p_base P (current_term (n_state n')) = Some (c, b) \<Longrightarrow> c = i"
  obtains P' where "local_run members i P P' n'"
proof -
  note R = node_relD [OF rel]
  have ok: "node_ok n'" by (rule tick_response_ok [OF step R(1)])
  have kept: "repl_kept n n'" by (rule repl_kept_tally [OF step])
  have W: "wf_tracker (n_election n) (n_state n)" "tracker_members (n_election n) = members"
    using R(1-3) by (simp_all add: node_ok_def node_wf_def)
  from step show thesis
  proof (cases rule: tick_response_effect)
    case ignored
    then show thesis using that rel local_run_refl by blast
  next
    case (recorded a' t s x)
    have a': "a' = a" using recorded(1) by simp
    have cand: "role (n_state n) = CANDIDATE" and now: "rv_term q = p_term P i"
      using recorded(2,3) R(4) by simp_all
    have id: "node_id (n_state n) = i" using R(1,2) by (simp add: node_ok_def node_wf_def)
    from recorded(4) show thesis
    proof (cases rule: record_vote_cases)
      case ignored
      have "node_rel members P i n'"
        by (rule node_rel_state [OF rel grows_refl inv i refl ok kept recorded(5,6)])
           (use ignored R cand recorded(7,8) in simp_all)
      then show thesis using that local_run_refl by blast
    next
      case stale
      note B = become_follower_OkD [OF stale(3)]
      have "role (n_state n') = FOLLOWER" "current_term (n_state n) \<le> current_term (n_state n')"
          "commit_index (n_state n') = commit_index (n_state n)"
        using B recorded(7) by simp_all
      note D = node_rel_step_down [OF rel inv i ok kept recorded(5,6) this refl]
      show thesis by (rule that, rule local_run_step [OF D]) simp_all
    next
      case tallied
      have "vote_recorded P v (p_term P i) i" if "v \<in> set (votes_received t)" for v
        using that tallied(1,6,7) R(11) [OF cand] q(2) now a' by auto
      then have "node_rel members P i n'"
        by (intro node_rel_state [OF rel grows_refl inv i refl ok kept recorded(5,6)])
           (use tallied R cand recorded(7,8) in simp_all)
      then show thesis using that local_run_refl by blast
    next
      case elected
      let ?T = "p_term P i"
      have lead: "role (n_state n') = LEADER" "current_term (n_state n') = ?T"
          "commit_index (n_state n') = commit_index (n_state n)"
        using elected(8) recorded(7) R(4) by simp_all
      have none: "p_base P ?T = None"
      proof (rule ccontr)
        assume "p_base P ?T \<noteq> None"
        then obtain c b where "p_base P ?T = Some (c, b)" by auto
        then show False using unique [of c b] lead(1,2) R(10) [OF cand, of b] by simp
      qed
      have "role s = LEADER" "role (n_state n) \<noteq> LEADER" using elected(8) cand by simp_all
      note L = record_vote_leader [OF recorded(4) this W(1)]
      have "\<exists>lg. (v, ?T, i, lg) \<in> p_votes P" if "v \<in> set (votes_received t)" for v
      proof -
        have "vote_recorded P v ?T i"
          using that L(5) R(11) [OF cand elected(1)] q(2) now a' by (auto split: if_splits)
        then show ?thesis using none by (simp add: vote_recorded_def)
      qed
      note voters = this
      define P1 where "P1 = P\<lparr>p_lead := (p_lead P)(i := True),
          p_base := (p_base P)(?T := Some (i, p_log P i)), p_llog := (p_llog P)(?T := p_log P i)\<rparr>"
      have w: "proto_step (set members) i P P1"
        unfolding P1_def using L(1) W(2) none R(9) [OF cand] voters
        by (intro proto_step.win [OF i, where Q = "set (votes_received t)"]) auto
      have "node_rel members P1 i n'"
        by (rule node_rel_state [OF rel proto_step_grows [OF inv w] inv i _ ok kept recorded(5,6)])
           (use lead R(7) in \<open>simp_all add: P1_def\<close>)
      then show thesis using w by (intro that [of P1]) (simp_all add: local_run_def r_into_rtranclp P1_def)
    qed
  qed
qed

section \<open>Other steps without a message of replication\<close>

lemma node_store:
  assumes "node_rel members P i n"
  shows "n_store n = run_commands (take (nat (commit_index (n_state n))) (p_log P i)) []"
proof -
  note R = node_relD [OF assms]
  have wf: "node_wf n" using R(1) by (simp add: node_ok_def)
  note D = data_wfD [OF node_wf_data [OF wf]]
  have "0 \<le> base_index (n_log n)" by (rule log_absD(3) [OF R(6)])
  then show ?thesis
    using D(10) R(8) log_abs_slice [OF R(6) order_refl D(7)] take_slice [OF _ D(7), of "p_log P i"]
    by (metis run_commands_append)
qed

lemma timeout_run:
  assumes "node_rel members P i n" "proto_inv (set members) P" "i \<in> set members" "node_timeout_now q n = (n', r)"
  obtains P' where "local_run members i P P' n'"
proof (rule neutral_run [OF assms(1-3)])
  show "node_ok n'" using handlers_ok(4) [OF node_relD(1) [OF assms(1)], of q] assms(4) by simp
  show "commit_index (n_state n') = commit_index (n_state n)"
    using assms(4) by (auto simp: node_timeout_now_def persist_new_term_def Let_def dest: become_follower_OkD
        split: if_splits sum.splits)
qed (use that neutral_timeout_now [OF assms(4)] repl_kept_timeout [OF assms(4)] in auto)

lemma transfer_run:
  assumes "node_rel members P i n" "proto_inv (set members) P" "i \<in> set members" "transfer_finish t a n = (n', r)"
  obtains P' where "local_run members i P P' n'"
  by (rule neutral_run [OF assms(1-3) transfer_finish_ok [OF assms(4) node_relD(1) [OF assms(1)]]
        repl_kept_transfer [OF assms(4)] neutral_transfer_finish [OF assms(4)]])
     (use transfer_finish_log [OF assms(4)] that in auto)

lemma start_replication_run:
  assumes "node_rel members P i n" "proto_inv (set members) P" "i \<in> set members"
    "initialize_leader_replication n = (n', r)"
  obtains P' where "local_run members i P P' n'"
proof -
  have "node_rel members P i n'"
    by (rule node_rel_quiet [OF assms(1-3) initialize_ok(1) [OF assms(4) node_relD(1) [OF assms(1)]]
          repl_kept_initialize [OF assms(4)]])
       (use neutral_initialize [OF assms(4)] in \<open>simp_all add: vote_neutral_def\<close>)
  then show thesis using that local_run_refl by blast
qed

lemma quiet_run:
  assumes "node_rel members P i n" "proto_inv (set members) P" "i \<in> set members"
    and "node_ok n'" "repl_kept n n'" "n_id n' = n_id n" "n_members n' = n_members n"
      "n_state n' = n_state n" "n_election n' = n_election n"
  obtains P' where "local_run members i P P' n'"
  by (rule that, rule local_run_refl, rule node_rel_quiet [OF assms])

lemma read_run:
  assumes "node_rel members P i n" "proto_inv (set members) P" "i \<in> set members"
    "read_confirmed t now b n = (n', r)"
  obtains P' where "local_run members i P P' n'"
proof -
  note R = read_confirmed_cases [OF assms(4) node_relD(1) [OF assms(1)]]
  consider "n' = n" | "n' = n\<lparr>last_read_quorum_term := Some t, last_read_quorum_time := Some now\<rparr>"
    using R(2,3) by blast
  then have "node_rel members P i n'"
  proof cases
    case 1
    show ?thesis unfolding 1 by (rule assms(1))
  next
    case 2
    have kept: "repl_kept n n'" unfolding 2 by (rule repl_kept_same) simp_all
    show ?thesis by (rule node_rel_quiet [OF assms(1-3) R(1) kept]) (unfold 2, simp_all)
  qed
  then show thesis using that [OF local_run_refl] by blast
qed

lemma restart_run:
  assumes rel: "node_rel members P i n" and inv: "proto_inv (set members) P" "i \<in> set members"
    and d: "n_disk n = Some d" and init: "node_init c i members (Some d) = (dsk, Ok n')"
  obtains P' where "local_run members i P P' n'"
proof -
  note R = node_relD [OF rel]
  have "node_init c (n_id n) (n_members n) (Some d) = (dsk, Ok n')" using init R(2,3) by simp
  note N = restart_ok [OF R(1) d this]
  have "node_id (n_state n) = n_id n" using R(1) by (simp add: node_ok_def node_wf_def)
  then have n': "n_id n' = n_id n" "n_members n' = n_members n" "repl_kept n n'"
      "role (n_state n') = FOLLOWER" "current_term (n_state n) \<le> current_term (n_state n')"
      "commit_index (n_state n') = commit_index (n_state n)"
    unfolding N(1) by (simp_all add: recovered_def repl_kept_same)
  note D = node_rel_step_down [OF rel inv N(2) n'(3,1,2,4-6) refl]
  show thesis by (rule that, rule local_run_step [OF D]) simp_all
qed

section \<open>Compaction\<close>

text \<open>The same whole log, cut at a later index.\<close>

lemma log_absI:
  assumes "wf_log l" "contiguous 0 lg" "base_index l \<le> int (length lg)" "last_index l = int (length lg)"
    and get: "\<And>i. base_index l < i \<Longrightarrow> i \<le> int (length lg) \<Longrightarrow> log_get i l = Some (lg ! (nat i - 1))"
    and "base_term l = final_term (take (nat (base_index l)) lg)"
  shows "log_abs lg l"
proof -
  have base: "0 \<le> base_index l" using assms(1) by (simp add: wf_log_def)
  have len: "length (entries l) = length lg - nat (base_index l)"
    using assms(4) wf_last_index [OF assms(1)] base by linarith
  have "drop (nat (base_index l)) lg = entries l"
  proof (rule nth_equalityI)
    show "length (drop (nat (base_index l)) lg) = length (entries l)" using len by simp
    fix k assume "k < length (drop (nat (base_index l)) lg)"
    then have k: "k < length (entries l)" "nat (base_index l) + k < length lg" using len by auto
    let ?i = "base_index l + 1 + int k"
    have "base_index l < ?i" "?i \<le> int (length lg)" using k(2) base by linarith+
    from get [OF this] log_get_in_range(2) [OF assms(1), of ?i] this
    have "entries l ! nat (?i - base_index l - 1) = lg ! (nat ?i - 1)" by (simp add: assms(4))
    moreover have "nat (?i - base_index l - 1) = k" "nat ?i - 1 = nat (base_index l) + k" using base by linarith+
    ultimately show "drop (nat (base_index l)) lg ! k = entries l ! k" using k(2) by (simp only: nth_drop)
  qed
  then show ?thesis using assms by (simp add: log_abs_def)
qed

lemma log_abs_compact:
  assumes la: "log_abs lg l" "wf_terms l" and c: "compact_through i l = Ok l'"
  shows "log_abs lg l'"
proof -
  note A = log_absD [OF la(1)]
  note G = compact_through_get [OF A(1) la(2) c]
  have "wf_log l'" using wf_compact_through [OF A(1) la(2) c] by simp
  moreover have i: "base_index l \<le> i" "i \<le> int (length lg)" "base_term l' = final_term (take (nat i) lg)"
    using G(4) log_abs_term [OF la(1), of i] by (simp_all split: if_splits)
  ultimately show ?thesis
    using A(2) G log_abs_last [OF la(1)] log_abs_get [OF la(1)] by (intro log_absI) simp_all
qed

lemma node_rel_log:
  assumes rel: "node_rel members P i n" and ok: "node_ok n'" and ids: "n_id n' = n_id n" "n_members n' = n_members n"
    and st: "n_state n' = n_state n" "n_election n' = n_election n" "n_replication n' = n_replication n"
    and log: "log_abs (p_log P i) (n_log n')"
      "snapshot_state (n_snapshot n') = run_commands (take (nat (base_index (n_log n'))) (p_log P i)) []"
  shows "node_rel members P i n'"
  using node_relD [OF rel] assms(2-) unfolding node_rel_def by metis

lemma snapshot_run:
  assumes rel: "node_rel members P i n" and step: "create_snapshot n = (n', r)"
  shows "node_rel members P i n'"
proof -
  note R = node_relD [OF rel]
  have wf: "node_wf n" using R(1) by (simp add: node_ok_def)
  note D = data_wfD [OF node_wf_data [OF wf]]
  have ok: "node_ok n'" using handlers_ok(5) [OF R(1)] step by simp
  from step wf show ?thesis
  proof (cases rule: create_snapshot_cases)
    case nothing
    then show ?thesis using rel by simp
  next
    case (compacted trm sn l)
    have "log_abs (p_log P i) l" by (rule log_abs_compact [OF R(6) D(2) compacted(3)])
    moreover have "base_index l = commit_index (n_state n)" using compact_through_get(3) [OF D(1,2) compacted(3)] .
    ultimately show ?thesis
      using node_store [OF rel] compacted(4,7) by (intro node_rel_log [OF rel ok]) simp_all
  qed
qed

section \<open>Commands\<close>

lemma submit_fields:
  assumes "submit_begin cs n = (n', r)"
  shows "n_snapshot n' = n_snapshot n" "n_election n' = n_election n" "n_id n' = n_id n" "n_members n' = n_members n"
    "n_replication n' = Some x \<Longrightarrow> map_of (match_index x) f = Some m \<Longrightarrow>
       m = 0 \<or> (\<exists>r0. n_replication n = Some r0 \<and> map_of (match_index r0) f = Some m)"
proof -
  have "repl_kept (n\<lparr>n_log := n_log n'\<rparr>) n'"
  proof -
    have init: "repl_kept (n\<lparr>n_log := l\<rparr>) k \<and> n_log k = l"
      if "initialize_leader_replication (n\<lparr>n_log := l, n_disk := d\<rparr>) = (k, y)" for l d k y
    proof -
      have "repl_kept (n\<lparr>n_log := l\<rparr>) (n\<lparr>n_log := l, n_disk := d\<rparr>)" by (rule repl_kept_same) simp_all
      moreover note repl_kept_initialize [OF that]
      ultimately show ?thesis using repl_kept_trans by (fastforce simp: repl_kept_def)
    qed
    have same: "repl_kept (n\<lparr>n_log := l\<rparr>) (n\<lparr>n_log := l\<rparr>)" for l by (rule repl_kept_same) simp_all
    have "n\<lparr>n_log := n_log n\<rparr> = n" by simp
    then have "repl_kept (n\<lparr>n_log := n_log n\<rparr>) n" using same [of "n_log n"] by simp
    then show ?thesis
      using assms same init
      by (fastforce simp: submit_begin_def Let_def split: if_splits sum.splits prod.splits)
  qed
  then show "n_snapshot n' = n_snapshot n" "n_replication n' = Some x \<Longrightarrow> map_of (match_index x) f = Some m \<Longrightarrow>
       m = 0 \<or> (\<exists>r0. n_replication n = Some r0 \<and> map_of (match_index r0) f = Some m)"
    by (auto simp: repl_kept_def)
  show "n_election n' = n_election n" "n_id n' = n_id n" "n_members n' = n_members n"
    using neutral_submit_begin [OF assms] by (simp_all add: vote_neutral_def)
qed

lemma log_abs_extend:
  assumes "log_abs lg l" "contiguous (last_index l) es"
  shows "log_abs (lg @ es) (l\<lparr>entries := entries l @ es\<rparr>)"
proof -
  note A = log_absD [OF assms(1)]
  have "wf_log (l\<lparr>entries := entries l @ es\<rparr>)"
    by (rule wf_for_each_append [OF A(1) for_each_append_entry [OF A(1) assms(2)]])
  moreover have "contiguous 0 (lg @ es)" using A(2) assms(2) log_abs_last [OF assms(1)] by (simp add: contiguous_append)
  moreover have "nat (base_index l) - length lg = 0" using A(4) by simp
  ultimately show ?thesis using A by (simp add: log_abs_def)
qed

lemma submit_run:
  assumes rel: "node_rel members P i n" and inv: "proto_inv (set members) P" and i: "i \<in> set members"
    and step: "submit_begin cs n = (n', r)"
  obtains P' where "local_run members i P P' n'"
proof -
  note R = node_relD [OF rel]
  from step R(1) show thesis
  proof (cases rule: submit_begin_cases)
    case (refused e)
    then show thesis using that rel local_run_refl by blast
  next
    case (accepted es)
    let ?T = "p_term P i"
    define P1 where "P1 = P\<lparr>p_log := (p_log P)(i := p_log P i @ es), p_llog := (p_llog P)(?T := p_llog P ?T @ es)\<rparr>"
    have lead: "p_lead P i" using R(5) accepted(1) by simp
    have s: "proto_step (set members) i P P1"
      unfolding P1_def using i lead accepted(5) R(4) by (intro proto_step.extend) simp_all
    have g: "grows P P1" by (rule proto_step_grows [OF inv s])
    note F = submit_fields [OF step]
    have "member_ok P i" by (rule proto_invD(2) [OF inv i])
    then have based: "p_base P ?T \<noteq> None" using lead by (auto simp: member_ok_def)
    have match: "match_ok P1 i f m" if "n_replication n' = Some x" "map_of (match_index x) f = Some m" for x f m
    proof -
      have "m = 0 \<or> match_ok P i f m" using F(5) [OF that] R(12) by blast
      moreover have "match_ok P1 i f m" if "match_ok P i f m"
        by (rule grows_match_ok [OF g that]) (use lead based in \<open>simp_all add: P1_def\<close>)
      ultimately show ?thesis by (auto simp: match_ok_def)
    qed
    have "log_abs (p_log P1 i) (n_log n')"
      using log_abs_extend [OF R(6) accepted(6)] accepted(7) by (simp add: P1_def)
    moreover have "nat (base_index (n_log n)) - length (p_log P i) = 0" using log_absD(4) [OF R(6)] by simp
    moreover have "role (n_state n) \<noteq> CANDIDATE" using accepted(1) by simp
    ultimately have "node_rel members P1 i n'"
      using R F(1-4) accepted(7,8,11) match unfolding node_rel_def by (simp add: P1_def)
    then show thesis
      using s lead by (intro that [of P1]) (simp_all add: local_run_def r_into_rtranclp P1_def)
  qed
qed

section \<open>The leader's commit\<close>

lemma finish_fields:
  assumes "replicate_log_finish n = (n', r)"
  shows "n_id n' = n_id n" "n_members n' = n_members n" "n_election n' = n_election n"
    "role (n_state n') = role (n_state n)" "current_term (n_state n') = current_term (n_state n)"
proof -
  have adv: "role s = role s0 \<and> current_term s = current_term s0"
    if "advance_commit_index l x s0 = Inr (s, c)" for l x s0 s c
    using that by (auto simp: advance_commit_index_def Let_def split: option.splits if_splits)
  show "n_id n' = n_id n" "n_members n' = n_members n" "n_election n' = n_election n"
    "role (n_state n') = role (n_state n)" "current_term (n_state n') = current_term (n_state n)"
    using assms
    by (auto simp: replicate_log_finish_def Let_def persist_state_def dest!: adv dest: apply_committed_fields
        split: if_splits sum.splits option.splits prod.splits)
qed

lemma commit_run:
  assumes rel: "node_rel members P i n" and inv: "proto_inv (set members) P" and i: "i \<in> set members"
    and step: "replicate_log_finish n = (n', r)"
  obtains P' where "local_run members i P P' n'"
proof -
  note R = node_relD [OF rel]
  note F = replicate_log_finish_ok [OF step R(1)]
  note S = finish_fields [OF step]
  have kept: "repl_kept n n'" by (rule repl_kept_finish [OF step])
  show thesis
  proof (cases "commit_index (n_state n') = commit_index (n_state n)")
    case True
    have "node_rel members P i n'"
      by (rule node_rel_state [OF rel grows_refl inv i refl F(1) kept S(1,2)]) (use R S True in simp_all)
    then show thesis using that local_run_refl by blast
  next
    case False
    let ?T = "p_term P i" and ?c = "commit_index (n_state n')" and ?lg = "p_log P i"
    have lead: "role (n_state n) = LEADER" and at: "term_at ?c (n_log n) = Some ?T"
      using F(6) [OF False] R(4) by simp_all
    obtain x where x: "n_replication n = Some x" "majority (set members) (replicated_on (n_state n) x ?c)"
      using F(6) [OF False] R(3) by auto
    have wf: "node_wf n" using R(1) by (simp add: node_ok_def)
    note D = data_wfD [OF node_wf_data [OF wf]]
    have pos: "0 < ?c" using F(5) False D(7) log_absD(3) [OF R(6)] by linarith
    have len: "nat ?c \<le> length ?lg" and top: "final_term (take (nat ?c) ?lg) = ?T"
      using at log_abs_term [OF R(6)] by (auto split: if_splits)
    have entry: "entry_term (?lg ! (nat ?c - 1)) = ?T" using top final_term_take [OF len] pos by simp
    have pl: "p_lead P i" using lead R(5) by simp
    obtain b where b: "p_base P ?T = Some (i, b)" and llog: "?lg = p_llog P ?T"
      using proto_invD(2) [OF inv i] pl by (auto simp: member_ok_def)
    have npos: "0 < nat ?c" using pos by simp
    then have "nat ?c - 1 < length (p_llog P ?T)" using len unfolding llog by linarith
    from llog_facts(5) [OF proto_invD(3) [OF inv b] b this] have "length b \<le> nat ?c - 1"
      using entry unfolding llog by blast
    then have own: "length b < nat ?c" using npos by linarith
    define P1 where "P1 = P\<lparr>p_acks := insert (i, ?T, length ?lg) (p_acks P)\<rparr>"
    have s1: "proto_step (set members) i P P1"
      unfolding P1_def using i b llog by (intro proto_step.ack) simp_all
    define P2 where "P2 = P1\<lparr>p_com := insert (nat ?c, p_term P1 i) (p_com P1)\<rparr>"
    have acked: "\<exists>k \<ge> nat ?c. (v, ?T, k) \<in> p_acks P1" if v: "v \<in> replicated_on (n_state n) x ?c" for v
    proof (cases "v = i")
      case True
      then show ?thesis using len by (auto simp: P1_def)
    next
      case False
      have "node_id (n_state n) = i" using wf R(2) by (simp add: node_wf_def)
      then obtain m where m: "map_of (match_index x) v = Some m" "?c \<le> m"
        using v False by (auto simp: replicated_on_def)
      have "match_ok P i v m" by (rule R(12) [OF x(1) m(1)])
      then have "nat m \<le> length b \<or> (\<exists>k \<ge> nat m. (v, ?T, k) \<in> p_acks P)"
        using pl b by (simp add: match_ok_def)
      moreover have "nat ?c \<le> nat m" using m(2) by simp
      ultimately show ?thesis using own by (auto simp: P1_def intro: order_trans)
    qed
    have F1: "p_term P1 i = ?T" "p_log P1 i = ?lg" "p_lead P1 i = p_lead P i" by (simp_all add: P1_def)
    have s2: "proto_step (set members) i P1 P2"
      unfolding P2_def
      by (rule proto_step.decide [OF i _ npos _ _ x(2)]; unfold F1; fact pl len entry acked)
    define P3 where "P3 = P2\<lparr>p_commit := (p_commit P2)(i := nat ?c)\<rparr>"
    have "committed P2 ?T (nat ?c) ?lg"
      using llog by (auto simp: committed_def holds_def P2_def P1_def)
    then have s3: "proto_step (set members) i P2 P3"
      unfolding P3_def using i by (intro proto_step.learn) (simp_all add: P2_def P1_def)
    have s: "(proto_step (set members) i)\<^sup>*\<^sup>* P P3" 
      by (rule converse_rtranclp_into_rtranclp [where r = "proto_step (set members) i", OF s1],
          rule converse_rtranclp_into_rtranclp [where r = "proto_step (set members) i", OF s2], rule r_into_rtranclp, rule s3)
    have g: "grows P P3" using proto_steps_inv [OF s inv] by simp
    have F3: "p_term P3 i = ?T" "p_log P3 i = ?lg" "p_lead P3 i" "p_commit P3 i = nat ?c" "p_base P3 = p_base P"
        "p_llog P3 = p_llog P" "p_cands P3 = p_cands P"
      by (simp_all add: P3_def P2_def P1_def pl)
    have "node_rel members P3 i n'"
      by (rule node_rel_state [OF rel g inv i F3(2) F(1) kept S(1,2)]) (use F3 R(4) S lead pl in simp_all)
    then show thesis using s F3 by (intro that [of P3]) (simp_all add: local_run_def)
  qed
qed

end
