(* ===== verification/SystemReplication.thy ===== *)
theory SystemReplication
  imports SystemSteps
begin

text \<open>
  Replication as runs of protocol steps: what a worker sends is a piece of the leader's log or a
  committed prefix's effect, a follower that answers with success has come to agree with the leader
  as far as the request reaches, and the progress recorded for it is an acknowledgement.
\<close>

section \<open>The worker\<close>

lemma committed_le: "committed P T c lg \<Longrightarrow> d \<le> c \<Longrightarrow> committed P T d lg"
  unfolding committed_def holds_def by (metis le_trans le_zero_eq take_eq_shorter)

lemma committed_later: "committed P T c lg \<Longrightarrow> T \<le> U \<Longrightarrow> committed P U c lg"
  unfolding committed_def by (meson order_trans)

lemma send_ok:
  assumes rel: "node_rel members P i n" and inv: "proto_inv (set members) P" and i: "i \<in> set members"
    and step: "worker_build f n = Ok (Some req)"
  shows "request_ok P req"
proof -
  note R = node_relD [OF rel]
  have wf: "node_wf n" using R(1) by (simp add: node_ok_def)
  note D = data_wfD [OF node_wf_data [OF wf]]
  note A = log_absD [OF R(6)]
  have lead: "p_lead P i" using step R(5) by (auto simp: worker_build_def split: if_splits)
  then obtain b where b: "p_base P (p_term P i) = Some (i, b)" and L: "p_log P i = p_llog P (p_term P i)"
      and com: "committed P (p_term P i) (p_commit P i) (p_log P i)"
    using proto_invD(2) [OF inv i] by (auto simp: member_ok_def)
  have len: "nat (commit_index (n_state n)) \<le> length (p_log P i)"
    using D(8) log_abs_last [OF R(6)] by simp
  from step consider (snap) q where "req = SnapshotRequest q" "is_term q = p_term P i"
        "is_last_included_index q = base_index (n_log n)" "is_last_included_term q = base_term (n_log n)"
        "is_state q = snapshot_state (n_snapshot n)"
    | (app) r q where "req = AppendRequest q"
        "build_request f (Some (commit_index (n_state n))) (n_state n) (n_log n) r = Ok q"
    using R(4) by (auto simp: worker_build_def split: if_splits option.splits sum.splits)
  then show ?thesis
  proof cases
    case snap
    have "committed P (p_term P i) (nat (base_index (n_log n))) (p_log P i)"
      using com D(7) R(7) by (intro committed_le [OF com]) simp
    moreover have "0 \<le> base_term (n_log n)" using A(1) by (simp add: wf_log_def)
    ultimately show ?thesis
      using snap b A(3,4,6) R(8) L by (simp add: install_ok_def Let_def nat_le_iff)
  next
    case app
    from app(2) A(1) show ?thesis
    proof (cases rule: build_request_OkD)
      case (1 k)
      let ?lg = "p_log P i"
      have prev: "0 \<le> ae_prev_log_index q" "nat (ae_prev_log_index q) \<le> length ?lg"
        using 1(2,3,7) A(3) log_abs_last [OF R(6)] by linarith+
      have es: "ae_entries q = drop (nat (ae_prev_log_index q)) ?lg"
      proof -
        have "nat (k - 1 - base_index (n_log n)) + nat (base_index (n_log n)) = nat (k - 1)"
          using 1(2) A(3) by linarith
        then show ?thesis unfolding 1(7,9) A(5) [symmetric] by simp
      qed
      have m: "nat (ae_prev_log_index q) + length (ae_entries q) = length ?lg" using prev(2) by (simp add: es)
      have "ae_prev_log_term q = final_term (take (nat (ae_prev_log_index q)) ?lg)"
        using 1(7,8) log_abs_term [OF R(6), of "k - 1"] by (simp split: if_splits)
      moreover have "\<forall>e \<in> set (ae_entries q). valid_command (entry_command e) \<and> 0 \<le> entry_term e"
        using D(2,3) set_drop_subset [of "nat (k - 1 - base_index (n_log n))" "entries (n_log n)"]
        unfolding 1(9) wf_terms_def valid_entries_def by blast
      moreover have "committed P (p_term P i) (nat (ae_leader_commit q)) ?lg" using 1(12) com R(7) by simp
      ultimately show ?thesis
        using app(1) 1(5,12) prev m es b R(4) L len by (simp add: append_ok_def Let_def)
    qed
  qed
qed

text \<open>The index a success is recorded under is how far the request reaches.\<close>

lemma append_request_contiguous:
  assumes ok: "append_ok P q" and L: "contiguous 0 (p_llog P (ae_term q))"
  shows "contiguous (ae_prev_log_index q) (ae_entries q)"
proof -
  let ?L = "p_llog P (ae_term q)" and ?m = "nat (ae_prev_log_index q) + length (ae_entries q)"
  have q: "0 \<le> ae_prev_log_index q" "?m \<le> length ?L" "ae_entries q = drop (nat (ae_prev_log_index q)) (take ?m ?L)"
    using ok by (simp_all add: append_ok_def Let_def)
  have "contiguous (0 + int (nat (ae_prev_log_index q))) (drop (nat (ae_prev_log_index q)) (take ?m ?L))"
    using q(2) by (intro contiguous_drop contiguous_take L) simp
  then show ?thesis unfolding q(3) [symmetric] using q(1) by simp
qed

lemma request_reach_index:
  assumes ok: "request_ok P req" and L: "contiguous 0 (p_llog P (request_term req))"
  shows "nat (case req of SnapshotRequest a \<Rightarrow> is_last_included_index a
              | AppendRequest a \<Rightarrow> if ae_entries a \<noteq> [] then entry_index (last (ae_entries a))
                                  else ae_prev_log_index a) = request_reach req"
proof (cases req)
  case (AppendRequest q)
  have "append_ok P q" using ok AppendRequest by simp
  note C = append_request_contiguous [OF this]
  have "0 \<le> ae_prev_log_index q" using \<open>append_ok P q\<close> by (simp add: append_ok_def Let_def)
  then show ?thesis
    using contiguous_last [OF C] L AppendRequest by (auto simp: nat_add_distrib)
qed simp

lemma node_rel_replication:
  assumes rel: "node_rel members P i n" and ok: "node_ok (n\<lparr>n_replication := Some q\<rparr>)"
    and match: "\<And>f m. map_of (match_index q) f = Some m \<Longrightarrow> match_ok P i f m"
  shows "node_rel members P i (n\<lparr>n_replication := Some q\<rparr>)"
  using rel ok match unfolding node_rel_def by auto

text \<open>A response of the leader's own term moves the progress alone, to what the follower has acknowledged.\<close>

lemma progress_kept:
  assumes rel: "node_rel members P i n" and inv: "proto_inv (set members) P" and i: "i \<in> set members"
    and req: "request_ok P req" "success \<Longrightarrow> (f, request_term req, request_reach req) \<in> p_acks P"
      "contiguous 0 (p_llog P (request_term req))"
    and step: "worker_response f req t success n = (n', r)" and t: "\<not> current_term (n_state n) < t"
  shows "node_rel members P i n'"
proof -
  note R = node_relD [OF rel]
  have ok: "node_ok n'" by (rule worker_response_ok [OF step R(1)])
  from step show ?thesis
  proof (cases rule: worker_response_cases)
    case same
    then show ?thesis using rel by simp
  next
    case (stepped x)
    then show ?thesis using t by simp
  next
    case (raised x y k)
    have reach: "nat k = request_reach req" using request_reach_index [OF req(1,3)] raised(7) by simp
    have now: "request_term req = p_term P i" "p_lead P i" using raised(4,5) R(4,5) by simp_all
    have "member_ok P i" by (rule proto_invD(2) [OF inv i])
    then have L: "p_log P i = p_llog P (p_term P i)" using now(2) by (simp add: member_ok_def)
    have a: "(f, p_term P i, nat k) \<in> p_acks P" using req(2) raised(3) now(1) reach by simp
    have "ack_ok (set members) P f (p_term P i) (nat k)" by (rule proto_invD(7) [OF inv a])
    then have k: "match_ok P i f k" using a L by (auto simp: match_ok_def ack_ok_def)
    obtain m0 where m0: "map_of (match_index x) f = Some m0" "match_index y = AList.update f (max m0 k) (match_index x)"
      using raised(2) unfolding raise_match_Ok_iff by auto
    have "match_ok P i g m" if "map_of (match_index y) g = Some m" for g m
      using that R(12) [OF raised(1)] k m0 by (auto simp: max_def split: if_splits)
    then show ?thesis
      using ok raised(6) node_rel_replication [OF rel, of y] by simp
  next
    case (backed x y)
    have "match_index y = match_index x" using backed(2) unfolding record_failure_Ok_iff by auto
    then show ?thesis
      using ok backed(4) R(12) [OF backed(1)] node_rel_replication [OF rel, of y] by simp
  qed
qed

lemma progress_run:
  assumes rel: "node_rel members P i n" and inv: "proto_inv (set members) P" and i: "i \<in> set members"
    and req: "request_ok P req" "success \<Longrightarrow> (f, request_term req, request_reach req) \<in> p_acks P"
      "contiguous 0 (p_llog P (request_term req))"
    and step: "worker_response f req t success n = (n', r)"
  obtains P' where "local_run members i P P' n'"
proof (cases "current_term (n_state n) < t")
  case False
  show thesis
    by (rule that, rule local_run_refl, rule progress_kept [OF rel inv i req step False])
next
  case True
  note R = node_relD [OF rel]
  have ok: "node_ok n'" by (rule worker_response_ok [OF step R(1)])
  have "n' = n \<or> (\<exists>x. step_down t n = (n', x))"
    using step True by (auto simp: worker_response_def split: option.splits if_splits prod.splits sum.splits)
  then show thesis
  proof (elim disjE exE)
    assume "n' = n"
    then show thesis using that rel local_run_refl by blast
  next
    fix x
    assume x: "step_down t n = (n', x)"
    show thesis
      by (rule neutral_run [OF rel inv i ok repl_kept_step_down [OF x] neutral_step_down [OF x]])
         (use step_down_log [OF x] that in auto)
  qed
qed

section \<open>A follower that agrees with the leader\<close>

text \<open>What follows when a follower takes over the first \<open>m\<close> entries of the leader's log.\<close>

definition synced :: "nat \<Rightarrow> log_entry list \<Rightarrow> log_entry list \<Rightarrow> log_entry list" where
  "synced m L lg = (if take m lg = take m L then lg else take m L)"

lemma synced_take: "m \<le> length L \<Longrightarrow> k \<le> m \<Longrightarrow> take k (synced m L lg) = take k L"
  by (auto simp: synced_def min_def dest: take_eq_shorter)

lemma synced_length: "m \<le> length L \<Longrightarrow> m \<le> length (synced m L lg)"
  by (metis length_take min.absorb2 min.cobounded1 order_refl synced_take)

lemma run_then:
  "(proto_step M i)\<^sup>*\<^sup>* P Q \<Longrightarrow> proto_step M i Q R \<Longrightarrow> (proto_step M i)\<^sup>*\<^sup>* P R"
  by (rule rtranclp.rtrancl_into_rtrancl)

lemma follower_run:
  assumes inv: "proto_inv M P" and i: "i \<in> M" and T: "p_term P i \<le> T" "p_base P T \<noteq> None"
    and m: "m \<le> length (p_llog P T)"
    and c: "c = p_commit P i \<or> c \<le> m \<and> committed P T c (p_llog P T)"
  obtains P' where "(proto_step M i)\<^sup>*\<^sup>* P P'" "p_term P' i = T" "\<not> p_lead P' i"
    "p_log P' i = synced m (p_llog P T) (p_log P i)" "p_commit P' i = c" "p_base P' = p_base P" "p_llog P' = p_llog P"
    "(i, T, m) \<in> p_acks P'"
proof -
  let ?L = "p_llog P T" and ?lg = "synced m (p_llog P T) (p_log P i)"
  define P1 where "P1 = P\<lparr>p_term := (p_term P)(i := T), p_lead := (p_lead P)(i := False)\<rparr>"
  have s1: "proto_step M i P P1" unfolding P1_def by (rule proto_step.step_down [OF i T(1)])
  have F1: "p_term P1 i = T" "\<not> p_lead P1 i" "p_log P1 = p_log P" "p_commit P1 = p_commit P"
      "p_base P1 = p_base P" "p_llog P1 = p_llog P" "p_com P1 = p_com P" by (simp_all add: P1_def)
  define P2 where "P2 = P1\<lparr>p_log := (p_log P1)(i := ?lg)\<rparr>"
  have s2: "(proto_step M i)\<^sup>*\<^sup>* P P2"
  proof (cases "take m (p_log P i) = take m ?L")
    case True
    then have "(p_log P1)(i := ?lg) = p_log P1" by (simp add: synced_def F1(3))
    then have "P2 = P1" unfolding P2_def by simp
    then show ?thesis using r_into_rtranclp [where r = "proto_step M i", OF s1] by simp
  next
    case False
    then have lg: "?lg = take m (p_llog P1 T)" by (simp add: synced_def F1(6))
    have "proto_step M i P1 P2"
      unfolding P2_def lg by (rule proto_step.replace [OF i F1(2) F1(1) [symmetric]]) (use F1 T(2) False in simp_all)
    then show ?thesis by (rule run_then [OF r_into_rtranclp [where r = "proto_step M i", OF s1]])
  qed
  have F2: "p_term P2 i = T" "\<not> p_lead P2 i" "p_log P2 i = ?lg" "p_commit P2 i = p_commit P i"
      "p_base P2 = p_base P" "p_llog P2 = p_llog P" "p_com P2 = p_com P" by (simp_all add: P2_def F1)
  define P3 where "P3 = P2\<lparr>p_acks := insert (i, T, m) (p_acks P2)\<rparr>"
  have s3: "proto_step M i P2 P3"
    unfolding P3_def
    by (rule proto_step.ack [OF i F2(1) [symmetric]]) (use F2 T(2) m synced_take [OF m order_refl] in simp_all)
  have F3: "p_term P3 i = T" "\<not> p_lead P3 i" "p_log P3 i = ?lg" "p_commit P3 i = p_commit P i"
      "p_base P3 = p_base P" "p_llog P3 = p_llog P" "p_com P3 = p_com P" "(i, T, m) \<in> p_acks P3"
    by (simp_all add: P3_def F2)
  note s123 = run_then [OF s2 s3]
  from c show thesis
  proof
    assume "c = p_commit P i"
    then show thesis using that [OF s123] F3 by simp
  next
    assume com: "c \<le> m \<and> committed P T c ?L"
    then have "committed P T c ?lg" using committed_cong [OF synced_take [OF m]] by blast
    then have "committed P3 (p_term P3 i) c (p_log P3 i)"
      unfolding committed_def holds_def F3(1,3,6,7) .
    then have s4: "proto_step M i P3 (P3\<lparr>p_commit := (p_commit P3)(i := c)\<rparr>)" by (rule proto_step.learn [OF i])
    show thesis by (rule that [OF run_then [OF s123 s4]]) (use F3 in simp_all)
  qed
qed

lemma prefix_by_term:
  assumes "grounded P a" "grounded P b" "k \<le> length a" "k \<le> length b"
    "final_term (take k a) = final_term (take k b)"
  shows "take k a = take k b"
proof (cases k)
  case (Suc j)
  then have "entry_term (a ! j) = entry_term (b ! j)"
    using assms(3-5) by (simp add: final_term_take)
  then show ?thesis using log_matching [OF assms(1,2), of j] assms(3,4) Suc by simp
qed simp

text \<open>The repair on the retained part is \<open>synced\<close> on the whole log.\<close>

lemma repaired_abs:
  assumes la: "log_abs lg l" and g: "grounded P lg" "grounded P L" and L: "contiguous 0 L"
    and prev: "base_index l \<le> prev" "prev \<le> int (length lg)" "take (nat prev) lg = take (nat prev) L"
    and es: "m = nat prev + length es" "m \<le> length L" "es = drop (nat prev) (take m L)" "contiguous prev es"
  shows "log_abs (synced m L lg) (repaired prev es l)"
proof -
  note A = log_absD [OF la]
  have p0: "0 \<le> prev" using prev(1) A(3) by simp
  have top: "prev \<le> last_index l" using prev(2) log_abs_last [OF la] by simp
  have nth: "es ! k = L ! (nat prev + k)" if "k < length es" for k
  proof -
    have "es ! k = drop (nat prev) (take m L) ! k" using es(3) by simp
    also have "\<dots> = L ! (nat prev + k)" using that es(1,2) by simp
    finally show ?thesis .
  qed
  have get: "log_get (prev + 1 + int k) l = (if nat prev + k < length lg then Some (lg ! (nat prev + k)) else None)" for k
  proof -
    have "nat (prev + 1 + int k) - 1 = nat prev + k" "prev + 1 + int k \<le> int (length lg) \<longleftrightarrow> nat prev + k < length lg"
      using p0 by linarith+
    then show ?thesis using log_abs_get [OF la, of "prev + 1 + int k"] prev(1) by simp
  qed
  show ?thesis
  proof (cases "take m lg = take m L")
    case True
    have len: "m \<le> length lg" using True es(2) take_eq_length by blast
    have "matched es l = length es"
    proof (subst matched_all_iff [OF es(4)], intro allI impI)
      fix k assume k: "k < length es"
      have "lg ! (nat prev + k) = L ! (nat prev + k)"
        using True k es(1) by (metis add_less_cancel_left nth_take)
      then show "\<exists>x. log_get (prev + 1 + int k) l = Some x \<and> entry_term x = entry_term (es ! k)"
        using get [of k] nth [OF k] k es(1) len by simp
    qed
    then show ?thesis using la True by (simp add: synced_def repaired_id)
  next
    case False
    let ?k = "nat prev + matched es l"
    have agree: "take ?k lg = take ?k L"
    proof (cases "matched es l")
      case 0
      then show ?thesis using prev(3) by simp
    next
      case (Suc j)
      then obtain x where x: "log_get (prev + 1 + int j) l = Some x" "entry_term x = entry_term (es ! j)"
        using matched_lookup [OF es(4), of j l] by auto
      have j: "j < length es" using Suc matched_le [of es l] by simp
      have "nat prev + j < length lg" "x = lg ! (nat prev + j)" using x(1) get [of j] by (auto split: if_splits)
      then have "take (Suc (nat prev + j)) lg = take (Suc (nat prev + j)) L"
        using x(2) nth [OF j] j es(1,2) by (intro log_matching [OF g]) simp_all
      then show ?thesis using Suc by simp
    qed
    have ne: "matched es l \<noteq> length es" using False agree es(1) by auto
    then have "?k < m" using matched_le [of es l] es(1) by simp
    note G = repaired_get [OF A(1) es(4) prev(1) top ne]
    have klen: "?k \<le> length lg" using agree \<open>?k < m\<close> es(2) take_eq_length by (meson le_trans less_imp_le)
    have m0: "int m = prev + int (length es)" using es(1) p0 by simp
    have "log_abs (take m L) (repaired prev es l)"
    proof (rule log_absI)
      show "wf_log (repaired prev es l)" by (rule repaired_wf [OF A(1) es(4) prev(1) top])
      show "contiguous 0 (take m L)" by (rule contiguous_take [OF L])
      show "base_index (repaired prev es l) \<le> int (length (take m L))" using prev(1) m0 es(2) by simp
      show "last_index (repaired prev es l) = int (length (take m L))" using G(2) m0 es(2) by simp
      show "base_term (repaired prev es l) = final_term (take (nat (base_index (repaired prev es l))) (take m L))"
      proof -
        have "nat (base_index l) \<le> nat prev" "nat prev \<le> m" using prev(1) es(1) by simp_all
        then show ?thesis using A(6) take_eq_shorter [OF prev(3), of "nat (base_index l)"] by simp
      qed
      fix j assume "base_index (repaired prev es l) < j" "j \<le> int (length (take m L))"
      then have j: "base_index l < j" "j \<le> int m" "0 < j" using es(2) A(3) by simp_all
      show "log_get j (repaired prev es l) = Some (take m L ! (nat j - 1))"
      proof (cases "j \<le> prev + int (matched es l)")
        case True
        then have k: "nat j - 1 < ?k" using j(3) p0 by linarith
        then have "lg ! (nat j - 1) = L ! (nat j - 1)" using agree by (metis nth_take)
        then show ?thesis
          using True G(1) [of j] log_abs_get [OF la, of j] j k klen \<open>?k < m\<close> by simp
      next
        case False
        have k: "nat (j - prev - 1) < length es" "nat prev + nat (j - prev - 1) = nat j - 1" "nat j - 1 < m"
          using False j p0 m0 by linarith+
        then show ?thesis using False G(1) [of j] j(2) m0 nth [OF k(1)] by simp
      qed
    qed
    then show ?thesis using False by (simp add: synced_def)
  qed
qed

section \<open>AppendEntries\<close>

lemma append_ok_wf:
  assumes "append_ok P q" "contiguous 0 (p_llog P (ae_term q))"
  shows "wf_append_request q"
  using append_request_contiguous [OF assms] assms(1) by (simp add: wf_append_request_def append_ok_def Let_def)

text \<open>What a node has committed stands in the log of every leader of its term or a later one.\<close>

lemma commit_in_llog:
  assumes rel: "node_rel members P i n" and inv: "proto_inv (set members) P" "i \<in> set members"
    and T: "current_term (n_state n) \<le> T" "p_base P T \<noteq> None"
  shows "take (p_commit P i) (p_log P i) = take (p_commit P i) (p_llog P T)" "p_commit P i \<le> length (p_llog P T)"
proof -
  have "member_ok P i" by (rule proto_invD(2) [OF inv])
  then have "committed P T (p_commit P i) (p_log P i)"
    using committed_later [OF _ T(1)] node_relD(4) [OF rel] by (simp add: member_ok_def)
  note L = committed_llog [OF inv(1) this T(2)]
  show "take (p_commit P i) (p_log P i) = take (p_commit P i) (p_llog P T)" "p_commit P i \<le> length (p_llog P T)"
    by (rule L)+
qed

lemma append_agrees:
  assumes rel: "node_rel members P i n" and inv: "proto_inv (set members) P" "i \<in> set members"
    and q: "append_ok P q" "contiguous 0 (p_llog P (ae_term q))" "current_term (n_state n) \<le> ae_term q"
  shows "agrees_committed q (n_state n) (n_log n)"
proof -
  note R = node_relD [OF rel]
  let ?L = "p_llog P (ae_term q)" and ?prev = "ae_prev_log_index q" and ?lg = "p_log P i"
  have Q: "p_base P (ae_term q) \<noteq> None" "0 \<le> ?prev" "nat ?prev + length (ae_entries q) \<le> length ?L"
      "ae_entries q = drop (nat ?prev) (take (nat ?prev + length (ae_entries q)) ?L)"
    using q(1) by (simp_all add: append_ok_def Let_def)
  note C = commit_in_llog [OF rel inv q(3) Q(1)]
  note W = append_request_contiguous [OF q(1,2)]
  have "entry_term x = entry_term e"
    if e: "e \<in> set (ae_entries q)" "entry_index e \<le> commit_index (n_state n)" and x: "log_get (entry_index e) (n_log n) = Some x"
    for e x
  proof -
    obtain k where k: "k < length (ae_entries q)" "e = ae_entries q ! k" using e(1) by (metis in_set_conv_nth)
    have idx: "entry_index e = ?prev + 1 + int k" using W k by (simp add: contiguous_def)
    let ?j = "nat (entry_index e) - 1"
    have j: "?j = nat ?prev + k" using idx Q(2) by linarith
    have "e = drop (nat ?prev) (take (nat ?prev + length (ae_entries q)) ?L) ! k" using k(2) Q(4) by simp
    also have "\<dots> = ?L ! ?j" using k(1) Q(3) j by simp
    finally have e: "e = ?L ! ?j" .
    have "?j < p_commit P i" using that(2) idx Q(2) R(7) by linarith
    then have "?lg ! ?j = ?L ! ?j" using C(1) by (metis nth_take)
    moreover have "x = ?lg ! ?j" using x log_abs_get [OF R(6)] by (auto split: if_splits)
    ultimately show ?thesis using e by simp
  qed
  then show ?thesis by (auto simp: agrees_committed_def split: option.splits)
qed

lemma append_fields:
  assumes "node_append_entries c q n = (n', Ok a)"
  obtains s l store where "handle_append_entries q (n_state n) (n_log n) (Some (n_store n)) = ((s, l, store), Ok a)"
    "n_state n' = s" "n_log n' = l" "n_snapshot n' = n_snapshot n" "n_election n' = n_election n"
    "n_id n' = n_id n" "n_members n' = n_members n"
    "n_replication n' = (if role s = LEADER then n_replication n else None)"
proof -
  obtain s l store r where h: "handle_append_entries q (n_state n) (n_log n) (Some (n_store n)) = ((s, l, store), r)"
    by (metis prod.exhaust)
  have "r = Ok a \<and> n_state n' = s \<and> n_log n' = l \<and> n_snapshot n' = n_snapshot n \<and> n_election n' = n_election n \<and>
    n_id n' = n_id n \<and> n_members n' = n_members n \<and> n_replication n' = (if role s = LEADER then n_replication n else None)"
    using assms unfolding node_append_entries_def h
    by (auto simp: Let_def drop_replication_def persist_state_def split: sum.splits option.splits if_splits)
  then show thesis using that h by blast
qed

text \<open>A stale request is answered as one without entries.\<close>

lemma append_stale:
  assumes "ae_term q < current_term (n_state n)"
  shows "node_append_entries c q n = node_append_entries c (q\<lparr>ae_entries := []\<rparr>) n"
proof -
  have "handle_append_entries (q\<lparr>ae_entries := []\<rparr>) (n_state n) l st = handle_append_entries q (n_state n) l st" for l st
    using assms by (simp add: handle_append_entries_def)
  then show ?thesis by (simp only: node_append_entries_def)
qed

lemma stale_run:
  assumes rel: "node_rel members P i n" and inv: "proto_inv (set members) P" "i \<in> set members"
    and stale: "ae_term q < current_term (n_state n)" and step: "node_append_entries c q n = (n', r)"
  shows "node_rel members P i n'" "r = Ok \<lparr>aer_term = current_term (n_state n), aer_success = False\<rparr>"
proof -
  let ?q = "q\<lparr>ae_entries := []\<rparr>"
  note R = node_relD [OF rel]
  have step': "node_append_entries c ?q n = (n', r)" using step append_stale [OF stale] by simp
  have wf: "wf_append_request ?q" "agrees_committed ?q (n_state n) (n_log n)"
    by (simp_all add: wf_append_request_def contiguous_def agrees_committed_def)
  have ok: "node_ok n'" using handlers_ok(2) [OF R(1) wf, of c] step' by simp
  have "node_wf n" "node_durable n" using R(1) by (simp_all add: node_ok_def)
  then obtain a where a: "r = Ok a"
    using node_append_entries_keeps [OF step' _ _ wf] by (auto simp: is_ok_iff)
  obtain s l store where F: "handle_append_entries ?q (n_state n) (n_log n) (Some (n_store n)) = ((s, l, store), Ok a)"
      "n_state n' = s" "n_log n' = l" "n_snapshot n' = n_snapshot n" "n_election n' = n_election n"
      "n_id n' = n_id n" "n_members n' = n_members n" "n_replication n' = (if role s = LEADER then n_replication n else None)"
    using append_fields [OF step' [unfolded a]] .
  have h: "s = n_state n" "l = n_log n" "a = \<lparr>aer_term = current_term (n_state n), aer_success = False\<rparr>"
    using F(1) stale by (auto simp: handle_append_entries_def)
  then show "r = Ok \<lparr>aer_term = current_term (n_state n), aer_success = False\<rparr>" using a by simp
  have "repl_kept n n'" by (rule repl_kept_same) (use F h in simp_all)
  then show "node_rel members P i n'"
    by (intro node_rel_quiet [OF rel inv ok]) (use F h in simp_all)
qed

lemma follower_rel:
  assumes rel: "node_rel members P i n" and inv: "proto_inv (set members) P" "i \<in> set members"
    and T: "current_term (n_state n) \<le> T" "p_base P T \<noteq> None" and m: "m \<le> length (p_llog P T)"
    and n': "node_ok n'" "n_id n' = n_id n" "n_members n' = n_members n" "n_replication n' = None"
      "role (n_state n') = FOLLOWER" "current_term (n_state n') = T"
    and log: "log_abs (synced m (p_llog P T) (p_log P i)) (n_log n')"
      "snapshot_state (n_snapshot n') =
         run_commands (take (nat (base_index (n_log n'))) (synced m (p_llog P T) (p_log P i))) []"
    and c: "nat (commit_index (n_state n')) = nat (commit_index (n_state n)) \<or>
      nat (commit_index (n_state n')) \<le> m \<and> committed P T (nat (commit_index (n_state n'))) (p_llog P T)"
  obtains P' where "local_run members i P P' n'" "(i, T, m) \<in> p_acks P'"
proof -
  note R = node_relD [OF rel]
  let ?c = "nat (commit_index (n_state n'))"
  have "p_term P i \<le> T" "?c = p_commit P i \<or> ?c \<le> m \<and> committed P T ?c (p_llog P T)" using T(1) R(4,7) c by simp_all
  from follower_run [OF inv this(1) T(2) m this(2)]
  obtain P' where P': "(proto_step (set members) i)\<^sup>*\<^sup>* P P'" "p_term P' i = T" "\<not> p_lead P' i"
    "p_log P' i = synced m (p_llog P T) (p_log P i)" "p_commit P' i = ?c" "p_base P' = p_base P" "p_llog P' = p_llog P"
    "(i, T, m) \<in> p_acks P'" by blast
  have "node_rel members P' i n'"
    unfolding node_rel_def P'(4) using R(2,3) n' log P'(2,3,5) by simp
  then show thesis using P' by (intro that) (simp_all add: local_run_def)
qed

lemma append_run:
  assumes rel: "node_rel members P i n" and inv: "proto_inv (set members) P" "i \<in> set members"
    and q: "append_ok P q" "contiguous 0 (p_llog P (ae_term q))" and step: "node_append_entries c q n = (n', r)"
  obtains P' a where "local_run members i P P' n'" "r = Ok a"
    "aer_success a \<Longrightarrow> (i, ae_term q, request_reach (AppendRequest q)) \<in> p_acks P'"
proof (cases "ae_term q < current_term (n_state n)")
  case True
  show thesis
    by (rule that [OF local_run_refl [OF stale_run(1) [OF rel inv True step]] stale_run(2) [OF rel inv True step]]) simp
next
  case False
  then have now: "current_term (n_state n) \<le> ae_term q" by simp
  let ?T = "ae_term q" and ?prev = "ae_prev_log_index q" and ?lg = "p_log P i"
  let ?L = "p_llog P ?T" and ?m = "nat ?prev + length (ae_entries q)"
  note R = node_relD [OF rel]
  have wf: "node_wf n" "node_durable n" using R(1) by (simp_all add: node_ok_def)
  note D = data_wfD [OF node_wf_data [OF wf(1)]]
  note A = log_absD [OF R(6)]
  have W: "wf_append_request q" by (rule append_ok_wf [OF q])
  have agree: "agrees_committed q (n_state n) (n_log n)" by (rule append_agrees [OF rel inv q now])
  have ok: "node_ok n'" using handlers_ok(2) [OF R(1) W agree, of c] step by simp
  obtain a where a: "r = Ok a"
    using node_append_entries_keeps [OF step wf W agree] by (auto simp: is_ok_iff)
  obtain s l store where h: "handle_append_entries q (n_state n) (n_log n) (Some (n_store n)) = ((s, l, store), Ok a)"
    and n': "n_state n' = s" "n_log n' = l" "n_snapshot n' = n_snapshot n" "n_election n' = n_election n"
      "n_id n' = n_id n" "n_members n' = n_members n" "n_replication n' = (if role s = LEADER then n_replication n else None)"
    using append_fields [OF step [unfolded a]] .
  note F = handle_append_entries_frame [OF h]
  have foll: "role s = FOLLOWER" "current_term s = ?T" "n_replication n' = None" using F(3,5) now n'(7) by simp_all
  from h show thesis
  proof (cases rule: handle_append_entries_cases)
    case stale
    then show thesis using now by simp
  next
    case refused
    have kept: "repl_kept n n'" by (rule repl_kept_same) (use n' refused in simp_all)
    have D: "role (n_state n') = FOLLOWER" "current_term (n_state n) \<le> current_term (n_state n')"
        "commit_index (n_state n') = commit_index (n_state n)"
      using foll now n'(1) become_follower_OkD(7) [OF refused(2)] by simp_all
    note S = node_rel_step_down [OF rel inv ok kept n'(5,6) D refl]
    show thesis by (rule that [OF local_run_step [OF S] a]) (use refused(6) in simp_all)
  next
    case (sync_error e)
    then show thesis by simp
  next
    case no_store
    then show thesis by simp
  next
    case (committed s1 st store' u)
    have Q: "p_base P ?T \<noteq> None" "0 \<le> ?prev" "?m \<le> length ?L" "ae_entries q = drop (nat ?prev) (take ?m ?L)"
        "ae_prev_log_term q = final_term (take (nat ?prev) ?L)" "nat (ae_leader_commit q) \<le> ?m"
        "committed P ?T (nat (ae_leader_commit q)) ?L"
      using q(1) by (simp_all add: append_ok_def Let_def)
    note C = append_request_contiguous [OF q]
    have range: "base_index (n_log n) \<le> ?prev" "?prev \<le> last_index (n_log n)"
      using term_at_range [OF D(1) committed(4)] by simp_all
    have len: "?prev \<le> int (length ?lg)" using range(2) log_abs_last [OF R(6)] by simp
    have "member_ok P i" by (rule proto_invD(2) [OF inv])
    then have g: "grounded P ?lg" by (simp add: member_ok_def wf_plog_def)
    have gL: "grounded P ?L" using wf_plog_llog [OF inv(1) Q(1)] by (simp add: wf_plog_def)
    have prev: "take (nat ?prev) ?lg = take (nat ?prev) ?L"
    proof (rule prefix_by_term [OF g gL])
      show "final_term (take (nat ?prev) ?lg) = final_term (take (nat ?prev) ?L)"
        using committed(4) log_abs_term [OF R(6)] Q(5) by (simp split: if_splits)
    qed (use len Q(3) in simp_all)
    have l: "l = repaired ?prev (ae_entries q) (n_log n)"
      using sync_entries_repaired [OF D(1) C range] committed(5) by simp
    have la: "log_abs (synced ?m ?L ?lg) l"
      unfolding l by (rule repaired_abs [OF R(6) g gL q(2) range(1) len prev refl Q(3,4) C])
    have base: "base_index (n_log n') = base_index (n_log n)" using n'(2) l by simp
    have "take (nat (base_index (n_log n))) (synced ?m ?L ?lg) = take (nat (base_index (n_log n))) ?lg"
    proof -
      have k: "nat (base_index (n_log n)) \<le> nat ?prev" using range(1) by simp
      have "take (nat (base_index (n_log n))) ?L = take (nat (base_index (n_log n))) ?lg"
        by (rule take_eq_shorter [OF prev [symmetric] k])
      then show ?thesis using synced_take [OF Q(3)] k by simp
    qed
    then have snap: "snapshot_state (n_snapshot n') =
        run_commands (take (nat (base_index (n_log n'))) (synced ?m ?L ?lg)) []"
      using n'(3) base R(8) by simp
    have "commit_index s = commit_index s1 \<or> commit_index s \<le> ae_leader_commit q"
      using committed(8) by (auto simp: update_follower_commit_def dest: apply_committed_fields split: if_splits)
    then have com: "nat (commit_index (n_state n')) = nat (commit_index (n_state n)) \<or>
        nat (commit_index (n_state n')) \<le> ?m \<and> committed P ?T (nat (commit_index (n_state n'))) ?L"
    proof
      assume "commit_index s \<le> ae_leader_commit q"
      then have le: "nat (commit_index s) \<le> nat (ae_leader_commit q)" by simp
      have "nat (commit_index s) \<le> ?m" by (rule order_trans [OF le Q(6)])
      then show ?thesis using committed_le [OF Q(7) le] n'(1) by simp
    qed (use become_follower_OkD(7) [OF committed(2)] n'(1) in simp)
    obtain P' where "local_run members i P P' n'" "(i, ?T, ?m) \<in> p_acks P'"
      by (rule follower_rel [OF rel inv now Q(1,3) ok n'(5,6) foll(3) _ _ _ snap com])
         (use foll n' la in simp_all)
    then show thesis using a by (intro that [of P' a]) simp_all
  qed
qed

section \<open>InstallSnapshot\<close>

text \<open>The log cut at the boundary is \<open>synced\<close> on the whole log.\<close>

lemma boundary_abs:
  assumes la: "log_abs lg l" and g: "grounded P lg" "grounded P L" and L: "contiguous 0 L"
    and k: "0 \<le> k" "nat k \<le> length L" "t = final_term (take (nat k) L)" "0 \<le> t"
    and step: "install_snapshot_boundary k t l = Ok l'" and wf: "wf_log l'"
  shows "log_abs (synced (nat k) L lg) l'"
proof -
  note A = log_absD [OF la]
  note G = install_snapshot_boundary_get [OF A(1) k(4) step]
  show ?thesis
  proof (cases "term_at k l = Some t")
    case True
    have in_lg: "nat k \<le> length lg" "final_term (take (nat k) lg) = t"
      using True log_abs_term [OF la, of k] by (simp_all split: if_splits)
    have same: "take (nat k) lg = take (nat k) L"
      by (rule prefix_by_term [OF g in_lg(1) k(2)]) (use in_lg(2) k(3) in simp)
    have "log_abs lg l'"
      using A(2) G True in_lg log_abs_last [OF la] log_abs_get [OF la] k(1)
      by (intro log_absI [OF wf]) (simp_all add: nat_le_iff)
    then show ?thesis using same by (simp add: synced_def)
  next
    case False
    have "take (nat k) lg \<noteq> take (nat k) L"
    proof
      assume same: "take (nat k) lg = take (nat k) L"
      have "nat k \<le> length lg" using same k(2) take_eq_length by blast
      then show False using False G(5) log_abs_term [OF la, of k] same k(1,3) by (simp add: nat_le_iff)
    qed
    moreover have "log_abs (take (nat k) L) l'"
      using G False k contiguous_take [OF L] by (intro log_absI [OF wf]) simp_all
    ultimately show ?thesis by (simp add: synced_def)
  qed
qed

lemma install_run:
  assumes rel: "node_rel members P i n" and inv: "proto_inv (set members) P" "i \<in> set members"
    and q: "install_ok P q" "contiguous 0 (p_llog P (is_term q))" and step: "node_install_snapshot c q n = (n', r)"
  obtains P' a where "local_run members i P P' n'" "r = Ok a"
    "isr_success a \<Longrightarrow> (i, is_term q, request_reach (SnapshotRequest q)) \<in> p_acks P'"
proof -
  let ?T = "is_term q" and ?k = "is_last_included_index q" and ?t = "is_last_included_term q" and ?lg = "p_log P i"
  let ?L = "p_llog P ?T"
  note R = node_relD [OF rel]
  have wf: "node_wf n" using R(1) by (simp add: node_ok_def)
  note D = data_wfD [OF node_wf_data [OF wf]]
  have Q: "p_base P ?T \<noteq> None" "0 \<le> ?k" "nat ?k \<le> length ?L" "?t = final_term (take (nat ?k) ?L)" "0 \<le> ?t"
      "is_state q = run_commands (take (nat ?k) ?L) []" "committed P ?T (nat ?k) ?L"
    using q(1) by (simp_all add: install_ok_def Let_def)
  have W: "wf_install_request q" using Q(4) by (simp add: wf_install_request_def final_term_def)
  have ok: "node_ok n'" using handlers_ok(3) [OF R(1) W, of c] step by simp
  from step wf W show thesis
  proof (cases rule: node_install_snapshot_cases)
    case stale
    show thesis
      by (rule that [of P, OF _ stale(3)]) (use stale(2) rel in \<open>simp_all add: local_run_refl\<close>)
  next
    case (unchanged s m)
    note B = become_follower_OkD [OF unchanged(1)]
    have n': "n_state n' = s" "n_log n' = n_log n" "n_snapshot n' = n_snapshot n" "n_id n' = n_id n"
        "n_members n' = n_members n" "n_replication n' = None" "n_election n' = n_election n"
      using unchanged(2,3) by (auto simp: persist_new_term_def)
    show thesis
    proof (cases "?k < last_included_index (n_snapshot n)")
      case False
      have kept: "repl_kept n n'" by (rule repl_kept_same) (use n' in simp_all)
      have st: "role (n_state n') = FOLLOWER" "current_term (n_state n) \<le> current_term (n_state n')"
          "commit_index (n_state n') = commit_index (n_state n)" using n'(1) B by simp_all
      note S = node_rel_step_down [OF rel inv ok kept n'(4,5) st refl]
      show thesis by (rule that [OF local_run_step [OF S] unchanged(4)]) (use False in simp_all)
    next
      case True
      have le: "nat ?k \<le> p_commit P i" using True D(5,7) R(7) by simp
      have same: "take (nat ?k) ?lg = take (nat ?k) ?L"
        by (rule take_eq_shorter [OF commit_in_llog(1) [OF rel inv B(1) Q(1)] le])
      then have lg: "synced (nat ?k) ?L ?lg = ?lg" by (simp add: synced_def)
      obtain P' where "local_run members i P P' n'" "(i, ?T, nat ?k) \<in> p_acks P'"
        by (rule follower_rel [OF rel inv B(1) Q(1,3) ok n'(4,5,6)]) (use B n' R(6,8) lg in simp_all)
      then show thesis by (intro that [of P', OF _ unchanged(4)]) simp_all
    qed
  next
    case (installed s sn l s' store dsk)
    note B = become_follower_OkD [OF installed(1)]
    have n': "n_state n' = s'" "n_log n' = l" "n_snapshot n' = sn" "n_id n' = n_id n"
        "n_members n' = n_members n" "n_replication n' = None"
      using installed(9) by (simp_all add: Let_def)
    have "member_ok P i" by (rule proto_invD(2) [OF inv])
    then have g: "grounded P ?lg" by (simp add: member_ok_def wf_plog_def)
    have gL: "grounded P ?L" using wf_plog_llog [OF inv(1) Q(1)] by (simp add: wf_plog_def)
    have "wf_log l" by (rule data_wfD(1) [OF installed(6)])
    note la = boundary_abs [OF R(6) g gL q(2) Q(2-5) installed(3) this]
    have base: "base_index l = ?k" by (rule install_snapshot_boundary_get(3) [OF D(1) Q(5) installed(3)])
    have snap: "snapshot_state (n_snapshot n') =
        run_commands (take (nat (base_index (n_log n'))) (synced (nat ?k) ?L ?lg)) []"
      using raft_snapshot_OkD [OF installed(2)] Q(6) base n'(2,3) synced_take [OF Q(3) order_refl] by simp
    have "commit_index s' = commit_index (n_state n) \<or> commit_index s' = ?k"
      using installed(5) B(7) by (auto simp: max_def)
    then have com: "nat (commit_index (n_state n')) = nat (commit_index (n_state n)) \<or>
        nat (commit_index (n_state n')) \<le> nat ?k \<and> committed P ?T (nat (commit_index (n_state n'))) ?L"
      using Q(7) n'(1) by auto
    obtain P' where "local_run members i P P' n'" "(i, ?T, nat ?k) \<in> p_acks P'"
      by (rule follower_rel [OF rel inv B(1) Q(1,3) ok n'(4,5,6) _ _ _ snap com])
         (use B n' la installed(5) in simp_all)
    then show thesis by (intro that [of P', OF _ installed(10)]) simp_all
  qed
qed

end
