(* ===== verification/SystemSafety.thy ===== *)
theory SystemSafety
  imports SystemReplication
begin

text \<open>
  Every step of the system is a run of protocol steps, so every reachable system stands in the
  relation of the theory SystemRefinement to a protocol state with the protocol's invariant. What a
  client of the group relies on follows: the nodes agree on what is committed, and it stays.
\<close>

section \<open>The simulation\<close>

lemma system_rel_start:
  assumes "system_init members S"
  shows "system_rel members S proto_start"
proof -
  have D: "distinct members" using assms by (simp add: system_init_def)
  have node: "node_rel members proto_start i (nodes (group S) i)" if i: "i \<in> set members" for i
  proof -
    obtain c dsk dsk' where dsk: "dsk = None \<or> dsk = Some empty_disk"
        and init: "node_init c i members dsk = (dsk', Ok (nodes (group S) i))"
      using assms i unfolding system_init_def by blast
    note N = start_state [OF D dsk init]
    have "node_ok (nodes (group S) i)"
      by (rule start_ok(1) [OF D dsk init])
    then show ?thesis
      using N by (simp add: node_rel_def proto_start_def log_abs_def final_term_def empty_log_def
          wf_log_def contiguous_def)
  qed
  have "reachable members (group S)" by (rule reachable.init [OF system_init_cluster [OF assms]])
  then show ?thesis
    using assms node proto_inv_start by (simp add: system_rel_def system_init_def proto_start_def)
qed

lemma system_rel_send:
  assumes rel: "system_rel members S P" and i: "i \<in> set members"
    and step: "worker_build f (nodes (group S) i) = Ok (Some req)"
  shows "system_rel members (S\<lparr>sent := insert (f, req) (sent S)\<rparr>) P"
proof -
  note R = system_relD [OF rel]
  have "request_ok P req" by (rule send_ok [OF R(3) [OF i] R(2) i step])
  then show ?thesis using rel by (auto simp: system_rel_def)
qed

text \<open>A step of a node alone, which is a run of protocol steps of that member.\<close>

lemma node_simulated:
  assumes rel: "system_rel members S P" and i: "i \<in> set members"
    and step: "system_step members S (S\<lparr>group := put_node i n (group S)\<rparr>)"
    and run: "\<And>thesis. (\<And>P'. local_run members i P P' n \<Longrightarrow> thesis) \<Longrightarrow> thesis"
  shows "\<exists>P'. (\<exists>i. (proto_step (set members) i)\<^sup>*\<^sup>* P P') \<and> system_rel members (S\<lparr>group := put_node i n (group S)\<rparr>) P'"
proof -
  obtain P' where P': "local_run members i P P' n" by (rule run)
  then have "(proto_step (set members) i)\<^sup>*\<^sup>* P P'" by (simp add: local_run_def)
  then show ?thesis using system_rel_node [OF rel i P' step] by blast
qed

lemma system_step_simulated:
  assumes rel: "system_rel members S P" and step: "system_step members S S'"
  shows "\<exists>P'. (\<exists>i. (proto_step (set members) i)\<^sup>*\<^sup>* P P') \<and> system_rel members S' P'"
proof -
  note R = system_relD [OF rel]
  have D: "distinct members"
    using reachable_inv [OF R(1)] by (simp add: cluster_inv_def)
  from step show ?thesis
  proof cases
    case (tick i c n r)
    obtain P' where P': "local_run members i P P' n" "\<And>p q. (p, q) \<in> ok_requests r \<Longrightarrow> vote_request_ok P' q"
      by (rule tick_run [OF R(3) [OF tick(2)] R(2) tick(2) D tick(3)]) blast
    have "system_rel members S' P'"
      by (rule system_rel_put [OF rel tick(2) P'(1) step, where C = "(group S)\<lparr>vote_requests :=
        vote_requests (group S) \<union> ok_requests r\<rparr>"]) (use tick(1) P'(2) in auto)
    then show ?thesis using P'(1) unfolding local_run_def by blast
  next
    case (vote j q c n a)
    obtain P' where P': "local_run members j P P' n"
        "rvr_vote_granted a \<Longrightarrow> vote_recorded P' j (rv_term q) (rv_candidate_id q)"
      by (rule vote_run [OF R(3) [OF vote(2)] R(2) vote(2) R(4) [OF vote(3)] vote(4)]) blast
    have "system_rel members S' P'"
      by (rule system_rel_put [OF rel vote(2) P'(1) step, where C = "(group S)\<lparr>vote_replies :=
        insert (j, q, a) (vote_replies (group S))\<rparr>"]) (use vote(1) P'(2) in auto)
    then show ?thesis using P'(1) unfolding local_run_def by blast
  next
    case (tally i j q a n r)
    have "reachable members (group S')"
      using system_step_cluster [OF step] R(1) reachable.step by auto
    note L = leaders_record [OF this tally(2)] leaders_unique [OF this]
    have unique: "d = i" if "role (n_state n) = LEADER" "p_base P (current_term (n_state n)) = Some (d, b)" for d b
    proof -
      have "(current_term (n_state n), d) \<in> leaders (group S')"
        using R(10) [OF that(2)] tally(1) by (simp add: put_node_def)
      moreover have "(current_term (n_state n), i) \<in> leaders (group S')"
        using that(1) tally(1) by (simp add: put_node_def leads_def)
      ultimately show ?thesis using L(2) by blast
    qed
    show ?thesis
      unfolding tally(1)
      by (rule node_simulated [OF rel tally(2) step [unfolded tally(1)]],
          rule tally_run [OF R(3) [OF tally(2)] R(2) tally(2) tally(4) _ tally(5)])
         (use R(5) [OF tally(3)] tally(4) unique in blast)+
  next
    case (tally_failure i j q e n r)
    have "n = nodes (group S) i" using tally_failure(3) by (auto simp: tick_response_def split: if_splits)
    then show ?thesis
      unfolding tally_failure(1)
      using R(3) [OF tally_failure(2)] local_run_refl
      by (intro node_simulated [OF rel tally_failure(2) step [unfolded tally_failure(1)]]) metis
  next
    case (start_replication i n r)
    show ?thesis
      unfolding start_replication(1)
      by (rule node_simulated [OF rel start_replication(2) step [unfolded start_replication(1)]],
          rule start_replication_run [OF R(3) [OF start_replication(2)] R(2) start_replication(2,3)])
  next
    case (send i f req)
    show ?thesis
      unfolding send(1) using system_rel_send [OF rel send(2,3)] by blast
  next
    case (append j q c n r)
    have q: "append_ok P q" using R(6) [OF append(3)] by simp
    have L: "contiguous 0 (p_llog P (ae_term q))" using q R(9) by (simp add: append_ok_def Let_def)
    obtain P' a where P': "local_run members j P P' n" "r = Ok a"
        "aer_success a \<Longrightarrow> (j, ae_term q, request_reach (AppendRequest q)) \<in> p_acks P'"
      by (rule append_run [OF R(3) [OF append(2)] R(2) append(2) q L append(4)]) blast
    have "grows P P'" using P'(1) proto_steps_inv [OF _ R(2)] unfolding local_run_def by blast
    then have "append_ok P' q" using grows_append_ok [OF R(2) _ q] by blast
    then have "system_rel members S' P'"
      by (intro system_rel_put [OF rel append(2) P'(1) step, where C = "group S"]) (use append(1) P'(2,3) in auto)
    then show ?thesis using P'(1) unfolding local_run_def by blast
  next
    case (install j q c n r)
    have q: "install_ok P q" using R(6) [OF install(3)] by simp
    have L: "contiguous 0 (p_llog P (is_term q))" using q R(9) by (simp add: install_ok_def Let_def)
    obtain P' a where P': "local_run members j P P' n" "r = Ok a"
        "isr_success a \<Longrightarrow> (j, is_term q, request_reach (SnapshotRequest q)) \<in> p_acks P'"
      by (rule install_run [OF R(3) [OF install(2)] R(2) install(2) q L install(4)]) blast
    have "grows P P'" using P'(1) proto_steps_inv [OF _ R(2)] unfolding local_run_def by blast
    then have "install_ok P' q" using grows_install_ok [OF R(2) _ q] by blast
    then have "system_rel members S' P'"
      by (intro system_rel_put [OF rel install(2) P'(1) step, where C = "group S"]) (use install(1) P'(2,3) in auto)
    then show ?thesis using P'(1) unfolding local_run_def by blast
  next
    case (progress i f req t success n r)
    have q: "request_ok P req" by (rule R(7) [OF progress(3)])
    then have "p_base P (request_term req) \<noteq> None"
      by (cases req) (simp_all add: append_ok_def install_ok_def Let_def)
    then have L: "contiguous 0 (p_llog P (request_term req))" by (rule R(9))
    show ?thesis
      unfolding progress(1)
      by (rule node_simulated [OF rel progress(2) step [unfolded progress(1)]],
          rule progress_run [OF R(3) [OF progress(2)] R(2) progress(2) q R(8) [OF progress(3)] L progress(5)])
  next
    case (commit i n r)
    show ?thesis
      unfolding commit(1)
      by (rule node_simulated [OF rel commit(2) step [unfolded commit(1)]],
          rule commit_run [OF R(3) [OF commit(2)] R(2) commit(2,3)])
  next
    case (submit i cs n r)
    show ?thesis
      unfolding submit(1)
      by (rule node_simulated [OF rel submit(2) step [unfolded submit(1)]],
          rule submit_run [OF R(3) [OF submit(2)] R(2) submit(2,3)])
  next
    case (snapshot i n r)
    show ?thesis
      unfolding snapshot(1)
      by (rule node_simulated [OF rel snapshot(2) step [unfolded snapshot(1)]])
         (use local_run_refl [OF snapshot_run [OF R(3) [OF snapshot(2)] snapshot(3)]] in blast)
  next
    case (timeout i tn n r)
    show ?thesis
      unfolding timeout(1)
      by (rule node_simulated [OF rel timeout(2) step [unfolded timeout(1)]],
          rule timeout_run [OF R(3) [OF timeout(2)] R(2) timeout(2,3)])
  next
    case (transfer i t response n r)
    show ?thesis
      unfolding transfer(1)
      by (rule node_simulated [OF rel transfer(2) step [unfolded transfer(1)]],
          rule transfer_run [OF R(3) [OF transfer(2)] R(2) transfer(2,3)])
  next
    case (read i t now b n r)
    show ?thesis
      unfolding read(1)
      by (rule node_simulated [OF rel read(2) step [unfolded read(1)]],
          rule read_run [OF R(3) [OF read(2)] R(2) read(2,3)])
  next
    case (transfer_flag i n b)
    show ?thesis
      unfolding transfer_flag(1)
      by (rule node_simulated [OF rel transfer_flag(2) step [unfolded transfer_flag(1)]],
          rule quiet_run [where n' = n, OF R(3) [OF transfer_flag(2)] R(2) transfer_flag(2)])
         (use node_relD(1) [OF R(3) [OF transfer_flag(2)]] transfer_flag(3) in \<open>simp_all add: repl_kept_same\<close>)
  next
    case (observer i n obs)
    show ?thesis
      unfolding observer(1)
      by (rule node_simulated [OF rel observer(2) step [unfolded observer(1)]],
          rule quiet_run [where n' = n, OF R(3) [OF observer(2)] R(2) observer(2)])
         (use node_ok_same [OF node_relD(1) [OF R(3) [OF observer(2)]], of n] observer(3) in \<open>simp_all add: repl_kept_same set_observer_def\<close>)
  next
    case (restart i d c dsk n)
    show ?thesis
      unfolding restart(1)
      by (rule node_simulated [OF rel restart(2) step [unfolded restart(1)]],
          rule restart_run [OF R(3) [OF restart(2)] R(2) restart(2,3,4)])
  qed
qed

interpretation protocol: forward_simulation "system_init members" "system_step members" "\<lambda>P. P = proto_start"
    "\<lambda>P P'. \<exists>i. proto_step (set members) i P P'" "system_rel members" for members
proof
  show "\<exists>P. P = proto_start \<and> system_rel members S P" if "system_init members S" for S
    using system_rel_start [OF that] by blast
  show "\<exists>P'. (\<lambda>P P'. \<exists>i. proto_step (set members) i P P')\<^sup>*\<^sup>* P P' \<and> system_rel members S' P'"
    if run: "system_rel members S P" "system_step members S S'" for S P S'
  proof -
    obtain P' i where "(proto_step (set members) i)\<^sup>*\<^sup>* P P'" "system_rel members S' P'"
      using system_step_simulated [OF run] by blast
    moreover have "(proto_step (set members) i)\<^sup>*\<^sup>* P P' \<longrightarrow> (\<lambda>P P'. \<exists>i. proto_step (set members) i P P')\<^sup>*\<^sup>* P P'"
      by (rule mono_rtranclp) blast
    ultimately show ?thesis by blast
  qed
qed

section \<open>What the invariant gives\<close>

lemma group_run:
  assumes "(\<lambda>P P'. \<exists>i. proto_step M i P P')\<^sup>*\<^sup>* P P'" "proto_inv M P"
  shows "grows P P'"
  using assms(1)
proof (induction rule: rtranclp_induct)
  case (step Q R)
  then obtain i where i: "proto_step M i Q R" by blast
  have "(\<lambda>P P'. \<exists>i. proto_step M i P P')\<^sup>*\<^sup>* P Q \<Longrightarrow> proto_inv M Q"
    by (induction rule: rtranclp_induct) (use assms(2) proto_step_inv in blast)+
  then have "grows Q R" using proto_step_grows [OF _ i] step.hyps(1) by blast
  then show ?case using grows_trans [OF step.IH] by blast
qed simp

lemma reachable_related:
  assumes "system_reachable members S"
  obtains P where "system_rel members S P"
proof -
  obtain S0 where S0: "system_init members S0" "(system_step members)\<^sup>*\<^sup>* S0 S"
    using assms by (auto simp: system_reachable_def)
  show thesis using protocol.simulate_reachable [OF S0] that by blast
qed

lemma run_related:
  assumes "system_rel members S P" "(system_step members)\<^sup>*\<^sup>* S S'"
  obtains P' where "system_rel members S' P'" "grows P P'"
proof -
  obtain P' where P': "(\<lambda>P P'. \<exists>i. proto_step (set members) i P P')\<^sup>*\<^sup>* P P'" "system_rel members S' P'"
    using protocol.simulate_run [OF assms(2,1)] by blast
  show thesis using that [OF P'(2)] group_run [OF P'(1)] system_relD(2) [OF assms(1)] by blast
qed

lemma system_reachable_steps:
  "system_reachable members S \<Longrightarrow> (system_step members)\<^sup>*\<^sup>* S S' \<Longrightarrow> system_reachable members S'"
  unfolding system_reachable_def by (meson rtranclp_trans)

text \<open>A member's committed prefix, within its log.\<close>

lemma member_committed:
  assumes rel: "system_rel members S P" and i: "i \<in> set members"
  shows "committed P (p_term P i) (p_commit P i) (p_log P i)" "p_commit P i \<le> length (p_log P i)"
proof -
  note R = system_relD [OF rel]
  note N = node_relD [OF R(3) [OF i]]
  show "committed P (p_term P i) (p_commit P i) (p_log P i)"
    using proto_invD(2) [OF R(2) i] by (simp add: member_ok_def)
  have "node_wf (nodes (group S) i)" using N(1) by (simp add: node_ok_def)
  then show "p_commit P i \<le> length (p_log P i)"
    using data_wfD(8) [OF node_wf_data] log_abs_last [OF N(6)] N(7) by fastforce
qed

text \<open>Prefixes that are committed are prefixes of one list.\<close>

lemma common_history:
  assumes inv: "proto_inv M P" and A: "finite A"
    and com: "\<And>T c lg. (T, c, lg) \<in> A \<Longrightarrow> committed P T c lg \<and> c \<le> length lg"
  shows "\<exists>h. \<forall>(T, c, lg) \<in> A. c \<le> length h \<and> take c lg = take c h"
proof (cases "A = {}")
  case False
  let ?C = "(\<lambda>(T, c, lg). c) ` A"
  have fin: "finite ?C" "?C \<noteq> {}" using A False by auto
  obtain T c lg where x: "(T, c, lg) \<in> A" "c = Max ?C" using Max_in [OF fin] by auto
  have "d \<le> length lg \<and> take d b = take d lg" if y: "(U, d, b) \<in> A" for U d b
  proof -
    have le: "d \<le> c" using Max_ge [OF fin(1), of d] y x(2) by force
    have "take d b = take d lg"
      by (rule committed_agree [OF inv _ _ order_refl le]) (use com [OF y] com [OF x(1)] in blast)+
    then show ?thesis using le com [OF x(1)] by simp
  qed
  then show ?thesis by (intro exI [of _ lg]) blast
qed auto

section \<open>One history\<close>

text \<open>
  The specification of the group: there is one list of entries, and every node has in its store, and
  in what it retains of its log, the effect of a prefix of it.
\<close>

definition follows_history :: "log_entry list \<Rightarrow> raft_node \<Rightarrow> bool" where
  "follows_history h n =
     (nat (commit_index (n_state n)) \<le> length h \<and>
      n_store n = run_commands (take (nat (commit_index (n_state n))) h) [] \<and>
      (\<forall>k. base_index (n_log n) < k \<longrightarrow> k \<le> commit_index (n_state n) \<longrightarrow> log_get k (n_log n) = Some (h ! (nat k - 1))))"

lemma node_follows:
  assumes rel: "system_rel members S P" and i: "i \<in> set members"
    and h: "p_commit P i \<le> length h" "take (p_commit P i) (p_log P i) = take (p_commit P i) h"
  shows "follows_history h (nodes (group S) i)"
proof -
  let ?n = "nodes (group S) i"
  note R = node_relD [OF system_relD(3) [OF rel i]]
  note C = member_committed [OF rel i]
  have "log_get k (n_log ?n) = Some (h ! (nat k - 1))"
    if k: "base_index (n_log ?n) < k" "k \<le> commit_index (n_state ?n)" for k
  proof -
    have "0 < k" using k(1) log_absD(3) [OF R(6)] by simp
    then have j: "nat k - 1 < p_commit P i" using k(2) R(7) by linarith
    have "k \<le> int (length (p_log P i))" using k(2) R(7) C(2) by linarith
    moreover have "p_log P i ! (nat k - 1) = h ! (nat k - 1)" using h(2) j by (metis nth_take)
    ultimately show ?thesis using k(1) log_abs_get [OF R(6), of k] by simp
  qed
  then show ?thesis
    using h R(7) node_store [OF system_relD(3) [OF rel i]] by (simp add: follows_history_def)
qed

text \<open>Now and at any later time, together with any prefix that is committed by then.\<close>

lemma history_with:
  assumes P: "system_rel members S P" and P': "system_rel members S' P'" and g: "grows P P'"
    and c: "committed P' T c lg" "c \<le> length lg"
  shows "\<exists>h. c \<le> length h \<and> take c lg = take c h \<and>
    (\<forall>i \<in> set members. follows_history h (nodes (group S) i) \<and> follows_history h (nodes (group S') i))"
proof -
  let ?A = "insert (T, c, lg) ((\<lambda>i. (p_term P i, p_commit P i, p_log P i)) ` set members \<union>
    (\<lambda>i. (p_term P' i, p_commit P' i, p_log P' i)) ` set members)"
  have "committed P' U d b \<and> d \<le> length b" if x: "(U, d, b) \<in> ?A" for U d b
  proof -
    from x consider "U = T" "d = c" "b = lg" | i where "i \<in> set members" "U = p_term P i" "d = p_commit P i" "b = p_log P i"
      | i where "i \<in> set members" "U = p_term P' i" "d = p_commit P' i" "b = p_log P' i" by auto
    then show ?thesis
    proof cases
      case 1
      then show ?thesis using c by simp
    next
      case 2
      then show ?thesis
        using member_committed [OF P 2(1)] grows_committed [OF system_relD(2) [OF P] g _ order_refl] by simp
    next
      case 3
      then show ?thesis using member_committed [OF P' 3(1)] by simp
    qed
  qed
  then obtain h where h: "\<forall>(U, d, b) \<in> ?A. d \<le> length h \<and> take d b = take d h"
    using common_history [OF system_relD(2) [OF P'], of ?A] by auto
  have "follows_history h (nodes (group S) i) \<and> follows_history h (nodes (group S') i)" if i: "i \<in> set members" for i
  proof -
    have "(p_term P i, p_commit P i, p_log P i) \<in> ?A" "(p_term P' i, p_commit P' i, p_log P' i) \<in> ?A" using i by auto
    from bspec [OF h this(1)] bspec [OF h this(2)] show ?thesis
      using node_follows [OF P i, of h] node_follows [OF P' i, of h] by simp
  qed
  moreover have "c \<le> length h \<and> take c lg = take c h" using bspec [OF h, of "(T, c, lg)"] by simp
  ultimately show ?thesis by blast
qed

lemma history_of_run:
  assumes reach: "system_reachable members S" and run: "(system_step members)\<^sup>*\<^sup>* S S'"
  shows "\<exists>h. \<forall>i \<in> set members. follows_history h (nodes (group S) i) \<and> follows_history h (nodes (group S') i)"
proof -
  obtain P where P: "system_rel members S P" by (rule reachable_related [OF reach])
  obtain P' where P': "system_rel members S' P'" and g: "grows P P'" by (rule run_related [OF P run])
  have "committed P' 0 0 []" by (simp add: committed_def)
  then show ?thesis using history_with [OF P P' g] by blast
qed

text \<open>
  What a leader holds when it commits is part of that history, and an entry it has appended it holds
  as long as it leads the same term.
\<close>

lemma leader_entry_in_history:
  assumes reach: "system_reachable members S" and i: "i \<in> set members"
    and runs: "(system_step members)\<^sup>*\<^sup>* S S'" "(system_step members)\<^sup>*\<^sup>* S' S''"
    and lead: "role (n_state (nodes (group S) i)) = LEADER" "role (n_state (nodes (group S') i)) = LEADER"
      "current_term (n_state (nodes (group S') i)) = current_term (n_state (nodes (group S) i))"
    and e: "log_get k (n_log (nodes (group S) i)) = Some e" "k \<le> commit_index (n_state (nodes (group S') i))"
  shows "\<exists>h. nat k \<le> length h \<and> h ! (nat k - 1) = e \<and>
    (\<forall>j \<in> set members. follows_history h (nodes (group S') j) \<and> follows_history h (nodes (group S'') j))"
proof -
  obtain P where P: "system_rel members S P" by (rule reachable_related [OF reach])
  obtain P' where P': "system_rel members S' P'" and g: "grows P P'" by (rule run_related [OF P runs(1)])
  obtain P'' where P'': "system_rel members S'' P''" and g': "grows P' P''" by (rule run_related [OF P' runs(2)])
  note R = node_relD [OF system_relD(3) [OF P i]] and R' = node_relD [OF system_relD(3) [OF P' i]]
  let ?t = "p_term P i"
  have L: "p_base P ?t \<noteq> None" "p_log P i = p_llog P ?t"
    using proto_invD(2) [OF system_relD(2) [OF P] i] lead(1) R(5) by (auto simp: member_ok_def)
  have L': "p_log P' i = p_llog P' ?t"
    using proto_invD(2) [OF system_relD(2) [OF P'] i] lead(2,3) R(4) R'(4,5) by (auto simp: member_ok_def)
  have k: "base_index (n_log (nodes (group S) i)) < k" "k \<le> int (length (p_log P i))" "e = p_log P i ! (nat k - 1)"
    using e(1) log_abs_get [OF R(6), of k] by (auto split: if_splits)
  have pos: "0 < k" using k(1) log_absD(3) [OF R(6)] by simp
  have kth: "p_log P' i ! (nat k - 1) = e"
  proof -
    have "take (nat k) (p_llog P' ?t) = take (nat k) (p_llog P ?t)"
      by (rule grows_llog(2) [OF g L(1)]) (use k(2) L(2) in simp)
    moreover have "nat k - 1 < nat k" using pos by simp
    ultimately show ?thesis using k(3) L(2) L' by (metis nth_take)
  qed
  have C: "committed P'' (p_term P' i) (p_commit P' i) (p_log P' i)" "p_commit P' i \<le> length (p_log P' i)"
    using member_committed [OF P' i] grows_committed [OF system_relD(2) [OF P'] g' _ order_refl] by blast+
  obtain h where h: "p_commit P' i \<le> length h" "take (p_commit P' i) (p_log P' i) = take (p_commit P' i) h"
      "\<forall>j \<in> set members. follows_history h (nodes (group S') j) \<and> follows_history h (nodes (group S'') j)"
    using history_with [OF P' P'' g' C] by blast
  have kc: "nat k \<le> p_commit P' i" using e(2) R'(7) by linarith
  then have "nat k - 1 < p_commit P' i" using pos by simp
  then have "h ! (nat k - 1) = e" using h(2) kth by (metis nth_take)
  then show ?thesis using h(1,3) kc by (intro exI [of _ h]) simp
qed

section \<open>Leaders\<close>

text \<open>A leader has every entry that was committed in its term or before, unless it is in its snapshot.\<close>

lemma leader_has_committed:
  assumes reach: "system_reachable members S" and run: "(system_step members)\<^sup>*\<^sup>* S S'"
    and i: "i \<in> set members" and j: "j \<in> set members" "role (n_state (nodes (group S') j)) = LEADER"
      "current_term (n_state (nodes (group S) i)) \<le> current_term (n_state (nodes (group S') j))"
    and k: "k \<le> commit_index (n_state (nodes (group S) i))" "log_get k (n_log (nodes (group S) i)) = Some e"
  shows "k \<le> last_index (n_log (nodes (group S') j))"
    "base_index (n_log (nodes (group S') j)) < k \<Longrightarrow> log_get k (n_log (nodes (group S') j)) = Some e"
proof -
  obtain P where P: "system_rel members S P" by (rule reachable_related [OF reach])
  obtain P' where P': "system_rel members S' P'" and g: "grows P P'" by (rule run_related [OF P run])
  note R = node_relD [OF system_relD(3) [OF P i]] and R' = node_relD [OF system_relD(3) [OF P' j(1)]]
  note inv' = system_relD(2) [OF P']
  let ?c = "p_commit P i" and ?T = "p_term P' j"
  have com: "committed P' ?T ?c (p_log P i)"
    using grows_committed [OF system_relD(2) [OF P] g member_committed(1) [OF P i]] j(3) R(4) R'(4) by simp
  have "p_lead P' j" using j(2) R'(5) by simp
  then have b: "p_base P' ?T \<noteq> None" and L: "p_log P' j = p_llog P' ?T"
    using proto_invD(2) [OF inv' j(1)] by (auto simp: member_ok_def)
  note C = committed_llog [OF inv' com b, folded L]
  have pos: "0 < k" "e = p_log P i ! (nat k - 1)"
    using k(2) log_abs_get [OF R(6), of k] log_absD(3) [OF R(6)] by (auto split: if_splits)
  have kc: "nat k - 1 < ?c" "k \<le> int (length (p_log P' j))" using pos k(1) R(7) C(2) by linarith+
  have e: "e = p_log P' j ! (nat k - 1)" using pos(2) C(1) kc(1) by (metis nth_take)
  show "k \<le> last_index (n_log (nodes (group S') j))" using kc(2) log_abs_last [OF R'(6)] by simp
  show "log_get k (n_log (nodes (group S') j)) = Some e" if "base_index (n_log (nodes (group S') j)) < k"
    using that kc(2) e log_abs_get [OF R'(6), of k] by simp
qed

section \<open>Log matching\<close>

lemma logs_match:
  assumes reach: "system_reachable members S" and i: "i \<in> set members" and j: "j \<in> set members"
    and x: "log_get k (n_log (nodes (group S) i)) = Some x" "log_get k (n_log (nodes (group S) j)) = Some y"
      "entry_term x = entry_term y"
    and m: "m \<le> k" "base_index (n_log (nodes (group S) i)) < m" "base_index (n_log (nodes (group S) j)) < m"
  shows "log_get m (n_log (nodes (group S) i)) = log_get m (n_log (nodes (group S) j))"
proof -
  obtain P where P: "system_rel members S P" by (rule reachable_related [OF reach])
  note R = node_relD [OF system_relD(3) [OF P i]] and R' = node_relD [OF system_relD(3) [OF P j]]
  note inv = system_relD(2) [OF P]
  have g: "grounded P (p_log P i)" "grounded P (p_log P j)"
    using proto_invD(2) [OF inv i] proto_invD(2) [OF inv j] by (simp_all add: member_ok_def wf_plog_def)
  have pos: "0 < m" using m(2) log_absD(3) [OF R(6)] by simp
  have k: "k \<le> int (length (p_log P i))" "x = p_log P i ! (nat k - 1)" "k \<le> int (length (p_log P j))"
      "y = p_log P j ! (nat k - 1)"
    using x(1,2) log_abs_get [OF R(6), of k] log_abs_get [OF R'(6), of k] by (auto split: if_splits)
  have "nat k - 1 < length (p_log P i)" "nat k - 1 < length (p_log P j)" using k(1,3) pos m(1) by linarith+
  from log_matching [OF g this] x(3) k(2,4)
  have same: "take (Suc (nat k - 1)) (p_log P i) = take (Suc (nat k - 1)) (p_log P j)" by simp
  have "nat m - 1 < Suc (nat k - 1)" using m(1) pos by linarith
  then have "p_log P i ! (nat m - 1) = p_log P j ! (nat m - 1)" using same by (metis nth_take)
  then show ?thesis
    using m k(1,3) log_abs_get [OF R(6), of m] log_abs_get [OF R'(6), of m] by simp
qed

section \<open>The requests of leaders\<close>

text \<open>What \<open>NodeLife\<close> asks of a request, every request of a leader of the group has.\<close>

lemma sent_append_safe:
  assumes reach: "system_reachable members S" and q: "(f, AppendRequest q) \<in> sent S"
    and j: "j \<in> set members" "current_term (n_state (nodes (group S) j)) \<le> ae_term q"
  shows "wf_append_request q" "agrees_committed q (n_state (nodes (group S) j)) (n_log (nodes (group S) j))"
proof -
  obtain P where P: "system_rel members S P" by (rule reachable_related [OF reach])
  note R = system_relD [OF P]
  have ok: "append_ok P q" using R(6) [OF q] by simp
  then have L: "contiguous 0 (p_llog P (ae_term q))" using R(9) by (simp add: append_ok_def Let_def)
  show "wf_append_request q" by (rule append_ok_wf [OF ok L])
  show "agrees_committed q (n_state (nodes (group S) j)) (n_log (nodes (group S) j))"
    by (rule append_agrees [OF R(3) [OF j(1)] R(2) j(1) ok L j(2)])
qed

lemma sent_accepted:
  assumes reach: "system_reachable members S" and j: "j \<in> set members"
  shows "(f, AppendRequest q) \<in> sent S \<Longrightarrow> is_ok (snd (node_append_entries c q (nodes (group S) j)))"
    "(f, SnapshotRequest p) \<in> sent S \<Longrightarrow> is_ok (snd (node_install_snapshot c p (nodes (group S) j)))"
proof -
  obtain P where P: "system_rel members S P" by (rule reachable_related [OF reach])
  note R = system_relD [OF P]
  note step = prod.collapse [symmetric]
  show "is_ok (snd (node_append_entries c q (nodes (group S) j)))" if "(f, AppendRequest q) \<in> sent S"
  proof -
    have ok: "append_ok P q" using R(6) [OF that] by simp
    then have L: "contiguous 0 (p_llog P (ae_term q))" using R(9) by (simp add: append_ok_def Let_def)
    show ?thesis by (rule append_run [OF R(3) [OF j] R(2) j ok L step [of "node_append_entries c q (nodes (group S) j)"]])
        (simp add: is_ok_iff)
  qed
  show "is_ok (snd (node_install_snapshot c p (nodes (group S) j)))" if "(f, SnapshotRequest p) \<in> sent S"
  proof -
    have ok: "install_ok P p" using R(6) [OF that] by simp
    then have L: "contiguous 0 (p_llog P (is_term p))" using R(9) by (simp add: install_ok_def Let_def)
    show ?thesis by (rule install_run [OF R(3) [OF j] R(2) j ok L step [of "node_install_snapshot c p (nodes (group S) j)"]])
        (simp add: is_ok_iff)
  qed
qed

text \<open>A snapshot that is sent is the effect of a prefix of the history the members follow.\<close>

lemma sent_snapshot_safe:
  assumes reach: "system_reachable members S" and q: "(f, SnapshotRequest q) \<in> sent S"
  shows "\<exists>h. (\<forall>j \<in> set members. follows_history h (nodes (group S) j)) \<and>
    0 \<le> is_last_included_index q \<and> nat (is_last_included_index q) \<le> length h \<and>
    is_state q = run_commands (take (nat (is_last_included_index q)) h) [] \<and>
    is_last_included_term q = (if is_last_included_index q = 0 then 0 else entry_term (h ! (nat (is_last_included_index q) - 1)))"
proof -
  obtain P where P: "system_rel members S P" by (rule reachable_related [OF reach])
  let ?L = "p_llog P (is_term q)" and ?k = "nat (is_last_included_index q)"
  have "install_ok P q" using system_relD(6) [OF P q] by simp
  then have ok: "0 \<le> is_last_included_index q" "?k \<le> length ?L" "is_last_included_term q = final_term (take ?k ?L)"
      "is_state q = run_commands (take ?k ?L) []" "committed P (is_term q) ?k ?L"
    by (simp_all add: install_ok_def Let_def)
  obtain h where h: "?k \<le> length h" "take ?k ?L = take ?k h" "\<forall>i \<in> set members. follows_history h (nodes (group S) i)"
    using history_with [OF P P grows_refl ok(5,2)] by blast
  have "is_last_included_term q = (if is_last_included_index q = 0 then 0 else entry_term (h ! (?k - 1)))"
    using ok(1,3) h(1,2) final_term_take [of ?k h] by auto
  then show ?thesis using ok h by (intro exI [of _ h]) simp
qed

text \<open>A stale request is refused and changes neither state, log nor store.\<close>

lemma append_stale_kept:
  assumes "ae_term q < current_term (n_state n)" "node_append_entries c q n = (n', r)"
  shows "n_state n' = n_state n \<and> n_log n' = n_log n \<and> n_store n' = n_store n \<and> r \<noteq> Ok \<lparr>aer_term = t, aer_success = True\<rparr>"
  using assms
  by (auto simp: node_append_entries_def handle_append_entries_def Let_def drop_replication_def persist_state_def
      split: sum.splits option.splits if_splits)

lemma install_stale_kept:
  assumes "is_term q < current_term (n_state n)"
  shows "node_install_snapshot c q n = (n, Ok \<lparr>isr_term = current_term (n_state n), isr_success = False\<rparr>)"
  using assms by (simp add: node_install_snapshot_def)

section \<open>The nodes of the group\<close>

text \<open>
  What is proved of a node for itself holds of every node of the group: no step of the group leaves
  what \<open>NodeLife\<close> allows a node.
\<close>

lemma system_step_node:
  assumes rel: "system_rel members S P" and step: "system_step members S S'" and i: "i \<in> set members"
  shows "nodes (group S') i = nodes (group S) i \<or> node_step (nodes (group S) i) (nodes (group S') i)"
proof -
  note R = system_relD [OF rel]
  have put: "nodes (group S) i = nodes (put_node j n C) i \<or> node_step (nodes (group S) i) (nodes (put_node j n C) i)"
    if "node_step (nodes (group S) j) n" "nodes C = nodes (group S)" for j n C
    using that by (simp add: put_node_def)
  from step show ?thesis
  proof cases
    case (append j q c n r)
    have ok: "append_ok P q" using R(6) [OF append(3)] by simp
    then have L: "contiguous 0 (p_llog P (ae_term q))" using R(9) by (simp add: append_ok_def Let_def)
    have "node_step (nodes (group S) j) n"
    proof (cases "ae_term q < current_term (n_state (nodes (group S) j))")
      case True
      let ?q = "q\<lparr>ae_entries := []\<rparr>"
      have "wf_append_request ?q" "agrees_committed ?q (n_state (nodes (group S) j)) (n_log (nodes (group S) j))"
        by (simp_all add: wf_append_request_def contiguous_def agrees_committed_def)
      moreover have "node_append_entries c ?q (nodes (group S) j) = (n, r)"
        using append(4) append_stale [OF True] by simp
      ultimately show ?thesis by (rule node_step.append)
    next
      case False
      then have "current_term (n_state (nodes (group S) j)) \<le> ae_term q" by simp
      from node_step.append [OF append_ok_wf [OF ok L] append_agrees [OF R(3) [OF append(2)] R(2) append(2) ok L this] append(4)]
      show ?thesis .
    qed
    then show ?thesis using put [of j n "group S"] append(1) by auto
  next
    case (install j q c n r)
    have "install_ok P q" using R(6) [OF install(3)] by simp
    then have "wf_install_request q" by (simp add: install_ok_def Let_def wf_install_request_def final_term_def)
    then show ?thesis using put [OF node_step.install [OF _ install(4)], of "group S"] install(1) by auto
  next
    case (restart j d c dsk n)
    note N = node_relD(2,3) [OF R(3) [OF restart(2)]]
    have "node_step (nodes (group S) j) n" using node_step.restart [OF restart(3)] restart(4) N by simp
    then show ?thesis using put [of j n "group S"] restart(1) by auto
  qed (use put [OF node_step.election] put [OF node_step.vote] put [OF node_step.tally] put [OF node_step.start_replication]
      put [OF node_step.progress] put [OF node_step.commit] put [OF node_step.submit] put [OF node_step.snapshot]
      put [OF node_step.timeout] put [OF node_step.transfer] put [OF node_step.read] put [OF node_step.transfer_flag]
      put [OF node_step.observer] in \<open>auto simp: eq_commute\<close>)
qed

lemma system_node_reachable:
  assumes reach: "system_reachable members S" and i: "i \<in> set members"
  shows "node_reachable (nodes (group S) i)"
proof -
  obtain S0 where S0: "system_init members S0" "(system_step members)\<^sup>*\<^sup>* S0 S"
    using reach by (auto simp: system_reachable_def)
  from S0(2) show ?thesis
  proof (induction rule: rtranclp_induct)
    case base
    obtain c dsk dsk' where "dsk = None \<or> dsk = Some empty_disk"
        "node_init c i members dsk = (dsk', Ok (nodes (group S0) i))"
      using S0(1) i unfolding system_init_def by blast
    moreover have "distinct members" using S0(1) by (simp add: system_init_def)
    ultimately show ?case using node_reachable.start by blast
  next
    case (step T U)
    have "system_reachable members T" using S0(1) step.hyps(1) by (auto simp: system_reachable_def)
    then obtain P where "system_rel members T P" by (rule reachable_related)
    from system_step_node [OF this step.hyps(2) i] step.IH show ?case
      using node_reachable.step by (elim disjE) simp_all
  qed
qed

end
