(* ===== verification/CatchUp.thy ===== *)
theory CatchUp
  imports SystemSafety
begin

text \<open>
  The loop of a replication worker against a follower it reaches: \<open>replicate_to_follower\<close> over a
  network that delivers. The loop has no bound of its own. It ends, with the follower caught up, when
  the follower's snapshot does not reach the index before \<open>next_index\<close>; when it does, the loop may
  run for ever.
\<close>

section \<open>A leader and a follower it reaches\<close>

text \<open>The network is the follower itself, at one reading of its clock.\<close>

definition follower_network :: "clock \<Rightarrow> raft_node network" where
  "follower_network c =
     \<lparr>net_append = (\<lambda>f q (n, w). case node_append_entries c q w of (w', r) \<Rightarrow> ((n, w'), r)),
      net_install = (\<lambda>f q (n, w). case node_install_snapshot c q w of (w', r) \<Rightarrow> ((n, w'), r)),
      net_timeout = (\<lambda>f q (n, w). case node_timeout_now q w of (w', r) \<Rightarrow> ((n, w'), r))\<rparr>"

text \<open>The two nodes within a protocol state; the leader's log in it is \<open>p_log P i\<close>.\<close>

definition pair_rel :: "string list \<Rightarrow> proto \<Rightarrow> string \<Rightarrow> string \<Rightarrow> raft_node \<Rightarrow> raft_node \<Rightarrow> bool" where
  "pair_rel members P i j n w =
     (proto_inv (set members) P \<and> i \<in> set members \<and> j \<in> set members \<and> i \<noteq> j \<and>
      node_rel members P i n \<and> node_rel members P j w \<and> (\<forall>t. p_base P t \<noteq> None \<longrightarrow> contiguous 0 (p_llog P t)) \<and>
      role (n_state n) = LEADER \<and> current_term (n_state w) \<le> current_term (n_state n))"

lemma pair_relD:
  assumes "pair_rel members P i j n w"
  shows "proto_inv (set members) P" "i \<in> set members" "j \<in> set members" "i \<noteq> j"
    "node_rel members P i n" "node_rel members P j w" "role (n_state n) = LEADER"
    "current_term (n_state w) \<le> current_term (n_state n)"
    "p_base P (current_term (n_state n)) \<noteq> None" "p_llog P (current_term (n_state n)) = p_log P i"
    "contiguous 0 (p_log P i)"
proof -
  show A: "proto_inv (set members) P" "i \<in> set members" "j \<in> set members" "i \<noteq> j"
    "node_rel members P i n" "node_rel members P j w" "role (n_state n) = LEADER"
    "current_term (n_state w) \<le> current_term (n_state n)"
    using assms by (simp_all add: pair_rel_def)
  note R = node_relD [OF A(5)]
  have "p_lead P i" using R(5) A(7) by simp
  then show "p_base P (current_term (n_state n)) \<noteq> None" "p_llog P (current_term (n_state n)) = p_log P i"
    using proto_invD(2) [OF A(1,2)] R(4) by (auto simp: member_ok_def)
  show "contiguous 0 (p_log P i)" by (rule log_absD(2) [OF R(6)])
qed

lemma pair_of_system:
  assumes "system_rel members S P" "i \<in> set members" "j \<in> set members" "i \<noteq> j"
    "role (n_state (nodes (group S) i)) = LEADER"
    "current_term (n_state (nodes (group S) j)) \<le> current_term (n_state (nodes (group S) i))"
  shows "pair_rel members P i j (nodes (group S) i) (nodes (group S) j)"
  using assms system_relD [OF assms(1)] by (simp add: pair_rel_def)

lemma pair_leader:
  assumes pair: "pair_rel members P i j n w" and rel: "node_rel members P i n'"
    and st: "n_state n' = n_state n"
  shows "pair_rel members P i j n' w"
  using assms by (simp add: pair_rel_def)

text \<open>The follower moves: the leader's log stays.\<close>

lemma pair_follower:
  assumes pair: "pair_rel members P i j n w" and run: "local_run members j P P' w'"
    and st: "role (n_state w') = FOLLOWER" "current_term (n_state w') = current_term (n_state n)"
  shows "pair_rel members P' i j n w'" "p_log P' i = p_log P i" "p_llog P' = p_llog P"
proof -
  note D = pair_relD [OF pair]
  have steps: "(proto_step (set members) j)\<^sup>*\<^sup>* P P'" and rel: "node_rel members P' j w'"
    using run by (simp_all add: local_run_def)
  note R = node_relD [OF rel]
  have "\<not> p_lead P' j" using R(5) st(1) by simp
  then have same: "p_base P' t = p_base P t \<and> p_llog P' t = p_llog P t" for t
    using run by (auto simp: local_run_def)
  then show "p_llog P' = p_llog P" by auto
  have "p_base P' = p_base P" using same by auto
  show "p_log P' i = p_log P i" using proto_steps_other [OF steps] D(4) by blast
  have "proto_inv (set members) P'" using proto_steps_inv [OF steps D(1)] by simp
  moreover have "node_rel members P' i n"
    by (rule node_rel_other [OF D(5,1,2) steps D(4)])
  ultimately show "pair_rel members P' i j n w'"
    using pair rel st(2) same by (simp add: pair_rel_def)
qed

text \<open>An acknowledgement of the current term is kept.\<close>

lemma pair_acked:
  assumes pair: "pair_rel members P i j n w" and a: "(j, current_term (n_state n), k) \<in> p_acks P"
    and st: "current_term (n_state w) = current_term (n_state n)"
  shows "take k (p_log P j) = take k (p_log P i)"
proof -
  note D = pair_relD [OF pair]
  have "ack_ok (set members) P j (current_term (n_state n)) k" by (rule proto_invD(7) [OF D(1) a])
  then have "holds P (current_term (n_state n)) k (p_log P j) \<or>
      overruled P (current_term (n_state n)) k (p_term P j + 1)" by (auto simp: ack_ok_def)
  then show ?thesis
    using node_relD(4) [OF D(6)] st D(10) by (auto simp: overruled_def holds_def)
qed

text \<open>Where the follower holds the leader's log: what it has committed, and what its terms say.\<close>

lemma pair_committed:
  assumes pair: "pair_rel members P i j n w" and k: "k \<le> commit_index (n_state w)"
  shows "take (nat k) (p_log P j) = take (nat k) (p_log P i)" "nat k \<le> length (p_log P i)"
proof -
  note D = pair_relD [OF pair]
  note C = commit_in_llog [OF D(6,1,3,8,9), unfolded D(10)]
  have le: "nat k \<le> p_commit P j" using k node_relD(7) [OF D(6)] by simp
  show "take (nat k) (p_log P j) = take (nat k) (p_log P i)" by (rule take_eq_shorter [OF C(1) le])
  show "nat k \<le> length (p_log P i)" using le C(2) by simp
qed

lemma pair_term_at:
  assumes pair: "pair_rel members P i j n w" and k: "nat k \<le> length (p_log P i)"
  shows "term_at k (n_log w) = Some (final_term (take (nat k) (p_log P i))) \<longleftrightarrow>
    base_index (n_log w) \<le> k \<and> k \<le> int (length (p_log P j)) \<and> take (nat k) (p_log P j) = take (nat k) (p_log P i)"
proof -
  note D = pair_relD [OF pair]
  note R = node_relD [OF D(6)]
  have g: "grounded P (p_log P j)" "grounded P (p_log P i)"
    using proto_invD(2) [OF D(1,3)] proto_invD(2) [OF D(1,2)] by (simp_all add: member_ok_def wf_plog_def)
  have "nat k \<le> length (p_log P j)" if "k \<le> int (length (p_log P j))" using that by simp
  then show ?thesis
    using log_abs_term [OF R(6), of k] prefix_by_term [OF g _ k] by auto
qed

section \<open>One request\<close>

lemma pair_append:
  assumes pair: "pair_rel members P i j n w" and q: "append_ok P q" "ae_term q = current_term (n_state n)"
    and step: "node_append_entries c q w = (w', r)"
  obtains P' a where "pair_rel members P' i j n w'" "p_log P' i = p_log P i" "append_ok P' q"
    "r = Ok a" "aer_term a = current_term (n_state n)" "current_term (n_state w') = current_term (n_state n)"
    "aer_success a \<Longrightarrow> (j, current_term (n_state n), request_reach (AppendRequest q)) \<in> p_acks P' \<and>
       term_at (ae_prev_log_index q) (n_log w) = Some (ae_prev_log_term q)"
    "\<not> aer_success a \<Longrightarrow> n_log w' = n_log w \<and> term_at (ae_prev_log_index q) (n_log w) \<noteq> Some (ae_prev_log_term q)"
proof -
  note D = pair_relD [OF pair]
  have L: "contiguous 0 (p_llog P (ae_term q))" using D(10,11) q(2) by simp
  obtain P' a where P': "local_run members j P P' w'" "r = Ok a"
      "aer_success a \<Longrightarrow> (j, ae_term q, request_reach (AppendRequest q)) \<in> p_acks P'"
    by (rule append_run [OF D(6,1,3) q(1) L step]) blast
  obtain s l store where h: "handle_append_entries q (n_state w) (n_log w) (Some (n_store w)) = ((s, l, store), Ok a)"
      "n_state w' = s" "n_log w' = l"
    using append_fields [OF step [unfolded P'(2)]] by metis
  note F = handle_append_entries_frame [OF h(1)]
  have st: "role (n_state w') = FOLLOWER" "current_term (n_state w') = current_term (n_state n)"
    using F(3,5) h(2) D(8) q(2) by simp_all
  note N = pair_follower [OF pair P'(1) st]
  have "wf_log (n_log w)" by (rule log_absD(1) [OF node_relD(6) [OF D(6)]])
  note Z = term_at_None_iff [OF this]
  have "grows P P'" using P'(1) proto_steps_inv [OF _ D(1)] by (auto simp: local_run_def)
  then have ok: "append_ok P' q" by (rule grows_append_ok [OF D(1) _ q(1)])
  have "aer_term a = current_term (n_state n) \<and> (\<not> aer_success a \<longrightarrow> n_log w' = n_log w \<and>
      term_at (ae_prev_log_index q) (n_log w) \<noteq> Some (ae_prev_log_term q)) \<and>
      (aer_success a \<longrightarrow> term_at (ae_prev_log_index q) (n_log w) = Some (ae_prev_log_term q))"
    using h(1)
  proof (cases rule: handle_append_entries_cases)
    case stale
    then show ?thesis using D(8) q(2) by simp
  next
    case refused
    then show ?thesis using h(3) q(2) Z [of "ae_prev_log_index q"] by auto
  next
    case (committed s1 st st' u)
    then show ?thesis using q(2) by (auto split: sum.splits)
  qed simp_all
  then show thesis
    using that [OF N(1,2) ok P'(2)] P'(3) st(2) q(2) by simp
qed

lemma finish_install_success: "finish_install c sn l k n = (n', Ok a) \<Longrightarrow> isr_success a"
  by (auto simp: finish_install_def Let_def split: sum.splits option.splits if_splits prod.splits)

text \<open>A snapshot that contradicts nothing the receiver has committed is accepted.\<close>

lemma install_accepted:
  assumes wf: "node_wf n" "wf_install_request q" and step: "node_install_snapshot c q n = (n', Ok a)"
    and now: "current_term (n_state n) \<le> is_term q"
    and q: "0 \<le> is_last_included_index q" "0 \<le> is_last_included_term q" "base_index (n_log n) \<le> is_last_included_index q"
    and agree: "is_last_included_index q \<le> commit_index (n_state n) \<Longrightarrow>
      term_at (is_last_included_index q) (n_log n) = Some (is_last_included_term q)"
  shows "isr_success a"
proof -
  let ?k = "is_last_included_index q" and ?t = "is_last_included_term q"
  note D = data_wfD [OF node_wf_data [OF wf(1)]]
  obtain s where s: "become_follower (is_term q) (Some (is_leader_id q)) (n_state n) = Ok s"
    using become_follower_Ok [OF now] by blast
  have ci: "commit_index s = commit_index (n_state n)" using become_follower_OkD(7) [OF s] .
  obtain sn where sn: "raft_snapshot ?k ?t (is_state q) 1 = Ok sn"
    using raft_snapshot_Ok [OF q(1,2)] wf(2) by (auto simp: wf_install_request_def)
  have base: "?t = base_term (n_log n)" if "?k = base_index (n_log n)"
    using agree that D(7) by (simp add: term_at_def)
  then have "is_ok (install_snapshot_boundary ?k ?t (n_log n))"
    using q(1,3) entries_from_Ok [of "?k + 1" "n_log n"] by (simp add: install_snapshot_boundary_def is_ok_iff)
  then obtain l where l: "install_snapshot_boundary ?k ?t (n_log n) = Ok l" by (auto simp: is_ok_iff)
  note G = install_snapshot_boundary_get [OF D(1) q(2) l]
  have le: "\<not> last_index l < max (commit_index s) ?k"
  proof (cases "term_at ?k (n_log n) = Some ?t")
    case True
    then show ?thesis using G(2) ci D(8) term_at_range(2) [OF D(1) True] by simp
  next
    case False
    then show ?thesis using G(2) ci agree by (cases "?k \<le> commit_index (n_state n)") simp_all
  qed
  have "finish_install c sn l (max (commit_index s) ?k) (n\<lparr>n_state := s, n_replication := None\<rparr>) = (n', Ok a)"
    using step now q agree D(1,5) s sn l le ci
    by (simp add: node_install_snapshot_def Let_def split: if_splits)
  then show ?thesis by (rule finish_install_success)
qed

lemma pair_install:
  assumes pair: "pair_rel members P i j n w" and q: "install_ok P q" "is_term q = current_term (n_state n)"
      "base_index (n_log w) \<le> is_last_included_index q"
    and step: "node_install_snapshot c q w = (w', r)"
  obtains P' where "pair_rel members P' i j n w'" "p_log P' i = p_log P i" "install_ok P' q"
    "r = Ok \<lparr>isr_term = current_term (n_state n), isr_success = True\<rparr>"
    "current_term (n_state w') = current_term (n_state n)"
    "(j, current_term (n_state n), request_reach (SnapshotRequest q)) \<in> p_acks P'"
    "base_index (n_log w') = is_last_included_index q"
    "\<And>m t. is_last_included_index q \<le> m \<Longrightarrow> term_at m (n_log w) = Some t \<Longrightarrow>
       take (nat m) (p_log P j) = take (nat m) (p_log P i) \<Longrightarrow> term_at m (n_log w') = Some t"
proof -
  let ?k = "is_last_included_index q" and ?t = "is_last_included_term q"
  note D = pair_relD [OF pair]
  note R = node_relD [OF D(6)]
  have L: "contiguous 0 (p_llog P (is_term q))" using D(10,11) q(2) by simp
  have Q: "0 \<le> ?k" "nat ?k \<le> length (p_log P i)" "?t = final_term (take (nat ?k) (p_log P i))" "0 \<le> ?t"
    using q(1,2) D(10) by (simp_all add: install_ok_def Let_def)
  have W: "wf_install_request q" using Q(3) by (simp add: wf_install_request_def final_term_def)
  have wf: "node_wf w" using R(1) by (simp add: node_ok_def)
  note DW = data_wfD [OF node_wf_data [OF wf]]
  obtain P' a where P': "local_run members j P P' w'" "r = Ok a"
      "isr_success a \<Longrightarrow> (j, is_term q, request_reach (SnapshotRequest q)) \<in> p_acks P'"
    by (rule install_run [OF D(6,1,3) q(1) L step]) blast
  have held: "term_at ?k (n_log w) = Some ?t" if "?k \<le> commit_index (n_state w)"
  proof -
    have "?k \<le> int (length (p_log P j))" using that DW(8) log_abs_last [OF R(6)] by simp
    then show ?thesis using pair_term_at [OF pair Q(2)] pair_committed(1) [OF pair that] q(3) Q(3) by simp
  qed
  have now: "current_term (n_state w) \<le> is_term q" using D(8) q(2) by simp
  have "isr_success a" by (rule install_accepted [OF wf W step [unfolded P'(2)] now Q(1,4) q(3) held])
  from step wf W this show thesis
  proof (cases rule: node_install_snapshot_cases)
    case stale
    then show thesis using now by simp
  next
    case (unchanged s m)
    then show thesis using \<open>isr_success a\<close> P'(2) q(3) DW(5) by simp
  next
    case (installed s sn l s' store dsk)
    note B = become_follower_OkD [OF installed(1)]
    have n': "n_state w' = s'" "n_log w' = l" using installed(9) by (simp_all add: Let_def)
    have st: "role (n_state w') = FOLLOWER" "current_term (n_state w') = current_term (n_state n)"
      using n'(1) installed(5) B(2,3) q(2) by simp_all
    note N = pair_follower [OF pair P'(1) st]
    have "grows P P'" using P'(1) proto_steps_inv [OF _ D(1)] by (auto simp: local_run_def)
    then have ok: "install_ok P' q" by (rule grows_install_ok [OF D(1) _ q(1)])
    note G = install_snapshot_boundary_get [OF DW(1) Q(4) installed(3)]
    have keep: "term_at m (n_log w') = Some t"
      if m: "?k \<le> m" "term_at m (n_log w) = Some t" "take (nat m) (p_log P j) = take (nat m) (p_log P i)" for m t
    proof -
      have "m \<le> int (length (p_log P j))" using term_at_range(2) [OF DW(1) m(2)] log_abs_last [OF R(6)] by simp
      then have "?k \<le> int (length (p_log P j))" using m(1) by simp
      moreover have "take (nat ?k) (p_log P j) = take (nat ?k) (p_log P i)"
        by (rule take_eq_shorter [OF m(3)]) (use m(1) in simp)
      ultimately have k: "term_at ?k (n_log w) = Some ?t" using pair_term_at [OF pair Q(2)] q(3) Q(3) by simp
      show ?thesis
      proof (cases "m = ?k")
        case True
        then show ?thesis using k m(2) n'(2) G(3,4) by (simp add: term_at_def)
      next
        case False
        then show ?thesis using k m(1,2) n'(2) G(1,3) q(3) by (simp add: term_at_def split: if_splits)
      qed
    qed
    show thesis
      using that [OF N(1,2) ok] P'(2,3) \<open>isr_success a\<close> installed(10) B(2) q(2) st(2) n'(2) G(3) keep by simp
  qed
qed

section \<open>One iteration of the loop\<close>

lemma pair_replication:
  assumes pair: "pair_rel members P i j n w" and r: "n_replication n = Some r"
  shows "j \<in> set (followers r)" "map_of (match_index r) j = Some m \<Longrightarrow> m \<le> last_index (n_log n)"
    "map_of (match_index r) j = Some m \<Longrightarrow> 0 \<le> m"
proof -
  note D = pair_relD [OF pair]
  note R = node_relD [OF D(5)]
  have wf: "node_wf n" using R(1) by (simp add: node_ok_def)
  then have W: "wf_replication r (n_state n)" "repl_members r = members" "node_id (n_state n) = i"
    using r R(2,3) by (simp_all add: node_wf_def)
  show f: "j \<in> set (followers r)" using W D(3,4) by (auto simp: wf_replication_def)
  show "m \<le> last_index (n_log n)" if "map_of (match_index r) j = Some m"
  proof -
    have "nat m \<le> length (p_log P i)" using R(12) [OF r that] by (simp add: match_ok_def)
    then show ?thesis using log_abs_last [OF R(6)] by simp
  qed
  show "0 \<le> m" if "map_of (match_index r) j = Some m"
    using wf_replication_lookup [OF W(1) f] that by force
qed

lemma build_append:
  assumes pair: "pair_rel members P i j n w" and r: "n_replication n = Some r"
    and nx: "map_of (next_index r) j = Some nx" "base_index (n_log n) < nx" "nx \<le> last_index (n_log n) + 1"
  obtains q where "worker_build j n = Ok (Some (AppendRequest q))" "append_ok P q" "ae_term q = current_term (n_state n)"
    "ae_prev_log_index q = nx - 1" "ae_prev_log_term q = final_term (take (nat (nx - 1)) (p_log P i))"
    "request_reach (AppendRequest q) = length (p_log P i)" "ae_leader_commit q = commit_index (n_state n)"
    "(if ae_entries q \<noteq> [] then entry_index (last (ae_entries q)) else ae_prev_log_index q) = last_index (n_log n)"
proof -
  note D = pair_relD [OF pair]
  note R = node_relD [OF D(5)]
  note A = log_absD [OF R(6)]
  have t: "term_at (nx - 1) (n_log n) = Some (final_term (take (nat (nx - 1)) (p_log P i)))"
    using nx(2,3) log_abs_term [OF R(6), of "nx - 1"] log_abs_last [OF R(6)] by simp
  have "is_ok (build_request j (Some (commit_index (n_state n))) (n_state n) (n_log n) r)"
    using pair_replication(1) [OF pair r] nx t A(3) entries_from_Ok [of nx "n_log n"]
    by (simp add: build_request_def dict_item_def Let_def is_ok_iff)
  then obtain q where q: "build_request j (Some (commit_index (n_state n))) (n_state n) (n_log n) r = Ok q"
    by (auto simp: is_ok_iff)
  have b: "worker_build j n = Ok (Some (AppendRequest q))"
    using D(7) r nx q by (simp add: worker_build_def dict_item_def)
  from q A(1) show thesis
  proof (cases rule: build_request_OkD)
    case (1 k)
    have k: "k = nx" using 1(1) nx(1) by simp
    have ok: "append_ok P q" using send_ok [OF D(5,1,2) b] by simp
    have C: "contiguous (nx - 1) (ae_entries q)" using 1(10) k by simp
    have "nx - 1 + int (length (ae_entries q)) = int (length (p_log P i))"
      using 1(11) k log_abs_last [OF R(6)] by simp
    moreover have "0 \<le> nx - 1" using nx(2) A(3) by simp
    ultimately have reach: "request_reach (AppendRequest q) = length (p_log P i)"
      using 1(7) k by simp
    have "(if ae_entries q \<noteq> [] then entry_index (last (ae_entries q)) else ae_prev_log_index q) = last_index (n_log n)"
      using contiguous_last [OF C] 1(7,11) k by auto
    then show thesis using that [OF b ok] 1(5,7,8,12) k t reach by simp
  qed
qed

lemma build_install:
  assumes pair: "pair_rel members P i j n w" and r: "n_replication n = Some r"
    and nx: "map_of (next_index r) j = Some nx" "nx \<le> base_index (n_log n)"
  obtains q where "worker_build j n = Ok (Some (SnapshotRequest q))" "install_ok P q" "is_term q = current_term (n_state n)"
    "is_last_included_index q = base_index (n_log n)"
proof -
  note D = pair_relD [OF pair]
  note R = node_relD [OF D(5)]
  have "node_wf n" using R(1) by (simp add: node_ok_def)
  note W = data_wfD [OF node_wf_data [OF this]]
  let ?q = "\<lparr>is_term = current_term (n_state n), is_leader_id = n_id n,
    is_last_included_index = last_included_index (n_snapshot n),
    is_last_included_term = last_included_term (n_snapshot n), is_state = snapshot_state (n_snapshot n)\<rparr>"
  have b: "worker_build j n = Ok (Some (SnapshotRequest ?q))"
    using D(7) r nx W(5,6) by (simp add: worker_build_def dict_item_def)
  then show thesis using send_ok [OF D(5,1,2) b] W(5) by (intro that [of ?q]) simp_all
qed

text \<open>What the section after the response does with the progress.\<close>

definition progressed :: "string \<Rightarrow> int \<Rightarrow> leader_replication \<Rightarrow> leader_replication" where
  "progressed j k r = r\<lparr>match_index := AList.update j k (match_index r), next_index := AList.update j (k + 1) (next_index r)\<rparr>"

definition backed_off :: "string \<Rightarrow> int \<Rightarrow> leader_replication \<Rightarrow> leader_replication" where
  "backed_off j k r = r\<lparr>next_index := AList.update j k (next_index r)\<rparr>"

lemma response_append:
  assumes "role (n_state n) = LEADER" "n_replication n = Some r" "j \<in> set (followers r)"
    "map_of (match_index r) j = Some m" "map_of (next_index r) j = Some nx" "m \<le> last_index (n_log n)"
    "ae_term q = current_term (n_state n)" "ae_leader_commit q = commit_index (n_state n)"
    "(if ae_entries q \<noteq> [] then entry_index (last (ae_entries q)) else ae_prev_log_index q) = last_index (n_log n)"
  shows "worker_response j (AppendRequest q) (current_term (n_state n)) True n =
      (n\<lparr>n_replication := Some (progressed j (last_index (n_log n)) r)\<rparr>, Ok (Some True))"
    "worker_response j (AppendRequest q) (current_term (n_state n)) False n =
      (n\<lparr>n_replication := Some (backed_off j (max 1 (nx - 1)) r)\<rparr>, Ok None)"
  using assms
  by (simp_all add: worker_response_def record_success_def raise_match_def record_failure_def progressed_def backed_off_def
      dict_item_def max_def)

lemma response_install:
  assumes "role (n_state n) = LEADER" "n_replication n = Some r" "j \<in> set (followers r)"
    "map_of (match_index r) j = Some m" "is_term q = current_term (n_state n)"
    "k = max m (is_last_included_index q)"
  shows "worker_response j (SnapshotRequest q) (current_term (n_state n)) True n =
      (n\<lparr>n_replication := Some (progressed j k r)\<rparr>, Ok (if k + 1 \<le> last_index (n_log n) then None else Some True))"
  using assms
  by (simp add: worker_response_def record_snapshot_success_def raise_match_def progressed_def dict_item_def)

text \<open>The leader's node after the call is observed and the progress recorded.\<close>

lemma pair_recorded:
  assumes pair: "pair_rel members P i j n w" and req: "request_ok P req" "request_term req = current_term (n_state n)"
      "success \<Longrightarrow> (j, request_term req, request_reach req) \<in> p_acks P"
    and step: "worker_response j req (current_term (n_state n)) success (observe ev n) = (n', r)"
    and st: "n_state n' = n_state n"
  shows "pair_rel members P i j n' w"
proof -
  note D = pair_relD [OF pair]
  have ok: "node_ok (observe ev n)" using node_relD(1) [OF D(5)] by simp
  have kept: "repl_kept n (observe ev n)" by (rule repl_kept_same) (simp_all add: observe_def)
  have obs: "node_rel members P i (observe ev n)"
    by (rule node_rel_quiet [OF D(5,1,2) ok kept]) (simp_all add: observe_def)
  have L: "contiguous 0 (p_llog P (request_term req))" using req(2) D(10,11) by simp
  have "\<not> current_term (n_state (observe ev n)) < current_term (n_state n)" by (simp add: observe_def)
  from progress_kept [OF obs D(1,2) req(1,3) L step this]
  show ?thesis by (intro pair_leader [OF pair _ st])
qed

lemma iterate_append:
  assumes pair: "pair_rel members P i j n w" and r: "n_replication n = Some r" and m: "map_of (match_index r) j = Some m"
    and nx: "map_of (next_index r) j = Some nx" "base_index (n_log n) < nx" "nx \<le> last_index (n_log n) + 1"
  obtains (accepted) P' n' w' where
      "\<And>fuel. replicate_to_follower (Suc fuel) (follower_network c) j (n, w) = ((n', w'), Some (Ok True))"
      "pair_rel members P' i j n' w'" "p_log P' i = p_log P i" "n_state n' = n_state n" "n_log n' = n_log n"
      "take (length (p_log P i)) (p_log P' j) = p_log P i"
      "n_replication n' = Some (progressed j (last_index (n_log n)) r)"
      "term_at (nx - 1) (n_log w) = Some (final_term (take (nat (nx - 1)) (p_log P i)))"
    | (refused) P' n' w' where
      "\<And>fuel. replicate_to_follower (Suc fuel) (follower_network c) j (n, w) =
         replicate_to_follower fuel (follower_network c) j (n', w')"
      "pair_rel members P' i j n' w'" "p_log P' i = p_log P i" "n_state n' = n_state n" "n_log n' = n_log n"
      "n_log w' = n_log w" "n_replication n' = Some (backed_off j (max 1 (nx - 1)) r)"
      "term_at (nx - 1) (n_log w) \<noteq> Some (final_term (take (nat (nx - 1)) (p_log P i)))"
proof -
  note D = pair_relD [OF pair]
  obtain q where b: "worker_build j n = Ok (Some (AppendRequest q))" and q: "append_ok P q" "ae_term q = current_term (n_state n)"
    "ae_prev_log_index q = nx - 1" "ae_prev_log_term q = final_term (take (nat (nx - 1)) (p_log P i))"
    "request_reach (AppendRequest q) = length (p_log P i)" "ae_leader_commit q = commit_index (n_state n)"
    "(if ae_entries q \<noteq> [] then entry_index (last (ae_entries q)) else ae_prev_log_index q) = last_index (n_log n)"
    by (rule build_append [OF pair r nx])
  obtain w' res where step: "node_append_entries c q w = (w', res)" by fastforce
  obtain P' a where P': "pair_rel members P' i j n w'" "p_log P' i = p_log P i" "append_ok P' q"
    "res = Ok a" "aer_term a = current_term (n_state n)" "current_term (n_state w') = current_term (n_state n)"
    "aer_success a \<Longrightarrow> (j, current_term (n_state n), request_reach (AppendRequest q)) \<in> p_acks P' \<and>
       term_at (ae_prev_log_index q) (n_log w) = Some (ae_prev_log_term q)"
    "\<not> aer_success a \<Longrightarrow> n_log w' = n_log w \<and> term_at (ae_prev_log_index q) (n_log w) \<noteq> Some (ae_prev_log_term q)"
    by (rule pair_append [OF pair q(1,2) step]) blast
  let ?n = "observe (Rpc ''append_entries'' True) n"
  have send: "worker_send (follower_network c) j (AppendRequest q) (n, w) = ((?n, w'), Ok (current_term (n_state n), aer_success a))"
    using step P'(4,5) by (simp add: worker_send_def follower_network_def is_ok_def)
  note F = pair_replication [OF pair r]
  note resp = response_append [of ?n r j m nx q, simplified, OF D(7) r F(1) m nx(1) F(2) [OF m] q(2,6,7) [simplified]]
  show thesis
  proof (cases "aer_success a")
    case True
    let ?n' = "?n\<lparr>n_replication := Some (progressed j (last_index (n_log n)) r)\<rparr>"
    have run: "replicate_to_follower (Suc fuel) (follower_network c) j (n, w) = ((?n', w'), Some (Ok True))" for fuel
      using b send True resp(1) by simp
    have pair': "pair_rel members P' i j ?n' w'"
      by (rule pair_recorded [OF P'(1) _ _ _ resp(1)]) (use P'(3,7) True q(2) in simp_all)
    have "take (length (p_log P i)) (p_log P' j) = take (length (p_log P i)) (p_log P' i)"
      by (rule pair_acked [OF P'(1) _ P'(6)]) (use P'(7) True q(5) in simp)
    then show thesis using accepted [OF run pair' P'(2)] P'(2,7) True q(3,4) by simp
  next
    case False
    let ?n' = "?n\<lparr>n_replication := Some (backed_off j (max 1 (nx - 1)) r)\<rparr>"
    have run: "replicate_to_follower (Suc fuel) (follower_network c) j (n, w) =
        replicate_to_follower fuel (follower_network c) j (?n', w')" for fuel
      using b send False resp(2) by simp
    have pair': "pair_rel members P' i j ?n' w'"
      by (rule pair_recorded [OF P'(1) _ _ _ resp(2)]) (use P'(3) q(2) in simp_all)
    show thesis using refused [OF run pair' P'(2)] P'(8) False q(3,4) by simp
  qed
qed

lemma iterate_install:
  assumes pair: "pair_rel members P i j n w" and r: "n_replication n = Some r" and m: "map_of (match_index r) j = Some m"
    and nx: "map_of (next_index r) j = Some nx" "nx \<le> base_index (n_log n)" "base_index (n_log w) \<le> base_index (n_log n)"
    and k: "k = max m (base_index (n_log n))"
    and held: "m \<le> base_index (n_log n) \<or> term_at m (n_log w) = term_at m (n_log n)"
  obtains P' n' w' where
      "\<And>fuel. replicate_to_follower (Suc fuel) (follower_network c) j (n, w) =
         (if k + 1 \<le> last_index (n_log n) then replicate_to_follower fuel (follower_network c) j (n', w')
          else ((n', w'), Some (Ok True)))"
      "pair_rel members P' i j n' w'" "p_log P' i = p_log P i" "n_state n' = n_state n" "n_log n' = n_log n"
      "take (nat k) (p_log P' j) = take (nat k) (p_log P i)" "base_index (n_log w') \<le> k"
      "n_replication n' = Some (progressed j k r)"
proof -
  note D = pair_relD [OF pair]
  note R = node_relD [OF D(5)] and Rw = node_relD [OF D(6)]
  note A = log_absD [OF R(6)]
  obtain q where b: "worker_build j n = Ok (Some (SnapshotRequest q))" and q: "install_ok P q"
    "is_term q = current_term (n_state n)" "is_last_included_index q = base_index (n_log n)"
    by (rule build_install [OF pair r nx(1,2)])
  obtain w' res where step: "node_install_snapshot c q w = (w', res)" by fastforce
  have le: "base_index (n_log w) \<le> is_last_included_index q" using nx(3) q(3) by simp
  obtain P' where P': "pair_rel members P' i j n w'" "p_log P' i = p_log P i" "install_ok P' q"
    "res = Ok \<lparr>isr_term = current_term (n_state n), isr_success = True\<rparr>" "current_term (n_state w') = current_term (n_state n)"
    "(j, current_term (n_state n), request_reach (SnapshotRequest q)) \<in> p_acks P'"
    "base_index (n_log w') = is_last_included_index q"
    "\<And>m t. is_last_included_index q \<le> m \<Longrightarrow> term_at m (n_log w) = Some t \<Longrightarrow>
       take (nat m) (p_log P j) = take (nat m) (p_log P i) \<Longrightarrow> term_at m (n_log w') = Some t"
    by (rule pair_install [OF pair q(1,2) le step]) blast
  let ?n = "observe (Rpc ''install_snapshot'' True) n"
  let ?n' = "?n\<lparr>n_replication := Some (progressed j k r)\<rparr>"
  have send: "worker_send (follower_network c) j (SnapshotRequest q) (n, w) = ((?n, w'), Ok (current_term (n_state n), True))"
    using step P'(4) by (simp add: worker_send_def follower_network_def is_ok_def)
  note F = pair_replication [OF pair r]
  have resp: "worker_response j (SnapshotRequest q) (current_term (n_state n)) True ?n =
      (?n', Ok (if k + 1 \<le> last_index (n_log n) then None else Some True))"
    using response_install [of ?n r j m q k] D(7) r F(1) m q(2,3) k by simp
  have run: "replicate_to_follower (Suc fuel) (follower_network c) j (n, w) =
      (if k + 1 \<le> last_index (n_log n) then replicate_to_follower fuel (follower_network c) j (?n', w')
       else ((?n', w'), Some (Ok True)))" for fuel
    using b send resp by simp
  have pair': "pair_rel members P' i j ?n' w'"
    by (rule pair_recorded [OF P'(1) _ _ _ resp]) (use P'(3,6) q(2) in simp_all)
  have acked: "take (nat (base_index (n_log n))) (p_log P' j) = take (nat (base_index (n_log n))) (p_log P i)"
    using pair_acked [OF P'(1) P'(6,5)] P'(2) q(3) by simp
  have "take (nat k) (p_log P' j) = take (nat k) (p_log P i)"
  proof (cases "m \<le> base_index (n_log n)")
    case True
    then show ?thesis using acked k by (simp add: max_def)
  next
    case False
    have len: "nat m \<le> length (p_log P i)" using F(2) [OF m] log_abs_last [OF R(6)] by simp
    have t: "term_at m (n_log w) = Some (final_term (take (nat m) (p_log P i)))"
      using held False log_abs_term [OF R(6), of m] F(2) [OF m] log_abs_last [OF R(6)] by simp
    then have "term_at m (n_log w') = Some (final_term (take (nat m) (p_log P' i)))"
      using P'(2) P'(8) [OF _ t] pair_term_at [OF pair len] False q(3) by simp
    then show ?thesis using pair_term_at [OF P'(1), of m] len P'(2) False k by simp
  qed
  then show thesis using that [OF run pair' P'(2)] P'(7) q(3) k by simp
qed

section \<open>The loop ends\<close>

text \<open>The follower has every entry of the leader's log, but what one of them has compacted.\<close>

definition caught_up :: "raft_node \<Rightarrow> raft_node \<Rightarrow> bool" where
  "caught_up n w =
     (last_index (n_log n) \<le> last_index (n_log w) \<and>
      (\<forall>k. base_index (n_log n) < k \<longrightarrow> base_index (n_log w) < k \<longrightarrow> k \<le> last_index (n_log n) \<longrightarrow>
         log_get k (n_log w) = log_get k (n_log n)))"

lemma pair_caught_up:
  assumes pair: "pair_rel members P i j n w" and all: "take (length (p_log P i)) (p_log P j) = p_log P i"
  shows "caught_up n w"
proof -
  note D = pair_relD [OF pair]
  note R = node_relD [OF D(5)] and R' = node_relD [OF D(6)]
  have len: "length (p_log P i) \<le> length (p_log P j)" using all by (metis length_take min.cobounded1)
  have "log_get k (n_log w) = log_get k (n_log n)"
    if k: "base_index (n_log n) < k" "base_index (n_log w) < k" "k \<le> last_index (n_log n)" for k
  proof -
    have l: "k \<le> int (length (p_log P i))" "0 < k" using k log_abs_last [OF R(6)] log_absD(3) [OF R(6)] by simp_all
    then have "nat k - 1 < length (p_log P i)" by linarith
    then have "p_log P j ! (nat k - 1) = p_log P i ! (nat k - 1)" using all by (metis nth_take)
    moreover have "k \<le> int (length (p_log P j))" using l(1) len by linarith
    ultimately show ?thesis
      using k l log_abs_get [OF R(6), of k] log_abs_get [OF R'(6), of k] by simp
  qed
  then show ?thesis using len log_abs_last [OF R(6)] log_abs_last [OF R'(6)] by (simp add: caught_up_def)
qed

lemma progressed_lookup [simp]:
  "map_of (match_index (progressed j k r)) j = Some k" "map_of (next_index (progressed j k r)) j = Some (k + 1)"
  "map_of (match_index (backed_off j k r)) = map_of (match_index r)" "map_of (next_index (backed_off j k r)) j = Some k"
  by (simp_all add: progressed_def backed_off_def)

text \<open>What the loop returns: success, with the follower caught up and recorded so.\<close>

definition replicated :: "raft_node \<times> raft_node \<Rightarrow> string \<Rightarrow> raft_node \<Rightarrow> bool result option \<Rightarrow> bool" where
  "replicated nw j n res =
     (res = Some (Ok True) \<and> caught_up n (snd nw) \<and> n_state (fst nw) = n_state n \<and> n_log (fst nw) = n_log n \<and>
      (\<exists>r. n_replication (fst nw) = Some r \<and> map_of (match_index r) j = Some (last_index (n_log n))))"

declare replicate_to_follower.simps [simp del]

lemma replicatedI:
  assumes "caught_up n' w'" "n_state n' = n_state n" "n_log n' = n_log n"
    "n_replication n' = Some (progressed j (last_index (n_log n)) r)" "((n', w'), Some (Ok True)) = (nw, res)"
  shows "replicated nw j n res"
proof -
  have nw: "nw = (n', w')" "res = Some (Ok True)" using assms(5) by simp_all
  show ?thesis unfolding nw replicated_def using assms(1-4) by (simp add: caught_up_def)
qed

lemma replicated_log:
  "n_log n' = n_log n \<Longrightarrow> n_state n' = n_state n \<Longrightarrow> replicated nw j n' res \<Longrightarrow> replicated nw j n res"
  by (simp add: replicated_def caught_up_def)

text \<open>Once the follower holds the entry before \<open>next_index\<close>, one request is enough.\<close>

lemma replicate_held:
  assumes pair: "pair_rel members P i j n w" and r: "n_replication n = Some r" and m: "map_of (match_index r) j = Some m"
    and nx: "map_of (next_index r) j = Some nx" "base_index (n_log n) < nx" "nx \<le> last_index (n_log n) + 1"
    and held: "base_index (n_log w) < nx" "take (nat (nx - 1)) (p_log P j) = take (nat (nx - 1)) (p_log P i)"
    and run: "replicate_to_follower (Suc fuel) (follower_network c) j (n, w) = (nw, res)"
  shows "replicated nw j n res"
proof -
  note D = pair_relD [OF pair]
  note R = node_relD [OF D(5)]
  from pair r m nx show ?thesis
  proof (cases rule: iterate_append [where c = c])
    case (accepted P' n' w')
    have "caught_up n' w'" by (rule pair_caught_up [OF accepted(2)]) (use accepted(3,6) in simp)
    then show ?thesis by (rule replicatedI [OF _ accepted(4,5,7) trans [OF accepted(1) [symmetric] run]])
  next
    case (refused P' n' w')
    have len: "nat (nx - 1) \<le> length (p_log P i)" using nx(3) log_abs_last [OF R(6)] by simp
    have "nat (nx - 1) \<le> length (p_log P j)" using held(2) len take_eq_length by blast
    moreover have "0 \<le> base_index (n_log w)" by (rule log_absD(3) [OF node_relD(6) [OF D(6)]])
    ultimately have "base_index (n_log w) \<le> nx - 1 \<and> nx - 1 \<le> int (length (p_log P j))" using held(1) by linarith
    then have "term_at (nx - 1) (n_log w) = Some (final_term (take (nat (nx - 1)) (p_log P i)))"
      using pair_term_at [OF pair len] held(2) by blast
    then show ?thesis using refused(8) by blast
  qed
qed

text \<open>What is recorded for the follower, it holds.\<close>

definition record_true :: "int \<Rightarrow> raft_node \<Rightarrow> raft_node \<Rightarrow> bool" where
  "record_true m n w = (m \<le> base_index (n_log n) \<or> m \<le> base_index (n_log w) \<or> term_at m (n_log w) = term_at m (n_log n))"

lemma replicate_loop:
  assumes "pair_rel members P i j n w" "n_replication n = Some r" "map_of (match_index r) j = Some m"
    "map_of (next_index r) j = Some nx" "base_index (n_log w) < nx" "nx \<le> last_index (n_log n) + 1"
    "record_true m n w" "nat nx + 1 < fuel"
    "replicate_to_follower fuel (follower_network c) j (n, w) = (nw, res)"
  shows "replicated nw j n res"
  using assms
proof (induction "nat nx" arbitrary: P n w r nx fuel rule: less_induct)
  case less
  note pair = less.prems(1) and r = less.prems(2) and m = less.prems(3) and nx = less.prems(4)
  note D = pair_relD [OF pair]
  note R = node_relD [OF D(5)] and Rw = node_relD [OF D(6)]
  have base: "0 \<le> base_index (n_log w)" by (rule log_absD(3) [OF Rw(6)])
  obtain f where f: "fuel = Suc f" "nat nx < f" using less.prems(8) by (cases fuel) auto
  show ?case
  proof (cases "nx \<le> base_index (n_log n)")
    case True
    define k where "k = max m (base_index (n_log n))"
    have wn: "base_index (n_log w) \<le> base_index (n_log n)" using less.prems(5) True by simp
    have held: "m \<le> base_index (n_log n) \<or> term_at m (n_log w) = term_at m (n_log n)"
      using less.prems(7) wn by (auto simp: record_true_def)
    obtain P' n' w' where it:
      "\<And>fuel. replicate_to_follower (Suc fuel) (follower_network c) j (n, w) =
         (if k + 1 \<le> last_index (n_log n) then replicate_to_follower fuel (follower_network c) j (n', w')
          else ((n', w'), Some (Ok True)))"
      "pair_rel members P' i j n' w'" "p_log P' i = p_log P i" "n_state n' = n_state n" "n_log n' = n_log n"
      "take (nat k) (p_log P' j) = take (nat k) (p_log P i)" "base_index (n_log w') \<le> k"
      "n_replication n' = Some (progressed j k r)"
      by (rule iterate_install [where c = c, OF pair r m nx True wn k_def held]) blast
    have nk: "base_index (n_log n) \<le> k" by (simp add: k_def)
    show ?thesis
    proof (cases "k + 1 \<le> last_index (n_log n)")
      case True
      obtain f' where f': "f = Suc f'" using f(2) by (cases f) auto
      have run: "replicate_to_follower (Suc f') (follower_network c) j (n', w') = (nw, res)"
        using less.prems(9) it(1) [of f] True f(1) f' by simp
      have "replicated nw j n' res"
        by (rule replicate_held [OF it(2,8) progressed_lookup(1,2) _ _ _ _ run])
           (use it(3,5-7) True nk in simp_all)
      then show ?thesis by (rule replicated_log [OF it(5,4)])
    next
      case False
      have "base_index (n_log n) \<le> last_index (n_log n)" using log_absD(4) [OF R(6)] log_abs_last [OF R(6)] by simp
      then have k: "k = last_index (n_log n)" using False pair_replication(2) [OF pair r m] k_def by simp
      then have "nat k = length (p_log P i)" using log_abs_last [OF R(6)] by simp
      then have "caught_up n' w'" using it(3,6) by (intro pair_caught_up [OF it(2)]) simp
      moreover have "replicate_to_follower fuel (follower_network c) j (n, w) = ((n', w'), Some (Ok True))"
        using it(1) [of f] False f(1) by simp
      ultimately show ?thesis
        by (intro replicatedI [OF _ it(4,5,8) [unfolded k]] trans [OF _ less.prems(9)]) (simp_all only:)
    qed
  next
    case False
    then have above: "base_index (n_log n) < nx" by simp
    from pair r m nx above less.prems(6) show ?thesis
    proof (cases rule: iterate_append [where c = c])
      case (accepted P' n' w')
      have "caught_up n' w'" by (rule pair_caught_up [OF accepted(2)]) (use accepted(3,6) in simp)
      then show ?thesis
        by (rule replicatedI [OF _ accepted(4,5,7) trans [OF accepted(1) [symmetric] less.prems(9) [unfolded f(1)]]])
    next
      case (refused P' n' w')
      have below: "base_index (n_log w) < nx - 1"
      proof (rule ccontr)
        assume "\<not> base_index (n_log w) < nx - 1"
        then have b: "nx - 1 = base_index (n_log w)" using less.prems(5) by simp
        have "node_wf w" using Rw(1) by (simp add: node_ok_def)
        then have c: "nx - 1 \<le> commit_index (n_state w)" using data_wfD(7) [OF node_wf_data] b by simp
        note C = pair_committed [OF pair c]
        have "nx - 1 \<le> int (length (p_log P j))" using b log_absD(4) [OF Rw(6)] by simp
        then show False using refused(8) pair_term_at [OF pair C(2)] C(1) b by simp
      qed
      then have nx': "max 1 (nx - 1) = nx - 1" "nat (nx - 1) < nat nx" using base by simp_all
      have run: "replicate_to_follower f (follower_network c) j (n', w') = (nw, res)"
        using less.prems(9) refused(1) f(1) by simp
      have "replicated nw j n' res"
        by (rule less.hyps [OF nx'(2) refused(2) refused(7) [unfolded nx'(1)] _ _ _ _ _ _ run])
           (use m below less.prems(6,7) refused(5,6) f(2) nx'(2) in \<open>simp_all add: record_true_def\<close>)
      then show ?thesis by (rule replicated_log [OF refused(5,4)])
    qed
  qed
qed

section \<open>The loop that does not end\<close>

text \<open>
  A follower that has compacted its log past the index before \<open>next_index\<close> has no term to compare
  there and refuses. \<open>record_failure\<close> stops at index 1, and a leader that has compacted nothing has
  no snapshot to send: the worker repeats the same request for ever.
\<close>

lemma replicate_stuck:
  assumes "pair_rel members P i j n w" "n_replication n = Some r" "map_of (next_index r) j = Some 1"
    "base_index (n_log n) = 0" "0 < base_index (n_log w)"
  shows "snd (replicate_to_follower fuel (follower_network c) j (n, w)) = None"
  using assms
proof (induction fuel arbitrary: P n w r)
  case 0
  then show ?case by (simp add: replicate_to_follower.simps)
next
  case (Suc fuel)
  note D = pair_relD [OF Suc.prems(1)]
  note R = node_relD [OF D(5)]
  have "node_wf n" using R(1) by (simp add: node_ok_def)
  then have "wf_replication r (n_state n)" using Suc.prems(2) by (simp add: node_wf_def)
  then obtain m where m: "map_of (match_index r) j = Some m"
    using wf_replication_lookup pair_replication(1) [OF Suc.prems(1,2)] by metis
  have "wf_log (n_log w)" by (rule log_absD(1) [OF node_relD(6) [OF D(6)]])
  then have none: "term_at 0 (n_log w) = None" using term_at_None_iff [of "n_log w" 0] Suc.prems(5) by simp
  have "base_index (n_log n) < 1" "1 \<le> last_index (n_log n) + 1"
    using Suc.prems(4) log_abs_last [OF R(6)] by simp_all
  from Suc.prems(1,2) m Suc.prems(3) this show ?case
  proof (cases rule: iterate_append [where c = c])
    case (accepted P' n' w')
    then show ?thesis using none by simp
  next
    case (refused P' n' w')
    have "snd (replicate_to_follower fuel (follower_network c) j (n', w')) = None"
      by (rule Suc.IH [OF refused(2,7)]) (use refused(5,6) Suc.prems(4,5) in simp_all)
    then show ?thesis using refused(1) by simp
  qed
qed

end
