(* ===== verification/Transport.thy ===== *)
theory Transport
  imports RaftTypes
begin

text \<open>
  The in-process transport with fault injection, \<^verbatim>\<open>transport/memory.py\<close>: the registered handlers,
  the blocked nodes and links, the partition, the drop counters, the delays and the call counter.
  The lock makes each method atomic. A handler is a value of any type \<open>'h\<close>; an \<^verbatim>\<open>Event\<close> is a
  number, and setting it puts the number into \<open>set_events\<close>.
\<close>

section \<open>State and operations\<close>

datatype rpc_name = Request_vote | Append_entries | Install_snapshot | Timeout_now

type_synonym call_key = "rpc_name \<times> string \<times> string"

record 'h memory_transport =
  t_nodes :: "(string, 'h) dict"
  blocked :: "string set"
  blocked_links :: "(string \<times> string) set"
  partition_links :: "(string \<times> string) set"
  drops :: "(call_key, int) dict"
  delays :: "(call_key, nat) dict"
  calls :: "(call_key, int) dict"
  set_events :: "nat set"
  next_event :: nat

definition memory_init :: "'h memory_transport" where
  "memory_init = \<lparr>t_nodes = [], blocked = {}, blocked_links = {}, partition_links = {}, drops = [],
     delays = [], calls = [], set_events = {}, next_event = 0\<rparr>"

definition register :: "string \<Rightarrow> 'h \<Rightarrow> 'h memory_transport \<Rightarrow> 'h memory_transport" where
  "register nid handler t = t\<lparr>t_nodes := AList.update nid handler (t_nodes t)\<rparr>"

definition unregister :: "string \<Rightarrow> 'h memory_transport \<Rightarrow> 'h memory_transport" where
  "unregister nid t = t\<lparr>t_nodes := AList.delete nid (t_nodes t)\<rparr>"

definition block :: "string \<Rightarrow> 'h memory_transport \<Rightarrow> 'h memory_transport" where
  "block nid t = t\<lparr>blocked := insert nid (blocked t)\<rparr>"

definition unblock :: "string \<Rightarrow> 'h memory_transport \<Rightarrow> 'h memory_transport" where
  "unblock nid t = t\<lparr>blocked := blocked t - {nid}\<rparr>"

definition block_link :: "string \<Rightarrow> string \<Rightarrow> 'h memory_transport \<Rightarrow> 'h memory_transport" where
  "block_link source target t = t\<lparr>blocked_links := insert (source, target) (blocked_links t)\<rparr>"

definition unblock_link :: "string \<Rightarrow> string \<Rightarrow> 'h memory_transport \<Rightarrow> 'h memory_transport" where
  "unblock_link source target t = t\<lparr>blocked_links := blocked_links t - {(source, target)}\<rparr>"

text \<open>The first loop of \<open>partition\<close>: the groups are not empty and disjoint; their union.\<close>

fun partition_members :: "string set list \<Rightarrow> string set \<Rightarrow> string set result" where
  "partition_members [] members = Ok members"
| "partition_members (g # gs) members =
     (if g = {} then Err ValueError
      else if members \<inter> g \<noteq> {} then Err ValueError
      else partition_members gs (members \<union> g))"

text \<open>The nested loops: every pair of two groups, in both directions.\<close>

fun cross_links :: "string set list \<Rightarrow> (string \<times> string) set" where
  "cross_links [] = {}"
| "cross_links (g # gs) = (\<Union>other \<in> set gs. (g \<times> other) \<union> (other \<times> g)) \<union> cross_links gs"

definition partition_nodes :: "string set list \<Rightarrow> 'h memory_transport \<Rightarrow> 'h memory_transport result" where
  "partition_nodes groups t =
     (if length groups < 2 then Err ValueError
      else (case partition_members groups {} of
              Inl e \<Rightarrow> Err e
            | Inr members \<Rightarrow>
                (if members - fst ` set (t_nodes t) \<noteq> {} then Err ValueError
                 else if members \<noteq> fst ` set (t_nodes t) then Err ValueError
                 else Ok (t\<lparr>partition_links := cross_links groups\<rparr>))))"

definition heal_partition :: "'h memory_transport \<Rightarrow> 'h memory_transport" where
  "heal_partition t = t\<lparr>partition_links := {}\<rparr>"

definition heal :: "'h memory_transport \<Rightarrow> 'h memory_transport" where
  "heal t = t\<lparr>blocked := {}, blocked_links := {}, partition_links := {}, drops := [], delays := [],
              set_events := set_events t \<union> snd ` set (delays t)\<rparr>"

definition drop_next :: "rpc_name \<Rightarrow> string \<Rightarrow> string \<Rightarrow> int \<Rightarrow> 'h memory_transport \<Rightarrow> 'h memory_transport result" where
  "drop_next rpc source target count t =
     (if count \<le> 0 then Err ValueError
      else Ok (t\<lparr>drops := AList.update (rpc, source, target) count (drops t)\<rparr>))"

definition drop_request_vote :: "string \<Rightarrow> string \<Rightarrow> int \<Rightarrow> 'h memory_transport \<Rightarrow> 'h memory_transport result" where
  "drop_request_vote = drop_next Request_vote"

definition drop_append_entries :: "string \<Rightarrow> string \<Rightarrow> int \<Rightarrow> 'h memory_transport \<Rightarrow> 'h memory_transport result" where
  "drop_append_entries = drop_next Append_entries"

definition drop_install_snapshot :: "string \<Rightarrow> string \<Rightarrow> int \<Rightarrow> 'h memory_transport \<Rightarrow> 'h memory_transport result" where
  "drop_install_snapshot = drop_next Install_snapshot"

definition drop_timeout_now :: "string \<Rightarrow> string \<Rightarrow> int \<Rightarrow> 'h memory_transport \<Rightarrow> 'h memory_transport result" where
  "drop_timeout_now = drop_next Timeout_now"

definition delay :: "rpc_name \<Rightarrow> string \<Rightarrow> string \<Rightarrow> 'h memory_transport \<Rightarrow> 'h memory_transport \<times> nat" where
  "delay rpc source target t =
     (let event = next_event t
      in (t\<lparr>delays := AList.update (rpc, source, target) event (delays t), next_event := Suc event\<rparr>, event))"

definition delay_request_vote :: "string \<Rightarrow> string \<Rightarrow> 'h memory_transport \<Rightarrow> 'h memory_transport \<times> nat" where
  "delay_request_vote = delay Request_vote"

definition delay_append_entries :: "string \<Rightarrow> string \<Rightarrow> 'h memory_transport \<Rightarrow> 'h memory_transport \<times> nat" where
  "delay_append_entries = delay Append_entries"

definition delay_install_snapshot :: "string \<Rightarrow> string \<Rightarrow> 'h memory_transport \<Rightarrow> 'h memory_transport \<times> nat" where
  "delay_install_snapshot = delay Install_snapshot"

definition release :: "rpc_name \<Rightarrow> string \<Rightarrow> string \<Rightarrow> 'h memory_transport \<Rightarrow> 'h memory_transport" where
  "release rpc source target t =
     (case map_of (delays t) (rpc, source, target) of
        None \<Rightarrow> t
      | Some event \<Rightarrow> t\<lparr>delays := AList.delete (rpc, source, target) (delays t),
                        set_events := insert event (set_events t)\<rparr>)"

definition call_count :: "rpc_name \<Rightarrow> string \<Rightarrow> string \<Rightarrow> 'h memory_transport \<Rightarrow> int" where
  "call_count rpc source target t =
     (case map_of (calls t) (rpc, source, target) of None \<Rightarrow> 0 | Some n \<Rightarrow> n)"

text \<open>
  \<open>_get_node\<close> returns the handler and the event the call then waits on, if the link is delayed:
  the caller is blocked until the event is set.
\<close>

definition get_node ::
  "rpc_name \<Rightarrow> string \<Rightarrow> string \<Rightarrow> 'h memory_transport \<Rightarrow> 'h memory_transport \<times> ('h \<times> nat option) result" where
  "get_node rpc source target t =
     (let key = (rpc, source, target);
          t = t\<lparr>calls := AList.update key (call_count rpc source target t + 1) (calls t)\<rparr>
      in if source \<in> blocked t \<or> target \<in> blocked t \<or> (source, target) \<in> blocked_links t \<or>
            (source, target) \<in> partition_links t
         then (t, Err TransportError)
         else
           (let drops_remaining = (case map_of (drops t) key of None \<Rightarrow> 0 | Some k \<Rightarrow> k)
            in if drops_remaining \<noteq> 0 then
                 (t\<lparr>drops := (if drops_remaining = 1 then AList.delete key (drops t)
                              else AList.update key (drops_remaining - 1) (drops t))\<rparr>,
                  Err TransportError)
               else (case map_of (t_nodes t) target of
                       None \<Rightarrow> (t, Err TransportError)
                     | Some node \<Rightarrow> (t, Ok (node, map_of (delays t) key)))))"

text \<open>
  A remote call. \<open>handle\<close> is the handler's method on what the handler refers to; \<open>None\<close> is a call
  that is still waiting for its event.
\<close>

definition remote_call ::
  "rpc_name \<Rightarrow> string \<Rightarrow> string \<Rightarrow> ('h \<Rightarrow> 'w \<Rightarrow> 'w \<times> 'a result) \<Rightarrow> 'h memory_transport \<times> 'w \<Rightarrow>
   ('h memory_transport \<times> 'w) \<times> 'a result option" where
  "remote_call rpc source target handle tw =
     (case tw of (t, w) \<Rightarrow>
       (case get_node rpc source target t of
          (t, Inl e) \<Rightarrow> ((t, w), Some (Err e))
        | (t, Inr (node, waiting)) \<Rightarrow>
            (if (case waiting of None \<Rightarrow> True | Some event \<Rightarrow> event \<in> set_events t)
             then (case handle node w of (w, r) \<Rightarrow> ((t, w), Some r))
             else ((t, w), None))))"

definition memory_request_vote ::
  "('h \<Rightarrow> request_vote_request \<Rightarrow> 'w \<Rightarrow> 'w \<times> request_vote_response result) \<Rightarrow> string \<Rightarrow> request_vote_request \<Rightarrow>
   'h memory_transport \<times> 'w \<Rightarrow> ('h memory_transport \<times> 'w) \<times> request_vote_response result option" where
  "memory_request_vote handle target request =
     remote_call Request_vote (rv_candidate_id request) target (\<lambda>h. handle h request)"

definition memory_append_entries ::
  "('h \<Rightarrow> append_entries_request \<Rightarrow> 'w \<Rightarrow> 'w \<times> append_entries_response result) \<Rightarrow> string \<Rightarrow> append_entries_request \<Rightarrow>
   'h memory_transport \<times> 'w \<Rightarrow> ('h memory_transport \<times> 'w) \<times> append_entries_response result option" where
  "memory_append_entries handle target request =
     remote_call Append_entries (ae_leader_id request) target (\<lambda>h. handle h request)"

definition memory_timeout_now ::
  "('h \<Rightarrow> timeout_now_request \<Rightarrow> 'w \<Rightarrow> 'w \<times> timeout_now_response result) \<Rightarrow> string \<Rightarrow> timeout_now_request \<Rightarrow>
   'h memory_transport \<times> 'w \<Rightarrow> ('h memory_transport \<times> 'w) \<times> timeout_now_response result option" where
  "memory_timeout_now handle target request =
     remote_call Timeout_now (tn_leader_id request) target (\<lambda>h. handle h request)"

definition memory_install_snapshot ::
  "('h \<Rightarrow> install_snapshot_request \<Rightarrow> 'w \<Rightarrow> 'w \<times> install_snapshot_response result) \<Rightarrow> string \<Rightarrow> install_snapshot_request \<Rightarrow>
   'h memory_transport \<times> 'w \<Rightarrow> ('h memory_transport \<times> 'w) \<times> install_snapshot_response result option" where
  "memory_install_snapshot handle target request =
     remote_call Install_snapshot (is_leader_id request) target (\<lambda>h. handle h request)"

section \<open>What the faults do\<close>

text \<open>A link is open when none of the block sets holds it.\<close>

definition link_open :: "string \<Rightarrow> string \<Rightarrow> 'h memory_transport \<Rightarrow> bool" where
  "link_open source target t =
     (source \<notin> blocked t \<and> target \<notin> blocked t \<and> (source, target) \<notin> blocked_links t \<and>
      (source, target) \<notin> partition_links t)"

lemma get_node_closed:
  "\<not> link_open source target t \<Longrightarrow> snd (get_node rpc source target t) = Err TransportError"
  by (auto simp: get_node_def link_open_def Let_def)

text \<open>A failed call touches neither the handler nor the world.\<close>

lemma remote_call_failed:
  "remote_call rpc source target handle (t, w) = ((t', w'), Some (Err TransportError)) \<Longrightarrow>
   snd (get_node rpc source target t) = Err TransportError \<Longrightarrow> w' = w"
  by (auto simp: remote_call_def split: prod.splits sum.splits if_splits)

lemma cross_links_iff:
  "(a, b) \<in> cross_links gs \<longleftrightarrow> (\<exists>i j. i < length gs \<and> j < length gs \<and> i \<noteq> j \<and> a \<in> gs ! i \<and> b \<in> gs ! j)"
proof (induction gs)
  case Nil
  then show ?case by simp
next
  case (Cons g gs)
  have mem: "(\<exists>x \<in> set gs. b \<in> x) \<longleftrightarrow> (\<exists>j < length gs. b \<in> gs ! j)" for b
    by (metis in_set_conv_nth)
  have "(\<exists>i j. i < length (g # gs) \<and> j < length (g # gs) \<and> i \<noteq> j \<and> a \<in> (g # gs) ! i \<and> b \<in> (g # gs) ! j) \<longleftrightarrow>
      a \<in> g \<and> (\<exists>j < length gs. b \<in> gs ! j) \<or> b \<in> g \<and> (\<exists>i < length gs. a \<in> gs ! i) \<or>
      (\<exists>i j. i < length gs \<and> j < length gs \<and> i \<noteq> j \<and> a \<in> gs ! i \<and> b \<in> gs ! j)" (is "?l \<longleftrightarrow> ?r")
  proof
    assume ?l
    then obtain i j where "i < length (g # gs)" "j < length (g # gs)" "i \<noteq> j" "a \<in> (g # gs) ! i" "b \<in> (g # gs) ! j"
      by blast
    then show ?r by (cases i; cases j) auto
  next
    assume ?r
    then consider (1) j where "a \<in> g" "j < length gs" "b \<in> gs ! j"
      | (2) i where "b \<in> g" "i < length gs" "a \<in> gs ! i"
      | (3) i j where "i < length gs" "j < length gs" "i \<noteq> j" "a \<in> gs ! i" "b \<in> gs ! j" by blast
    then show ?l
    proof cases
      case (1 j)
      then show ?thesis by (intro exI [of _ 0] exI [of _ "Suc j"]) simp
    next
      case (2 i)
      then show ?thesis by (intro exI [of _ "Suc i"] exI [of _ 0]) simp
    next
      case (3 i j)
      then show ?thesis by (intro exI [of _ "Suc i"] exI [of _ "Suc j"]) simp
    qed
  qed
  then show ?case using Cons mem by auto
qed

lemma partition_members_Ok:
  assumes "partition_members gs m = Ok m'"
  shows "m' = m \<union> \<Union> (set gs)" "\<And>i j. i < length gs \<Longrightarrow> j < length gs \<Longrightarrow> i \<noteq> j \<Longrightarrow> gs ! i \<inter> gs ! j = {}"
    "\<forall>g \<in> set gs. g \<inter> m = {}"
proof -
  have "m' = m \<union> \<Union> (set gs) \<and> (\<forall>g \<in> set gs. g \<inter> m = {}) \<and>
      (\<forall>i j. i < length gs \<longrightarrow> j < length gs \<longrightarrow> i \<noteq> j \<longrightarrow> gs ! i \<inter> gs ! j = {})"
    using assms
  proof (induction gs arbitrary: m)
    case (Cons g gs)
    have p: "partition_members gs (m \<union> g) = Ok m'" "m \<inter> g = {}"
      using Cons.prems by (auto split: if_splits)
    note IH = Cons.IH [OF p(1)]
    have g: "g \<inter> gs ! k = {}" if "k < length gs" for k
      using IH nth_mem [OF that] by blast
    show ?case
    proof (intro conjI allI impI)
      show "m' = m \<union> \<Union> (set (g # gs))" "\<forall>x \<in> set (g # gs). x \<inter> m = {}"
        using IH p(2) by auto
      show "(g # gs) ! i \<inter> (g # gs) ! j = {}"
        if "i < length (g # gs)" "j < length (g # gs)" "i \<noteq> j" for i j
        using that g IH by (cases i; cases j) (simp_all add: Int_commute)
    qed
  qed simp
  note H = this
  show "m' = m \<union> \<Union> (set gs)" by (rule conjunct1 [OF H])
  show "\<forall>g \<in> set gs. g \<inter> m = {}" by (rule conjunct1 [OF conjunct2 [OF H]])
  show "gs ! i \<inter> gs ! j = {}" if "i < length gs" "j < length gs" "i \<noteq> j" for i j
    using conjunct2 [OF conjunct2 [OF H], rule_format, OF that] .
qed

lemma partition_separates:
  assumes p: "partition_nodes gs t = Ok t'" and i: "i < length gs" "a \<in> gs ! i" and j: "j < length gs" "b \<in> gs ! j"
  shows "(a, b) \<in> partition_links t' \<longleftrightarrow> i \<noteq> j"
proof -
  obtain m where m: "partition_members gs {} = Ok m" "t' = t\<lparr>partition_links := cross_links gs\<rparr>"
    using p by (auto simp: partition_nodes_def split: if_splits sum.splits)
  have "k = i \<and> l = j" if "k < length gs" "l < length gs" "a \<in> gs ! k" "b \<in> gs ! l" for k l
  proof
    show "k = i" using partition_members_Ok(2) [OF m(1) that(1) i(1)] that(3) i(2) by blast
    show "l = j" using partition_members_Ok(2) [OF m(1) that(2) j(1)] that(4) j(2) by blast
  qed
  then have "(\<exists>k l. k < length gs \<and> l < length gs \<and> k \<noteq> l \<and> a \<in> gs ! k \<and> b \<in> gs ! l) \<longleftrightarrow> i \<noteq> j"
    using i j by blast
  then show ?thesis by (simp add: m(2) cross_links_iff)
qed

lemma partition_effect:
  assumes p: "partition_nodes gs t = Ok t'" and i: "i < length gs" "a \<in> gs ! i" and j: "j < length gs" "b \<in> gs ! j"
  shows "(i \<noteq> j \<longrightarrow> (\<exists>t''. remote_call rpc a b handle (t', w) = ((t'', w), Some (Err TransportError)))) \<and>
    (i = j \<longrightarrow> link_open a b t' = link_open a b (heal_partition t)) \<and>
    link_open a b (heal_partition t') = link_open a b (heal_partition t)"
proof -
  note S = partition_separates [OF assms]
  have t': "t' = t\<lparr>partition_links := cross_links gs\<rparr>"
    using p by (auto simp: partition_nodes_def split: if_splits sum.splits)
  have "\<exists>t''. remote_call rpc a b handle (t', w) = ((t'', w), Some (Err TransportError))" if "i \<noteq> j"
  proof -
    have "\<not> link_open a b t'" using S that by (simp add: link_open_def)
    from get_node_closed [OF this, of rpc]
    obtain t'' where "get_node rpc a b t' = (t'', Err TransportError)" by (metis prod.collapse)
    then show ?thesis by (simp add: remote_call_def)
  qed
  moreover have "link_open a b t' = link_open a b (heal_partition t)" if "i = j"
    using S that by (auto simp: t' link_open_def heal_partition_def)
  moreover have "link_open a b (heal_partition t') = link_open a b (heal_partition t)"
    by (simp add: t' link_open_def heal_partition_def)
  ultimately show ?thesis by blast
qed

text \<open>\<open>n\<close> calls in a row.\<close>

fun calls_in_a_row :: "nat \<Rightarrow> rpc_name \<Rightarrow> string \<Rightarrow> string \<Rightarrow> 'h memory_transport \<Rightarrow>
    'h memory_transport \<times> ('h \<times> nat option) result list" where
  "calls_in_a_row 0 rpc source target t = (t, [])"
| "calls_in_a_row (Suc n) rpc source target t =
     (case get_node rpc source target t of (t, r) \<Rightarrow>
        (case calls_in_a_row n rpc source target t of (t, rs) \<Rightarrow> (t, r # rs)))"

lemma get_node_dropped:
  assumes "link_open source target t" "map_of (drops t) (rpc, source, target) = Some k" "0 < k"
  obtains t' where "get_node rpc source target t = (t', Err TransportError)" "link_open source target t'"
    "t_nodes t' = t_nodes t" "delays t' = delays t"
    "map_of (drops t') (rpc, source, target) = (if k = 1 then None else Some (k - 1))"
  using assms by (auto simp: get_node_def link_open_def Let_def)

lemma get_node_open:
  assumes "link_open source target t" "map_of (drops t) (rpc, source, target) = None"
    "map_of (t_nodes t) target = Some h"
  shows "snd (get_node rpc source target t) = Ok (h, map_of (delays t) (rpc, source, target))"
  using assms by (auto simp: get_node_def link_open_def Let_def)

lemma dropped_calls:
  "link_open source target t \<Longrightarrow> map_of (drops t) (rpc, source, target) = Some (int (Suc k)) \<Longrightarrow>
   map_of (t_nodes t) target = Some h \<Longrightarrow>
   snd (calls_in_a_row (Suc (Suc k)) rpc source target t) =
     replicate (Suc k) (Err TransportError) @ [Ok (h, map_of (delays t) (rpc, source, target))]"
proof (induction k arbitrary: t)
  case 0
  obtain t' where t': "get_node rpc source target t = (t', Err TransportError)" "link_open source target t'"
      "t_nodes t' = t_nodes t" "delays t' = delays t" "map_of (drops t') (rpc, source, target) = None"
    using get_node_dropped [OF 0(1,2)] by auto
  show ?case using get_node_open [OF t'(2,5)] 0(3) t'(1,3,4) by (simp add: case_prod_beta)
next
  case (Suc k)
  obtain t' where t': "get_node rpc source target t = (t', Err TransportError)" "link_open source target t'"
      "t_nodes t' = t_nodes t" "delays t' = delays t" "map_of (drops t') (rpc, source, target) = Some (int (Suc k))"
    using get_node_dropped [OF Suc.prems(1,2)] by auto
  show ?case
    using Suc.IH [OF t'(2,5)] Suc.prems(3) t'(1,3,4)
    by (simp del: calls_in_a_row.simps(2) add: calls_in_a_row.simps(2) [of "Suc (Suc k)"] case_prod_beta)
qed

lemma get_node_counts:
  "call_count rpc source target (fst (get_node rpc source target t)) = call_count rpc source target t + 1"
  by (simp add: get_node_def call_count_def Let_def split: option.splits)

lemma heal_opens:
  assumes "map_of (t_nodes t) target = Some h"
  shows "snd (get_node rpc source target (heal t)) = Ok (h, None)"
    "\<forall>event \<in> snd ` set (delays t). event \<in> set_events (heal t)"
  using get_node_open [of source target "heal t" rpc h] assms
  by (auto simp: heal_def link_open_def)

end
