(* ===== verification/RaftHttp.thy ===== *)
theory RaftHttp
  imports Serialization NodeHandlers
begin

text \<open>
  Raft messages over HTTP: the routes of \<^verbatim>\<open>api/raft.py\<close> in front of the node's handlers, and the
  client \<^verbatim>\<open>HTTPTransport\<close> of \<^verbatim>\<open>transport/http.py\<close>. FastAPI and httpx are not part of the
  repository: the client is a function \<open>post\<close> from URL and body to a reply, with a predicate
  \<open>is_success\<close> on status codes. When \<open>post\<close> reaches the routes of a node, a call through the
  transport is a call of the node's handler; whatever \<open>post\<close> does, a call fails with
  \<open>TransportError\<close> only.
\<close>

section \<open>Routes\<close>

text \<open>How a route ends: it returns, raises FastAPI's \<open>HTTPException\<close>, or lets another exception out.\<close>

datatype http_outcome =
    Returned json
  | HttpException int json
  | Raised error

text \<open>
  The shape all four routes share: decode the payload, answer 400 where the decoder raises one
  of the three exceptions caught, call the handler, encode the response.
\<close>

definition raft_route ::
  "(json \<Rightarrow> 'q result) \<Rightarrow> string \<Rightarrow> ('q \<Rightarrow> 'n \<Rightarrow> 'n \<times> 'a result) \<Rightarrow> ('a \<Rightarrow> json) \<Rightarrow> json \<Rightarrow> 'n \<Rightarrow>
   'n \<times> http_outcome" where
  "raft_route decode detail handle encode payload n =
     (case decode payload of
        Inl e \<Rightarrow> (n, if e \<in> {KeyError, TypeError, ValueError} then HttpException 400 (JStr detail) else Raised e)
      | Inr request \<Rightarrow>
          (case handle request n of
             (n, Inl e) \<Rightarrow> (n, Raised e)
           | (n, Inr response) \<Rightarrow> (n, Returned (encode response))))"

definition route_request_vote :: "clock \<Rightarrow> json \<Rightarrow> raft_node \<Rightarrow> raft_node \<times> http_outcome" where
  "route_request_vote c =
     raft_route request_vote_from_dict ''Invalid RequestVote payload'' (node_request_vote c)
       request_vote_response_to_dict"

definition route_append_entries :: "clock \<Rightarrow> json \<Rightarrow> raft_node \<Rightarrow> raft_node \<times> http_outcome" where
  "route_append_entries c =
     raft_route append_entries_from_dict ''Invalid AppendEntries payload'' (node_append_entries c)
       append_entries_response_to_dict"

definition route_install_snapshot :: "clock \<Rightarrow> json \<Rightarrow> raft_node \<Rightarrow> raft_node \<times> http_outcome" where
  "route_install_snapshot c =
     raft_route install_snapshot_from_dict ''Invalid InstallSnapshot payload'' (node_install_snapshot c)
       install_snapshot_response_to_dict"

definition route_timeout_now :: "json \<Rightarrow> raft_node \<Rightarrow> raft_node \<times> http_outcome" where
  "route_timeout_now =
     raft_route timeout_now_from_dict ''Invalid TimeoutNow payload'' node_timeout_now
       timeout_now_response_to_dict"

text \<open>The router: the prefix \<^verbatim>\<open>/raft\<close> and the path of each route; \<open>None\<close> is no route.\<close>

definition raft_router :: "clock \<Rightarrow> string \<Rightarrow> json \<Rightarrow> raft_node \<Rightarrow> (raft_node \<times> http_outcome) option" where
  "raft_router c path payload n =
     (if path = ''/raft'' @ ''/request-vote'' then Some (route_request_vote c payload n)
      else if path = ''/raft'' @ ''/append-entries'' then Some (route_append_entries c payload n)
      else if path = ''/raft'' @ ''/install-snapshot'' then Some (route_install_snapshot c payload n)
      else if path = ''/raft'' @ ''/timeout-now'' then Some (route_timeout_now payload n)
      else None)"

section \<open>The client\<close>

text \<open>
  What \<^verbatim>\<open>client.post\<close> ends with: an \<open>httpx.HTTPError\<close>, or a response, its status and what
  \<^verbatim>\<open>response.json()\<close> gives.
\<close>

datatype http_reply = HttpError | Reply int "json result"

text \<open>\<open>client_given\<close>: the constructor was passed a client; \<open>close\<close> then leaves it open.\<close>

record http_transport =
  addresses :: "(string, string) dict"
  owns_client :: bool
  client_open :: bool

definition rstrip_slash :: "string \<Rightarrow> string" where
  "rstrip_slash s = rev (dropWhile (\<lambda>c. c = CHR ''/'') (rev s))"

definition http_transport_init :: "(string, string) dict \<Rightarrow> bool \<Rightarrow> http_transport" where
  "http_transport_init addrs client_given =
     \<lparr>addresses = map (\<lambda>(node, address). (node, rstrip_slash address)) addrs,
      owns_client = (\<not> client_given), client_open = True\<rparr>"

definition http_close :: "http_transport \<Rightarrow> http_transport" where
  "http_close t = (if owns_client t then t\<lparr>client_open := False\<rparr> else t)"

definition http_url :: "http_transport \<Rightarrow> string \<Rightarrow> string \<Rightarrow> string result" where
  "http_url t target path =
     (case map_of (addresses t) target of
        None \<Rightarrow> Err TransportError
      | Some address \<Rightarrow> Ok (address @ path))"

text \<open>
  The shape of the four calls. The state \<open>w\<close> is whatever the network changes: the remote node
  among it.
\<close>

type_synonym 'w http_client = "(string \<Rightarrow> json \<Rightarrow> 'w \<Rightarrow> 'w \<times> http_reply) \<times> (int \<Rightarrow> bool)"

definition http_call ::
  "string \<Rightarrow> ('q \<Rightarrow> json) \<Rightarrow> (json \<Rightarrow> 'a result) \<Rightarrow> 'w http_client \<Rightarrow> http_transport \<Rightarrow> string \<Rightarrow> 'q \<Rightarrow> 'w \<Rightarrow>
   'w \<times> 'a result" where
  "http_call path encode decode client t target request w =
     (case client of (post, is_success) \<Rightarrow>
       (case http_url t target path of
          Inl e \<Rightarrow> (w, Err e)
        | Inr url \<Rightarrow>
            (case post url (encode request) w of
               (w, HttpError) \<Rightarrow> (w, Err TransportError)
             | (w, Reply status body) \<Rightarrow>
                 (w, if \<not> is_success status then Err TransportError
                     else catch {KeyError, TypeError, ValueError} TransportError
                            (case body of Inl e \<Rightarrow> Err e | Inr j \<Rightarrow> decode j)))))"

definition http_request_vote ::
  "'w http_client \<Rightarrow> http_transport \<Rightarrow> string \<Rightarrow> request_vote_request \<Rightarrow> 'w \<Rightarrow> 'w \<times> request_vote_response result" where
  "http_request_vote =
     http_call ''/raft/request-vote'' request_vote_to_dict request_vote_response_from_dict"

definition http_append_entries ::
  "'w http_client \<Rightarrow> http_transport \<Rightarrow> string \<Rightarrow> append_entries_request \<Rightarrow> 'w \<Rightarrow> 'w \<times> append_entries_response result" where
  "http_append_entries =
     http_call ''/raft/append-entries'' append_entries_to_dict append_entries_response_from_dict"

definition http_install_snapshot ::
  "'w http_client \<Rightarrow> http_transport \<Rightarrow> string \<Rightarrow> install_snapshot_request \<Rightarrow> 'w \<Rightarrow> 'w \<times> install_snapshot_response result" where
  "http_install_snapshot =
     http_call ''/raft/install-snapshot'' install_snapshot_to_dict install_snapshot_response_from_dict"

definition http_timeout_now ::
  "'w http_client \<Rightarrow> http_transport \<Rightarrow> string \<Rightarrow> timeout_now_request \<Rightarrow> 'w \<Rightarrow> 'w \<times> timeout_now_response result" where
  "http_timeout_now =
     http_call ''/raft/timeout-now'' timeout_now_to_dict timeout_now_response_from_dict"

section \<open>Only transport errors\<close>

text \<open>What the decoders of responses raise, the client catches.\<close>

lemma item_errors:
  "int_item j k = Err e \<Longrightarrow> e \<in> {KeyError, TypeError, ValueError}"
  "bool_item j k = Err e \<Longrightarrow> e \<in> {KeyError, TypeError, ValueError}"
  by (auto simp: items json_item_def py_int_def split: sum.splits json.splits option.splits)

lemma response_errors:
  "request_vote_response_from_dict j = Err e \<Longrightarrow> e \<in> {KeyError, TypeError, ValueError}"
  "append_entries_response_from_dict j = Err e \<Longrightarrow> e \<in> {KeyError, TypeError, ValueError}"
  "install_snapshot_response_from_dict j = Err e \<Longrightarrow> e \<in> {KeyError, TypeError, ValueError}"
  "timeout_now_response_from_dict j = Err e \<Longrightarrow> e \<in> {KeyError, TypeError, ValueError}"
  by (auto simp: request_vote_response_from_dict_def append_entries_response_from_dict_def
      install_snapshot_response_from_dict_def timeout_now_response_from_dict_def
      dest!: item_errors split: sum.splits)

text \<open>\<open>response.json()\<close> raises \<open>ValueError\<close> on a body that is not JSON.\<close>

definition json_bodies :: "'w http_client \<Rightarrow> bool" where
  "json_bodies client =
     (\<forall>url payload w w' status e. fst client url payload w = (w', Reply status (Inl e)) \<longrightarrow> e = ValueError)"

lemma http_call_errors:
  assumes "json_bodies client" "\<And>j x. decode j = Err x \<Longrightarrow> x \<in> {KeyError, TypeError, ValueError}"
    and "http_call path encode decode client t target request w = (w', Err e)"
  shows "e = TransportError"
proof -
  obtain post ok where client: "client = (post, ok)" by (cases client)
  show ?thesis
  proof (cases "http_url t target path")
    case (Inl x)
    then show ?thesis using assms(3) by (auto simp: http_call_def client http_url_def split: option.splits)
  next
    case (Inr url)
    show ?thesis
    proof (cases "post url (encode request) w")
      case (Pair v reply)
      show ?thesis
      proof (cases reply)
        case HttpError
        then show ?thesis using assms(3) Inr Pair by (simp add: http_call_def client)
      next
        case (Reply status body)
        have "body = Inl x \<Longrightarrow> x = ValueError" for x
          using assms(1) Pair Reply by (simp add: json_bodies_def client)
        then show ?thesis
          using assms(2,3) Inr Pair Reply
          by (auto simp: http_call_def client catch_def split: if_splits sum.splits)
      qed
    qed
  qed
qed

lemma http_call_only:
  assumes "json_bodies client" "\<And>j x. decode j = Err x \<Longrightarrow> x \<in> {KeyError, TypeError, ValueError}"
  shows "snd (http_call path encode decode client t target request w) \<in> {Err TransportError} \<union> range Ok"
proof (cases "http_call path encode decode client t target request w")
  case (Pair w' r)
  show ?thesis
  proof (cases r)
    case (Inl e)
    then have "http_call path encode decode client t target request w = (w', Err e)" using Pair by simp
    from http_call_errors [OF assms this] show ?thesis using Pair Inl by simp
  qed (simp add: Pair)
qed

section \<open>Client and routes together\<close>

text \<open>
  The reply the framework makes of a route's outcome: 200 with the returned JSON, the status of
  the \<open>HTTPException\<close> with its detail, 500 for an exception that escapes, 404 for no route.
\<close>

fun http_response :: "http_outcome \<Rightarrow> http_reply" where
  "http_response (Returned j) = Reply 200 (Ok j)"
| "http_response (HttpException status detail) = Reply status (Ok (JObj [(''detail'', detail)]))"
| "http_response (Raised e) = Reply 500 (Err ValueError)"

definition serve_raft :: "clock \<Rightarrow> string \<Rightarrow> json \<Rightarrow> raft_node \<Rightarrow> raft_node \<times> http_reply" where
  "serve_raft c path payload n =
     (case raft_router c path payload n of
        None \<Rightarrow> (n, Reply 404 (Ok (JObj [(''detail'', JStr ''Not Found'')])))
      | Some (n, out) \<Rightarrow> (n, http_response out))"

text \<open>A client whose posts to \<open>base\<close> reach the node; success is as httpx defines it.\<close>

definition reaches :: "raft_node http_client \<Rightarrow> string \<Rightarrow> clock \<Rightarrow> bool" where
  "reaches client base c =
     ((\<forall>path payload n. fst client (base @ path) payload n = serve_raft c path payload n) \<and>
      (\<forall>status. snd client status \<longleftrightarrow> 200 \<le> status \<and> status < 300))"

definition direct :: "'n \<times> 'a result \<Rightarrow> 'n \<times> 'a result" where
  "direct nr = (fst nr, catch UNIV TransportError (snd nr))"

lemma http_call_direct:
  assumes reach: "reaches client base c" and addr: "map_of (addresses t) target = Some base"
    and route: "raft_router c path (encode request) n = Some (raft_route decode_q detail handle encode_a (encode request) n)"
    and trip: "decode_q (encode request) = Ok request" "\<And>a. decode_a (encode_a a) = Ok a"
  shows "http_call path encode decode_a client t target request n = direct (handle request n)"
proof -
  obtain post ok where client: "client = (post, ok)" by (cases client)
  have post: "post (base @ path) (encode request) n = serve_raft c path (encode request) n"
    and ok: "ok 200" "\<not> ok 500"
    using reach by (simp_all add: reaches_def client)
  obtain n' r where h: "handle request n = (n', r)" by (cases "handle request n")
  show ?thesis
    using ok trip
    by (cases r) (simp_all add: http_call_def client http_url_def addr post serve_raft_def route raft_route_def h
        direct_def catch_def)
qed

lemma router_paths:
  "raft_router c ''/raft/request-vote'' j n = Some (route_request_vote c j n)"
  "raft_router c ''/raft/append-entries'' j n = Some (route_append_entries c j n)"
  "raft_router c ''/raft/install-snapshot'' j n = Some (route_install_snapshot c j n)"
  "raft_router c ''/raft/timeout-now'' j n = Some (route_timeout_now j n)"
  by (simp_all add: raft_router_def)

lemma http_direct:
  assumes "reaches client base c" "map_of (addresses t) target = Some base"
  shows "http_request_vote client t target rv n = direct (node_request_vote c rv n)"
    "http_append_entries client t target ae n = direct (node_append_entries c ae n)"
    "http_install_snapshot client t target ins n = direct (node_install_snapshot c ins n)"
    "http_timeout_now client t target tn n = direct (node_timeout_now tn n)"
proof -
  note call = http_call_direct [OF assms]
  show "http_request_vote client t target rv n = direct (node_request_vote c rv n)"
    unfolding http_request_vote_def
    by (rule call [where decode_q = request_vote_from_dict])
      (auto simp: router_paths route_request_vote_def encode)
  show "http_append_entries client t target ae n = direct (node_append_entries c ae n)"
    unfolding http_append_entries_def
    by (rule call [where decode_q = append_entries_from_dict])
      (auto simp: router_paths route_append_entries_def encode)
  show "http_install_snapshot client t target ins n = direct (node_install_snapshot c ins n)"
    unfolding http_install_snapshot_def
    by (rule call [where decode_q = install_snapshot_from_dict])
      (auto simp: router_paths route_install_snapshot_def encode)
  show "http_timeout_now client t target tn n = direct (node_timeout_now tn n)"
    unfolding http_timeout_now_def
    by (rule call [where decode_q = timeout_now_from_dict])
      (auto simp: router_paths route_timeout_now_def encode)
qed

text \<open>A payload that does not decode never reaches the node.\<close>

lemma raft_route_refuses:
  "decode payload = Err e \<Longrightarrow> raft_route decode detail handle enc payload n =
     (n, if e \<in> {KeyError, TypeError, ValueError} then HttpException 400 (JStr detail) else Raised e)"
  by (simp add: raft_route_def)

text \<open>
  An entry whose command is not an object: the decoder calls \<^verbatim>\<open>.get\<close> on it, and the
  \<open>AttributeError\<close> is none of the exceptions the route catches. The answer is 500, not 400.
\<close>

lemma malformed_command_escapes:
  "route_append_entries c
     (JObj [(''term'', JInt 1), (''leader_id'', JStr ''a''), (''prev_log_index'', JInt 0), (''prev_log_term'', JInt 0),
            (''entries'', JList [JObj [(''index'', JInt 1), (''term'', JInt 1), (''command'', JStr ''PUT'')]]),
            (''leader_commit'', JInt 0)]) n = (n, Raised AttributeError)"
  by (simp add: route_append_entries_def raft_route_def append_entries_from_dict_def log_entry_from_dict_def
      command_from_dict_def items json_get_def)

end
