(* ===== verification/CommandProcessor.thy ===== *)
theory CommandProcessor
  imports Outbound
begin

text \<open>
  The command processor of \<^verbatim>\<open>raft/command_processor.py\<close>: clients put commands into a bounded queue
  and wait on a future, a worker thread takes them out in batches and hands each batch to
  \<^verbatim>\<open>node.submit_commands\<close>. A step relation interleaves the clients, \<open>start\<close>, \<open>stop\<close> and every
  worker thread ever started. The node is reached through the interface \<open>batch_service\<close>: it
  answers every batch, and a successful answer holds one result per command. Under it no
  accepted command is lost or answered twice, and the workers drain the queue.
\<close>

section \<open>The processor\<close>

text \<open>A future is the number of its command, in the order of acceptance.\<close>

record queued_command =
  q_command :: raft_command
  q_future :: nat

text \<open>
  Where a worker thread is in \<open>_run\<close>: blocked in the outer \<open>get\<close>, in the loop of
  \<open>_collect_batch\<close>, in \<open>submit_commands\<close> (with the flag \<open>stopping\<close>), or at its end.
\<close>

datatype worker =
    Waiting
  | Collecting "queued_command list"
  | Submitting "queued_command list" bool
  | Finished

text \<open>
  \<^verbatim>\<open>None\<close> in the queue is the request to stop. \<open>cp_thread\<close> is \<open>_thread\<close>, an index into the list
  of all threads started; \<open>cp_results\<close> is what the futures have been resolved to.
\<close>

record command_processor =
  max_queue_size :: int
  max_batch_size :: int
  cp_queue :: "queued_command option list"
  cp_thread :: "nat option"
  cp_workers :: "worker list"
  cp_next :: nat
  cp_results :: "nat \<rightharpoonup> bool result"

definition processor_init :: "int \<Rightarrow> int \<Rightarrow> command_processor" where
  "processor_init queue_size batch_size =
     \<lparr>max_queue_size = queue_size, max_batch_size = batch_size, cp_queue = [], cp_thread = None,
      cp_workers = [], cp_next = 0, cp_results = Map.empty\<rparr>"

text \<open>\<^verbatim>\<open>queue.Queue\<close>: a size of zero or less is no bound.\<close>

definition queue_full :: "command_processor \<Rightarrow> bool" where
  "queue_full p = (0 < max_queue_size p \<and> max_queue_size p \<le> int (length (cp_queue p)))"

section \<open>The clients' operations\<close>

definition processor_start :: "command_processor \<Rightarrow> command_processor" where
  "processor_start p =
     (if cp_thread p \<noteq> None then p
      else p\<lparr>cp_workers := cp_workers p @ [Waiting], cp_thread := Some (length (cp_workers p))\<rparr>)"

text \<open>
  The section of \<open>stop\<close> under the lock, with the thread it then joins. \<open>put\<close> waits while the
  queue is full: \<open>None\<close>. The lock is held meanwhile, so nobody sees \<open>_thread\<close> before it is done.
\<close>

definition processor_stop :: "command_processor \<Rightarrow> (command_processor \<times> nat option) option" where
  "processor_stop p =
     (case cp_thread p of
        None \<Rightarrow> Some (p, None)
      | Some w \<Rightarrow>
          (if queue_full p then None
           else Some (p\<lparr>cp_thread := None, cp_queue := cp_queue p @ [None]\<rparr>, Some w)))"

text \<open>\<open>submit\<close> up to \<^verbatim>\<open>future.result()\<close>: the future the caller waits on.\<close>

definition processor_submit :: "raft_command \<Rightarrow> command_processor \<Rightarrow> command_processor \<times> nat result" where
  "processor_submit command p =
     (if cp_thread p = None then (p, Err RuntimeError)
      else if queue_full p then (p, Err CommandQueueFullError)
      else (p\<lparr>cp_queue := cp_queue p @ [Some \<lparr>q_command = command, q_future = cp_next p\<rparr>],
              cp_next := Suc (cp_next p)\<rparr>, Ok (cp_next p)))"

section \<open>The worker\<close>

text \<open>\<^verbatim>\<open>item = self._queue.get()\<close>; \<open>None\<close> where it blocks, here and below.\<close>

definition worker_get :: "nat \<Rightarrow> command_processor \<Rightarrow> command_processor option" where
  "worker_get w p =
     (case (nth_opt (cp_workers p) w, cp_queue p) of
        (Some Waiting, item # rest) \<Rightarrow>
          Some (p\<lparr>cp_queue := rest,
                  cp_workers := (cp_workers p)[w := (case item of None \<Rightarrow> Finished | Some q \<Rightarrow> Collecting [q])]\<rparr>)
      | _ \<Rightarrow> None)"

text \<open>
  One iteration of the loop of \<open>_collect_batch\<close>; \<open>expired\<close> says that the deadline passes, before
  \<open>get\<close> is called or while it waits.
\<close>

definition worker_collect :: "bool \<Rightarrow> nat \<Rightarrow> command_processor \<Rightarrow> command_processor option" where
  "worker_collect expired w p =
     (case nth_opt (cp_workers p) w of
        Some (Collecting batch) \<Rightarrow>
          (if max_batch_size p \<le> int (length batch) \<or> expired
           then Some (p\<lparr>cp_workers := (cp_workers p)[w := Submitting batch False]\<rparr>)
           else (case cp_queue p of
                   [] \<Rightarrow> None
                 | None # rest \<Rightarrow>
                     Some (p\<lparr>cp_queue := rest, cp_workers := (cp_workers p)[w := Submitting batch True]\<rparr>)
                 | Some q # rest \<Rightarrow>
                     Some (p\<lparr>cp_queue := rest, cp_workers := (cp_workers p)[w := Collecting (batch @ [q])]\<rparr>)))
      | _ \<Rightarrow> None)"

text \<open>A loop of \<open>set_result\<close> or \<open>set_exception\<close>: a future takes one value only.\<close>

fun set_results :: "(nat \<times> bool result) list \<Rightarrow> (nat \<rightharpoonup> bool result) \<Rightarrow> (nat \<rightharpoonup> bool result) \<times> unit result" where
  "set_results [] m = (m, Ok ())"
| "set_results ((f, r) # xs) m =
     (if m f \<noteq> None then (m, Err InvalidStateError) else set_results xs (m(f \<mapsto> r)))"

text \<open>\<^verbatim>\<open>zip(batch, results, strict=True)\<close> raises after the pairs it has yielded.\<close>

definition resolve_batch ::
  "queued_command list \<Rightarrow> bool list result \<Rightarrow> (nat \<rightharpoonup> bool result) \<Rightarrow> (nat \<rightharpoonup> bool result) \<times> unit result" where
  "resolve_batch batch outcome m =
     (case outcome of
        Inl e \<Rightarrow> set_results (map (\<lambda>q. (q_future q, Err e)) batch) m
      | Inr rs \<Rightarrow>
          (case set_results (zip (map q_future batch) (map Ok rs)) m of
             (m, Inl e) \<Rightarrow> (m, Err e)
           | (m, Inr _) \<Rightarrow> (m, if length rs = length batch then Ok () else Err ValueError)))"

text \<open>
  The rest of the iteration, once \<open>submit_commands\<close> has returned or raised; an exception that
  escapes here ends the thread.
\<close>

definition worker_finish :: "bool list result \<Rightarrow> nat \<Rightarrow> command_processor \<Rightarrow> command_processor option" where
  "worker_finish outcome w p =
     (case nth_opt (cp_workers p) w of
        Some (Submitting batch stopping) \<Rightarrow>
          (case resolve_batch batch outcome (cp_results p) of
             (m, r) \<Rightarrow>
               Some (p\<lparr>cp_results := m,
                       cp_workers := (cp_workers p)[w := if is_ok r \<and> \<not> stopping then Waiting else Finished]\<rparr>))
      | _ \<Rightarrow> None)"

section \<open>Steps\<close>

text \<open>
  \<open>service cs r\<close>: \<open>submit_commands\<close> may end with \<open>r\<close> on the commands \<open>cs\<close>. What else happens to
  the node is of no concern to the processor.
\<close>

inductive worker_step ::
  "(raft_command list \<Rightarrow> bool list result \<Rightarrow> bool) \<Rightarrow> command_processor \<Rightarrow> command_processor \<Rightarrow> bool"
  for service where
  get: "worker_get w p = Some p' \<Longrightarrow> worker_step service p p'"
| collect: "worker_collect expired w p = Some p' \<Longrightarrow> worker_step service p p'"
| finish: "nth_opt (cp_workers p) w = Some (Submitting batch stopping) \<Longrightarrow>
    service (map q_command batch) outcome \<Longrightarrow> worker_finish outcome w p = Some p' \<Longrightarrow>
    worker_step service p p'"

inductive processor_step ::
  "(raft_command list \<Rightarrow> bool list result \<Rightarrow> bool) \<Rightarrow> command_processor \<Rightarrow> command_processor \<Rightarrow> bool"
  for service where
  start: "processor_step service p (processor_start p)"
| stop: "processor_stop p = Some (p', w) \<Longrightarrow> processor_step service p p'"
| submit: "processor_submit command p = (p', r) \<Longrightarrow> processor_step service p p'"
| worker: "worker_step service p p' \<Longrightarrow> processor_step service p p'"

inductive processor_reachable ::
  "(raft_command list \<Rightarrow> bool list result \<Rightarrow> bool) \<Rightarrow> command_processor \<Rightarrow> bool" for service where
  init: "processor_reachable service (processor_init queue_size batch_size)"
| step: "processor_reachable service p \<Longrightarrow> processor_step service p p' \<Longrightarrow> processor_reachable service p'"

section \<open>The invariant\<close>

fun batch_of :: "worker \<Rightarrow> queued_command list" where
  "batch_of (Collecting batch) = batch"
| "batch_of (Submitting batch stopping) = batch"
| "batch_of _ = []"

text \<open>A worker that will still take an item from the queue.\<close>

fun live :: "worker \<Rightarrow> bool" where
  "live (Submitting batch stopping) = (\<not> stopping)"
| "live Finished = False"
| "live _ = True"

definition in_work :: "command_processor \<Rightarrow> nat list" where
  "in_work p = map q_future (concat (map batch_of (cp_workers p)))"

definition in_queue :: "command_processor \<Rightarrow> nat list" where
  "in_queue p = map q_future (List.map_filter id (cp_queue p))"

text \<open>
  Every accepted command is in exactly one place: the queue, the batch of one worker, or
  resolved. The queue holds the latest ones in order. There is one live worker for each stop
  request in the queue, and one more while the processor runs.
\<close>

definition processor_ok :: "command_processor \<Rightarrow> bool" where
  "processor_ok p =
     (distinct (in_work p) \<and> sorted_wrt (<) (in_queue p) \<and>
      (\<forall>f \<in> set (in_work p). \<forall>g \<in> set (in_queue p). f < g) \<and>
      (set (in_work p) \<union> set (in_queue p)) \<inter> dom (cp_results p) = {} \<and>
      set (in_work p) \<union> set (in_queue p) \<union> dom (cp_results p) = {..<cp_next p} \<and>
      (\<forall>w \<in> set (cp_workers p). sorted_wrt (<) (map q_future (batch_of w)) \<and>
         int (length (batch_of w)) \<le> max 1 (max_batch_size p)) \<and>
      length (filter live (cp_workers p)) =
        length (filter (\<lambda>x. x = None) (cp_queue p)) + (if cp_thread p = None then 0 else 1) \<and>
      (cp_thread p = None \<longrightarrow> cp_queue p = [] \<or> last (cp_queue p) = None) \<and>
      (0 < max_queue_size p \<longrightarrow> int (length (cp_queue p)) \<le> max_queue_size p))"

lemma processor_okD:
  assumes "processor_ok p"
  shows "distinct (in_work p)" "sorted_wrt (<) (in_queue p)"
    "\<And>f g. f \<in> set (in_work p) \<Longrightarrow> g \<in> set (in_queue p) \<Longrightarrow> f < g"
    "(set (in_work p) \<union> set (in_queue p)) \<inter> dom (cp_results p) = {}"
    "set (in_work p) \<union> set (in_queue p) \<union> dom (cp_results p) = {..<cp_next p}"
    "\<And>w. w \<in> set (cp_workers p) \<Longrightarrow> sorted_wrt (<) (map q_future (batch_of w)) \<and>
         int (length (batch_of w)) \<le> max 1 (max_batch_size p)"
    "length (filter live (cp_workers p)) =
        length (filter (\<lambda>x. x = None) (cp_queue p)) + (if cp_thread p = None then 0 else 1)"
    "cp_thread p = None \<Longrightarrow> cp_queue p = [] \<or> last (cp_queue p) = None"
    "0 < max_queue_size p \<Longrightarrow> int (length (cp_queue p)) \<le> max_queue_size p"
  using assms by (auto simp: processor_ok_def)

text \<open>Replacing the state of one worker.\<close>

lemma nth_opt_split:
  assumes "nth_opt ws w = Some v"
  obtains xs ys where "ws = xs @ v # ys" "\<And>x. ws[w := x] = xs @ x # ys"
proof
  have w: "w < length ws" "ws ! w = v" using assms by simp_all
  show "ws = take w ws @ v # drop (Suc w) ws" using id_take_nth_drop [OF w(1)] w(2) by simp
  show "ws[w := x] = take w ws @ x # drop (Suc w) ws" for x by (rule upd_conv_take_nth_drop [OF w(1)])
qed

lemma in_queue_simps [simp]:
  "List.map_filter id [] = []" "List.map_filter id (None # xs) = List.map_filter id xs"
  "List.map_filter id (Some x # xs) = x # List.map_filter id xs"
  "List.map_filter id (ys @ zs) = List.map_filter id ys @ List.map_filter id zs"
  by (simp_all add: map_filter_def)

lemma processor_init_ok: "processor_ok (processor_init queue_size batch_size)"
  by (auto simp: processor_ok_def processor_init_def in_work_def in_queue_def)

lemma processor_start_ok: "processor_ok p \<Longrightarrow> processor_ok (processor_start p)"
  by (auto simp: processor_ok_def processor_start_def in_work_def in_queue_def)

lemma processor_stop_ok:
  assumes step: "processor_stop p = Some (p', w)" and ok: "processor_ok p"
  shows "processor_ok p'"
proof (cases "cp_thread p")
  case None
  then show ?thesis using assms by (simp add: processor_stop_def)
next
  case (Some t)
  note D = processor_okD [OF ok]
  have f: "\<not> queue_full p" and p': "p' = p\<lparr>cp_thread := None, cp_queue := cp_queue p @ [None]\<rparr>"
    using step Some by (auto simp: processor_stop_def split: if_splits)
  have q: "in_queue p' = in_queue p" "in_work p' = in_work p"
    by (simp_all add: p' in_queue_def in_work_def)
  show ?thesis
    unfolding processor_ok_def q
  proof (intro conjI)
    show "\<forall>w \<in> set (cp_workers p'). sorted_wrt (<) (map q_future (batch_of w)) \<and>
        int (length (batch_of w)) \<le> max 1 (max_batch_size p')"
      using D(6) by (simp add: p')
    show "\<forall>f \<in> set (in_work p). \<forall>g \<in> set (in_queue p). f < g" using D(3) by blast
    show "length (filter live (cp_workers p')) =
        length (filter (\<lambda>x. x = None) (cp_queue p')) + (if cp_thread p' = None then 0 else 1)"
      using D(7) Some by (simp add: p')
  qed (use D(1,2,4,5) f in \<open>auto simp: p' queue_full_def\<close>)
qed

lemma processor_submit_ok:
  assumes step: "processor_submit command p = (p', r)" and ok: "processor_ok p"
  shows "processor_ok p'"
proof (cases "cp_thread p = None \<or> queue_full p")
  case True
  then show ?thesis using assms by (auto simp: processor_submit_def split: if_splits)
next
  case False
  note D = processor_okD [OF ok]
  have p': "p' = p\<lparr>cp_queue := cp_queue p @ [Some \<lparr>q_command = command, q_future = cp_next p\<rparr>],
              cp_next := Suc (cp_next p)\<rparr>"
    using step False by (simp add: processor_submit_def not_le split: if_splits)
  have q: "in_queue p' = in_queue p @ [cp_next p]" and w: "in_work p' = in_work p"
    by (simp_all add: p' in_queue_def in_work_def)
  have lt: "\<forall>f \<in> set (in_work p) \<union> set (in_queue p) \<union> dom (cp_results p). f < cp_next p"
    using D(5) by auto
  have new: "cp_next p \<notin> dom (cp_results p)" using lt by blast
  have all: "{..<Suc (cp_next p)} = insert (cp_next p) {..<cp_next p}" by auto
  show ?thesis
    unfolding processor_ok_def q w
  proof (intro conjI)
    show "(set (in_work p) \<union> set (in_queue p @ [cp_next p])) \<inter> dom (cp_results p') = {}"
      using D(4) new by (auto simp: p')
    show "set (in_work p) \<union> set (in_queue p @ [cp_next p]) \<union> dom (cp_results p') = {..<cp_next p'}"
      using D(5) by (simp add: p' all Un_assoc)
    show "\<forall>f \<in> set (in_work p). \<forall>g \<in> set (in_queue p @ [cp_next p]). f < g" using D(3) lt by auto
    show "sorted_wrt (<) (in_queue p @ [cp_next p])" using D(2) lt by (simp add: sorted_wrt_append)
    show "\<forall>w \<in> set (cp_workers p'). sorted_wrt (<) (map q_future (batch_of w)) \<and>
        int (length (batch_of w)) \<le> max 1 (max_batch_size p')"
      using D(6) by (simp add: p')
    show "length (filter live (cp_workers p')) =
        length (filter (\<lambda>x. x = None) (cp_queue p')) + (if cp_thread p' = None then 0 else 1)"
      using D(7) by (simp add: p')
  qed (use D(1) False in \<open>auto simp: p' queue_full_def\<close>)
qed

text \<open>
  The three things a worker does to the shared state before it answers: it changes its phase,
  takes a stop request, or moves the first command of the queue to its batch.
\<close>

lemma processor_phase_ok:
  assumes ok: "processor_ok p" and w: "nth_opt (cp_workers p) w = Some v"
    and v': "batch_of v' = batch_of v" "live v' = live v"
  shows "processor_ok (p\<lparr>cp_workers := (cp_workers p)[w := v']\<rparr>)"
proof -
  obtain xs ys where ws: "cp_workers p = xs @ v # ys" "\<And>x. (cp_workers p)[w := x] = xs @ x # ys"
    using nth_opt_split [OF w] by blast
  show ?thesis using ok v' unfolding processor_ok_def in_work_def in_queue_def ws(2)
    by (cases "live v") (simp_all add: ws(1))
qed

lemma take_stop_ok:
  assumes ok: "processor_ok p" and w: "nth_opt (cp_workers p) w = Some v" and q: "cp_queue p = None # rest"
    and v': "batch_of v' = batch_of v" "live v" "\<not> live v'"
  shows "processor_ok (p\<lparr>cp_queue := rest, cp_workers := (cp_workers p)[w := v']\<rparr>)"
proof -
  obtain xs ys where ws: "cp_workers p = xs @ v # ys" "\<And>x. (cp_workers p)[w := x] = xs @ x # ys"
    using nth_opt_split [OF w] by blast
  show ?thesis using ok v' unfolding processor_ok_def in_work_def in_queue_def ws(2)
    by (simp add: ws(1) q split: if_splits) linarith+
qed

lemma take_command_ok:
  assumes ok: "processor_ok p" and w: "nth_opt (cp_workers p) w = Some v" and q: "cp_queue p = Some q # rest"
    and v: "live v" "int (length (batch_of v)) < max 1 (max_batch_size p)"
  shows "processor_ok (p\<lparr>cp_queue := rest, cp_workers := (cp_workers p)[w := Collecting (batch_of v @ [q])]\<rparr>)"
proof -
  obtain xs ys where ws: "cp_workers p = xs @ v # ys" "\<And>x. (cp_workers p)[w := x] = xs @ x # ys"
    using nth_opt_split [OF w] by blast
  define p' where "p' = p\<lparr>cp_queue := rest, cp_workers := (cp_workers p)[w := Collecting (batch_of v @ [q])]\<rparr>"
  note D = processor_okD [OF ok]
  have ws': "cp_workers p' = xs @ Collecting (batch_of v @ [q]) # ys"
    by (simp add: p'_def ws(2))
  have iq: "in_queue p = q_future q # in_queue p'" by (simp add: in_queue_def p'_def q)
  have iw: "set (in_work p') = insert (q_future q) (set (in_work p))"
    unfolding in_work_def ws' ws(1) by auto
  have "q_future q \<notin> set (in_work p)" using D(3) [of "q_future q" "q_future q"] iq by auto
  then have dist: "distinct (in_work p')"
    using D(1) unfolding in_work_def ws' ws(1) by auto
  have sort: "sorted_wrt (<) (in_queue p')" "\<forall>g \<in> set (in_queue p'). q_future q < g"
    using D(2) iq by simp_all
  have batch: "sorted_wrt (<) (map q_future (batch_of v @ [q]))"
  proof -
    have "f < q_future q" if "f \<in> q_future ` set (batch_of v)" for f
      using D(3) [of f "q_future q"] that iq unfolding in_work_def ws(1) by auto
    then show ?thesis using D(6) [of v] ws(1) by (simp add: sorted_wrt_append)
  qed
  show ?thesis
    unfolding p'_def [symmetric] processor_ok_def iw
  proof (intro conjI)
    show "\<forall>f \<in> insert (q_future q) (set (in_work p)). \<forall>g \<in> set (in_queue p'). f < g"
      using D(3) sort(2) iq by auto
    show "(insert (q_future q) (set (in_work p)) \<union> set (in_queue p')) \<inter> dom (cp_results p') = {}"
      using D(4) iq by (auto simp: p'_def)
    show "insert (q_future q) (set (in_work p)) \<union> set (in_queue p') \<union> dom (cp_results p') = {..<cp_next p'}"
      using D(5) iq by (auto simp: p'_def)
    show "\<forall>w \<in> set (cp_workers p'). sorted_wrt (<) (map q_future (batch_of w)) \<and>
        int (length (batch_of w)) \<le> max 1 (max_batch_size p')"
    proof
      fix u assume "u \<in> set (cp_workers p')"
      then consider "u \<in> set (cp_workers p)" | "u = Collecting (batch_of v @ [q])"
        unfolding ws' ws(1) by auto
      then show "sorted_wrt (<) (map q_future (batch_of u)) \<and> int (length (batch_of u)) \<le> max 1 (max_batch_size p')"
        by cases (use D(6) batch v(2) in \<open>auto simp: p'_def\<close>)
    qed
    show "length (filter live (cp_workers p')) =
        length (filter (\<lambda>x. x = None) (cp_queue p')) + (if cp_thread p' = None then 0 else 1)"
      using D(7) v(1) unfolding ws' ws(1) by (simp add: p'_def q)
    show "cp_thread p' = None \<longrightarrow> cp_queue p' = [] \<or> last (cp_queue p') = None"
      using D(8) q by (auto simp: p'_def split: if_splits)
    show "0 < max_queue_size p' \<longrightarrow> int (length (cp_queue p')) \<le> max_queue_size p'"
      using D(9) q by (auto simp: p'_def)
  qed (use dist sort(1) in simp_all)
qed

lemma worker_get_ok:
  assumes "worker_get w p = Some p'" "processor_ok p"
  shows "processor_ok p'"
proof -
  obtain item rest where w: "nth_opt (cp_workers p) w = Some Waiting" and q: "cp_queue p = item # rest"
    and p': "p' = p\<lparr>cp_queue := rest, cp_workers := (cp_workers p)[w :=
      (case item of None \<Rightarrow> Finished | Some q \<Rightarrow> Collecting [q])]\<rparr>"
    using assms(1) unfolding worker_get_def by (auto split: option.splits worker.splits list.splits)
  show ?thesis
  proof (cases item)
    case None
    then show ?thesis using take_stop_ok [OF assms(2) w, of rest Finished] q p' by simp
  next
    case (Some x)
    then show ?thesis using take_command_ok [OF assms(2) w, of x rest] q p' by simp
  qed
qed

lemma worker_collect_ok:
  assumes "worker_collect expired w p = Some p'" "processor_ok p"
  shows "processor_ok p'"
proof -
  obtain batch where w: "nth_opt (cp_workers p) w = Some (Collecting batch)"
    using assms(1) unfolding worker_collect_def by (auto split: option.splits worker.splits)
  show ?thesis
  proof (cases "max_batch_size p \<le> int (length batch) \<or> expired")
    case True
    then show ?thesis
      using assms(1) w processor_phase_ok [OF assms(2) w, of "Submitting batch False"] unfolding worker_collect_def by simp
  next
    case False
    then obtain item rest where q: "cp_queue p = item # rest"
      using assms(1) w unfolding worker_collect_def by (auto split: list.splits)
    show ?thesis
    proof (cases item)
      case None
      then show ?thesis
        using assms(1) w False q take_stop_ok [OF assms(2) w, of rest "Submitting batch True"]
        unfolding worker_collect_def by simp
    next
      case (Some x)
      then show ?thesis
        using assms(1) w False q take_command_ok [OF assms(2) w, of x rest]
        unfolding worker_collect_def by simp
    qed
  qed
qed

text \<open>Resolving a batch: every future takes its value, once.\<close>

lemma set_results_all:
  assumes "distinct (map fst xs)" "fst ` set xs \<inter> dom m = {}"
  shows "set_results xs m = (m ++ map_of xs, Ok ())"
  using assms
proof (induction xs arbitrary: m)
  case (Cons x xs)
  obtain f r where x: "x = (f, r)" by (cases x)
  have "set_results xs (m(f \<mapsto> r)) = (m(f \<mapsto> r) ++ map_of xs, Ok ())"
  proof (rule Cons.IH)
    have "f \<notin> fst ` set xs" "fst ` set xs \<inter> dom m = {}" using Cons.prems x by auto
    then show "fst ` set xs \<inter> dom (m(f \<mapsto> r)) = {}" by (simp only: dom_fun_upd) simp
  qed (use Cons.prems in simp)
  moreover have "m(f \<mapsto> r) ++ map_of xs = m ++ map_of (x # xs)"
    using Cons.prems(1) x by (simp add: map_add_upd_left dom_map_of_conv_image_fst)
  moreover have "set_results (x # xs) m = set_results xs (m(f \<mapsto> r))"
    using Cons.prems(2) x by auto
  ultimately show ?case by (simp only:)
qed simp

definition answers :: "queued_command list \<Rightarrow> bool list result \<Rightarrow> (nat \<times> bool result) list" where
  "answers batch outcome =
     zip (map q_future batch) (case outcome of Inl e \<Rightarrow> map (\<lambda>_. Err e) batch | Inr rs \<Rightarrow> map Ok rs)"

lemma answers_keys: "(\<And>rs. outcome = Ok rs \<Longrightarrow> length rs = length batch) \<Longrightarrow>
    map fst (answers batch outcome) = map q_future batch"
  by (cases outcome) (simp_all add: answers_def)

lemma zip_map_const: "zip (map f xs) (map (\<lambda>_. c) xs) = map (\<lambda>x. (f x, c)) xs"
  by (induction xs) simp_all

lemma resolve_batch_all:
  assumes "distinct (map q_future batch)" "q_future ` set batch \<inter> dom m = {}"
    and len: "\<And>rs. outcome = Ok rs \<Longrightarrow> length rs = length batch"
  shows "resolve_batch batch outcome m = (m ++ map_of (answers batch outcome), Ok ())"
proof -
  have keys: "map fst (answers batch outcome) = map q_future batch" using answers_keys len by blast
  then have "fst ` set (answers batch outcome) = q_future ` set batch" by (metis image_set)
  then have "set_results (answers batch outcome) m = (m ++ map_of (answers batch outcome), Ok ())"
    using assms(1,2) keys by (intro set_results_all) simp_all
  then show ?thesis using len by (cases outcome) (simp_all add: resolve_batch_def answers_def zip_map_const)
qed

text \<open>The batch of a worker is part of the work, its futures are not resolved yet.\<close>

lemma batch_facts:
  assumes ok: "processor_ok p" and w: "nth_opt (cp_workers p) w = Some v"
  shows "distinct (map q_future (batch_of v))" "q_future ` set (batch_of v) \<inter> dom (cp_results p) = {}"
    "q_future ` set (batch_of v) \<subseteq> set (in_work p)"
proof -
  obtain xs ys where ws: "cp_workers p = xs @ v # ys"
    using nth_opt_split [OF w] by blast
  show sub: "q_future ` set (batch_of v) \<subseteq> set (in_work p)" unfolding in_work_def ws by auto
  show "distinct (map q_future (batch_of v))"
    using processor_okD(1) [OF ok] unfolding in_work_def ws by simp
  show "q_future ` set (batch_of v) \<inter> dom (cp_results p) = {}"
    using processor_okD(4) [OF ok] sub by blast
qed

lemma worker_finish_effect:
  assumes ok: "processor_ok p" and w: "nth_opt (cp_workers p) w = Some (Submitting batch stopping)"
    and len: "\<And>rs. outcome = Ok rs \<Longrightarrow> length rs = length batch"
  shows "worker_finish outcome w p =
     Some (p\<lparr>cp_results := cp_results p ++ map_of (answers batch outcome),
             cp_workers := (cp_workers p)[w := if stopping then Finished else Waiting]\<rparr>)"
  unfolding worker_finish_def w using resolve_batch_all [OF _ _ len] batch_facts(1,2) [OF ok w] by simp

lemma worker_finish_ok:
  assumes ok: "processor_ok p" and w: "nth_opt (cp_workers p) w = Some (Submitting batch stopping)"
    and len: "\<And>rs. outcome = Ok rs \<Longrightarrow> length rs = length batch"
    and step: "worker_finish outcome w p = Some p'"
  shows "processor_ok p'"
proof -
  obtain xs ys where ws: "cp_workers p = xs @ Submitting batch stopping # ys"
      "\<And>x. (cp_workers p)[w := x] = xs @ x # ys"
    using nth_opt_split [OF w] by blast
  have p': "p' = p\<lparr>cp_results := cp_results p ++ map_of (answers batch outcome),
             cp_workers := xs @ (if stopping then Finished else Waiting) # ys\<rparr>"
    using worker_finish_effect [OF ok w len] step ws(2) by simp
  note D = processor_okD [OF ok]
  have iq: "in_queue p' = in_queue p" by (simp add: in_queue_def p')
  have iw: "set (in_work p) = set (in_work p') \<union> q_future ` set batch"
    unfolding in_work_def p' by (auto simp: ws(1))
  have dist: "distinct (in_work p') \<and> set (in_work p') \<inter> q_future ` set batch = {}"
    using D(1) unfolding in_work_def p'
    by (simp add: ws(1) Int_Un_distrib Int_Un_distrib2 Int_commute [of "q_future ` set batch"])
  have "fst ` set (answers batch outcome) = q_future ` set batch"
    using answers_keys [OF len] by (metis image_set)
  then have dom: "dom (cp_results p') = dom (cp_results p) \<union> q_future ` set batch"
    by (simp add: p' dom_map_of_conv_image_fst Un_commute)
  have less: "f < g" if "f \<in> q_future ` set batch" "g \<in> set (in_queue p)" for f g
    using D(3) iw that by blast
  show ?thesis
    unfolding processor_ok_def iq dom
  proof (intro conjI)
    show "\<forall>f \<in> set (in_work p'). \<forall>g \<in> set (in_queue p). f < g" using D(3) iw by blast
    show "(set (in_work p') \<union> set (in_queue p)) \<inter> (dom (cp_results p) \<union> q_future ` set batch) = {}"
      using D(4) iw dist less by blast
    show "set (in_work p') \<union> set (in_queue p) \<union> (dom (cp_results p) \<union> q_future ` set batch) = {..<cp_next p'}"
      using D(5) iw by (auto simp: p')
    show "\<forall>w \<in> set (cp_workers p'). sorted_wrt (<) (map q_future (batch_of w)) \<and>
        int (length (batch_of w)) \<le> max 1 (max_batch_size p')"
      using D(6) by (auto simp: p' ws(1))
    show "length (filter live (cp_workers p')) =
        length (filter (\<lambda>x. x = None) (cp_queue p')) + (if cp_thread p' = None then 0 else 1)"
      using D(7) by (cases stopping) (simp_all add: p' ws(1))
  qed (use dist D(2,8,9) in \<open>auto simp: p'\<close>)
qed

section \<open>The interface to the node\<close>

text \<open>
  What the processor relies on: the node answers every batch, with one result per command
  unless it raises.
\<close>

locale batch_service =
  fixes service :: "raft_command list \<Rightarrow> bool list result \<Rightarrow> bool"
  assumes service_length: "service cs (Ok rs) \<Longrightarrow> length rs = length cs"
    and service_answers: "\<exists>r. service cs r"
begin

lemma worker_step_ok:
  assumes "worker_step service p p'" "processor_ok p"
  shows "processor_ok p'"
  using assms
proof cases
  case (get w)
  then show ?thesis using worker_get_ok assms(2) by blast
next
  case (collect expired w)
  then show ?thesis using worker_collect_ok assms(2) by blast
next
  case (finish w batch stopping outcome)
  have "length rs = length batch" if "outcome = Ok rs" for rs
    using service_length finish(2) that by force
  then show ?thesis using worker_finish_ok [OF assms(2) finish(1) _ finish(3)] by blast
qed

lemma processor_step_ok:
  assumes "processor_step service p p'" "processor_ok p"
  shows "processor_ok p'"
  using assms
  by cases (auto intro: processor_start_ok processor_stop_ok processor_submit_ok worker_step_ok)

lemma processor_reachable_ok: "processor_reachable service p \<Longrightarrow> processor_ok p"
  by (induction rule: processor_reachable.induct) (auto intro: processor_init_ok processor_step_ok)

text \<open>A worker that has taken a command can always go on; so can a live one while the queue holds an item.\<close>

lemma busy_worker_steps:
  assumes ok: "processor_ok p" and w: "nth_opt (cp_workers p) w = Some v" "v \<noteq> Waiting" "v \<noteq> Finished"
  shows "\<exists>p'. worker_step service p p'"
proof (cases v)
  case (Collecting batch)
  then show ?thesis
    using worker_step.collect [of True w p] w(1) unfolding worker_collect_def by fastforce
next
  case (Submitting batch stopping)
  obtain r where r: "service (map q_command batch) r" using service_answers by blast
  have "\<And>rs. r = Ok rs \<Longrightarrow> length rs = length batch" using service_length r by force
  then show ?thesis
    using worker_finish_effect [OF ok, of w batch stopping r] w(1) Submitting r worker_step.finish by metis
qed (use w in auto)

lemma live_worker_steps:
  assumes ok: "processor_ok p" and v: "v \<in> set (cp_workers p)" "live v" and q: "cp_queue p \<noteq> []"
  shows "\<exists>p'. worker_step service p p'"
proof -
  obtain w where w: "nth_opt (cp_workers p) w = Some v" using v(1) by (auto simp: in_set_conv_nth)
  show ?thesis
  proof (cases v)
    case Waiting
    then show ?thesis
      using worker_step.get [of w p] w q unfolding worker_get_def by (cases "cp_queue p") fastforce+
  next
    case (Collecting batch)
    then show ?thesis
      using worker_step.collect [of True w p] w unfolding worker_collect_def by fastforce
  next
    case (Submitting batch stopping)
    then obtain r where r: "service (map q_command batch) r" using service_answers by blast
    have "\<And>rs. r = Ok rs \<Longrightarrow> length rs = length batch" using service_length r by force
    then show ?thesis
      using worker_finish_effect [OF ok, of w batch stopping r] w Submitting r worker_step.finish by metis
  qed (use v in auto)
qed

text \<open>Nothing is stuck: when no worker can move, every accepted command has its answer.\<close>

lemma processor_quiescent:
  assumes ok: "processor_ok p" and stuck: "\<not> (\<exists>p'. worker_step service p p')"
  shows "cp_queue p = []" "in_work p = []" "dom (cp_results p) = {..<cp_next p}"
    "cp_thread p = None \<Longrightarrow> cp_workers p = replicate (length (cp_workers p)) Finished"
proof -
  note D = processor_okD [OF ok]
  have idle: "v = Waiting \<or> v = Finished" if "v \<in> set (cp_workers p)" for v
    using busy_worker_steps [OF ok, of _ v] stuck that by (force simp: in_set_conv_nth)
  show q: "cp_queue p = []"
  proof (rule ccontr)
    assume q: "cp_queue p \<noteq> []"
    have "filter live (cp_workers p) \<noteq> []"
    proof (cases "cp_thread p")
      case None
      then have "None \<in> set (cp_queue p)" using D(8) q by (metis last_in_set)
      then have "filter (\<lambda>x. x = None) (cp_queue p) \<noteq> []" by (auto simp: filter_empty_conv)
      then show ?thesis using D(7) by (auto simp: None)
    qed (use D(7) in auto)
    then obtain v where "v \<in> set (cp_workers p)" "live v" by (auto simp: filter_empty_conv)
    then show False using live_worker_steps [OF ok _ _ q] stuck by blast
  qed
  show w: "in_work p = []" using idle by (force simp: in_work_def)
  show "dom (cp_results p) = {..<cp_next p}" using D(5) q w by (simp add: in_queue_def)
  show "cp_workers p = replicate (length (cp_workers p)) Finished" if "cp_thread p = None"
  proof (rule replicate_eqI)
    fix v assume v: "v \<in> set (cp_workers p)"
    have "filter live (cp_workers p) = []" using D(7) q that by simp
    then have "\<not> live v" using v by (simp add: filter_empty_conv)
    then show "v = Finished" using idle [OF v] by auto
  qed simp
qed

text \<open>Every step of a worker uses up some of the work, so the workers come to rest.\<close>

end

fun weight :: "worker \<Rightarrow> nat" where
  "weight (Collecting batch) = 2"
| "weight (Submitting batch stopping) = 1"
| "weight _ = 0"

definition work_left :: "command_processor \<Rightarrow> nat" where
  "work_left p = 3 * length (cp_queue p) + sum_list (map weight (cp_workers p))"

lemma worker_step_work:
  assumes "worker_step service p p'"
  shows "work_left p' < work_left p"
  using assms
proof cases
  case (get w)
  then obtain item rest where w: "nth_opt (cp_workers p) w = Some Waiting" and q: "cp_queue p = item # rest"
    and p': "p' = p\<lparr>cp_queue := rest, cp_workers := (cp_workers p)[w :=
      (case item of None \<Rightarrow> Finished | Some q \<Rightarrow> Collecting [q])]\<rparr>"
    unfolding worker_get_def by (auto split: option.splits worker.splits list.splits)
  obtain xs ys where "cp_workers p = xs @ Waiting # ys" "\<And>x. (cp_workers p)[w := x] = xs @ x # ys"
    using nth_opt_split [OF w] by blast
  then show ?thesis using q by (simp add: p' work_left_def split: option.splits)
next
  case (collect expired w)
  then obtain batch where w: "nth_opt (cp_workers p) w = Some (Collecting batch)"
    unfolding worker_collect_def by (auto split: option.splits worker.splits)
  obtain xs ys where ws: "cp_workers p = xs @ Collecting batch # ys" "\<And>x. (cp_workers p)[w := x] = xs @ x # ys"
    using nth_opt_split [OF w] by blast
  show ?thesis
    using collect unfolding worker_collect_def w ws(2)
    by (auto simp: work_left_def ws(1) split: if_splits list.splits option.splits)
next
  case (finish w batch stopping outcome)
  obtain xs ys where ws: "cp_workers p = xs @ Submitting batch stopping # ys"
      "\<And>x. (cp_workers p)[w := x] = xs @ x # ys"
    using nth_opt_split [OF finish(1)] by blast
  show ?thesis
    using finish(3) unfolding worker_finish_def finish(1) ws(2)
    by (auto simp: work_left_def ws(1) split: prod.splits)
qed

lemma worker_run_bound: "(worker_step service ^^ k) p p' \<Longrightarrow> k + work_left p' \<le> work_left p"
proof (induction k arbitrary: p')
  case (Suc k)
  then obtain q where "(worker_step service ^^ k) p q" "worker_step service q p'" by auto
  then show ?case using Suc.IH [of q] worker_step_work [of service q p'] by simp
qed simp

context batch_service
begin

lemma workers_come_to_rest:
  "processor_ok p \<Longrightarrow>
   \<exists>k p'. (worker_step service ^^ k) p p' \<and> processor_ok p' \<and> \<not> (\<exists>p''. worker_step service p' p'')"
proof (induction "work_left p" arbitrary: p rule: less_induct)
  case less
  show ?case
  proof (cases "\<exists>q. worker_step service p q")
    case False
    then show ?thesis using less.prems by (intro exI [of _ 0] exI [of _ p]) simp
  next
    case True
    then obtain q where q: "worker_step service p q" by blast
    obtain k p' where k: "(worker_step service ^^ k) q p'" "processor_ok p'" "\<not> (\<exists>p''. worker_step service p' p'')"
      using less.hyps [OF worker_step_work [OF q] worker_step_ok [OF q less.prems]] by blast
    then have "(worker_step service ^^ Suc k) p p'" using q by (metis relpowp_Suc_I2)
    then show ?thesis using k(2,3) by blast
  qed
qed

end

text \<open>A step of a worker leaves the flags of the processor and the number of commands as they are.\<close>

lemma worker_step_frame:
  assumes "worker_step service p p'"
  shows "cp_thread p' = cp_thread p" "cp_next p' = cp_next p" "length (cp_workers p') = length (cp_workers p)"
  using assms
  by (auto elim!: worker_step.cases simp: worker_get_def worker_collect_def worker_finish_def
      split: option.splits worker.splits list.splits if_splits prod.splits)

lemma worker_run_frame: "(worker_step service ^^ k) p p' \<Longrightarrow>
    cp_thread p' = cp_thread p \<and> cp_next p' = cp_next p \<and> length (cp_workers p') = length (cp_workers p)"
proof (induction k arbitrary: p')
  case (Suc k)
  then obtain q where "(worker_step service ^^ k) p q" "worker_step service q p'" by auto
  then show ?case using Suc.IH [of q] worker_step_frame [of service q p'] by simp
qed simp

section \<open>The node as the service\<close>

inductive node_service :: "raft_command list \<Rightarrow> bool list result \<Rightarrow> bool" where
  "submit_commands cs env1 rnd env2 heartbeat_rnd nf = (nf', r) \<Longrightarrow> node_service cs r"

lemma append_commands_length: "append_commands trm cs l = (l', Ok es) \<Longrightarrow> length es = length cs"
  by (induction cs arbitrary: l es) (auto split: sum.splits prod.splits)

lemma append_commands_commands: "append_commands trm cs l = (l', Ok es) \<Longrightarrow> map entry_command es = cs"
  by (induction cs arbitrary: l es) (auto simp: log_append_def Let_def split: sum.splits prod.splits if_splits)

lemma submit_begin_commands: "submit_begin cs n = (n', Ok es) \<Longrightarrow> map entry_command es = cs"
  by (auto simp: submit_begin_def Let_def dest: append_commands_commands split: if_splits sum.splits prod.splits)

lemma submit_begin_length: "submit_begin cs n = (n', Ok es) \<Longrightarrow> length es = length cs"
  by (auto simp: submit_begin_def Let_def dest: append_commands_length split: if_splits sum.splits prod.splits)

lemma submit_commands_length:
  "submit_commands cs env1 rnd env2 heartbeat_rnd nf = (nf', Ok rs) \<Longrightarrow> length rs = length cs"
  by (auto simp: submit_commands_def submit_results_def Let_def dest!: submit_begin_length
      split: if_splits sum.splits prod.splits)

interpretation node_batches: batch_service node_service
proof
  show "length rs = length cs" if "node_service cs (Ok rs)" for cs rs
    using that by (auto elim!: node_service.cases dest: submit_commands_length)
  show "\<exists>r. node_service cs r" for cs
    by (metis node_service.intros surj_pair)
qed

text \<open>What a finished batch leaves behind, each future its own answer.\<close>

lemma answers_nth:
  assumes "distinct (map q_future batch)" "i < length batch" "\<And>rs. outcome = Ok rs \<Longrightarrow> length rs = length batch"
  shows "map_of (answers batch outcome) (q_future (batch ! i)) =
    Some (case outcome of Inl e \<Rightarrow> Err e | Inr rs \<Rightarrow> Ok (rs ! i))"
proof -
  let ?rs = "case outcome of Inl e \<Rightarrow> map (\<lambda>_. Err e) batch | Inr rs \<Rightarrow> map Ok rs"
  have len: "length ?rs = length batch" using assms(3) by (cases outcome) simp_all
  have "map_of (zip (map q_future batch) ?rs) (map q_future batch ! i) = Some (?rs ! i)"
    using assms(1,2) len by (intro map_of_zip_nth) simp_all
  moreover have "?rs ! i = (case outcome of Inl e \<Rightarrow> Err e | Inr rs \<Rightarrow> Ok (rs ! i))"
    using assms(2,3) by (cases outcome) simp_all
  ultimately show ?thesis using assms(2) by (simp add: answers_def)
qed

lemma node_batch_finishes:
  assumes reach: "processor_reachable node_service p"
    and w: "nth_opt (cp_workers p) w = Some (Submitting batch stopping)"
    and r: "node_service (map q_command batch) outcome"
  obtains p' where "worker_finish outcome w p = Some p'" "processor_reachable node_service p'"
    "\<And>i. i < length batch \<Longrightarrow> cp_results p' (q_future (batch ! i)) =
       Some (case outcome of Inl e \<Rightarrow> Err e | Inr rs \<Rightarrow> Ok (rs ! i))"
    "\<And>f. f \<notin> q_future ` set batch \<Longrightarrow> cp_results p' f = cp_results p f"
    "nth_opt (cp_workers p') w = Some (if stopping then Finished else Waiting)"
proof -
  have ok: "processor_ok p" by (rule node_batches.processor_reachable_ok [OF reach])
  have len: "\<And>rs. outcome = Ok rs \<Longrightarrow> length rs = length batch"
    using node_batches.service_length r by force
  let ?p' = "p\<lparr>cp_results := cp_results p ++ map_of (answers batch outcome),
             cp_workers := (cp_workers p)[w := if stopping then Finished else Waiting]\<rparr>"
  have F: "worker_finish outcome w p = Some ?p'"
    by (rule worker_finish_effect [OF ok w]) (use len in blast)
  have "distinct (map q_future batch)" using batch_facts(1) [OF ok w] by simp
  then have res: "(cp_results p ++ map_of (answers batch outcome)) (q_future (batch ! i)) =
      Some (case outcome of Inl e \<Rightarrow> Err e | Inr rs \<Rightarrow> Ok (rs ! i))" if "i < length batch" for i
    using answers_nth [of batch i outcome] that len by (simp add: map_add_def)
  have keys: "fst ` set (answers batch outcome) = q_future ` set batch"
    using answers_keys [OF len] by (metis image_set)
  have other: "(cp_results p ++ map_of (answers batch outcome)) f = cp_results p f" if "f \<notin> q_future ` set batch" for f
    using that keys by (metis map_add_dom_app_simps(3) dom_map_of_conv_image_fst)
  have "processor_reachable node_service ?p'"
    using processor_reachable.step [OF reach processor_step.worker [OF worker_step.finish [where service = node_service, OF w r F]]] .
  then show ?thesis using that [OF F] res other w by simp
qed

lemma node_batches_drain:
  assumes reach: "processor_reachable node_service p" and run: "(worker_step node_service ^^ k) p p'"
  shows "k \<le> work_left p"
    "\<not> (\<exists>p''. worker_step node_service p' p'') \<Longrightarrow> cp_queue p' = [] \<and> dom (cp_results p') = {..<cp_next p} \<and>
       (cp_thread p = None \<longrightarrow> cp_workers p' = replicate (length (cp_workers p)) Finished)"
proof -
  show "k \<le> work_left p" using worker_run_bound [OF run] by simp
  have "processor_reachable node_service p'"
    using run
  proof (induction k arbitrary: p')
    case (Suc k)
    then obtain q where "(worker_step node_service ^^ k) p q" "worker_step node_service q p'" by auto
    then show ?case using Suc.IH processor_reachable.step processor_step.worker by blast
  qed (simp add: reach)
  then have ok: "processor_ok p'" by (rule node_batches.processor_reachable_ok)
  note F = worker_run_frame [OF run]
  show "cp_queue p' = [] \<and> dom (cp_results p') = {..<cp_next p} \<and>
      (cp_thread p = None \<longrightarrow> cp_workers p' = replicate (length (cp_workers p)) Finished)"
    if "\<not> (\<exists>p''. worker_step node_service p' p'')"
    using node_batches.processor_quiescent [OF ok that] F by simp
qed

end
