(* ===== verification/Status.thy ===== *)
theory Status
  imports OutboundInvariant
begin

text \<open>
  The diagnostics of a node: \<^verbatim>\<open>RaftNode.status\<close> and the frozen dataclasses of
  \<^verbatim>\<open>raft/status.py\<close> with their dictionaries. Reading the status changes nothing; on a node
  that satisfies its invariant it never fails and reports every peer once, in sorted order.
\<close>

section \<open>The dataclasses\<close>

record follower_status =
  fs_node_id :: string
  fs_match_index :: int
  fs_next_index :: int
  replication_lag :: int

record raft_node_status =
  st_node_id :: string
  st_role :: string
  st_current_term :: int
  st_leader_id :: "string option"
  st_commit_index :: int
  st_last_applied :: int
  log_base_index :: int
  log_base_term :: int
  log_last_index :: int
  log_last_term :: int
  snapshot_index :: int
  snapshot_term :: int
  st_peers :: "string list"
  st_followers :: "follower_status list option"

definition follower_to_dict :: "follower_status \<Rightarrow> json" where
  "follower_to_dict f =
     JObj [(''node_id'', JStr (fs_node_id f)), (''match_index'', JInt (fs_match_index f)),
           (''next_index'', JInt (fs_next_index f)), (''replication_lag'', JInt (replication_lag f))]"

definition status_to_dict :: "raft_node_status \<Rightarrow> json" where
  "status_to_dict s =
     JObj [(''node_id'', JStr (st_node_id s)), (''role'', JStr (st_role s)),
           (''current_term'', JInt (st_current_term s)), (''leader_id'', json_opt (st_leader_id s)),
           (''commit_index'', JInt (st_commit_index s)), (''last_applied'', JInt (st_last_applied s)),
           (''log_base_index'', JInt (log_base_index s)), (''log_base_term'', JInt (log_base_term s)),
           (''log_last_index'', JInt (log_last_index s)), (''log_last_term'', JInt (log_last_term s)),
           (''snapshot_index'', JInt (snapshot_index s)), (''snapshot_term'', JInt (snapshot_term s)),
           (''peers'', JList (map JStr (st_peers s))),
           (''followers'', (case st_followers s of
              None \<Rightarrow> JNull | Some fs \<Rightarrow> JList (map follower_to_dict fs)))]"

section \<open>Reading the status\<close>

definition follower_status_of :: "raft_log \<Rightarrow> leader_replication \<Rightarrow> string \<Rightarrow> follower_status result" where
  "follower_status_of l r f =
     (case dict_item (match_index r) f of Inl e \<Rightarrow> Err e | Inr m \<Rightarrow>
     (case dict_item (next_index r) f of Inl e \<Rightarrow> Err e | Inr n \<Rightarrow>
        Ok \<lparr>fs_node_id = f, fs_match_index = m, fs_next_index = n,
            replication_lag = max 0 (last_index l - m)\<rparr>))"

text \<open>The followers are listed only by a leader that has its replication state.\<close>

definition status_followers :: "raft_node \<Rightarrow> follower_status list option result" where
  "status_followers n =
     (case n_replication n of
        None \<Rightarrow> Ok None
      | Some r \<Rightarrow>
          (if role (n_state n) \<noteq> LEADER then Ok None
           else (case map_result (follower_status_of (n_log n) r) (sort (followers r)) of
                   Inl e \<Rightarrow> Err e | Inr fs \<Rightarrow> Ok (Some fs))))"

definition node_status :: "raft_node \<Rightarrow> raft_node_status result" where
  "node_status n =
     (case status_followers n of
        Inl e \<Rightarrow> Err e
      | Inr fs \<Rightarrow>
          Ok \<lparr>st_node_id = n_id n, st_role = role_value (role (n_state n)),
              st_current_term = current_term (n_state n), st_leader_id = leader_id (n_state n),
              st_commit_index = commit_index (n_state n), st_last_applied = last_applied (n_state n),
              log_base_index = base_index (n_log n), log_base_term = base_term (n_log n),
              log_last_index = last_index (n_log n), log_last_term = last_term (n_log n),
              snapshot_index = last_included_index (n_snapshot n),
              snapshot_term = last_included_term (n_snapshot n),
              st_peers = sort (filter (\<lambda>m. m \<noteq> n_id n) (n_members n)), st_followers = fs\<rparr>)"

section \<open>What the status says\<close>

lemma map_result_all:
  assumes "\<And>x. x \<in> set xs \<Longrightarrow> \<exists>y. f x = Ok y \<and> P x y"
  shows "\<exists>ys. map_result f xs = Ok ys \<and> list_all2 P xs ys"
  using assms
proof (induction xs)
  case (Cons x xs)
  obtain y where y: "f x = Ok y" "P x y" using Cons.prems by auto
  obtain ys where "map_result f xs = Ok ys" "list_all2 P xs ys" using Cons by force
  then show ?case using y by simp
qed simp

lemma follower_status_Ok:
  assumes "wf_replication r s" "f \<in> set (followers r)"
  shows "\<exists>y. follower_status_of l r f = Ok y \<and> fs_node_id y = f \<and> 0 \<le> replication_lag y"
proof -
  obtain n m where "map_of (next_index r) f = Some n" "map_of (match_index r) f = Some m"
    using wf_replication_lookup [OF assms] by blast
  then show ?thesis by (simp add: follower_status_of_def dict_item_def)
qed

lemma status_followers_Ok:
  assumes "node_ok n"
  obtains fs where "status_followers n = Ok fs"
    "fs \<noteq> None \<longleftrightarrow> role (n_state n) = LEADER \<and> n_replication n \<noteq> None"
    "\<forall>ys. fs = Some ys \<longrightarrow> map fs_node_id ys = sort (filter (\<lambda>m. m \<noteq> n_id n) (n_members n)) \<and>
       (\<forall>y \<in> set ys. 0 \<le> replication_lag y)"
proof (cases "role (n_state n) = LEADER \<and> n_replication n \<noteq> None")
  case False
  then show ?thesis by (intro that [of None]) (auto simp: status_followers_def split: option.splits)
next
  case True
  then obtain r where r: "n_replication n = Some r" by blast
  have W: "wf_replication r (n_state n)" "repl_members r = n_members n" "node_id (n_state n) = n_id n"
    using assms r by (simp_all add: node_ok_def node_wf_def)
  have fol: "followers r = filter (\<lambda>m. m \<noteq> n_id n) (n_members n)"
    using W by (simp add: wf_replication_def)
  obtain ys where ys: "map_result (follower_status_of (n_log n) r) (sort (followers r)) = Ok ys"
      "list_all2 (\<lambda>f y. fs_node_id y = f \<and> 0 \<le> replication_lag y) (sort (followers r)) ys"
    using map_result_all [of "sort (followers r)" "follower_status_of (n_log n) r"
        "\<lambda>f y. fs_node_id y = f \<and> 0 \<le> replication_lag y", OF follower_status_Ok [OF W(1)]]
    unfolding set_sort by blast
  have "map fs_node_id ys = sort (followers r) \<and> (\<forall>f \<in> set ys. 0 \<le> replication_lag f)"
    using ys(2) by (induction rule: list_all2_induct) auto
  then show ?thesis using True r ys(1) fol by (intro that [of "Some ys"]) (simp_all add: status_followers_def)
qed

lemma node_status_reports:
  assumes ok: "node_ok n"
  obtains st where "node_status n = Ok st" "sorted (st_peers st)" "distinct (st_peers st)"
    "set (st_peers st) = set (n_members n) - {n_id n}"
    "snapshot_index st = log_base_index st" "log_base_index st \<le> st_commit_index st"
    "st_commit_index st \<le> log_last_index st" "st_last_applied st = st_commit_index st"
    "st_followers st \<noteq> None \<longleftrightarrow> role (n_state n) = LEADER \<and> n_replication n \<noteq> None"
    "\<And>fs. st_followers st = Some fs \<Longrightarrow> map fs_node_id fs = st_peers st \<and> (\<forall>f \<in> set fs. 0 \<le> replication_lag f)"
proof -
  have wf: "node_wf n" using ok by (simp add: node_ok_def)
  note D = data_wfD [OF node_wf_data [OF wf]]
  have W: "distinct (n_members n)" using wf by (simp add: node_wf_def)
  obtain fs where fs: "status_followers n = Ok fs"
      "fs \<noteq> None \<longleftrightarrow> role (n_state n) = LEADER \<and> n_replication n \<noteq> None"
      "\<forall>ys. fs = Some ys \<longrightarrow> map fs_node_id ys = sort (filter (\<lambda>m. m \<noteq> n_id n) (n_members n)) \<and>
       (\<forall>y \<in> set ys. 0 \<le> replication_lag y)"
    using status_followers_Ok [OF ok] by blast
  show ?thesis
    by (rule that) (use D(5,7,8,9) W fs in \<open>auto simp: node_status_def\<close>)
qed

end
