(* ===== verification/Storage.thy ===== *)
theory Storage
  imports Persistence StateMachine
begin

text \<open>
  The stand-alone storage engine: the write-ahead log (\<^verbatim>\<open>storage/wal.py\<close>), the snapshot file
  (\<^verbatim>\<open>storage/snapshot.py\<close>) and the engine over both (\<^verbatim>\<open>storage/engine.py\<close>). Recovery gives back
  the store after any sequence of operations, after a crash between writing a snapshot and
  truncating the log, and after a crash within an append. It does not repair the file: the
  record appended after a torn one is lost.
\<close>

section \<open>The write-ahead log\<close>

text \<open>The file is a sequence of lines, as the Raft journal is; \<open>None\<close> when it does not exist.\<close>

definition wal_record :: "string \<Rightarrow> string \<Rightarrow> string option \<Rightarrow> json" where
  "wal_record oper key val =
     JObj [(''operation'', JStr oper), (''key'', JStr key), (''value'', json_opt val)]"

definition wal_append :: "json \<Rightarrow> journal option \<Rightarrow> journal option" where
  "wal_append entry f =
     Some (append_lines [entry]
       (case f of None \<Rightarrow> \<lparr>complete_lines = [], unterminated = Blank\<rparr> | Some j \<Rightarrow> j))"

definition wal_append_put :: "string \<Rightarrow> string \<Rightarrow> journal option \<Rightarrow> journal option" where
  "wal_append_put key val f = wal_append (wal_record ''PUT'' key (Some val)) f"

definition wal_append_delete :: "string \<Rightarrow> journal option \<Rightarrow> journal option" where
  "wal_append_delete key f = wal_append (wal_record ''DELETE'' key None) f"

text \<open>A line that does not parse ends the replay if it is the last line, and is an error otherwise.\<close>

fun replay_lines :: "journal_line list \<Rightarrow> json list result" where
  "replay_lines [] = Ok []"
| "replay_lines (Blank # lines) = replay_lines lines"
| "replay_lines (Record entry # lines) =
     (case replay_lines lines of Inl e \<Rightarrow> Err e | Inr es \<Rightarrow> Ok (entry # es))"
| "replay_lines (Garbage # lines) = (if lines = [] then Ok [] else Err WALCorruptionError)"

definition wal_replay :: "journal option \<Rightarrow> json list result" where
  "wal_replay f = (case f of None \<Rightarrow> Ok [] | Some j \<Rightarrow> replay_lines (journal_lines j))"

definition wal_truncate :: "journal option \<Rightarrow> journal option" where
  "wal_truncate f = Some \<lparr>complete_lines = [], unterminated = Blank\<rparr>"

section \<open>The snapshot file\<close>

definition snapshot_store_save :: "kv_store \<Rightarrow> json_text option" where
  "snapshot_store_save data = Some (Valid (json_of_dict data))"

definition snapshot_store_load :: "json_text option \<Rightarrow> json result" where
  "snapshot_store_load f =
     (case f of None \<Rightarrow> Ok (JObj []) | Some Invalid \<Rightarrow> Err ValueError | Some (Valid data) \<Rightarrow> Ok data)"

section \<open>The engine\<close>

record storage_engine =
  engine_store :: kv_store
  wal_file :: "journal option"
  engine_snapshot :: "json_text option"

text \<open>
  The values of a snapshot and the fields of a record are strings or null in every file the
  program writes. A file with other types is refused with \<open>TypeError\<close>.
\<close>

definition string_field :: "string \<times> json \<Rightarrow> (string \<times> string option) result" where
  "string_field p = (case snd p of JNull \<Rightarrow> Ok (fst p, None) | JStr s \<Rightarrow> Ok (fst p, Some s) | _ \<Rightarrow> Err TypeError)"

definition apply_record :: "json \<Rightarrow> kv_store \<Rightarrow> kv_store result" where
  "apply_record entry store =
     (case entry of
        JObj d \<Rightarrow> (case map_result string_field d of Inl e \<Rightarrow> Err e | Inr r \<Rightarrow> kv_apply r store)
      | _ \<Rightarrow> Err TypeError)"

definition string_value :: "string \<times> json \<Rightarrow> (string \<times> string) result" where
  "string_value p = (case snd p of JStr s \<Rightarrow> Ok (fst p, s) | _ \<Rightarrow> Err TypeError)"

definition restore_json :: "json \<Rightarrow> kv_store \<Rightarrow> kv_store result" where
  "restore_json data store =
     (case data of
        JObj d \<Rightarrow> (case map_result string_value d of Inl e \<Rightarrow> Err e | Inr r \<Rightarrow> Ok (kv_restore r store))
      | _ \<Rightarrow> Err AttributeError)"

definition engine_recover :: "journal option \<Rightarrow> json_text option \<Rightarrow> kv_store result" where
  "engine_recover wal snap =
     (case snapshot_store_load snap of Inl e \<Rightarrow> Err e | Inr data \<Rightarrow>
     (case (if py_bool data then restore_json data kv_empty else Ok kv_empty) of
        Inl e \<Rightarrow> Err e
      | Inr store \<Rightarrow>
          (case wal_replay wal of Inl e \<Rightarrow> Err e | Inr es \<Rightarrow> for_each apply_record es store)))"

definition engine_init :: "journal option \<Rightarrow> json_text option \<Rightarrow> storage_engine result" where
  "engine_init wal snap =
     (case engine_recover wal snap of
        Inl e \<Rightarrow> Err e
      | Inr store \<Rightarrow> Ok \<lparr>engine_store = store, wal_file = wal, engine_snapshot = snap\<rparr>)"

definition engine_put :: "string \<Rightarrow> string \<Rightarrow> storage_engine \<Rightarrow> storage_engine" where
  "engine_put key val e =
     e\<lparr>wal_file := wal_append_put key val (wal_file e), engine_store := kv_put key val (engine_store e)\<rparr>"

definition engine_get :: "string \<Rightarrow> storage_engine \<Rightarrow> string option" where
  "engine_get key e = kv_get key (engine_store e)"

definition engine_delete :: "string \<Rightarrow> storage_engine \<Rightarrow> storage_engine \<times> bool" where
  "engine_delete key e =
     (if kv_get key (engine_store e) = None then (e, False)
      else (case kv_delete key (engine_store e) of
              (store, found) \<Rightarrow>
                (e\<lparr>wal_file := wal_append_delete key (wal_file e), engine_store := store\<rparr>, found)))"

definition engine_create_snapshot :: "storage_engine \<Rightarrow> storage_engine" where
  "engine_create_snapshot e =
     e\<lparr>engine_snapshot := snapshot_store_save (kv_snapshot (engine_store e)),
       wal_file := wal_truncate (wal_file e)\<rparr>"

section \<open>Replaying what was appended\<close>

text \<open>
  A log written by the engine is complete lines, each the record of one write; the state is the
  snapshot's with those writes run on it.
\<close>

definition write_record :: "kv_write \<Rightarrow> json" where
  "write_record w = (case w of Put k v \<Rightarrow> wal_record ''PUT'' k (Some v) | Delete k \<Rightarrow> wal_record ''DELETE'' k None)"

definition wal_holds :: "kv_write list \<Rightarrow> journal option \<Rightarrow> bool" where
  "wal_holds ws f =
     (case f of None \<Rightarrow> ws = []
      | Some j \<Rightarrow> unterminated j = Blank \<and> complete_lines j = map (Record \<circ> write_record) ws)"

definition snapshot_holds :: "kv_store \<Rightarrow> json_text option \<Rightarrow> bool" where
  "snapshot_holds st f = (f = None \<and> st = [] \<or> f = snapshot_store_save st)"

definition engine_ok :: "storage_engine \<Rightarrow> bool" where
  "engine_ok e = (dict_wf (engine_store e) \<and> (\<exists>ws st. dict_wf st \<and> wal_holds ws (wal_file e) \<and>
     snapshot_holds st (engine_snapshot e) \<and> engine_store e = kv.run_writes ws st))"

lemma replay_records [simp]: "replay_lines (map (Record \<circ> write_record) ws) = Ok (map write_record ws)"
  by (induction ws) auto

lemma replay_torn: "replay_lines (map (Record \<circ> write_record) ws @ [Garbage]) = Ok (map write_record ws)"
  by (induction ws) auto

lemma apply_record_write [simp]: "apply_record (write_record w) st = Ok (kv.run_writes [w] st)"
  by (cases w) (simp_all add: apply_record_def write_record_def wal_record_def json_opt_def string_field_def
      kv_apply_def dict_item_def)

lemma apply_records: "for_each apply_record (map write_record ws) st = Ok (kv.run_writes ws st)"
proof (induction ws arbitrary: st)
  case Nil
  then show ?case by simp
next
  case (Cons w ws)
  then show ?case by (cases w) simp_all
qed

lemma run_writes_append: "kv.run_writes (xs @ ys) st = kv.run_writes ys (kv.run_writes xs st)"
  by (induction xs st rule: kv.run_writes.induct) auto

lemma restore_saved: "restore_json (json_of_dict d) st = Ok d"
proof -
  have "map_result string_value (map (\<lambda>(k, v). (k, JStr v)) d) = Ok d"
    by (induction d) (auto simp: string_value_def)
  then show ?thesis by (simp add: restore_json_def json_of_dict_def kv_restore_def)
qed

lemma recover_snapshot:
  assumes "snapshot_holds st snap"
  shows "(case snapshot_store_load snap of Inl e \<Rightarrow> Err e | Inr data \<Rightarrow>
     (if py_bool data then restore_json data kv_empty else Ok kv_empty)) = Ok st"
  using assms
proof (unfold snapshot_holds_def, elim disjE conjE)
  assume snap: "snap = snapshot_store_save st"
  have "st = []" if "\<not> py_bool (json_of_dict st)" using that by (simp add: py_bool_def json_of_dict_def)
  then show ?thesis using restore_saved [of st kv_empty]
    by (auto simp: snap snapshot_store_load_def snapshot_store_save_def kv_empty_def)
qed (simp add: snapshot_store_load_def py_bool_def kv_empty_def)

lemma engine_recover_eq:
  assumes "snapshot_holds st snap" "wal_replay wal = Ok (map write_record ws)"
  shows "engine_recover wal snap = Ok (kv.run_writes ws st)"
  using recover_snapshot [OF assms(1)] assms(2) apply_records [of ws st]
  by (auto simp: engine_recover_def split: sum.splits if_splits)

lemma wal_holds_replay: "wal_holds ws f \<Longrightarrow> wal_replay f = Ok (map write_record ws)"
  by (auto simp: wal_holds_def wal_replay_def journal_lines_def split: option.splits)

lemma wal_holds_append: "wal_holds ws f \<Longrightarrow> wal_holds (ws @ [w]) (wal_append (write_record w) f)"
  by (auto simp: wal_holds_def wal_append_def append_lines_def split: option.splits)

section \<open>The engine's invariant\<close>

lemma engine_ok_recover:
  assumes "engine_ok e"
  shows "engine_recover (wal_file e) (engine_snapshot e) = Ok (engine_store e)"
  using assms engine_recover_eq wal_holds_replay by (auto simp: engine_ok_def)

lemma engine_ok_init: "engine_init None None = Ok e \<Longrightarrow> engine_ok e"
proof -
  assume e: "engine_init None None = Ok e"
  have h: "wal_holds [] None" "snapshot_holds [] None" by (simp_all add: wal_holds_def snapshot_holds_def)
  have "engine_recover None None = Ok []"
    using engine_recover_eq [OF h(2) wal_holds_replay [OF h(1)]] by simp
  then have "e = \<lparr>engine_store = [], wal_file = None, engine_snapshot = None\<rparr>"
    using e by (simp add: engine_init_def)
  moreover have "\<exists>ws st. dict_wf st \<and> wal_holds ws None \<and> snapshot_holds st None \<and> [] = kv.run_writes ws st"
    using h by (intro exI [of _ "[]"]) simp
  ultimately show ?thesis by (simp add: engine_ok_def)
qed

lemma engine_ok_write:
  assumes "engine_ok e" "wal_file e' = wal_append (write_record w) (wal_file e)"
    "engine_snapshot e' = engine_snapshot e" "engine_store e' = kv.run_writes [w] (engine_store e)"
  shows "engine_ok e'"
proof -
  obtain ws st where h: "dict_wf st" "wal_holds ws (wal_file e)" "snapshot_holds st (engine_snapshot e)"
      "engine_store e = kv.run_writes ws st"
    using assms(1) by (auto simp: engine_ok_def)
  have "wal_holds (ws @ [w]) (wal_file e')" using wal_holds_append [OF h(2)] assms(2) by simp
  moreover have "engine_store e' = kv.run_writes (ws @ [w]) st"
    using assms(4) h(4) by (simp add: run_writes_append)
  moreover have "dict_wf (kv.run_writes (ws @ [w]) st)" using kv.invar_run_writes h(1) by blast
  ultimately show ?thesis using h(1,3) assms(3) by (auto simp: engine_ok_def)
qed

lemma engine_ok_ops:
  assumes "engine_ok e"
  shows "engine_ok (engine_put k v e)" "engine_ok (fst (engine_delete k e))"
    "engine_ok (engine_create_snapshot e)"
proof -
  show "engine_ok (engine_put k v e)"
    by (rule engine_ok_write [OF assms, of _ "Put k v"])
       (simp_all add: engine_put_def wal_append_put_def write_record_def)
  show "engine_ok (fst (engine_delete k e))"
  proof (cases "kv_get k (engine_store e) = None")
    case True
    then show ?thesis using assms by (simp add: engine_delete_def)
  next
    case False
    then obtain v where "kv_get k (engine_store e) = Some v" by blast
    then show ?thesis
      by (intro engine_ok_write [OF assms, of _ "Delete k"])
         (simp_all add: engine_delete_def wal_append_delete_def write_record_def case_prod_beta)
  qed
  have wf: "dict_wf (engine_store e)" using assms by (simp add: engine_ok_def)
  have "wal_holds [] (wal_file (engine_create_snapshot e))"
    by (simp add: wal_holds_def wal_truncate_def engine_create_snapshot_def)
  moreover have "snapshot_holds (engine_store e) (engine_snapshot (engine_create_snapshot e))"
    by (simp add: snapshot_holds_def engine_create_snapshot_def kv_snapshot_def)
  moreover have "engine_store (engine_create_snapshot e) = kv.run_writes [] (engine_store e)"
    by (simp add: engine_create_snapshot_def)
  moreover have "dict_wf (engine_store (engine_create_snapshot e))"
    using wf by (simp add: engine_create_snapshot_def)
  ultimately show "engine_ok (engine_create_snapshot e)"
    unfolding engine_ok_def using wf by blast
qed

text \<open>A sequence of operations, and the writes it made.\<close>

datatype engine_op = Engine_put string string | Engine_delete string | Engine_snapshot

fun engine_step :: "engine_op \<Rightarrow> storage_engine \<Rightarrow> storage_engine" where
  "engine_step (Engine_put k v) e = engine_put k v e"
| "engine_step (Engine_delete k) e = fst (engine_delete k e)"
| "engine_step Engine_snapshot e = engine_create_snapshot e"

definition engine_run :: "engine_op list \<Rightarrow> storage_engine \<Rightarrow> storage_engine" where
  "engine_run = fold engine_step"

fun engine_writes :: "engine_op list \<Rightarrow> kv_write list" where
  "engine_writes [] = []"
| "engine_writes (Engine_put k v # es) = Put k v # engine_writes es"
| "engine_writes (Engine_delete k # es) = Delete k # engine_writes es"
| "engine_writes (Engine_snapshot # es) = engine_writes es"

definition empty_engine :: storage_engine where
  "empty_engine = \<lparr>engine_store = [], wal_file = None, engine_snapshot = None\<rparr>"

lemma empty_engine_init: "engine_init None None = Ok empty_engine"
  by (simp add: engine_init_def engine_recover_def snapshot_store_load_def py_bool_def wal_replay_def
      empty_engine_def kv_empty_def)

lemma engine_ok_run: "engine_ok e \<Longrightarrow> engine_ok (engine_run ops e)"
proof (induction ops arbitrary: e)
  case (Cons x ops)
  have "engine_ok (engine_step x e)" using engine_ok_ops [OF Cons.prems] by (cases x) simp_all
  then show ?case using Cons.IH by (simp add: engine_run_def)
qed (simp add: engine_run_def)

lemma engine_run_get:
  "engine_ok e \<Longrightarrow> engine_get k (engine_run ops e) = kv.last_write k (engine_get k e) (engine_writes ops)"
proof (induction ops arbitrary: e)
  case (Cons x ops)
  have "engine_ok (engine_step x e)" using engine_ok_ops [OF Cons.prems] by (cases x) simp_all
  from Cons.IH [OF this] show ?case
    by (cases x) (simp_all add: engine_run_def engine_get_def engine_put_def engine_delete_def engine_create_snapshot_def
        case_prod_beta)
qed (simp add: engine_run_def)

section \<open>Crashes\<close>

text \<open>Between writing the snapshot and truncating the log, the log is replayed on top of it.\<close>

lemma snapshot_then_crash:
  assumes "engine_ok e"
  shows "\<exists>store. engine_recover (wal_file e) (snapshot_store_save (engine_store e)) = Ok store \<and>
    (\<forall>k. kv_get k store = kv_get k (engine_store e))"
proof -
  obtain ws st where h: "dict_wf st" "wal_holds ws (wal_file e)" "engine_store e = kv.run_writes ws st"
    using assms by (auto simp: engine_ok_def)
  have "snapshot_holds (engine_store e) (snapshot_store_save (engine_store e))" by (simp add: snapshot_holds_def)
  from engine_recover_eq [OF this wal_holds_replay [OF h(2)]]
  show ?thesis using kv.get_run_writes_twice [OF h(1)] h(3) by auto
qed

text \<open>A crash within an append leaves part of the record, without its newline.\<close>

definition torn_wal :: "journal option \<Rightarrow> journal option" where
  "torn_wal f = Some \<lparr>complete_lines = (case f of None \<Rightarrow> [] | Some j \<Rightarrow> complete_lines j), unterminated = Garbage\<rparr>"

lemma torn_wal_recover:
  assumes "engine_ok e"
  shows "engine_recover (torn_wal (wal_file e)) (engine_snapshot e) = Ok (engine_store e)"
proof -
  obtain ws st where h: "wal_holds ws (wal_file e)" "snapshot_holds st (engine_snapshot e)"
      "engine_store e = kv.run_writes ws st"
    using assms by (auto simp: engine_ok_def)
  have "wal_replay (torn_wal (wal_file e)) = Ok (map write_record ws)"
    using h(1) replay_torn [of ws]
    by (auto simp: wal_replay_def torn_wal_def journal_lines_def wal_holds_def split: option.splits)
  then show ?thesis using engine_recover_eq [OF h(2)] h(3) by simp
qed

text \<open>
  The torn text is still there when the recovered engine appends, so the next record joins its
  line: it is lost at the next recovery, and the one after it makes recovery fail.
\<close>

lemma append_after_torn:
  assumes "engine_ok e"
  shows "engine_recover (wal_append (write_record w) (torn_wal (wal_file e))) (engine_snapshot e) = Ok (engine_store e)"
    "engine_recover (wal_append (write_record w') (wal_append (write_record w) (torn_wal (wal_file e))))
       (engine_snapshot e) = Err WALCorruptionError"
proof -
  obtain ws st where h: "wal_holds ws (wal_file e)" "snapshot_holds st (engine_snapshot e)"
      "engine_store e = kv.run_writes ws st"
    using assms by (auto simp: engine_ok_def)
  have "wal_replay (wal_append (write_record w) (torn_wal (wal_file e))) = Ok (map write_record ws)"
    using h(1) replay_torn [of ws]
    by (auto simp: wal_replay_def wal_append_def append_lines_def torn_wal_def journal_lines_def wal_holds_def
        split: option.splits)
  then show "engine_recover (wal_append (write_record w) (torn_wal (wal_file e))) (engine_snapshot e) = Ok (engine_store e)"
    using engine_recover_eq [OF h(2)] h(3) by simp
  have corrupt: "replay_lines (map (Record \<circ> write_record) ws @ [Garbage, Record x]) = Err WALCorruptionError" for x
    by (induction ws) auto
  have "wal_replay (wal_append (write_record w') (wal_append (write_record w) (torn_wal (wal_file e)))) = Err WALCorruptionError"
    using h(1) corrupt
    by (auto simp: wal_replay_def wal_append_def append_lines_def torn_wal_def journal_lines_def wal_holds_def
        split: option.splits)
  then show "engine_recover (wal_append (write_record w') (wal_append (write_record w) (torn_wal (wal_file e))))
       (engine_snapshot e) = Err WALCorruptionError"
    using recover_snapshot [OF h(2)]
    by (auto simp: engine_recover_def split: sum.splits if_splits)
qed

end
