(* ===== verification/ClientApi.thy ===== *)
theory ClientApi
  imports RaftHttp CommandProcessor Status Storage NodeLife
begin

text \<open>
  The HTTP interface for clients: the key routes of a node (\<^verbatim>\<open>api/cluster.py\<close>), its status route
  (\<^verbatim>\<open>api/admin.py\<close>) and the single-node application over the storage engine (\<^verbatim>\<open>api/app.py\<close>).
  The body of a PUT has been validated by the framework: it is the string \<open>value\<close>.
\<close>

section \<open>Keys of the cluster\<close>

definition error_detail :: "string \<Rightarrow> json" where
  "error_detail name = JObj [(''error'', JStr name)]"

definition not_leader_detail :: "raft_node \<Rightarrow> json" where
  "not_leader_detail n = JObj [(''error'', JStr ''not_leader''), (''leader_id'', json_opt (leader_id (n_state n)))]"

text \<open>The three \<^verbatim>\<open>except\<close> clauses of a write; the node is read when the clause runs.\<close>

definition write_error :: "error \<Rightarrow> raft_node \<Rightarrow> http_outcome" where
  "write_error e n =
     (if e = CommandQueueFullError then HttpException 429 (error_detail ''command_queue_full'')
      else if e = LeadershipTransferInProgressError
        then HttpException 503 (error_detail ''leadership_transfer_in_progress'')
      else if e = NotLeaderError then HttpException 409 (not_leader_detail n)
      else Raised e)"

text \<open>
  A write goes to the node itself, or to the command processor where there is one. \<open>node\<close> finds
  the node in the state \<open>s\<close>; \<open>put\<close> and \<open>delete\<close> are the node's methods, \<open>processor\<close> is
  \<^verbatim>\<open>command_processor.submit\<close>.
\<close>

type_synonym 's write_call = "'s \<Rightarrow> 's \<times> bool result"

definition put_key ::
  "('s \<Rightarrow> raft_node) \<Rightarrow> (string \<Rightarrow> string \<Rightarrow> 's write_call) \<Rightarrow> (raft_command \<Rightarrow> 's write_call) option \<Rightarrow>
   string \<Rightarrow> string \<Rightarrow> 's \<Rightarrow> 's \<times> http_outcome" where
  "put_key node put processor key val s =
     (case (case processor of
              None \<Rightarrow> put key val s
            | Some submit \<Rightarrow>
                submit \<lparr>operation = ''PUT'', cmd_key = key, cmd_value = Some val\<rparr> s) of
        (s, Inl e) \<Rightarrow> (s, write_error e (node s))
      | (s, Inr committed) \<Rightarrow>
          (s, if \<not> committed then HttpException 503 (error_detail ''quorum_unavailable'')
              else Returned (JObj [(''key'', JStr key), (''value'', JStr val), (''committed'', JBool True),
                                   (''leader_id'', JStr (n_id (node s)))])))"

definition get_key ::
  "('s \<Rightarrow> raft_node) \<Rightarrow> (string \<Rightarrow> 's \<Rightarrow> 's \<times> string option result) \<Rightarrow> string \<Rightarrow> 's \<Rightarrow> 's \<times> http_outcome" where
  "get_key node get key s =
     (case get key s of
        (s, Inl e) \<Rightarrow>
          (s, if e = NotLeaderError then HttpException 409 (not_leader_detail (node s))
              else if e = ReadQuorumError then HttpException 503 (error_detail ''quorum_unavailable'')
              else Raised e)
      | (s, Inr None) \<Rightarrow> (s, HttpException 404 (JStr ''Key not found''))
      | (s, Inr (Some val)) \<Rightarrow>
          (s, Returned (JObj [(''key'', JStr key), (''value'', JStr val), (''node_id'', JStr (n_id (node s))),
                              (''leader_id'', json_opt (leader_id (n_state (node s))))])))"

definition delete_key ::
  "('s \<Rightarrow> raft_node) \<Rightarrow> (string \<Rightarrow> 's write_call) \<Rightarrow> (raft_command \<Rightarrow> 's write_call) option \<Rightarrow>
   string \<Rightarrow> 's \<Rightarrow> 's \<times> http_outcome" where
  "delete_key node delete processor key s =
     (case (case processor of
              None \<Rightarrow> delete key s
            | Some submit \<Rightarrow>
                submit \<lparr>operation = ''DELETE'', cmd_key = key, cmd_value = None\<rparr> s) of
        (s, Inl e) \<Rightarrow> (s, write_error e (node s))
      | (s, Inr committed) \<Rightarrow>
          (s, if \<not> committed then HttpException 503 (error_detail ''quorum_unavailable'')
              else Returned (JObj [(''key'', JStr key), (''deleted'', JBool True), (''committed'', JBool True),
                                   (''leader_id'', JStr (n_id (node s)))])))"

section \<open>Diagnostics\<close>

definition cluster_status :: "raft_node \<Rightarrow> http_outcome" where
  "cluster_status n =
     (case node_status n of Inl e \<Rightarrow> Raised e | Inr st \<Rightarrow> Returned (status_to_dict st))"

section \<open>The single-node application\<close>

definition put_value :: "string \<Rightarrow> string \<Rightarrow> storage_engine \<Rightarrow> storage_engine \<times> http_outcome" where
  "put_value key val e =
     (engine_put key val e, Returned (JObj [(''key'', JStr key), (''value'', JStr val)]))"

definition get_value :: "string \<Rightarrow> storage_engine \<Rightarrow> http_outcome" where
  "get_value key e =
     (case engine_get key e of
        None \<Rightarrow> HttpException 404 (JStr ''Key not found'')
      | Some val \<Rightarrow> Returned (JObj [(''key'', JStr key), (''value'', JStr val)]))"

definition delete_value :: "string \<Rightarrow> storage_engine \<Rightarrow> storage_engine \<times> http_outcome" where
  "delete_value key e =
     (case engine_delete key e of
        (e, deleted) \<Rightarrow>
          (e, if \<not> deleted then HttpException 404 (JStr ''Key not found'')
              else Returned (JObj [(''key'', JStr key), (''status'', JStr ''deleted'')])))"

section \<open>What a client is told\<close>

text \<open>The status of a write is a function of how the submission ended.\<close>

fun write_status :: "bool result \<Rightarrow> int option" where
  "write_status (Inr committed) = Some (if committed then 200 else 503)"
| "write_status (Inl CommandQueueFullError) = Some 429"
| "write_status (Inl LeadershipTransferInProgressError) = Some 503"
| "write_status (Inl NotLeaderError) = Some 409"
| "write_status (Inl _) = None"

fun outcome_status :: "http_outcome \<Rightarrow> int option" where
  "outcome_status (Returned j) = Some 200"
| "outcome_status (HttpException status detail) = Some status"
| "outcome_status (Raised e) = None"

lemma write_error_status: "outcome_status (write_error e n) = write_status (Inl e)"
  by (cases e) (simp_all add: write_error_def)

lemma put_key_status:
  "outcome_status (snd (put_key node put processor key val s)) =
     write_status (snd (case processor of None \<Rightarrow> put key val s
       | Some submit \<Rightarrow> submit \<lparr>operation = ''PUT'', cmd_key = key, cmd_value = Some val\<rparr> s))"
  by (simp add: put_key_def write_error_status case_prod_beta split: option.splits sum.splits)

lemma delete_key_status:
  "outcome_status (snd (delete_key node delete processor key s)) =
     write_status (snd (case processor of None \<Rightarrow> delete key s
       | Some submit \<Rightarrow> submit \<lparr>operation = ''DELETE'', cmd_key = key, cmd_value = None\<rparr> s))"
  by (simp add: delete_key_def write_error_status case_prod_beta split: option.splits sum.splits)

lemma write_status_200: "write_status r = Some 200 \<longleftrightarrow> r = Ok True"
  by (cases r rule: write_status.cases) auto

text \<open>
  A batch of one that came back true: when the results were read, after \<open>replicate_log\<close>, the node
  led and the entry was committed.
\<close>

lemma submit_command_True:
  assumes "submit_command command env1 rnd env2 heartbeat_rnd (n, futures) = (nf', Ok True)"
  obtains n1 e nf2 where "submit_begin [command] n = (n1, Ok [e])"
    "replicate_log rnd (env1 (n1, futures)) = (nf2, Ok ())" "role (n_state (fst (env2 nf2))) = LEADER"
    "entry_index e \<le> commit_index (n_state (fst (env2 nf2)))"
proof -
  obtain rest where s: "submit_commands [command] env1 rnd env2 heartbeat_rnd (n, futures) = (nf', Ok (True # rest))"
    using assms by (auto simp: submit_command_def split: prod.splits sum.splits list.splits)
  have "rest = []" using submit_commands_length [OF s] by simp
  obtain n1 es where b: "submit_begin [command] n = (n1, Ok es)"
    using s by (auto simp: submit_commands_def split: prod.splits sum.splits)
  obtain e where e: "es = [e]" using submit_begin_length [OF b] by (cases es) auto
  obtain nf2 where r: "replicate_log rnd (env1 (n1, futures)) = (nf2, Ok ())"
    using s b by (auto simp: submit_commands_def split: prod.splits sum.splits)
  have "submit_results es (fst (env2 nf2)) = [True]"
    using s b r \<open>rest = []\<close> by (auto simp: submit_commands_def Let_def split: prod.splits sum.splits if_splits)
  then show ?thesis
    using that [OF b [unfolded e] r] by (auto simp: submit_results_def e split: if_splits)
qed

lemma node_write_True:
  "node_put key val env1 rnd env2 heartbeat_rnd nf = (nf', Ok True) \<Longrightarrow>
    submit_command \<lparr>operation = ''PUT'', cmd_key = key, cmd_value = Some val\<rparr> env1 rnd env2 heartbeat_rnd nf = (nf', Ok True)"
  "node_delete key env1 rnd env2 heartbeat_rnd nf = (nf', Ok True) \<Longrightarrow>
    submit_command \<lparr>operation = ''DELETE'', cmd_key = key, cmd_value = None\<rparr> env1 rnd env2 heartbeat_rnd nf = (nf', Ok True)"
  by (simp_all add: node_put_def node_delete_def)

lemma put_key_200:
  assumes "put_key node put None key val s = (s', Returned j)"
  shows "put key val s = (s', Ok True)"
  using assms by (auto simp: put_key_def write_error_def split: prod.splits sum.splits if_splits)

text \<open>The engine behind the application.\<close>

lemma get_value_run:
  assumes "engine_ok e"
  shows "get_value key (engine_run ops e) =
    (case kv.last_write key (engine_get key e) (engine_writes ops) of
       None \<Rightarrow> HttpException 404 (JStr ''Key not found'')
     | Some val \<Rightarrow> Returned (JObj [(''key'', JStr key), (''value'', JStr val)]))"
  by (simp add: get_value_def engine_run_get [OF assms])

end
