(* ===== verification/Metrics.thy ===== *)
theory Metrics
  imports Status
begin

text \<open>
  The metrics of \<^verbatim>\<open>observability/metrics.py\<close>. The Prometheus client is not part of the repository:
  the registry is the sequence of calls made to it, with the label values in the declared order.
  \<open>gauge\<close> reads such a sequence as the client documents it: a gauge has the value last set, and
  none before it is set or after it is removed. After an update the gauges are the node's status:
  one role is 1, and the lag gauges are those of the current followers.
\<close>

section \<open>The registry\<close>

datatype metric_kind = Gauge | Counter | Histogram

text \<open>The metrics the constructor registers, with the names of their labels.\<close>

definition registered_metrics :: "(string \<times> metric_kind \<times> string list) list" where
  "registered_metrics =
     [(''pyraftkv_raft_current_term'', Gauge, [''node_id'']),
      (''pyraftkv_raft_role'', Gauge, [''node_id'', ''role'']),
      (''pyraftkv_raft_commit_index'', Gauge, [''node_id'']),
      (''pyraftkv_raft_last_applied'', Gauge, [''node_id'']),
      (''pyraftkv_raft_log_last_index'', Gauge, [''node_id'']),
      (''pyraftkv_raft_snapshot_index'', Gauge, [''node_id'']),
      (''pyraftkv_raft_election_attempts_total'', Counter, [''node_id'']),
      (''pyraftkv_raft_leadership_changes_total'', Counter, [''node_id'']),
      (''pyraftkv_raft_rpc_failures_total'', Counter, [''node_id'', ''rpc'']),
      (''pyraftkv_raft_rpc_duration_seconds'', Histogram, [''node_id'', ''rpc'']),
      (''pyraftkv_raft_follower_replication_lag'', Gauge, [''node_id'', ''follower_id'']),
      (''pyraftkv_raft_read_barrier_attempts_total'', Counter, [''node_id'']),
      (''pyraftkv_raft_read_barrier_failures_total'', Counter, [''node_id'']),
      (''pyraftkv_raft_read_barrier_duration_seconds'', Histogram, [''node_id'']),
      (''pyraftkv_raft_snapshot_installations_total'', Counter, [''node_id'']),
      (''pyraftkv_raft_snapshot_install_bytes_total'', Counter, [''node_id'']),
      (''pyraftkv_raft_snapshot_install_duration_seconds'', Histogram, [''node_id'']),
      (''pyraftkv_raft_log_compactions_total'', Counter, [''node_id'']),
      (''pyraftkv_http_requests_total'', Counter, [''node_id'', ''method'', ''path'', ''status'']),
      (''pyraftkv_http_request_duration_seconds'', Histogram, [''node_id'', ''method'', ''path''])]"

datatype metric_call =
    GaugeSet string "string list" int
  | GaugeRemove string "string list"
  | CounterInc string "string list" int
  | Observed string "string list" real

record raft_metrics =
  m_node_id :: string
  m_calls :: "metric_call list"
  m_follower_labels :: "string list"

definition metrics_init :: "string \<Rightarrow> raft_metrics" where
  "metrics_init nid = \<lparr>m_node_id = nid, m_calls = [], m_follower_labels = []\<rparr>"

definition emit :: "metric_call list \<Rightarrow> raft_metrics \<Rightarrow> raft_metrics" where
  "emit cs m = m\<lparr>m_calls := m_calls m @ cs\<rparr>"

section \<open>Events\<close>

definition record_election_attempt :: "raft_metrics \<Rightarrow> raft_metrics" where
  "record_election_attempt m =
     emit [CounterInc ''pyraftkv_raft_election_attempts_total'' [m_node_id m] 1] m"

definition record_leadership_change :: "raft_metrics \<Rightarrow> raft_metrics" where
  "record_leadership_change m =
     emit [CounterInc ''pyraftkv_raft_leadership_changes_total'' [m_node_id m] 1] m"

definition valid_rpc_names :: "string list" where
  "valid_rpc_names = [''append_entries'', ''install_snapshot'', ''request_vote'', ''timeout_now'']"

definition record_rpc :: "string \<Rightarrow> real \<Rightarrow> bool \<Rightarrow> raft_metrics \<Rightarrow> raft_metrics result" where
  "record_rpc rpc duration success m =
     (if rpc \<notin> set valid_rpc_names then Err ValueError
      else Ok (emit (Observed ''pyraftkv_raft_rpc_duration_seconds'' [m_node_id m, rpc] duration #
                     (if \<not> success then [CounterInc ''pyraftkv_raft_rpc_failures_total'' [m_node_id m, rpc] 1]
                      else [])) m))"

definition record_read_barrier :: "real \<Rightarrow> bool \<Rightarrow> raft_metrics \<Rightarrow> raft_metrics" where
  "record_read_barrier duration success m =
     emit ([CounterInc ''pyraftkv_raft_read_barrier_attempts_total'' [m_node_id m] 1,
            Observed ''pyraftkv_raft_read_barrier_duration_seconds'' [m_node_id m] duration] @
           (if \<not> success then [CounterInc ''pyraftkv_raft_read_barrier_failures_total'' [m_node_id m] 1]
            else [])) m"

definition record_snapshot_installation :: "real \<Rightarrow> int \<Rightarrow> raft_metrics \<Rightarrow> raft_metrics" where
  "record_snapshot_installation duration size_bytes m =
     emit [CounterInc ''pyraftkv_raft_snapshot_installations_total'' [m_node_id m] 1,
           CounterInc ''pyraftkv_raft_snapshot_install_bytes_total'' [m_node_id m] size_bytes,
           Observed ''pyraftkv_raft_snapshot_install_duration_seconds'' [m_node_id m] duration] m"

definition record_log_compaction :: "raft_metrics \<Rightarrow> raft_metrics" where
  "record_log_compaction m =
     emit [CounterInc ''pyraftkv_raft_log_compactions_total'' [m_node_id m] 1] m"

section \<open>The status of the node\<close>

definition role_gauges :: "string \<Rightarrow> string \<Rightarrow> metric_call list" where
  "role_gauges nid r =
     map (\<lambda>x. GaugeSet ''pyraftkv_raft_role'' [nid, role_value x] (if r = role_value x then 1 else 0))
       [FOLLOWER, CANDIDATE, LEADER]"

definition lag_gauges :: "string \<Rightarrow> follower_status list \<Rightarrow> metric_call list" where
  "lag_gauges nid fs =
     map (\<lambda>f. GaugeSet ''pyraftkv_raft_follower_replication_lag'' [nid, fs_node_id f] (replication_lag f)) fs"

definition update_from_node :: "raft_node \<Rightarrow> raft_metrics \<Rightarrow> raft_metrics result" where
  "update_from_node n m =
     (case node_status n of
        Inl e \<Rightarrow> Err e
      | Inr st \<Rightarrow>
          (let nid = m_node_id m;
               fs = (case st_followers st of None \<Rightarrow> [] | Some fs \<Rightarrow> fs);
               follower_labels = remdups (map fs_node_id fs)
           in Ok ((emit
                ([GaugeSet ''pyraftkv_raft_current_term'' [nid] (st_current_term st),
                  GaugeSet ''pyraftkv_raft_commit_index'' [nid] (st_commit_index st),
                  GaugeSet ''pyraftkv_raft_last_applied'' [nid] (st_last_applied st),
                  GaugeSet ''pyraftkv_raft_log_last_index'' [nid] (log_last_index st),
                  GaugeSet ''pyraftkv_raft_snapshot_index'' [nid] (snapshot_index st)] @
                 role_gauges nid (st_role st) @ lag_gauges nid fs @
                 map (\<lambda>f. GaugeRemove ''pyraftkv_raft_follower_replication_lag'' [nid, f])
                   (filter (\<lambda>f. f \<notin> set follower_labels) (m_follower_labels m))) m)
              \<lparr>m_follower_labels := follower_labels\<rparr>)))"

section \<open>Reading the registry\<close>

fun gauge_step :: "string \<Rightarrow> string list \<Rightarrow> metric_call \<Rightarrow> int option \<Rightarrow> int option" where
  "gauge_step name labels (GaugeSet name' labels' v) x = (if name' = name \<and> labels' = labels then Some v else x)"
| "gauge_step name labels (GaugeRemove name' labels') x = (if name' = name \<and> labels' = labels then None else x)"
| "gauge_step name labels _ x = x"

definition gauge :: "string \<Rightarrow> string list \<Rightarrow> raft_metrics \<Rightarrow> int option" where
  "gauge name labels m = fold (gauge_step name labels) (m_calls m) None"

text \<open>A counter is the sum of its increments.\<close>

fun increment_of :: "string \<Rightarrow> string list \<Rightarrow> metric_call \<Rightarrow> int" where
  "increment_of name labels (CounterInc name' labels' v) = (if name' = name \<and> labels' = labels then v else 0)"
| "increment_of name labels _ = 0"

definition counter :: "string \<Rightarrow> string list \<Rightarrow> raft_metrics \<Rightarrow> int" where
  "counter name labels m = sum_list (map (increment_of name labels) (m_calls m))"

text \<open>The client refuses a metric that is not registered, or a wrong number of label values.\<close>

fun well_labelled :: "metric_call \<Rightarrow> bool" where
  "well_labelled (GaugeSet name labels v) =
     (case map_of registered_metrics name of Some (Gauge, ls) \<Rightarrow> length ls = length labels | _ \<Rightarrow> False)"
| "well_labelled (GaugeRemove name labels) =
     (case map_of registered_metrics name of Some (Gauge, ls) \<Rightarrow> length ls = length labels | _ \<Rightarrow> False)"
| "well_labelled (CounterInc name labels v) =
     (case map_of registered_metrics name of Some (Counter, ls) \<Rightarrow> length ls = length labels \<and> 0 \<le> v | _ \<Rightarrow> False)"
| "well_labelled (Observed name labels v) =
     (case map_of registered_metrics name of Some (Histogram, ls) \<Rightarrow> length ls = length labels | _ \<Rightarrow> False)"

text \<open>
  What the metrics keep: their calls are accepted, and the followers remembered are those with a
  lag gauge.
\<close>

definition metrics_ok :: "raft_metrics \<Rightarrow> bool" where
  "metrics_ok m = (list_all well_labelled (m_calls m) \<and>
     (\<forall>f. gauge ''pyraftkv_raft_follower_replication_lag'' [m_node_id m, f] m \<noteq> None \<longleftrightarrow>
        f \<in> set (m_follower_labels m)))"

abbreviation lag_name :: string where
  "lag_name \<equiv> ''pyraftkv_raft_follower_replication_lag''"

lemma emit_simps [simp]:
  "m_node_id (emit cs m) = m_node_id m" "m_follower_labels (emit cs m) = m_follower_labels m"
  "m_calls (emit cs m) = m_calls m @ cs"
  by (simp_all add: emit_def)

lemma gauge_emit: "gauge name labels (emit cs m) = fold (gauge_step name labels) cs (gauge name labels m)"
  by (simp add: gauge_def)

lemma counter_emit: "counter name labels (emit cs m) = counter name labels m + sum_list (map (increment_of name labels) cs)"
  by (simp add: counter_def)

fun is_event :: "metric_call \<Rightarrow> bool" where
  "is_event (CounterInc name labels v) = True"
| "is_event (Observed name labels v) = True"
| "is_event _ = False"

lemma gauge_events: "list_all is_event cs \<Longrightarrow> fold (gauge_step name labels) cs x = x"
proof (induction cs)
  case (Cons c cs)
  then show ?case by (cases c) simp_all
qed simp

lemma metrics_ok_init: "metrics_ok (metrics_init nid)"
  by (simp add: metrics_ok_def metrics_init_def gauge_def)

lemma metrics_ok_emit:
  "metrics_ok m \<Longrightarrow> list_all is_event cs \<Longrightarrow> list_all well_labelled cs \<Longrightarrow> metrics_ok (emit cs m)"
  by (simp add: metrics_ok_def gauge_emit gauge_events)

lemma record_ok:
  assumes "metrics_ok m"
  shows "metrics_ok (record_election_attempt m)" "metrics_ok (record_leadership_change m)"
    "metrics_ok (record_read_barrier d b m)" "0 \<le> sz \<Longrightarrow> metrics_ok (record_snapshot_installation d sz m)"
    "metrics_ok (record_log_compaction m)" "record_rpc rpc d b m = Ok m' \<Longrightarrow> metrics_ok m'"
proof -
  show "metrics_ok (record_election_attempt m)" "metrics_ok (record_leadership_change m)"
    "metrics_ok (record_log_compaction m)"
    unfolding record_election_attempt_def record_leadership_change_def record_log_compaction_def
    by (intro metrics_ok_emit assms; simp add: registered_metrics_def)+
  show "metrics_ok (record_read_barrier d b m)"
    unfolding record_read_barrier_def
    by (intro metrics_ok_emit assms; cases b; simp add: registered_metrics_def)
  show "metrics_ok (record_snapshot_installation d sz m)" if "0 \<le> sz"
    unfolding record_snapshot_installation_def
    by (intro metrics_ok_emit assms; simp add: registered_metrics_def that)
  show "metrics_ok m'" if "record_rpc rpc d b m = Ok m'"
  proof -
    have "m' = emit (Observed ''pyraftkv_raft_rpc_duration_seconds'' [m_node_id m, rpc] d #
        (if \<not> b then [CounterInc ''pyraftkv_raft_rpc_failures_total'' [m_node_id m, rpc] 1] else [])) m"
      using that by (simp add: record_rpc_def split: if_splits)
    then show ?thesis
      by (simp only:) (intro metrics_ok_emit assms; cases b; simp add: registered_metrics_def)
  qed
qed

section \<open>After an update\<close>

fun call_name :: "metric_call \<Rightarrow> string" where
  "call_name (GaugeSet name labels v) = name"
| "call_name (GaugeRemove name labels) = name"
| "call_name (CounterInc name labels v) = name"
| "call_name (Observed name labels v) = name"

lemma gauge_other: "(\<And>c. c \<in> set cs \<Longrightarrow> call_name c \<noteq> name) \<Longrightarrow> fold (gauge_step name labels) cs x = x"
proof (induction cs)
  case (Cons c cs)
  have "gauge_step name labels c x = x" using Cons.prems [of c] by (cases c) auto
  then show ?case using Cons by simp
qed simp

lemma gauge_lag:
  "distinct (map fs_node_id fs) \<Longrightarrow> y \<in> set fs \<Longrightarrow>
     fold (gauge_step lag_name [nid, fs_node_id y]) (lag_gauges nid fs) x = Some (replication_lag y)"
  "f \<notin> fs_node_id ` set fs \<Longrightarrow> fold (gauge_step lag_name [nid, f]) (lag_gauges nid fs) x = x"
proof -
  show none: "f \<notin> fs_node_id ` set fs \<Longrightarrow> fold (gauge_step lag_name [nid, f]) (lag_gauges nid fs) x = x" for f x fs
    by (induction fs) (auto simp: lag_gauges_def)
  show "distinct (map fs_node_id fs) \<Longrightarrow> y \<in> set fs \<Longrightarrow>
     fold (gauge_step lag_name [nid, fs_node_id y]) (lag_gauges nid fs) x = Some (replication_lag y)"
  proof (induction fs arbitrary: x)
    case (Cons z fs)
    show ?case
    proof (cases "y = z")
      case True
      then have "fs_node_id y \<notin> fs_node_id ` set fs" using Cons.prems(1) by auto
      then show ?thesis using none [of "fs_node_id y" fs] True by (simp add: lag_gauges_def)
    next
      case False
      then show ?thesis using Cons by (simp add: lag_gauges_def)
    qed
  qed simp
qed

lemma gauge_removed:
  "fold (gauge_step lag_name [nid, f]) (map (\<lambda>f. GaugeRemove lag_name [nid, f]) fs) x =
     (if f \<in> set fs then None else x)"
  by (induction fs arbitrary: x) auto

lemma role_value_inject [simp]: "role_value a = role_value b \<longleftrightarrow> a = b"
  by (cases a; cases b) simp_all

lemma update_calls:
  assumes "node_status n = Ok st" and "fs = (case st_followers st of None \<Rightarrow> [] | Some fs \<Rightarrow> fs)"
    and "distinct (map fs_node_id fs)"
  obtains m' where "update_from_node n m = Ok m'" "m_node_id m' = m_node_id m"
    "m_follower_labels m' = map fs_node_id fs"
    "m_calls m' = m_calls m @
       [GaugeSet ''pyraftkv_raft_current_term'' [m_node_id m] (st_current_term st),
        GaugeSet ''pyraftkv_raft_commit_index'' [m_node_id m] (st_commit_index st),
        GaugeSet ''pyraftkv_raft_last_applied'' [m_node_id m] (st_last_applied st),
        GaugeSet ''pyraftkv_raft_log_last_index'' [m_node_id m] (log_last_index st),
        GaugeSet ''pyraftkv_raft_snapshot_index'' [m_node_id m] (snapshot_index st)] @
       role_gauges (m_node_id m) (st_role st) @ lag_gauges (m_node_id m) fs @
       map (\<lambda>f. GaugeRemove lag_name [m_node_id m, f])
         (filter (\<lambda>f. f \<notin> fs_node_id ` set fs) (m_follower_labels m))"
proof -
  have "remdups (map fs_node_id fs) = map fs_node_id fs" using assms(3) by (rule distinct_remdups_id)
  then show ?thesis
    using that [of "the (case update_from_node n m of Inl e \<Rightarrow> None | Inr x \<Rightarrow> Some x)"] assms(1,2)
    by (simp add: update_from_node_def Let_def)
qed

lemma update_reports:
  assumes ok: "metrics_ok m" and st: "node_status n = Ok st"
    and fs: "fs = (case st_followers st of None \<Rightarrow> [] | Some fs \<Rightarrow> fs)" and dist: "distinct (map fs_node_id fs)"
    and up: "update_from_node n m = Ok m'"
  shows "metrics_ok m'" "m_node_id m' = m_node_id m"
    "gauge ''pyraftkv_raft_current_term'' [m_node_id m] m' = Some (st_current_term st)"
    "gauge ''pyraftkv_raft_commit_index'' [m_node_id m] m' = Some (st_commit_index st)"
    "gauge ''pyraftkv_raft_last_applied'' [m_node_id m] m' = Some (st_last_applied st)"
    "gauge ''pyraftkv_raft_log_last_index'' [m_node_id m] m' = Some (log_last_index st)"
    "gauge ''pyraftkv_raft_snapshot_index'' [m_node_id m] m' = Some (snapshot_index st)"
    "gauge ''pyraftkv_raft_role'' [m_node_id m, role_value r] m' = Some (if st_role st = role_value r then 1 else 0)"
    "\<And>y. y \<in> set fs \<Longrightarrow> gauge lag_name [m_node_id m, fs_node_id y] m' = Some (replication_lag y)"
    "\<And>f. gauge lag_name [m_node_id m, f] m' \<noteq> None \<longleftrightarrow> f \<in> fs_node_id ` set fs"
proof -
  let ?nid = "m_node_id m"
  let ?removed = "map (\<lambda>f. GaugeRemove lag_name [?nid, f]) (filter (\<lambda>f. f \<notin> fs_node_id ` set fs) (m_follower_labels m))"
  let ?scalars = "[GaugeSet ''pyraftkv_raft_current_term'' [?nid] (st_current_term st),
        GaugeSet ''pyraftkv_raft_commit_index'' [?nid] (st_commit_index st),
        GaugeSet ''pyraftkv_raft_last_applied'' [?nid] (st_last_applied st),
        GaugeSet ''pyraftkv_raft_log_last_index'' [?nid] (log_last_index st),
        GaugeSet ''pyraftkv_raft_snapshot_index'' [?nid] (snapshot_index st)]"
  have m': "m_node_id m' = ?nid" "m_follower_labels m' = map fs_node_id fs"
    "m_calls m' = m_calls m @ ?scalars @ role_gauges ?nid (st_role st) @ lag_gauges ?nid fs @ ?removed"
    using update_calls [OF st fs dist, of m] up by auto
  show "m_node_id m' = ?nid" by (rule m'(1))
  have g: "gauge name labels m' = fold (gauge_step name labels) ?removed (fold (gauge_step name labels) (lag_gauges ?nid fs)
      (fold (gauge_step name labels) (role_gauges ?nid (st_role st)) (fold (gauge_step name labels) ?scalars (gauge name labels m))))"
    for name labels
    by (simp add: gauge_def m'(3))
  have other: "fold (gauge_step name labels) ?removed (fold (gauge_step name labels) (lag_gauges ?nid fs) x) = x"
    if "name \<noteq> lag_name" for name labels x
    using that gauge_other [of ?removed name labels] gauge_other [of "lag_gauges ?nid fs" name labels]
    by (force simp: lag_gauges_def)
  show "gauge ''pyraftkv_raft_current_term'' [?nid] m' = Some (st_current_term st)"
    "gauge ''pyraftkv_raft_commit_index'' [?nid] m' = Some (st_commit_index st)"
    "gauge ''pyraftkv_raft_last_applied'' [?nid] m' = Some (st_last_applied st)"
    "gauge ''pyraftkv_raft_log_last_index'' [?nid] m' = Some (log_last_index st)"
    "gauge ''pyraftkv_raft_snapshot_index'' [?nid] m' = Some (snapshot_index st)"
    unfolding g by (subst other; simp add: role_gauges_def)+
  show "gauge ''pyraftkv_raft_role'' [?nid, role_value r] m' = Some (if st_role st = role_value r then 1 else 0)"
    unfolding g by (subst other; cases r; simp add: role_gauges_def)
  have lag: "fold (gauge_step lag_name labels) (role_gauges ?nid (st_role st)) (fold (gauge_step lag_name labels) ?scalars x) = x"
    for labels x
    by (simp add: role_gauges_def)
  show "gauge lag_name [?nid, fs_node_id y] m' = Some (replication_lag y)" if "y \<in> set fs" for y
    unfolding g lag gauge_lag(1) [OF dist that] gauge_removed using that by simp
  show lags: "gauge lag_name [?nid, f] m' \<noteq> None \<longleftrightarrow> f \<in> fs_node_id ` set fs" for f
  proof (cases "f \<in> fs_node_id ` set fs")
    case True
    then obtain y where "y \<in> set fs" "f = fs_node_id y" by blast
    then show ?thesis unfolding g lag using gauge_lag(1) [OF dist, of y] by (simp add: gauge_removed)
  next
    case False
    then show ?thesis
      unfolding g lag gauge_lag(2) [OF False] gauge_removed
      using ok by (auto simp: metrics_ok_def)
  qed
  have "list_all well_labelled (m_calls m')"
    using ok unfolding m'(3) metrics_ok_def
    by (simp add: registered_metrics_def role_gauges_def lag_gauges_def list_all_iff ball_Un)
  then show "metrics_ok m'" using lags m'(1,2) by (simp add: metrics_ok_def)
qed

text \<open>The lag a leader reports for a follower.\<close>

definition follower_lag :: "raft_node \<Rightarrow> string \<Rightarrow> int option" where
  "follower_lag n f =
     (case n_replication n of
        None \<Rightarrow> None
      | Some r \<Rightarrow>
          if role (n_state n) = LEADER \<and> f \<in> set (n_members n) - {n_id n}
          then map_option (\<lambda>m. max 0 (last_index (n_log n) - m)) (map_of (match_index r) f) else None)"

lemma status_follower_lag:
  assumes "node_ok n" "node_status n = Ok st" "fs = (case st_followers st of None \<Rightarrow> [] | Some fs \<Rightarrow> fs)"
    and y: "y \<in> set fs"
  shows "follower_lag n (fs_node_id y) = Some (replication_lag y)"
proof -
  obtain r where r: "n_replication n = Some r" "role (n_state n) = LEADER"
      and fs: "map_result (follower_status_of (n_log n) r) (sort (followers r)) = Ok fs"
    using assms(2,3) y by (auto simp: node_status_def status_followers_def split: option.splits if_splits sum.splits)
  have "wf_replication r (n_state n)" "repl_members r = n_members n" "node_id (n_state n) = n_id n"
    using assms(1) r(1) by (simp_all add: node_ok_def node_wf_def)
  then have fol: "set (followers r) = set (n_members n) - {n_id n}" by (auto simp: wf_replication_def)
  have "\<exists>f \<in> set xs. follower_status_of (n_log n) r f = Ok y" if "map_result (follower_status_of (n_log n) r) xs = Ok fs" for xs
    using that y
    by (induction xs arbitrary: fs) (auto split: sum.splits)
  from this [OF fs] obtain f where f: "f \<in> set (followers r)" "follower_status_of (n_log n) r f = Ok y" by auto
  obtain m where m: "map_of (match_index r) f = Some m" "y = \<lparr>fs_node_id = f, fs_match_index = m,
      fs_next_index = fs_next_index y, replication_lag = max 0 (last_index (n_log n) - m)\<rparr>"
    using f(2) by (auto simp: follower_status_of_def dict_item_def split: sum.splits option.splits)
  have "fs_node_id y = f" "replication_lag y = max 0 (last_index (n_log n) - m)" by (subst m(2), simp)+
  then show ?thesis using r f(1) fol m(1) by (simp add: follower_lag_def)
qed

lemma update_from_ok_node:
  assumes ok: "node_ok n" and m: "metrics_ok m"
  obtains m' where "update_from_node n m = Ok m'" "metrics_ok m'"
    "gauge ''pyraftkv_raft_current_term'' [m_node_id m] m' = Some (current_term (n_state n))"
    "gauge ''pyraftkv_raft_commit_index'' [m_node_id m] m' = Some (commit_index (n_state n))"
    "gauge ''pyraftkv_raft_last_applied'' [m_node_id m] m' = Some (last_applied (n_state n))"
    "gauge ''pyraftkv_raft_log_last_index'' [m_node_id m] m' = Some (last_index (n_log n))"
    "gauge ''pyraftkv_raft_snapshot_index'' [m_node_id m] m' = Some (last_included_index (n_snapshot n))"
    "\<forall>r. gauge ''pyraftkv_raft_role'' [m_node_id m, role_value r] m' = Some (if role (n_state n) = r then 1 else 0)"
    "\<forall>f. gauge lag_name [m_node_id m, f] m' = follower_lag n f"
    "{f. gauge lag_name [m_node_id m, f] m' \<noteq> None} =
      (if role (n_state n) = LEADER \<and> n_replication n \<noteq> None then set (n_members n) - {n_id n} else {})"
proof -
  obtain st where st: "node_status n = Ok st" "distinct (st_peers st)" "set (st_peers st) = set (n_members n) - {n_id n}"
      "st_followers st \<noteq> None \<longleftrightarrow> role (n_state n) = LEADER \<and> n_replication n \<noteq> None"
      "\<And>fs. st_followers st = Some fs \<Longrightarrow> map fs_node_id fs = st_peers st \<and> (\<forall>f \<in> set fs. 0 \<le> replication_lag f)"
    by (rule node_status_reports [OF ok]) blast
  have fields: "st_current_term st = current_term (n_state n)" "st_commit_index st = commit_index (n_state n)"
      "st_last_applied st = last_applied (n_state n)" "snapshot_index st = last_included_index (n_snapshot n)"
      "log_last_index st = last_index (n_log n)" "st_role st = role_value (role (n_state n))"
    using st(1) by (auto simp: node_status_def split: sum.splits)
  define fs where "fs = (case st_followers st of None \<Rightarrow> [] | Some fs \<Rightarrow> fs)"
  have d: "distinct (map fs_node_id fs)" and names: "fs_node_id ` set fs =
      (if role (n_state n) = LEADER \<and> n_replication n \<noteq> None then set (n_members n) - {n_id n} else {})"
  proof -
    show "distinct (map fs_node_id fs)" using st(2,5) by (auto simp: fs_def split: option.splits)
    have "fs_node_id ` set fs = (if st_followers st \<noteq> None then set (st_peers st) else {})"
      using st(5) by (cases "st_followers st") (simp_all add: fs_def flip: set_map)
    then show "fs_node_id ` set fs =
        (if role (n_state n) = LEADER \<and> n_replication n \<noteq> None then set (n_members n) - {n_id n} else {})"
      by (simp only: st(3,4))
  qed
  obtain m' where up: "update_from_node n m = Ok m'" using update_calls [OF st(1) fs_def d] by metis
  note U = update_reports [OF m st(1) fs_def d up]
  have lags: "{f. gauge lag_name [m_node_id m, f] m' \<noteq> None} = fs_node_id ` set fs" using U(10) by blast
  have "gauge lag_name [m_node_id m, f] m' = follower_lag n f" for f
  proof (cases "f \<in> fs_node_id ` set fs")
    case True
    then show ?thesis using U(9) status_follower_lag [OF ok st(1) fs_def] by auto
  next
    case False
    then have "follower_lag n f = None"
      unfolding names by (auto simp: follower_lag_def split: option.splits if_splits)
    then show ?thesis using U(10) [of f] False by auto
  qed
  then show ?thesis
    by (intro that [OF up U(1) _ _ _ _ _ _ _ trans [OF lags names]]) (use U(3-8) in \<open>simp_all add: fields\<close>)
qed

end
