(* ===== verification/Runtime.thy ===== *)
theory Runtime
  imports ClientApi Metrics
begin

text \<open>
  A running node (\<^verbatim>\<open>runtime.py\<close>): the command line's peers, the construction of node, transport,
  metrics and command processor, one iteration of the background loop and the loop itself, what
  happens when the application starts and stops, and the health route. The node talks to its peers
  through \<^verbatim>\<open>HTTPTransport\<close>. Log messages are left out; cancellation is the end of the loop's list.
\<close>

section \<open>The command line\<close>

fun split_once :: "char \<Rightarrow> string \<Rightarrow> (string \<times> string) option" where
  "split_once sep [] = None"
| "split_once sep (c # cs) =
     (if c = sep then Some ([], cs)
      else (case split_once sep cs of None \<Rightarrow> None | Some (a, b) \<Rightarrow> Some (c # a, b)))"

definition starts_with :: "string \<Rightarrow> string \<Rightarrow> bool" where
  "starts_with p s = (take (length p) s = p)"

definition parse_peer :: "string \<Rightarrow> (string \<times> string) result" where
  "parse_peer val =
     (case split_once (CHR ''='') val of
        None \<Rightarrow> Err ArgumentTypeError
      | Some (nid, address) \<Rightarrow>
          (let nid = py_strip nid; address = rstrip_slash (py_strip address) in
           if nid = [] then Err ArgumentTypeError
           else if \<not> (starts_with ''http://'' address \<or> starts_with ''https://'' address)
           then Err ArgumentTypeError
           else Ok (nid, address)))"

text \<open>
  The peers of \<^verbatim>\<open>main\<close>: \<open>None\<close> where \<^verbatim>\<open>parser.error\<close> ends the program, on a peer listed twice or
  the node itself.
\<close>

fun collect_peers :: "(string \<times> string) list \<Rightarrow> (string, string) dict \<Rightarrow> (string, string) dict option" where
  "collect_peers [] peers = Some peers"
| "collect_peers ((peer_id, address) # rest) peers =
     (if map_of peers peer_id \<noteq> None then None
      else collect_peers rest (AList.update peer_id address peers))"

definition main_peers :: "string \<Rightarrow> (string \<times> string) list \<Rightarrow> (string, string) dict option" where
  "main_peers nid args =
     (case collect_peers args [] of
        None \<Rightarrow> None
      | Some peers \<Rightarrow> if map_of peers nid \<noteq> None then None else Some peers)"

section \<open>Construction\<close>

record node_runtime =
  rt_node :: raft_node
  rt_transport :: http_transport
  rt_metrics :: "raft_metrics option"
  rt_processor :: "command_processor option"

text \<open>
  \<open>files\<close> is the file system: the data directory at a path. The constructor of the node repairs the
  files it finds. \<open>update_from_node\<close> has its status to read, or raises.
\<close>

definition create_runtime ::
  "clock \<Rightarrow> string \<Rightarrow> (string, string) dict \<Rightarrow> string option \<Rightarrow> (string \<Rightarrow> disk) \<Rightarrow>
   (string \<Rightarrow> disk) \<times> node_runtime result" where
  "create_runtime c nid peers data_dir files =
     (if map_of peers nid \<noteq> None then (files, Err ValueError)
      else
        (let members = nid # map fst peers;
             path = (case data_dir of None \<Rightarrow> ''data/'' @ nid | Some p \<Rightarrow> p)
         in (case node_init c nid members (Some (files path)) of
               (dsk, Inl e) \<Rightarrow> (files(path := the dsk), Err e)
             | (dsk, Inr n) \<Rightarrow>
                 (files(path := the dsk),
                  (let n = set_observer (Some []) n in
                   (case update_from_node n (metrics_init nid) of
                      Inl e \<Rightarrow> Err e
                    | Inr m \<Rightarrow>
                        Ok \<lparr>rt_node = n, rt_transport = http_transport_init peers False,
                            rt_metrics = Some m, rt_processor = Some (processor_init 1024 64)\<rparr>))))))"

section \<open>The background loop\<close>

text \<open>
  One iteration. \<open>env\<close> is what the other threads do after the role has been read; \<open>rnd\<close> and
  \<open>network\<close> are those of the operation called.
\<close>

type_synonym iteration =
  "clock \<times> node_env \<times> round \<times> ((string, request_vote_request) dict \<Rightarrow> vote_completion list)"

definition run_raft_iteration ::
  "iteration \<Rightarrow> (raft_node \<times> futures) \<times> raft_metrics option \<Rightarrow>
   ((raft_node \<times> futures) \<times> raft_metrics option) \<times> unit result" where
  "run_raft_iteration it s =
     (case (it, s) of ((c, env, rnd, network), (nf, metrics)) \<Rightarrow>
       (let leads = role (n_state (fst nf)) = LEADER; nf = env nf in
        (case (if leads then replicate_log rnd nf
               else (case tick c network (fst nf) of
                       (n, Inl e) \<Rightarrow> ((n, snd nf), Err e)
                     | (n, Inr _) \<Rightarrow> ((n, snd nf), Ok ()))) of
           (nf, Inl e) \<Rightarrow> ((nf, metrics), Err e)
         | (nf, Inr _) \<Rightarrow>
             (case metrics of
                None \<Rightarrow> ((nf, None), Ok ())
              | Some m \<Rightarrow>
                  (case update_from_node (fst nf) m of
                     Inl e \<Rightarrow> ((nf, Some m), Err e)
                   | Inr m \<Rightarrow> ((nf, Some m), Ok ()))))))"

text \<open>The loop goes on after any exception of an iteration; between two of them it sleeps.\<close>

fun raft_background_loop ::
  "(iteration \<times> node_env) list \<Rightarrow> (raft_node \<times> futures) \<times> raft_metrics option \<Rightarrow>
   (raft_node \<times> futures) \<times> raft_metrics option" where
  "raft_background_loop [] s = s"
| "raft_background_loop ((it, asleep) # rest) s =
     (case run_raft_iteration it s of
        ((nf, metrics), _) \<Rightarrow> raft_background_loop rest (asleep nf, metrics))"

section \<open>Start and stop\<close>

definition create_node_app :: "node_runtime \<Rightarrow> node_runtime result" where
  "create_node_app rt =
     (let m = (case rt_metrics rt of None \<Rightarrow> metrics_init (n_id (rt_node rt)) | Some m \<Rightarrow> m);
          n = set_observer (Some []) (rt_node rt)
      in (case update_from_node n m of
            Inl e \<Rightarrow> Err e
          | Inr m \<Rightarrow> Ok (rt\<lparr>rt_node := n, rt_metrics := Some m\<rparr>)))"

definition lifespan_start :: "node_runtime \<Rightarrow> node_runtime" where
  "lifespan_start rt = rt\<lparr>rt_processor := map_option processor_start (rt_processor rt)\<rparr>"

text \<open>
  The stop of the command processor, the first thing the \<^verbatim>\<open>finally\<close> block does: \<open>None\<close> while the
  queue is full. The thread given back is joined before the block goes on.
\<close>

definition lifespan_stop :: "node_runtime \<Rightarrow> (node_runtime \<times> nat option) option" where
  "lifespan_stop rt =
     (case rt_processor rt of
        None \<Rightarrow> Some (rt, None)
      | Some p \<Rightarrow>
          (case processor_stop p of
             None \<Rightarrow> None
           | Some (p, w) \<Rightarrow> Some (rt\<lparr>rt_processor := Some p\<rparr>, w)))"

text \<open>
  The rest: a leader hands over its leadership, losing it meanwhile is no error; whatever happens,
  the transport is closed. The result says whether leadership was transferred.
\<close>

definition lifespan_shutdown ::
  "node_env \<Rightarrow> round \<Rightarrow> 'w network \<Rightarrow> (node_runtime \<times> futures) \<times> 'w \<Rightarrow>
   ((node_runtime \<times> futures) \<times> 'w) \<times> bool option result" where
  "lifespan_shutdown env rnd net s =
     (case s of ((rt, futures), w) \<Rightarrow>
       (let closed = (\<lambda>n. rt\<lparr>rt_node := n, rt_transport := http_close (rt_transport rt)\<rparr>) in
        if role (n_state (rt_node rt)) \<noteq> LEADER then (((closed (rt_node rt), futures), w), Ok None)
        else (case transfer_leadership None rnd net (env (rt_node rt, futures), w) of
                (((n, futures), w), r) \<Rightarrow>
                  (((closed n, futures), w),
                   (case r of
                      Inl e \<Rightarrow> if e = NotLeaderError then Ok (Some False) else Err e
                    | Inr b \<Rightarrow> Ok (Some b))))))"

definition health :: "raft_node \<Rightarrow> json" where
  "health n =
     JObj [(''status'', JStr ''ok''), (''node_id'', JStr (n_id n)),
           (''role'', JStr (role_value (role (n_state n)))), (''term'', JInt (current_term (n_state n))),
           (''leader_id'', json_opt (leader_id (n_state n))),
           (''commit_index'', JInt (commit_index (n_state n))),
           (''last_applied'', JInt (last_applied (n_state n)))]"

section \<open>Replication over HTTP\<close>

text \<open>The transport as the node's network; \<open>env\<close> is what happens to the caller during a call.\<close>

definition http_network :: "'w http_client \<Rightarrow> http_transport \<Rightarrow> (raft_node \<Rightarrow> raft_node) \<Rightarrow> 'w network" where
  "http_network client t env =
     \<lparr>net_append = (\<lambda>f q (n, w). case http_append_entries client t f q w of (w, r) \<Rightarrow> ((env n, w), r)),
      net_install = (\<lambda>f q (n, w). case http_install_snapshot client t f q w of (w, r) \<Rightarrow> ((env n, w), r)),
      net_timeout = (\<lambda>f q (n, w). case http_timeout_now client t f q w of (w, r) \<Rightarrow> ((env n, w), r))\<rparr>"

section \<open>The command line, read back\<close>

lemma split_once_append:
  "sep \<notin> set a \<Longrightarrow> split_once sep (a @ sep # b) = Some (a, b)"
  by (induction a) auto

lemma split_once_Some: "split_once sep s = Some (a, b) \<Longrightarrow> s = a @ sep # b \<and> sep \<notin> set a"
  by (induction s arbitrary: a b) (auto split: if_splits option.splits)

lemma rstrip_slash_id: "s \<noteq> [] \<Longrightarrow> last s \<noteq> CHR ''/'' \<Longrightarrow> rstrip_slash s = s"
  by (cases s rule: rev_cases) (simp_all add: rstrip_slash_def)

lemma rstrip_slash_last: "rstrip_slash s = [] \<or> last (rstrip_slash s) \<noteq> CHR ''/''"
proof (cases "rstrip_slash s" rule: rev_cases)
  case (snoc xs x)
  then have "dropWhile (\<lambda>c. c = CHR ''/'') (rev s) = x # rev xs" by (simp add: rstrip_slash_def rev_swap)
  then show ?thesis using hd_dropWhile [of "\<lambda>c. c = CHR ''/''" "rev s"] snoc by simp
qed simp

lemma parse_peer_Ok:
  assumes "parse_peer val = Ok (nid, address)"
  shows "nid \<noteq> []" "starts_with ''http://'' address \<or> starts_with ''https://'' address"
    "last address \<noteq> CHR ''/''"
proof -
  show P: "nid \<noteq> []" "starts_with ''http://'' address \<or> starts_with ''https://'' address"
    using assms by (auto simp: parse_peer_def Let_def split: option.splits if_splits)
  obtain x where "address = rstrip_slash x"
    using assms by (auto simp: parse_peer_def Let_def split: option.splits if_splits)
  moreover have "address \<noteq> []" using P(2) by (auto simp: starts_with_def)
  ultimately show "last address \<noteq> CHR ''/''" using rstrip_slash_last [of x] by simp
qed

lemma parse_peer_roundtrip:
  assumes "nid \<noteq> []" "CHR ''='' \<notin> set nid" "\<not> is_space (hd nid)" "\<not> is_space (last nid)"
    and "starts_with ''http://'' address \<or> starts_with ''https://'' address"
    and "\<not> is_space (last address)" "last address \<noteq> CHR ''/''"
  shows "parse_peer (nid @ CHR ''='' # address) = Ok (nid, address)"
proof -
  obtain c cs where a: "address = CHR ''h'' # cs"
    using assms(5) by (cases address) (auto simp: starts_with_def)
  have "\<not> is_space CHR ''h''" by (simp add: is_space_def char_code_def)
  then have "py_strip address = address" using py_strip_id [of address] assms(6) a by simp
  moreover have "rstrip_slash address = address" using rstrip_slash_id assms(7) a by simp
  moreover have "py_strip nid = nid" using py_strip_id assms(1,3,4) by simp
  ultimately show ?thesis
    using assms(1,5) by (auto simp: parse_peer_def split_once_append [OF assms(2)] Let_def)
qed

lemma collect_peers_Some:
  "collect_peers args peers = Some ps \<Longrightarrow> dict_wf peers \<Longrightarrow>
     dict_wf ps \<and> distinct (map fst args) \<and> map_of ps = map_of peers ++ map_of args \<and>
     fst ` set args \<inter> dom (map_of peers) = {}"
proof (induction args peers rule: collect_peers.induct)
  case (2 peer_id address rest peers)
  then have new: "map_of peers peer_id = None" and
    rec: "collect_peers rest (AList.update peer_id address peers) = Some ps"
    by (auto split: if_splits)
  have IH: "dict_wf ps \<and> distinct (map fst rest) \<and>
      map_of ps = map_of (AList.update peer_id address peers) ++ map_of rest \<and>
      fst ` set rest \<inter> dom (map_of (AList.update peer_id address peers)) = {}"
    using "2.IH" [OF _ rec dict_wf_update [OF "2.prems"(2)]] new by blast
  have dom: "dom ((map_of peers)(peer_id \<mapsto> address)) = insert peer_id (dom (map_of peers))"
    by (simp only: dom_fun_upd) simp
  note I = IH [unfolded map_of_update dom]
  note H = conjunct1 [OF I] conjunct1 [OF conjunct2 [OF I]] conjunct1 [OF conjunct2 [OF conjunct2 [OF I]]]
    conjunct2 [OF conjunct2 [OF conjunct2 [OF I]]]
  have "peer_id \<notin> dom (map_of rest)" using H(4) by (auto simp: dom_map_of_conv_image_fst)
  then have "map_of ps = map_of peers ++ map_of ((peer_id, address) # rest)"
    using H(3) by (simp only: map_add_upd_left map_of.simps map_add_upd fst_conv snd_conv not_False_eq_True)
  moreover have "distinct (map fst ((peer_id, address) # rest))"
    "fst ` set ((peer_id, address) # rest) \<inter> dom (map_of peers) = {}"
    using H(2,4) new by auto
  ultimately show ?case using H(1) by blast
qed simp

section \<open>The loop keeps the node\<close>

definition iteration_ok :: "iteration \<Rightarrow> bool" where
  "iteration_ok it =
     (case it of (c, env, (env', batches), network) \<Rightarrow>
        env_ok env \<and> env_ok env' \<and> (\<forall>requests. list_all completion_ok (network requests)))"

lemma update_ok:
  assumes "node_ok n" "metrics_ok m"
  obtains m' where "update_from_node n m = Ok m'" "metrics_ok m'"
proof -
  obtain st where st: "node_status n = Ok st" "distinct (st_peers st)"
      "\<And>fs. st_followers st = Some fs \<Longrightarrow> map fs_node_id fs = st_peers st \<and> (\<forall>f \<in> set fs. 0 \<le> replication_lag f)"
    by (rule node_status_reports [OF assms(1)]) blast
  define fs where "fs = (case st_followers st of None \<Rightarrow> [] | Some fs \<Rightarrow> fs)"
  have d: "distinct (map fs_node_id fs)"
    using st(2,3) by (auto simp: fs_def split: option.splits)
  obtain m' where "update_from_node n m = Ok m'" using update_calls [OF st(1) fs_def d] by metis
  then show ?thesis using that update_reports(1) [OF assms(2) st(1) fs_def d] by blast
qed

lemma run_raft_iteration_ok:
  assumes step: "run_raft_iteration it (nf, metrics) = ((nf', metrics'), r)" and it: "iteration_ok it"
    and ok: "node_ok (fst nf)" "pred_option metrics_ok metrics"
  shows "node_ok (fst nf')" "pred_option metrics_ok metrics'" "(metrics' = None) = (metrics = None)"
proof -
  obtain c env env' batches network where i: "it = (c, env, (env', batches), network)"
    by (metis prod.exhaust)
  have E: "env_ok env" "env_ok env'" "\<And>requests. list_all completion_ok (network requests)"
    using it by (simp_all add: iteration_ok_def i)
  obtain n fs where e: "env nf = (n, fs)" by fastforce
  have n: "node_ok n" using env_okD [OF E(1) ok(1)] e by simp
  define act where "act = (if role (n_state (fst nf)) = LEADER then replicate_log (env', batches) (n, fs)
               else (case tick c network n of
                       (n, Inl e) \<Rightarrow> ((n, fs), Err e)
                     | (n, Inr _) \<Rightarrow> ((n, fs), Ok ())))"
  obtain n2 fs2 r2 where a: "act = ((n2, fs2), r2)" by (metis prod.exhaust)
  have n2: "node_ok n2"
    using a replicate_log_ok [OF _ n E(2), of batches fs n2 fs2 r2] tick_ok [OF _ n E(3), of c _ n2]
    unfolding act_def by (auto split: if_splits prod.splits sum.splits)
  have s: "((nf', metrics'), r) = (case act of
           (nf, Inl e) \<Rightarrow> ((nf, metrics), Err e)
         | (nf, Inr _) \<Rightarrow>
             (case metrics of
                None \<Rightarrow> ((nf, None), Ok ())
              | Some m \<Rightarrow>
                  (case update_from_node (fst nf) m of
                     Inl e \<Rightarrow> ((nf, Some m), Err e)
                   | Inr m \<Rightarrow> ((nf, Some m), Ok ()))))"
    using step unfolding run_raft_iteration_def i act_def prod.case Let_def e fst_conv snd_conv by simp
  show "node_ok (fst nf')" "pred_option metrics_ok metrics'" "(metrics' = None) = (metrics = None)"
  proof (atomize (full), cases r2)
    case (Inl e)
    then show "node_ok (fst nf') \<and> pred_option metrics_ok metrics' \<and> (metrics' = None) = (metrics = None)"
      using s a n2 ok(2) by simp
  next
    case (Inr u)
    show "node_ok (fst nf') \<and> pred_option metrics_ok metrics' \<and> (metrics' = None) = (metrics = None)"
    proof (cases metrics)
      case None
      then show ?thesis using s a n2 Inr by simp
    next
      case (Some m)
      then obtain m' where "update_from_node n2 m = Ok m'" "metrics_ok m'"
        using update_ok [OF n2, of m] ok(2) by auto
      then show ?thesis using s a n2 Inr Some by simp
    qed
  qed
qed

lemma raft_background_loop_ok:
  "\<lbrakk>list_all (\<lambda>(it, asleep). iteration_ok it \<and> env_ok asleep) its; node_ok (fst nf); pred_option metrics_ok metrics;
    raft_background_loop its (nf, metrics) = (nf', metrics')\<rbrakk> \<Longrightarrow>
   node_ok (fst nf') \<and> pred_option metrics_ok metrics'"
proof (induction its arbitrary: nf metrics)
  case (Cons x its)
  obtain it asleep where x: "x = (it, asleep)" by (cases x)
  obtain nf2 m2 r where s: "run_raft_iteration it (nf, metrics) = ((nf2, m2), r)" by (metis prod.exhaust)
  have "node_ok (fst nf2)" "pred_option metrics_ok m2"
    using run_raft_iteration_ok [OF s] Cons.prems by (auto simp: x)
  then have "node_ok (fst (asleep nf2))" "pred_option metrics_ok m2"
    using Cons.prems(1) env_okD by (auto simp: x)
  then show ?case using Cons.IH [of "asleep nf2" m2] Cons.prems(1,4) by (simp add: x s)
qed simp

section \<open>Starting a node\<close>

text \<open>On an empty data directory, and on the files a node has left.\<close>

lemma update_fresh:
  assumes "node_ok n"
  obtains m where "update_from_node n (metrics_init nid) = Ok m" "metrics_ok m"
  using update_ok [OF assms metrics_ok_init] by blast

lemma create_runtime_node:
  assumes "map_of peers nid = None" "path = (case data_dir of None \<Rightarrow> ''data/'' @ nid | Some p \<Rightarrow> p)"
    and "files path = d0" "node_init c nid (nid # map fst peers) (Some d0) = (Some d, Ok n)" "node_ok n"
  obtains rt where "create_runtime c nid peers data_dir files = (files(path := d), Ok rt)"
    "rt_node rt = set_observer (Some []) n" "node_ok (rt_node rt)" "pred_option metrics_ok (rt_metrics rt)"
    "rt_processor rt = Some (processor_init 1024 64)"
proof -
  have ok: "node_ok (set_observer (Some []) n)"
    using node_ok_same [OF assms(5), of "set_observer (Some []) n"] by (simp add: set_observer_def)
  obtain m where "update_from_node (set_observer (Some []) n) (metrics_init nid) = Ok m" "metrics_ok m"
    using update_fresh [OF ok] by blast
  then show ?thesis
    using assms(1,3,4) ok
      that [of "\<lparr>rt_node = set_observer (Some []) n, rt_transport = http_transport_init peers False,
                 rt_metrics = Some m, rt_processor = Some (processor_init 1024 64)\<rparr>"]
    by (simp add: create_runtime_def assms(2) Let_def)
qed

lemma create_runtime_empty:
  assumes "map_of peers nid = None" "dict_wf peers"
    and path: "path = (case data_dir of None \<Rightarrow> ''data/'' @ nid | Some p \<Rightarrow> p)" "files path = empty_disk"
  obtains rt where "create_runtime c nid peers data_dir files = (files, Ok rt)" "node_ok (rt_node rt)"
    "pred_option metrics_ok (rt_metrics rt)" "n_id (rt_node rt) = nid"
    "set (n_members (rt_node rt)) = insert nid (fst ` set peers)" "n_store (rt_node rt) = []"
proof -
  let ?members = "nid # map fst peers"
  have dist: "distinct ?members"
    using assms(1,2) by (auto simp: dict_wf_def map_of_eq_None_iff)
  define n where "n = recovered c ?members (raft_state_default nid) empty_snapshot empty_log [] (Some empty_disk)"
  have init: "node_init c nid ?members (Some empty_disk) = (Some empty_disk, Ok n)"
    using node_init_empty [of nid ?members c] by (simp add: n_def)
  have "node_ok n" using start_ok(1) [OF dist _ init] by simp
  from create_runtime_node [where files = files and path = path and data_dir = data_dir, OF assms(1) path(1,2) init this]
  obtain rt where "create_runtime c nid peers data_dir files = (files(path := empty_disk), Ok rt)"
      "rt_node rt = set_observer (Some []) n" "node_ok (rt_node rt)" "pred_option metrics_ok (rt_metrics rt)"
    by metis
  moreover have "files(path := empty_disk) = files" using path(2) by auto
  ultimately show ?thesis
    by (intro that [of rt]) (simp_all add: set_observer_def n_def recovered_def raft_state_default_def)
qed

lemma create_runtime_restart:
  assumes ok: "node_ok n" and d: "n_disk n = Some d" and nid: "n_id n = nid"
    and peers: "map_of peers nid = None" "n_members n = nid # map fst peers"
    and path: "path = (case data_dir of None \<Rightarrow> ''data/'' @ nid | Some p \<Rightarrow> p)" "files path = d"
  obtains rt where "create_runtime c nid peers data_dir files = (files, Ok rt)" "node_ok (rt_node rt)"
    "current_term (n_state (rt_node rt)) = current_term (n_state n)"
    "voted_for (n_state (rt_node rt)) = voted_for (n_state n)"
    "n_log (rt_node rt) = n_log n" "n_store (rt_node rt) = n_store n" "role (n_state (rt_node rt)) = FOLLOWER"
proof -
  have wf: "node_wf n" "node_durable n" using ok by (simp_all add: node_ok_def)
  define n' where "n' = recovered c (n_members n) (n_state n) (n_snapshot n) (n_log n) (n_store n) (Some d)"
  have init: "node_init c (n_id n) (n_members n) (Some d) = (Some d, Ok n')"
    using restart_durable [OF wf d, of c] by (simp add: n'_def)
  have "node_init c nid (nid # map fst peers) (Some d) = (Some d, Ok n')"
    using init by (simp add: nid peers(2))
  from create_runtime_node [where files = files and path = path and data_dir = data_dir, OF peers(1) path(1,2) this restart_ok(2) [OF ok d init]]
  obtain rt where rt: "create_runtime c nid peers data_dir files = (files(path := d), Ok rt)"
      "rt_node rt = set_observer (Some []) n'" "node_ok (rt_node rt)"
    by metis
  have "files(path := d) = files" using path(2) by auto
  then show ?thesis
    using rt by (intro that [of rt]) (simp_all add: set_observer_def n'_def recovered_def)
qed

lemma http_network_ok:
  assumes "\<And>n. node_ok n \<Longrightarrow> node_ok (env n)"
  shows "network_ok (http_network client t env)"
  using assms by (simp add: network_ok_def http_network_def case_prod_beta)

end
