(* ===== verification/Examples.thy ===== *)
theory Examples
  imports Cluster Transport Runtime
begin

text \<open>
  Concrete executions of the model, on which the properties are evaluated: a cluster of three
  nodes that elects a leader, a command that is replicated and committed, and a restart.
\<close>

section \<open>An election\<close>

definition clk :: "real \<Rightarrow> clock" where
  "clk t = \<lparr>clock_now = t, clock_rnd = 0\<rparr>"

definition members3 :: "string list" where
  "members3 = [''a'', ''b'', ''c'']"

definition fresh_node :: "string \<Rightarrow> raft_node" where
  "fresh_node i =
     \<lparr>n_id = i, n_members = members3, n_state = raft_state_default i, n_snapshot = empty_snapshot,
      n_log = empty_log, n_store = [], n_timer = default_timer (clk 0),
      n_election = \<lparr>tracker_members = members3, votes_received = [], active = False\<rparr>,
      n_replication = None, n_disk = Some empty_disk, read_lease_duration = 1 / 2,
      last_read_quorum_term = None, last_read_quorum_time = None, transfer_in_progress = False,
      n_observer = None\<rparr>"

definition vote_request1 :: request_vote_request where
  "vote_request1 = \<lparr>rv_term = 1, rv_candidate_id = ''a'', rv_last_log_index = 0, rv_last_log_term = 0\<rparr>"

definition candidate_a :: raft_node where
  "candidate_a = fst (tick_begin (clk 2) (fresh_node ''a''))"

definition voter_b :: raft_node where
  "voter_b = fst (node_request_vote (clk 2) vote_request1 (fresh_node ''b''))"

definition leader_a :: raft_node where
  "leader_a = fst (tick_response ''b'' vote_request1 (Ok \<lparr>rvr_term = 1, rvr_vote_granted = True\<rparr>) candidate_a)"

lemmas node_eval =
  fresh_node_def clk_def members3_def vote_request1_def empty_log_def empty_snapshot_def empty_disk_def
  raft_state_default_def default_timer_def timer_reset_def timer_expired_def last_index_def last_term_def
  persist_state_def observe_def quorum_size_def Let_def

lemma fresh_node_init:
  assumes "i \<in> set members3"
  shows "node_init (clk 0) i members3 (Some empty_disk) = (Some empty_disk, Ok (fresh_node i))"
proof -
  have "load_files i empty_disk = (empty_disk, Ok (raft_state_default i, empty_snapshot, empty_log))"
    by (simp add: load_files_def load_state_def load_snapshot_def load_log_def empty_disk_def empty_snapshot_def empty_log_def)
  then show ?thesis
    using assms
    by (auto simp: node_init_def fresh_node_def raft_state_default_def empty_snapshot_def empty_log_def last_index_def
        kv_restore_def tracker_init_def members3_def Let_def)
qed

lemma candidate_a_step:
  "tick_begin (clk 2) (fresh_node ''a'') = (candidate_a, Ok [(''b'', vote_request1), (''c'', vote_request1)])"
  by (simp add: candidate_a_def tick_begin_def start_election_if_needed_def tracker_start_def promote_if_quorum_def
      become_candidate_def node_eval)

lemma candidate_a_eq:
  "candidate_a = (fresh_node ''a'')\<lparr>
     n_state := (raft_state_default ''a'')\<lparr>current_term := 1, role := CANDIDATE, voted_for := Some ''a''\<rparr>,
     n_timer := default_timer (clk 2),
     n_election := \<lparr>tracker_members = members3, votes_received = [''a''], active = True\<rparr>,
     n_disk := Some (save_state ((raft_state_default ''a'')\<lparr>current_term := 1, voted_for := Some ''a''\<rparr>) empty_disk)\<rparr>"
  by (simp add: candidate_a_def tick_begin_def start_election_if_needed_def tracker_start_def promote_if_quorum_def
      become_candidate_def save_state_def state_to_json_def node_eval)

lemma voter_b_step:
  "node_request_vote (clk 2) vote_request1 (fresh_node ''b'') =
     (voter_b, Ok \<lparr>rvr_term = 1, rvr_vote_granted = True\<rparr>)"
  by (simp add: voter_b_def node_request_vote_def handle_request_vote_def become_follower_def
      is_candidate_log_up_to_date_def node_eval)

lemma voter_b_eq:
  "voter_b = (fresh_node ''b'')\<lparr>
     n_state := (raft_state_default ''b'')\<lparr>current_term := 1, voted_for := Some ''a''\<rparr>,
     n_timer := default_timer (clk 2),
     n_disk := Some (save_state ((raft_state_default ''b'')\<lparr>current_term := 1, voted_for := Some ''a''\<rparr>) empty_disk)\<rparr>"
  by (simp add: voter_b_def node_request_vote_def handle_request_vote_def become_follower_def drop_replication_def
      is_candidate_log_up_to_date_def save_state_def state_to_json_def node_eval)

definition replication_a :: "int \<Rightarrow> leader_replication" where
  "replication_a m = \<lparr>repl_members = members3, followers = [''b'', ''c''],
     next_index = [(''b'', m + 1), (''c'', 1)], match_index = [(''b'', m), (''c'', 0)]\<rparr>"

lemma leader_a_eq:
  "leader_a = candidate_a\<lparr>
     n_state := (raft_state_default ''a'')\<lparr>current_term := 1, role := LEADER, voted_for := Some ''a'', leader_id := Some ''a''\<rparr>,
     n_election := \<lparr>tracker_members = members3, votes_received = [''a'', ''b''], active = False\<rparr>,
     n_replication := Some (replication_a 0)\<rparr>"
  by (simp add: leader_a_def tick_response_def candidate_a_eq record_vote_def promote_if_quorum_def become_leader_def
      set_add_def initialize_leader_replication_def leader_replication_init_def replication_a_def node_eval)

section \<open>The election as steps of the cluster\<close>

definition start_cluster :: cluster where
  "start_cluster = \<lparr>nodes = fresh_node, vote_requests = {}, vote_replies = {}, history = {}, leaders = {}\<rparr>"

definition elected_cluster :: cluster where
  "elected_cluster =
     (let C1 = put_node ''a'' candidate_a (start_cluster\<lparr>vote_requests := {(''b'', vote_request1), (''c'', vote_request1)}\<rparr>);
          C2 = put_node ''b'' voter_b (C1\<lparr>vote_replies := {(''b'', vote_request1, \<lparr>rvr_term = 1, rvr_vote_granted = True\<rparr>)}\<rparr>)
      in put_node ''a'' leader_a C2)"

lemma start_reachable: "reachable members3 start_cluster"
proof (rule reachable.init, unfold cluster_init_def, intro conjI ballI)
  show "\<exists>c dsk dsk'. node_init c i members3 dsk = (dsk', Ok (nodes start_cluster i))" if "i \<in> set members3" for i
    using fresh_node_init [OF that] by (auto simp: start_cluster_def)
qed (auto simp: start_cluster_def members3_def votes_of_def fresh_node_def raft_state_default_def)

lemma elected_reachable: "reachable members3 elected_cluster"
proof -
  define C1 where "C1 = put_node ''a'' candidate_a
    (start_cluster\<lparr>vote_requests := {(''b'', vote_request1), (''c'', vote_request1)}\<rparr>)"
  define C2 where "C2 = put_node ''b'' voter_b
    (C1\<lparr>vote_replies := {(''b'', vote_request1, \<lparr>rvr_term = 1, rvr_vote_granted = True\<rparr>)}\<rparr>)"
  have "cluster_step members3 start_cluster C1"
    using cluster_step.tick_start [of "''a''" members3 "clk 2" start_cluster] candidate_a_step
    by (simp add: C1_def start_cluster_def members3_def)
  moreover have "cluster_step members3 C1 C2"
    using cluster_step.vote [of "''b''" members3 vote_request1 C1 "clk 2"] voter_b_step
    by (simp add: C2_def C1_def start_cluster_def members3_def put_node_def)
  moreover have "cluster_step members3 C2 (put_node ''a'' leader_a C2)"
    using cluster_step.tally [of "''a''" members3 "''b''" vote_request1 "\<lparr>rvr_term = 1, rvr_vote_granted = True\<rparr>" C2 leader_a]
    by (simp add: C2_def C1_def start_cluster_def members3_def put_node_def vote_request1_def leader_a_def
        prod_eq_iff)
  ultimately have "reachable members3 (put_node ''a'' leader_a C2)"
    using start_reachable reachable.step by blast
  then show ?thesis by (simp add: elected_cluster_def C1_def C2_def)
qed

lemma elected_leader:
  "role (n_state (nodes elected_cluster ''a'')) = LEADER" "current_term (n_state (nodes elected_cluster ''a'')) = 1"
  by (simp_all add: elected_cluster_def put_node_def leader_a_eq raft_state_default_def Let_def)

section \<open>A command is replicated and committed\<close>

definition put_x :: raft_command where
  "put_x = \<lparr>operation = ''PUT'', cmd_key = ''x'', cmd_value = Some ''1''\<rparr>"

definition entry_x :: log_entry where
  "entry_x = \<lparr>entry_index = 1, entry_term = 1, entry_command = put_x\<rparr>"

definition log_x :: raft_log where
  "log_x = \<lparr>base_index = 0, base_term = 0, entries = [entry_x]\<rparr>"

definition append_x :: append_entries_request where
  "append_x = \<lparr>ae_term = 1, ae_leader_id = ''a'', ae_prev_log_index = 0, ae_prev_log_term = 0,
     ae_entries = [entry_x], ae_leader_commit = 0\<rparr>"

definition submitted_a :: raft_node where
  "submitted_a = leader_a\<lparr>n_log := log_x, n_disk := map_option (append_log_entries [entry_x]) (n_disk leader_a)\<rparr>"

definition follower_b :: raft_node where
  "follower_b = fst (node_append_entries (clk 3) append_x voter_b)"

definition acknowledged_a :: raft_node where
  "acknowledged_a = submitted_a\<lparr>n_replication := Some (replication_a 1)\<rparr>"

definition committed_a :: raft_node where
  "committed_a = fst (replicate_log_finish acknowledged_a)"

lemmas leader_eval = leader_a_eq candidate_a_eq node_eval replication_a_def

lemma submitted_a_step: "submit_begin [put_x] leader_a = (submitted_a, Ok [entry_x])"
  by (simp add: submit_begin_def submitted_a_def check_command_def put_x_def log_append_def entry_x_def log_x_def
      initialize_leader_replication_def leader_eval)

lemma append_x_sent: "worker_build ''b'' submitted_a = Ok (Some (AppendRequest append_x))"
  by (simp add: worker_build_def submitted_a_def build_request_def term_at_def entries_from_def first_index_def
      append_x_def log_x_def entry_x_def dict_item_def leader_eval)

lemma follower_b_step:
  "node_append_entries (clk 3) append_x voter_b = (follower_b, Ok \<lparr>aer_term = 1, aer_success = True\<rparr>)"
  by (simp add: follower_b_def node_append_entries_def voter_b_eq append_x_def entries_from_def first_index_def
      handle_append_entries_def become_follower_def term_at_def log_get_def append_entry_def entry_x_def
      update_follower_commit_def persist_log_change_def durable_fields_def node_eval)

lemma follower_b_eq:
  "follower_b = voter_b\<lparr>
     n_state := (raft_state_default ''b'')\<lparr>current_term := 1, voted_for := Some ''a'', leader_id := Some ''a''\<rparr>,
     n_log := log_x, n_timer := default_timer (clk 3),
     n_disk := map_option (append_log_entries [entry_x]) (n_disk voter_b)\<rparr>"
  by (simp add: follower_b_def node_append_entries_def voter_b_eq append_x_def entries_from_def first_index_def
      handle_append_entries_def become_follower_def term_at_def log_get_def append_entry_def entry_x_def log_x_def
      update_follower_commit_def persist_log_change_def durable_fields_def drop_replication_def node_eval)

lemma acknowledged_a_step:
  "worker_response ''b'' (AppendRequest append_x) 1 True submitted_a = (acknowledged_a, Ok (Some True))"
  by (simp add: worker_response_def acknowledged_a_def submitted_a_def record_success_def raise_match_def dict_item_def
      append_x_def entry_x_def log_x_def leader_eval)

lemma committed_a_eq:
  "committed_a = acknowledged_a\<lparr>
     n_state := (n_state leader_a)\<lparr>commit_index := 1, last_applied := 1\<rparr>,
     n_store := [(''x'', ''1'')],
     n_disk := map_option (save_state ((n_state leader_a)\<lparr>commit_index := 1\<rparr>)) (n_disk submitted_a)\<rparr>"
  by (simp add: committed_a_def replicate_log_finish_def acknowledged_a_def submitted_a_def advance_commit_index_def
      nth_opt_def log_get_def log_x_def entry_x_def put_x_def apply_committed_entries.simps apply_command_def kv_put_def
      leader_eval)

lemma committed_a_step: "replicate_log_finish acknowledged_a = (committed_a, Ok ())"
  by (simp add: committed_a_def replicate_log_finish_def acknowledged_a_def submitted_a_def advance_commit_index_def
      nth_opt_def log_get_def log_x_def entry_x_def put_x_def apply_committed_entries.simps apply_command_def kv_put_def
      leader_eval)

section \<open>The nodes of the example are reachable\<close>

lemma fresh_node_reachable: "i \<in> set members3 \<Longrightarrow> node_reachable (fresh_node i)"
  using node_reachable.start [OF _ _ fresh_node_init] by (simp add: members3_def)

lemma leader_a_reachable: "node_reachable leader_a"
proof -
  have "node_step (fresh_node ''a'') candidate_a" using candidate_a_step by (rule node_step.election)
  moreover have "node_step candidate_a leader_a"
    using node_step.tally [of "''b''" vote_request1 "Ok \<lparr>rvr_term = 1, rvr_vote_granted = True\<rparr>" candidate_a leader_a]
    by (simp add: leader_a_def prod_eq_iff)
  ultimately show ?thesis
    using node_reachable.step fresh_node_reachable [of "''a''"] by (simp add: members3_def) blast
qed

lemma committed_a_reachable: "node_reachable submitted_a" "node_reachable acknowledged_a" "node_reachable committed_a"
proof -
  show s: "node_reachable submitted_a"
    using node_reachable.step [OF leader_a_reachable node_step.submit [OF submitted_a_step]] .
  show a: "node_reachable acknowledged_a"
    using node_reachable.step [OF s node_step.progress [OF acknowledged_a_step]] .
  show "node_reachable committed_a"
    using node_reachable.step [OF a node_step.commit [OF committed_a_step]] .
qed

lemma append_x_wf: "wf_append_request append_x"
  by (simp add: wf_append_request_def append_x_def entry_x_def put_x_def valid_command_def contiguous_def)

lemma follower_b_reachable: "node_reachable voter_b" "node_reachable follower_b"
proof -
  show v: "node_reachable voter_b"
    using node_reachable.step [OF fresh_node_reachable node_step.vote [OF voter_b_step]] by (simp add: members3_def)
  have "agrees_committed append_x (n_state voter_b) (n_log voter_b)"
    by (simp add: agrees_committed_def append_x_def entry_x_def voter_b_eq raft_state_default_def)
  then show "node_reachable follower_b"
    using node_reachable.step [OF v node_step.append [OF append_x_wf _ follower_b_step]] by blast
qed

section \<open>Snapshots of the example\<close>

lemma committed_a_snapshot: "\<exists>n'. create_snapshot committed_a = (n', Ok True)"
proof -
  have "snd (create_snapshot committed_a) = Ok True"
    by (simp add: create_snapshot_def committed_a_eq acknowledged_a_def submitted_a_def term_at_def log_get_def
        nth_opt_def raft_snapshot_def snapshot_post_init_def log_copy_def raft_log_init_def append_entry_def
        compact_through_def entries_from_def first_index_def save_log_def log_x_def entry_x_def leader_eval)
  then show ?thesis by (metis prod.collapse)
qed

definition install_x :: install_snapshot_request where
  "install_x = \<lparr>is_term = 1, is_leader_id = ''a'', is_last_included_index = 1, is_last_included_term = 1,
     is_state = [(''x'', ''1'')]\<rparr>"

lemma voter_b_install:
  "\<exists>n'. node_install_snapshot (clk 4) install_x voter_b = (n', Ok \<lparr>isr_term = 1, isr_success = True\<rparr>)"
proof -
  have "snd (node_install_snapshot (clk 4) install_x voter_b) = Ok \<lparr>isr_term = 1, isr_success = True\<rparr>"
    by (simp add: node_install_snapshot_def install_x_def voter_b_eq become_follower_def term_at_def log_get_def
        raft_snapshot_def snapshot_post_init_def log_copy_def raft_log_init_def install_snapshot_boundary_def
        finish_install_def save_log_def entries_from_def first_index_def node_eval)
  then show ?thesis by (metis prod.collapse)
qed

section \<open>Reads of the example\<close>

lemmas read_eval = confirm_read_quorum_def confirm_read_quorum_body_def initialize_leader_replication_def
  finish_workers_def set_add_def read_confirmed_def node_apply_def apply_committed_entries.simps
  has_valid_read_lease_def

lemma leader_a_read:
  "confirm_read_quorum_body ((\<lambda>nf. nf), [[], [(''b'', Ok True)]]) 5 (leader_a, []) =
     ((leader_a\<lparr>last_read_quorum_term := Some 1, last_read_quorum_time := Some 5\<rparr>, [(''c'', Running)]), Ok ())"
  by (simp add: read_eval leader_eval)

lemma committed_a_read:
  "\<exists>n' fs'. linearizable_get ''x'' ((\<lambda>nf. nf), [[], [(''b'', Ok True)]]) (5, 5, 5) (\<lambda>nf. nf) (committed_a, []) =
     ((n', fs'), Ok (Some ''1''))"
  by (simp add: linearizable_get_def read_eval committed_a_eq acknowledged_a_def submitted_a_def kv_get_def leader_eval)

section \<open>The command processor of the example\<close>

text \<open>Two commands are accepted, the worker has taken the first and goes on to submit it.\<close>

definition processor_x :: command_processor where
  "processor_x =
     \<lparr>max_queue_size = 1024, max_batch_size = 64,
      cp_queue = [Some \<lparr>q_command = put_x, q_future = 1\<rparr>], cp_thread = Some 0,
      cp_workers = [Submitting [\<lparr>q_command = put_x, q_future = 0\<rparr>] False], cp_next = 2,
      cp_results = Map.empty\<rparr>"

lemma processor_x_reachable: "processor_reachable node_service processor_x"
proof -
  let ?p1 = "processor_start (processor_init 1024 64)"
  let ?p2 = "fst (processor_submit put_x ?p1)"
  let ?p3 = "fst (processor_submit put_x ?p2)"
  let ?p4 = "the (worker_get 0 ?p3)"
  have r3: "processor_reachable node_service ?p3"
    by (intro processor_reachable.step [OF _ processor_step.submit [OF prod.collapse [symmetric]]]
        processor_reachable.step [OF processor_reachable.init processor_step.start])
  have "worker_get 0 ?p3 = Some ?p4"
    by (simp add: worker_get_def processor_submit_def processor_start_def processor_init_def queue_full_def nth_opt_def)
  then have "processor_reachable node_service ?p4"
    by (rule processor_reachable.step [OF r3 processor_step.worker [OF worker_step.get]])
  moreover have "worker_collect True 0 ?p4 = Some processor_x"
    by (simp add: worker_collect_def worker_get_def processor_submit_def processor_start_def processor_init_def
        queue_full_def processor_x_def nth_opt_def)
  ultimately show ?thesis
    using processor_reachable.step processor_step.worker worker_step.collect by blast
qed

text \<open>The write of the example through \<open>node.put\<close>; the workers' acknowledgement comes in between.\<close>

lemma acknowledged_replicate:
  "replicate_log ((\<lambda>nf. nf), []) (acknowledged_a, []) = ((committed_a, [(''b'', Running), (''c'', Running)]), Ok ())"
proof -
  have a: "role (n_state acknowledged_a) = LEADER" "n_replication acknowledged_a = Some (replication_a 1)"
    "length (n_members acknowledged_a) = 3"
    by (simp_all add: acknowledged_a_def submitted_a_def leader_eval)
  have init: "initialize_leader_replication acknowledged_a = (acknowledged_a, Ok ())"
    by (simp add: initialize_leader_replication_def a)
  have "replicate_followers ((\<lambda>nf. nf), []) None (acknowledged_a, []) =
      ((acknowledged_a, [(''b'', Running), (''c'', Running)]), Ok [])"
    by (simp add: replicate_followers_def a init) (simp add: replication_a_def)
  then show ?thesis by (simp add: replicate_log_def a init committed_a_step)
qed

lemma submit_x_run:
  "\<exists>nf'. submit_commands [put_x] (\<lambda>nf. (acknowledged_a, snd nf)) ((\<lambda>nf. nf), []) (\<lambda>nf. nf) ((\<lambda>nf. nf), []) (leader_a, []) =
     (nf', Ok [True])"
proof -
  have "submit_results [entry_x] committed_a = [True]"
    by (simp add: submit_results_def committed_a_eq acknowledged_a_def submitted_a_def entry_x_def leader_eval)
  moreover have "\<exists>nf'. send_heartbeats ((\<lambda>nf. nf), []) (committed_a, [(''b'', Running), (''c'', Running)]) = (nf', Ok [])"
    by (simp add: send_heartbeats_def replicate_followers_def initialize_leader_replication_def committed_a_eq
        acknowledged_a_def submitted_a_def leader_eval)
  ultimately show ?thesis by (auto simp: submit_commands_def submitted_a_step acknowledged_replicate)
qed

lemma put_x_run:
  "\<exists>nf'. node_put ''x'' ''1'' (\<lambda>nf. (acknowledged_a, snd nf)) ((\<lambda>nf. nf), []) (\<lambda>nf. nf) ((\<lambda>nf. nf), []) (leader_a, []) =
     (nf', Ok True)"
proof -
  have c: "\<lparr>operation = ''PUT'', cmd_key = ''x'', cmd_value = Some ''1''\<rparr> = put_x" by (simp add: put_x_def)
  show ?thesis using submit_x_run by (auto simp: node_put_def c submit_command_def)
qed

text \<open>
  A restart that overtakes the stop: \<open>start\<close> runs before the old worker has taken the stop request,
  and the new worker takes it. The processor counts as running on a thread that has ended, and the
  old one, which \<open>stop\<close> waits for, stays in its loop.
\<close>

lemma restart_takes_stop:
  "\<exists>p. processor_reachable node_service p \<and> cp_thread p = Some 1 \<and> cp_workers p = [Waiting, Finished] \<and> cp_queue p = []"
proof -
  let ?p1 = "processor_start (processor_init 1024 64)"
  let ?p2 = "fst (the (processor_stop ?p1))"
  let ?p3 = "processor_start ?p2"
  let ?p4 = "the (worker_get 1 ?p3)"
  note eval = processor_start_def processor_stop_def processor_init_def queue_full_def worker_get_def nth_opt_def
  have r1: "processor_reachable node_service ?p1"
    by (rule processor_reachable.step [OF processor_reachable.init processor_step.start])
  have "processor_stop ?p1 = Some (?p2, Some 0)" by (simp add: eval)
  from processor_reachable.step [OF r1 processor_step.stop [OF this]]
  have r3: "processor_reachable node_service ?p3"
    by (rule processor_reachable.step [OF _ processor_step.start])
  have "worker_get 1 ?p3 = Some ?p4" by (simp add: eval)
  from processor_reachable.step [OF r3 processor_step.worker [OF worker_step.get [OF this]]]
  have "processor_reachable node_service ?p4" .
  moreover have "cp_thread ?p4 = Some 1 \<and> cp_workers ?p4 = [Waiting, Finished] \<and> cp_queue ?p4 = []"
    by (simp add: eval)
  ultimately show ?thesis by blast
qed

end
