(* ===== verification/StaleRead.thy ===== *)
theory StaleRead
  imports Examples
begin

text \<open>
  What a read on a fresh leader returns. The execution goes on from \<open>Examples\<close>: node a has
  committed the command and answered its client, node b holds the entry but has not heard that it
  is committed. Node b is elected in the next term by node c, and a client reads the key from it.
\<close>

section \<open>Node b takes over\<close>

definition vote_request2 :: request_vote_request where
  "vote_request2 = \<lparr>rv_term = 2, rv_candidate_id = ''b'', rv_last_log_index = 1, rv_last_log_term = 1\<rparr>"

definition candidate_b :: raft_node where
  "candidate_b = fst (tick_begin (clk 10) follower_b)"

definition voter_c :: raft_node where
  "voter_c = fst (node_request_vote (clk 10) vote_request2 (fresh_node ''c''))"

definition leader_b :: raft_node where
  "leader_b = fst (tick_response ''c'' vote_request2 (Ok \<lparr>rvr_term = 2, rvr_vote_granted = True\<rparr>) candidate_b)"

definition replication_b :: leader_replication where
  "replication_b = \<lparr>repl_members = members3, followers = [''a'', ''c''],
     next_index = [(''a'', 2), (''c'', 2)], match_index = [(''a'', 0), (''c'', 0)]\<rparr>"

lemma candidate_b_eq:
  "candidate_b = follower_b\<lparr>
     n_state := (raft_state_default ''b'')\<lparr>current_term := 2, role := CANDIDATE, voted_for := Some ''b''\<rparr>,
     n_timer := default_timer (clk 10),
     n_election := \<lparr>tracker_members = members3, votes_received = [''b''], active = True\<rparr>,
     n_disk := map_option (save_state ((raft_state_default ''b'')\<lparr>current_term := 2, voted_for := Some ''b''\<rparr>)) (n_disk follower_b)\<rparr>"
  by (simp add: candidate_b_def tick_begin_def start_election_if_needed_def tracker_start_def promote_if_quorum_def
      become_candidate_def save_state_def state_to_json_def follower_b_eq voter_b_eq node_eval)

lemma candidate_b_step: "snd (tick_begin (clk 10) follower_b) = Ok [(''a'', vote_request2), (''c'', vote_request2)]"
  by (simp add: tick_begin_def start_election_if_needed_def tracker_start_def promote_if_quorum_def
      become_candidate_def follower_b_eq voter_b_eq vote_request2_def log_x_def entry_x_def node_eval)

lemma voter_c_step:
  "node_request_vote (clk 10) vote_request2 (fresh_node ''c'') = (voter_c, Ok \<lparr>rvr_term = 2, rvr_vote_granted = True\<rparr>)"
  by (simp add: voter_c_def node_request_vote_def handle_request_vote_def become_follower_def vote_request2_def
      is_candidate_log_up_to_date_def node_eval)

lemma voter_c_eq:
  "voter_c = (fresh_node ''c'')\<lparr>
     n_state := (raft_state_default ''c'')\<lparr>current_term := 2, voted_for := Some ''b''\<rparr>,
     n_timer := default_timer (clk 10),
     n_disk := Some (save_state ((raft_state_default ''c'')\<lparr>current_term := 2, voted_for := Some ''b''\<rparr>) empty_disk)\<rparr>"
  by (simp add: voter_c_def node_request_vote_def handle_request_vote_def become_follower_def drop_replication_def
      vote_request2_def is_candidate_log_up_to_date_def save_state_def state_to_json_def node_eval)

lemma leader_b_eq:
  "leader_b = candidate_b\<lparr>
     n_state := (raft_state_default ''b'')\<lparr>current_term := 2, role := LEADER, voted_for := Some ''b'', leader_id := Some ''b''\<rparr>,
     n_election := \<lparr>tracker_members = members3, votes_received = [''b'', ''c''], active = False\<rparr>,
     n_replication := Some replication_b\<rparr>"
  by (simp add: leader_b_def tick_response_def candidate_b_eq follower_b_eq voter_b_eq record_vote_def promote_if_quorum_def
      become_leader_def vote_request2_def set_add_def initialize_leader_replication_def leader_replication_init_def
      replication_b_def log_x_def entry_x_def node_eval)

lemma leader_b_reachable: "node_reachable leader_b"
proof -
  have "node_step follower_b candidate_b"
    using node_step.election [of "clk 10" follower_b candidate_b] by (simp add: candidate_b_def prod_eq_iff)
  moreover have "node_step candidate_b leader_b"
    using node_step.tally [of "''c''" vote_request2 "Ok \<lparr>rvr_term = 2, rvr_vote_granted = True\<rparr>" candidate_b leader_b]
    by (simp add: leader_b_def prod_eq_iff)
  ultimately show ?thesis using node_reachable.step follower_b_reachable(2) by blast
qed

section \<open>The read\<close>

text \<open>The network to node c, whose state is the world, and the worker the read starts for it.\<close>

definition net_c :: "raft_node network" where
  "net_c = \<lparr>net_append = (\<lambda>f q nw. case nw of (n, w) \<Rightarrow>
                (case node_append_entries (clk 11) q w of (w, r) \<Rightarrow> ((n, w), r))),
            net_install = (\<lambda>f q nw. case nw of (n, w) \<Rightarrow>
                (case node_install_snapshot (clk 11) q w of (w, r) \<Rightarrow> ((n, w), r))),
            net_timeout = (\<lambda>f q nw. case nw of (n, w) \<Rightarrow>
                (case node_timeout_now q w of (w, r) \<Rightarrow> ((n, w), r)))\<rparr>"

definition worker_c :: node_env where
  "worker_c nf = (case nf of (n, fs) \<Rightarrow> (fst (fst (replicate_to_follower 2 net_c ''c'' (n, voter_c))), fs))"

lemmas stale_eval = leader_b_eq candidate_b_eq follower_b_eq voter_b_eq replication_b_def log_x_def entry_x_def node_eval

definition append_b :: "int \<Rightarrow> append_entries_request" where
  "append_b p = \<lparr>ae_term = 2, ae_leader_id = ''b'', ae_prev_log_index = p, ae_prev_log_term = p,
     ae_entries = (if p = 0 then [entry_x] else []), ae_leader_commit = 0\<rparr>"

definition backed_b :: raft_node where
  "backed_b = leader_b\<lparr>n_replication := Some (replication_b\<lparr>next_index := [(''a'', 2), (''c'', 1)]\<rparr>)\<rparr>"

lemma worker_c_builds:
  "worker_build ''c'' leader_b = Ok (Some (AppendRequest (append_b 1)))"
  "worker_build ''c'' backed_b = Ok (Some (AppendRequest (append_b 0)))"
  by (simp_all add: worker_build_def backed_b_def build_request_def term_at_def log_get_def nth_opt_def entries_from_def
      first_index_def append_b_def dict_item_def stale_eval)

definition refusing_c :: raft_node where
  "refusing_c = fst (node_append_entries (clk 11) (append_b 1) voter_c)"

lemma refusing_c_step:
  "node_append_entries (clk 11) (append_b 1) voter_c = (refusing_c, Ok \<lparr>aer_term = 2, aer_success = False\<rparr>)"
  by (simp add: refusing_c_def node_append_entries_def voter_c_eq append_b_def entries_from_def first_index_def
      handle_append_entries_def become_follower_def persist_log_change_def node_eval)

lemma refusing_c_eq:
  "refusing_c = voter_c\<lparr>n_state := (raft_state_default ''c'')\<lparr>current_term := 2, voted_for := Some ''b'', leader_id := Some ''b''\<rparr>\<rparr>"
  by (simp add: refusing_c_def node_append_entries_def voter_c_eq append_b_def entries_from_def first_index_def
      handle_append_entries_def become_follower_def persist_log_change_def durable_fields_def drop_replication_def node_eval)

lemma accepting_c_step:
  "snd (node_append_entries (clk 11) (append_b 0) refusing_c) = Ok \<lparr>aer_term = 2, aer_success = True\<rparr>"
  by (simp add: node_append_entries_def refusing_c_eq voter_c_eq append_b_def entries_from_def first_index_def
      handle_append_entries_def become_follower_def term_at_def log_get_def append_entry_def entry_x_def
      update_follower_commit_def persist_log_change_def node_eval)

definition caught_up_b :: raft_node where
  "caught_up_b = leader_b\<lparr>n_replication := Some (replication_b\<lparr>match_index := [(''a'', 0), (''c'', 1)]\<rparr>)\<rparr>"

lemma worker_c_responses:
  "worker_response ''c'' (AppendRequest (append_b 1)) 2 False leader_b = (backed_b, Ok None)"
  "worker_response ''c'' (AppendRequest (append_b 0)) 2 True backed_b = (caught_up_b, Ok (Some True))"
  by (simp_all add: worker_response_def backed_b_def caught_up_b_def record_failure_def record_success_def raise_match_def
      dict_item_def append_b_def stale_eval)

lemma backed_b_observe [simp]: "observe ev leader_b = leader_b" "observe ev backed_b = backed_b"
  by (simp_all add: backed_b_def stale_eval)

lemma worker_c_runs:
  "\<exists>c. replicate_to_follower 2 net_c ''c'' (leader_b, voter_c) = ((caught_up_b, c), Some (Ok True))"
proof -
  obtain c where c: "node_append_entries (clk 11) (append_b 0) refusing_c = (c, Ok \<lparr>aer_term = 2, aer_success = True\<rparr>)"
    using accepting_c_step by (metis prod.collapse)
  have "replicate_to_follower (Suc (Suc 0)) net_c ''c'' (leader_b, voter_c) = ((caught_up_b, c), Some (Ok True))"
    by (simp add: worker_c_builds worker_send_def net_c_def refusing_c_step c worker_c_responses)
  then show ?thesis by (auto simp: numeral_2_eq_2)
qed

lemma fresh_leader_read:
  "linearizable_get ''x'' (worker_c, [[], [(''c'', Ok True)]]) (12, 12, 12) (\<lambda>nf. nf) (leader_b, []) =
     ((caught_up_b\<lparr>last_read_quorum_term := Some 2, last_read_quorum_time := Some 12\<rparr>, [(''a'', Running)]), Ok None)"
proof -
  obtain c where c: "replicate_to_follower 2 net_c ''c'' (leader_b, voter_c) = ((caught_up_b, c), Some (Ok True))"
    using worker_c_runs by blast
  have w: "worker_c (leader_b, fs) = (caught_up_b, fs)" for fs by (simp add: worker_c_def c)
  have f: "role (n_state leader_b) = LEADER" "current_term (n_state leader_b) = 2" "n_replication leader_b = Some replication_b"
      "n_members leader_b = members3" "last_read_quorum_term leader_b = None"
      "followers replication_b = [''a'', ''c'']"
    by (simp_all add: stale_eval)
  have g: "role (n_state caught_up_b) = LEADER" "current_term (n_state caught_up_b) = 2"
      "n_store caught_up_b = []" "n_observer caught_up_b = None" "read_lease_duration caught_up_b = 1 / 2"
      "commit_index (n_state caught_up_b) = 0" "last_applied (n_state caught_up_b) = 0"
    by (simp_all add: caught_up_b_def stale_eval)
  show ?thesis
    by (simp add: linearizable_get_def read_eval f g w members3_def kv_get_def observe_def Let_def)
qed

end
