(* ===== verification/SystemExamples.thy ===== *)
theory SystemExamples
  imports CatchUp StaleRead
begin

text \<open>
  The executions of the theories Examples and StaleRead as runs of the system: node a is elected,
  replicates a command to node b and commits it (\<open>committed_system\<close>); then node b hears of the
  commit (\<open>informed_system\<close>), or is elected itself by node c (\<open>successor_system\<close>), or node c takes
  the entry, commits and compacts it, while its answer does not reach the leader (\<open>compacted_system\<close>).
\<close>

section \<open>The command is committed\<close>

definition granted :: "int \<Rightarrow> request_vote_response" where
  "granted t = \<lparr>rvr_term = t, rvr_vote_granted = True\<rparr>"

definition start_system :: system where
  "start_system = \<lparr>group = start_cluster, sent = {}, answers = {}\<rparr>"

definition elected_system :: system where
  "elected_system = \<lparr>group = elected_cluster, sent = {}, answers = {}\<rparr>"

definition sent_system :: system where
  "sent_system = elected_system\<lparr>group := put_node ''a'' submitted_a elected_cluster,
     sent := {(''b'', AppendRequest append_x)}\<rparr>"

definition committed_system :: system where
  "committed_system =
     sent_system\<lparr>answers := {(''b'', AppendRequest append_x, 1, True)},
       group := put_node ''a'' committed_a (put_node ''a'' acknowledged_a (put_node ''b'' follower_b (group sent_system)))\<rparr>"

lemma start_system_init: "system_init members3 start_system"
proof -
  have "distinct members3" by (simp add: members3_def)
  then show ?thesis
    using fresh_node_init unfolding system_init_def by (force simp: start_system_def start_cluster_def)
qed

lemma elected_run: "(system_step members3)\<^sup>*\<^sup>* start_system elected_system"
proof -
  define C1 where "C1 = put_node ''a'' candidate_a
    (start_cluster\<lparr>vote_requests := {(''b'', vote_request1), (''c'', vote_request1)}\<rparr>)"
  define C2 where "C2 = put_node ''b'' voter_b (C1\<lparr>vote_replies := {(''b'', vote_request1, granted 1)}\<rparr>)"
  have mem: "''a'' \<in> set members3" "''b'' \<in> set members3" by (simp_all add: members3_def)
  have "tick_begin (clk 2) (nodes (group start_system) ''a'') =
      (candidate_a, Ok [(''b'', vote_request1), (''c'', vote_request1)])"
    by (simp add: start_system_def start_cluster_def candidate_a_step)
  from system_step.tick [OF mem(1) this]
  have s1: "system_step members3 start_system (start_system\<lparr>group := C1\<rparr>)"
    by (simp add: start_system_def C1_def ok_requests_def start_cluster_def)
  have "system_step members3 (start_system\<lparr>group := C1\<rparr>) (start_system\<lparr>group := C2\<rparr>)"
    using system_step.vote [of "''b''" members3 vote_request1 "start_system\<lparr>group := C1\<rparr>" "clk 2"] voter_b_step mem
    by (simp add: C2_def C1_def start_cluster_def put_node_def granted_def)
  moreover have "system_step members3 (start_system\<lparr>group := C2\<rparr>) (start_system\<lparr>group := put_node ''a'' leader_a C2\<rparr>)"
    using system_step.tally [of "''a''" members3 "''b''" vote_request1 "granted 1" "start_system\<lparr>group := C2\<rparr>" leader_a] mem
    by (simp add: C2_def C1_def start_cluster_def put_node_def vote_request1_def leader_a_def granted_def prod_eq_iff)
  moreover have "start_system\<lparr>group := put_node ''a'' leader_a C2\<rparr> = elected_system"
    by (simp add: elected_system_def elected_cluster_def start_system_def C2_def C1_def granted_def Let_def)
  ultimately show ?thesis
    using s1 by (metis (no_types, lifting) converse_rtranclp_into_rtranclp rtranclp.rtrancl_refl)
qed

lemma submitted_run:
  "system_step members3 elected_system (elected_system\<lparr>group := put_node ''a'' submitted_a elected_cluster\<rparr>)"
  "(system_step members3)\<^sup>*\<^sup>* (elected_system\<lparr>group := put_node ''a'' submitted_a elected_cluster\<rparr>) committed_system"
proof -
  let ?S1 = "elected_system\<lparr>group := put_node ''a'' submitted_a elected_cluster\<rparr>"
  let ?S3 = "sent_system\<lparr>group := put_node ''b'' follower_b (group sent_system), answers := {(''b'', AppendRequest append_x, 1, True)}\<rparr>"
  let ?S4 = "?S3\<lparr>group := put_node ''a'' acknowledged_a (group ?S3)\<rparr>"
  have mem: "''a'' \<in> set members3" "''b'' \<in> set members3" by (simp_all add: members3_def)
  have elected: "nodes elected_cluster ''a'' = leader_a" "nodes elected_cluster ''b'' = voter_b"
    by (simp_all add: elected_cluster_def put_node_def Let_def)
  show "system_step members3 elected_system ?S1"
    using system_step.submit [OF mem(1), of "[put_x]" elected_system submitted_a "Ok [entry_x]"] submitted_a_step elected
    by (simp add: elected_system_def)
  have "system_step members3 ?S1 sent_system"
    using system_step.send [OF mem(1), of "''b''" ?S1 "AppendRequest append_x"] append_x_sent
    by (simp add: put_node_def elected_system_def sent_system_def)
  moreover have "system_step members3 sent_system ?S3"
    using system_step.append [OF mem(2), of append_x sent_system "clk 3" follower_b] follower_b_step elected
    by (simp add: put_node_def sent_system_def elected_system_def)
  moreover have "system_step members3 ?S3 ?S4"
    using system_step.progress [OF mem(1), of "''b''" "AppendRequest append_x" 1 True ?S3 acknowledged_a "Ok (Some True)"]
      acknowledged_a_step
    by (simp add: put_node_def sent_system_def append_x_def)
  moreover have "system_step members3 ?S4 committed_system"
    using system_step.commit [OF mem(1), of ?S4 committed_a "Ok ()"] committed_a_step
    by (simp add: put_node_def committed_system_def)
  ultimately show "(system_step members3)\<^sup>*\<^sup>* ?S1 committed_system"
    by (meson converse_rtranclp_into_rtranclp rtranclp.rtrancl_refl)
qed

lemma committed_run: "(system_step members3)\<^sup>*\<^sup>* elected_system committed_system"
  using submitted_run by (rule converse_rtranclp_into_rtranclp)

lemma committed_reachable: "system_reachable members3 elected_system" "system_reachable members3 committed_system"
proof -
  show e: "system_reachable members3 elected_system"
    using start_system_init elected_run by (auto simp: system_reachable_def)
  show "system_reachable members3 committed_system" by (rule system_reachable_steps [OF e committed_run])
qed

lemma committed_nodes:
  "nodes (group committed_system) ''a'' = committed_a" "nodes (group committed_system) ''b'' = follower_b"
  "nodes (group committed_system) ''c'' = fresh_node ''c''"
  by (simp_all add: committed_system_def sent_system_def elected_cluster_def put_node_def start_cluster_def Let_def)

section \<open>The follower hears of the commit\<close>

definition commit_x :: append_entries_request where
  "commit_x = \<lparr>ae_term = 1, ae_leader_id = ''a'', ae_prev_log_index = 1, ae_prev_log_term = 1,
     ae_entries = [], ae_leader_commit = 1\<rparr>"

definition informed_b :: raft_node where
  "informed_b = fst (node_append_entries (clk 4) commit_x follower_b)"

definition informed_system :: system where
  "informed_system =
     (let S = committed_system\<lparr>sent := insert (''b'', AppendRequest commit_x) (sent committed_system)\<rparr>
      in S\<lparr>group := put_node ''b'' informed_b (group S),
           answers := system.answers S \<union> {(''b'', AppendRequest commit_x, 1, True)}\<rparr>)"

lemmas commit_eval = committed_a_eq acknowledged_a_def submitted_a_def leader_eval log_x_def entry_x_def put_x_def

lemma commit_x_sent: "worker_build ''b'' committed_a = Ok (Some (AppendRequest commit_x))"
  by (simp add: worker_build_def build_request_def term_at_def log_get_def nth_opt_def entries_from_def first_index_def
      commit_x_def dict_item_def commit_eval)

lemma informed_b_step:
  "node_append_entries (clk 4) commit_x follower_b = (informed_b, Ok \<lparr>aer_term = 1, aer_success = True\<rparr>)"
  by (simp add: informed_b_def node_append_entries_def follower_b_eq voter_b_eq commit_x_def entries_from_def first_index_def
      handle_append_entries_def become_follower_def term_at_def log_get_def nth_opt_def update_follower_commit_def
      apply_committed_entries.simps apply_command_def kv_put_def persist_log_change_def log_x_def entry_x_def put_x_def node_eval)

lemma informed_b_state: "commit_index (n_state informed_b) = 1" "n_log informed_b = log_x"
  by (simp_all add: informed_b_def node_append_entries_def follower_b_eq voter_b_eq commit_x_def entries_from_def first_index_def
      handle_append_entries_def become_follower_def term_at_def log_get_def nth_opt_def update_follower_commit_def
      apply_committed_entries.simps apply_command_def kv_put_def persist_log_change_def log_x_def entry_x_def put_x_def
      drop_replication_def durable_fields_def node_eval)

lemma informed_run: "(system_step members3)\<^sup>*\<^sup>* committed_system informed_system"
proof -
  let ?S = "committed_system\<lparr>sent := insert (''b'', AppendRequest commit_x) (sent committed_system)\<rparr>"
  have mem: "''a'' \<in> set members3" "''b'' \<in> set members3" by (simp_all add: members3_def)
  have "system_step members3 committed_system ?S"
    using system_step.send [OF mem(1), of "''b''" committed_system] commit_x_sent committed_nodes by simp
  moreover have "system_step members3 ?S informed_system"
    using system_step.append [OF mem(2), of commit_x ?S "clk 4" informed_b "Ok \<lparr>aer_term = 1, aer_success = True\<rparr>"]
      informed_b_step committed_nodes
    by (simp add: informed_system_def)
  ultimately show ?thesis
    by (meson converse_rtranclp_into_rtranclp rtranclp.rtrancl_refl)
qed

lemma informed_nodes:
  "nodes (group informed_system) ''a'' = committed_a" "nodes (group informed_system) ''b'' = informed_b"
  using committed_nodes by (simp_all add: informed_system_def put_node_def Let_def)

section \<open>The follower takes over\<close>

definition successor_system :: system where
  "successor_system =
     (let C = group committed_system;
          C1 = put_node ''b'' candidate_b (C\<lparr>vote_requests := vote_requests C \<union> {(''a'', vote_request2), (''c'', vote_request2)}\<rparr>);
          C2 = put_node ''c'' voter_c (C1\<lparr>vote_replies := insert (''c'', vote_request2, granted 2) (vote_replies C1)\<rparr>)
      in committed_system\<lparr>group := put_node ''b'' leader_b C2\<rparr>)"

lemma successor_run: "(system_step members3)\<^sup>*\<^sup>* committed_system successor_system"
proof -
  let ?C = "group committed_system"
  define C1 where "C1 = put_node ''b'' candidate_b
    (?C\<lparr>vote_requests := vote_requests ?C \<union> {(''a'', vote_request2), (''c'', vote_request2)}\<rparr>)"
  define C2 where "C2 = put_node ''c'' voter_c (C1\<lparr>vote_replies := insert (''c'', vote_request2, granted 2) (vote_replies C1)\<rparr>)"
  have mem: "''b'' \<in> set members3" "''c'' \<in> set members3" by (simp_all add: members3_def)
  have "tick_begin (clk 10) (nodes ?C ''b'') = (candidate_b, Ok [(''a'', vote_request2), (''c'', vote_request2)])"
    using candidate_b_step committed_nodes by (simp add: candidate_b_def prod_eq_iff)
  from system_step.tick [OF mem(1) this]
  have s1: "system_step members3 committed_system (committed_system\<lparr>group := C1\<rparr>)"
    by (simp add: C1_def ok_requests_def)
  have "system_step members3 (committed_system\<lparr>group := C1\<rparr>) (committed_system\<lparr>group := C2\<rparr>)"
    using system_step.vote [of "''c''" members3 vote_request2 "committed_system\<lparr>group := C1\<rparr>" "clk 10"]
      voter_c_step mem committed_nodes
    by (simp add: C2_def C1_def put_node_def granted_def)
  moreover have "system_step members3 (committed_system\<lparr>group := C2\<rparr>) (committed_system\<lparr>group := put_node ''b'' leader_b C2\<rparr>)"
    using system_step.tally [of "''b''" members3 "''c''" vote_request2 "granted 2" "committed_system\<lparr>group := C2\<rparr>" leader_b] mem
    by (simp add: C2_def C1_def put_node_def vote_request2_def leader_b_def granted_def prod_eq_iff)
  moreover have "committed_system\<lparr>group := put_node ''b'' leader_b C2\<rparr> = successor_system"
    by (simp add: successor_system_def C2_def C1_def Let_def)
  ultimately show ?thesis
    using s1 by (metis (no_types, lifting) converse_rtranclp_into_rtranclp rtranclp.rtrancl_refl)
qed

lemma successor_leader:
  "nodes (group successor_system) ''b'' = leader_b" "role (n_state leader_b) = LEADER"
  "current_term (n_state leader_b) = 2" "n_log leader_b = log_x"
  by (simp_all add: successor_system_def put_node_def leader_b_eq candidate_b_eq follower_b_eq Let_def)

section \<open>A follower compacts ahead of the leader\<close>

definition append_c :: append_entries_request where
  "append_c = append_x\<lparr>ae_leader_commit := 1\<rparr>"

definition applied_c :: raft_node where
  "applied_c = fst (node_append_entries (clk 4) append_c (fresh_node ''c''))"

definition compacted_c :: raft_node where
  "compacted_c = fst (create_snapshot applied_c)"

definition compacted_system :: system where
  "compacted_system =
     (let S = committed_system\<lparr>sent := insert (''c'', AppendRequest append_c) (sent committed_system)\<rparr>;
          S = S\<lparr>group := put_node ''c'' applied_c (group S),
                answers := system.answers S \<union> {(''c'', AppendRequest append_c, 1, True)}\<rparr>
      in S\<lparr>group := put_node ''c'' compacted_c (group S)\<rparr>)"

lemma append_c_sent: "worker_build ''c'' committed_a = Ok (Some (AppendRequest append_c))"
  by (simp add: worker_build_def build_request_def term_at_def log_get_def nth_opt_def entries_from_def first_index_def
      append_c_def append_x_def dict_item_def commit_eval)

lemmas append_eval = append_c_def append_x_def node_append_entries_def entries_from_def first_index_def
  handle_append_entries_def become_follower_def term_at_def log_get_def nth_opt_def append_entry_def
  update_follower_commit_def apply_committed_entries.simps apply_command_def kv_put_def persist_log_change_def
  log_x_def entry_x_def put_x_def node_eval

lemma applied_c_step:
  "node_append_entries (clk 4) append_c (fresh_node ''c'') = (applied_c, Ok \<lparr>aer_term = 1, aer_success = True\<rparr>)"
  by (simp add: applied_c_def append_eval)

lemma applied_c_eq:
  "\<exists>d. applied_c = (fresh_node ''c'')\<lparr>
     n_state := (raft_state_default ''c'')\<lparr>current_term := 1, leader_id := Some ''a'', commit_index := 1, last_applied := 1\<rparr>,
     n_log := log_x, n_store := [(''x'', ''1'')], n_timer := default_timer (clk 4), n_disk := Some d\<rparr>"
  by (rule exI) (simp add: applied_c_def durable_fields_def drop_replication_def append_eval)

lemmas snapshot_eval = create_snapshot_def term_at_def log_get_def nth_opt_def raft_snapshot_def snapshot_post_init_def
  log_copy_def raft_log_init_def append_entry_def compact_through_def entries_from_def first_index_def save_log_def
  log_x_def entry_x_def node_eval

lemma compacted_c_step: "create_snapshot applied_c = (compacted_c, Ok True)"
proof -
  obtain d where d: "applied_c = (fresh_node ''c'')\<lparr>
     n_state := (raft_state_default ''c'')\<lparr>current_term := 1, leader_id := Some ''a'', commit_index := 1, last_applied := 1\<rparr>,
     n_log := log_x, n_store := [(''x'', ''1'')], n_timer := default_timer (clk 4), n_disk := Some d\<rparr>"
    using applied_c_eq by blast
  show ?thesis
    by (simp add: compacted_c_def d snapshot_eval)
qed

lemma compacted_c_state: "base_index (n_log compacted_c) = 1" "current_term (n_state compacted_c) = 1"
proof -
  obtain d where d: "applied_c = (fresh_node ''c'')\<lparr>
     n_state := (raft_state_default ''c'')\<lparr>current_term := 1, leader_id := Some ''a'', commit_index := 1, last_applied := 1\<rparr>,
     n_log := log_x, n_store := [(''x'', ''1'')], n_timer := default_timer (clk 4), n_disk := Some d\<rparr>"
    using applied_c_eq by blast
  show "base_index (n_log compacted_c) = 1" "current_term (n_state compacted_c) = 1"
    by (simp_all add: compacted_c_def d snapshot_eval)
qed

lemma compacted_run: "(system_step members3)\<^sup>*\<^sup>* committed_system compacted_system"
proof -
  let ?S = "committed_system\<lparr>sent := insert (''c'', AppendRequest append_c) (sent committed_system)\<rparr>"
  let ?T = "?S\<lparr>group := put_node ''c'' applied_c (group ?S),
    answers := system.answers ?S \<union> {(''c'', AppendRequest append_c, 1, True)}\<rparr>"
  have mem: "''a'' \<in> set members3" "''c'' \<in> set members3" by (simp_all add: members3_def)
  have "system_step members3 committed_system ?S"
    using system_step.send [OF mem(1), of "''c''" committed_system] append_c_sent committed_nodes by simp
  moreover have "system_step members3 ?S ?T"
    using system_step.append [OF mem(2), of append_c ?S "clk 4" applied_c "Ok \<lparr>aer_term = 1, aer_success = True\<rparr>"]
      applied_c_step committed_nodes
    by simp
  moreover have "system_step members3 ?T compacted_system"
    using system_step.snapshot [OF mem(2), of ?T compacted_c "Ok True"] compacted_c_step
    by (simp add: compacted_system_def put_node_def Let_def)
  ultimately show ?thesis
    by (meson converse_rtranclp_into_rtranclp rtranclp.rtrancl_refl)
qed

lemma compacted_nodes:
  "nodes (group compacted_system) ''a'' = committed_a" "nodes (group compacted_system) ''c'' = compacted_c"
  using committed_nodes by (simp_all add: compacted_system_def put_node_def Let_def)

end
