(* ===== verification/ClientWrites.thy ===== *)
theory ClientWrites
  imports SystemSafety ClientApi
begin

text \<open>
  What becomes of a client's write: from the route of \<^verbatim>\<open>api/cluster.py\<close> through the command processor,
  where there is one, to \<^verbatim>\<open>submit_commands\<close> on a node of the group, and back. A write that is answered
  with success was appended by the node, which led the group then and when the results were read.
  If it led the same term, the entry is from then on in the history of the group.
\<close>

section \<open>The command and its future\<close>

definition queued_commands :: "command_processor \<Rightarrow> queued_command set" where
  "queued_commands p = set (List.map_filter id (cp_queue p)) \<union> set (concat (map batch_of (cp_workers p)))"

text \<open>Whatever carries the future \<open>f\<close> carries the command.\<close>

definition entrusted :: "nat \<Rightarrow> raft_command \<Rightarrow> command_processor \<Rightarrow> bool" where
  "entrusted f command p = (f < cp_next p \<and> (\<forall>q \<in> queued_commands p. q_future q = f \<longrightarrow> q_command q = command))"

lemma entrusted_sub:
  "queued_commands p' \<subseteq> queued_commands p \<Longrightarrow> cp_next p' = cp_next p \<Longrightarrow> entrusted f command p \<Longrightarrow> entrusted f command p'"
  by (auto simp: entrusted_def)

lemma entrusted_submit:
  assumes "processor_submit command p = (p', Ok f)" "processor_ok p"
  shows "entrusted f command p'"
proof -
  have p': "p' = p\<lparr>cp_queue := cp_queue p @ [Some \<lparr>q_command = command, q_future = cp_next p\<rparr>],
      cp_next := Suc (cp_next p)\<rparr>" "f = cp_next p"
    using assms(1) by (auto simp: processor_submit_def split: if_splits)
  have "q_future ` queued_commands p = set (in_work p) \<union> set (in_queue p)"
    by (auto simp: queued_commands_def in_work_def in_queue_def)
  then have "q_future q < cp_next p" if "q \<in> queued_commands p" for q
    using processor_okD(5) [OF assms(2)] that by blast
  then show ?thesis by (fastforce simp: entrusted_def p' queued_commands_def)
qed

lemma entrusted_step:
  assumes "processor_step service p p'" "entrusted f command p"
  shows "entrusted f command p'"
  using assms(1)
proof cases
  case start
  then show ?thesis
    by (intro entrusted_sub [OF _ _ assms(2)]) (simp_all add: processor_start_def queued_commands_def)
next
  case (stop w)
  then show ?thesis
    by (intro entrusted_sub [OF _ _ assms(2)])
      (auto simp: processor_stop_def queued_commands_def split: option.splits if_splits)
next
  case (submit other r)
  then have "p' = p \<or> p' = p\<lparr>cp_queue := cp_queue p @ [Some \<lparr>q_command = other, q_future = cp_next p\<rparr>], cp_next := Suc (cp_next p)\<rparr>"
    by (auto simp: processor_submit_def split: if_splits)
  then show ?thesis using assms(2) by (fastforce simp: entrusted_def queued_commands_def)
next
  case worker
  then have "queued_commands p' \<subseteq> queued_commands p"
  proof cases
    case (get w)
    then obtain item rest where q: "nth_opt (cp_workers p) w = Some Waiting" "cp_queue p = item # rest"
        "p' = p\<lparr>cp_queue := rest, cp_workers := (cp_workers p)[w := (case item of None \<Rightarrow> Finished | Some q \<Rightarrow> Collecting [q])]\<rparr>"
      by (auto simp: worker_get_def split: option.splits worker.splits list.splits)
    obtain xs ys where "cp_workers p = xs @ Waiting # ys" "\<And>x. (cp_workers p)[w := x] = xs @ x # ys"
      using nth_opt_split [OF q(1)] by blast
    then show ?thesis unfolding q(3) queued_commands_def by (cases item) (auto simp: q(2))
  next
    case (collect expired w)
    then obtain batch where w: "nth_opt (cp_workers p) w = Some (Collecting batch)"
      by (auto simp: worker_collect_def split: option.splits worker.splits)
    obtain xs ys where "cp_workers p = xs @ Collecting batch # ys" "\<And>x. (cp_workers p)[w := x] = xs @ x # ys"
      using nth_opt_split [OF w] by blast
    then show ?thesis
      using collect w unfolding worker_collect_def queued_commands_def
      by (auto split: if_splits list.splits option.splits)
  next
    case (finish w batch stopping outcome)
    obtain xs ys where "cp_workers p = xs @ Submitting batch stopping # ys" "\<And>x. (cp_workers p)[w := x] = xs @ x # ys"
      using nth_opt_split [OF finish(1)] by blast
    moreover obtain m v where "p' = p\<lparr>cp_results := m, cp_workers := (cp_workers p)[w := v]\<rparr>" "batch_of v = []"
    proof -
      obtain m r where m: "resolve_batch batch outcome (cp_results p) = (m, r)" by fastforce
      let ?v = "if is_ok r \<and> \<not> stopping then Waiting else Finished"
      show thesis
        by (rule that [of ?v m]) (use finish(3) in \<open>simp_all add: worker_finish_def finish(1) m\<close>)
    qed
    ultimately show ?thesis by (auto simp: queued_commands_def)
  qed
  moreover have "cp_next p' = cp_next p" using worker by (rule worker_step_frame(2))
  ultimately show ?thesis using entrusted_sub assms(2) by blast
qed

section \<open>The answer of a write\<close>

text \<open>
  The result \<open>r\<close> that the client of a command is given when \<^verbatim>\<open>submit_commands\<close> has ended on the list
  \<open>cs\<close> with \<open>outcome\<close>: the node's own \<^verbatim>\<open>submit_command\<close>, or a worker of the processor that took the
  command, queued by \<^verbatim>\<open>submit\<close>, in a batch, with any steps of clients and workers between.
\<close>

definition processed ::
  "raft_command \<Rightarrow> raft_command list \<Rightarrow> bool list result \<Rightarrow> bool result \<Rightarrow> bool" where
  "processed command cs outcome r =
     (\<exists>p p1 f p2 w batch stopping p3.
        processor_reachable node_service p \<and> processor_submit command p = (p1, Ok f) \<and>
        (processor_step node_service)\<^sup>*\<^sup>* p1 p2 \<and> nth_opt (cp_workers p2) w = Some (Submitting batch stopping) \<and>
        cs = map q_command batch \<and> cp_results p2 f = None \<and>
        worker_finish outcome w p2 = Some p3 \<and> cp_results p3 f = Some r)"

definition served ::
  "raft_command \<Rightarrow> raft_command list \<Rightarrow> bool list result \<Rightarrow> bool result \<Rightarrow> bool" where
  "served command cs outcome r =
     (cs = [command] \<and> r = (case outcome of Inl e \<Rightarrow> Err e | Inr [] \<Rightarrow> Err IndexError | Inr (b # _) \<Rightarrow> Ok b) \<or>
      processed command cs outcome r)"

text \<open>The first case is what \<^verbatim>\<open>node.put\<close> and \<^verbatim>\<open>node.delete\<close> return.\<close>

lemma served_direct:
  assumes "submit_command command env1 rnd env2 heartbeat_rnd nf = (nf', r)"
  obtains outcome where "submit_commands [command] env1 rnd env2 heartbeat_rnd nf = (nf', outcome)"
    "served command [command] outcome r"
  using assms by (auto simp: submit_command_def served_def split: prod.splits sum.splits list.splits)

lemma processed_True:
  assumes "processed command cs outcome (Ok True)" "node_service cs outcome"
  shows "\<exists>k rs. outcome = Ok rs \<and> length rs = length cs \<and> k < length cs \<and> cs ! k = command \<and> rs ! k"
proof -
  obtain p p1 f p2 w batch stopping p3 where P: "processor_reachable node_service p"
      "processor_submit command p = (p1, Ok f)" "(processor_step node_service)\<^sup>*\<^sup>* p1 p2"
      "nth_opt (cp_workers p2) w = Some (Submitting batch stopping)" "cs = map q_command batch" "cp_results p2 f = None"
      "worker_finish outcome w p2 = Some p3" "cp_results p3 f = Some (Ok True)"
    using assms(1) unfolding processed_def by blast
  have ok: "processor_ok p" by (rule node_batches.processor_reachable_ok [OF P(1)])
  have reach: "processor_reachable node_service p2 \<and> entrusted f command p2"
    using P(3)
  proof (induction rule: rtranclp_induct)
    case base
    then show ?case
      using processor_reachable.step [OF P(1) processor_step.submit [OF P(2)]] entrusted_submit [OF P(2) ok] by blast
  next
    case (step q q')
    then show ?case using processor_reachable.step entrusted_step by blast
  qed
  obtain p3' where F: "worker_finish outcome w p2 = Some p3'"
      "\<And>i. i < length batch \<Longrightarrow> cp_results p3' (q_future (batch ! i)) =
         Some (case outcome of Inl e \<Rightarrow> Err e | Inr rs \<Rightarrow> Ok (rs ! i))"
      "\<And>g. g \<notin> q_future ` set batch \<Longrightarrow> cp_results p3' g = cp_results p2 g"
    using node_batch_finishes [OF conjunct1 [OF reach] P(4) assms(2) [unfolded P(5)]] by metis
  have p3: "p3' = p3" using F(1) P(7) by simp
  have "f \<in> q_future ` set batch" using F(3) [of f] P(6,8) p3 by auto
  then obtain k where k: "k < length batch" "q_future (batch ! k) = f" by (auto simp: in_set_conv_nth)
  have "Some (case outcome of Inl e \<Rightarrow> Err e | Inr rs \<Rightarrow> Ok (rs ! k)) = Some (Ok True)"
    using F(2) [OF k(1)] k(2) P(8) p3 by simp
  then obtain rs where rs: "outcome = Ok rs" "rs ! k" by (cases outcome) auto
  have "batch ! k \<in> queued_commands p2"
  proof -
    have "Submitting batch stopping \<in> set (cp_workers p2)" using P(4) by (auto simp: in_set_conv_nth)
    then show ?thesis using k(1) by (force simp: queued_commands_def)
  qed
  then have "q_command (batch ! k) = command" using reach k(2) by (auto simp: entrusted_def)
  moreover have "length rs = length cs" using node_batches.service_length assms(2) rs(1) by blast
  ultimately show ?thesis using rs k(1) P(5) by auto
qed

lemma served_True:
  assumes "served command cs outcome (Ok True)" "node_service cs outcome"
  shows "\<exists>k rs. outcome = Ok rs \<and> length rs = length cs \<and> k < length cs \<and> cs ! k = command \<and> rs ! k"
  using assms(1) unfolding served_def
proof
  assume "processed command cs outcome (Ok True)"
  then show ?thesis using processed_True assms(2) by blast
next
  assume d: "cs = [command] \<and> Ok True = (case outcome of Inl e \<Rightarrow> Err e | Inr [] \<Rightarrow> Err IndexError | Inr (b # _) \<Rightarrow> Ok b)"
  then obtain b rs where "outcome = Ok (b # rs)" "b" by (cases outcome) (auto split: list.splits)
  moreover have "length (b # rs) = length cs" using node_batches.service_length assms(2) calculation(1) by blast
  ultimately show ?thesis using d by (intro exI [of _ 0]) auto
qed

section \<open>On the node\<close>

text \<open>The node when the results of the batch are read.\<close>

definition results_read ::
  "raft_command list \<Rightarrow> node_env \<Rightarrow> round \<Rightarrow> node_env \<Rightarrow> raft_node \<times> futures \<Rightarrow> raft_node" where
  "results_read cs env1 rnd env2 nf =
     (case nf of (n, fs) \<Rightarrow> fst (env2 (fst (replicate_log rnd (env1 (fst (submit_begin cs n), fs))))))"

lemma submit_commands_result:
  assumes run: "submit_commands cs env1 rnd env2 heartbeat_rnd (n, fs) = (nf', Ok rs)" and k: "k < length rs" "rs ! k"
    and ok: "node_ok n"
  obtains n1 es where "submit_begin cs n = (n1, Ok es)" "k < length es" "entry_command (es ! k) = cs ! k"
    "entry_term (es ! k) = current_term (n_state n)" "log_get (entry_index (es ! k)) (n_log n1) = Some (es ! k)"
    "role (n_state n) = LEADER" "n_state n1 = n_state n"
    "role (n_state (results_read cs env1 rnd env2 (n, fs))) = LEADER"
    "entry_index (es ! k) \<le> commit_index (n_state (results_read cs env1 rnd env2 (n, fs)))"
proof -
  have cs: "cs \<noteq> []" using run k by (auto simp: submit_commands_def)
  obtain n1 es where b: "submit_begin cs n = (n1, Ok es)"
    using run cs by (auto simp: submit_commands_def split: prod.splits sum.splits)
  obtain nf2 where r: "replicate_log rnd (env1 (n1, fs)) = (nf2, Ok ())"
    using run b cs by (auto simp: submit_commands_def split: prod.splits sum.splits)
  have read: "results_read cs env1 rnd env2 (n, fs) = fst (env2 nf2)" by (simp add: results_read_def b r)
  have rs: "rs = submit_results es (fst (env2 nf2))"
    using run b r cs by (auto simp: submit_commands_def Let_def split: prod.splits sum.splits if_splits)
  have len: "k < length es" using k(1) rs by (simp add: submit_results_def split: if_splits)
  have lead: "role (n_state (fst (env2 nf2))) = LEADER" "entry_index (es ! k) \<le> commit_index (n_state (fst (env2 nf2)))"
    using k(2) len unfolding rs by (auto simp: submit_results_def split: if_splits)
  from b ok show thesis
  proof (cases rule: submit_begin_cases)
    case (accepted es')
    have es: "es' = es" using accepted(3) by simp
    have mem: "es ! k \<in> set es" using len by simp
    have wf: "wf_log (n_log n1)" using accepted(11) node_wf_log by (simp add: node_ok_def)
    have idx: "entry_index (es ! k) = last_index (n_log n) + 1 + int k"
      using accepted(6) len unfolding es by (simp add: contiguous_def)
    have "log_get (entry_index (es ! k)) (n_log n1) = Some (es ! k)"
    proof -
      have "wf_log (n_log n)" using ok node_wf_log by (simp add: node_ok_def)
      then have last: "last_index (n_log n) = base_index (n_log n) + int (length (entries (n_log n)))"
        by (rule wf_last_index)
      have l: "base_index (n_log n1) = base_index (n_log n)" "entries (n_log n1) = entries (n_log n) @ es"
        unfolding accepted(7) es by simp_all
      have "nat (entry_index (es ! k) - base_index (n_log n1) - 1) = length (entries (n_log n)) + k"
        using idx last l(1) by linarith
      moreover have "base_index (n_log n1) < entry_index (es ! k)" using idx last l(1) by linarith
      ultimately show ?thesis using log_get_nth [OF wf] len by (simp add: l(2) nth_opt_def nth_append)
    qed
    then show thesis
      using that [OF b len] accepted(1,4,5,8) es mem len lead by (auto simp: read)
  qed simp
qed

section \<open>A write that succeeds\<close>

lemma put_key_answer:
  assumes "put_key node put processor key val s = (s', Returned j)"
    and "(case processor of None \<Rightarrow> put key val s
      | Some submit \<Rightarrow> submit \<lparr>operation = ''PUT'', cmd_key = key, cmd_value = Some val\<rparr> s) = (t, r)"
  shows "r = Ok True"
  using assms by (auto simp: put_key_def write_error_def split: prod.splits sum.splits if_splits)

lemma write_in_history:
  assumes reach: "system_reachable members S" and i: "i \<in> set members"
    and run: "submit_commands cs env1 rnd env2 heartbeat_rnd (nodes (group S) i, fs) = (nf', outcome)"
    and ans: "served command cs outcome (Ok True)"
    and S': "(system_step members)\<^sup>*\<^sup>* (S\<lparr>group := put_node i (fst (submit_begin cs (nodes (group S) i))) (group S)\<rparr>) S'"
      "nodes (group S') i = results_read cs env1 rnd env2 (nodes (group S) i, fs)"
      "(system_step members)\<^sup>*\<^sup>* S' S''"
  shows "\<exists>e. entry_command e = command \<and> entry_term e = current_term (n_state (nodes (group S) i)) \<and>
    log_get (entry_index e) (n_log (fst (submit_begin cs (nodes (group S) i)))) = Some e \<and>
    role (n_state (nodes (group S) i)) = LEADER \<and> role (n_state (nodes (group S') i)) = LEADER \<and>
    entry_index e \<le> commit_index (n_state (nodes (group S') i)) \<and>
    (current_term (n_state (nodes (group S') i)) = entry_term e \<longrightarrow>
       (\<exists>h. nat (entry_index e) \<le> length h \<and> h ! (nat (entry_index e) - 1) = e \<and>
          (\<forall>j \<in> set members. follows_history h (nodes (group S') j) \<and> follows_history h (nodes (group S'') j))))"
proof -
  let ?n = "nodes (group S) i" and ?S1 = "S\<lparr>group := put_node i (fst (submit_begin cs (nodes (group S) i))) (group S)\<rparr>"
  have ok: "node_ok ?n" by (rule node_reachable_ok [OF system_node_reachable [OF reach i]])
  have "node_service cs outcome" using run by (rule node_service.intros)
  from served_True [OF ans this] obtain k rs where k: "outcome = Ok rs" "length rs = length cs" "k < length cs"
      "cs ! k = command" "rs ! k" by blast
  obtain n1 es where b: "submit_begin cs ?n = (n1, Ok es)" and e: "entry_command (es ! k) = cs ! k"
      "entry_term (es ! k) = current_term (n_state ?n)" "log_get (entry_index (es ! k)) (n_log n1) = Some (es ! k)"
      "role (n_state ?n) = LEADER" "n_state n1 = n_state ?n"
      "role (n_state (results_read cs env1 rnd env2 (?n, fs))) = LEADER"
      "entry_index (es ! k) \<le> commit_index (n_state (results_read cs env1 rnd env2 (?n, fs)))"
    using submit_commands_result [OF run [unfolded k(1)] _ k(5) ok] k(2,3) by metis
  have step: "system_step members S ?S1" by (rule system_step.submit [OF i]) (simp add: prod_eq_iff)
  have reach1: "system_reachable members ?S1"
    by (rule system_reachable_steps [OF reach r_into_rtranclp [of "system_step members", OF step]])
  have n1: "nodes (group ?S1) i = n1" by (simp add: put_node_def b)
  have "\<exists>h. nat (entry_index (es ! k)) \<le> length h \<and> h ! (nat (entry_index (es ! k)) - 1) = es ! k \<and>
      (\<forall>j \<in> set members. follows_history h (nodes (group S') j) \<and> follows_history h (nodes (group S'') j))"
    if "current_term (n_state (nodes (group S') i)) = current_term (n_state ?n)"
    by (rule leader_entry_in_history [OF reach1 i S'(1,3)]) (use n1 e that S'(2) in simp_all)
  then show ?thesis using e k(4) S'(2) b by (intro exI [of _ "es ! k"]) simp
qed

end
