(* ===== verification/LostWrite.thy ===== *)
theory LostWrite
  imports SystemExamples ClientWrites
begin

text \<open>
  A write that is answered with success and lost. \<^verbatim>\<open>submit_commands\<close> compares the commit index with the
  indexes of its entries and asks whether the node leads, not in which term. Node a appends a
  client's command in term 1; before it is replicated node b is elected in term 2, node a takes the
  entry of b in its place and learns that it is committed, and is itself elected in term 3. The
  client is then told that the write is committed.
\<close>

section \<open>The other leader\<close>

definition vote_request_b2 :: request_vote_request where
  "vote_request_b2 = \<lparr>rv_term = 2, rv_candidate_id = ''b'', rv_last_log_index = 0, rv_last_log_term = 0\<rparr>"

definition rival_candidate :: raft_node where
  "rival_candidate = fst (tick_begin (clk 10) voter_b)"

definition rival :: raft_node where
  "rival = fst (tick_response ''c'' vote_request_b2 (Ok (granted 2)) rival_candidate)"

lemma rival_candidate_eq:
  "rival_candidate = voter_b\<lparr>
     n_state := (raft_state_default ''b'')\<lparr>current_term := 2, role := CANDIDATE, voted_for := Some ''b''\<rparr>,
     n_timer := default_timer (clk 10),
     n_election := \<lparr>tracker_members = members3, votes_received = [''b''], active = True\<rparr>,
     n_disk := map_option (save_state ((raft_state_default ''b'')\<lparr>current_term := 2, voted_for := Some ''b''\<rparr>)) (n_disk voter_b)\<rparr>"
  by (simp add: rival_candidate_def tick_begin_def start_election_if_needed_def tracker_start_def promote_if_quorum_def
      become_candidate_def save_state_def state_to_json_def voter_b_eq node_eval)

lemma rival_candidate_step:
  "tick_begin (clk 10) voter_b = (rival_candidate, Ok [(''a'', vote_request_b2), (''c'', vote_request_b2)])"
  by (simp add: rival_candidate_def tick_begin_def start_election_if_needed_def tracker_start_def promote_if_quorum_def
      become_candidate_def voter_b_eq vote_request_b2_def node_eval)

lemma rival_vote: "node_request_vote (clk 10) vote_request_b2 (fresh_node ''c'') = (voter_c, Ok (granted 2))"
  by (simp add: voter_c_eq node_request_vote_def handle_request_vote_def become_follower_def drop_replication_def
      vote_request_b2_def granted_def is_candidate_log_up_to_date_def save_state_def state_to_json_def node_eval)

lemma rival_eq:
  "rival = rival_candidate\<lparr>
     n_state := (raft_state_default ''b'')\<lparr>current_term := 2, role := LEADER, voted_for := Some ''b'', leader_id := Some ''b''\<rparr>,
     n_election := \<lparr>tracker_members = members3, votes_received = [''b'', ''c''], active = False\<rparr>,
     n_replication := Some (replication_b\<lparr>next_index := [(''a'', 1), (''c'', 1)]\<rparr>)\<rparr>"
  by (simp add: rival_def tick_response_def rival_candidate_eq voter_b_eq record_vote_def promote_if_quorum_def granted_def
      become_leader_def vote_request_b2_def set_add_def initialize_leader_replication_def leader_replication_init_def
      replication_b_def node_eval)

section \<open>Its entry replaces the client's\<close>

definition put_z :: raft_command where
  "put_z = \<lparr>operation = ''PUT'', cmd_key = ''z'', cmd_value = Some ''2''\<rparr>"

definition entry_z :: log_entry where
  "entry_z = \<lparr>entry_index = 1, entry_term = 2, entry_command = put_z\<rparr>"

definition log_z :: raft_log where
  "log_z = \<lparr>base_index = 0, base_term = 0, entries = [entry_z]\<rparr>"

definition rival_submitted :: raft_node where
  "rival_submitted = fst (submit_begin [put_z] rival)"

lemmas rival_eval = rival_eq rival_candidate_eq voter_b_eq replication_b_def node_eval

lemma rival_submitted_eq:
  "submit_begin [put_z] rival = (rival_submitted, Ok [entry_z])"
  "rival_submitted = rival\<lparr>n_log := log_z, n_disk := map_option (append_log_entries [entry_z]) (n_disk rival)\<rparr>"
  by (simp_all add: rival_submitted_def submit_begin_def check_command_def put_z_def log_append_def entry_z_def log_z_def
      initialize_leader_replication_def rival_eval)

definition append_z :: append_entries_request where
  "append_z = \<lparr>ae_term = 2, ae_leader_id = ''b'', ae_prev_log_index = 0, ae_prev_log_term = 0,
     ae_entries = [entry_z], ae_leader_commit = 0\<rparr>"

lemmas accept_eval = node_append_entries_def entries_from_def first_index_def
  handle_append_entries_def become_follower_def term_at_def log_get_def nth_opt_def append_entry_def truncate_from_def
  update_follower_commit_def apply_committed_entries.simps apply_command_def kv_put_def persist_log_change_def
  durable_fields_def drop_replication_def replace_log_suffix_def save_state_def state_to_json_def

definition taken_c :: raft_node where
  "taken_c = fst (node_append_entries (clk 11) append_z voter_c)"

definition rival_acknowledged :: raft_node where
  "rival_acknowledged = fst (worker_response ''c'' (AppendRequest append_z) 2 True rival_submitted)"

definition rival_committed :: raft_node where
  "rival_committed = fst (replicate_log_finish rival_acknowledged)"

definition disk_c :: disk where "disk_c = the (n_disk taken_c)"
definition disk_b :: disk where "disk_b = the (n_disk rival_committed)"

lemma taken_c_step:
  "node_append_entries (clk 11) append_z voter_c = (taken_c, Ok \<lparr>aer_term = 2, aer_success = True\<rparr>)"
  by (simp add: taken_c_def append_z_def entry_z_def put_z_def accept_eval voter_c_eq node_eval)

lemma taken_c_eq:
  "taken_c = voter_c\<lparr>
     n_state := (raft_state_default ''c'')\<lparr>current_term := 2, voted_for := Some ''b'', leader_id := Some ''b''\<rparr>,
     n_log := log_z, n_timer := default_timer (clk 11), n_disk := Some disk_c\<rparr>"
  by (simp add: disk_c_def taken_c_def append_z_def entry_z_def put_z_def log_z_def accept_eval voter_c_eq node_eval)

lemma rival_acknowledged_step:
  "worker_response ''c'' (AppendRequest append_z) 2 True rival_submitted = (rival_acknowledged, Ok (Some True))"
  by (simp add: rival_acknowledged_def worker_response_def record_success_def raise_match_def dict_item_def append_z_def
      entry_z_def log_z_def rival_submitted_eq(2) rival_eval)

lemma rival_acknowledged_eq:
  "rival_acknowledged = rival_submitted\<lparr>n_replication :=
     Some (replication_b\<lparr>next_index := [(''a'', 1), (''c'', 2)], match_index := [(''a'', 0), (''c'', 1)]\<rparr>)\<rparr>"
  by (simp add: rival_acknowledged_def worker_response_def record_success_def raise_match_def dict_item_def append_z_def
      entry_z_def log_z_def rival_submitted_eq(2) rival_eval)

lemmas commit_z_eval = rival_committed_def replicate_log_finish_def rival_acknowledged_eq rival_submitted_eq(2)
  advance_commit_index_def nth_opt_def log_get_def log_z_def entry_z_def put_z_def apply_committed_entries.simps
  apply_command_def kv_put_def

lemma rival_committed_step: "replicate_log_finish rival_acknowledged = (rival_committed, Ok ())"
  by (simp add: commit_z_eval rival_eval)

lemma rival_committed_eq:
  "rival_committed = rival_acknowledged\<lparr>
     n_state := (n_state rival)\<lparr>commit_index := 1, last_applied := 1\<rparr>, n_store := [(''z'', ''2'')],
     n_disk := Some disk_b\<rparr>"
  by (simp add: disk_b_def commit_z_eval rival_eval)

lemma rival_sent_c: "worker_build ''c'' rival_submitted = Ok (Some (AppendRequest append_z))"
  by (simp add: worker_build_def rival_submitted_eq(2) build_request_def term_at_def entries_from_def first_index_def
      append_z_def log_z_def entry_z_def dict_item_def rival_eval)

section \<open>The first leader hears of it\<close>

definition commit_z :: append_entries_request where
  "commit_z = append_z\<lparr>ae_leader_commit := 1\<rparr>"

lemma commit_z_sent: "worker_build ''a'' rival_committed = Ok (Some (AppendRequest commit_z))"
  by (simp add: worker_build_def build_request_def rival_committed_eq rival_acknowledged_eq rival_submitted_eq(2)
      term_at_def entries_from_def first_index_def commit_z_def append_z_def log_z_def entry_z_def dict_item_def rival_eval)

definition deposed_a :: raft_node where
  "deposed_a = fst (node_append_entries (clk 12) commit_z submitted_a)"

definition disk_a :: disk where "disk_a = the (n_disk deposed_a)"

lemmas depose_eval = deposed_a_def submitted_a_def commit_z_def append_z_def log_x_def entry_x_def put_x_def
  entry_z_def put_z_def accept_eval leader_eval

lemma deposed_a_step:
  "node_append_entries (clk 12) commit_z submitted_a = (deposed_a, Ok \<lparr>aer_term = 2, aer_success = True\<rparr>)"
  by (simp add: depose_eval)

lemma deposed_a_eq:
  "deposed_a = (fresh_node ''a'')\<lparr>
     n_state := (raft_state_default ''a'')\<lparr>current_term := 2, leader_id := Some ''b'', commit_index := 1, last_applied := 1\<rparr>,
     n_log := log_z, n_store := [(''z'', ''2'')], n_timer := default_timer (clk 12), n_election := n_election leader_a,
     n_disk := Some disk_a\<rparr>"
  by (simp add: disk_a_def log_z_def depose_eval)

section \<open>And leads again\<close>

definition vote_request_a3 :: request_vote_request where
  "vote_request_a3 = \<lparr>rv_term = 3, rv_candidate_id = ''a'', rv_last_log_index = 1, rv_last_log_term = 2\<rparr>"

definition again_candidate :: raft_node where
  "again_candidate = fst (tick_begin (clk 30) deposed_a)"

definition again_voter_c :: raft_node where
  "again_voter_c = fst (node_request_vote (clk 30) vote_request_a3 taken_c)"

definition again_a :: raft_node where
  "again_a = fst (tick_response ''c'' vote_request_a3 (Ok (granted 3)) again_candidate)"

lemmas again_eval = tick_begin_def start_election_if_needed_def tracker_start_def promote_if_quorum_def
  become_candidate_def deposed_a_eq vote_request_a3_def log_z_def entry_z_def node_eval

lemma again_candidate_step:
  "tick_begin (clk 30) deposed_a = (again_candidate, Ok [(''b'', vote_request_a3), (''c'', vote_request_a3)])"
  by (simp add: again_candidate_def again_eval leader_a_eq)

lemma again_voter_step: "node_request_vote (clk 30) vote_request_a3 taken_c = (again_voter_c, Ok (granted 3))"
  by (simp add: again_voter_c_def taken_c_eq voter_c_eq node_request_vote_def handle_request_vote_def become_follower_def
      drop_replication_def granted_def is_candidate_log_up_to_date_def vote_request_a3_def log_z_def entry_z_def node_eval)

lemma again_a_eq:
  "\<exists>d. again_a = deposed_a\<lparr>
     n_state := (raft_state_default ''a'')\<lparr>current_term := 3, role := LEADER, voted_for := Some ''a'', leader_id := Some ''a'',
       commit_index := 1, last_applied := 1\<rparr>,
     n_timer := default_timer (clk 30),
     n_election := \<lparr>tracker_members = members3, votes_received = [''a'', ''c''], active = False\<rparr>,
     n_replication := Some (replication_a 0\<lparr>next_index := [(''b'', 2), (''c'', 2)]\<rparr>), n_disk := Some d\<rparr>"
  by (rule exI) (simp add: again_a_def again_candidate_def again_eval leader_a_eq tick_response_def record_vote_def granted_def
      become_leader_def set_add_def initialize_leader_replication_def leader_replication_init_def replication_a_def)

section \<open>The run of the system\<close>

lemma election_run:
  assumes "i \<in> set members" "j \<in> set members" "i \<noteq> j"
    and tick: "tick_begin c (nodes (group S) i) = (candidate, Ok requests)" "(j, q) \<in> set requests" "rv_candidate_id q = i"
    and vote: "node_request_vote c' q (nodes (group S) j) = (voter, Ok a)"
    and tally: "tick_response j q (Ok a) candidate = (leader, r)"
  shows "\<exists>S'. (system_step members)\<^sup>*\<^sup>* S S' \<and> nodes (group S') = (nodes (group S))(i := leader, j := voter)"
proof -
  define S1 where "S1 = S\<lparr>group := put_node i candidate ((group S)\<lparr>vote_requests :=
    vote_requests (group S) \<union> ok_requests (Ok requests)\<rparr>)\<rparr>"
  define S2 where "S2 = S1\<lparr>group := put_node j voter ((group S1)\<lparr>vote_replies :=
    insert (j, q, a) (vote_replies (group S1))\<rparr>)\<rparr>"
  define S3 where "S3 = S2\<lparr>group := put_node i leader (group S2)\<rparr>"
  have "system_step members S S1" unfolding S1_def by (rule system_step.tick [OF assms(1) tick(1)])
  moreover have "system_step members S1 S2"
    unfolding S2_def by (rule system_step.vote [OF assms(2), where c = c'])
      (use tick(2) vote assms(3) in \<open>simp_all add: S1_def ok_requests_def put_node_def\<close>)
  moreover have "system_step members S2 S3"
    unfolding S3_def by (rule system_step.tally [OF assms(1) _ tick(3)])
      (use tally assms(3) in \<open>simp_all add: S2_def S1_def put_node_def\<close>)
  moreover have "nodes (group S3) = (nodes (group S))(i := leader, j := voter)"
    using assms(3) by (auto simp: S3_def S2_def S1_def put_node_def Let_def)
  ultimately show ?thesis by (meson converse_rtranclp_into_rtranclp rtranclp.rtrancl_refl)
qed

lemma send_append_run:
  assumes "i \<in> set members" "j \<in> set members"
    and send: "worker_build j (nodes (group S) i) = Ok (Some (AppendRequest q))"
    and append: "node_append_entries c q (nodes (group S) j) = (n, Ok a)"
  shows "\<exists>S'. (system_step members)\<^sup>*\<^sup>* S S' \<and> nodes (group S') = (nodes (group S))(j := n) \<and>
    (j, AppendRequest q, aer_term a, aer_success a) \<in> system.answers S'"
proof -
  define S1 where "S1 = S\<lparr>sent := insert (j, AppendRequest q) (sent S)\<rparr>"
  define S2 where "S2 = S1\<lparr>group := put_node j n (group S1),
    answers := system.answers S1 \<union> {(j, AppendRequest q, aer_term a', aer_success a') | a'. Ok a = (Ok a' :: append_entries_response result)}\<rparr>"
  have "system_step members S S1" unfolding S1_def by (rule system_step.send [OF assms(1) send])
  moreover have "system_step members S1 S2"
    unfolding S2_def by (rule system_step.append [OF assms(2)]) (use append in \<open>simp_all add: S1_def\<close>)
  moreover have "nodes (group S2) = (nodes (group S))(j := n)"
    "(j, AppendRequest q, aer_term a, aer_success a) \<in> system.answers S2"
    by (simp_all add: S2_def S1_def put_node_def)
  ultimately show ?thesis by (meson converse_rtranclp_into_rtranclp rtranclp.rtrancl_refl)
qed

lemma rival_response:
  "tick_response ''c'' vote_request_b2 (Ok (granted 2)) rival_candidate =
     (rival, snd (tick_response ''c'' vote_request_b2 (Ok (granted 2)) rival_candidate))"
  by (simp add: rival_def)

lemma again_response:
  "tick_response ''c'' vote_request_a3 (Ok (granted 3)) again_candidate =
     (again_a, snd (tick_response ''c'' vote_request_a3 (Ok (granted 3)) again_candidate))"
  by (simp add: again_a_def)

lemma requests_by: "rv_candidate_id vote_request_b2 = ''b''" "rv_candidate_id vote_request_a3 = ''a''"
  by (simp_all add: vote_request_b2_def vote_request_a3_def)

text \<open>Node a, which has appended the client's command, loses its leadership and has it again.\<close>

lemma again_run:
  "\<exists>S'. (system_step members3)\<^sup>*\<^sup>* (elected_system\<lparr>group := put_node ''a'' submitted_a (group elected_system)\<rparr>) S' \<and>
    nodes (group S') ''a'' = again_a"
proof -
  let ?S = "elected_system\<lparr>group := put_node ''a'' submitted_a (group elected_system)\<rparr>"
  let ?steps = "(system_step members3)\<^sup>*\<^sup>*"
  have mem: "''a'' \<in> set members3" "''b'' \<in> set members3" "''c'' \<in> set members3" by (simp_all add: members3_def)
  have n0: "nodes (group ?S) ''a'' = submitted_a" "nodes (group ?S) ''b'' = voter_b" "nodes (group ?S) ''c'' = fresh_node ''c''"
    by (simp_all add: elected_system_def elected_cluster_def start_cluster_def put_node_def Let_def)
  obtain S1 where S1: "?steps ?S S1" "nodes (group S1) = (nodes (group ?S))(''b'' := rival, ''c'' := voter_c)"
    using election_run [OF mem(2,3) _ _ _ _ _ rival_response, of "clk 10" ?S] n0 rival_candidate_step rival_vote
    by (force simp: requests_by)
  define S2 where "S2 = S1\<lparr>group := put_node ''b'' rival_submitted (group S1)\<rparr>"
  have S2: "system_step members3 S1 S2"
    unfolding S2_def by (rule system_step.submit [OF mem(2)]) (use S1(2) rival_submitted_eq(1) in simp)
  obtain S3 where S3: "?steps S2 S3" "nodes (group S3) = (nodes (group S2))(''c'' := taken_c)"
      "(''c'', AppendRequest append_z, 2, True) \<in> system.answers S3"
    using send_append_run [OF mem(2,3), of S2 append_z "clk 11" taken_c] taken_c_step S1(2) rival_sent_c
    by (fastforce simp: S2_def put_node_def)
  define S4 where "S4 = S3\<lparr>group := put_node ''b'' rival_acknowledged (group S3)\<rparr>"
  have S4: "system_step members3 S3 S4"
    unfolding S4_def by (rule system_step.progress [OF mem(2) S3(3)])
      (use S3(2) rival_acknowledged_step in \<open>simp_all add: S2_def put_node_def append_z_def\<close>)
  define S5 where "S5 = S4\<lparr>group := put_node ''b'' rival_committed (group S4)\<rparr>"
  have S5: "system_step members3 S4 S5"
    unfolding S5_def by (rule system_step.commit [OF mem(2)]) (use rival_committed_step in \<open>simp add: S4_def put_node_def\<close>)
  have n5: "nodes (group S5) ''a'' = submitted_a" "nodes (group S5) ''b'' = rival_committed" "nodes (group S5) ''c'' = taken_c"
    using n0 S1(2) S3(2) by (simp_all add: S5_def S4_def S2_def put_node_def)
  obtain S6 where S6: "?steps S5 S6" "nodes (group S6) = (nodes (group S5))(''a'' := deposed_a)"
    using send_append_run [OF mem(2,1), of S5 commit_z "clk 12" deposed_a] deposed_a_step commit_z_sent n5 by fastforce
  obtain S7 where S7: "?steps S6 S7" "nodes (group S7) = (nodes (group S6))(''a'' := again_a, ''c'' := again_voter_c)"
    using election_run [OF mem(1,3) _ _ _ _ _ again_response, of "clk 30" S6] n5 S6(2) again_candidate_step again_voter_step
    by (force simp: requests_by)
  have "?steps ?S S7"
    using S1(1) S2 S3(1) S4 S5 S6(1) S7(1) by (meson rtranclp.rtrancl_into_rtrancl rtranclp_trans)
  then show ?thesis using S7(2) by auto
qed

section \<open>The client's answer\<close>

text \<open>What \<^verbatim>\<open>submit_commands\<close> does between its append and its answer: it finds node a elected again.\<close>

definition meanwhile :: node_env where
  "meanwhile = (\<lambda>nf. (again_a, snd nf))"

lemma again_a_finish: "replicate_log_finish again_a = (again_a, Ok ())"
proof -
  obtain d where d: "again_a = deposed_a\<lparr>
     n_state := (raft_state_default ''a'')\<lparr>current_term := 3, role := LEADER, voted_for := Some ''a'', leader_id := Some ''a'',
       commit_index := 1, last_applied := 1\<rparr>,
     n_timer := default_timer (clk 30),
     n_election := \<lparr>tracker_members = members3, votes_received = [''a'', ''c''], active = False\<rparr>,
     n_replication := Some (replication_a 0\<lparr>next_index := [(''b'', 2), (''c'', 2)]\<rparr>), n_disk := Some d\<rparr>"
    using again_a_eq by blast
  show ?thesis
    by (simp add: replicate_log_finish_def d deposed_a_eq advance_commit_index_def replication_a_def log_z_def entry_z_def
        nth_opt_def log_get_def
        apply_committed_entries.simps node_eval)
qed

lemma again_a_state:
  "role (n_state again_a) = LEADER" "current_term (n_state again_a) = 3" "commit_index (n_state again_a) = 1"
  "n_log again_a = log_z" "n_store again_a = [(''z'', ''2'')]" "length (n_members again_a) = 3"
  "\<exists>R. n_replication again_a = Some R \<and> followers R = [''b'', ''c'']"
proof -
  obtain d where d: "again_a = deposed_a\<lparr>
     n_state := (raft_state_default ''a'')\<lparr>current_term := 3, role := LEADER, voted_for := Some ''a'', leader_id := Some ''a'',
       commit_index := 1, last_applied := 1\<rparr>,
     n_timer := default_timer (clk 30),
     n_election := \<lparr>tracker_members = members3, votes_received = [''a'', ''c''], active = False\<rparr>,
     n_replication := Some (replication_a 0\<lparr>next_index := [(''b'', 2), (''c'', 2)]\<rparr>), n_disk := Some d\<rparr>"
    using again_a_eq by blast
  show "role (n_state again_a) = LEADER" "current_term (n_state again_a) = 3" "commit_index (n_state again_a) = 1"
    "n_log again_a = log_z" "n_store again_a = [(''z'', ''2'')]" "length (n_members again_a) = 3"
    "\<exists>R. n_replication again_a = Some R \<and> followers R = [''b'', ''c'']"
    by (simp_all add: d deposed_a_eq replication_a_def node_eval)
qed

lemma lost_write_answered:
  "\<exists>nf' j. put_key fst (\<lambda>k v. node_put k v meanwhile ((\<lambda>nf. nf), []) (\<lambda>nf. nf) ((\<lambda>nf. nf), [])) None ''x'' ''1'' (leader_a, []) =
     (nf', Returned j)"
proof -
  obtain R where R: "n_replication again_a = Some R" "followers R = [''b'', ''c'']" using again_a_state(7) by blast
  have c: "\<lparr>operation = ''PUT'', cmd_key = ''x'', cmd_value = Some ''1''\<rparr> = put_x" by (simp add: put_x_def)
  have init: "initialize_leader_replication again_a = (again_a, Ok ())"
    by (simp add: initialize_leader_replication_def again_a_state(1-6) R)
  have followers: "replicate_followers ((\<lambda>nf. nf), []) None (again_a, []) =
      ((again_a, [(''b'', Running), (''c'', Running)]), Ok [])"
    by (simp add: replicate_followers_def again_a_state(1-6) init R)
  have rep: "replicate_log ((\<lambda>nf. nf), []) (again_a, []) = ((again_a, [(''b'', Running), (''c'', Running)]), Ok ())"
    by (simp add: replicate_log_def again_a_state(1-6) init followers R again_a_finish)
  have "submit_results [entry_x] again_a = [True]"
    by (simp add: submit_results_def again_a_state(1-6) R entry_x_def)
  moreover have "\<exists>nf'. send_heartbeats ((\<lambda>nf. nf), []) (again_a, [(''b'', Running), (''c'', Running)]) = (nf', Ok [])"
    by (simp add: send_heartbeats_def replicate_followers_def init R again_a_state(1-6))
  ultimately obtain nf' where "node_put ''x'' ''1'' meanwhile ((\<lambda>nf. nf), []) (\<lambda>nf. nf) ((\<lambda>nf. nf), []) (leader_a, []) =
      (nf', Ok True)"
    by (auto simp: node_put_def c submit_command_def submit_commands_def submitted_a_step meanwhile_def rep)
  then show ?thesis by (simp add: put_key_def)
qed

text \<open>
  All of it is a run of the system, and from then on all members follow histories whose first entry is
  the other one: the write is not committed and never will be.
\<close>

lemma lost_write_overwritten:
  obtains S' where
    "(system_step members3)\<^sup>*\<^sup>* (elected_system\<lparr>group := put_node ''a'' submitted_a (group elected_system)\<rparr>) S'"
    "nodes (group S') ''a'' = again_a"
    "\<And>S''. (system_step members3)\<^sup>*\<^sup>* S' S'' \<Longrightarrow>
      \<exists>h. h ! 0 = entry_z \<and> h \<noteq> [] \<and> (\<forall>i \<in> set members3. follows_history h (nodes (group S'') i))"
proof -
  let ?S = "elected_system\<lparr>group := put_node ''a'' submitted_a (group elected_system)\<rparr>"
  obtain S' where S': "(system_step members3)\<^sup>*\<^sup>* ?S S'" "nodes (group S') ''a'' = again_a"
    using again_run by blast
  have a: "''a'' \<in> set members3" by (simp add: members3_def)
  have "system_step members3 elected_system ?S" using submitted_run(1) by (simp add: elected_system_def)
  then have reach: "system_reachable members3 S'"
    using system_reachable_steps [OF committed_reachable(1)] S'(1) by (meson converse_rtranclp_into_rtranclp)
  have "\<exists>h. h ! 0 = entry_z \<and> h \<noteq> [] \<and> (\<forall>i \<in> set members3. follows_history h (nodes (group S'') i))"
    if later: "(system_step members3)\<^sup>*\<^sup>* S' S''" for S''
  proof -
    obtain h where h: "\<forall>i \<in> set members3. follows_history h (nodes (group S') i) \<and> follows_history h (nodes (group S'') i)"
      using history_of_run [OF reach later] by blast
    then have "follows_history h again_a" using a S'(2) by metis
    moreover have "log_get 1 log_z = Some entry_z" "base_index log_z = 0"
      by (simp_all add: log_get_def log_z_def entry_z_def nth_opt_def last_index_def)
    ultimately have "h ! 0 = entry_z" "h \<noteq> []" unfolding follows_history_def again_a_state(3-5) by force+
    then show ?thesis using h by blast
  qed
  then show thesis using that S' by blast
qed

end
