(* ===== verification/DemoIO.thy ===== *)
theory DemoIO
  imports PyJson "HOL-Library.Sublist"
begin

text \<open>
  What the failover demonstration (\<^verbatim>\<open>scripts/demo_failover.py\<close>) does to the outside: it runs Docker
  Compose, sends HTTP requests to three nodes, reads a clock and sleeps. The operating system is a
  parameter, the record \<open>platform\<close> of functions on a world of any type. The state keeps the world,
  the attribute \<^verbatim>\<open>stopped_node\<close> and, as a history that no operation reads, the processes run and
  the requests sent with their outcomes. Messages of exceptions and log lines are left out; times
  are real numbers.
\<close>

section \<open>The platform\<close>

record url_request =
  url :: string
  url_method :: string
  url_headers :: "(string, string) dict"
  url_data :: "json option"

text \<open>
  A body as bytes is known by what \<^verbatim>\<open>json.loads\<close> makes of it and what decoding it as UTF-8 gives:
  \<open>Undecodable\<close> and \<open>None\<close> where that raises \<^verbatim>\<open>UnicodeDecodeError\<close>, a \<open>ValueError\<close>.
\<close>

datatype json_body = Loaded json | Malformed | Undecodable

record http_body =
  as_json :: json_body
  as_text :: "string option"

text \<open>
  How \<^verbatim>\<open>urlopen\<close> and the read of the body end: with a body, with an \<^verbatim>\<open>HTTPError\<close> (its status, and what
  reading its body raises, if anything), or with another exception.
\<close>

datatype url_outcome = Replied http_body | HttpStatus int "error option" | UrlFailed error

datatype process_outcome =
    Completed int string string
  | TimedOut
  | NotStarted
  | UndecodableOutput

record 'w platform =
  which_docker :: "'w \<Rightarrow> bool"
  run_process :: "string list \<Rightarrow> real \<Rightarrow> 'w \<Rightarrow> 'w \<times> process_outcome"
  urlopen :: "url_request \<Rightarrow> real \<Rightarrow> 'w \<Rightarrow> 'w \<times> url_outcome"
  monotonic :: "'w \<Rightarrow> 'w \<times> real"
  sleep :: "real \<Rightarrow> 'w \<Rightarrow> 'w"
  time_and_pid :: "'w \<Rightarrow> 'w \<times> int \<times> int"

datatype io_event = Ran "string list" process_outcome | Sent url_request url_outcome

record 'w demo_state =
  world :: 'w
  stopped_node :: "string option"
  io_history :: "io_event list"

definition read_clock :: "'w platform \<Rightarrow> 'w demo_state \<Rightarrow> 'w demo_state \<times> real" where
  "read_clock p s = (case monotonic p (world s) of (w, now) \<Rightarrow> (s\<lparr>world := w\<rparr>, now))"

definition sleeper :: "'w platform \<Rightarrow> real \<Rightarrow> 'w demo_state \<Rightarrow> 'w demo_state" where
  "sleeper p seconds s = s\<lparr>world := sleep p seconds (world s)\<rparr>"

section \<open>The nodes\<close>

record node_endpoint =
  ep_node_id :: string
  base_url :: string

definition NODES :: "node_endpoint list" where
  "NODES = [\<lparr>ep_node_id = ''node1'', base_url = ''http://127.0.0.1:8001''\<rparr>,
            \<lparr>ep_node_id = ''node2'', base_url = ''http://127.0.0.1:8002''\<rparr>,
            \<lparr>ep_node_id = ''node3'', base_url = ''http://127.0.0.1:8003''\<rparr>]"

definition NODE_IDS :: "string list" where
  "NODE_IDS = map ep_node_id NODES"

definition NODE_BY_ID :: "(string, node_endpoint) dict" where
  "NODE_BY_ID = map (\<lambda>node. (ep_node_id node, node)) NODES"

section \<open>Docker Compose\<close>

record docker_compose =
  command_timeout :: real

definition docker_compose_init :: "real \<Rightarrow> docker_compose result" where
  "docker_compose_init seconds =
     (if seconds \<le> 0 then Err ValueError else Ok \<lparr>command_timeout = seconds\<rparr>)"

definition docker_command :: "string list \<Rightarrow> string list" where
  "docker_command arguments = [''docker'', ''compose''] @ arguments"

text \<open>The result: standard output and standard error. With \<open>check\<close> a return code that is not 0 raises.\<close>

definition compose_run ::
  "'w platform \<Rightarrow> docker_compose \<Rightarrow> string list \<Rightarrow> bool \<Rightarrow> 'w demo_state \<Rightarrow>
   'w demo_state \<times> (string \<times> string) result" where
  "compose_run p dc arguments check s =
     (case run_process p (docker_command arguments) (command_timeout dc) (world s) of
        (w, outcome) \<Rightarrow>
          (s\<lparr>world := w, io_history := io_history s @ [Ran (docker_command arguments) outcome]\<rparr>,
           (case outcome of
              TimedOut \<Rightarrow> Err DemoError
            | NotStarted \<Rightarrow> Err DemoError
            | UndecodableOutput \<Rightarrow> Err ValueError
            | Completed returncode out err \<Rightarrow>
                if check \<and> returncode \<noteq> 0 then Err DemoError else Ok (out, err))))"

definition compose_command ::
  "'w platform \<Rightarrow> docker_compose \<Rightarrow> string list \<Rightarrow> 'w demo_state \<Rightarrow> 'w demo_state \<times> unit result" where
  "compose_command p dc arguments s =
     (case compose_run p dc arguments True s of (s, Inl e) \<Rightarrow> (s, Err e) | (s, Inr _) \<Rightarrow> (s, Ok ()))"

definition compose_verify ::
  "'w platform \<Rightarrow> docker_compose \<Rightarrow> 'w demo_state \<Rightarrow> 'w demo_state \<times> unit result" where
  "compose_verify p dc s =
     (if \<not> which_docker p (world s) then (s, Err DemoError)
      else (case compose_command p dc [''version''] s of
              (s, Inl e) \<Rightarrow> (s, Err e)
            | (s, Inr _) \<Rightarrow> compose_command p dc [''config'', ''--quiet''] s))"

definition compose_up ::
  "'w platform \<Rightarrow> docker_compose \<Rightarrow> bool \<Rightarrow> 'w demo_state \<Rightarrow> 'w demo_state \<times> unit result" where
  "compose_up p dc build =
     compose_command p dc ([''up'', ''-d''] @ (if build then [''--build''] else []) @ NODE_IDS)"

definition compose_stop ::
  "'w platform \<Rightarrow> docker_compose \<Rightarrow> string \<Rightarrow> 'w demo_state \<Rightarrow> 'w demo_state \<times> unit result" where
  "compose_stop p dc nid = compose_command p dc [''stop'', nid]"

definition compose_start ::
  "'w platform \<Rightarrow> docker_compose \<Rightarrow> string \<Rightarrow> 'w demo_state \<Rightarrow> 'w demo_state \<times> unit result" where
  "compose_start p dc nid = compose_command p dc [''start'', nid]"

text \<open>
  The sections of the diagnostics: a title and the parts of its text that are not empty, \<open>None\<close>
  where a \<open>DemoError\<close> takes their place.
\<close>

fun diagnostic_sections ::
  "'w platform \<Rightarrow> docker_compose \<Rightarrow> (string \<times> string list) list \<Rightarrow> 'w demo_state \<Rightarrow>
   'w demo_state \<times> (string \<times> string list option) list result" where
  "diagnostic_sections p dc [] s = (s, Ok [])"
| "diagnostic_sections p dc ((title, arguments) # rest) s =
     (case (case compose_run p dc arguments False s of
              (s, Inl e) \<Rightarrow> (s, if e = DemoError then Ok (title, None) else Err e)
            | (s, Inr (out, err)) \<Rightarrow>
                (s, Ok (title, Some (filter (\<lambda>part. part \<noteq> []) [py_strip out, py_strip err])))) of
        (s, Inl e) \<Rightarrow> (s, Err e)
      | (s, Inr sec) \<Rightarrow>
          (case diagnostic_sections p dc rest s of
             (s, Inl e) \<Rightarrow> (s, Err e)
           | (s, Inr secs) \<Rightarrow> (s, Ok (sec # secs))))"

definition compose_diagnostics ::
  "'w platform \<Rightarrow> docker_compose \<Rightarrow> 'w demo_state \<Rightarrow>
   'w demo_state \<times> (string \<times> string list option) list result" where
  "compose_diagnostics p dc =
     diagnostic_sections p dc
       [(''docker compose ps'', [''ps'']),
        (''recent node logs'', [''logs'', ''--tail'', ''80''] @ NODE_IDS)]"

section \<open>Requests\<close>

record cluster_http =
  request_timeout :: real

definition send_request ::
  "'w platform \<Rightarrow> cluster_http \<Rightarrow> url_request \<Rightarrow> 'w demo_state \<Rightarrow> 'w demo_state \<times> url_outcome" where
  "send_request p h request s =
     (case urlopen p request (request_timeout h) (world s) of
        (w, outcome) \<Rightarrow> (s\<lparr>world := w, io_history := io_history s @ [Sent request outcome]\<rparr>, outcome))"

text \<open>What a reply is worth: the object it holds, or the exception raised.\<close>

definition json_reply :: "url_outcome \<Rightarrow> (string, json) dict result" where
  "json_reply outcome =
     (case outcome of
        HttpStatus code None \<Rightarrow> Err DemoError
      | HttpStatus code (Some e) \<Rightarrow> Err e
      | UrlFailed e \<Rightarrow> Err (if e = OSError then DemoError else e)
      | Replied body \<Rightarrow>
          (case as_json body of
             Undecodable \<Rightarrow> Err ValueError
           | Malformed \<Rightarrow> Err DemoError
           | Loaded (JObj decoded) \<Rightarrow> Ok decoded
           | Loaded _ \<Rightarrow> Err DemoError))"

definition make_request :: "node_endpoint \<Rightarrow> string \<Rightarrow> string \<Rightarrow> json option \<Rightarrow> url_request" where
  "make_request endpoint path meth payload =
     \<lparr>url = base_url endpoint @ path, url_method = meth,
      url_headers = (case payload of None \<Rightarrow> [] | Some _ \<Rightarrow> [(''Content-Type'', ''application/json'')]),
      url_data = payload\<rparr>"

definition request_json ::
  "'w platform \<Rightarrow> cluster_http \<Rightarrow> string \<Rightarrow> string \<Rightarrow> string \<Rightarrow> json option \<Rightarrow> 'w demo_state \<Rightarrow>
   'w demo_state \<times> (string, json) dict result" where
  "request_json p h nid path meth payload s =
     (case dict_item NODE_BY_ID nid of
        Inl e \<Rightarrow> (s, Err e)
      | Inr endpoint \<Rightarrow>
          (case send_request p h (make_request endpoint path meth payload) s of
             (s, outcome) \<Rightarrow> (s, json_reply outcome)))"

definition text_reply :: "url_outcome \<Rightarrow> string result" where
  "text_reply outcome =
     (case outcome of
        HttpStatus code e \<Rightarrow> Err DemoError
      | UrlFailed e \<Rightarrow> Err (if e = OSError then DemoError else e)
      | Replied body \<Rightarrow> (case as_text body of None \<Rightarrow> Err ValueError | Some text \<Rightarrow> Ok text))"

definition request_text ::
  "'w platform \<Rightarrow> cluster_http \<Rightarrow> string \<Rightarrow> string \<Rightarrow> 'w demo_state \<Rightarrow> 'w demo_state \<times> string result" where
  "request_text p h nid path s =
     (case dict_item NODE_BY_ID nid of
        Inl e \<Rightarrow> (s, Err e)
      | Inr endpoint \<Rightarrow>
          (case send_request p h (make_request endpoint path ''GET'' None) s of
             (s, outcome) \<Rightarrow> (s, text_reply outcome)))"

text \<open>\<^verbatim>\<open>urllib.parse.quote(text, safe='')\<close>: the bytes of the UTF-8 form, all but the unreserved escaped.\<close>

definition unreserved :: "nat \<Rightarrow> bool" where
  "unreserved n =
     (48 \<le> n \<and> n \<le> 57 \<or> 65 \<le> n \<and> n \<le> 90 \<or> 97 \<le> n \<and> n \<le> 122 \<or> n \<in> {45, 46, 95, 126})"

definition hex_digit :: "nat \<Rightarrow> char" where
  "hex_digit n = char_of (if n < 10 then 48 + n else 55 + n)"

definition quote_byte :: "nat \<Rightarrow> string" where
  "quote_byte n =
     (if unreserved n then [char_of n] else [CHR ''%'', hex_digit (n div 16), hex_digit (n mod 16)])"

definition utf8_bytes :: "char \<Rightarrow> nat list" where
  "utf8_bytes c = (let n = of_char c in if n < 128 then [n] else [192 + n div 64, 128 + n mod 64])"

definition url_quote :: "string \<Rightarrow> string" where
  "url_quote text = concat (map quote_byte (concat (map utf8_bytes text)))"

end
