(* ===== verification/Demo.thy ===== *)
theory Demo
  imports DemoIO
begin

text \<open>
  The failover demonstration itself (\<^verbatim>\<open>scripts/demo_failover.py\<close>): choosing the leader from the
  reported statuses, the three waits, the checks, the run and \<^verbatim>\<open>main\<close>. A wait is a loop that may not
  end: it is a partial function, \<open>None\<close> where it does not return, and so is all that waits.
\<close>

section \<open>Reading the statuses\<close>

type_synonym statuses = "(string, (string, json) dict) dict"

record demo_leader =
  l_node_id :: string
  l_term :: int

text \<open>\<^verbatim>\<open>isinstance(x, int)\<close>: the truth values are the integers 1 and 0.\<close>

definition int_value :: "json option \<Rightarrow> int option" where
  "int_value j =
     (case j of Some (JInt n) \<Rightarrow> Some n | Some (JBool b) \<Rightarrow> Some (if b then 1 else 0) | _ \<Rightarrow> None)"

fun leaders_of :: "string option \<Rightarrow> statuses \<Rightarrow> demo_leader list" where
  "leaders_of excluded [] = []"
| "leaders_of excluded ((nid, status) # rest) =
     (if Some nid = excluded then leaders_of excluded rest
      else if map_of status ''role'' \<noteq> Some (JStr ''leader'') then leaders_of excluded rest
      else (case int_value (map_of status ''current_term'') of
              None \<Rightarrow> leaders_of excluded rest
            | Some trm \<Rightarrow> \<lparr>l_node_id = nid, l_term = trm\<rparr> # leaders_of excluded rest))"

definition select_leader :: "statuses \<Rightarrow> string option \<Rightarrow> demo_leader option" where
  "select_leader sts excluded = (case leaders_of excluded sts of [l] \<Rightarrow> Some l | _ \<Rightarrow> None)"

definition lags :: "int \<Rightarrow> (string, json) dict \<Rightarrow> bool" where
  "lags target status =
     (\<exists>key \<in> set [''commit_index'', ''last_applied'', ''log_last_index''].
        case int_value (map_of status key) of None \<Rightarrow> True | Some i \<Rightarrow> i < target)"

definition lagging_nodes :: "statuses \<Rightarrow> int \<Rightarrow> string list" where
  "lagging_nodes sts target =
     filter (\<lambda>nid. case map_of sts nid of None \<Rightarrow> True | Some status \<Rightarrow> lags target status) NODE_IDS"

section \<open>Construction\<close>

record failover_demo =
  compose :: docker_compose
  http :: cluster_http
  wait_timeout :: real
  poll_interval :: real
  stable_samples :: int

definition failover_demo_init ::
  "docker_compose \<Rightarrow> cluster_http \<Rightarrow> real \<Rightarrow> real \<Rightarrow> int \<Rightarrow> failover_demo result" where
  "failover_demo_init dc h seconds interval samples =
     (if seconds \<le> 0 then Err ValueError
      else if interval \<le> 0 then Err ValueError
      else if samples \<le> 0 then Err ValueError
      else Ok \<lparr>compose = dc, http = h, wait_timeout = seconds, poll_interval = interval,
              stable_samples = samples\<rparr>)"

section \<open>Sampling the nodes\<close>

fun collect_from ::
  "'w platform \<Rightarrow> failover_demo \<Rightarrow> string list \<Rightarrow> statuses \<Rightarrow> 'w demo_state \<Rightarrow>
   'w demo_state \<times> statuses result" where
  "collect_from p d [] sts s = (s, Ok sts)"
| "collect_from p d (nid # rest) sts s =
     (case request_json p (http d) nid ''/cluster/status'' ''GET'' None s of
        (s, Inl e) \<Rightarrow> if e = DemoError then collect_from p d rest sts s else (s, Err e)
      | (s, Inr status) \<Rightarrow> collect_from p d rest (AList.update nid status sts) s)"

definition collect_statuses ::
  "'w platform \<Rightarrow> failover_demo \<Rightarrow> 'w demo_state \<Rightarrow> 'w demo_state \<times> statuses result" where
  "collect_statuses p d = collect_from p d NODE_IDS []"

fun unhealthy_nodes ::
  "'w platform \<Rightarrow> failover_demo \<Rightarrow> string list \<Rightarrow> 'w demo_state \<Rightarrow>
   'w demo_state \<times> string list result" where
  "unhealthy_nodes p d [] s = (s, Ok [])"
| "unhealthy_nodes p d (nid # rest) s =
     (case request_json p (http d) nid ''/health'' ''GET'' None s of
        (s, r) \<Rightarrow>
          (case (case r of
                   Inl e \<Rightarrow> if e = DemoError then Ok True else Err e
                 | Inr report \<Rightarrow> Ok (map_of report ''status'' \<noteq> Some (JStr ''ok''))) of
             Inl e \<Rightarrow> (s, Err e)
           | Inr bad \<Rightarrow>
               (case unhealthy_nodes p d rest s of
                  (s, Inl e) \<Rightarrow> (s, Err e)
                | (s, Inr unhealthy) \<Rightarrow> (s, Ok (if bad then nid # unhealthy else unhealthy)))))"

section \<open>Waiting\<close>

text \<open>
  The loop of the three waits: while the deadline is ahead, a round either returns or gives the
  variables of the next round, before which the loop sleeps.
\<close>

type_synonym ('w, 'l, 'a) poll_round = "'l \<Rightarrow> 'w demo_state \<Rightarrow> 'w demo_state \<times> ('a + 'l) result"

partial_function (option) poll ::
  "'w platform \<Rightarrow> failover_demo \<Rightarrow> real \<Rightarrow> ('w, 'l, 'a) poll_round \<Rightarrow> 'l \<Rightarrow> 'w demo_state \<Rightarrow>
   ('w demo_state \<times> 'a result) option" where
  "poll p d deadline body l s =
     (case read_clock p s of
        (s, now) \<Rightarrow>
          if now < deadline
          then (case body l s of
                  (s, Inl e) \<Rightarrow> Some (s, Err e)
                | (s, Inr (Inl x)) \<Rightarrow> Some (s, Ok x)
                | (s, Inr (Inr l)) \<Rightarrow> poll p d deadline body l (sleeper p (poll_interval d) s))
          else Some (s, Err DemoError))"

definition wait_until ::
  "'w platform \<Rightarrow> failover_demo \<Rightarrow> ('w, 'l, 'a) poll_round \<Rightarrow> 'l \<Rightarrow> 'w demo_state \<Rightarrow>
   ('w demo_state \<times> 'a result) option" where
  "wait_until p d body l s =
     (case read_clock p s of (s, start) \<Rightarrow> poll p d (start + wait_timeout d) body l s)"

definition health_round ::
  "'w platform \<Rightarrow> failover_demo \<Rightarrow> string list \<Rightarrow> ('w, unit, unit) poll_round" where
  "health_round p d required l s =
     (case unhealthy_nodes p d required s of
        (s, Inl e) \<Rightarrow> (s, Err e)
      | (s, Inr unhealthy) \<Rightarrow> (s, Ok (if unhealthy = [] then Inl () else Inr ())))"

definition wait_for_health ::
  "'w platform \<Rightarrow> failover_demo \<Rightarrow> string list \<Rightarrow> 'w demo_state \<Rightarrow> ('w demo_state \<times> unit result) option" where
  "wait_for_health p d required = wait_until p d (health_round p d required) ()"

text \<open>The variables \<^verbatim>\<open>previous\<close> and \<^verbatim>\<open>consecutive\<close>.\<close>

definition leader_round ::
  "'w platform \<Rightarrow> failover_demo \<Rightarrow> string option \<Rightarrow>
   ('w, demo_leader option \<times> int, demo_leader) poll_round" where
  "leader_round p d excluded l s =
     (case l of (previous, consecutive) \<Rightarrow>
       (case collect_statuses p d s of
          (s, Inl e) \<Rightarrow> (s, Err e)
        | (s, Inr sts) \<Rightarrow>
            (s, Ok (case select_leader sts excluded of
                      None \<Rightarrow> Inr (None, 0)
                    | Some candidate \<Rightarrow>
                        (let consecutive = (if Some candidate = previous then consecutive + 1 else 1)
                         in if consecutive \<ge> stable_samples d then Inl candidate
                            else Inr (Some candidate, consecutive))))))"

definition wait_for_stable_leader ::
  "'w platform \<Rightarrow> failover_demo \<Rightarrow> string option \<Rightarrow> 'w demo_state \<Rightarrow>
   ('w demo_state \<times> demo_leader result) option" where
  "wait_for_stable_leader p d excluded = wait_until p d (leader_round p d excluded) (None, 0)"

definition catch_up_round ::
  "'w platform \<Rightarrow> failover_demo \<Rightarrow> int \<Rightarrow> ('w, unit, unit) poll_round" where
  "catch_up_round p d target l s =
     (case collect_statuses p d s of
        (s, Inl e) \<Rightarrow> (s, Err e)
      | (s, Inr sts) \<Rightarrow> (s, Ok (if lagging_nodes sts target = [] then Inl () else Inr ())))"

definition wait_for_catch_up ::
  "'w platform \<Rightarrow> failover_demo \<Rightarrow> int \<Rightarrow> 'w demo_state \<Rightarrow> ('w demo_state \<times> unit result) option" where
  "wait_for_catch_up p d target = wait_until p d (catch_up_round p d target) ()"

section \<open>Checks\<close>

definition demo_put ::
  "'w platform \<Rightarrow> failover_demo \<Rightarrow> demo_leader \<Rightarrow> string \<Rightarrow> string \<Rightarrow> 'w demo_state \<Rightarrow>
   'w demo_state \<times> unit result" where
  "demo_put p d ldr key val s =
     (case request_json p (http d) (l_node_id ldr) (''/kv/'' @ url_quote key) ''PUT''
             (Some (JObj [(''value'', JStr val)])) s of
        (s, Inl e) \<Rightarrow> (s, Err e)
      | (s, Inr response) \<Rightarrow>
          (s, if map_of response ''committed'' \<noteq> Some (JBool True) \<or>
                 map_of response ''leader_id'' \<noteq> Some (JStr (l_node_id ldr))
              then Err DemoError else Ok ()))"

definition verify_read ::
  "'w platform \<Rightarrow> failover_demo \<Rightarrow> demo_leader \<Rightarrow> string \<Rightarrow> string \<Rightarrow> 'w demo_state \<Rightarrow>
   'w demo_state \<times> unit result" where
  "verify_read p d ldr key expected s =
     (case request_json p (http d) (l_node_id ldr) (''/kv/'' @ url_quote key) ''GET'' None s of
        (s, Inl e) \<Rightarrow> (s, Err e)
      | (s, Inr response) \<Rightarrow>
          (s, if map_of response ''value'' \<noteq> Some (JStr expected) then Err DemoError else Ok ()))"

definition metrics_name :: string where
  "metrics_name = ''pyraftkv_raft_current_term''"

definition verify_node_metrics ::
  "'w platform \<Rightarrow> failover_demo \<Rightarrow> string \<Rightarrow> 'w demo_state \<Rightarrow> 'w demo_state \<times> unit result" where
  "verify_node_metrics p d nid s =
     (case request_text p (http d) nid ''/metrics'' s of
        (s, Inl e) \<Rightarrow> (s, Err e)
      | (s, Inr text) \<Rightarrow> (s, if sublist metrics_name text then Ok () else Err DemoError))"

fun verify_metrics_of ::
  "'w platform \<Rightarrow> failover_demo \<Rightarrow> string list \<Rightarrow> 'w demo_state \<Rightarrow> 'w demo_state \<times> unit result" where
  "verify_metrics_of p d [] s = (s, Ok ())"
| "verify_metrics_of p d (nid # rest) s =
     (case verify_node_metrics p d nid s of
        (s, Inl e) \<Rightarrow> (s, Err e)
      | (s, Inr _) \<Rightarrow> verify_metrics_of p d rest s)"

definition verify_metrics ::
  "'w platform \<Rightarrow> failover_demo \<Rightarrow> 'w demo_state \<Rightarrow> 'w demo_state \<times> unit result" where
  "verify_metrics p d = verify_metrics_of p d NODE_IDS"

text \<open>What \<^verbatim>\<open>diagnostics\<close> prints: the sections, then the statuses of the nodes that answer.\<close>

definition demo_diagnostics ::
  "'w platform \<Rightarrow> failover_demo \<Rightarrow> 'w demo_state \<Rightarrow>
   'w demo_state \<times> ((string \<times> string list option) list \<times> statuses) result" where
  "demo_diagnostics p d s =
     (case compose_diagnostics p (compose d) s of
        (s, Inl e) \<Rightarrow> (s, Err e)
      | (s, Inr sections) \<Rightarrow>
          (case collect_statuses p d s of
             (s, Inl e) \<Rightarrow> (s, Err e)
           | (s, Inr sts) \<Rightarrow> (s, Ok (sections, sts))))"

section \<open>The run\<close>

text \<open>
  \<open>lift_io\<close> makes an operation that returns into one that may not; \<open>bind_io\<close> runs one after another and
  stops at an exception.
\<close>

type_synonym ('w, 'a) demo_io = "'w demo_state \<Rightarrow> ('w demo_state \<times> 'a result) option"

definition lift_io :: "('w demo_state \<Rightarrow> 'w demo_state \<times> 'a result) \<Rightarrow> ('w, 'a) demo_io" where
  "lift_io m s = Some (m s)"

definition bind_io :: "('w, 'a) demo_io \<Rightarrow> ('a \<Rightarrow> ('w, 'b) demo_io) \<Rightarrow> ('w, 'b) demo_io" where
  "bind_io m f s =
     (case m s of
        None \<Rightarrow> None
      | Some (s, Inl e) \<Rightarrow> Some (s, Err e)
      | Some (s, Inr x) \<Rightarrow> f x s)"

definition set_stopped :: "string option \<Rightarrow> ('w, unit) demo_io" where
  "set_stopped n = lift_io (\<lambda>s. (s\<lparr>stopped_node := n\<rparr>, Ok ()))"

definition require :: "bool \<Rightarrow> ('w, unit) demo_io" where
  "require b = lift_io (\<lambda>s. (s, if b then Ok () else Err DemoError))"

definition unique_suffix :: "'w platform \<Rightarrow> ('w, string) demo_io" where
  "unique_suffix p = lift_io (\<lambda>s.
     case time_and_pid p (world s) of (w, seconds, pid) \<Rightarrow>
       (s\<lparr>world := w\<rparr>, Ok (show_int seconds @ ''-'' @ show_int pid)))"

definition leader_commit_index :: "'w platform \<Rightarrow> failover_demo \<Rightarrow> demo_leader \<Rightarrow> ('w, int) demo_io" where
  "leader_commit_index p d ldr = lift_io (\<lambda>s.
     case request_json p (http d) (l_node_id ldr) ''/cluster/status'' ''GET'' None s of
       (s, Inl e) \<Rightarrow> (s, Err e)
     | (s, Inr status) \<Rightarrow>
         (s, case int_value (map_of status ''commit_index'') of None \<Rightarrow> Err DemoError | Some i \<Rightarrow> Ok i))"

text \<open>From the start of the cluster to the failure of its leader.\<close>

definition run_before ::
  "'w platform \<Rightarrow> failover_demo \<Rightarrow> bool \<Rightarrow> ('w, demo_leader \<times> string \<times> string) demo_io" where
  "run_before p d build =
     bind_io (lift_io (compose_verify p (compose d))) (\<lambda>_.
     bind_io (lift_io (compose_up p (compose d) build)) (\<lambda>_.
     bind_io (wait_for_health p d NODE_IDS) (\<lambda>_.
     bind_io (wait_for_stable_leader p d None) (\<lambda>initial_leader.
     bind_io (unique_suffix p) (\<lambda>unique.
       (let before_key = ''demo-before-'' @ unique; after_key = ''demo-after-'' @ unique in
     bind_io (lift_io (demo_put p d initial_leader before_key ''before-failover'')) (\<lambda>_.
     bind_io (lift_io (verify_read p d initial_leader before_key ''before-failover'')) (\<lambda>_.
     bind_io (lift_io (compose_stop p (compose d) (l_node_id initial_leader))) (\<lambda>_.
     bind_io (set_stopped (Some (l_node_id initial_leader))) (\<lambda>_.
       lift_io (\<lambda>s. (s, Ok (initial_leader, before_key, after_key)))))))))))))"

text \<open>With two of three nodes, up to the restart of the first leader.\<close>

definition run_without ::
  "'w platform \<Rightarrow> failover_demo \<Rightarrow> demo_leader \<Rightarrow> string \<Rightarrow> string \<Rightarrow> ('w, int) demo_io" where
  "run_without p d initial_leader before_key after_key =
     bind_io (wait_for_stable_leader p d (Some (l_node_id initial_leader))) (\<lambda>new_leader.
     bind_io (require (\<not> l_term new_leader \<le> l_term initial_leader)) (\<lambda>_.
     bind_io (lift_io (demo_put p d new_leader after_key ''after-failover'')) (\<lambda>_.
     bind_io (lift_io (verify_read p d new_leader after_key ''after-failover'')) (\<lambda>_.
     bind_io (lift_io (verify_read p d new_leader before_key ''before-failover'')) (\<lambda>_.
     bind_io (leader_commit_index p d new_leader) (\<lambda>target_commit_index.
     bind_io (lift_io (compose_start p (compose d) (l_node_id initial_leader))) (\<lambda>_.
     bind_io (set_stopped None) (\<lambda>_.
       lift_io (\<lambda>s. (s, Ok target_commit_index))))))))))"

definition run_after ::
  "'w platform \<Rightarrow> failover_demo \<Rightarrow> demo_leader \<Rightarrow> string \<Rightarrow> int \<Rightarrow> ('w, unit) demo_io" where
  "run_after p d initial_leader after_key target_commit_index =
     bind_io (wait_for_health p d [l_node_id initial_leader]) (\<lambda>_.
     bind_io (wait_for_catch_up p d target_commit_index) (\<lambda>_.
     bind_io (wait_for_stable_leader p d None) (\<lambda>final_leader.
     bind_io (lift_io (verify_read p d final_leader after_key ''after-failover'')) (\<lambda>_.
       lift_io (verify_metrics p d)))))"

definition demo_run :: "'w platform \<Rightarrow> failover_demo \<Rightarrow> bool \<Rightarrow> ('w, unit) demo_io" where
  "demo_run p d build =
     bind_io (run_before p d build) (\<lambda>(initial_leader, before_key, after_key).
     bind_io (run_without p d initial_leader before_key after_key) (\<lambda>target_commit_index.
       run_after p d initial_leader after_key target_commit_index))"

section \<open>main\<close>

text \<open>The parsed arguments, and the defaults of the parser.\<close>

record demo_args =
  arg_timeout :: real
  arg_poll_interval :: real
  arg_stable_samples :: int
  no_build :: bool

definition default_args :: demo_args where
  "default_args = \<lparr>arg_timeout = 60, arg_poll_interval = 1, arg_stable_samples = 3, no_build = False\<rparr>"

text \<open>The \<^verbatim>\<open>except\<close> clause.\<close>

definition demo_failed :: "'w platform \<Rightarrow> failover_demo \<Rightarrow> 'w demo_state \<Rightarrow> 'w demo_state \<times> int result" where
  "demo_failed p d s =
     (case demo_diagnostics p d s of
        (s, Inl e) \<Rightarrow> (s, Err e)
      | (s, Inr _) \<Rightarrow>
          (case stopped_node s of
             None \<Rightarrow> (s, Ok 1)
           | Some nid \<Rightarrow>
               (case compose_start p (compose d) nid s of
                  (s, Inl e) \<Rightarrow> (s, if e = DemoError then Ok 1 else Err e)
                | (s, Inr _) \<Rightarrow> (s, Ok 1))))"

text \<open>
  The constructors run before the \<^verbatim>\<open>try\<close>, and the attribute starts as \<open>None\<close>; the result is the exit
  status.
\<close>

definition demo_main :: "'w platform \<Rightarrow> demo_args \<Rightarrow> ('w, int) demo_io" where
  "demo_main p args s =
     (case docker_compose_init 300 of
        Inl e \<Rightarrow> Some (s, Err e)
      | Inr dc \<Rightarrow>
          (case failover_demo_init dc \<lparr>request_timeout = 2\<rparr> (arg_timeout args)
                  (arg_poll_interval args) (arg_stable_samples args) of
             Inl e \<Rightarrow> Some (s, Err e)
           | Inr d \<Rightarrow>
               (case demo_run p d (\<not> no_build args) (s\<lparr>stopped_node := None\<rparr>) of
                  None \<Rightarrow> None
                | Some (s, Inr _) \<Rightarrow> Some (s, Ok 0)
                | Some (s, Inl e) \<Rightarrow>
                    Some (if e \<in> {DemoError, ValueError} then demo_failed p d s else (s, Err e)))))"

end
