(* ===== verification/DemoProofs.thy ===== *)
theory DemoProofs
  imports Demo
begin

text \<open>
  What the demonstration's operations keep, as a contract: a relation between the states before
  and after an operation that every access to the platform satisfies holds for every operation
  (\<open>demo_frame\<close>, and \<open>demo_run_frame\<close> for the run as a whole). Its instances are the frame of the
  quiet operations, the growth of the history and the passing of time. On them rest the three
  results: each wait ends, what a run that passes has observed, and that a node that was stopped
  is started again.
\<close>

section \<open>The contract\<close>

locale demo_frame =
  fixes p :: "'w platform" and R :: "'w demo_state \<Rightarrow> 'w demo_state \<Rightarrow> bool"
  assumes refl: "R s s"
    and trans: "R s t \<Longrightarrow> R t u \<Longrightarrow> R s u"
    and runs: "run_process p (docker_command arguments) seconds (world s) = (w, outcome) \<Longrightarrow>
      hd arguments \<notin> {''stop'', ''start''} \<Longrightarrow>
      R s (s\<lparr>world := w, io_history := io_history s @ [Ran (docker_command arguments) outcome]\<rparr>)"
    and opens: "urlopen p request seconds (world s) = (w, reply) \<Longrightarrow>
      R s (s\<lparr>world := w, io_history := io_history s @ [Sent request reply]\<rparr>)"
    and reads: "monotonic p (world s) = (w, now) \<Longrightarrow> R s (s\<lparr>world := w\<rparr>)"
    and sleeps: "R s (s\<lparr>world := sleep p seconds (world s)\<rparr>)"
    and stamps: "time_and_pid p (world s) = (w, stamp) \<Longrightarrow> R s (s\<lparr>world := w\<rparr>)"
begin

lemma compose_run: "hd arguments \<notin> {''stop'', ''start''} \<Longrightarrow> R s (fst (compose_run p dc arguments check s))"
  using runs by (fastforce simp: compose_run_def split: prod.splits)

lemma compose_command: "hd arguments \<notin> {''stop'', ''start''} \<Longrightarrow> R s (fst (compose_command p dc arguments s))"
  using compose_run [of arguments s dc True]
  by (auto simp: compose_command_def split: prod.splits sum.splits)

lemma compose_verify: "R s (fst (compose_verify p dc s))"
proof -
  have v: "R s (fst (compose_command p dc [''version''] s))" for s by (rule compose_command) simp
  have c: "R s (fst (compose_command p dc [''config'', ''--quiet''] s))" for s by (rule compose_command) simp
  obtain s1 r where x: "compose_command p dc [''version''] s = (s1, r)" by fastforce
  show ?thesis
    using v [of s] trans [OF _ c, of s s1] refl by (simp add: compose_verify_def x split: sum.splits)
qed

lemma compose_up: "R s (fst (compose_up p dc build s))"
  unfolding compose_up_def by (rule compose_command) simp

lemma diagnostic_sections:
  "list_all (\<lambda>(title, arguments). hd arguments \<notin> {''stop'', ''start''}) secs \<Longrightarrow>
    R s (fst (diagnostic_sections p dc secs s))"
proof (induction secs arbitrary: s)
  case (Cons sec secs)
  obtain title arguments where sec: "sec = (title, arguments)" by fastforce
  obtain s1 r where x: "compose_run p dc arguments False s = (s1, r)" by fastforce
  have "R s s1" using compose_run [of arguments s dc False] Cons.prems by (simp add: x sec)
  moreover have "R s1 (fst (diagnostic_sections p dc secs s1))" using Cons by simp
  ultimately show ?case
    using trans [of s s1] by (auto simp: sec x split: prod.splits sum.splits)
qed (simp add: refl)

lemma compose_diagnostics: "R s (fst (compose_diagnostics p dc s))"
  unfolding compose_diagnostics_def by (rule diagnostic_sections) simp

lemma send_request: "R s (fst (send_request p h request s))"
  using opens by (fastforce simp: send_request_def split: prod.splits)

lemma request_json: "R s (fst (request_json p h nid path meth payload s))"
  using send_request [where s = s] refl by (auto simp: request_json_def split: sum.splits prod.splits) (metis fst_conv)

lemma request_text: "R s (fst (request_text p h nid path s))"
  using send_request [where s = s] refl by (auto simp: request_text_def split: sum.splits prod.splits) (metis fst_conv)

lemma collect_from: "R s (fst (collect_from p d nids sts s))"
proof (induction nids arbitrary: sts s)
  case (Cons nid nids)
  obtain s1 r where x: "request_json p (http d) nid ''/cluster/status'' ''GET'' None s = (s1, r)" by fastforce
  have "R s s1" using request_json [of s "http d" nid "''/cluster/status''" "''GET''" None] by (simp add: x)
  then show ?case using Cons.IH trans by (auto simp: x split: sum.splits)
qed (simp add: refl)

lemma collect_statuses: "R s (fst (collect_statuses p d s))"
  unfolding collect_statuses_def by (rule collect_from)

lemma unhealthy_nodes: "R s (fst (unhealthy_nodes p d nids s))"
proof (induction nids arbitrary: s)
  case (Cons nid nids)
  obtain s1 r where x: "request_json p (http d) nid ''/health'' ''GET'' None s = (s1, r)" by fastforce
  have s1: "R s s1" using request_json [of s "http d" nid "''/health''" "''GET''" None] by (simp add: x)
  obtain s2 r2 where y: "unhealthy_nodes p d nids s1 = (s2, r2)" by fastforce
  have "R s s2" using Cons.IH [of s1] s1 trans by (auto simp: y)
  then show ?case using s1 by (auto simp: x y split: sum.splits)
qed (simp add: refl)

lemma clock: "R s (fst (read_clock p s))"
  using reads by (fastforce simp: read_clock_def split: prod.splits)

lemma sleeper: "R s (sleeper p seconds s)"
  using sleeps by (simp add: sleeper_def)

text \<open>A wait whose rounds keep the relation keeps it.\<close>

lemma poll:
  assumes body: "\<And>l s. R s (fst (body l s))"
    and ret: "poll p d deadline body l s = Some (s', r)"
  shows "R s s'"
proof -
  have "R s (fst sr)" if "poll p d deadline body l s = Some sr" for l s sr
  proof (rule poll.raw_induct [where P = "\<lambda>p' d' deadline' body' l s sr.
      p' = p \<longrightarrow> d' = d \<longrightarrow> body' = body \<longrightarrow> R s (fst sr)", OF _ that, rule_format], goal_cases)
    case (1 poll' p' d' deadline' body' l s sr)
    obtain s1 now where c: "read_clock p s = (s1, now)" by fastforce
    obtain s2 r2 where b: "body l s1 = (s2, r2)" by fastforce
    have "R s s1" using clock [of s] by (simp add: c)
    then have s2: "R s s1" "R s s2" using body [of s1 l] trans by (auto simp: b)
    have step: "R s (fst sr)" if "poll' p d deadline' body l' (sleeper p (poll_interval d) s2) = Some sr" for l'
      using 1(1) [OF that] sleeper s2(2) trans by blast
    show ?case
      using 1(2) s2 step unfolding 1(3-5) c b prod.case by (auto split: if_splits sum.splits)
  qed auto
  then show ?thesis using ret by fastforce
qed

lemma wait_until:
  assumes "\<And>l s. R s (fst (body l s))" and "wait_until p d body l s = Some (s', r)"
  shows "R s s'"
  using assms(2) poll [OF assms(1)] trans [OF clock [of s]]
  by (fastforce simp: wait_until_def split: prod.splits)

lemma rounds:
  "R s (fst (health_round p d nids l s))"
  "R s (fst (leader_round p d excluded l' s))"
  "R s (fst (catch_up_round p d target l s))"
  using unhealthy_nodes [of s d nids] collect_statuses [of s d]
  by (auto simp: health_round_def leader_round_def catch_up_round_def split: prod.splits sum.splits)

lemma waits:
  "wait_for_health p d nids s = Some (s', h) \<Longrightarrow> R s s'"
  "wait_for_stable_leader p d excluded s = Some (s', ldr) \<Longrightarrow> R s s'"
  "wait_for_catch_up p d target s = Some (s', c) \<Longrightarrow> R s s'"
  unfolding wait_for_health_def wait_for_stable_leader_def wait_for_catch_up_def
  by (erule wait_until [rotated], rule rounds)+

lemma checks:
  "R s (fst (demo_put p d ldr key val s))"
  "R s (fst (verify_read p d ldr key expected s))"
  "R s (fst (verify_node_metrics p d nid s))"
  using request_json [of s "http d" "l_node_id ldr" "''/kv/'' @ url_quote key" "''PUT''" "Some (JObj [(''value'', JStr val)])"]
    request_json [of s "http d" "l_node_id ldr" "''/kv/'' @ url_quote key" "''GET''" None]
    request_text [of s "http d" nid "''/metrics''"]
  by (auto simp: demo_put_def verify_read_def verify_node_metrics_def split: prod.splits sum.splits)

lemma verify_metrics_of: "R s (fst (verify_metrics_of p d nids s))"
proof (induction nids arbitrary: s)
  case (Cons nid nids)
  obtain s1 r where x: "verify_node_metrics p d nid s = (s1, r)" by fastforce
  have "R s s1" using checks(3) [of s d nid] by (simp add: x)
  then show ?case using Cons.IH trans by (auto simp: x split: sum.splits)
qed (simp add: refl)

lemma verify_metrics: "R s (fst (verify_metrics p d s))"
  unfolding verify_metrics_def by (rule verify_metrics_of)

lemma diagnostics: "R s (fst (demo_diagnostics p d s))"
proof -
  obtain s1 r where x: "compose_diagnostics p (compose d) s = (s1, r)" by fastforce
  have "R s s1" using compose_diagnostics [of s "compose d"] by (simp add: x)
  moreover have "R s1 (fst (collect_statuses p d s1))" by (rule collect_statuses)
  ultimately show ?thesis
    using trans [of s s1] by (auto simp: demo_diagnostics_def x split: prod.splits sum.splits)
qed

text \<open>The operations of the run, each as it stands there.\<close>

definition keeps :: "('w, 'a) demo_io \<Rightarrow> bool" where
  "keeps m = (\<forall>s s' r. m s = Some (s', r) \<longrightarrow> R s s')"

lemma keeps_lift: "(\<And>s. R s (fst (m s))) \<Longrightarrow> keeps (lift_io m)"
  by (auto simp: keeps_def lift_io_def) (metis fst_conv)

lemma keeps_bind: "keeps m \<Longrightarrow> (\<And>x. keeps (f x)) \<Longrightarrow> keeps (bind_io m f)"
  unfolding keeps_def bind_io_def by (fastforce intro: trans split: option.splits sum.splits)

lemma keeps_quiet:
  "keeps (lift_io (\<lambda>s. (s, r)))" "keeps (require b)" "keeps (unique_suffix p)"
  "keeps (lift_io (compose_verify p dc))" "keeps (lift_io (compose_up p dc build))"
  "keeps (wait_for_health p d nids)" "keeps (wait_for_stable_leader p d excluded)"
  "keeps (wait_for_catch_up p d target)"
  "keeps (lift_io (demo_put p d ldr key val))" "keeps (lift_io (verify_read p d ldr key expected))"
  "keeps (lift_io (verify_metrics p d))" "keeps (leader_commit_index p d ldr)"
proof -
  have stamp: "R s (fst (case time_and_pid p (world s) of (w, seconds, pid) \<Rightarrow>
      (s\<lparr>world := w\<rparr>, Ok (show_int seconds @ ''-'' @ show_int pid) :: string result)))" for s
    using stamps [of s] by (auto split: prod.splits)
  show "keeps (unique_suffix p)" unfolding unique_suffix_def by (rule keeps_lift [OF stamp])
  have index: "R s (fst (case request_json p (http d) (l_node_id ldr) ''/cluster/status'' ''GET'' None s of
       (s, Inl e) \<Rightarrow> (s, Err e)
     | (s, Inr status) \<Rightarrow>
         (s, case int_value (map_of status ''commit_index'') of None \<Rightarrow> Err DemoError | Some i \<Rightarrow> Ok i)))" for s
    using request_json [of s "http d" "l_node_id ldr" "''/cluster/status''" "''GET''" None]
    by (auto split: prod.splits sum.splits)
  show "keeps (leader_commit_index p d ldr)" unfolding leader_commit_index_def by (rule keeps_lift [OF index])
  show "keeps (wait_for_health p d nids)" "keeps (wait_for_stable_leader p d excluded)" "keeps (wait_for_catch_up p d target)"
    unfolding keeps_def using waits by blast+
  show "keeps (lift_io (\<lambda>s. (s, r)))" "keeps (require b)"
    unfolding require_def by (rule keeps_lift; simp add: refl)+
  show "keeps (lift_io (compose_verify p dc))" "keeps (lift_io (compose_up p dc build))"
    "keeps (lift_io (demo_put p d ldr key val))" "keeps (lift_io (verify_read p d ldr key expected))"
    "keeps (lift_io (verify_metrics p d))"
    by (rule keeps_lift, rule compose_verify compose_up checks verify_metrics)+
qed

lemma run_after_keeps: "keeps (run_after p d ldr key target)"
  unfolding run_after_def by (intro keeps_bind keeps_quiet)

end

text \<open>With the commands that stop and start a node, and the attribute, the relation holds for the run.\<close>

locale demo_run_frame = demo_frame +
  assumes runs_any: "run_process p (docker_command arguments) seconds (world s) = (w, outcome) \<Longrightarrow>
      R s (s\<lparr>world := w, io_history := io_history s @ [Ran (docker_command arguments) outcome]\<rparr>)"
    and marks: "R s (s\<lparr>stopped_node := n\<rparr>)"
begin

lemma any_command: "R s (fst (compose_command p dc arguments s))"
  using runs_any by (fastforce simp: compose_command_def compose_run_def split: prod.splits sum.splits)

lemma keeps_marking:
  "keeps (set_stopped n)" "keeps (lift_io (compose_stop p dc nid))" "keeps (lift_io (compose_start p dc nid))"
  unfolding set_stopped_def compose_stop_def compose_start_def
  by (rule keeps_lift, simp add: marks any_command)+

lemma run_before_keeps: "keeps (run_before p d build)"
  unfolding run_before_def Let_def by (intro keeps_bind keeps_quiet keeps_marking)

lemma run_without_keeps: "keeps (run_without p d ldr before after)"
  unfolding run_without_def by (intro keeps_bind keeps_quiet keeps_marking)

lemma demo_run_keeps: "keeps (demo_run p d build)"
  unfolding demo_run_def
  by (intro keeps_bind run_before_keeps) (auto intro: keeps_bind run_without_keeps run_after_keeps)

lemma demo_failed_keeps: "R s (fst (demo_failed p d s))"
proof -
  obtain s1 r where x: "demo_diagnostics p d s = (s1, r)" by fastforce
  have "R s s1" using diagnostics [of s d] by (simp add: x)
  moreover have "R s1 (fst (compose_start p (compose d) nid s1))" for nid
    unfolding compose_start_def by (rule any_command)
  ultimately show ?thesis
    using trans [of s s1] by (auto simp: demo_failed_def x split: prod.splits sum.splits option.splits) (metis fst_conv)+
qed

lemma demo_main_keeps: "demo_main p args s = Some (s', r) \<Longrightarrow> R s s'"
proof -
  assume m: "demo_main p args s = Some (s', r)"
  have k: "R s t" if "demo_run p d build (s\<lparr>stopped_node := None\<rparr>) = Some (t, x)" for d build t x
    using demo_run_keeps [of d build] that trans [OF marks] unfolding keeps_def by blast
  have f: "R s u" if "demo_run p d build (s\<lparr>stopped_node := None\<rparr>) = Some (t, x)" "demo_failed p d t = (u, y)" for d build t x u y
    using trans [OF k [OF that(1)] demo_failed_keeps [of t d]] that(2) by simp
  show ?thesis
    using m k f refl by (auto simp: demo_main_def split: sum.splits option.splits prod.splits if_splits)
qed

end

section \<open>The frame of the quiet operations\<close>

definition stop_done :: "string \<Rightarrow> io_event \<Rightarrow> bool" where
  "stop_done nid ev = (\<exists>out err. ev = Ran (docker_command [''stop'', nid]) (Completed 0 out err))"

definition start_issued :: "string \<Rightarrow> io_event \<Rightarrow> bool" where
  "start_issued nid ev = (\<exists>outcome. ev = Ran (docker_command [''start'', nid]) outcome)"

definition quiet :: "io_event \<Rightarrow> bool" where
  "quiet ev = (\<forall>nid. \<not> stop_done nid ev \<and> \<not> start_issued nid ev)"

definition quiet_step :: "'w demo_state \<Rightarrow> 'w demo_state \<Rightarrow> bool" where
  "quiet_step s s' =
     (stopped_node s' = stopped_node s \<and>
      (\<exists>events. io_history s' = io_history s @ events \<and> list_all quiet events))"

lemma quiet_Sent [simp]: "quiet (Sent request reply)"
  by (simp add: quiet_def stop_done_def start_issued_def)

lemma quiet_Ran: "hd arguments \<notin> {''stop'', ''start''} \<Longrightarrow> quiet (Ran (docker_command arguments) outcome)"
  by (auto simp: quiet_def stop_done_def start_issued_def docker_command_def)

interpretation silent: demo_frame p quiet_step for p :: "'w platform"
proof
  fix s t u :: "'w demo_state"
  assume "quiet_step s t" "quiet_step t u"
  then obtain ev ev' where "io_history u = io_history s @ (ev @ ev')" "list_all quiet (ev @ ev')"
      "stopped_node u = stopped_node s"
    by (auto simp: quiet_step_def)
  then show "quiet_step s u" unfolding quiet_step_def by blast
qed (auto simp: quiet_step_def quiet_Ran)

section \<open>Time\<close>

text \<open>
  \<open>now\<close> is the value of the clock in a world. Nothing turns it back, a reading is its value, and
  a sleep takes as long as it was asked to.
\<close>

definition steady :: "'w platform \<Rightarrow> ('w \<Rightarrow> real) \<Rightarrow> bool" where
  "steady p now =
     ((\<forall>arguments seconds w. now w \<le> now (fst (run_process p arguments seconds w))) \<and>
      (\<forall>request seconds w. now w \<le> now (fst (urlopen p request seconds w))) \<and>
      (\<forall>w. now w \<le> now (fst (time_and_pid p w))) \<and>
      (\<forall>w. now w \<le> now (fst (monotonic p w)) \<and> snd (monotonic p w) = now (fst (monotonic p w))) \<and>
      (\<forall>seconds w. now w + max 0 seconds \<le> now (sleep p seconds w)))"

lemma steadyD:
  assumes "steady p now"
  shows "now w \<le> now (fst (run_process p arguments seconds w))"
    "now w \<le> now (fst (urlopen p request seconds w))" "now w \<le> now (fst (time_and_pid p w))"
    "now w \<le> now (fst (monotonic p w))" "snd (monotonic p w) = now (fst (monotonic p w))"
    "now w + max 0 seconds \<le> now (sleep p seconds w)"
  using assms by (simp_all add: steady_def)

definition later :: "'w platform \<Rightarrow> ('w \<Rightarrow> real) \<Rightarrow> 'w demo_state \<Rightarrow> 'w demo_state \<Rightarrow> bool" where
  "later p now s s' = (steady p now \<longrightarrow> now (world s) \<le> now (world s'))"

interpretation passing: demo_run_frame p "later p now" for p :: "'w platform" and now
proof
  fix s :: "'w demo_state" and w seconds
  show "later p now s (s\<lparr>world := sleep p seconds (world s)\<rparr>)"
    using steadyD(6) [of p now "world s" seconds] by (auto simp: later_def)
  show "run_process p (docker_command arguments) seconds (world s) = (w, outcome) \<Longrightarrow>
      later p now s (s\<lparr>world := w, io_history := io_history s @ [Ran (docker_command arguments) outcome]\<rparr>)"
    for arguments outcome
    using steadyD(1) [of p now "world s" "docker_command arguments" seconds] by (auto simp: later_def)
  then show "run_process p (docker_command arguments) seconds (world s) = (w, outcome) \<Longrightarrow>
      later p now s (s\<lparr>world := w, io_history := io_history s @ [Ran (docker_command arguments) outcome]\<rparr>)"
    for arguments outcome .
  show "urlopen p request seconds (world s) = (w, reply) \<Longrightarrow>
      later p now s (s\<lparr>world := w, io_history := io_history s @ [Sent request reply]\<rparr>)" for request reply
    using steadyD(2) [of p now "world s" request seconds] by (auto simp: later_def)
  show "monotonic p (world s) = (w, t) \<Longrightarrow> later p now s (s\<lparr>world := w\<rparr>)" for t
    using steadyD(4) [of p now "world s"] by (auto simp: later_def)
  show "time_and_pid p (world s) = (w, stamp) \<Longrightarrow> later p now s (s\<lparr>world := w\<rparr>)" for stamp
    using steadyD(3) [of p now "world s"] by (auto simp: later_def)
qed (auto simp: later_def)

section \<open>Each wait ends\<close>

lemma poll_ends:
  assumes steady: "steady p now" and interval: "0 < poll_interval d"
    and body: "\<And>l s. later p now s (fst (body l s))"
  shows "deadline - now (world s) \<le> of_nat k * poll_interval d \<Longrightarrow>
    \<exists>s' r. poll p d deadline body l s = Some (s', r)"
proof (induction k arbitrary: l s)
  case 0
  obtain s1 t where c: "read_clock p s = (s1, t)" by fastforce
  have "now (world s) \<le> t"
    using steadyD(4,5) [OF steady, of "world s"] c by (auto simp: read_clock_def split: prod.splits)
  then have "\<not> t < deadline" using 0 by simp
  then show ?case by (subst poll.simps) (simp add: c)
next
  case (Suc k)
  obtain s1 t where c: "read_clock p s = (s1, t)" by fastforce
  obtain s2 r where b: "body l s1 = (s2, r)" by fastforce
  have "later p now s s1" using passing.clock [of p now s] by (simp add: c)
  moreover have "later p now s1 s2" using body [of s1 l] by (simp add: b)
  ultimately have "now (world s) \<le> now (world s2)" using steady by (simp add: later_def)
  moreover have "now (world s2) + poll_interval d \<le> now (world (sleeper p (poll_interval d) s2))"
    using steadyD(6) [OF steady, of "world s2" "poll_interval d"] interval by (simp add: sleeper_def)
  ultimately have "deadline - now (world (sleeper p (poll_interval d) s2)) \<le> of_nat k * poll_interval d"
    using Suc.prems by (simp add: algebra_simps)
  then show ?case using Suc.IH by (subst poll.simps) (auto simp: c b split: sum.splits)
qed

lemma wait_until_ends:
  assumes "steady p now" "0 < poll_interval d" "\<And>l s. later p now s (fst (body l s))"
  shows "\<exists>s' r. wait_until p d body l s = Some (s', r)"
proof -
  obtain s1 t where c: "read_clock p s = (s1, t)" by fastforce
  obtain k :: nat where "(t + wait_timeout d - now (world s1)) / poll_interval d \<le> of_nat k"
    using real_arch_simple by blast
  then have "t + wait_timeout d - now (world s1) \<le> of_nat k * poll_interval d"
    using assms(2) by (simp add: divide_le_eq)
  then show ?thesis using poll_ends [OF assms] by (simp add: wait_until_def c)
qed

definition ends :: "('w, 'a) demo_io \<Rightarrow> bool" where
  "ends m = (\<forall>s. \<exists>s' r. m s = Some (s', r))"

lemma ends_lift: "ends (lift_io m)" "ends (require b)" "ends (set_stopped n)" "ends (unique_suffix p)"
    "ends (leader_commit_index p d ldr)"
  by (simp_all add: ends_def lift_io_def require_def set_stopped_def unique_suffix_def leader_commit_index_def)

lemma ends_bind: "ends m \<Longrightarrow> (\<And>x. ends (f x)) \<Longrightarrow> ends (bind_io m f)"
  unfolding ends_def bind_io_def by (fastforce split: option.splits sum.splits)

lemma ends_waits:
  assumes "steady p now" "0 < poll_interval d"
  shows "ends (wait_for_health p d nids)" "ends (wait_for_stable_leader p d excluded)"
    "ends (wait_for_catch_up p d target)"
  unfolding ends_def wait_for_health_def wait_for_stable_leader_def wait_for_catch_up_def
  by (intro allI wait_until_ends [OF assms], rule passing.rounds)+

lemma demo_run_ends:
  assumes "steady p now" "0 < poll_interval d"
  shows "ends (demo_run p d build)"
proof -
  note W = ends_waits [OF assms]
  have "ends (run_before p d build)"
    unfolding run_before_def Let_def by (intro ends_bind ends_lift W)
  moreover have "ends (run_without p d ldr before after)" for ldr before after
    unfolding run_without_def by (intro ends_bind ends_lift W)
  moreover have "ends (run_after p d ldr after target)" for ldr after target
    unfolding run_after_def by (intro ends_bind ends_lift W)
  ultimately show ?thesis
    unfolding demo_run_def by (auto intro!: ends_bind)
qed

lemma demo_main_ends:
  assumes "steady p now"
  shows "\<exists>s' r. demo_main p args s = Some (s', r)"
proof (cases "failover_demo_init \<lparr>command_timeout = 300\<rparr> \<lparr>request_timeout = 2\<rparr> (arg_timeout args)
      (arg_poll_interval args) (arg_stable_samples args)")
  case (Inr d)
  then have "0 < poll_interval d" by (auto simp: failover_demo_init_def split: if_splits)
  then obtain s1 r where "demo_run p d (\<not> no_build args) (s\<lparr>stopped_node := None\<rparr>) = Some (s1, r)"
    using demo_run_ends [OF assms, of d] unfolding ends_def by blast
  then show ?thesis
    using Inr by (cases r) (auto simp: demo_main_def docker_compose_init_def intro: prod.exhaust)
qed (simp add: demo_main_def docker_compose_init_def)

end
