(* ===== verification/DemoResults.thy ===== *)
theory DemoResults
  imports DemoProofs
begin

text \<open>
  The results on the demonstration: the samples behind a stable leader, the requests and commands
  behind a run that passes, and the node that is started again. \<open>emits\<close> and \<open>triple\<close> are the two
  logics used, one rule for each operation of the run.
\<close>

section \<open>A stable leader\<close>

text \<open>The samples a wait has taken: between two of them the loop sleeps.\<close>

inductive sampled ::
  "'w platform \<Rightarrow> failover_demo \<Rightarrow> 'w demo_state \<Rightarrow> statuses list \<Rightarrow> 'w demo_state \<Rightarrow> bool"
  for p d where
  first: "read_clock p s = (s1, now) \<Longrightarrow> collect_statuses p d s1 = (s2, Ok sts) \<Longrightarrow> sampled p d s [sts] s2"
| more: "sampled p d s samples s' \<Longrightarrow> read_clock p (sleeper p (poll_interval d) s') = (s1, now) \<Longrightarrow>
    collect_statuses p d s1 = (s2, Ok sts) \<Longrightarrow> sampled p d s (samples @ [sts]) s2"

text \<open>The last samples of a list that all select one leader.\<close>

definition streak :: "string option \<Rightarrow> demo_leader \<Rightarrow> nat \<Rightarrow> statuses list \<Rightarrow> bool" where
  "streak excluded ldr n samples =
     (n \<le> length samples \<and>
      (\<forall>sts \<in> set (drop (length samples - n) samples). select_leader sts excluded = Some ldr))"

lemma streak_snoc:
  "select_leader sts excluded = Some ldr \<Longrightarrow> streak excluded ldr n samples \<Longrightarrow>
    streak excluded ldr (Suc n) (samples @ [sts])"
  by (auto simp: streak_def Suc_diff_le)

lemma streak_one: "select_leader sts excluded = Some ldr \<Longrightarrow> streak excluded ldr 1 (samples @ [sts])"
  by (simp add: streak_def)

text \<open>The loop of the wait for a leader, its variables being those of the samples taken so far.\<close>

definition leader_vars :: "string option \<Rightarrow> demo_leader option \<times> int \<Rightarrow> statuses list \<Rightarrow> bool" where
  "leader_vars excluded l samples =
     (case l of (None, n) \<Rightarrow> n = 0 | (Some ldr, n) \<Rightarrow> 0 \<le> n \<and> streak excluded ldr (nat n) samples)"

definition leader_wait ::
  "'w platform \<Rightarrow> failover_demo \<Rightarrow> string option \<Rightarrow> 'w demo_state \<Rightarrow> demo_leader option \<times> int \<Rightarrow>
   'w demo_state \<Rightarrow> statuses list \<Rightarrow> bool" where
  "leader_wait p d excluded s0 l s samples =
     (leader_vars excluded l samples \<and>
      (samples = [] \<and> s = s0 \<or> (\<exists>s'. sampled p d s0 samples s' \<and> s = sleeper p (poll_interval d) s')))"

lemma leader_round_step:
  assumes round: "leader_round p d excluded l s = (s', Ok out)" and vars: "leader_vars excluded l samples"
    and pos: "0 < stable_samples d"
  obtains sts where "collect_statuses p d s = (s', Ok sts)"
    "\<And>l'. out = Inr l' \<Longrightarrow> leader_vars excluded l' (samples @ [sts])"
    "\<And>ldr. out = Inl ldr \<Longrightarrow> streak excluded ldr (nat (stable_samples d)) (samples @ [sts])"
proof -
  obtain previous n where l: "l = (previous, n)" by fastforce
  obtain sts where c: "collect_statuses p d s = (s', Ok sts)"
      and out: "out = (case select_leader sts excluded of
                      None \<Rightarrow> Inr (None, 0)
                    | Some candidate \<Rightarrow>
                        (let consecutive = (if Some candidate = previous then n + 1 else 1)
                         in if consecutive \<ge> stable_samples d then Inl candidate
                            else Inr (Some candidate, consecutive)))"
    using round by (auto simp: leader_round_def l split: prod.splits sum.splits)
  show ?thesis
  proof (cases "select_leader sts excluded")
    case None
    then show ?thesis using that [OF c] out by (simp add: leader_vars_def)
  next
    case (Some ldr)
    define k where "k = (if Some ldr = previous then n + 1 else 1)"
    have o: "out = (if k \<ge> stable_samples d then Inl ldr else Inr (Some ldr, k))"
      using out by (simp add: Some k_def Let_def)
    have k: "1 \<le> k" "streak excluded ldr (nat k) (samples @ [sts])"
    proof (atomize (full), cases "Some ldr = previous")
      case True
      then have "0 \<le> n" "streak excluded ldr (nat n) samples" using vars by (auto simp: leader_vars_def l)
      then show "1 \<le> k \<and> streak excluded ldr (nat k) (samples @ [sts])"
        using streak_snoc [OF Some] True by (simp add: k_def nat_add_distrib)
    qed (use streak_one [OF Some] in \<open>simp add: k_def\<close>)
    have fewer: "streak excluded ldr (nat m) (samples @ [sts])" if "m \<le> k" for m
    proof -
      have "set (drop (length (samples @ [sts]) - nat m) (samples @ [sts])) \<subseteq>
          set (drop (length (samples @ [sts]) - nat k) (samples @ [sts]))"
        using that by (intro set_drop_subset_set_drop) linarith
      moreover have "nat m \<le> nat k" using that by simp
      ultimately show ?thesis using k(2) by (auto simp: streak_def)
    qed
    show ?thesis
      using that [OF c] o k fewer by (auto simp: leader_vars_def split: if_splits)
  qed
qed

lemma leader_wait_step:
  assumes wait: "leader_wait p d excluded s0 l s samples" and pos: "0 < stable_samples d"
    and c: "read_clock p s = (s1, now)" and round: "leader_round p d excluded l s1 = (s2, Ok out)"
  obtains sts where "sampled p d s0 (samples @ [sts]) s2"
    "\<And>l'. out = Inr l' \<Longrightarrow> leader_wait p d excluded s0 l' (sleeper p (poll_interval d) s2) (samples @ [sts])"
    "\<And>ldr. out = Inl ldr \<Longrightarrow> streak excluded ldr (nat (stable_samples d)) (samples @ [sts])"
proof -
  have vars: "leader_vars excluded l samples" using wait by (simp add: leader_wait_def)
  obtain sts where sts: "collect_statuses p d s1 = (s2, Ok sts)"
      "\<And>l'. out = Inr l' \<Longrightarrow> leader_vars excluded l' (samples @ [sts])"
      "\<And>ldr. out = Inl ldr \<Longrightarrow> streak excluded ldr (nat (stable_samples d)) (samples @ [sts])"
    using leader_round_step [OF round vars pos] by blast
  have "sampled p d s0 (samples @ [sts]) s2"
    using wait c sts(1) sampled.first [of p s0 s1 now d s2 sts] sampled.more [of p d s0 samples _ s1 now s2 sts]
    by (auto simp: leader_wait_def)
  then show ?thesis using that [of sts] sts(2,3) unfolding leader_wait_def by blast
qed

lemma poll_leader:
  assumes pos: "0 < stable_samples d"
    and ret: "poll p d deadline (leader_round p d excluded) l s = Some (s', Ok ldr)"
    and wait: "leader_wait p d excluded s0 l s samples"
  shows "\<exists>samples. sampled p d s0 samples s' \<and> streak excluded ldr (nat (stable_samples d)) samples"
proof -
  have "\<exists>samples. sampled p d s0 samples (fst sr) \<and> streak excluded ldr (nat (stable_samples d)) samples"
    if "poll p d deadline (leader_round p d excluded) l s = Some sr" "snd sr = Ok ldr"
      "leader_wait p d excluded s0 l s samples" for l s sr samples
  proof (rule poll.raw_induct [where P = "\<lambda>p' d' deadline' body l s sr.
      \<forall>samples. p' = p \<longrightarrow> d' = d \<longrightarrow> body = leader_round p d excluded \<longrightarrow> snd sr = Ok ldr \<longrightarrow>
        leader_wait p d excluded s0 l s samples \<longrightarrow>
        (\<exists>samples. sampled p d s0 samples (fst sr) \<and> streak excluded ldr (nat (stable_samples d)) samples)",
      OF _ that(1), rule_format], goal_cases)
    case (1 poll' p' d' deadline' body l s sr samples)
    obtain s1 now where c: "read_clock p s = (s1, now)" by fastforce
    obtain s2 r where b: "leader_round p d excluded l s1 = (s2, r)" by fastforce
    have lt: "now < deadline'" using 1(2,6) unfolding 1(3-5) c prod.case by (auto split: if_splits)
    obtain out where r: "r = Ok out"
      using 1(2,6) lt unfolding 1(3-5) c b prod.case by (cases r) auto
    obtain sts where sts: "sampled p d s0 (samples @ [sts]) s2"
        "\<And>l'. out = Inr l' \<Longrightarrow> leader_wait p d excluded s0 l' (sleeper p (poll_interval d) s2) (samples @ [sts])"
        "\<And>ldr. out = Inl ldr \<Longrightarrow> streak excluded ldr (nat (stable_samples d)) (samples @ [sts])"
      using leader_wait_step [OF 1(7) pos c b [unfolded r]] by blast
    show ?case
    proof (cases out)
      case (Inl x)
      then have "sr = (s2, Ok x)" using 1(2) lt unfolding 1(3-5) c b r prod.case by simp
      then show ?thesis using sts(1) sts(3) [OF Inl] 1(6) by auto
    next
      case (Inr l')
      then have "poll' p d deadline' (leader_round p d excluded) l' (sleeper p (poll_interval d) s2) = Some sr"
        using 1(2) lt unfolding 1(3-5) c b r prod.case by simp
      then show ?thesis using 1(1) 1(6) sts(2) [OF Inr] by blast
    qed
  qed (use that(2,3) in auto)
  then show ?thesis using ret wait by fastforce
qed

lemma stable_leader_samples:
  assumes "wait_for_stable_leader p d excluded s = Some (s', Ok ldr)" and pos: "0 < stable_samples d"
  shows "\<exists>samples. sampled p d (fst (read_clock p s)) samples s' \<and>
    streak excluded ldr (nat (stable_samples d)) samples"
proof -
  obtain s1 t where c: "read_clock p s = (s1, t)" by fastforce
  have "poll p d (t + wait_timeout d) (leader_round p d excluded) (None, 0) s1 = Some (s', Ok ldr)"
    using assms(1) by (simp add: wait_for_stable_leader_def wait_until_def c)
  from poll_leader [OF pos this, of s1 "[]"] show ?thesis
    by (simp add: c leader_wait_def leader_vars_def)
qed

text \<open>What it means that a leader was selected.\<close>

lemma leaders_of_mem:
  "ldr \<in> set (leaders_of excluded sts) \<longleftrightarrow>
    (\<exists>status. (l_node_id ldr, status) \<in> set sts \<and> Some (l_node_id ldr) \<noteq> excluded \<and>
       map_of status ''role'' = Some (JStr ''leader'') \<and>
       int_value (map_of status ''current_term'') = Some (l_term ldr))"
  by (induction excluded sts rule: leaders_of.induct) (auto split: option.splits)

lemma select_leader_Some:
  assumes "select_leader sts excluded = Some ldr"
  shows "ldr \<in> set (leaders_of excluded sts)" "\<And>l. l \<in> set (leaders_of excluded sts) \<Longrightarrow> l = ldr"
  using assms by (auto simp: select_leader_def split: list.splits)

lemma streak_excluded:
  assumes "streak excluded ldr n samples" "0 < n"
  shows "Some (l_node_id ldr) \<noteq> excluded"
proof -
  have "drop (length samples - n) samples \<noteq> []" using assms by (auto simp: streak_def)
  then obtain sts where "sts \<in> set (drop (length samples - n) samples)" by (metis list.set_sel(1))
  then have "select_leader sts excluded = Some ldr" using assms(1) by (simp add: streak_def)
  then show ?thesis using select_leader_Some(1) leaders_of_mem by metis
qed

section \<open>The events behind a result\<close>

text \<open>
  \<open>observes m S\<close>: when \<open>m\<close> returns \<open>x\<close>, some of the events it appended to the history are, in this
  order, a list that \<open>S x\<close> describes.
\<close>

definition observes :: "('w, 'a) demo_io \<Rightarrow> ('a \<Rightarrow> io_event list \<Rightarrow> bool) \<Rightarrow> bool" where
  "observes m S =
     (\<forall>s s' x. m s = Some (s', Ok x) \<longrightarrow>
        (\<exists>events es. io_history s' = io_history s @ events \<and> subseq es events \<and> S x es))"

lemma observesD:
  assumes "observes m S" "m s = Some (s', Ok x)"
  obtains events es where "io_history s' = io_history s @ events" "subseq es events" "S x es"
  using assms unfolding observes_def by blast

lemma observes_bind:
  assumes m: "observes m S" and f: "\<And>x. observes (f x) (T x)"
  shows "observes (bind_io m f) (\<lambda>y es. \<exists>x es1 es2. es = es1 @ es2 \<and> S x es1 \<and> T x y es2)"
  unfolding observes_def
proof (intro allI impI)
  fix s s' y
  assume "bind_io m f s = Some (s', Ok y)"
  then obtain s1 x where x: "m s = Some (s1, Ok x)" "f x s1 = Some (s', Ok y)"
    by (auto simp: bind_io_def split: option.splits sum.splits)
  obtain ev1 es1 where 1: "io_history s1 = io_history s @ ev1" "subseq es1 ev1" "S x es1"
    by (rule observesD [OF m x(1)])
  obtain ev2 es2 where 2: "io_history s' = io_history s1 @ ev2" "subseq es2 ev2" "T x y es2"
    by (rule observesD [OF f x(2)])
  have "io_history s' = io_history s @ (ev1 @ ev2)" "subseq (es1 @ es2) (ev1 @ ev2)"
    using 1 2 by (simp_all add: list_emb_append_mono)
  then show "\<exists>events es. io_history s' = io_history s @ events \<and> subseq es events \<and>
      (\<exists>x es1 es2. es = es1 @ es2 \<and> S x es1 \<and> T x y es2)"
    using 1(3) 2(3) by blast
qed

lemma observes_quiet: "silent.keeps m \<Longrightarrow> (\<And>s s' x. m s = Some (s', Ok x) \<Longrightarrow> P x) \<Longrightarrow> observes m (\<lambda>x es. es = [] \<and> P x)"
  unfolding silent.keeps_def observes_def quiet_step_def by (metis list_emb_Nil)

lemma observes_one:
  assumes "\<And>s s' x. m s = (s', Ok x) \<Longrightarrow> \<exists>e. io_history s' = io_history s @ [e] \<and> S x e"
  shows "observes (lift_io m) (\<lambda>x es. \<exists>e. es = [e] \<and> S x e)"
  unfolding observes_def lift_io_def using assms by fastforce

text \<open>The events of the run.\<close>

definition answered :: "string \<Rightarrow> string \<Rightarrow> string \<Rightarrow> json option \<Rightarrow> (string, json) dict \<Rightarrow> io_event \<Rightarrow> bool" where
  "answered nid path meth payload response ev =
     (\<exists>endpoint outcome. map_of NODE_BY_ID nid = Some endpoint \<and>
        ev = Sent (make_request endpoint path meth payload) outcome \<and> json_reply outcome = Ok response)"

definition wrote :: "demo_leader \<Rightarrow> string \<Rightarrow> string \<Rightarrow> io_event \<Rightarrow> bool" where
  "wrote ldr key val ev =
     (\<exists>response. answered (l_node_id ldr) (''/kv/'' @ url_quote key) ''PUT'' (Some (JObj [(''value'', JStr val)])) response ev \<and>
        map_of response ''committed'' = Some (JBool True) \<and>
        map_of response ''leader_id'' = Some (JStr (l_node_id ldr)))"

definition has_read :: "demo_leader \<Rightarrow> string \<Rightarrow> string \<Rightarrow> io_event \<Rightarrow> bool" where
  "has_read ldr key val ev =
     (\<exists>response. answered (l_node_id ldr) (''/kv/'' @ url_quote key) ''GET'' None response ev \<and>
        map_of response ''value'' = Some (JStr val))"

definition told_index :: "demo_leader \<Rightarrow> int \<Rightarrow> io_event \<Rightarrow> bool" where
  "told_index ldr target ev =
     (\<exists>response. answered (l_node_id ldr) ''/cluster/status'' ''GET'' None response ev \<and>
        int_value (map_of response ''commit_index'') = Some target)"

definition reached :: "int \<Rightarrow> string \<Rightarrow> io_event \<Rightarrow> bool" where
  "reached target nid ev =
     (\<exists>response. answered nid ''/cluster/status'' ''GET'' None response ev \<and> \<not> lags target response)"

definition started :: "string \<Rightarrow> io_event \<Rightarrow> bool" where
  "started nid ev = (\<exists>out err. ev = Ran (docker_command [''start'', nid]) (Completed 0 out err))"

lemma request_json_answered:
  assumes "request_json p h nid path meth payload s = (s', Ok response)"
  shows "\<exists>e. io_history s' = io_history s @ [e] \<and> answered nid path meth payload response e"
  using assms
  by (auto simp: request_json_def send_request_def answered_def split: sum.splits prod.splits)

lemma observes_put: "observes (lift_io (demo_put p d ldr key val)) (\<lambda>_ es. \<exists>e. es = [e] \<and> wrote ldr key val e)"
  by (rule observes_one)
    (auto simp: demo_put_def wrote_def split: prod.splits sum.splits if_splits dest!: request_json_answered)

lemma observes_read: "observes (lift_io (verify_read p d ldr key val)) (\<lambda>_ es. \<exists>e. es = [e] \<and> has_read ldr key val e)"
  by (rule observes_one)
    (auto simp: verify_read_def has_read_def split: prod.splits sum.splits if_splits dest!: request_json_answered)

lemma observes_index: "observes (leader_commit_index p d ldr) (\<lambda>target es. \<exists>e. es = [e] \<and> told_index ldr target e)"
  unfolding leader_commit_index_def
  by (rule observes_one)
    (auto simp: told_index_def split: prod.splits sum.splits option.splits dest!: request_json_answered)

lemma compose_command_Ok:
  assumes "compose_command p dc arguments s = (s', Ok ())"
  shows "\<exists>out err. io_history s' = io_history s @ [Ran (docker_command arguments) (Completed 0 out err)]"
    "stopped_node s' = stopped_node s"
  using assms
  by (auto simp: compose_command_def compose_run_def split: prod.splits sum.splits process_outcome.splits if_splits)

lemma observes_commands:
  "observes (lift_io (compose_stop p dc nid)) (\<lambda>_ es. \<exists>e. es = [e] \<and> stop_done nid e)"
  "observes (lift_io (compose_start p dc nid)) (\<lambda>_ es. \<exists>e. es = [e] \<and> started nid e)"
  by (rule observes_one; force simp: compose_stop_def compose_start_def stop_done_def started_def dest!: compose_command_Ok(1))+

lemma observes_marks: "observes (set_stopped n) (\<lambda>_ es. es = [])" "observes (lift_io (\<lambda>s. (s, r))) (\<lambda>x es. es = [] \<and> r = Ok x)"
    "observes (require b) (\<lambda>_ es. es = [] \<and> b)"
  by (auto simp: observes_def set_stopped_def lift_io_def require_def split: if_splits)

lemma observes_leader:
  assumes "0 < stable_samples d"
  shows "observes (wait_for_stable_leader p d excluded) (\<lambda>ldr es. es = [] \<and> Some (l_node_id ldr) \<noteq> excluded)"
proof (rule observes_quiet)
  show "Some (l_node_id ldr) \<noteq> excluded" if "wait_for_stable_leader p d excluded s = Some (s', Ok ldr)" for s s' ldr
    using stable_leader_samples [OF that assms] streak_excluded assms by force
qed (rule silent.keeps_quiet)

lemma observes_nothing:
  "observes (lift_io (compose_verify p dc)) (\<lambda>_ es. es = [])" "observes (lift_io (compose_up p dc build)) (\<lambda>_ es. es = [])"
  "observes (unique_suffix p) (\<lambda>_ es. es = [])" "observes (wait_for_health p d nids) (\<lambda>_ es. es = [])"
  "observes (lift_io (verify_metrics p d)) (\<lambda>_ es. es = [])"
  using observes_quiet [OF silent.keeps_quiet(4), where P = "\<lambda>_. True"] observes_quiet [OF silent.keeps_quiet(5), where P = "\<lambda>_. True"]
    observes_quiet [OF silent.keeps_quiet(3), where P = "\<lambda>_. True"] observes_quiet [OF silent.keeps_quiet(6), where P = "\<lambda>_. True"]
    observes_quiet [OF silent.keeps_quiet(11), where P = "\<lambda>_. True"]
  by simp_all

text \<open>A wait that returned did so in a round that began in some later state.\<close>

lemma poll_last:
  assumes ret: "poll p d deadline body l s = Some (s', Ok x)"
    and body: "\<And>l s. quiet_step s (fst (body l s))"
  shows "\<exists>l1 s1. quiet_step s s1 \<and> body l1 s1 = (s', Ok (Inl x))"
proof -
  have "\<exists>l1 s1. quiet_step s s1 \<and> body l1 s1 = (fst sr, Ok (Inl x))"
    if "poll p d deadline body l s = Some sr" "snd sr = Ok x" for l s sr
  proof (rule poll.raw_induct [where P = "\<lambda>p' d' deadline' body' l s sr.
      p' = p \<longrightarrow> d' = d \<longrightarrow> body' = body \<longrightarrow> snd sr = Ok x \<longrightarrow>
        (\<exists>l1 s1. quiet_step s s1 \<and> body l1 s1 = (fst sr, Ok (Inl x)))", OF _ that(1), rule_format], goal_cases)
    case (1 poll' p' d' deadline' body' l s sr)
    obtain s1 now where c: "read_clock p s = (s1, now)" by fastforce
    obtain s2 r where b: "body l s1 = (s2, r)" by fastforce
    have q: "quiet_step s s1" "quiet_step s1 s2"
      using silent.clock [of s p] body [of s1 l] by (simp_all add: c b)
    have lt: "now < deadline'" using 1(2,6) unfolding 1(3-5) c prod.case by (auto split: if_splits)
    obtain out where r: "r = Ok out"
      using 1(2,6) lt unfolding 1(3-5) c b prod.case by (cases r) auto
    show ?case
    proof (cases out)
      case (Inl y)
      then have "sr = (s2, Ok y)" using 1(2) lt unfolding 1(3-5) c b r prod.case by simp
      then show ?thesis using 1(6) b r Inl q(1) by auto
    next
      case (Inr l')
      then have p: "poll' p d deadline' body l' (sleeper p (poll_interval d) s2) = Some sr"
        using 1(2) lt unfolding 1(3-5) c b r prod.case by simp
      obtain l1 t where t: "quiet_step (sleeper p (poll_interval d) s2) t" "body l1 t = (fst sr, Ok (Inl x))"
        using 1(1) [OF p] 1(6) by auto
      have "quiet_step s (sleeper p (poll_interval d) s2)"
        using silent.trans [OF silent.trans [OF q]] silent.sleeper by blast
      then show ?thesis using silent.trans t by blast
    qed
  qed (use that(2) in auto)
  then show ?thesis using ret by fastforce
qed

text \<open>The statuses collected are the answers of this round.\<close>

lemma collect_from_answers:
  "collect_from p d nids sts s = (s', Ok sts') \<Longrightarrow> distinct nids \<Longrightarrow>
    \<exists>events. io_history s' = io_history s @ events \<and> (\<forall>nid. nid \<notin> set nids \<longrightarrow> map_of sts' nid = map_of sts nid) \<and>
      list_all2 (\<lambda>nid ev. map_of sts' nid = map_of sts nid \<or>
        (\<exists>response. map_of sts' nid = Some response \<and> answered nid ''/cluster/status'' ''GET'' None response ev)) nids events"
proof (induction nids arbitrary: sts s)
  case (Cons nid nids)
  let ?ask = "request_json p (http d) nid ''/cluster/status'' ''GET'' None s"
  obtain s1 r where x: "?ask = (s1, r)" by fastforce
  show ?case
  proof (cases r)
    case (Inl e)
    have one: "\<exists>ev. io_history s1 = io_history s @ [ev] \<or> io_history s1 = io_history s"
      using x by (auto simp: request_json_def send_request_def split: sum.splits prod.splits)
    have known: "dict_item NODE_BY_ID nid = Err k \<Longrightarrow> k = KeyError" for k by simp
    have "e = DemoError" "collect_from p d nids sts s1 = (s', Ok sts')"
      using Cons.prems(1) by (simp_all add: x Inl split: if_splits)
    moreover from this(1) have "io_history s1 \<noteq> io_history s"
      using x Inl known by (auto simp: request_json_def send_request_def split: sum.splits prod.splits)
    ultimately obtain ev events where ev: "io_history s1 = io_history s @ [ev]" "io_history s' = io_history s1 @ events"
        "\<forall>n. n \<notin> set nids \<longrightarrow> map_of sts' n = map_of sts n"
        "list_all2 (\<lambda>nid ev. map_of sts' nid = map_of sts nid \<or>
          (\<exists>response. map_of sts' nid = Some response \<and> answered nid ''/cluster/status'' ''GET'' None response ev)) nids events"
      using Cons.IH [of sts s1] Cons.prems(2) one by auto
    moreover have "map_of sts' nid = map_of sts nid" using ev(3) Cons.prems(2) by simp
    ultimately show ?thesis by (intro exI [of _ "ev # events"]) auto
  next
    case (Inr response)
    obtain ev where e: "io_history s1 = io_history s @ [ev]" "answered nid ''/cluster/status'' ''GET'' None response ev"
      using request_json_answered [of p "http d" nid "''/cluster/status''" "''GET''" None s s1 response] x Inr by auto
    have "collect_from p d nids (AList.update nid response sts) s1 = (s', Ok sts')"
      using Cons.prems(1) by (simp add: x Inr)
    from Cons.IH [OF this] Cons.prems(2) obtain events where ev: "io_history s' = io_history s1 @ events"
        "\<forall>n. n \<notin> set nids \<longrightarrow> map_of sts' n = ((map_of sts)(nid \<mapsto> response)) n"
        "list_all2 (\<lambda>n ev. map_of sts' n = ((map_of sts)(nid \<mapsto> response)) n \<or>
          (\<exists>response. map_of sts' n = Some response \<and> answered n ''/cluster/status'' ''GET'' None response ev)) nids events"
      by auto
    have "list_all2 (\<lambda>n ev. map_of sts' n = map_of sts n \<or>
          (\<exists>response. map_of sts' n = Some response \<and> answered n ''/cluster/status'' ''GET'' None response ev)) nids events"
      by (rule list.rel_mono_strong [OF ev(3)]) (use Cons.prems(2) in auto)
    then show ?thesis
      using e ev(1,2) Cons.prems(2) by (intro exI [of _ "ev # events"]) (auto split: if_splits)
  qed
qed simp

lemma catch_up_round_reached:
  assumes "catch_up_round p d target l s = (s', Ok (Inl ()))"
  shows "\<exists>events. io_history s' = io_history s @ events \<and> list_all2 (reached target) NODE_IDS events"
proof -
  obtain sts where c: "collect_from p d NODE_IDS [] s = (s', Ok sts)" and l: "lagging_nodes sts target = []"
    using assms by (auto simp: catch_up_round_def collect_statuses_def split: prod.splits sum.splits if_splits)
  have "distinct NODE_IDS" by (simp add: NODE_IDS_def NODES_def)
  from collect_from_answers [OF c this] obtain events where ev: "io_history s' = io_history s @ events"
      "list_all2 (\<lambda>nid ev. map_of sts nid = None \<or>
        (\<exists>response. map_of sts nid = Some response \<and> answered nid ''/cluster/status'' ''GET'' None response ev)) NODE_IDS events"
    by auto
  have "list_all2 (reached target) NODE_IDS events"
    by (rule list.rel_mono_strong [OF ev(2)])
      (use l in \<open>auto simp: reached_def lagging_nodes_def filter_empty_conv split: option.splits\<close>)
  then show ?thesis using ev(1) by blast
qed

lemma observes_catch_up:
  fixes p :: "'w platform"
  shows "observes (wait_for_catch_up p d target) (\<lambda>_ es. list_all2 (reached target) NODE_IDS es)"
  unfolding observes_def
proof (intro allI impI)
  fix s s' :: "'w demo_state" and x
  assume "wait_for_catch_up p d target s = Some (s', Ok x)"
  moreover obtain s1 t where c: "read_clock p s = (s1, t)" by fastforce
  ultimately have "poll p d (t + wait_timeout d) (catch_up_round p d target) () s1 = Some (s', Ok ())"
    by (simp add: wait_for_catch_up_def wait_until_def)
  from poll_last [OF this silent.rounds(3)] obtain l2 s2 where
    s2: "quiet_step s1 s2" "catch_up_round p d target l2 s2 = (s', Ok (Inl ()))" by auto
  have "quiet_step s s2" using silent.clock [of s p] s2(1) silent.trans by (simp add: c) blast
  then obtain ev1 where "io_history s2 = io_history s @ ev1" by (auto simp: quiet_step_def)
  moreover obtain ev2 where "io_history s' = io_history s2 @ ev2" "list_all2 (reached target) NODE_IDS ev2"
    using catch_up_round_reached [OF s2(2)] by blast
  ultimately show "\<exists>events es. io_history s' = io_history s @ events \<and> subseq es events \<and> list_all2 (reached target) NODE_IDS es"
    by (intro exI [of _ "ev1 @ ev2"] exI [of _ ev2]) (simp add: subseq_drop_many)
qed

section \<open>A run that passes\<close>

lemma observes_mono: "observes m S \<Longrightarrow> (\<And>x es. S x es \<Longrightarrow> T x es) \<Longrightarrow> observes m T"
  unfolding observes_def by blast

lemma run_before_observes:
  assumes "0 < stable_samples d"
  shows "observes (run_before p d build) (\<lambda>(initial, before, after) es.
    \<exists>unique e1 e2 e3. before = ''demo-before-'' @ unique \<and> after = ''demo-after-'' @ unique \<and> es = [e1, e2, e3] \<and>
      wrote initial before ''before-failover'' e1 \<and> has_read initial before ''before-failover'' e2 \<and>
      stop_done (l_node_id initial) e3)"
  unfolding run_before_def Let_def
  by (rule observes_mono, (rule observes_bind observes_nothing observes_leader [OF assms] observes_put
      observes_read observes_commands observes_marks)+) force

lemma run_without_observes:
  assumes "0 < stable_samples d"
  shows "observes (run_without p d initial before after) (\<lambda>target es.
    \<exists>new e4 e5 e6 e7 e8. es = [e4, e5, e6, e7, e8] \<and> l_node_id new \<noteq> l_node_id initial \<and> l_term initial < l_term new \<and>
      wrote new after ''after-failover'' e4 \<and> has_read new after ''after-failover'' e5 \<and>
      has_read new before ''before-failover'' e6 \<and> told_index new target e7 \<and> started (l_node_id initial) e8)"
  unfolding run_without_def
  by (rule observes_mono, (rule observes_bind observes_nothing observes_leader [OF assms] observes_put
      observes_read observes_index observes_commands observes_marks)+) force

lemma run_after_observes:
  assumes "0 < stable_samples d"
  shows "observes (run_after p d initial after target) (\<lambda>_ es.
    \<exists>final caught e9. es = caught @ [e9] \<and> list_all2 (reached target) NODE_IDS caught \<and>
      has_read final after ''after-failover'' e9)"
  unfolding run_after_def
  by (rule observes_mono, (rule observes_bind observes_nothing observes_leader [OF assms] observes_catch_up
      observes_read)+) force

lemma demo_run_passes:
  assumes run: "demo_run p d build s = Some (s', Ok ())" and pos: "0 < stable_samples d"
  obtains initial new final unique target events e1 e2 e3 e4 e5 e6 e7 e8 e9 caught
  where "io_history s' = io_history s @ events"
    "subseq ([e1, e2, e3, e4, e5, e6, e7, e8] @ caught @ [e9]) events"
    "wrote initial (''demo-before-'' @ unique) ''before-failover'' e1"
    "has_read initial (''demo-before-'' @ unique) ''before-failover'' e2"
    "stop_done (l_node_id initial) e3"
    "wrote new (''demo-after-'' @ unique) ''after-failover'' e4"
    "has_read new (''demo-after-'' @ unique) ''after-failover'' e5"
    "has_read new (''demo-before-'' @ unique) ''before-failover'' e6"
    "told_index new target e7" "started (l_node_id initial) e8"
    "list_all2 (reached target) NODE_IDS caught"
    "has_read final (''demo-after-'' @ unique) ''after-failover'' e9"
    "l_node_id new \<noteq> l_node_id initial" "l_term initial < l_term new"
proof -
  obtain s1 initial before after where 1: "run_before p d build s = Some (s1, Ok (initial, before, after))"
      "bind_io (run_without p d initial before after) (\<lambda>target. run_after p d initial after target) s1 = Some (s', Ok ())"
    using run by (auto simp: demo_run_def bind_io_def [of "run_before p d build"] split: option.splits sum.splits)
  obtain s2 target where 2: "run_without p d initial before after s1 = Some (s2, Ok target)"
      "run_after p d initial after target s2 = Some (s', Ok ())"
    using 1(2) by (auto simp: bind_io_def split: option.splits sum.splits)
  obtain ev1 es1 where 3: "io_history s1 = io_history s @ ev1" "subseq es1 ev1"
      "\<exists>unique e1 e2 e3. before = ''demo-before-'' @ unique \<and> after = ''demo-after-'' @ unique \<and> es1 = [e1, e2, e3] \<and>
      wrote initial before ''before-failover'' e1 \<and> has_read initial before ''before-failover'' e2 \<and>
      stop_done (l_node_id initial) e3"
    by (rule observesD [OF run_before_observes [OF pos] 1(1), unfolded prod.case])
  obtain ev2 es2 where 4: "io_history s2 = io_history s1 @ ev2" "subseq es2 ev2"
      "\<exists>new e4 e5 e6 e7 e8. es2 = [e4, e5, e6, e7, e8] \<and> l_node_id new \<noteq> l_node_id initial \<and> l_term initial < l_term new \<and>
      wrote new after ''after-failover'' e4 \<and> has_read new after ''after-failover'' e5 \<and>
      has_read new before ''before-failover'' e6 \<and> told_index new target e7 \<and> started (l_node_id initial) e8"
    by (rule observesD [OF run_without_observes [OF pos] 2(1)])
  obtain ev3 es3 where 5: "io_history s' = io_history s2 @ ev3" "subseq es3 ev3"
      "\<exists>final caught e9. es3 = caught @ [e9] \<and> list_all2 (reached target) NODE_IDS caught \<and>
      has_read final after ''after-failover'' e9"
    by (rule observesD [OF run_after_observes [OF pos] 2(2)])
  have "io_history s' = io_history s @ (ev1 @ ev2 @ ev3)" "subseq (es1 @ es2 @ es3) (ev1 @ ev2 @ ev3)"
    using 3(1,2) 4(1,2) 5(1,2) by (simp_all add: list_emb_append_mono)
  then show ?thesis using 3(3) 4(3) 5(3) that by force
qed

section \<open>The stopped node is started again\<close>

text \<open>A node is down when it was stopped and no command to start it was given since.\<close>

definition down :: "io_event list \<Rightarrow> string \<Rightarrow> bool" where
  "down events nid =
     (\<exists>pre ev post. events = pre @ ev # post \<and> stop_done nid ev \<and> (\<forall>x \<in> set post. \<not> start_issued nid x))"

lemma down_snoc:
  "down (events @ [ev]) nid \<longleftrightarrow> stop_done nid ev \<or> down events nid \<and> \<not> start_issued nid ev"
proof
  assume "down (events @ [ev]) nid"
  then obtain pre x post where x: "events @ [ev] = pre @ x # post" "stop_done nid x" "\<forall>y \<in> set post. \<not> start_issued nid y"
    by (auto simp: down_def)
  then show "stop_done nid ev \<or> down events nid \<and> \<not> start_issued nid ev"
    by (cases post rule: rev_cases) (auto simp: down_def)
next
  assume "stop_done nid ev \<or> down events nid \<and> \<not> start_issued nid ev"
  then show "down (events @ [ev]) nid"
  proof
    assume "stop_done nid ev"
    then show ?thesis unfolding down_def by (intro exI [of _ events] exI [of _ ev] exI [of _ "[]"]) simp
  next
    assume d: "down events nid \<and> \<not> start_issued nid ev"
    then obtain pre x post where "events = pre @ x # post" "stop_done nid x" "\<forall>y \<in> set post. \<not> start_issued nid y"
      by (auto simp: down_def)
    then show ?thesis
      using d unfolding down_def by (intro exI [of _ pre] exI [of _ x] exI [of _ "post @ [ev]"]) auto
  qed
qed

lemma down_quiet: "list_all quiet events \<Longrightarrow> down (hist @ events) nid = down hist nid"
proof (induction events rule: rev_induct)
  case (snoc ev events)
  then show ?case using down_snoc [of "hist @ events" ev nid] by (simp add: quiet_def)
qed simp

lemma down_Nil [simp]: "\<not> down [] nid"
  by (simp add: down_def)

text \<open>The invariant: a node that is down is the one the attribute names.\<close>

definition tracked :: "string option \<Rightarrow> 'w demo_state \<Rightarrow> bool" where
  "tracked x s = (stopped_node s = x \<and> (\<forall>nid. down (io_history s) nid \<longrightarrow> x = Some nid))"

definition tracked_some :: "'w demo_state \<Rightarrow> bool" where
  "tracked_some s = (\<exists>x. tracked x s)"

lemma tracked_quiet: "quiet_step s s' \<Longrightarrow> tracked x s \<Longrightarrow> tracked x s'"
  by (auto simp: quiet_step_def tracked_def down_quiet)

definition triple ::
  "('w demo_state \<Rightarrow> bool) \<Rightarrow> ('w, 'a) demo_io \<Rightarrow> ('a \<Rightarrow> 'w demo_state \<Rightarrow> bool) \<Rightarrow> bool" where
  "triple P m Q =
     (\<forall>s s' r. P s \<longrightarrow> m s = Some (s', r) \<longrightarrow> (case r of Inl e \<Rightarrow> tracked_some s' | Inr x \<Rightarrow> Q x s'))"

lemma triple_bind: "triple P m Q \<Longrightarrow> (\<And>x. triple (Q x) (f x) S) \<Longrightarrow> triple P (bind_io m f) S"
  unfolding triple_def bind_io_def by (fastforce split: option.splits sum.splits)

lemma triple_quiet: "silent.keeps m \<Longrightarrow> triple (tracked x) m (\<lambda>_. tracked x)"
  unfolding triple_def
proof (intro allI impI)
  fix s s' r
  assume "silent.keeps m" "tracked x s" "m s = Some (s', r)"
  then have "tracked x s'" using tracked_quiet [of s s' x] unfolding silent.keeps_def by blast
  then show "case r of Inl e \<Rightarrow> tracked_some s' | Inr y \<Rightarrow> tracked x s'"
    by (auto simp: tracked_some_def split: sum.splits)
qed

lemma triple_return: "(\<And>s. P s \<Longrightarrow> Q x s) \<Longrightarrow> triple P (lift_io (\<lambda>s. (s, Ok x))) Q"
  by (simp add: triple_def lift_io_def)

lemma compose_command_history:
  "\<exists>outcome. io_history (fst (compose_command p dc arguments s)) = io_history s @ [Ran (docker_command arguments) outcome] \<and>
     stopped_node (fst (compose_command p dc arguments s)) = stopped_node s \<and>
     (is_ok (snd (compose_command p dc arguments s)) = (\<exists>out err. outcome = Completed 0 out err))"
  by (auto simp: compose_command_def compose_run_def split: prod.splits sum.splits process_outcome.splits)

lemma event_simps:
  "start_issued nid (Ran (docker_command [''start'', n]) outcome) = (n = nid)"
  "\<not> start_issued nid (Ran (docker_command [''stop'', n]) outcome)"
  "\<not> stop_done nid (Ran (docker_command [''start'', n]) outcome)"
  "stop_done nid (Ran (docker_command [''stop'', n]) outcome) = (n = nid \<and> (\<exists>out err. outcome = Completed 0 out err))"
  by (auto simp: start_issued_def stop_done_def docker_command_def)

lemma triple_stop:
  "triple (tracked None) (bind_io (lift_io (compose_stop p dc nid)) (\<lambda>_. bind_io (set_stopped (Some nid)) f)) Q"
  if "\<And>x. triple (tracked (Some nid)) (f x) Q"
proof (rule triple_bind)
  show "triple (tracked None) (lift_io (compose_stop p dc nid))
      (\<lambda>_ s. \<forall>n. down (io_history s) n \<longrightarrow> n = nid)"
    unfolding triple_def lift_io_def
  proof (intro allI impI)
    fix s s' :: "'a demo_state" and r
    assume t: "tracked None s" and m: "Some (compose_stop p dc nid s) = Some (s', r)"
    obtain outcome where o: "io_history s' = io_history s @ [Ran (docker_command [''stop'', nid]) outcome]"
        "stopped_node s' = stopped_node s" "is_ok r = (\<exists>out err. outcome = Completed 0 out err)"
      using compose_command_history [of p dc "[''stop'', nid]" s] m by (auto simp: compose_stop_def)
    show "case r of Inl e \<Rightarrow> tracked_some s' | Inr x \<Rightarrow> \<forall>n. down (io_history s') n \<longrightarrow> n = nid"
    proof (cases r)
      case (Inl e)
      then have "tracked None s'"
        using t o by (auto simp: tracked_def down_snoc event_simps)
      then show ?thesis using Inl by (auto simp: tracked_some_def)
    next
      case (Inr x)
      then show ?thesis using t o by (auto simp: tracked_def down_snoc event_simps)
    qed
  qed
  show "triple (\<lambda>s. \<forall>n. down (io_history s) n \<longrightarrow> n = nid) (bind_io (set_stopped (Some nid)) f) Q" for x :: unit
  proof (rule triple_bind)
    show "triple (\<lambda>s. \<forall>n. down (io_history s) n \<longrightarrow> n = nid) (set_stopped (Some nid)) (\<lambda>_. tracked (Some nid))"
      by (auto simp: triple_def set_stopped_def lift_io_def tracked_def)
  qed (rule that)
qed

lemma start_tracked:
  assumes "tracked (Some nid) s"
  shows "tracked (Some nid) (fst (compose_start p dc nid s))" "\<not> down (io_history (fst (compose_start p dc nid s))) n"
  using compose_command_history [of p dc "[''start'', nid]" s] assms
  by (auto simp: compose_start_def tracked_def down_snoc event_simps)

lemma triple_start:
  "triple (tracked (Some nid)) (bind_io (lift_io (compose_start p dc nid)) (\<lambda>_. bind_io (set_stopped None) f)) Q"
  if "\<And>x. triple (tracked None) (f x) Q"
proof (rule triple_bind)
  show "triple (tracked (Some nid)) (lift_io (compose_start p dc nid)) (\<lambda>_ s. \<forall>n. \<not> down (io_history s) n)"
    unfolding triple_def lift_io_def tracked_some_def
    using start_tracked [of nid _ p dc] by (auto split: sum.splits) (metis fst_conv)+
  show "triple (\<lambda>s. \<forall>n. \<not> down (io_history s) n) (bind_io (set_stopped None) f) Q" for x :: unit
  proof (rule triple_bind)
    show "triple (\<lambda>s. \<forall>n. \<not> down (io_history s) n) (set_stopped None) (\<lambda>_. tracked None)"
      by (auto simp: triple_def set_stopped_def lift_io_def tracked_def)
  qed (rule that)
qed

lemmas quiet_rules = triple_quiet [OF silent.keeps_quiet(1)] triple_quiet [OF silent.keeps_quiet(2)]
  triple_quiet [OF silent.keeps_quiet(3)] triple_quiet [OF silent.keeps_quiet(4)] triple_quiet [OF silent.keeps_quiet(5)]
  triple_quiet [OF silent.keeps_quiet(6)] triple_quiet [OF silent.keeps_quiet(7)] triple_quiet [OF silent.keeps_quiet(9)]
  triple_quiet [OF silent.keeps_quiet(10)] triple_quiet [OF silent.keeps_quiet(12)]

lemma triple_before:
  "triple (tracked None) (run_before p d build) (\<lambda>(initial, _, _). tracked (Some (l_node_id initial)))"
  unfolding run_before_def Let_def
  by (rule triple_stop triple_return | rule triple_bind, rule quiet_rules | simp)+

lemma triple_without:
  "triple (tracked (Some (l_node_id initial))) (run_without p d initial before after) (\<lambda>_. tracked None)"
  unfolding run_without_def
  by (rule triple_start triple_return | rule triple_bind, rule quiet_rules | simp)+

lemma demo_run_tracked:
  assumes "demo_run p d build s = Some (s', r)" "tracked None s"
  shows "tracked_some s'" "r = Ok () \<Longrightarrow> tracked None s'"
proof -
  have "triple (tracked None) (demo_run p d build) (\<lambda>_. tracked None)"
    unfolding demo_run_def
    by (rule triple_bind [OF triple_before])
      (auto intro!: triple_bind [OF triple_without] triple_quiet silent.run_after_keeps)
  then show "tracked_some s'" "r = Ok () \<Longrightarrow> tracked None s'"
    using assms unfolding triple_def tracked_some_def by (fastforce split: sum.splits)+
qed

text \<open>Where \<^verbatim>\<open>main\<close> ends with an exit status, no node is down.\<close>

lemma demo_failed_starts:
  assumes "tracked_some s" "demo_failed p d s = (s', Ok code)"
  shows "\<not> down (io_history s') nid"
proof -
  obtain s1 x where x: "demo_diagnostics p d s = (s1, Ok x)" using assms(2) by (auto simp: demo_failed_def split: prod.splits sum.splits)
  obtain y where "tracked y s" using assms(1) by (auto simp: tracked_some_def)
  then have t: "tracked y s1" using tracked_quiet silent.diagnostics [of s p d] by (simp add: x)
  show ?thesis
  proof (cases y)
    case None
    then show ?thesis using assms(2) t by (auto simp: demo_failed_def x tracked_def)
  next
    case (Some n)
    then have s: "stopped_node s1 = Some n" using t by (simp add: tracked_def)
    have "s' = fst (compose_start p (compose d) n s1)"
      using assms(2) by (auto simp: demo_failed_def x s split: prod.splits sum.splits if_splits)
    then show ?thesis using start_tracked(2) t Some by metis
  qed
qed

lemma demo_main_starts:
  assumes "demo_main p args s = Some (s', Ok code)" "io_history s = []"
  shows "\<not> down (io_history s') nid"
proof -
  have t: "tracked None (s\<lparr>stopped_node := None\<rparr>)" using assms(2) by (simp add: tracked_def)
  obtain d s1 r where d: "demo_run p d (\<not> no_build args) (s\<lparr>stopped_node := None\<rparr>) = Some (s1, r)"
      and out: "(s', Ok code) = (case r of Inr _ \<Rightarrow> (s1, Ok 0)
        | Inl e \<Rightarrow> if e \<in> {DemoError, ValueError} then demo_failed p d s1 else (s1, Err e))"
    using assms(1) by (auto simp: demo_main_def split: sum.splits option.splits)
  note T = demo_run_tracked [OF d t]
  show ?thesis
  proof (cases r)
    case (Inl e)
    then show ?thesis using out demo_failed_starts [OF T(1), of p d s' code] by (auto split: if_splits)
  qed (use out T(2) in \<open>auto simp: tracked_def\<close>)
qed

end
