(* ===== verification/DemoLab.thy ===== *)
theory DemoLab
  imports DemoResults
begin

text \<open>
  A platform on which the demonstration can be run in the kernel: three nodes of which the first
  leads until it is stopped and the second from then on, a clock that only sleeping moves, and two
  faults, a reply of the third node while another is stopped (\<open>glitch\<close>) and a stop that takes longer
  than the timeout of the command (\<open>slow_stop\<close>).
\<close>

section \<open>The platform\<close>

record lab =
  lab_time :: int
  lab_down :: "string option"
  lab_term :: int
  lab_store :: "(string, json) dict"
  glitch :: "url_outcome option"
  slow_stop :: bool

definition lab_leader :: "lab \<Rightarrow> string" where
  "lab_leader w = (if lab_term w = 1 then ''node1'' else ''node2'')"

definition lab_run :: "string list \<Rightarrow> real \<Rightarrow> lab \<Rightarrow> lab \<times> process_outcome" where
  "lab_run command seconds w =
     (case drop 2 command of
        [action, nid] \<Rightarrow>
          if action = ''stop''
          then (w\<lparr>lab_down := Some nid, lab_term := lab_term w + 1\<rparr>,
                if slow_stop w then TimedOut else Completed 0 [] [])
          else if action = ''start'' then (w\<lparr>lab_down := None\<rparr>, Completed 0 [] [])
          else (w, Completed 0 [] [])
      | _ \<Rightarrow> (w, Completed 0 [] []))"

definition lab_reply :: "(string, json) dict \<Rightarrow> url_outcome" where
  "lab_reply d = Replied \<lparr>as_json = Loaded (JObj d), as_text = Some metrics_name\<rparr>"

definition lab_status :: "string \<Rightarrow> lab \<Rightarrow> (string, json) dict" where
  "lab_status nid w =
     [(''role'', JStr (if nid = lab_leader w then ''leader'' else ''follower'')),
      (''current_term'', JInt (lab_term w)), (''commit_index'', JInt 2), (''last_applied'', JInt 2),
      (''log_last_index'', JInt 2)]"

definition lab_answer :: "string \<Rightarrow> string \<Rightarrow> json option \<Rightarrow> lab \<Rightarrow> lab \<times> url_outcome" where
  "lab_answer nid path payload w =
     (if lab_down w = Some nid then (w, UrlFailed OSError)
      else if path = ''/health'' then (w, lab_reply [(''status'', JStr ''ok'')])
      else if path = ''/metrics'' then (w, lab_reply [])
      else if path = ''/cluster/status''
      then (w, case glitch w of
                 Some outcome \<Rightarrow> if nid = ''node3'' \<and> lab_down w \<noteq> None then outcome else lab_reply (lab_status nid w)
               | None \<Rightarrow> lab_reply (lab_status nid w))
      else (case payload of
              Some (JObj [(key, val)]) \<Rightarrow>
                (w\<lparr>lab_store := AList.update path val (lab_store w)\<rparr>,
                 lab_reply [(''committed'', JBool True), (''leader_id'', JStr (lab_leader w))])
            | _ \<Rightarrow>
                (case map_of (lab_store w) path of
                   None \<Rightarrow> (w, HttpStatus 404 None)
                 | Some val \<Rightarrow> (w, lab_reply [(''value'', val)]))))"

definition lab_open :: "url_request \<Rightarrow> real \<Rightarrow> lab \<Rightarrow> lab \<times> url_outcome" where
  "lab_open request seconds w =
     (case find (\<lambda>ep. take (length (base_url ep)) (url request) = base_url ep) NODES of
        None \<Rightarrow> (w, UrlFailed OSError)
      | Some ep \<Rightarrow> lab_answer (ep_node_id ep) (drop (length (base_url ep)) (url request)) (url_data request) w)"

definition lab_platform :: "lab platform" where
  "lab_platform =
     \<lparr>which_docker = (\<lambda>w. True), run_process = lab_run, urlopen = lab_open,
      monotonic = (\<lambda>w. (w, of_int (lab_time w))),
      sleep = (\<lambda>seconds w. w\<lparr>lab_time := lab_time w + \<lceil>max 0 seconds\<rceil>\<rparr>),
      time_and_pid = (\<lambda>w. (w, 17, 42))\<rparr>"

definition lab_start :: "url_outcome option \<Rightarrow> bool \<Rightarrow> lab demo_state" where
  "lab_start g slow =
     \<lparr>world = \<lparr>lab_time = 0, lab_down = None, lab_term = 1, lab_store = [], glitch = g, slow_stop = slow\<rparr>,
      stopped_node = None, io_history = []\<rparr>"

section \<open>Evaluation\<close>

text \<open>
  A state is known here by its world, the attribute \<open>stopped_node\<close> and whether the first node is
  down. \<open>gives\<close> says how an operation ends in terms of these.
\<close>

definition summary :: "lab demo_state \<Rightarrow> lab \<times> string option \<times> bool" where
  "summary s = (world s, stopped_node s, down (io_history s) ''node1'')"

definition gives ::
  "(lab, 'a) demo_io \<Rightarrow> lab \<times> string option \<times> bool \<Rightarrow> 'a result \<Rightarrow> lab \<times> string option \<times> bool \<Rightarrow> bool" where
  "gives m z r z' = (\<forall>s. summary s = z \<longrightarrow> (\<exists>s'. m s = Some (s', r) \<and> summary s' = z'))"

lemma gives_bind: "gives m z (Ok x) z1 \<Longrightarrow> gives (f x) z1 r z2 \<Longrightarrow> gives (bind_io m f) z r z2"
  unfolding gives_def bind_io_def by fastforce

lemma gives_stop: "gives m z (Err e) z1 \<Longrightarrow> gives (bind_io m f) z (Err e) z1"
  unfolding gives_def bind_io_def by fastforce

lemma gives_quiet:
  assumes "silent.keeps m" and "\<And>s. world s = w \<Longrightarrow> \<exists>s'. m s = Some (s', r) \<and> world s' = w'"
  shows "gives m (w, n, b) r (w', n, b)"
  unfolding gives_def
proof (intro allI impI)
  fix s :: "lab demo_state"
  assume z: "summary s = (w, n, b)"
  then obtain s' where s': "m s = Some (s', r)" "world s' = w'" using assms(2) by (auto simp: summary_def)
  then have "quiet_step s s'" using assms(1) unfolding silent.keeps_def by blast
  then show "\<exists>s'. m s = Some (s', r) \<and> summary s' = (w', n, b)"
    using s' z by (auto simp: summary_def quiet_step_def down_quiet)
qed

text \<open>The requests, at one of the three nodes.\<close>

definition endpoint :: "string \<Rightarrow> node_endpoint" where
  "endpoint nid = the (map_of NODE_BY_ID nid)"

lemma lab_url:
  assumes "nid \<in> {''node1'', ''node2'', ''node3''}"
  shows "find (\<lambda>ep. take (length (base_url ep)) (base_url (endpoint nid) @ path) = base_url ep) NODES = Some (endpoint nid)"
    "dict_item NODE_BY_ID nid = Ok (endpoint nid)" "ep_node_id (endpoint nid) = nid"
  using assms by (auto simp: NODES_def NODE_BY_ID_def endpoint_def dict_item_def)

lemma lab_open_node:
  assumes "nid \<in> {''node1'', ''node2'', ''node3''}"
  shows "urlopen lab_platform (make_request (endpoint nid) path meth payload) seconds w = lab_answer nid path payload w"
  by (simp add: lab_platform_def lab_open_def make_request_def lab_url(1) [OF assms] lab_url(3) [OF assms] del: take_append)

lemma lab_request:
  assumes "nid \<in> {''node1'', ''node2'', ''node3''}" and "lab_answer nid path payload (world s) = (w, reply)"
  shows "\<exists>hist. request_json lab_platform h nid path meth payload s = (s\<lparr>world := w, io_history := hist\<rparr>, json_reply reply)"
  using assms(2) lab_url(2) [OF assms(1)]
  by (simp add: request_json_def send_request_def lab_open_node [OF assms(1)] del: dict_item_Ok) blast

lemma lab_request_text:
  assumes "nid \<in> {''node1'', ''node2'', ''node3''}" and "lab_answer nid path None (world s) = (w, reply)"
  shows "\<exists>hist. request_text lab_platform h nid path s = (s\<lparr>world := w, io_history := hist\<rparr>, text_reply reply)"
  using assms(2) lab_url(2) [OF assms(1)]
  by (simp add: request_text_def send_request_def lab_open_node [OF assms(1)] del: dict_item_Ok) blast

lemma lab_nodes: "set NODE_IDS = {''node1'', ''node2'', ''node3''}"
  by (simp add: NODE_IDS_def NODES_def)

definition lab_said :: "lab \<Rightarrow> string \<Rightarrow> url_outcome" where
  "lab_said w nid = snd (lab_answer nid ''/cluster/status'' None w)"

lemma lab_said: "lab_answer nid ''/cluster/status'' None w = (w, lab_said w nid)"
  by (auto simp: lab_said_def lab_answer_def split: option.splits)

fun replies :: "(string \<Rightarrow> url_outcome) \<Rightarrow> string list \<Rightarrow> statuses \<Rightarrow> statuses result" where
  "replies said [] sts = Ok sts"
| "replies said (nid # rest) sts =
     (case json_reply (said nid) of
        Inl e \<Rightarrow> if e = DemoError then replies said rest sts else Err e
      | Inr status \<Rightarrow> replies said rest (AList.update nid status sts))"

lemma lab_collect_from:
  "set nids \<subseteq> {''node1'', ''node2'', ''node3''} \<Longrightarrow>
    \<exists>s'. collect_from lab_platform d nids sts s = (s', replies (lab_said (world s)) nids sts) \<and> world s' = world s"
proof (induction nids arbitrary: sts s)
  case (Cons nid nids)
  obtain hist where r: "request_json lab_platform (http d) nid ''/cluster/status'' ''GET'' None s =
      (s\<lparr>world := world s, io_history := hist\<rparr>, json_reply (lab_said (world s) nid))"
    using lab_request [OF _ lab_said, of nid "http d" "''GET''" s] Cons.prems by (metis insert_subset list.simps(15))
  have "set nids \<subseteq> {''node1'', ''node2'', ''node3''}" using Cons.prems by simp
  note IH = Cons.IH [OF this, where s = "s\<lparr>world := world s, io_history := hist\<rparr>"]
  show ?case using IH [of sts] IH [of "AList.update nid x sts" for x] by (simp add: r split: sum.splits)
qed simp

lemma lab_collect: "\<exists>s'. collect_statuses lab_platform d s = (s', replies (lab_said (world s)) NODE_IDS []) \<and> world s' = world s"
  unfolding collect_statuses_def by (rule lab_collect_from) (simp add: lab_nodes)

lemma lab_clock: "read_clock lab_platform s = (s, of_int (lab_time (world s)))"
  by (simp add: read_clock_def lab_platform_def)

definition lab_demo :: failover_demo where
  "lab_demo = \<lparr>compose = \<lparr>command_timeout = 300\<rparr>, http = \<lparr>request_timeout = 2\<rparr>, wait_timeout = 60,
     poll_interval = 1, stable_samples = 1\<rparr>"

lemma gives_leader:
  assumes "replies (lab_said w) NODE_IDS [] = Ok sts" "select_leader sts excluded = Some ldr"
  shows "gives (wait_for_stable_leader lab_platform lab_demo excluded) (w, n, b) (Ok ldr) (w, n, b)"
proof (rule gives_quiet [OF silent.keeps_quiet(7)])
  fix s :: "lab demo_state"
  assume "world s = w"
  then obtain s' where "collect_statuses lab_platform lab_demo s = (s', Ok sts)" "world s' = w"
    using lab_collect [of lab_demo s] assms(1) by auto
  then show "\<exists>s'. wait_for_stable_leader lab_platform lab_demo excluded s = Some (s', Ok ldr) \<and> world s' = w"
    by (simp add: wait_for_stable_leader_def wait_until_def poll.simps [of _ _ _ _ "(None, 0)"] lab_clock leader_round_def assms(2) lab_demo_def)
qed

lemma gives_no_leader:
  assumes "replies (lab_said w) NODE_IDS [] = Err e"
  shows "gives (wait_for_stable_leader lab_platform lab_demo excluded) (w, n, b) (Err e) (w, n, b)"
proof (rule gives_quiet [OF silent.keeps_quiet(7)])
  fix s :: "lab demo_state"
  assume "world s = w"
  then obtain s' where "collect_statuses lab_platform lab_demo s = (s', Err e)" "world s' = w"
    using lab_collect [of lab_demo s] assms(1) by auto
  then show "\<exists>s'. wait_for_stable_leader lab_platform lab_demo excluded s = Some (s', Err e) \<and> world s' = w"
    by (simp add: wait_for_stable_leader_def wait_until_def poll.simps [of _ _ _ _ "(None, 0)"] lab_clock leader_round_def lab_demo_def)
qed

lemma gives_catch_up:
  assumes "replies (lab_said w) NODE_IDS [] = Ok sts" "lagging_nodes sts target = []"
  shows "gives (wait_for_catch_up lab_platform lab_demo target) (w, n, b) (Ok ()) (w, n, b)"
proof (rule gives_quiet [OF silent.keeps_quiet(8)])
  fix s :: "lab demo_state"
  assume "world s = w"
  then obtain s' where "collect_statuses lab_platform lab_demo s = (s', Ok sts)" "world s' = w"
    using lab_collect [of lab_demo s] assms(1) by auto
  then show "\<exists>s'. wait_for_catch_up lab_platform lab_demo target s = Some (s', Ok ()) \<and> world s' = w"
    by (simp add: wait_for_catch_up_def wait_until_def poll.simps lab_clock catch_up_round_def assms(2) lab_demo_def)
qed

lemma lab_healthy:
  "list_all (\<lambda>nid. nid \<in> {''node1'', ''node2'', ''node3''} \<and> lab_down (world s) \<noteq> Some nid) nids \<Longrightarrow>
    \<exists>s'. unhealthy_nodes lab_platform d nids s = (s', Ok []) \<and> world s' = world s"
proof (induction nids arbitrary: s)
  case (Cons nid nids)
  have "lab_answer nid ''/health'' None (world s) = (world s, lab_reply [(''status'', JStr ''ok'')])"
    using Cons.prems by (simp add: lab_answer_def)
  then obtain hist where r: "request_json lab_platform (http d) nid ''/health'' ''GET'' None s =
      (s\<lparr>world := world s, io_history := hist\<rparr>, Ok [(''status'', JStr ''ok'')])"
    using lab_request [of nid "''/health''" None s "world s"] Cons.prems
    by (fastforce simp: lab_reply_def json_reply_def)
  obtain s' where "unhealthy_nodes lab_platform d nids (s\<lparr>io_history := hist\<rparr>) = (s', Ok [])" "world s' = world s"
    using Cons.IH [of "s\<lparr>io_history := hist\<rparr>"] Cons.prems by auto
  then show ?case by (simp add: r)
qed simp

lemma gives_health:
  assumes "list_all (\<lambda>nid. nid \<in> {''node1'', ''node2'', ''node3''} \<and> lab_down w \<noteq> Some nid) nids"
  shows "gives (wait_for_health lab_platform lab_demo nids) (w, n, b) (Ok ()) (w, n, b)"
proof (rule gives_quiet [OF silent.keeps_quiet(6)])
  fix s :: "lab demo_state"
  assume "world s = w"
  then obtain s' where "unhealthy_nodes lab_platform lab_demo nids s = (s', Ok [])" "world s' = w"
    using lab_healthy [of s nids lab_demo] assms by auto
  then show "\<exists>s'. wait_for_health lab_platform lab_demo nids s = Some (s', Ok ()) \<and> world s' = w"
    by (simp add: wait_for_health_def wait_until_def poll.simps lab_clock health_round_def lab_demo_def)
qed

lemma gives_put:
  assumes "l_node_id ldr \<in> {''node1'', ''node2'', ''node3''}"
    "lab_answer (l_node_id ldr) (''/kv/'' @ url_quote key) (Some (JObj [(''value'', JStr val)])) w =
      (w', lab_reply [(''committed'', JBool True), (''leader_id'', JStr (l_node_id ldr))])"
  shows "gives (lift_io (demo_put lab_platform lab_demo ldr key val)) (w, n, b) (Ok ()) (w', n, b)"
proof (rule gives_quiet [OF silent.keeps_quiet(9)])
  fix s :: "lab demo_state"
  assume "world s = w"
  then obtain hist where "request_json lab_platform (http lab_demo) (l_node_id ldr) (''/kv/'' @ url_quote key) ''PUT''
      (Some (JObj [(''value'', JStr val)])) s = (s\<lparr>world := w', io_history := hist\<rparr>,
      json_reply (lab_reply [(''committed'', JBool True), (''leader_id'', JStr (l_node_id ldr))]))"
    using lab_request [OF assms(1), of "''/kv/'' @ url_quote key" _ s w'] assms(2) by blast
  then show "\<exists>s'. lift_io (demo_put lab_platform lab_demo ldr key val) s = Some (s', Ok ()) \<and> world s' = w'"
    by (simp add: lift_io_def demo_put_def json_reply_def lab_reply_def)
qed

lemma gives_read:
  assumes "l_node_id ldr \<in> {''node1'', ''node2'', ''node3''}"
    "lab_answer (l_node_id ldr) (''/kv/'' @ url_quote key) None w = (w, lab_reply [(''value'', JStr val)])"
  shows "gives (lift_io (verify_read lab_platform lab_demo ldr key val)) (w, n, b) (Ok ()) (w, n, b)"
proof (rule gives_quiet [OF silent.keeps_quiet(10)])
  fix s :: "lab demo_state"
  assume "world s = w"
  then obtain hist where "request_json lab_platform (http lab_demo) (l_node_id ldr) (''/kv/'' @ url_quote key) ''GET'' None s =
      (s\<lparr>world := w, io_history := hist\<rparr>, json_reply (lab_reply [(''value'', JStr val)]))"
    using lab_request [OF assms(1), of "''/kv/'' @ url_quote key" None s w] assms(2) by blast
  then show "\<exists>s'. lift_io (verify_read lab_platform lab_demo ldr key val) s = Some (s', Ok ()) \<and> world s' = w"
    by (simp add: lift_io_def verify_read_def json_reply_def lab_reply_def)
qed

lemma gives_index:
  assumes "l_node_id ldr \<in> {''node1'', ''node2'', ''node3''}"
    "json_reply (lab_said w (l_node_id ldr)) = Ok status" "int_value (map_of status ''commit_index'') = Some i"
  shows "gives (leader_commit_index lab_platform lab_demo ldr) (w, n, b) (Ok i) (w, n, b)"
proof (rule gives_quiet [OF silent.keeps_quiet(12)])
  fix s :: "lab demo_state"
  assume "world s = w"
  then obtain hist where "request_json lab_platform (http lab_demo) (l_node_id ldr) ''/cluster/status'' ''GET'' None s =
      (s\<lparr>world := w, io_history := hist\<rparr>, Ok status)"
    using lab_request [OF assms(1) lab_said, of "http lab_demo" "''GET''" s] assms(2) by auto
  then show "\<exists>s'. leader_commit_index lab_platform lab_demo ldr s = Some (s', Ok i) \<and> world s' = w"
    by (simp add: leader_commit_index_def lift_io_def assms(3))
qed

lemma lab_metrics:
  "list_all (\<lambda>nid. nid \<in> {''node1'', ''node2'', ''node3''} \<and> lab_down (world s) \<noteq> Some nid) nids \<Longrightarrow>
    \<exists>s'. verify_metrics_of lab_platform d nids s = (s', Ok ()) \<and> world s' = world s"
proof (induction nids arbitrary: s)
  case (Cons nid nids)
  have "lab_answer nid ''/metrics'' None (world s) = (world s, lab_reply [])"
    using Cons.prems by (simp add: lab_answer_def)
  then obtain hist where r: "request_text lab_platform (http d) nid ''/metrics'' s =
      (s\<lparr>world := world s, io_history := hist\<rparr>, Ok metrics_name)"
    using lab_request_text [of nid "''/metrics''" s "world s"] Cons.prems
    by (fastforce simp: lab_reply_def text_reply_def)
  obtain s' where "verify_metrics_of lab_platform d nids (s\<lparr>io_history := hist\<rparr>) = (s', Ok ())" "world s' = world s"
    using Cons.IH [of "s\<lparr>io_history := hist\<rparr>"] Cons.prems by auto
  then show ?case by (simp add: r verify_node_metrics_def)
qed simp

lemma gives_metrics:
  assumes "lab_down w = None"
  shows "gives (lift_io (verify_metrics lab_platform lab_demo)) (w, n, b) (Ok ()) (w, n, b)"
proof (rule gives_quiet [OF silent.keeps_quiet(11)])
  fix s :: "lab demo_state"
  assume "world s = w"
  then obtain s' where "verify_metrics lab_platform lab_demo s = (s', Ok ())" "world s' = w"
    using lab_metrics [of s NODE_IDS lab_demo] assms by (auto simp: verify_metrics_def NODE_IDS_def NODES_def)
  then show "\<exists>s'. lift_io (verify_metrics lab_platform lab_demo) s = Some (s', Ok ()) \<and> world s' = w"
    by (simp add: lift_io_def)
qed

lemma lab_command:
  assumes "lab_run (docker_command arguments) (command_timeout dc) (world s) = (w, outcome)"
  shows "compose_command lab_platform dc arguments s =
    (s\<lparr>world := w, io_history := io_history s @ [Ran (docker_command arguments) outcome]\<rparr>,
     case outcome of
       TimedOut \<Rightarrow> Err DemoError
     | NotStarted \<Rightarrow> Err DemoError
     | UndecodableOutput \<Rightarrow> Err ValueError
     | Completed returncode out err \<Rightarrow> if returncode \<noteq> 0 then Err DemoError else Ok ())"
proof -
  have "run_process lab_platform (docker_command arguments) (command_timeout dc) (world s) = (w, outcome)"
    using assms by (simp add: lab_platform_def)
  then show ?thesis
    by (auto simp: compose_command_def compose_run_def split: process_outcome.splits)
qed

lemma stamp: "show_int 17 = ''17''" "show_int 42 = ''42''"
  by code_simp+

lemma gives_setup:
  "gives (lift_io (compose_verify lab_platform dc)) (w, n, b) (Ok ()) (w, n, b)"
  "gives (lift_io (compose_up lab_platform dc True)) (w, n, b) (Ok ()) (w, n, b)"
  "gives (unique_suffix lab_platform) (w, n, b) (Ok ''17-42'') (w, n, b)"
proof -
  have r: "lab_run (docker_command arguments) seconds v = (v, Completed 0 [] [])"
    if "arguments \<in> {[''version''], [''config'', ''--quiet''], [''up'', ''-d'', ''--build'', ''node1'', ''node2'', ''node3'']}"
    for arguments seconds v
    using that by (auto simp: lab_run_def docker_command_def)
  show "gives (lift_io (compose_verify lab_platform dc)) (w, n, b) (Ok ()) (w, n, b)"
    by (rule gives_quiet [OF silent.keeps_quiet(4)])
      (simp add: lift_io_def compose_verify_def lab_command [OF r]; simp add: lab_platform_def)
  show "gives (lift_io (compose_up lab_platform dc True)) (w, n, b) (Ok ()) (w, n, b)"
    by (rule gives_quiet [OF silent.keeps_quiet(5)])
      (simp add: lift_io_def compose_up_def NODE_IDS_def NODES_def lab_command [OF r])
  show "gives (unique_suffix lab_platform) (w, n, b) (Ok ''17-42'') (w, n, b)"
    by (rule gives_quiet [OF silent.keeps_quiet(3)])
      (simp add: unique_suffix_def lift_io_def lab_platform_def stamp)
qed

lemma gives_commands:
  "\<not> slow_stop w \<Longrightarrow> gives (lift_io (compose_stop lab_platform dc ''node1'')) (w, n, b) (Ok ())
     (w\<lparr>lab_down := Some ''node1'', lab_term := lab_term w + 1\<rparr>, n, True)"
  "slow_stop w \<Longrightarrow> gives (lift_io (compose_stop lab_platform dc ''node1'')) (w, n, b) (Err DemoError)
     (w\<lparr>lab_down := Some ''node1'', lab_term := lab_term w + 1\<rparr>, n, b)"
  "gives (lift_io (compose_start lab_platform dc ''node1'')) (w, n, b) (Ok ()) (w\<lparr>lab_down := None\<rparr>, n, False)"
  unfolding gives_def lift_io_def compose_stop_def compose_start_def
  by (simp_all add: lab_command lab_run_def docker_command_def summary_def down_snoc)
    (simp_all add: stop_done_def start_issued_def docker_command_def)

lemma gives_marks:
  "gives (set_stopped m) (w, n, b) (Ok ()) (w, m, b)" "gives (lift_io (\<lambda>s. (s, r))) z r z"
  "gives (require True) z (Ok ()) z"
  by (auto simp: gives_def set_stopped_def lift_io_def require_def summary_def)

section \<open>The runs\<close>

definition lab_world :: "string option \<Rightarrow> int \<Rightarrow> (string, json) dict \<Rightarrow> url_outcome option \<Rightarrow> bool \<Rightarrow> lab" where
  "lab_world dn trm store g slow =
     \<lparr>lab_time = 0, lab_down = dn, lab_term = trm, lab_store = store, glitch = g, slow_stop = slow\<rparr>"

definition before_path :: string where
  "before_path = ''/kv/'' @ url_quote ''demo-before-17-42''"

definition after_path :: string where
  "after_path = ''/kv/'' @ url_quote ''demo-after-17-42''"

lemma paths: "before_path = ''/kv/demo-before-17-42''" "after_path = ''/kv/demo-after-17-42''"
  unfolding before_path_def after_path_def by code_simp+

lemma lab_fields [simp]:
  "lab_down (lab_world dn trm store g slow) = dn" "slow_stop (lab_world dn trm store g slow) = slow"
  "lab_world dn trm store g slow\<lparr>lab_term := trm'\<rparr> = lab_world dn trm' store g slow"
  "lab_term (lab_world dn trm store g slow) = trm"
  "lab_world dn trm store g slow\<lparr>lab_down := dn'\<rparr> = lab_world dn' trm store g slow"
  by (simp_all add: lab_world_def)

lemma lab_replies: "json_reply (lab_reply r) = Ok r" "json_reply (UrlFailed OSError) = Err DemoError"
  by (simp_all add: json_reply_def lab_reply_def)

lemma lab_said_world:
  "lab_said (lab_world None trm store g slow) nid = lab_reply (lab_status nid (lab_world None trm store g slow))"
  "lab_said (lab_world (Some n) trm store None slow) nid =
    (if nid = n then UrlFailed OSError else lab_reply (lab_status nid (lab_world (Some n) trm store None slow)))"
  "lab_said (lab_world (Some n) trm store (Some outcome) slow) nid =
    (if nid = n then UrlFailed OSError else if nid = ''node3'' then outcome
     else lab_reply (lab_status nid (lab_world (Some n) trm store (Some outcome) slow)))"
  by (cases g) (auto simp: lab_said_def lab_answer_def lab_world_def)

lemma lab_says:
  "replies (lab_said (lab_world None trm store g slow)) NODE_IDS [] =
    Ok (map (\<lambda>nid. (nid, lab_status nid (lab_world None trm store g slow))) NODE_IDS)"
  "replies (lab_said (lab_world (Some ''node1'') trm store None slow)) NODE_IDS [] =
    Ok (map (\<lambda>nid. (nid, lab_status nid (lab_world (Some ''node1'') trm store None slow))) [''node2'', ''node3''])"
  "json_reply outcome = Err e \<Longrightarrow> e \<noteq> DemoError \<Longrightarrow>
    replies (lab_said (lab_world (Some ''node1'') trm store (Some outcome) slow)) NODE_IDS [] = Err e"
  by (simp_all add: NODE_IDS_def NODES_def lab_said_world lab_replies)

definition node1_leads :: demo_leader where
  "node1_leads = \<lparr>l_node_id = ''node1'', l_term = 1\<rparr>"

definition node2_leads :: demo_leader where
  "node2_leads = \<lparr>l_node_id = ''node2'', l_term = 2\<rparr>"

lemma lab_leaders:
  "select_leader (map (\<lambda>nid. (nid, lab_status nid (lab_world None 1 store g slow))) NODE_IDS) None = Some node1_leads"
  "select_leader (map (\<lambda>nid. (nid, lab_status nid (lab_world (Some ''node1'') 2 store None slow))) [''node2'', ''node3'']) (Some ''node1'') =
     Some node2_leads"
  "select_leader (map (\<lambda>nid. (nid, lab_status nid (lab_world None 2 store g slow))) NODE_IDS) None = Some node2_leads"
  "lagging_nodes (map (\<lambda>nid. (nid, lab_status nid (lab_world None 2 store g slow))) NODE_IDS) 2 = []"
  by (simp_all add: select_leader_def lab_status_def lab_leader_def lab_world_def NODE_IDS_def NODES_def int_value_def
      node1_leads_def node2_leads_def lagging_nodes_def lags_def)

definition kv_store_before :: "(string, json) dict" where
  "kv_store_before = [(before_path, JStr ''before-failover'')]"

definition kv_store_after :: "(string, json) dict" where
  "kv_store_after = [(before_path, JStr ''before-failover''), (after_path, JStr ''after-failover'')]"

lemma lab_stores:
  "lab_answer ''node1'' before_path (Some (JObj [(''value'', JStr ''before-failover'')])) (lab_world None 1 [] g slow) =
    (lab_world None 1 kv_store_before g slow, lab_reply [(''committed'', JBool True), (''leader_id'', JStr ''node1'')])"
  "lab_answer ''node1'' before_path None (lab_world None 1 kv_store_before g slow) =
    (lab_world None 1 kv_store_before g slow, lab_reply [(''value'', JStr ''before-failover'')])"
  "lab_answer ''node2'' after_path (Some (JObj [(''value'', JStr ''after-failover'')])) (lab_world (Some ''node1'') 2 kv_store_before g slow) =
    (lab_world (Some ''node1'') 2 kv_store_after g slow, lab_reply [(''committed'', JBool True), (''leader_id'', JStr ''node2'')])"
  "dn' \<noteq> Some ''node2'' \<Longrightarrow> lab_answer ''node2'' after_path None (lab_world dn' 2 kv_store_after g slow) =
    (lab_world dn' 2 kv_store_after g slow, lab_reply [(''value'', JStr ''after-failover'')])"
  "dn' \<noteq> Some ''node2'' \<Longrightarrow> lab_answer ''node2'' before_path None (lab_world dn' 2 kv_store_after g slow) =
    (lab_world dn' 2 kv_store_after g slow, lab_reply [(''value'', JStr ''before-failover'')])"
  by (simp_all add: lab_answer_def lab_world_def paths kv_store_before_def kv_store_after_def lab_leader_def)

lemma run_before_gives:
  assumes "slow \<Longrightarrow> r = Err DemoError" and "\<not> slow \<Longrightarrow> r = Ok (node1_leads, ''demo-before-17-42'', ''demo-after-17-42'')"
  shows "gives (run_before lab_platform lab_demo True) (lab_world None 1 [] g slow, None, False) r
    (lab_world (Some ''node1'') 2 kv_store_before g slow, if slow then None else Some ''node1'', \<not> slow)"
proof -
  let ?w = "lab_world None 1 [] g slow" and ?w1 = "lab_world None 1 kv_store_before g slow"
  note L = lab_leaders(1) lab_says(1)
  have leader: "gives (wait_for_stable_leader lab_platform lab_demo None) (?w, None, False) (Ok node1_leads) (?w, None, False)"
    by (rule gives_leader [OF lab_says(1) lab_leaders(1)])
  have put: "gives (lift_io (demo_put lab_platform lab_demo node1_leads (''demo-before-'' @ ''17-42'') ''before-failover''))
      (?w, None, False) (Ok ()) (?w1, None, False)"
    by (rule gives_put) (use lab_stores(1) in \<open>simp_all add: node1_leads_def before_path_def\<close>)
  have get: "gives (lift_io (verify_read lab_platform lab_demo node1_leads (''demo-before-'' @ ''17-42'') ''before-failover''))
      (?w1, None, False) (Ok ()) (?w1, None, False)"
    by (rule gives_read) (use lab_stores(2) in \<open>simp_all add: node1_leads_def before_path_def\<close>)
  have health: "gives (wait_for_health lab_platform lab_demo NODE_IDS) (?w, None, False) (Ok ()) (?w, None, False)"
    by (rule gives_health) (simp add: NODE_IDS_def NODES_def)
  note pre = gives_bind [OF gives_setup(1)] gives_bind [OF gives_setup(2)] gives_bind [OF health] gives_bind [OF leader]
    gives_bind [OF gives_setup(3)] gives_bind [OF put] gives_bind [OF get]
  show ?thesis
  proof (cases slow)
    case True
    then have stop: "gives (lift_io (compose_stop lab_platform (compose lab_demo) (l_node_id node1_leads))) (?w1, None, False)
        (Err DemoError) (lab_world (Some ''node1'') 2 kv_store_before g slow, None, False)"
      using gives_commands(2) [of ?w1 "compose lab_demo" None False] by (simp add: node1_leads_def)
    have "gives (run_before lab_platform lab_demo True) (?w, None, False) (Err DemoError)
        (lab_world (Some ''node1'') 2 kv_store_before g slow, None, False)"
      unfolding run_before_def Let_def by (rule pre)+ (rule gives_stop [OF stop])
    then show ?thesis using assms(1) True by simp
  next
    case False
    then have stop: "gives (lift_io (compose_stop lab_platform (compose lab_demo) (l_node_id node1_leads))) (?w1, None, False)
        (Ok ()) (lab_world (Some ''node1'') 2 kv_store_before g slow, None, True)"
      using gives_commands(1) [of ?w1 "compose lab_demo" None False] by (simp add: node1_leads_def)
    have "gives (run_before lab_platform lab_demo True) (?w, None, False)
        (Ok (node1_leads, ''demo-before-'' @ ''17-42'', ''demo-after-'' @ ''17-42''))
        (lab_world (Some ''node1'') 2 kv_store_before g slow, Some (l_node_id node1_leads), True)"
      unfolding run_before_def Let_def
      by (rule pre gives_bind [OF stop] gives_bind [OF gives_marks(1)])+ (rule gives_marks(2))
    then show ?thesis using assms(2) False by (simp add: node1_leads_def)
  qed
qed

lemma lab_index: "int_value (map_of (lab_status nid w) ''commit_index'') = Some 2"
  by (simp add: lab_status_def int_value_def)

lemma run_without_gives:
  "gives (run_without lab_platform lab_demo node1_leads ''demo-before-17-42'' ''demo-after-17-42'')
    (lab_world (Some ''node1'') 2 kv_store_before None False, Some ''node1'', True) (Ok 2)
    (lab_world None 2 kv_store_after None False, None, False)"
proof -
  let ?w = "lab_world (Some ''node1'') 2 kv_store_before None False"
  let ?w1 = "lab_world (Some ''node1'') 2 kv_store_after None False"
  let ?n = "Some ''node1''"
  have leader: "gives (wait_for_stable_leader lab_platform lab_demo (Some (l_node_id node1_leads))) (?w, ?n, True)
      (Ok node2_leads) (?w, ?n, True)"
    by (rule gives_leader [OF lab_says(2)]) (use lab_leaders(2) in \<open>simp only: node1_leads_def demo_leader.simps\<close>)
  have newer: "gives (require (\<not> l_term node2_leads \<le> l_term node1_leads)) z (Ok ()) z" for z
    using gives_marks(3) by (simp add: node1_leads_def node2_leads_def)
  have put: "gives (lift_io (demo_put lab_platform lab_demo node2_leads ''demo-after-17-42'' ''after-failover''))
      (?w, ?n, True) (Ok ()) (?w1, ?n, True)"
    by (rule gives_put) (use lab_stores(3) in \<open>simp_all add: node2_leads_def after_path_def\<close>)
  have get: "gives (lift_io (verify_read lab_platform lab_demo node2_leads ''demo-after-17-42'' ''after-failover''))
      (?w1, ?n, True) (Ok ()) (?w1, ?n, True)"
    "gives (lift_io (verify_read lab_platform lab_demo node2_leads ''demo-before-17-42'' ''before-failover''))
      (?w1, ?n, True) (Ok ()) (?w1, ?n, True)"
    by (rule gives_read; use lab_stores(4,5) in \<open>simp add: node2_leads_def after_path_def before_path_def\<close>)+
  have index: "gives (leader_commit_index lab_platform lab_demo node2_leads) (?w1, ?n, True) (Ok 2) (?w1, ?n, True)"
    by (rule gives_index [where status = "lab_status ''node2'' ?w1"])
      (simp_all add: node2_leads_def lab_said_world lab_replies lab_index)
  have start: "gives (lift_io (compose_start lab_platform (compose lab_demo) (l_node_id node1_leads))) (?w1, ?n, True)
      (Ok ()) (lab_world None 2 kv_store_after None False, ?n, False)"
    using gives_commands(3) [of "compose lab_demo" ?w1 ?n True] by (simp add: node1_leads_def)
  show ?thesis
    unfolding run_without_def
    by (rule gives_bind [OF leader] gives_bind [OF newer] gives_bind [OF put] gives_bind [OF get(1)] gives_bind [OF get(2)]
        gives_bind [OF index] gives_bind [OF start] gives_bind [OF gives_marks(1)])+ (rule gives_marks(2))
qed

lemma run_after_gives:
  "gives (run_after lab_platform lab_demo node1_leads ''demo-after-17-42'' 2)
    (lab_world None 2 kv_store_after None False, None, False) (Ok ())
    (lab_world None 2 kv_store_after None False, None, False)"
proof -
  let ?w = "lab_world None 2 kv_store_after None False"
  have health: "gives (wait_for_health lab_platform lab_demo [l_node_id node1_leads]) (?w, None, False) (Ok ()) (?w, None, False)"
    by (rule gives_health) (simp add: node1_leads_def)
  have catch: "gives (wait_for_catch_up lab_platform lab_demo 2) (?w, None, False) (Ok ()) (?w, None, False)"
    by (rule gives_catch_up [OF lab_says(1) lab_leaders(4)])
  have leader: "gives (wait_for_stable_leader lab_platform lab_demo None) (?w, None, False) (Ok node2_leads) (?w, None, False)"
    by (rule gives_leader [OF lab_says(1) lab_leaders(3)])
  have get: "gives (lift_io (verify_read lab_platform lab_demo node2_leads ''demo-after-17-42'' ''after-failover''))
      (?w, None, False) (Ok ()) (?w, None, False)"
    by (rule gives_read) (use lab_stores(4) in \<open>simp_all add: node2_leads_def after_path_def\<close>)
  show ?thesis
    unfolding run_after_def
    by (rule gives_bind [OF health] gives_bind [OF catch] gives_bind [OF leader] gives_bind [OF get])+
      (rule gives_metrics, simp)
qed

lemma lab_passes:
  "gives (demo_run lab_platform lab_demo True) (lab_world None 1 [] None False, None, False) (Ok ())
    (lab_world None 2 kv_store_after None False, None, False)"
proof -
  have before: "gives (run_before lab_platform lab_demo True) (lab_world None 1 [] None False, None, False)
      (Ok (node1_leads, ''demo-before-17-42'', ''demo-after-17-42''))
      (lab_world (Some ''node1'') 2 kv_store_before None False, Some ''node1'', True)"
    using run_before_gives [of False _ None] by simp
  show ?thesis
    unfolding demo_run_def
    by (rule gives_bind [OF before], simp only: prod.case)
      (rule gives_bind [OF run_without_gives], rule run_after_gives)
qed

text \<open>A reply of the third node that is neither a \<open>DemoError\<close> nor its cause ends the run.\<close>

lemma lab_glitch:
  assumes "json_reply outcome = Err e" "e \<noteq> DemoError"
  shows "gives (demo_run lab_platform lab_demo True) (lab_world None 1 [] (Some outcome) False, None, False) (Err e)
    (lab_world (Some ''node1'') 2 kv_store_before (Some outcome) False, Some ''node1'', True)"
proof -
  let ?w = "lab_world (Some ''node1'') 2 kv_store_before (Some outcome) False"
  have before: "gives (run_before lab_platform lab_demo True) (lab_world None 1 [] (Some outcome) False, None, False)
      (Ok (node1_leads, ''demo-before-17-42'', ''demo-after-17-42'')) (?w, Some ''node1'', True)"
    using run_before_gives [of False _ "Some outcome"] by simp
  have wait: "gives (wait_for_stable_leader lab_platform lab_demo (Some (l_node_id node1_leads))) (?w, Some ''node1'', True)
      (Err e) (?w, Some ''node1'', True)"
    by (rule gives_no_leader [OF lab_says(3) [OF assms]])
  show ?thesis
    unfolding demo_run_def run_without_def
    by (rule gives_bind [OF before], simp only: prod.case) (rule gives_stop, rule gives_stop [OF wait])
qed

section \<open>main\<close>

definition one_sample :: demo_args where
  "one_sample = \<lparr>arg_timeout = 60, arg_poll_interval = 1, arg_stable_samples = 1, no_build = False\<rparr>"

lemma lab_main:
  "demo_main lab_platform one_sample (lab_start g slow) =
     (case demo_run lab_platform lab_demo True (lab_start g slow) of
        None \<Rightarrow> None
      | Some (s, Inr _) \<Rightarrow> Some (s, Ok 0)
      | Some (s, Inl e) \<Rightarrow>
          Some (if e \<in> {DemoError, ValueError} then demo_failed lab_platform lab_demo s else (s, Err e)))"
  by (simp add: demo_main_def docker_compose_init_def failover_demo_init_def one_sample_def lab_start_def flip: lab_demo_def)

lemma lab_start_summary: "summary (lab_start g slow) = (lab_world None 1 [] g slow, None, False)"
  by (simp add: lab_start_def summary_def lab_world_def)

lemma lab_diagnostics:
  "\<exists>s'. compose_diagnostics lab_platform (compose lab_demo) s = (s', Ok [(''docker compose ps'', Some []), (''recent node logs'', Some [])])
     \<and> world s' = world s"
proof -
  have r: "lab_run (docker_command arguments) seconds v = (v, Completed 0 [] [])"
    if "arguments \<in> {[''ps''], [''logs'', ''--tail'', ''80'', ''node1'', ''node2'', ''node3'']}" for arguments seconds v
    using that by (auto simp: lab_run_def docker_command_def)
  have c: "\<exists>s'. compose_run lab_platform dc arguments False s = (s', Ok ([], [])) \<and> world s' = world s"
    if "arguments \<in> {[''ps''], [''logs'', ''--tail'', ''80'', ''node1'', ''node2'', ''node3'']}" for arguments dc and s :: "lab demo_state"
    using r [OF that] by (simp add: compose_run_def lab_platform_def)
  obtain s1 where 1: "compose_run lab_platform (compose lab_demo) [''ps''] False s = (s1, Ok ([], []))" "world s1 = world s"
    using c [of "[''ps'']" "compose lab_demo" s] by auto
  obtain s2 where "compose_run lab_platform (compose lab_demo) [''logs'', ''--tail'', ''80'', ''node1'', ''node2'', ''node3''] False s1 = (s2, Ok ([], []))"
      "world s2 = world s"
    using c [of "[''logs'', ''--tail'', ''80'', ''node1'', ''node2'', ''node3'']" "compose lab_demo" s1] 1(2) by auto
  moreover have "py_strip [] = []" by (simp add: py_strip_def)
  ultimately show ?thesis
    using 1 by (simp add: compose_diagnostics_def NODE_IDS_def NODES_def)
qed

lemma lab_main_passes: "\<exists>s'. demo_main lab_platform one_sample (lab_start None False) = Some (s', Ok 0)"
  using lab_passes lab_start_summary [of None False] unfolding gives_def lab_main by fastforce

lemma lab_main_glitch:
  assumes "json_reply outcome = Err e" "e \<noteq> DemoError"
  shows "\<exists>s'. demo_main lab_platform one_sample (lab_start (Some outcome) False) = Some (s', Err e) \<and>
    down (io_history s') ''node1''"
proof -
  let ?w = "lab_world (Some ''node1'') 2 kv_store_before (Some outcome) False"
  obtain s1 where s1: "demo_run lab_platform lab_demo True (lab_start (Some outcome) False) = Some (s1, Err e)"
      "summary s1 = (?w, Some ''node1'', True)"
    using lab_glitch [OF assms] lab_start_summary [of "Some outcome" False] unfolding gives_def by blast
  obtain s2 sections where s2: "compose_diagnostics lab_platform (compose lab_demo) s1 = (s2, Ok sections)" "world s2 = ?w"
    using lab_diagnostics [of s1] s1(2) by (auto simp: summary_def)
  obtain s3 where s3: "collect_statuses lab_platform lab_demo s2 = (s3, Err e)"
    using lab_collect [of lab_demo s2] lab_says(3) [OF assms] s2(2) by auto
  have failed: "demo_failed lab_platform lab_demo s1 = (s3, Err e)"
    by (simp add: demo_failed_def demo_diagnostics_def s2(1) s3)
  have "quiet_step s1 s3"
    using silent.diagnostics [of s1 lab_platform lab_demo] by (simp add: demo_diagnostics_def s2(1) s3)
  then have "down (io_history s3) ''node1''"
    using s1(2) by (auto simp: quiet_step_def summary_def down_quiet)
  moreover have "down (io_history s1) ''node1''" using s1(2) by (simp add: summary_def)
  ultimately show ?thesis by (simp add: lab_main s1(1) failed)
qed

text \<open>A stop that exceeds its timeout stops the node, but the attribute does not name it.\<close>

lemma lab_main_slow_stop:
  "\<exists>s'. demo_main lab_platform one_sample (lab_start None True) = Some (s', Ok 1) \<and>
    lab_down (world s') = Some ''node1''"
proof -
  let ?w = "lab_world (Some ''node1'') 2 kv_store_before None True"
  have "gives (run_before lab_platform lab_demo True) (lab_world None 1 [] None True, None, False) (Err DemoError) (?w, None, False)"
    using run_before_gives [of True "Err DemoError" None] by simp
  from gives_stop [OF this] obtain s1 where s1: "demo_run lab_platform lab_demo True (lab_start None True) = Some (s1, Err DemoError)"
      "summary s1 = (?w, None, False)"
    using lab_start_summary [of None True] unfolding gives_def demo_run_def by blast
  obtain s2 sections where s2: "compose_diagnostics lab_platform (compose lab_demo) s1 = (s2, Ok sections)" "world s2 = ?w"
    using lab_diagnostics [of s1] s1(2) by (auto simp: summary_def)
  obtain s3 where s3: "collect_statuses lab_platform lab_demo s2 =
      (s3, Ok (map (\<lambda>nid. (nid, lab_status nid ?w)) [''node2'', ''node3'']))" "world s3 = ?w"
    using lab_collect [of lab_demo s2] lab_says(2) s2(2) by auto
  have q: "quiet_step s1 s3"
    using silent.diagnostics [of s1 lab_platform lab_demo] by (simp add: demo_diagnostics_def s2(1) s3)
  then have failed: "demo_failed lab_platform lab_demo s1 = (s3, Ok 1)"
    using s1(2) by (simp add: demo_failed_def demo_diagnostics_def s2(1) s3 quiet_step_def summary_def)
  show ?thesis by (simp add: lab_main s1(1) failed s3(2))
qed

text \<open>The clock of this platform is one the termination of \<^verbatim>\<open>main\<close> asks for.\<close>

lemma lab_steady: "steady lab_platform (\<lambda>w. of_int (lab_time w))"
proof -
  have answer: "lab_time (fst (lab_answer nid path payload w)) = lab_time w" for nid path payload w
    by (auto simp: lab_answer_def split: option.splits json.splits list.splits prod.splits)
  have "lab_time (fst (lab_run command seconds w)) = lab_time w" for command seconds w
    by (auto simp: lab_run_def split: list.splits)
  moreover have "lab_time (fst (lab_open request seconds w)) = lab_time w" for request seconds w
    using answer by (auto simp: lab_open_def split: option.splits)
  ultimately show ?thesis by (simp add: steady_def lab_platform_def le_of_int_ceiling)
qed

lemma lab_main_stops:
  assumes "demo_main lab_platform one_sample (lab_start None False) = Some (s', Ok 0)"
  shows "\<exists>nid. \<exists>ev \<in> set (io_history s'). stop_done nid ev"
proof -
  obtain s1 where run: "demo_run lab_platform lab_demo True (lab_start None False) = Some (s1, Ok ())"
    using lab_passes lab_start_summary [of None False] unfolding gives_def by blast
  then have s1: "s1 = s'" using assms by (simp add: lab_main)
  have pos: "0 < stable_samples lab_demo" by (simp add: lab_demo_def)
  show ?thesis
  proof (rule demo_run_passes [OF run pos])
    fix initial events e1 e2 e3 e4 e5 e6 e7 e8 e9 caught
    assume h: "io_history s1 = io_history (lab_start None False) @ events"
      and sub: "subseq ([e1, e2, e3, e4, e5, e6, e7, e8] @ caught @ [e9]) events" and stop: "stop_done (l_node_id initial) e3"
    have "e3 \<in> set events" using list_emb_set [OF sub, of e3] by auto
    then show ?thesis using h s1 stop by auto
  qed
qed

end
