(* ===== verification/DemoCluster.thy ===== *)
theory DemoCluster
  imports DemoResults ClientApi Cluster
begin

text \<open>
  The demonstration against the model of the cluster: what its samples show when the nodes answer
  \<^verbatim>\<open>/cluster/status\<close> as their route does. A sample is not taken in one state: each status is that of
  some state the cluster was in before the state \<open>C\<close> of the observation.
\<close>

definition seen :: "string list \<Rightarrow> cluster \<Rightarrow> statuses \<Rightarrow> bool" where
  "seen members C sts =
     (\<forall>(nid, status) \<in> set sts. nid \<in> set members \<and>
        (\<exists>D. reachable members D \<and> (cluster_step members)\<^sup>*\<^sup>* D C \<and>
           cluster_status (nodes D nid) = Returned (JObj status)))"

lemma cluster_status_fields:
  assumes "cluster_status n = Returned (JObj status)"
  shows "map_of status ''role'' = Some (JStr (role_value (role (n_state n))))"
    "map_of status ''current_term'' = Some (JInt (current_term (n_state n)))"
    "map_of status ''commit_index'' = Some (JInt (commit_index (n_state n)))"
    "map_of status ''last_applied'' = Some (JInt (last_applied (n_state n)))"
    "map_of status ''log_last_index'' = Some (JInt (last_index (n_log n)))"
  using assms by (auto simp: cluster_status_def status_to_dict_def node_status_def split: sum.splits)

lemma cluster_steps_leaders: "(cluster_step members)\<^sup>*\<^sup>* D C \<Longrightarrow> leaders D \<subseteq> leaders C"
  by (induction rule: rtranclp_induct) (use leaders_mono in blast)+

lemma cluster_steps_reachable: "(cluster_step members)\<^sup>*\<^sup>* D C \<Longrightarrow> reachable members D \<Longrightarrow> reachable members C"
  by (induction rule: rtranclp_induct) (auto intro: reachable.step)

lemma seen_leader:
  assumes "seen members C sts" "select_leader sts excluded = Some ldr"
  shows "(l_term ldr, l_node_id ldr) \<in> leaders C" "reachable members C"
proof -
  obtain status where st: "(l_node_id ldr, status) \<in> set sts" "map_of status ''role'' = Some (JStr ''leader'')"
      "int_value (map_of status ''current_term'') = Some (l_term ldr)"
    using select_leader_Some(1) [OF assms(2)] leaders_of_mem by blast
  obtain D where D: "l_node_id ldr \<in> set members" "reachable members D" "(cluster_step members)\<^sup>*\<^sup>* D C"
      "cluster_status (nodes D (l_node_id ldr)) = Returned (JObj status)"
    using assms(1) st(1) by (auto simp: seen_def)
  have "role (n_state (nodes D (l_node_id ldr))) = LEADER" "current_term (n_state (nodes D (l_node_id ldr))) = l_term ldr"
    using st(2,3) cluster_status_fields [OF D(4)]
    by (cases "role (n_state (nodes D (l_node_id ldr)))"; simp add: int_value_def)+
  then show "(l_term ldr, l_node_id ldr) \<in> leaders C" "reachable members C"
    using leaders_record [OF D(2,1)] cluster_steps_leaders [OF D(3)] cluster_steps_reachable [OF D(3,2)] by auto
qed

lemma seen_leaders_agree:
  assumes "seen members C sts" "seen members C sts'"
    and "select_leader sts excluded = Some ldr" "select_leader sts' excluded' = Some ldr'" "l_term ldr = l_term ldr'"
  shows "ldr = ldr'"
  using leaders_unique [OF seen_leader(2) [OF assms(1,3)]] seen_leader(1) [OF assms(1,3)] seen_leader(1) [OF assms(2,4)] assms(5)
  by simp

text \<open>A node that does not lag has committed, applied and stored at least as much as asked.\<close>

lemma seen_caught_up:
  assumes "cluster_status n = Returned (JObj status)" "\<not> lags target status"
  shows "target \<le> commit_index (n_state n)" "target \<le> last_applied (n_state n)" "target \<le> last_index (n_log n)"
  using assms(2) cluster_status_fields [OF assms(1)] by (auto simp: lags_def int_value_def)

lemma cluster_status_Returned:
  assumes "node_ok n"
  obtains status where "cluster_status n = Returned (JObj status)"
proof -
  obtain st where "node_status n = Ok st" by (rule node_status_reports [OF assms])
  then show ?thesis using that by (simp add: cluster_status_def status_to_dict_def)
qed

end
