(* ===== verification/NodeApp.thy ===== *)
theory NodeApp
  imports Runtime
begin

text \<open>
  The HTTP application of a node as \<^verbatim>\<open>create_node_app\<close> puts it together: the routes of the node behind
  one entry, the middleware that counts requests, the metrics route, and \<^verbatim>\<open>main\<close>, which builds the
  application from the command line. FastAPI is not part of the repository: what it answers itself
  (no such route, no such method, a body that is not valid) is the parameter \<open>framework\<close>. After any
  sequence of requests the counters are the numbers of requests answered.
\<close>

section \<open>Routes\<close>

record app_request =
  req_method :: string
  req_path :: string
  req_body :: "json option"

text \<open>The path template \<^verbatim>\<open>/kv/{key}\<close>: one segment, not empty.\<close>

definition key_of :: "string \<Rightarrow> string option" where
  "key_of path =
     (let key = drop 4 path in
      if starts_with ''/kv/'' path \<and> key \<noteq> [] \<and> CHR ''/'' \<notin> set key then Some key else None)"

definition raft_paths :: "string list" where
  "raft_paths =
     [''/raft/request-vote'', ''/raft/append-entries'', ''/raft/install-snapshot'', ''/raft/timeout-now'']"

text \<open>The template of the route a path belongs to, whatever the method.\<close>

definition route_path :: "string \<Rightarrow> string option" where
  "route_path path =
     (if path \<in> set ([''/metrics'', ''/health''] @ raft_paths @ [''/cluster/status'']) then Some path
      else if key_of path \<noteq> None then Some ''/kv/{key}'' else None)"

text \<open>
  The calls the key routes make, on the node and whatever else \<open>'x\<close> they change, the clock the
  handlers read, and the rendering of the registry.
\<close>

record 'x app_calls =
  call_put :: "string \<Rightarrow> string \<Rightarrow> (raft_node \<times> 'x) write_call"
  call_get :: "string \<Rightarrow> raft_node \<times> 'x \<Rightarrow> (raft_node \<times> 'x) \<times> string option result"
  call_delete :: "string \<Rightarrow> (raft_node \<times> 'x) write_call"
  call_submit :: "(raft_command \<Rightarrow> (raft_node \<times> 'x) write_call) option"
  handler_clock :: clock
  render :: "metric_call list \<Rightarrow> string"
  framework :: "app_request \<Rightarrow> http_outcome"

text \<open>The body of a PUT as the model \<^verbatim>\<open>PutRequest\<close> accepts it.\<close>

definition put_body :: "json option \<Rightarrow> string option" where
  "put_body body =
     (case body of
        Some (JObj d) \<Rightarrow> (case map_of d ''value'' of Some (JStr v) \<Rightarrow> Some v | _ \<Rightarrow> None)
      | _ \<Rightarrow> None)"

text \<open>The router under \<^verbatim>\<open>/kv\<close>; \<open>None\<close> is left to the framework.\<close>

definition cluster_router ::
  "'x app_calls \<Rightarrow> string \<Rightarrow> app_request \<Rightarrow> raft_node \<times> 'x \<Rightarrow> ((raft_node \<times> 'x) \<times> http_outcome) option" where
  "cluster_router c key request s =
     (if req_method request = ''PUT''
      then map_option (\<lambda>v. put_key fst (call_put c) (call_submit c) key v s) (put_body (req_body request))
      else if req_method request = ''GET'' then Some (get_key fst (call_get c) key s)
      else if req_method request = ''DELETE'' then Some (delete_key fst (call_delete c) (call_submit c) key s)
      else None)"

text \<open>The router under \<^verbatim>\<open>/raft\<close>: every route is a POST of an object.\<close>

definition raft_app ::
  "clock \<Rightarrow> app_request \<Rightarrow> raft_node \<Rightarrow> (raft_node \<times> http_outcome) option" where
  "raft_app c request n =
     (case req_body request of
        Some (JObj d) \<Rightarrow>
          if req_method request = ''POST'' then raft_router c (req_path request) (JObj d) n else None
      | _ \<Rightarrow> None)"

definition admin_router :: "app_request \<Rightarrow> raft_node \<Rightarrow> http_outcome option" where
  "admin_router request n =
     (if req_path request = ''/cluster'' @ ''/status'' \<and> req_method request = ''GET''
      then Some (cluster_status n) else None)"

definition metrics_route ::
  "'x app_calls \<Rightarrow> raft_node \<Rightarrow> raft_metrics \<Rightarrow> raft_metrics \<times> http_outcome" where
  "metrics_route c n m =
     (case update_from_node n m of
        Inl e \<Rightarrow> (m, Raised e)
      | Inr m \<Rightarrow> (m, Returned (JStr (render c (m_calls m)))))"

section \<open>The application\<close>

type_synonym 'x app_state = "(raft_node \<times> 'x) \<times> raft_metrics"

definition call_next :: "'x app_calls \<Rightarrow> app_request \<Rightarrow> 'x app_state \<Rightarrow> 'x app_state \<times> http_outcome" where
  "call_next c request s =
     (case s of ((n, x), m) \<Rightarrow>
       let path = req_path request; is_get = (req_method request = ''GET'') in
       if path = ''/metrics''
       then if is_get then (case metrics_route c n m of (m, out) \<Rightarrow> (((n, x), m), out)) else (s, framework c request)
       else if path = ''/health''
       then (s, if is_get then Returned (health n) else framework c request)
       else if path \<in> set raft_paths
       then (case raft_app (handler_clock c) request n of
               None \<Rightarrow> (s, framework c request)
             | Some (n, out) \<Rightarrow> (((n, x), m), out))
       else if path = ''/cluster/status''
       then (s, case admin_router request n of None \<Rightarrow> framework c request | Some out \<Rightarrow> out)
       else (case key_of path of
               None \<Rightarrow> (s, framework c request)
             | Some key \<Rightarrow>
                 (case cluster_router c key request (n, x) of
                    None \<Rightarrow> (s, framework c request)
                  | Some (nx, out) \<Rightarrow> ((nx, m), out))))"

text \<open>The middleware: an exception goes through it, anything answered is counted and timed.\<close>

definition record_http_metrics ::
  "string \<Rightarrow> app_request \<Rightarrow> int \<Rightarrow> real \<Rightarrow> raft_metrics \<Rightarrow> raft_metrics" where
  "record_http_metrics nid request status duration =
     (let path = (case route_path (req_path request) of None \<Rightarrow> ''<unmatched>'' | Some t \<Rightarrow> t) in
      emit [CounterInc ''pyraftkv_http_requests_total'' [nid, req_method request, path, show_int status] 1,
            Observed ''pyraftkv_http_request_duration_seconds'' [nid, req_method request, path] duration])"

definition node_app ::
  "'x app_calls \<Rightarrow> app_request \<times> real \<Rightarrow> 'x app_state \<Rightarrow> 'x app_state \<times> http_outcome" where
  "node_app c timed s =
     (case timed of (request, duration) \<Rightarrow>
       (case call_next c request s of
          (((n, x), m), out) \<Rightarrow>
            (case outcome_status out of
               None \<Rightarrow> (((n, x), m), out)
             | Some status \<Rightarrow> (((n, x), record_http_metrics (n_id n) request status duration m), out))))"

fun serve :: "'x app_calls \<Rightarrow> (app_request \<times> real) list \<Rightarrow> 'x app_state \<Rightarrow> 'x app_state \<times> http_outcome list" where
  "serve c [] s = (s, [])"
| "serve c (timed # rest) s =
     (case node_app c timed s of
        (s, out) \<Rightarrow> (case serve c rest s of (s, outs) \<Rightarrow> (s, out # outs)))"

text \<open>
  \<^verbatim>\<open>main\<close>, from the parsed arguments: \<open>None\<close> where the parser ends the program, at a peer it cannot
  read, one listed twice or the node itself.
\<close>

record node_args =
  arg_node_id :: string
  arg_host :: string
  arg_port :: int
  arg_peers :: "string list"
  arg_data_dir :: "string option"

definition node_main ::
  "clock \<Rightarrow> node_args \<Rightarrow> (string \<Rightarrow> disk) \<Rightarrow> (string \<Rightarrow> disk) \<times> node_runtime result option" where
  "node_main c args files =
     (case map_result parse_peer (arg_peers args) of
        Inl e \<Rightarrow> (files, None)
      | Inr parsed \<Rightarrow>
          (case main_peers (arg_node_id args) parsed of
             None \<Rightarrow> (files, None)
           | Some peers \<Rightarrow>
               (case create_runtime c (arg_node_id args) peers (arg_data_dir args) files of
                  (files, Inl e) \<Rightarrow> (files, Some (Err e))
                | (files, Inr rt) \<Rightarrow> (files, Some (create_node_app rt)))))"

section \<open>The counters\<close>

text \<open>
  The client library adds up the increments of a counter: the requests counted with a method, a
  path and a status, whatever the node's label.
\<close>

fun request_increment :: "string list \<Rightarrow> metric_call \<Rightarrow> int" where
  "request_increment labels (CounterInc name ls k) =
     (if name = ''pyraftkv_http_requests_total'' \<and> tl ls = labels then k else 0)"
| "request_increment labels _ = 0"

definition requests_counted :: "string \<Rightarrow> string \<Rightarrow> int \<Rightarrow> raft_metrics \<Rightarrow> int" where
  "requests_counted meth path status m =
     sum_list (map (request_increment [meth, path, show_int status]) (m_calls m))"

definition path_label :: "app_request \<Rightarrow> string" where
  "path_label request = (case route_path (req_path request) of None \<Rightarrow> ''<unmatched>'' | Some t \<Rightarrow> t)"

lemma update_keeps_counters:
  "update_from_node n m = Ok m' \<Longrightarrow> requests_counted meth path status m' = requests_counted meth path status m"
  by (auto simp: update_from_node_def Let_def role_gauges_def lag_gauges_def emit_def requests_counted_def comp_def
      split: sum.splits)

lemma show_int_inject: "show_int a = show_int b \<longleftrightarrow> a = b"
  using int_of_show_int by (metis option.inject)

lemma record_http_counts:
  "requests_counted meth path status (record_http_metrics nid request st duration m) =
     requests_counted meth path status m +
     (if req_method request = meth \<and> path_label request = path \<and> st = status then 1 else 0)"
  by (auto simp: requests_counted_def record_http_metrics_def path_label_def emit_def Let_def show_int_inject)

lemma call_next_counters:
  assumes "call_next c request ((n, x), m) = ((nx, m'), out)"
  shows "requests_counted meth path status m' = requests_counted meth path status m"
proof -
  have "m' = m \<or> update_from_node n m = Ok m'"
    using assms by (auto simp: call_next_def metrics_route_def Let_def split: if_splits prod.splits sum.splits option.splits)
  then show ?thesis using update_keeps_counters by blast
qed

definition counts_as :: "string \<Rightarrow> string \<Rightarrow> int \<Rightarrow> (app_request \<times> real) \<times> http_outcome \<Rightarrow> bool" where
  "counts_as meth path status answered =
     (case answered of ((request, _), out) \<Rightarrow>
        req_method request = meth \<and> path_label request = path \<and> outcome_status out = Some status)"

lemma node_app_counts:
  assumes "node_app c timed ((n, x), m) = ((nx, m'), out)"
  shows "requests_counted meth path status m' =
    requests_counted meth path status m + (if counts_as meth path status (timed, out) then 1 else 0)"
proof -
  obtain request duration where t: "timed = (request, duration)" by fastforce
  obtain n2 x2 m2 out2 where r: "call_next c request ((n, x), m) = (((n2, x2), m2), out2)" by (metis prod.exhaust)
  show ?thesis
    using assms call_next_counters [OF r] record_http_counts
    by (auto simp: node_app_def t r counts_as_def split: option.splits)
qed

lemma serve_counts:
  "serve c reqs ((n, x), m) = ((nx, m'), outs) \<Longrightarrow>
    requests_counted meth path status m' = requests_counted meth path status m +
      int (length (filter (counts_as meth path status) (zip reqs outs)))"
proof (induction reqs arbitrary: n x m outs)
  case (Cons timed reqs)
  obtain n2 x2 m2 out where r: "node_app c timed ((n, x), m) = (((n2, x2), m2), out)" by (metis prod.exhaust)
  obtain rest where "serve c reqs ((n2, x2), m2) = ((nx, m'), rest)" "outs = out # rest"
    using Cons.prems by (auto simp: r split: prod.splits)
  then show ?case using Cons.IH node_app_counts [OF r] by simp
qed simp

section \<open>The routes of the node\<close>

text \<open>A request the routes of the node cannot answer leaves node and registry as they are.\<close>

lemma call_next_reads:
  assumes "req_method request = ''GET''" "key_of (req_path request) = None"
    "call_next c request ((n, x), m) = (((n', x'), m'), out)"
  shows "n' = n" "x' = x"
  using assms
  by (auto simp: call_next_def metrics_route_def raft_app_def Let_def
      split: if_splits prod.splits sum.splits option.splits json.splits)

lemma call_next_kv:
  assumes "key \<noteq> []" "CHR ''/'' \<notin> set key" "req_path request = ''/kv/'' @ key"
  shows "call_next c request ((n, x), m) =
    (case cluster_router c key request (n, x) of
       None \<Rightarrow> (((n, x), m), framework c request)
     | Some (nx, out) \<Rightarrow> ((nx, m), out))"
  using assms by (simp add: call_next_def key_of_def starts_with_def raft_paths_def Let_def)

lemma call_next_raft:
  assumes "req_path request \<in> set raft_paths" "req_method request = ''POST''" "req_body request = Some (JObj d)"
  shows "call_next c request ((n, x), m) =
    (case raft_router (handler_clock c) (req_path request) (JObj d) n of
       None \<Rightarrow> (((n, x), m), framework c request)
     | Some (n', out) \<Rightarrow> (((n', x), m), out))"
  using assms by (auto simp: call_next_def raft_app_def raft_paths_def split: option.splits)

section \<open>main\<close>

text \<open>A node that comes up from \<^verbatim>\<open>main\<close> is a member with the peers given and reports its gauges.\<close>

lemma node_main_empty:
  assumes "map_result parse_peer (arg_peers args) = Ok parsed" "main_peers (arg_node_id args) parsed = Some peers"
    and path: "path = (case arg_data_dir args of None \<Rightarrow> ''data/'' @ arg_node_id args | Some p \<Rightarrow> p)" "files path = empty_disk"
  obtains rt where "node_main c args files = (files, Some (Ok rt))" "node_ok (rt_node rt)"
    "n_id (rt_node rt) = arg_node_id args" "set (n_members (rt_node rt)) = insert (arg_node_id args) (fst ` set parsed)"
proof -
  obtain peers0 where p: "collect_peers parsed [] = Some peers0" "map_of peers0 (arg_node_id args) = None" "peers0 = peers"
    using assms(2) by (auto simp: main_peers_def split: option.splits if_splits)
  have P: "dict_wf peers" "map_of peers = map_of parsed"
    using collect_peers_Some [OF p(1)] p(3) by auto
  have keys: "fst ` set peers = fst ` set parsed"
    using P(2) by (metis dom_map_of_conv_image_fst)
  obtain rt where rt: "create_runtime c (arg_node_id args) peers (arg_data_dir args) files = (files, Ok rt)" "node_ok (rt_node rt)"
      "pred_option metrics_ok (rt_metrics rt)" "n_id (rt_node rt) = arg_node_id args"
      "set (n_members (rt_node rt)) = insert (arg_node_id args) (fst ` set peers)"
    using create_runtime_empty [where files = files and nid = "arg_node_id args" and c = c, OF p(2) [unfolded p(3)] P(1) path]
    by blast
  define n where "n = set_observer (Some []) (rt_node rt)"
  have n: "node_ok n"
    unfolding n_def by (rule node_ok_same [OF rt(2)]) (simp_all add: set_observer_def)
  define m where "m = (case rt_metrics rt of None \<Rightarrow> metrics_init (n_id (rt_node rt)) | Some m \<Rightarrow> m)"
  have "metrics_ok m" using rt(3) metrics_ok_init by (auto simp: m_def split: option.splits)
  then obtain m' where "update_from_node n m = Ok m'" using update_ok [OF n] by blast
  then have "create_node_app rt = Ok (rt\<lparr>rt_node := n, rt_metrics := Some m'\<rparr>)"
    by (simp add: create_node_app_def n_def m_def)
  then show ?thesis
    using that [of "rt\<lparr>rt_node := n, rt_metrics := Some m'\<rparr>"] rt(1,4,5) assms(1,2) n keys
    by (simp add: node_main_def n_def set_observer_def)
qed

end
