(* ===== verification/AtomicFile.thy ===== *)
theory AtomicFile
  imports RaftPrelude
begin

text \<open>
  The system calls of \<^verbatim>\<open>RaftPersistence._atomic_write\<close> on a file system that can lose power. POSIX
  promises only what \<^verbatim>\<open>fsync\<close> was asked for: the contents of a file are on the disk after a sync of
  the file, and the directory may be found as it was before any of the changes made to it since it
  was last synced, which the code never does. So at any moment of any sequence of writes a power
  cut leaves a whole text under the path, the one being written or an earlier one; and a write
  that has returned can be undone by it. The theory \<open>Persistence\<close> takes the effect of the call, the
  replacement of the file, for granted.
\<close>

section \<open>The file system\<close>

text \<open>
  Names lead to inodes. \<open>earlier\<close> are the directories before the changes since the last sync,
  \<open>synced\<close> the inodes whose contents are on the disk. A character is of any type.
\<close>

type_synonym directory = "(string, nat) dict"

record 'a file_system =
  directory :: directory
  earlier :: "directory list"
  contents :: "nat \<Rightarrow> 'a list"
  synced :: "nat set"
  next_inode :: nat

definition read_file :: "'a file_system \<Rightarrow> string \<Rightarrow> 'a list option" where
  "read_file f name = map_option (contents f) (map_of (directory f) name)"

definition change_directory :: "directory \<Rightarrow> 'a file_system \<Rightarrow> 'a file_system" where
  "change_directory d f = f\<lparr>directory := d, earlier := directory f # earlier f\<rparr>"

definition mkstemp :: "string \<Rightarrow> 'a file_system \<Rightarrow> 'a file_system \<times> nat" where
  "mkstemp temp f =
     (let fd = next_inode f;
          f = change_directory (AList.update temp fd (directory f)) f
      in (f\<lparr>contents := (contents f)(fd := []), synced := synced f - {fd}, next_inode := fd + 1\<rparr>, fd))"

definition write_file :: "nat \<Rightarrow> 'a list \<Rightarrow> 'a file_system \<Rightarrow> 'a file_system" where
  "write_file fd text f = f\<lparr>contents := (contents f)(fd := contents f fd @ text), synced := synced f - {fd}\<rparr>"

definition fsync :: "nat \<Rightarrow> 'a file_system \<Rightarrow> 'a file_system" where
  "fsync fd f = f\<lparr>synced := insert fd (synced f)\<rparr>"

definition unlink :: "string \<Rightarrow> 'a file_system \<Rightarrow> 'a file_system" where
  "unlink name f = change_directory (AList.delete name (directory f)) f"

definition os_replace :: "string \<Rightarrow> string \<Rightarrow> 'a file_system \<Rightarrow> 'a file_system" where
  "os_replace src dst f =
     (case map_of (directory f) src of
        None \<Rightarrow> f
      | Some i \<Rightarrow> change_directory (AList.update dst i (AList.delete src (directory f))) f)"

text \<open>A power cut: the directory or an earlier one, and of the contents what was synced.\<close>

definition power_cut :: "'a file_system \<Rightarrow> 'a file_system \<Rightarrow> bool" where
  "power_cut f g =
     (directory g \<in> set (directory f # earlier f) \<and> (\<forall>i \<in> synced f. contents g i = contents f i))"

section \<open>The atomic write\<close>

text \<open>
  What the calls raise; a dump that fails has written the first characters. \<open>last_unlink\<close> is the
  \<open>unlink\<close> of the \<^verbatim>\<open>except\<close> clause, whose \<open>FileNotFoundError\<close> is ignored.
\<close>

record file_faults =
  at_mkstemp :: "error option"
  at_dump :: "(nat \<times> error) option"
  at_fsync :: "error option"
  at_replace :: "error option"
  at_unlink :: "error option"

definition remove_temp ::
  "file_faults \<Rightarrow> string \<Rightarrow> error \<Rightarrow> 'a file_system list \<Rightarrow> 'a file_system list \<times> unit result" where
  "remove_temp x temp e fs =
     (case at_unlink x of
        Some e' \<Rightarrow> (fs, Err e')
      | None \<Rightarrow> (fs @ [unlink temp (last fs)], Err e))"

text \<open>The states the file system goes through, and the result. \<open>temp\<close> is the name \<^verbatim>\<open>mkstemp\<close> makes up.\<close>

definition atomic_write ::
  "file_faults \<Rightarrow> string \<Rightarrow> string \<Rightarrow> 'a list \<Rightarrow> 'a file_system \<Rightarrow> 'a file_system list \<times> unit result" where
  "atomic_write x temp path text f0 =
     (case at_mkstemp x of
        Some e \<Rightarrow> ([f0], Err e)
      | None \<Rightarrow>
          (case mkstemp temp f0 of
             (f1, fd) \<Rightarrow>
               (case at_dump x of
                  Some (k, e) \<Rightarrow> remove_temp x temp e [f0, f1, write_file fd (take k text) f1]
                | None \<Rightarrow>
                    (let f2 = write_file fd text f1 in
                     (case at_fsync x of
                        Some e \<Rightarrow> remove_temp x temp e [f0, f1, f2]
                      | None \<Rightarrow>
                          (let f3 = fsync fd f2 in
                           (case at_replace x of
                              Some e \<Rightarrow> remove_temp x temp e [f0, f1, f2, f3]
                            | None \<Rightarrow> ([f0, f1, f2, f3, os_replace temp path f3], Ok ()))))))))"

section \<open>Whole or not at all\<close>

text \<open>Wherever the directory is found, the path is absent or leads to one of the texts \<open>S\<close>, synced.\<close>

definition whole :: "'a list option set \<Rightarrow> string \<Rightarrow> 'a file_system \<Rightarrow> bool" where
  "whole S path f =
     (\<forall>d \<in> set (directory f # earlier f).
        case map_of d path of
          None \<Rightarrow> None \<in> S
        | Some i \<Rightarrow> i \<in> synced f \<and> i < next_inode f \<and> Some (contents f i) \<in> S)"

lemma whole_power_cut: "whole S path f \<Longrightarrow> power_cut f g \<Longrightarrow> read_file g path \<in> S"
  unfolding whole_def power_cut_def read_file_def
  by (cases "map_of (directory g) path") (force dest!: bspec)+

lemma whole_read: "whole S path f \<Longrightarrow> read_file f path \<in> S"
  by (rule whole_power_cut [of S path f f]) (simp_all add: power_cut_def)

lemma whole_mono: "whole S path f \<Longrightarrow> S \<subseteq> T \<Longrightarrow> whole T path f"
  unfolding whole_def by (fastforce split: option.splits)

lemma whole_mkstemp:
  assumes "whole S path f" "temp \<noteq> path" "mkstemp temp f = (g, fd)"
  shows "whole S path g" "fd < next_inode g" "map_of (directory g) temp = Some fd" "contents g fd = []"
    "\<And>d. d \<in> set (directory g # earlier g) \<Longrightarrow> map_of d path \<noteq> Some fd"
    "\<And>name. name \<noteq> temp \<Longrightarrow> map_of (directory g) name = map_of (directory f) name"
proof -
  have g: "g = (change_directory (AList.update temp fd (directory f)) f)\<lparr>contents := (contents f)(fd := []),
      synced := synced f - {fd}, next_inode := fd + 1\<rparr>" "fd = next_inode f"
    using assms(3) by (auto simp: mkstemp_def change_directory_def Let_def)
  show "whole S path g" "fd < next_inode g" "map_of (directory g) temp = Some fd" "contents g fd = []"
    "\<And>d. d \<in> set (directory g # earlier g) \<Longrightarrow> map_of d path \<noteq> Some fd"
    "\<And>name. name \<noteq> temp \<Longrightarrow> map_of (directory g) name = map_of (directory f) name"
    using assms(1,2) unfolding g by (auto simp: whole_def change_directory_def split: option.splits)
qed

lemma whole_write:
  "whole S path f \<Longrightarrow> (\<And>d. d \<in> set (directory f # earlier f) \<Longrightarrow> map_of d path \<noteq> Some fd) \<Longrightarrow>
    whole S path (write_file fd text f)"
  unfolding whole_def write_file_def by (fastforce split: option.splits)

lemma whole_fsync: "whole S path f \<Longrightarrow> whole S path (fsync fd f)"
  unfolding whole_def fsync_def by (fastforce split: option.splits)

lemma whole_unlink: "whole S path f \<Longrightarrow> name \<noteq> path \<Longrightarrow> whole S path (unlink name f)"
  unfolding whole_def unlink_def change_directory_def by (simp cong: option.case_cong)

lemma whole_replace:
  assumes "whole S path f" "map_of (directory f) temp = Some fd" "fd \<in> synced f" "fd < next_inode f"
  shows "whole (insert (Some (contents f fd)) S) path (os_replace temp path f)"
  using assms by (auto simp: whole_def os_replace_def change_directory_def split: option.splits)

lemma remove_temp_whole:
  assumes "list_all (whole S path) fs" "fs \<noteq> []" "temp \<noteq> path" "remove_temp x temp e fs = (states, r)"
  shows "list_all (whole S path) states" "states \<noteq> []" "read_file (last states) path = read_file (last fs) path" "r \<noteq> Ok ()"
proof -
  have "whole S path (last fs)" using assms(1,2) by (simp add: list_all_iff)
  then have "whole S path (unlink temp (last fs))" using whole_unlink assms(3) by blast
  then show "list_all (whole S path) states" "states \<noteq> []" "read_file (last states) path = read_file (last fs) path" "r \<noteq> Ok ()"
    using assms by (auto simp: remove_temp_def read_file_def unlink_def change_directory_def split: option.splits)
qed

lemma atomic_write_whole:
  assumes w: "whole S path f" and temp: "temp \<noteq> path" and run: "atomic_write x temp path text f = (states, r)"
  shows "list_all (whole (insert (Some text) S) path) states" "states \<noteq> []"
    "read_file (last states) path = (if r = Ok () then Some text else read_file f path)"
proof -
  let ?T = "insert (Some text) S"
  obtain f1 fd where f1: "mkstemp temp f = (f1, fd)" by fastforce
  note M = whole_mkstemp [OF w temp f1]
  define f2 where "f2 t = write_file fd t f1" for t
  have w2: "whole S path (f2 t)" for t unfolding f2_def by (rule whole_write [OF M(1,5)])
  have w3: "whole S path (fsync fd (f2 text))" by (rule whole_fsync [OF w2])
  have "whole (insert (Some (contents (fsync fd (f2 text)) fd)) S) path (os_replace temp path (fsync fd (f2 text)))"
    by (rule whole_replace [OF w3]) (use M(2,3) in \<open>simp_all add: fsync_def f2_def write_file_def\<close>)
  then have w4: "whole ?T path (os_replace temp path (fsync fd (f2 text)))"
    using M(4) by (simp add: fsync_def f2_def write_file_def)
  have r1: "read_file f1 path = read_file f path"
    using M(5) [of "directory f1"] M(6) [of path] temp f1
    by (cases "map_of (directory f) path")
      (auto simp: read_file_def mkstemp_def change_directory_def Let_def)
  have r2: "read_file (f2 t) path = read_file f path" for t
    using r1 M(5) [of "directory f1"]
    by (cases "map_of (directory f1) path") (auto simp: read_file_def f2_def write_file_def)
  have r3: "read_file (fsync fd (f2 t)) path = read_file f path" for t
    using r2 [of t] by (simp add: read_file_def fsync_def)
  have r4: "read_file (os_replace temp path (fsync fd (f2 text))) path = Some text"
    using M(3,4) by (simp add: read_file_def os_replace_def change_directory_def fsync_def f2_def write_file_def)
  have up: "whole S path g \<Longrightarrow> whole ?T path g" for g by (rule whole_mono) auto
  have all: "list_all (whole ?T path) [f, f1, f2 t]" "list_all (whole ?T path) [f, f1, f2 text, fsync fd (f2 text)]" for t
    using w M(1) w2 w3 up by simp_all
  have part: "list_all (whole ?T path) states \<and> states \<noteq> [] \<and> read_file (last states) path = read_file f path \<and> r \<noteq> Ok ()"
    if "remove_temp x temp e fs = (states, r)" "fs = [f, f1, f2 t] \<or> fs = [f, f1, f2 text, fsync fd (f2 text)]" for e fs t
    using remove_temp_whole [OF _ _ temp that(1), of ?T] that(2) all r2 r3 by auto
  have "list_all (whole ?T path) states \<and> states \<noteq> [] \<and>
      read_file (last states) path = (if r = Ok () then Some text else read_file f path)"
  proof (cases "at_mkstemp x = None \<and> at_dump x = None \<and> at_fsync x = None \<and> at_replace x = None")
    case True
    then have "states = [f, f1, f2 text, fsync fd (f2 text), os_replace temp path (fsync fd (f2 text))]" "r = Ok ()"
      using run by (auto simp: atomic_write_def f1 f2_def Let_def)
    then show ?thesis using all(2) w4 r4 by simp
  next
    case False
    then show ?thesis
      using run part w up by (fastforce simp: atomic_write_def f1 f2_def Let_def split: option.splits prod.splits)
  qed
  then show "list_all (whole ?T path) states" "states \<noteq> []"
    "read_file (last states) path = (if r = Ok () then Some text else read_file f path)"
    by blast+
qed

text \<open>The directory is not synced: a write that has returned may be found undone.\<close>

lemma atomic_write_undone:
  assumes w: "whole S path f" and run: "atomic_write x temp path text f = (states, Ok ())"
  shows "\<exists>h. power_cut (last states) h \<and> read_file h path = read_file f path"
proof -
  obtain f1 fd where f1: "mkstemp temp f = (f1, fd)" by fastforce
  let ?f3 = "fsync fd (write_file fd text f1)"
  have states: "last states = os_replace temp path ?f3"
    using run by (auto simp: atomic_write_def f1 Let_def remove_temp_def split: option.splits)
  have M: "directory f1 = AList.update temp fd (directory f)" "earlier f1 = directory f # earlier f"
      "contents f1 = (contents f)(fd := [])" "fd = next_inode f"
    using f1 by (auto simp: mkstemp_def change_directory_def Let_def)
  define f4 where "f4 = os_replace temp path ?f3"
  have f4: "directory f \<in> set (earlier f4)" "contents f4 = (contents f)(fd := text)"
    using M by (auto simp: f4_def os_replace_def fsync_def write_file_def change_directory_def)
  have "map_of (directory f) path \<noteq> Some fd" using w M(4) by (auto simp: whole_def)
  then have "read_file (f4\<lparr>directory := directory f\<rparr>) path = read_file f path"
    by (cases "map_of (directory f) path") (auto simp: read_file_def f4(2))
  moreover have "power_cut f4 (f4\<lparr>directory := directory f\<rparr>)" using f4(1) by (simp add: power_cut_def)
  ultimately show ?thesis using states f4_def by metis
qed

section \<open>An example\<close>

definition no_faults :: file_faults where
  "no_faults = \<lparr>at_mkstemp = None, at_dump = None, at_fsync = None, at_replace = None, at_unlink = None\<rparr>"

definition old_file :: "char file_system" where
  "old_file = \<lparr>directory = [(''raft-state.json'', 0)], earlier = [], contents = (\<lambda>_. ''old''), synced = {0}, next_inode = 1\<rparr>"

lemma old_file_whole: "whole {Some ''old''} ''raft-state.json'' old_file"
  by (simp add: whole_def old_file_def)

end
