(* ===== verification/Spec2Isabelle.thy ===== *)
theory Spec2Isabelle
  imports LostWrite DemoLab DemoCluster NodeApp AtomicFile
begin

text \<open>
  Verification of pyraftkv, a replicated key-value store in Python built on the Raft protocol
  (\<^verbatim>\<open>src/src/pyraftkv\<close>).

  \<^bold>\<open>The program and the theories.\<close> A node (\<^verbatim>\<open>raft/node.py\<close>) holds a log, a key-value store, the
  per-node Raft state, an election timer and tally, the leader's replication progress, and its files.
  Other nodes call its handlers through a transport; its own operations (election, replication,
  reads, leadership transfer, client commands) call theirs. Clients reach it through HTTP routes and a
  command processor that batches their writes.

  \<^item> \<open>RaftPrelude\<close>: exceptions as the datatype \<open>error\<close>, results as sums, dictionaries as association
    lists, loops that may raise, list access, majorities and the locale \<open>quorum_system\<close>.
  \<^item> \<open>KVStore\<close>: \<^verbatim>\<open>storage/store.py\<close>, with the locale of a key-value store.
    \<open>Storage\<close>: \<^verbatim>\<open>storage/wal.py\<close>, \<^verbatim>\<open>snapshot.py\<close>, \<^verbatim>\<open>engine.py\<close>.
  \<^item> \<open>RaftTypes\<close>: \<^verbatim>\<open>raft/rpc.py\<close>, \<^verbatim>\<open>snapshot.py\<close>, \<^verbatim>\<open>state.py\<close>. \<open>RaftLog\<close>: \<^verbatim>\<open>raft/log.py\<close>.
    \<open>StateMachine\<close>: \<^verbatim>\<open>raft/state_machine.py\<close>, \<^verbatim>\<open>commit.py\<close>. \<open>Election\<close>: \<^verbatim>\<open>raft/vote.py\<close>, \<^verbatim>\<open>timer.py\<close>,
    \<^verbatim>\<open>election.py\<close>, \<^verbatim>\<open>election_trigger.py\<close>, \<^verbatim>\<open>heartbeat.py\<close>. \<open>Replication\<close>: \<^verbatim>\<open>raft/replication.py\<close>.
    \<open>Leader\<close>: \<^verbatim>\<open>raft/leader.py\<close>.
  \<^item> \<open>PyJson\<close>: JSON values and Python's conversions. \<open>Serialization\<close>: \<^verbatim>\<open>transport/serialization.py\<close>.
    \<open>Persistence\<close>: \<^verbatim>\<open>raft/persistence.py\<close>, the three files of a data directory as JSON values and lines.
  \<^item> \<open>Node\<close>: construction, recovery, persistence, snapshots and handlers of \<^verbatim>\<open>raft/node.py\<close>;
    \<open>Outbound\<close>: its own operations. \<open>NodeInvariant\<close>, \<open>NodeHandlers\<close>, \<open>OutboundInvariant\<close>: every
    section keeps the node's invariant and what its files hold. \<open>VoteFrame\<close>: what each section does to
    term and vote. \<open>NodeLife\<close>: the step relation of one node with restarts. \<open>Cluster\<close>: the step
    relation of a cluster. \<open>Status\<close>: \<^verbatim>\<open>RaftNode.status\<close> and \<^verbatim>\<open>raft/status.py\<close>.
  \<^item> \<open>Transport\<close>: \<^verbatim>\<open>transport/memory.py\<close> with its faults. \<open>RaftHttp\<close>: \<^verbatim>\<open>api/raft.py\<close> and
    \<^verbatim>\<open>transport/http.py\<close>. \<open>CommandProcessor\<close>: \<^verbatim>\<open>raft/command_processor.py\<close>, with the locale
    \<open>batch_service\<close> for what it relies on of the node. \<open>ClientApi\<close>: \<^verbatim>\<open>api/cluster.py\<close>, \<^verbatim>\<open>admin.py\<close>,
    \<^verbatim>\<open>app.py\<close>. \<open>Metrics\<close>: \<^verbatim>\<open>observability/metrics.py\<close>. \<open>Runtime\<close>: \<^verbatim>\<open>runtime.py\<close>, and
    \<open>NodeApp\<close> the application it serves: routers, \<^verbatim>\<open>api/raft_app.py\<close>, middleware and \<^verbatim>\<open>main\<close>.
    \<open>AtomicFile\<close>: the system calls of \<^verbatim>\<open>RaftPersistence._atomic_write\<close> and a power cut.
  \<^item> \<open>DemoIO\<close>: the Docker and HTTP clients of \<^verbatim>\<open>scripts/demo_failover.py\<close> over a platform that is a
    parameter. \<open>Demo\<close>: its waits, checks, run and \<^verbatim>\<open>main\<close>. \<open>DemoProofs\<close>: locales for what every
    operation does to the state (no command stops a node, the clock goes on), and that \<^verbatim>\<open>main\<close> ends.
    \<open>DemoResults\<close>: what a pass has seen, and that a stopped node is started. \<open>DemoCluster\<close>: the demo on
    the statuses of the cluster. \<open>DemoLab\<close>: a concrete platform of three nodes.
  \<^item> \<open>RaftProtocol\<close>: the protocol without files, handlers or compaction: terms, whole logs, votes,
    acknowledgements and commits as a step relation, its invariant, and that two committed prefixes
    agree. \<open>RaftSystem\<close>: the cluster with the requests of replication and their answers, every
    section of the node a step, and the whole log a node stands for. \<open>SystemRefinement\<close> (the locale
    of forward simulations and the relation), \<open>SystemSteps\<close>, \<open>SystemReplication\<close>: each step of a
    node is a run of protocol steps. \<open>SystemSafety\<close>: the simulation and what follows for the nodes.
    \<open>CatchUp\<close>: the worker's loop against a follower it reaches. \<open>ClientWrites\<close>: a client's write from
    the route through the command processor and \<^verbatim>\<open>submit_commands\<close> to the history of the group.
  \<^item> \<open>Examples\<close>, \<open>StaleRead\<close>, \<open>SystemExamples\<close>: concrete executions, on which the properties are
    evaluated. \<open>LostWrite\<close>: one in which a write is answered with success and lost.

  \<^bold>\<open>How state and operations correspond.\<close> A class is a record, a method a function from the object to
  the object and a result; a method that may raise after it has changed its object returns both. The
  node's re-entrant lock makes each handler, and each section of an outbound operation between two
  network calls, atomic: these are the functions and the steps. What other threads do to the node
  between two sections of an operation is a function argument (\<open>env\<close>), as is what the workers of a
  replication round or a replication round or a read have finished by each \<^verbatim>\<open>wait\<close> (a list, whose end is the deadline).
  From that list \<open>own_answer\<close> reads off what the workers started by a read itself have answered.
  Clocks, random numbers, the HTTP client and the Prometheus registry are arguments or traces.

  \<^bold>\<open>What the groups of lemmas show.\<close> Components: the log stays contiguous from its boundary, the
  merge loop computes the reference repair, the apply loop is a fold of the commands, decoding inverts
  encoding, the journal replays to the log whatever the sequence of appends, replacements and
  rewrites. Node: every section keeps the invariant \<open>node_wf\<close> and \<open>node_durable\<close>, so a restart
  recovers the node; committed entries stay; a crash inside a snapshot is harmless. Cluster: election
  safety over all interleavings with loss, delay, duplication and restarts. System: the group's
  commits are prefixes of one history that only grows, a leader has all of them, and no request of a
  leader contradicts them; a worker that reaches its follower ends with it caught up, but for one
  case in which it never ends. A write answered with success is in that history if its node led one
  term from the append to the answer; \<open>LostWrite\<close> shows that it need not be otherwise. Processor: every
  accepted command is answered exactly once, and the workers come to rest. HTTP: a call through the
  transport is a call of the handler, and the application counts each request it answers. Demo:
  a pass is a failover seen from outside, \<^verbatim>\<open>main\<close> ends, and when it ends with a status the node it
  stopped is started again; three executions show that it is left down otherwise. Files: a power
  cut finds a whole text under the path, maybe an earlier one.

  \<^bold>\<open>Hypotheses.\<close> \<open>wf_append_request\<close>, \<open>wf_install_request\<close>: a message of a leader has contiguous
  entries with valid commands, a snapshot a positive index. \<open>agrees_committed\<close>: such a message does
  not contradict an entry the receiver has committed. \<open>SystemSafety\<close> proves both of every request of
  the group's leaders, so they restrict nothing there; a node taken alone has them as hypotheses.
  \<open>env_ok\<close>: other threads keep the node's invariant, which each section is proved to do; in
  \<open>put_committed\<close> what they do is a run of the group. \<open>reaches\<close>,
  \<open>json_bodies\<close>: the HTTP library delivers to the routes, and a body that is not JSON raises
  \<open>ValueError\<close>. \<open>steady\<close>: no call of the platform turns the clock back, and a sleep takes at least as
  long as asked. \<open>seen\<close>: a sampled status is one the node had, or has, in a reachable state.

  \<^bold>\<open>Bounds and fuel.\<close> The worker loop \<open>replicate_to_follower\<close> has no bound in the code: fuel counts its
  iterations and running out is no result. \<open>next_index + 2\<close> is enough when the follower's snapshot
  does not reach \<open>next_index\<close>: each refusal moves \<open>next_index\<close> back by one, and at most one snapshot
  and one more request follow. No amount is enough in \<open>replication_livelock\<close>. The loops of a round
  and of a read end with the list of their events. The waits of the demo are partial functions,
  \<open>None\<close> where they do not return; \<open>demo_ends\<close> shows that they do, for a steady clock.

  \<^bold>\<open>Limits of the model.\<close> Integers are unbounded, as in Python; a float in a file or message is not
  modelled. Characters are code points below 256. A file holds JSON values, one per line for the
  journals; the legacy log is one array on one line. Atomic replacement of a file, fsync and rename do
  what they document; only \<open>AtomicFile\<close> looks at a power cut that undoes a replacement. Times are real
  numbers. Exceptions carry no message. In the system of \<open>RaftSystem\<close> a node stops
  between two sections; the cluster of \<open>Cluster\<close> also stops it between the file writes of one, with
  any log and snapshot on disk, for the safety of elections, and \<open>create_snapshot_crash_safe\<close> and
  \<open>install_snapshot_crash_safe\<close> treat the sections that write several files.

  \<^bold>\<open>Not modelled.\<close> \<^verbatim>\<open>cli.py\<close> only calls argparse and uvicorn, as the argument parsers of
  \<^verbatim>\<open>runtime.py\<close> and the demo do; \<^verbatim>\<open>transport/base.py\<close> and \<^verbatim>\<open>transport/node.py\<close> are signatures, the first
  of which is the record \<open>network\<close>. What FastAPI answers itself is the parameter \<open>framework\<close>. The
  thread pools behind the workers and \<^verbatim>\<open>RaftNode.close\<close>, which shuts them down; the log lines and
  the texts of exceptions.
\<close>

section \<open>The cluster\<close>

text \<open>C1 The group has one history. For a reachable state of the group and any later one, with
  messages lost, delayed, duplicated and reordered and nodes restarting from their files, there is
  one list of entries of which every node, then and now, has a prefix: its store is the effect of
  the commands up to its commit index, and what it retains of its log up to there is that list's.
  So nodes with the same commit index have the same store, and nothing committed is ever lost.\<close>

theorem one_history:
  assumes "system_reachable members S" "(system_step members)\<^sup>*\<^sup>* S S'"
  shows "\<exists>h. \<forall>i \<in> set members. follows_history h (nodes (group S) i) \<and> follows_history h (nodes (group S') i)"
  by (rule history_of_run [OF assms])

theorem one_history_witness:
  "\<exists>h. follows_history h committed_a \<and> follows_history h informed_b \<and> h ! 0 = entry_x"
proof -
  obtain h where "follows_history h committed_a" "follows_history h informed_b"
    using one_history [OF committed_reachable(2) informed_run] informed_nodes by (fastforce simp: members3_def)
  moreover have "log_get 1 log_x = Some entry_x" by (simp add: log_x_def entry_x_def log_get_def nth_opt_def last_index_def)
  moreover have "base_index log_x = 0" by (simp add: log_x_def)
  ultimately have "follows_history h committed_a" "follows_history h informed_b" "h ! 0 = entry_x"
    using informed_b_state by (fastforce simp: follows_history_def)+
  then show ?thesis by blast
qed

text \<open>C2 Leader completeness. An entry that a node has committed is in the log of every node that
  leads the same or a later term, at that time or later, at its index; a leader that has compacted
  past the index has it in its snapshot.\<close>

theorem leader_completeness:
  assumes "system_reachable members S" "(system_step members)\<^sup>*\<^sup>* S S'" "i \<in> set members" "j \<in> set members"
    and "role (n_state (nodes (group S') j)) = LEADER"
    and "current_term (n_state (nodes (group S) i)) \<le> current_term (n_state (nodes (group S') j))"
    and "k \<le> commit_index (n_state (nodes (group S) i))" "log_get k (n_log (nodes (group S) i)) = Some e"
  shows "k \<le> last_index (n_log (nodes (group S') j)) \<and>
    (base_index (n_log (nodes (group S') j)) < k \<longrightarrow> log_get k (n_log (nodes (group S') j)) = Some e)"
  using leader_has_committed [OF assms] by blast

theorem leader_completeness_witness:
  "log_get 1 (n_log committed_a) = Some entry_x \<and> commit_index (n_state committed_a) = 1 \<and>
   role (n_state leader_b) = LEADER \<and> log_get 1 (n_log leader_b) = Some entry_x"
proof -
  have a: "log_get 1 (n_log committed_a) = Some entry_x" "commit_index (n_state committed_a) = 1"
      "current_term (n_state committed_a) = 1"
    by (simp_all add: commit_eval log_get_def nth_opt_def)
  from leader_completeness [OF committed_reachable(2) successor_run, of "''a''" "''b''" 1 entry_x]
  have "base_index (n_log leader_b) < 1 \<longrightarrow> log_get 1 (n_log leader_b) = Some entry_x"
    using a committed_nodes(1) successor_leader by (simp add: members3_def)
  then show ?thesis using a successor_leader by (simp add: log_x_def)
qed

text \<open>C4 The requests of leaders are safe to accept. Every AppendEntries or InstallSnapshot request
  that a leader of the group has sent, whenever it is delivered and to whichever member, is handled
  without an exception. An AppendEntries request of an earlier term leaves the receiver's state, log
  and store alone; any other is well formed and contradicts nothing the receiver has committed. The
  state of an InstallSnapshot request is what the commands of a history have made, up to the request's
  index and with the term of that entry, and this history is the one all members follow.\<close>

theorem leader_requests_safe:
  assumes "system_reachable members S" "j \<in> set members" "(f, req) \<in> sent S"
  shows "case req of
      AppendRequest q \<Rightarrow>
        (case node_append_entries c q (nodes (group S) j) of (n', r) \<Rightarrow>
          is_ok r \<and>
          (if ae_term q < current_term (n_state (nodes (group S) j))
           then n_state n' = n_state (nodes (group S) j) \<and> n_log n' = n_log (nodes (group S) j) \<and>
             n_store n' = n_store (nodes (group S) j)
           else wf_append_request q \<and> agrees_committed q (n_state (nodes (group S) j)) (n_log (nodes (group S) j))))
    | SnapshotRequest q \<Rightarrow>
        is_ok (snd (node_install_snapshot c q (nodes (group S) j))) \<and>
        (\<exists>h. (\<forall>k \<in> set members. follows_history h (nodes (group S) k)) \<and>
          0 \<le> is_last_included_index q \<and> nat (is_last_included_index q) \<le> length h \<and>
          is_state q = run_commands (take (nat (is_last_included_index q)) h) [] \<and>
          is_last_included_term q =
            (if is_last_included_index q = 0 then 0 else entry_term (h ! (nat (is_last_included_index q) - 1))))"
proof (cases req)
  case (AppendRequest q)
  obtain n' r where run: "node_append_entries c q (nodes (group S) j) = (n', r)" by fastforce
  have "is_ok r" using sent_accepted(1) [OF assms(1,2), of f q c] assms(3) run AppendRequest by simp
  then show ?thesis
    using sent_append_safe [OF assms(1) _ assms(2)] append_stale_kept [OF _ run] assms(3) AppendRequest
    by (auto simp: run)
next
  case (SnapshotRequest q)
  then show ?thesis using sent_accepted(2) [OF assms(1,2)] sent_snapshot_safe [OF assms(1)] assms(3) by simp
qed

theorem leader_requests_safe_witness:
  "agrees_committed append_x (n_state follower_b) (n_log follower_b) \<and>
   is_ok (snd (node_append_entries (clk 5) append_x follower_b))"
proof -
  have "(''b'', AppendRequest append_x) \<in> sent committed_system" by (simp add: committed_system_def sent_system_def)
  moreover have "current_term (n_state follower_b) \<le> ae_term append_x"
    by (simp add: follower_b_eq voter_b_eq append_x_def)
  ultimately show ?thesis
    using leader_requests_safe [OF committed_reachable(2), of "''b''" "''b''" "AppendRequest append_x" "clk 5"] committed_nodes
    by (auto simp: members3_def split: prod.splits)
qed

text \<open>C3 Election safety. In every reachable state of the cluster, with messages lost, delayed or
  duplicated and members crashing and restarting from their files, two members that lead the
  same term are the same member.\<close>

theorem election_safety:
  assumes "reachable members C" "i \<in> set members" "j \<in> set members"
    and "role (n_state (nodes C i)) = LEADER" "role (n_state (nodes C j)) = LEADER"
    and "current_term (n_state (nodes C i)) = current_term (n_state (nodes C j))"
  shows "i = j"
  using leaders_unique [OF assms(1)] leaders_record [OF assms(1)] assms(2-6) by metis

theorem election_safety_witness:
  "\<exists>j \<in> set members3. role (n_state (nodes elected_cluster j)) = LEADER \<and> ''a'' = j"
proof -
  have "''a'' = ''a''"
    by (rule election_safety [OF elected_reachable]) (simp_all add: elected_leader members3_def)
  then show ?thesis using elected_leader by (auto simp: members3_def)
qed

section \<open>One node\<close>

text \<open>C6 The invariant of a node. In every state a node reaches, its log is contiguous from the
  snapshot's boundary, the commit index lies within it, everything committed is applied, the store
  is the snapshot's state with the committed commands run on it, and a candidate or leader has
  voted for itself.\<close>

theorem node_invariant:
  assumes "node_reachable n"
  shows "wf_log (n_log n) \<and>
    base_index (n_log n) = last_included_index (n_snapshot n) \<and> base_term (n_log n) = last_included_term (n_snapshot n) \<and>
    base_index (n_log n) \<le> commit_index (n_state n) \<and> commit_index (n_state n) \<le> last_index (n_log n) \<and>
    last_applied (n_state n) = commit_index (n_state n) \<and>
    n_store n = run_commands (slice (base_index (n_log n)) (commit_index (n_state n)) (n_log n)) (snapshot_state (n_snapshot n)) \<and>
    (role (n_state n) \<noteq> FOLLOWER \<longrightarrow> voted_for (n_state n) = Some (n_id n))"
proof -
  have wf: "node_wf n" using node_reachable_ok [OF assms] by (simp add: node_ok_def)
  show ?thesis using data_wfD [OF node_wf_data [OF wf]] wf by (simp add: node_wf_def)
qed

theorem node_invariant_witness: "wf_log (n_log committed_a) \<and> last_applied (n_state committed_a) = 1"
  using node_invariant [OF committed_a_reachable(3)] by (simp add: committed_a_eq)

text \<open>C7 A restart recovers the node: from the files of a reachable node the constructor succeeds,
  leaves the files as they are, and restores term, vote, commit index, log, snapshot and store,
  as a follower without a leader.\<close>

theorem restart_recovers:
  assumes "node_reachable n" "n_disk n = Some d"
  shows "\<exists>m. node_init c (n_id n) (n_members n) (Some d) = (Some d, Ok m) \<and>
    n_log m = n_log n \<and> n_snapshot m = n_snapshot n \<and> n_store m = n_store n \<and>
    current_term (n_state m) = current_term (n_state n) \<and> voted_for (n_state m) = voted_for (n_state n) \<and>
    commit_index (n_state m) = commit_index (n_state n) \<and> last_applied (n_state m) = last_applied (n_state n) \<and>
    role (n_state m) = FOLLOWER \<and> leader_id (n_state m) = None \<and> n_replication m = None"
proof -
  have ok: "node_wf n" "node_durable n" using node_reachable_ok [OF assms(1)] by (simp_all add: node_ok_def)
  show ?thesis using restart_durable [OF ok assms(2), of c] by (simp add: recovered_def)
qed

theorem restart_recovers_witness:
  "\<exists>d m. n_disk committed_a = Some d \<and> node_init (clk 9) ''a'' members3 (Some d) = (Some d, Ok m) \<and>
     n_store m = [(''x'', ''1'')]"
proof -
  obtain d where d: "n_disk committed_a = Some d"
    by (simp add: committed_a_eq submitted_a_def leader_a_eq candidate_a_eq)
  have "n_id committed_a = ''a''" "n_members committed_a = members3" "n_store committed_a = [(''x'', ''1'')]"
    by (simp_all add: committed_a_eq acknowledged_a_def submitted_a_def leader_a_eq candidate_a_eq fresh_node_def)
  then show ?thesis using restart_recovers [OF committed_a_reachable(3) d, of "clk 9"] d by auto
qed

text \<open>C8 What a node has committed stays. Whatever the node does next, restarts and snapshots included,
  its term and its commit index do not decrease, and every entry at or below the old commit index that
  the node has not compacted since is in the log, and is the entry that was there.\<close>

theorem committed_stays:
  assumes "node_reachable n" "node_step\<^sup>*\<^sup>* n n'"
  shows "current_term (n_state n) \<le> current_term (n_state n') \<and>
    commit_index (n_state n) \<le> commit_index (n_state n') \<and> base_index (n_log n) \<le> base_index (n_log n') \<and>
    (\<forall>i. base_index (n_log n') < i \<and> i \<le> commit_index (n_state n) \<longrightarrow>
       log_get i (n_log n') = log_get i (n_log n) \<and> log_get i (n_log n) \<noteq> None)"
proof -
  have ok: "node_ok n" by (rule node_reachable_ok [OF assms(1)])
  note D = data_wfD [OF node_wf_data, of n]
  have K: "commit_kept n n'" using node_steps_commit [OF assms(2) ok] by blast
  have "log_get i (n_log n) \<noteq> None" if "base_index (n_log n') < i" "i \<le> commit_index (n_state n)" for i
  proof -
    have "base_index (n_log n) < i" using K that(1) by (simp add: commit_kept_def)
    then show ?thesis using D(1,8) that(2) ok log_get_None_iff [of "n_log n" i] by (simp add: node_ok_def)
  qed
  then show ?thesis using K by (simp add: commit_kept_def)
qed

theorem committed_stays_witness:
  "\<exists>n'. create_snapshot committed_a = (n', Ok True) \<and> 1 \<le> current_term (n_state n') \<and> 1 \<le> commit_index (n_state n') \<and>
   log_get 1 (n_log (committed_a\<lparr>transfer_in_progress := True\<rparr>)) = log_get 1 (n_log committed_a) \<and>
   log_get 1 (n_log committed_a) \<noteq> None"
proof -
  obtain n' where n': "create_snapshot committed_a = (n', Ok True)" using committed_a_snapshot by blast
  have a: "current_term (n_state committed_a) = 1" "commit_index (n_state committed_a) = 1"
      "base_index (n_log committed_a) = 0"
    by (simp_all add: committed_a_eq acknowledged_a_def submitted_a_def log_x_def leader_a_eq)
  have "1 \<le> current_term (n_state n') \<and> 1 \<le> commit_index (n_state n')"
    using committed_stays [OF committed_a_reachable(3) r_into_rtranclp [of node_step, OF node_step.snapshot [OF n']]] a by simp
  moreover have "log_get 1 (n_log (committed_a\<lparr>transfer_in_progress := True\<rparr>)) = log_get 1 (n_log committed_a) \<and>
      log_get 1 (n_log committed_a) \<noteq> None"
    using committed_stays [OF committed_a_reachable(3)
        r_into_rtranclp [of node_step, OF node_step.transfer_flag [OF refl, of committed_a True]]] a by auto
  ultimately show ?thesis using n' by blast
qed

section \<open>What survives a crash\<close>

text \<open>C9 A vote survives a restart: a voter that granted its vote, came back from its files and
  grants a vote in the same term again, grants it to the same candidate.\<close>

theorem vote_survives_restart:
  assumes "node_reachable n" "n_disk n = Some d"
    and "node_request_vote c q n = (n', Ok a)" "rvr_vote_granted a"
    and "n_disk n' = Some d'" "node_init c' (n_id n') (n_members n') (Some d') = (dsk, Ok m)"
    and "node_request_vote c'' q2 m = (m', Ok a2)" "rvr_vote_granted a2" "rv_term q2 = rv_term q"
  shows "rv_candidate_id q2 = rv_candidate_id q"
proof -
  have ok: "node_ok n'" using node_step_ok [OF node_step.vote [OF assms(3)] node_reachable_ok [OF assms(1)]] .
  have m: "n_state m = (n_state n')\<lparr>role := FOLLOWER, leader_id := None\<rparr>"
    using restart_ok(1) [OF ok assms(5,6)] by (simp add: recovered_def)
  from assms(3) obtain s where s: "handle_request_vote q (last_index (n_log n)) (last_term (n_log n)) (n_state n) = Ok (s, a)"
      "n_state n' = s"
    by (auto elim: node_request_vote_effect)
  from assms(7) obtain s2 where s2: "handle_request_vote q2 (last_index (n_log m)) (last_term (n_log m)) (n_state m) = Ok (s2, a2)"
    by (auto elim: node_request_vote_effect)
  note G = handle_request_vote_granted [OF s(1) assms(4)]
  show ?thesis
    using handle_request_vote_granted(4) [OF s2 assms(8)] G(1,2) m s(2) assms(9) by simp
qed

theorem vote_survives_restart_witness:
  "\<exists>d m m' a. n_disk voter_b = Some d \<and> node_init (clk 5) ''b'' members3 (Some d) = (Some d, Ok m) \<and>
     node_request_vote (clk 6) vote_request1 m = (m', Ok a) \<and> rvr_vote_granted a \<and>
     rv_candidate_id vote_request1 = rv_candidate_id vote_request1"
proof -
  obtain d where d: "n_disk voter_b = Some d" by (simp add: voter_b_eq)
  have v: "n_id voter_b = ''b''" "n_members voter_b = members3" by (simp_all add: voter_b_eq fresh_node_def)
  have f: "n_disk (fresh_node ''b'') = Some empty_disk" by (simp add: fresh_node_def)
  define m where "m = recovered (clk 5) members3 (n_state voter_b) (n_snapshot voter_b) (n_log voter_b) (n_store voter_b) (Some d)"
  have m: "node_init (clk 5) ''b'' members3 (Some d) = (Some d, Ok m)"
    using restart_durable [of voter_b d "clk 5"] node_reachable_ok [OF follower_b_reachable(1)] d v
    by (simp add: node_ok_def m_def)
  have again: "snd (node_request_vote (clk 6) vote_request1 m) = Ok \<lparr>rvr_term = 1, rvr_vote_granted = True\<rparr>"
    by (simp add: node_request_vote_def m_def recovered_def voter_b_eq handle_request_vote_def
        is_candidate_log_up_to_date_def node_eval)
  then obtain m' where m': "node_request_vote (clk 6) vote_request1 m = (m', Ok \<lparr>rvr_term = 1, rvr_vote_granted = True\<rparr>)"
    by (metis prod.collapse)
  have "node_reachable (fresh_node ''b'')" by (rule fresh_node_reachable) (simp add: members3_def)
  from vote_survives_restart [OF this f voter_b_step _ d _ m' _ refl] m v d m'
  show ?thesis by (intro exI conjI) auto
qed

text \<open>An acknowledged AppendEntries is durable: the follower that answered with success and then
  restarts from its files has every entry of the request at its place, and the leader's term.\<close>

theorem append_survives_restart:
  assumes "node_reachable n" "wf_append_request q" "agrees_committed q (n_state n) (n_log n)"
    and "node_append_entries c q n = (n', Ok a)" "aer_success a" "n_disk n' = Some d"
  shows "\<exists>m. node_init c' (n_id n') (n_members n') (Some d) = (Some d, Ok m) \<and>
    ae_term q = current_term (n_state m) \<and> term_at (ae_prev_log_index q) (n_log m) = Some (ae_prev_log_term q) \<and>
    (\<forall>k < length (ae_entries q). \<exists>x. log_get (ae_prev_log_index q + 1 + int k) (n_log m) = Some x \<and>
       entry_term x = entry_term (ae_entries q ! k))"
proof -
  have ok: "node_ok n" "node_ok n'"
    using node_reachable_ok [OF assms(1)] node_step_ok [OF node_step.append [OF assms(2-4)]] by simp_all
  have L: "wf_log (n_log n)" using ok(1) by (simp add: node_ok_def node_wf_log)
  obtain m where m: "node_init c' (n_id n') (n_members n') (Some d) = (Some d, Ok m)" "n_log m = n_log n'"
      "current_term (n_state m) = current_term (n_state n')"
    using restart_durable [of n' d c'] ok(2) assms(6) by (auto simp: node_ok_def recovered_def)
  obtain s l st where h: "handle_append_entries q (n_state n) (n_log n) (Some (n_store n)) = ((s, l, st), Ok a)"
      "n_state n' = s" "n_log n' = l"
    using node_append_entries_handler [OF assms(4)] by blast
  note C = wf_append_requestD(1) [OF assms(2)]
  note S = handle_append_entries_success [OF h(1) assms(5) L C]
  note R = term_at_range [OF L S(3)]
  have "term_at (ae_prev_log_index q) l = Some (ae_prev_log_term q)"
    using S(3,4) repaired_prefix [OF L C R order_refl] by (simp add: term_at_def split: if_splits)
  moreover have "current_term s = ae_term q" using handle_append_entries_frame(3) [OF h(1)] S(1) by simp
  ultimately show ?thesis
    using m h(2,3) repaired_holds [OF L C R] S(4) by metis
qed

theorem append_survives_restart_witness:
  "\<exists>d m. n_disk follower_b = Some d \<and> node_init (clk 5) ''b'' members3 (Some d) = (Some d, Ok m) \<and>
     current_term (n_state m) = 1 \<and> (\<exists>x. log_get 1 (n_log m) = Some x \<and> entry_term x = 1)"
proof -
  obtain d where d: "n_disk follower_b = Some d" by (simp add: follower_b_eq voter_b_eq)
  have v: "n_id follower_b = ''b''" "n_members follower_b = members3"
    by (simp_all add: follower_b_eq voter_b_eq fresh_node_def)
  have "agrees_committed append_x (n_state voter_b) (n_log voter_b)"
    by (simp add: agrees_committed_def append_x_def entry_x_def voter_b_eq raft_state_default_def)
  from append_survives_restart [OF follower_b_reachable(1) append_x_wf this follower_b_step _ d, of "clk 5"]
  show ?thesis using d v by (auto simp: append_x_def entry_x_def)
qed

text \<open>C10 An accepted batch is journalled before it is replicated: after a restart the leader's log
  is the old one with one entry per command appended, in the batch's order and in the leader's
  term.\<close>

theorem submit_survives_restart:
  assumes "node_reachable n" "submit_begin cs n = (n', Ok es)" "n_disk n' = Some d"
  shows "\<exists>m. node_init c (n_id n') (n_members n') (Some d) = (Some d, Ok m) \<and>
    n_log m = (n_log n)\<lparr>entries := entries (n_log n) @ es\<rparr> \<and> map entry_command es = cs \<and>
    (\<forall>e \<in> set es. entry_term e = current_term (n_state n) \<and> valid_command (entry_command e))"
proof -
  have ok: "node_ok n" by (rule node_reachable_ok [OF assms(1)])
  from assms(2) ok show ?thesis
  proof (cases rule: submit_begin_cases)
    case (accepted es')
    obtain m where "node_init c (n_id n') (n_members n') (Some d) = (Some d, Ok m)" "n_log m = n_log n'"
      using restart_durable [of n' d c] accepted(11) assms(3) by (auto simp: node_ok_def recovered_def)
    then show ?thesis using accepted by auto
  qed simp
qed

theorem submit_survives_restart_witness:
  "\<exists>d m. n_disk submitted_a = Some d \<and> node_init (clk 5) (n_id submitted_a) (n_members submitted_a) (Some d) = (Some d, Ok m) \<and>
     n_log m = log_x"
proof -
  obtain d where d: "n_disk submitted_a = Some d" by (simp add: submitted_a_def leader_a_eq candidate_a_eq)
  have l: "(n_log leader_a)\<lparr>entries := entries (n_log leader_a) @ [entry_x]\<rparr> = log_x"
    by (simp add: leader_a_eq candidate_a_eq fresh_node_def empty_log_def log_x_def)
  show ?thesis
    using submit_survives_restart [OF leader_a_reachable submitted_a_step d, of "clk 5"] d unfolding l by blast
qed





section \<open>The leader\<close>

text \<open>C13 The commit rule: the commit index moves only on a leader, to an entry of its own term that
  a majority of the members, itself included, is recorded to hold; the store then has exactly the
  newly committed commands run on it.\<close>

theorem commit_rule:
  assumes "node_reachable n" "replicate_log_finish n = (n', res)"
    and "commit_index (n_state n') \<noteq> commit_index (n_state n)"
  shows "role (n_state n) = LEADER \<and> commit_index (n_state n) < commit_index (n_state n') \<and>
    term_at (commit_index (n_state n')) (n_log n) = Some (current_term (n_state n)) \<and>
    (\<exists>r. n_replication n = Some r \<and>
       majority (set (n_members n)) (replicated_on (n_state n) r (commit_index (n_state n')))) \<and>
    n_store n' = run_commands (slice (commit_index (n_state n)) (commit_index (n_state n')) (n_log n)) (n_store n)"
proof -
  have ok: "node_ok n" by (rule node_reachable_ok [OF assms(1)])
  note F = replicate_log_finish_ok [OF assms(2) ok]
  have "n_store n' = run_commands (slice (commit_index (n_state n)) (commit_index (n_state n')) (n_log n)) (n_store n)"
    by (rule replicate_log_finish_store [OF assms(2) ok])
  then show ?thesis using F(5,6) assms(3) by simp
qed

theorem commit_rule_witness:
  "role (n_state acknowledged_a) = LEADER \<and> term_at 1 (n_log acknowledged_a) = Some 1 \<and>
   n_store committed_a = run_commands (slice 0 1 (n_log acknowledged_a)) (n_store acknowledged_a)"
proof -
  have "commit_index (n_state committed_a) = 1" "commit_index (n_state acknowledged_a) = 0"
      "current_term (n_state acknowledged_a) = 1"
    by (simp_all add: committed_a_eq acknowledged_a_def submitted_a_def leader_a_eq raft_state_default_def)
  then show ?thesis using commit_rule [OF committed_a_reachable(2) committed_a_step] by simp
qed

text \<open>What a leader accepts: the commands of a batch are appended exactly when no leadership
  transfer runs, the node leads and every command is a PUT with a value or a DELETE; otherwise the
  call raises and changes nothing.\<close>

theorem submit_decision:
  assumes "node_reachable n" "submit_begin cs n = (n', res)"
  shows "(is_ok res \<longleftrightarrow> \<not> transfer_in_progress n \<and> role (n_state n) = LEADER \<and> list_all valid_command cs) \<and>
    (res = Err LeadershipTransferInProgressError \<longleftrightarrow> transfer_in_progress n) \<and>
    (res = Err NotLeaderError \<longleftrightarrow> \<not> transfer_in_progress n \<and> role (n_state n) \<noteq> LEADER) \<and>
    (is_ok res \<or> n' = n)"
  using submit_begin_decision [OF assms(2) node_reachable_ok [OF assms(1)]] by blast

theorem submit_decision_witness:
  "is_ok (snd (submit_begin [put_x] leader_a)) \<longleftrightarrow> list_all valid_command [put_x]"
proof -
  have "role (n_state leader_a) = LEADER" "\<not> transfer_in_progress leader_a"
    by (simp_all add: leader_a_eq candidate_a_eq fresh_node_def)
  then show ?thesis using submit_decision [OF leader_a_reachable submitted_a_step] by (simp add: submitted_a_step)
qed

text \<open>C14 A read quorum is fresh: when a read barrier succeeds, the leader and the followers whose own
  worker answered \<open>True\<close> are a majority of the members. A follower's own worker is the one the read
  itself starts: at its first visit, or, where a worker of an earlier round was still running then, at
  the visit that finds that one finished; its answer is the first that comes at a later visit, and what
  the earlier worker brought does not count. The node still leads the term in which the read began,
  and only then takes the lease.\<close>

theorem read_quorum_fresh:
  assumes "node_reachable n" "env_ok env"
    and "confirm_read_quorum_body (env, waits) now (n, fs) = ((n', fs'), Ok ())"
  shows "role (n_state n') = LEADER \<and> current_term (n_state n') = current_term (n_state n) \<and>
    last_read_quorum_term n' = Some (current_term (n_state n)) \<and> last_read_quorum_time n' = Some now \<and>
    (\<exists>Q. majority (set (n_members n)) (insert (n_id n) Q) \<and>
       (\<forall>f \<in> Q. own_answer fs waits f (Ok True)))"
  using read_quorum_majority [OF assms(3) node_reachable_ok [OF assms(1)] assms(2)] .

theorem read_quorum_fresh_witness:
  "\<exists>Q. majority (set members3) (insert ''a'' Q) \<and> Q \<subseteq> {''b''}"
proof -
  have n: "n_members leader_a = members3" "n_id leader_a = ''a''"
    by (simp_all add: leader_a_eq candidate_a_eq fresh_node_def)
  from read_quorum_fresh [OF leader_a_reachable env_ok_id leader_a_read]
  obtain Q where "majority (set members3) (insert ''a'' Q)"
      "\<forall>f \<in> Q. own_answer [] [[], [(''b'', Ok True)]] f (Ok True)"
    unfolding n by blast
  moreover have "f = ''b''" if "own_answer [] [[], [(''b'', Ok True)]] f (Ok True)" for f
    using that by (auto simp: own_answer_def own_worker_def less_Suc_eq split: if_splits)
  ultimately show ?thesis by blast
qed

text \<open>C15 A read returns committed state: the value \<open>linearizable_get\<close> returns is the key's value after
  the commands up to the leader's commit index, nothing less and nothing more, and the node then
  leads and holds the lease.\<close>

theorem read_returns_committed:
  assumes "node_reachable n" "env_ok env1" "env_ok env2"
    and "linearizable_get key (env1, waits) (t0, t1, t2) env2 (n, fs) = ((n', fs'), Ok v)"
  shows "v = kv_get key (run_commands
      (slice (base_index (n_log n')) (commit_index (n_state n')) (n_log n')) (snapshot_state (n_snapshot n'))) \<and>
    role (n_state n') = LEADER \<and> (has_valid_read_lease t0 n' \<or> has_valid_read_lease t2 n')"
  using read_committed [OF assms(4) node_reachable_ok [OF assms(1)] assms(2,3)] .

theorem read_returns_committed_witness:
  "\<exists>n' fs'. linearizable_get ''x'' ((\<lambda>nf. nf), [[], [(''b'', Ok True)]]) (5, 5, 5) (\<lambda>nf. nf) (committed_a, []) =
     ((n', fs'), Ok (Some ''1'')) \<and> role (n_state n') = LEADER"
proof -
  obtain n' fs' where r: "linearizable_get ''x'' ((\<lambda>nf. nf), [[], [(''b'', Ok True)]]) (5, 5, 5) (\<lambda>nf. nf) (committed_a, []) =
      ((n', fs'), Ok (Some ''1''))"
    using committed_a_read by blast
  then show ?thesis
    using read_returns_committed [OF committed_a_reachable(3) env_ok_id env_ok_id r] by blast
qed

text \<open>C5 Replication to a follower that can follow ends and catches it up. The worker's loop has no
  bound. Where the network delivers; the follower's term is not later than the leader's; its snapshot
  lies below \<open>next_index\<close>, which is within the leader's log; and the recorded progress is true (at
  \<open>match_index\<close> the follower has the leader's term): the loop returns success after at most
  \<open>next_index + 2\<close> requests, the follower then has every entry of the leader's log that neither has
  compacted, and the leader has recorded it. A follower whose snapshot reaches \<open>next_index\<close> is excluded:
  the loop may then never end.\<close>

theorem catch_up:
  assumes "system_reachable members S" "i \<in> set members" "j \<in> set members" "i \<noteq> j"
    and "role (n_state (nodes (group S) i)) = LEADER"
      "current_term (n_state (nodes (group S) j)) \<le> current_term (n_state (nodes (group S) i))"
    and "n_replication (nodes (group S) i) = Some r" "map_of (match_index r) j = Some m" "map_of (next_index r) j = Some nx"
    and "base_index (n_log (nodes (group S) j)) < nx" "nx \<le> last_index (n_log (nodes (group S) i)) + 1"
      "record_true m (nodes (group S) i) (nodes (group S) j)"
    and "nat nx + 1 < fuel"
  shows "\<exists>n' w'. replicate_to_follower fuel (follower_network c) j (nodes (group S) i, nodes (group S) j) =
      ((n', w'), Some (Ok True)) \<and> caught_up (nodes (group S) i) w' \<and>
      (\<exists>r'. n_replication n' = Some r' \<and> map_of (match_index r') j = Some (last_index (n_log (nodes (group S) i))))"
proof -
  obtain P where "system_rel members S P" by (rule reachable_related [OF assms(1)])
  from pair_of_system [OF this assms(2-6)]
  have pair: "pair_rel members P i j (nodes (group S) i) (nodes (group S) j)" .
  obtain n' w' res where run: "replicate_to_follower fuel (follower_network c) j (nodes (group S) i, nodes (group S) j) =
      ((n', w'), res)"
    by (metis prod.exhaust)
  show ?thesis
    using replicate_loop [OF pair assms(7-13) run] run by (auto simp: replicated_def)
qed

theorem catch_up_witness:
  "\<exists>n' w'. replicate_to_follower 4 (follower_network (clk 11)) ''c'' (leader_b, voter_c) = ((n', w'), Some (Ok True)) \<and>
     caught_up leader_b w'"
proof -
  have nodes: "nodes (group successor_system) ''b'' = leader_b" "nodes (group successor_system) ''c'' = voter_c"
    by (simp_all add: successor_system_def put_node_def Let_def)
  have reach: "system_reachable members3 successor_system"
    by (rule system_reachable_steps [OF committed_reachable(2) successor_run])
  have c: "current_term (n_state voter_c) = 2" "base_index (n_log voter_c) = 0"
      "record_true 0 leader_b voter_c" "n_replication leader_b = Some replication_b" "base_index (n_log leader_b) = 0"
      "last_index (n_log leader_b) = 1" "map_of (match_index replication_b) ''c'' = Some 0"
      "map_of (next_index replication_b) ''c'' = Some 2"
    by (simp_all add: voter_c_eq stale_eval record_true_def log_get_def nth_opt_def)
  from catch_up [OF reach, of "''b''" "''c''" replication_b 0 2 4 "clk 11"]
  obtain n' w' where "replicate_to_follower 4 (follower_network (clk 11)) ''c'' (leader_b, voter_c) = ((n', w'), Some (Ok True))"
      "caught_up leader_b w'"
    using nodes c successor_leader by (auto simp: members3_def)
  then show ?thesis by blast
qed

text \<open>C27 Replication that never ends. A follower that has compacted its log, where the leader has not,
  refuses every request of a leader whose \<open>next_index\<close> for it is 1, and the worker sends the same
  request again without end: no number of iterations gives a result. The witness is a reachable
  state: the follower took the leader's entries, committed and compacted them, and its answer did
  not arrive.\<close>

theorem replication_livelock:
  assumes "system_reachable members S" "i \<in> set members" "j \<in> set members" "i \<noteq> j"
    and "role (n_state (nodes (group S) i)) = LEADER"
      "current_term (n_state (nodes (group S) j)) \<le> current_term (n_state (nodes (group S) i))"
    and "n_replication (nodes (group S) i) = Some r" "map_of (next_index r) j = Some 1"
    and "base_index (n_log (nodes (group S) i)) = 0" "0 < base_index (n_log (nodes (group S) j))"
  shows "snd (replicate_to_follower fuel (follower_network c) j (nodes (group S) i, nodes (group S) j)) = None"
proof -
  obtain P where "system_rel members S P" by (rule reachable_related [OF assms(1)])
  from replicate_stuck [OF pair_of_system [OF this assms(2-6)] assms(7-10)] show ?thesis .
qed

theorem replication_livelock_witness:
  "\<forall>fuel. snd (replicate_to_follower fuel (follower_network (clk 6)) ''c'' (committed_a, compacted_c)) = None"
proof
  fix fuel
  have a: "role (n_state committed_a) = LEADER" "current_term (n_state committed_a) = 1"
      "n_replication committed_a = Some (replication_a 1)" "base_index (n_log committed_a) = 0"
      "map_of (next_index (replication_a 1)) ''c'' = Some 1"
    by (simp_all add: commit_eval)
  show "snd (replicate_to_follower fuel (follower_network (clk 6)) ''c'' (committed_a, compacted_c)) = None"
    using replication_livelock [OF system_reachable_steps [OF committed_reachable(2) compacted_run],
        of "''a''" "''c''" "replication_a 1" fuel "clk 6"] a compacted_nodes compacted_c_state
    by (simp add: members3_def)
qed

text \<open>One round of replication: when a follower accepts the request the leader built for it, its
  log agrees in terms with the leader's from the point of the request to the end of the leader's
  log, and the leader records it as matching up to there and sends from there on.\<close>

theorem replication_round:
  assumes "wf_log l" "wf_replication r s" "build_request f lc s l r = Ok q"
    and "wf_log lf" "handle_append_entries q sf lf st = ((sf', lf', st'), Ok a)" "aer_success a"
    and "record_success f q r = Ok r'"
  shows "(\<forall>i. ae_prev_log_index q \<le> i \<and> i \<le> last_index l \<longrightarrow> term_at i lf' = term_at i l) \<and>
    (\<exists>m. map_of (match_index r') f = Some m \<and> last_index l \<le> m \<and> map_of (next_index r') f = Some (m + 1))"
  using replication_round_agrees [OF assms] .

theorem replication_round_witness:
  "term_at 1 (n_log follower_b) = term_at 1 log_x \<and>
   (\<exists>m. map_of (match_index (replication_a 1)) ''b'' = Some m \<and> 1 \<le> m)"
proof -
  have l: "wf_log log_x" "last_index log_x = 1" "wf_log empty_log"
    by (simp_all add: log_x_def wf_log_def contiguous_def entry_x_def last_index_def empty_log_def)
  have r: "wf_replication (replication_a 0) (n_state leader_a)"
    by (simp add: wf_replication_def replication_a_def leader_a_eq members3_def raft_state_default_def)
  have q: "build_request ''b'' (Some 0) (n_state leader_a) log_x (replication_a 0) = Ok append_x"
    by (simp add: build_request_def term_at_def entries_from_def first_index_def append_x_def log_x_def dict_item_def leader_eval)
  have h: "handle_append_entries append_x (n_state voter_b) empty_log (Some []) =
      ((n_state follower_b, log_x, Some []), Ok \<lparr>aer_term = 1, aer_success = True\<rparr>)"
    by (simp add: voter_b_eq follower_b_eq append_x_def handle_append_entries_def become_follower_def term_at_def log_get_def
        append_entry_def entry_x_def log_x_def update_follower_commit_def node_eval)
  have m: "record_success ''b'' append_x (replication_a 0) = Ok (replication_a 1)"
    by (simp add: record_success_def raise_match_def dict_item_def append_x_def entry_x_def replication_a_def)
  have "n_log follower_b = log_x" "ae_prev_log_index append_x = 0" by (simp_all add: follower_b_eq append_x_def)
  then show ?thesis using replication_round [OF l(1) r q l(3) h _ m] l(2) by auto
qed

text \<open>The leader's commit index is the right one: it is not below any index that a majority is
  recorded to hold, when every entry from that index on is of the leader's term.\<close>

theorem commit_complete:
  assumes "wf_log l" "wf_replication r s" "advance_commit_index l r s = Ok (s', c)"
    and "majority (set (repl_members r)) (replicated_on s r i)" "base_index l < i" "i \<le> last_index l"
    and "\<forall>f m. map_of (match_index r) f = Some m \<longrightarrow> m \<le> last_index l"
    and "\<forall>j. i \<le> j \<and> j \<le> last_index l \<longrightarrow> term_at j l = Some (current_term s)"
  shows "i \<le> commit_index s' \<and> c = commit_index s' \<and> commit_index s \<le> commit_index s' \<and>
    majority (set (repl_members r)) (replicated_on s r i)"
proof -
  have "i \<le> commit_index s'"
    using advance_commit_index_complete [OF assms(3,1,2,4,6,5)] assms(7,8) by blast
  then show ?thesis using advance_commit_index_cases(1,3) [OF assms(3,1,2)] assms(4) by simp
qed

theorem commit_complete_witness:
  "\<exists>s' c. advance_commit_index log_x (replication_a 1) (n_state leader_a) = Ok (s', c) \<and> 1 \<le> commit_index s'"
proof -
  have l: "wf_log log_x" "last_index log_x = 1" "base_index log_x = 0"
    by (simp_all add: log_x_def wf_log_def contiguous_def entry_x_def last_index_def)
  have r: "wf_replication (replication_a 1) (n_state leader_a)"
    by (simp add: wf_replication_def replication_a_def leader_a_eq members3_def raft_state_default_def)
  obtain s' c where a: "advance_commit_index log_x (replication_a 1) (n_state leader_a) = Ok (s', c)"
    using advance_commit_index_Ok [OF r] by blast
  have on: "replicated_on (n_state leader_a) (replication_a 1) 1 = {''a'', ''b''}"
    by (auto simp: replicated_on_def replication_a_def leader_a_eq raft_state_default_def)
  have maj: "majority (set (repl_members (replication_a 1))) (replicated_on (n_state leader_a) (replication_a 1) 1)"
    unfolding on by (simp add: majority_def replication_a_def members3_def)
  have t: "term_at j log_x = Some (current_term (n_state leader_a))" if "1 \<le> j \<and> j \<le> 1" for j
    using that by (simp add: term_at_def log_get_def nth_opt_def log_x_def entry_x_def last_index_def leader_a_eq raft_state_default_def)
  have "1 \<le> commit_index s'"
    using commit_complete [OF l(1) r a maj] t l(2,3) by (auto simp: replication_a_def)
  then show ?thesis using a by blast
qed

text \<open>The vote: a request is granted exactly when its term is not behind, the voter has not voted
  for another candidate in that term, and the candidate's log is at least as up to date (a later
  last term, or the same and a last index not smaller). The answer carries the voter's new term.\<close>

theorem vote_decision:
  "\<exists>s' a. handle_request_vote q li lt s = Ok (s', a) \<and>
     current_term s' = max (current_term s) (rv_term q) \<and> rvr_term a = current_term s' \<and>
     (rvr_vote_granted a \<longleftrightarrow> current_term s \<le> rv_term q \<and>
        (current_term s < rv_term q \<or> voted_for s \<in> {None, Some (rv_candidate_id q)}) \<and>
        (lt < rv_last_log_term q \<or> lt = rv_last_log_term q \<and> li \<le> rv_last_log_index q)) \<and>
     voted_for s' = (if rvr_vote_granted a then Some (rv_candidate_id q)
                     else if current_term s < rv_term q then None else voted_for s)"
  by (auto simp: handle_request_vote_cases is_candidate_log_up_to_date_def Let_def max_def)

text \<open>A node becomes leader by a majority only: when recording a vote makes a candidate the
  leader, the members recorded as voting for it, one by one distinct members of the cluster, are a
  majority, and its term is unchanged.\<close>

theorem elected_by_majority:
  assumes "wf_tracker t s" "record_vote voter a t s = ((t', s'), res)" "role s \<noteq> LEADER" "role s' = LEADER"
  shows "majority (set (tracker_members t)) (set (votes_received t')) \<and> role s = CANDIDATE \<and>
    current_term s' = current_term s \<and> res = Ok True \<and> \<not> active t' \<and>
    set (votes_received t') \<subseteq> (if rvr_vote_granted a then insert voter (set (votes_received t)) else set (votes_received t))"
proof -
  note L = record_vote_leader [OF assms(2,4,3,1)]
  from assms(2) have "\<not> active t'"
    by (cases rule: record_vote_cases) (use assms(3,4) L(4) in auto)
  then show ?thesis using L by simp
qed

theorem elected_by_majority_witness:
  "majority (set members3) (set (votes_received (n_election leader_a)))"
proof -
  have "record_vote ''b'' \<lparr>rvr_term = 1, rvr_vote_granted = True\<rparr> (n_election candidate_a) (n_state candidate_a) =
      ((n_election leader_a, n_state leader_a), Ok True)"
    by (simp add: leader_a_eq candidate_a_eq record_vote_def promote_if_quorum_def become_leader_def set_add_def node_eval)
  moreover have "wf_tracker (n_election candidate_a) (n_state candidate_a)"
    by (simp add: candidate_a_eq wf_tracker_def members3_def raft_state_default_def)
  moreover have "role (n_state candidate_a) \<noteq> LEADER" "role (n_state leader_a) = LEADER"
      "tracker_members (n_election candidate_a) = members3"
    by (simp_all add: candidate_a_eq leader_a_eq)
  ultimately show ?thesis
    using elected_by_majority [of "n_election candidate_a" "n_state candidate_a"] by metis
qed

section \<open>The follower's log\<close>

text \<open>C16 Repairing the log: the loop that merges the leader's entries computes the reference
  \<open>repaired\<close>. Nothing up to the request's previous index changes, afterwards every entry of the
  request is matched by one of its term, a log that already matched is left alone, and receiving
  the same entries again changes nothing.\<close>

theorem repair_reference:
  assumes "wf_log l" "contiguous prev es" "base_index l \<le> prev" "prev \<le> last_index l"
  shows "sync_entries es l = (repaired prev es l, Ok ()) \<and> wf_log (repaired prev es l) \<and>
    (\<forall>i \<le> prev. log_get i (repaired prev es l) = log_get i l) \<and>
    (\<forall>k < length es. \<exists>x. log_get (prev + 1 + int k) (repaired prev es l) = Some x \<and> entry_term x = entry_term (es ! k)) \<and>
    ((\<forall>k < length es. \<exists>x. log_get (prev + 1 + int k) l = Some x \<and> entry_term x = entry_term (es ! k)) \<longrightarrow>
       repaired prev es l = l) \<and>
    sync_entries es (repaired prev es l) = (repaired prev es l, Ok ())"
proof -
  have wf: "wf_log (repaired prev es l)" "base_index (repaired prev es l) \<le> prev" "prev \<le> last_index (repaired prev es l)"
    using repaired_wf [OF assms] repaired_last [OF assms] assms(3) by simp_all
  have again: "sync_entries es (repaired prev es l) = (repaired prev es l, Ok ())"
    using sync_entries_repaired [OF wf(1) assms(2) wf(2,3)] repaired_idem [OF assms] by simp
  show ?thesis
    using sync_entries_repaired [OF assms] wf(1) repaired_prefix [OF assms] repaired_holds [OF assms] again
      matched_all_iff [OF assms(2), of l] repaired_id [of es l prev] by blast
qed

theorem repair_reference_witness:
  "sync_entries [entry_x] empty_log = (repaired 0 [entry_x] empty_log, Ok ()) \<and> wf_log (repaired 0 [entry_x] empty_log)"
proof -
  have "wf_log empty_log" "contiguous 0 [entry_x]" "base_index empty_log \<le> 0" "0 \<le> last_index empty_log"
    by (simp_all add: contiguous_def entry_x_def empty_log_def last_index_def wf_log_def)
  from repair_reference [OF this] show ?thesis by blast
qed

text \<open>C17 Applying the log: the loop that applies committed entries runs exactly the commands of the
  entries between the two indexes, in order, and each key of the store then holds what the last of
  those commands on the key left.\<close>

theorem apply_reference:
  assumes "wf_log l" "valid_entries l" "dict_wf st"
    and "base_index l \<le> last_applied s" "last_applied s \<le> commit_index s" "commit_index s \<le> last_index l"
  shows "\<exists>st'. apply_committed_entries l s st = ((s\<lparr>last_applied := commit_index s\<rparr>, st'), Ok ()) \<and>
    st' = run_commands (slice (last_applied s) (commit_index s) l) st \<and>
    (\<forall>k. kv_get k st' = kv.last_write k (kv_get k st)
       (map (command_write \<circ> entry_command) (slice (last_applied s) (commit_index s) l)))"
  using apply_committed_reference [OF assms(1,2,4-6)] kv.get_run_writes [OF assms(3)]
  by (simp add: run_commands_def)

theorem apply_reference_witness:
  "\<exists>s' st'. apply_committed_entries log_x ((raft_state_default ''a'')\<lparr>commit_index := 1\<rparr>) [] = ((s', st'), Ok ()) \<and>
     kv_get ''x'' st' = Some ''1''"
proof -
  let ?s = "(raft_state_default ''a'')\<lparr>commit_index := 1\<rparr>"
  have h: "wf_log log_x" "valid_entries log_x" "base_index log_x \<le> last_applied ?s" "last_applied ?s \<le> commit_index ?s"
      "commit_index ?s \<le> last_index log_x" "slice 0 1 log_x = [entry_x]"
    by (simp_all add: log_x_def wf_log_def contiguous_def entry_x_def last_index_def valid_entries_def valid_command_def
        put_x_def raft_state_default_def slice_def)
  from apply_reference [OF h(1,2) dict_wf_Nil h(3-5)] h(6) show ?thesis
    by (auto simp: raft_state_default_def command_write_def entry_x_def put_x_def kv_get_def)
qed

text \<open>A command the state machine refuses stops the loop at its predecessor: everything before it
  is applied and recorded as applied, the error is raised, and nothing after it is touched.\<close>

theorem apply_stops_at_bad_command:
  assumes "wf_log l" "base_index l \<le> last_applied s" "last_applied s \<le> i" "i < commit_index s"
    and "\<forall>j e. last_applied s < j \<and> j \<le> i \<and> log_get j l = Some e \<longrightarrow> valid_command (entry_command e)"
    and "log_get (i + 1) l = Some bad" "\<not> valid_command (entry_command bad)"
  shows "apply_committed_entries l s st =
    ((s\<lparr>last_applied := i\<rparr>, run_commands (slice (last_applied s) i l) st), Err ValueError)"
  using apply_committed_stops [OF assms] .

theorem apply_stops_at_bad_command_witness:
  "snd (apply_committed_entries
      \<lparr>base_index = 0, base_term = 0, entries = [entry_x\<lparr>entry_command := put_x\<lparr>operation := ''NOP''\<rparr>\<rparr>]\<rparr>
      ((raft_state_default ''a'')\<lparr>commit_index := 1\<rparr>) []) = Err ValueError"
proof -
  let ?e = "entry_x\<lparr>entry_command := put_x\<lparr>operation := ''NOP''\<rparr>\<rparr>"
  let ?l = "\<lparr>base_index = 0, base_term = 0, entries = [?e]\<rparr>"
  have h: "wf_log ?l" "log_get (0 + 1) ?l = Some ?e" "\<not> valid_command (entry_command ?e)"
    by (simp_all add: wf_log_def contiguous_def entry_x_def log_get_def last_index_def valid_command_def put_x_def)
  show ?thesis
    by (subst apply_stops_at_bad_command [OF h(1) _ _ _ _ h(2,3)]) (auto simp: raft_state_default_def)
qed

text \<open>Compaction: a log can be compacted exactly through the indexes it covers. It then starts
  there with that entry's term, ends where it ended, and every later entry is where it was.\<close>

theorem compaction_keeps_suffix:
  assumes "wf_log l" "wf_terms l"
  shows "(is_ok (compact_through i l) \<longleftrightarrow> base_index l \<le> i \<and> i \<le> last_index l) \<and>
    (\<forall>l'. compact_through i l = Ok l' \<longrightarrow> wf_log l' \<and> base_index l' = i \<and> term_at i l = Some (base_term l') \<and>
       last_index l' = last_index l \<and> (\<forall>j. log_get j l' = (if j \<le> i then None else log_get j l)))"
proof -
  have "base_index l \<le> i \<and> i \<le> last_index l" if "compact_through i l = Ok l'" for l'
    using compact_through_OkD [OF assms(1) that] last_index_ge_base [OF assms(1)] by auto
  then have A: "is_ok (compact_through i l) \<longleftrightarrow> base_index l \<le> i \<and> i \<le> last_index l"
    using compact_through_Ok [OF assms(1)] by (auto simp: is_ok_iff)
  have B: "wf_log l' \<and> base_index l' = i \<and> term_at i l = Some (base_term l') \<and> last_index l' = last_index l \<and>
      (\<forall>j. log_get j l' = (if j \<le> i then None else log_get j l))" if "compact_through i l = Ok l'" for l'
    using compact_through_get [OF assms that] wf_compact_through [OF assms that] by simp
  show ?thesis by (rule conjI [OF A], intro allI impI, rule B)
qed

theorem compaction_keeps_suffix_witness:
  "is_ok (compact_through 1 log_x) \<and> \<not> is_ok (compact_through 2 log_x)"
proof -
  have h: "wf_log log_x" "wf_terms log_x" and i: "last_index log_x = 1" "base_index log_x = 0"
    by (simp_all add: log_x_def wf_log_def contiguous_def entry_x_def last_index_def wf_terms_def)
  show ?thesis
    using conjunct1 [OF compaction_keeps_suffix [OF h, of 1]] conjunct1 [OF compaction_keeps_suffix [OF h, of 2]]
    unfolding i by simp
qed

text \<open>Installing a boundary: the suffix of the log is kept exactly when the entry at the boundary
  has the snapshot's term; otherwise the log is emptied. The log never moves backwards.\<close>

theorem boundary_keeps_matching_suffix:
  assumes "wf_log l" "wf_terms l" "0 \<le> t" "install_snapshot_boundary i t l = Ok l'"
  shows "wf_log l' \<and> base_index l' = i \<and> base_term l' = t \<and> base_index l \<le> i \<and>
    (\<forall>j. log_get j l' = (if i < j \<and> term_at i l = Some t then log_get j l else None)) \<and>
    last_index l' = (if term_at i l = Some t then last_index l else i)"
  using install_snapshot_boundary_get [OF assms(1,3,4)] wf_install_snapshot_boundary [OF assms] by blast

theorem boundary_keeps_matching_suffix_witness:
  "\<exists>l'. install_snapshot_boundary 5 2 log_x = Ok l' \<and> last_index l' = 5"
proof -
  obtain l' where l': "install_snapshot_boundary 5 2 log_x = Ok l'"
    by (simp add: install_snapshot_boundary_def term_at_def log_get_def log_x_def entry_x_def last_index_def)
  have "wf_log log_x" "wf_terms log_x" "term_at 5 log_x = None"
    by (simp_all add: log_x_def wf_log_def contiguous_def entry_x_def last_index_def wf_terms_def term_at_def log_get_def)
  then show ?thesis using boundary_keeps_matching_suffix [OF _ _ _ l'] l' by auto
qed

text \<open>C18 The constructor of a log accepts exactly the well-formed logs, and builds what it was given.\<close>

theorem log_init_accepts_wf:
  "raft_log_init b t es = Ok l \<longleftrightarrow> wf_log l \<and> base_index l = b \<and> base_term l = t \<and> entries l = es"
  using raft_log_init_Ok_iff .

text \<open>C19 The election timer: a timeout lies within the configured bounds. A timer just reset does not
  expire before the minimum has passed, and has expired when the maximum has.\<close>

theorem timer_bounds:
  assumes "timer_init mn mx c = Ok t" "wf_clock c"
  shows "0 < mn \<and> mn < mx \<and>
    (\<forall>c2. clock_now c2 < clock_now c + mn \<longrightarrow> \<not> timer_expired c2 t) \<and>
    (\<forall>c2. clock_now c + mx \<le> clock_now c2 \<longrightarrow> timer_expired c2 t) \<and>
    (\<forall>c2. timer_remaining c2 t = 0 \<longleftrightarrow> timer_expired c2 t)"
proof -
  have t: "0 < mn" "mn < mx" "t = timer_reset c \<lparr>min_timeout = mn, max_timeout = mx, deadline = 0\<rparr>"
    using assms(1) by (auto simp: timer_init_def split: if_splits)
  have "clock_now c + mn \<le> deadline t" "deadline t \<le> clock_now c + mx"
    using timer_reset_deadline [OF assms(2), of "\<lparr>min_timeout = mn, max_timeout = mx, deadline = 0\<rparr>"] t by simp_all
  then show ?thesis using t(1,2) timer_remaining_zero_iff by (auto simp: timer_expired_def)
qed

theorem timer_bounds_witness:
  "\<exists>t. timer_init (3 / 2) 3 (clk 0) = Ok t \<and> \<not> timer_expired (clk 1) t \<and> timer_expired (clk 3) t"
proof -
  obtain t where t: "timer_init (3 / 2) 3 (clk 0) = Ok t" by (simp add: timer_init_def)
  have "wf_clock (clk 0)" by (simp add: wf_clock_def clk_def)
  from timer_bounds [OF t this] t show ?thesis by (auto simp: clk_def)
qed

section \<open>Files and messages\<close>

text \<open>C20 The wire format: decoding an encoded message returns the message, for every request and
  every response, entries and their commands included.\<close>

theorem wire_roundtrip:
  "request_vote_from_dict (request_vote_to_dict rv) = Ok rv \<and>
   request_vote_response_from_dict (request_vote_response_to_dict rvr) = Ok rvr \<and>
   append_entries_from_dict (append_entries_to_dict ae) = Ok ae \<and>
   append_entries_response_from_dict (append_entries_response_to_dict aer) = Ok aer \<and>
   install_snapshot_from_dict (install_snapshot_to_dict ins) = Ok ins \<and>
   install_snapshot_response_from_dict (install_snapshot_response_to_dict isr) = Ok isr \<and>
   timeout_now_from_dict (timeout_now_to_dict tn) = Ok tn \<and>
   timeout_now_response_from_dict (timeout_now_response_to_dict tnr) = Ok tnr"
  by (simp add: vote_roundtrip append_entries_roundtrip install_snapshot_roundtrip timeout_now_roundtrip)

text \<open>C21 The journal follows the log: whatever suffix of the log a handler changed, persisting the
  change makes the journal replay to the new log, without touching the other two files.\<close>

theorem journal_follows_log:
  assumes "wf_log l" "wf_log l'" "base_index l' = base_index l" "base_term l' = base_term l" "journal_replays l d"
  shows "\<exists>d'. persist_log_change (entries l) (entries l') d = Ok d' \<and> load_log d' = (d', Ok l') \<and>
    state_file d' = state_file d \<and> snapshot_file d' = snapshot_file d"
  using persist_log_change_replays [OF assms] load_log_replays by blast

theorem journal_follows_log_witness:
  "\<exists>d'. persist_log_change [] [entry_x] empty_disk = Ok d' \<and> load_log d' = (d', Ok log_x)"
proof -
  have h: "wf_log log_x" "base_index log_x = base_index empty_log" "base_term log_x = base_term empty_log"
      "entries log_x = [entry_x]" "entries empty_log = []"
    by (simp_all add: log_x_def wf_log_def contiguous_def entry_x_def empty_log_def)
  from journal_follows_log [OF wf_empty_log h(1-3) journal_replays_empty] h(4,5) show ?thesis by auto
qed

text \<open>C22 A torn journal stops the node: when a crash leaves part of a record at the end of the
  journal, the node does not start again; the constructor raises \<open>RaftPersistenceError\<close>, although
  every record before the torn one is intact.\<close>

theorem torn_journal_refused:
  assumes "node_reachable n" "n_disk n = Some d" "contiguous (last_index (n_log n)) es"
  shows "snd (node_init c (n_id n) (n_members n) (Some (torn_append k Garbage (map append_record es) d))) =
    Err RaftPersistenceError"
  using torn_node_init [OF node_reachable_ok [OF assms(1)] assms(2,3)] .

theorem torn_journal_refused_witness:
  "\<exists>d. n_disk leader_a = Some d \<and>
     snd (node_init (clk 9) ''a'' members3 (Some (torn_append 0 Garbage (map append_record [entry_x]) d))) =
       Err RaftPersistenceError"
proof -
  obtain d where d: "n_disk leader_a = Some d" by (simp add: leader_a_eq candidate_a_eq)
  have h: "n_id leader_a = ''a''" "n_members leader_a = members3" "contiguous (last_index (n_log leader_a)) [entry_x]"
    by (simp_all add: leader_a_eq candidate_a_eq fresh_node_def empty_log_def last_index_def contiguous_def entry_x_def)
  from torn_journal_refused [OF leader_a_reachable d h(3), of "clk 9" 0] h(1,2) d show ?thesis by auto
qed

text \<open>A crash between two records of an append is harmless: the journal replays to the log with
  the records that were written.\<close>

theorem partial_append_replays:
  assumes "node_reachable n" "n_disk n = Some d" "contiguous (last_index (n_log n)) es" "k \<le> length es"
  shows "load_log (torn_append k Blank (map append_record es) d) =
    (torn_append k Blank (map append_record es) d, Ok ((n_log n)\<lparr>entries := entries (n_log n) @ take k es\<rparr>))"
proof -
  have ok: "node_wf n" "node_durable n" using node_reachable_ok [OF assms(1)] by (simp_all add: node_ok_def)
  have "journal_replays (n_log n) d" using ok(2) assms(2) by (simp add: node_durable_def durable_log_def)
  moreover have "for_each append_entry (take k es) (n_log n) = Ok ((n_log n)\<lparr>entries := entries (n_log n) @ take k es\<rparr>)"
    using for_each_append_entry [OF node_wf_log [OF ok(1)] contiguous_take [OF assms(3)]] .
  ultimately show ?thesis by (intro load_log_replays torn_append_clean)
qed

theorem partial_append_replays_witness:
  "\<exists>d. n_disk leader_a = Some d \<and>
     snd (load_log (torn_append 1 Blank (map append_record [entry_x]) d)) = Ok log_x"
proof -
  obtain d where d: "n_disk leader_a = Some d" by (simp add: leader_a_eq candidate_a_eq)
  have h: "contiguous (last_index (n_log leader_a)) [entry_x]"
      "(n_log leader_a)\<lparr>entries := entries (n_log leader_a) @ take 1 [entry_x]\<rparr> = log_x"
    by (simp_all add: leader_a_eq candidate_a_eq fresh_node_def empty_log_def last_index_def contiguous_def entry_x_def log_x_def)
  have "(1::nat) \<le> length [entry_x]" by simp
  from partial_append_replays [OF leader_a_reachable d h(1) this] h(2) d show ?thesis by auto
qed

text \<open>A log file of the previous format is migrated: loading it returns the log and leaves a
  journal that loads to the same log.\<close>

theorem legacy_log_migrated:
  assumes "wf_log l" "base_index l = 0"
    and "log_file d = Some \<lparr>complete_lines = [Record (JList (map log_entry_to_dict (entries l)))], unterminated = Blank\<rparr>"
  shows "\<exists>d'. load_log d = (d', Ok l) \<and> load_log d' = (d', Ok l) \<and> state_file d' = state_file d \<and>
    snapshot_file d' = snapshot_file d"
  using load_legacy [OF assms] load_log_replays by blast

theorem legacy_log_migrated_witness:
  "\<exists>d'. load_log (empty_disk\<lparr>log_file := Some \<lparr>complete_lines = [Record (JList [log_entry_to_dict entry_x])],
       unterminated = Blank\<rparr>\<rparr>) = (d', Ok log_x)"
proof -
  have h: "wf_log log_x" "base_index log_x = 0" "entries log_x = [entry_x]"
    by (simp_all add: log_x_def wf_log_def contiguous_def entry_x_def)
  show ?thesis
    using legacy_log_migrated [OF h(1,2), of "empty_disk\<lparr>log_file := Some \<lparr>complete_lines =
        [Record (JList [log_entry_to_dict entry_x])], unterminated = Blank\<rparr>\<rparr>"] h(3) by auto
qed

section \<open>The storage engine\<close>

text \<open>C23 The engine is durable and correct: after any sequence of puts, deletes and snapshots the
  store read back from the files is the engine's, and a key holds what the last operation on it
  left.\<close>

theorem engine_recovers:
  "engine_init None None = Ok empty_engine \<and>
   engine_recover (wal_file (engine_run ops empty_engine)) (engine_snapshot (engine_run ops empty_engine)) =
     Ok (engine_store (engine_run ops empty_engine)) \<and>
   engine_get k (engine_run ops empty_engine) = kv.last_write k None (engine_writes ops)"
proof -
  have ok: "engine_ok empty_engine" by (rule engine_ok_init [OF empty_engine_init])
  show ?thesis
    using empty_engine_init engine_ok_recover [OF engine_ok_run [OF ok]] engine_run_get [OF ok]
    by (simp add: empty_engine_def engine_get_def kv_get_def)
qed

text \<open>C24 A crash of the engine loses nothing that was written: after the snapshot is written and
  before the log is truncated every key reads the same, and a record cut short by a crash is
  ignored.\<close>

theorem engine_crash_safe:
  "let e = engine_run ops empty_engine in
     (\<exists>store. engine_recover (wal_file e) (snapshot_store_save (kv_snapshot (engine_store e))) = Ok store \<and>
        (\<forall>k. kv_get k store = engine_get k e)) \<and>
     engine_recover (torn_wal (wal_file e)) (engine_snapshot e) = Ok (engine_store e)"
proof -
  have ok: "engine_ok (engine_run ops empty_engine)"
    by (rule engine_ok_run [OF engine_ok_init [OF empty_engine_init]])
  show ?thesis
    using snapshot_then_crash [OF ok] torn_wal_recover [OF ok] by (simp add: Let_def kv_snapshot_def engine_get_def)
qed

text \<open>C25 Recovery leaves a torn record in the log, and the next record is appended to the same line:
  that write is lost at the next recovery, and with one more write recovery fails with
  \<open>WALCorruptionError\<close>.\<close>

theorem write_after_torn_record_lost:
  "let e = engine_run ops empty_engine; torn = torn_wal (wal_file e) in
     engine_recover torn (engine_snapshot e) = Ok (engine_store e) \<and>
     engine_recover (wal_append_put k v torn) (engine_snapshot e) = Ok (engine_store e) \<and>
     engine_recover (wal_append_put k' v' (wal_append_put k v torn)) (engine_snapshot e) = Err WALCorruptionError"
proof -
  have ok: "engine_ok (engine_run ops empty_engine)"
    by (rule engine_ok_run [OF engine_ok_init [OF empty_engine_init]])
  have w: "wal_append_put a b f = wal_append (write_record (Put a b)) f" for a b f
    by (simp add: wal_append_put_def write_record_def)
  show ?thesis
    using torn_wal_recover [OF ok] append_after_torn [OF ok] by (simp add: Let_def w)
qed

section \<open>Reads on a new leader\<close>

text \<open>C26 A read on a fresh leader may miss an acknowledged write. A command is committed and answered
  by leader a; follower b, which holds the entry, is elected in the next term; a read on b, its
  quorum confirmed by c, returns no value: nothing makes a new leader commit an entry of its own
  term before it serves reads.\<close>

theorem fresh_leader_misses_committed_write:
  "submit_begin [put_x] leader_a = (submitted_a, Ok [entry_x]) \<and>
   node_append_entries (clk 3) append_x voter_b = (follower_b, Ok \<lparr>aer_term = 1, aer_success = True\<rparr>) \<and>
   replicate_log_finish acknowledged_a = (committed_a, Ok ()) \<and> submit_results [entry_x] committed_a = [True] \<and>
   kv_get ''x'' (n_store committed_a) = Some ''1'' \<and>
   role (n_state leader_b) = LEADER \<and> log_get 1 (n_log leader_b) = Some entry_x \<and>
   snd (linearizable_get ''x'' (worker_c, [[], [(''c'', Ok True)]]) (12, 12, 12) (\<lambda>nf. nf) (leader_b, [])) = Ok None"
  using submitted_a_step follower_b_step committed_a_step fresh_leader_read
  by (simp add: submit_results_def committed_a_eq acknowledged_a_def submitted_a_def kv_get_def entry_x_def stale_eval
      leader_a_eq log_get_def nth_opt_def)

section \<open>Leadership transfer and diagnostics\<close>

text \<open>The target of a transfer is caught up: the node selected is a follower of the leader that
  answered in this round and is recorded to hold the leader's whole log; it is the requested one,
  or the least such follower when none was requested.\<close>

theorem transfer_target_caught_up:
  assumes "node_reachable n" "transfer_select t target results n = Ok (Some f)"
  shows "role (n_state n) = LEADER \<and> current_term (n_state n) = t \<and> f \<in> set (n_members n) - {n_id n} \<and>
    map_of results f = Some True \<and>
    (\<exists>r m. n_replication n = Some r \<and> map_of (match_index r) f = Some m \<and> last_index (n_log n) \<le> m) \<and>
    (case target of Some g \<Rightarrow> f = g
     | None \<Rightarrow> \<exists>r es. n_replication n = Some r \<and> eligible_followers results n r (followers r) = Ok es \<and> f = Min (set es))"
  using transfer_select_target [OF assms(2) node_reachable_ok [OF assms(1)]] .

theorem transfer_target_caught_up_witness:
  "transfer_select 1 None [(''b'', True)] committed_a = Ok (Some ''b'') \<and> ''b'' \<in> set (n_members committed_a)"
proof -
  have "transfer_select 1 None [(''b'', True)] committed_a = Ok (Some ''b'')"
    by (simp add: transfer_select_def committed_a_eq acknowledged_a_def submitted_a_def dict_item_def log_x_def
        entry_x_def leader_eval)
  with transfer_target_caught_up [OF committed_a_reachable(3) this] show ?thesis by simp
qed

text \<open>The status never fails and is consistent: on every reachable node it lists the other members
  once, in sorted order, its indexes are ordered, and the followers are listed, with lags that are
  not negative, exactly by a leader with replication state.\<close>

theorem status_reports:
  assumes "node_reachable n"
  shows "\<exists>st. node_status n = Ok st \<and> sorted (st_peers st) \<and> distinct (st_peers st) \<and>
    set (st_peers st) = set (n_members n) - {n_id n} \<and>
    log_base_index st = snapshot_index st \<and> log_base_index st \<le> st_commit_index st \<and>
    st_commit_index st \<le> log_last_index st \<and> st_last_applied st = st_commit_index st \<and>
    (st_followers st \<noteq> None \<longleftrightarrow> role (n_state n) = LEADER \<and> n_replication n \<noteq> None) \<and>
    (\<forall>fs. st_followers st = Some fs \<longrightarrow> map fs_node_id fs = st_peers st \<and> (\<forall>f \<in> set fs. 0 \<le> replication_lag f))"
proof -
  obtain st where st: "node_status n = Ok st" "sorted (st_peers st)" "distinct (st_peers st)"
    "set (st_peers st) = set (n_members n) - {n_id n}"
    "snapshot_index st = log_base_index st" "log_base_index st \<le> st_commit_index st"
    "st_commit_index st \<le> log_last_index st" "st_last_applied st = st_commit_index st"
    "st_followers st \<noteq> None \<longleftrightarrow> role (n_state n) = LEADER \<and> n_replication n \<noteq> None"
    "\<forall>fs. st_followers st = Some fs \<longrightarrow> map fs_node_id fs = st_peers st \<and> (\<forall>f \<in> set fs. 0 \<le> replication_lag f)"
    using node_status_reports [OF node_reachable_ok [OF assms]] by blast
  show ?thesis by (intro exI [of _ st] conjI) (fact st st(5) [symmetric])+
qed

theorem status_reports_witness:
  "\<exists>st. node_status committed_a = Ok st \<and> st_peers st = [''b'', ''c''] \<and> st_last_applied st = st_commit_index st"
proof -
  obtain st where st: "node_status committed_a = Ok st" "st_last_applied st = st_commit_index st"
    using status_reports [OF committed_a_reachable(3)] by blast
  have "st_peers st = sort (filter (\<lambda>m. m \<noteq> n_id committed_a) (n_members committed_a))"
    using st(1) by (auto simp: node_status_def split: sum.splits)
  then show ?thesis
    using st by (auto simp: committed_a_eq acknowledged_a_def submitted_a_def leader_eval)
qed

section \<open>The in-memory transport\<close>

text \<open>A partition separates its groups and nothing else: a call between two groups fails with
  \<open>TransportError\<close> and never reaches the handler, one within a group passes unless another fault
  stops it, and healing the partition opens every link between the groups again.\<close>

theorem partition_separates_groups:
  assumes "partition_nodes gs t = Ok t'" "i < length gs" "a \<in> gs ! i" "j < length gs" "b \<in> gs ! j"
  shows "(i \<noteq> j \<longrightarrow> (\<exists>t''. remote_call rpc a b handle (t', w) = ((t'', w), Some (Err TransportError)))) \<and>
    (i = j \<longrightarrow> link_open a b t' = link_open a b (heal_partition t)) \<and>
    link_open a b (heal_partition t') = link_open a b (heal_partition t)"
  using partition_effect [OF assms] .

theorem partition_separates_groups_witness:
  "\<exists>t'. partition_nodes [{''a''}, {''b'', ''c''}]
      (register ''c'' () (register ''b'' () (register ''a'' () memory_init))) = Ok t' \<and>
     (\<exists>t''. remote_call Append_entries ''a'' ''c'' (\<lambda>h w. (w, Ok ())) (t', ()) = ((t'', ()), Some (Err TransportError)))"
proof -
  let ?t = "register ''c'' () (register ''b'' () (register ''a'' () memory_init))"
  have nodes: "fst ` set (t_nodes ?t) = {''a'', ''b'', ''c''}"
    by (simp add: register_def memory_init_def)
  have members: "partition_members [{''a''}, {''b'', ''c''}] {} = Ok {''a'', ''b'', ''c''}"
    by (simp add: insert_commute)
  have t': "partition_nodes [{''a''}, {''b'', ''c''}] ?t =
      Ok (?t\<lparr>partition_links := cross_links [{''a''}, {''b'', ''c''}]\<rparr>)" (is "_ = Ok ?t'")
    unfolding partition_nodes_def members nodes by simp
  then show ?thesis
    using partition_separates_groups [OF t', of 0 "''a''" 1 "''c''" Append_entries "\<lambda>h w. (w, Ok ())" "()"] by simp
qed

text \<open>\<open>drop_next\<close> drops exactly as many calls as it was told: on an open link the next \<open>count\<close>
  calls of that kind fail, and the one after them reaches the registered handler.\<close>

theorem drops_exactly_count:
  assumes "drop_next rpc source target (int (Suc k)) t = Ok t'"
    and "link_open source target t" "map_of (t_nodes t) target = Some h"
  shows "snd (calls_in_a_row (Suc (Suc k)) rpc source target t') =
    replicate (Suc k) (Err TransportError) @ [Ok (h, map_of (delays t) (rpc, source, target))]"
proof -
  have t': "t' = t\<lparr>drops := AList.update (rpc, source, target) (int (Suc k)) (drops t)\<rparr>"
    using assms(1) by (simp add: drop_next_def split: if_splits)
  show ?thesis
    using dropped_calls [of source target t' rpc k h] assms(2,3) by (simp add: t' link_open_def)
qed

theorem drops_exactly_count_witness:
  "\<exists>t'. drop_next Request_vote ''a'' ''b'' (int (Suc 1)) (register ''b'' () memory_init) = Ok t' \<and>
     snd (calls_in_a_row 3 Request_vote ''a'' ''b'' t') =
       [Err TransportError, Err TransportError, Ok ((), None)]"
proof -
  let ?t = "register ''b'' () memory_init"
  obtain t' where t': "drop_next Request_vote ''a'' ''b'' (int (Suc 1)) ?t = Ok t'" by (simp add: drop_next_def)
  have h: "link_open ''a'' ''b'' ?t" "map_of (t_nodes ?t) ''b'' = Some ()" "delays ?t = []"
    by (simp_all add: register_def memory_init_def link_open_def)
  from drops_exactly_count [OF t' h(1,2)] h(3) t' show ?thesis by (simp add: numeral_3_eq_3 numeral_2_eq_2)
qed

section \<open>The command processor\<close>

text \<open>C28 Every accepted command is in exactly one place. In every state the processor reaches, however
  clients, \<open>start\<close>, \<open>stop\<close> and the worker threads interleave, each accepted command is waiting in the
  queue, in the batch of one worker, or answered, and answered once; the commands in the queue are
  the latest and in order; no batch is longer than the maximum, and the queue is within its bound.\<close>

theorem processor_exactly_once:
  assumes "processor_reachable node_service p"
  shows "distinct (in_work p @ in_queue p) \<and> sorted_wrt (<) (in_queue p) \<and>
    (set (in_work p) \<union> set (in_queue p)) \<inter> dom (cp_results p) = {} \<and>
    set (in_work p) \<union> set (in_queue p) \<union> dom (cp_results p) = {..<cp_next p} \<and>
    (\<forall>f \<in> set (in_work p). \<forall>g \<in> set (in_queue p). f < g) \<and>
    (\<forall>w \<in> set (cp_workers p). int (length (batch_of w)) \<le> max 1 (max_batch_size p)) \<and>
    (0 < max_queue_size p \<longrightarrow> int (length (cp_queue p)) \<le> max_queue_size p)"
proof -
  note D = processor_okD [OF node_batches.processor_reachable_ok [OF assms]]
  have "distinct (in_queue p)" using D(2) strict_sorted_imp_sorted strict_sorted_iff by blast
  moreover have "set (in_work p) \<inter> set (in_queue p) = {}" using D(3) by fastforce
  ultimately show ?thesis using D by simp
qed

theorem processor_exactly_once_witness:
  "in_work processor_x = [0] \<and> in_queue processor_x = [1] \<and>
   {0, 1} \<union> dom (cp_results processor_x) = {..<cp_next processor_x}"
proof -
  have "in_work processor_x = [0]" "in_queue processor_x = [1]"
    by (simp_all add: processor_x_def in_work_def in_queue_def)
  then show ?thesis
    using processor_exactly_once [OF processor_x_reachable] by (simp add: insert_commute)
qed

text \<open>C29 The workers drain the queue. From every reachable state the worker threads come to rest within
  \<open>work_left\<close> steps, on any schedule; a state at rest can be reached, and in it every accepted command
  has its answer. If the processor had been stopped, every worker thread has ended, so the join
  in \<open>stop\<close> returns.\<close>

theorem processor_drains:
  assumes "processor_reachable node_service p"
  shows "(\<exists>k p'. (worker_step node_service ^^ k) p p' \<and> \<not> (\<exists>p''. worker_step node_service p' p'')) \<and>
    (\<forall>k p'. (worker_step node_service ^^ k) p p' \<longrightarrow> k \<le> work_left p \<and>
       (\<not> (\<exists>p''. worker_step node_service p' p'') \<longrightarrow>
          cp_queue p' = [] \<and> dom (cp_results p') = {..<cp_next p} \<and>
          (cp_thread p = None \<longrightarrow> cp_workers p' = replicate (length (cp_workers p)) Finished)))"
proof (intro conjI allI impI)
  show "\<exists>k p'. (worker_step node_service ^^ k) p p' \<and> \<not> (\<exists>p''. worker_step node_service p' p'')"
    using node_batches.workers_come_to_rest [OF node_batches.processor_reachable_ok [OF assms]] by blast
qed (use node_batches_drain [OF assms] in blast)+

theorem processor_drains_witness:
  "\<exists>k p'. (worker_step node_service ^^ k) processor_x p' \<and> k \<le> 4 \<and> cp_queue p' = [] \<and> dom (cp_results p') = {..<2}"
proof -
  have "work_left processor_x = 4" "cp_next processor_x = 2"
    by (simp_all add: processor_x_def work_left_def)
  with processor_drains [OF processor_x_reachable] show ?thesis by metis
qed

text \<open>Each client gets the answer of its own command. When \<open>submit_commands\<close> has ended for the batch of
  a worker, the future of the i-th command holds the i-th result, or the exception for all of them;
  no other future changes, no future is set twice, and the worker goes on or ends as it was told.\<close>

theorem batch_answers:
  assumes "processor_reachable node_service p" "nth_opt (cp_workers p) w = Some (Submitting batch stopping)"
    and "node_service (map q_command batch) outcome"
  shows "\<exists>p'. worker_finish outcome w p = Some p' \<and> processor_reachable node_service p' \<and>
    (\<forall>i < length batch. cp_results p' (q_future (batch ! i)) =
       Some (case outcome of Inl e \<Rightarrow> Err e | Inr rs \<Rightarrow> Ok (rs ! i))) \<and>
    (\<forall>f. f \<notin> q_future ` set batch \<longrightarrow> cp_results p' f = cp_results p f) \<and>
    nth_opt (cp_workers p') w = Some (if stopping then Finished else Waiting)"
  by (rule node_batch_finishes [OF assms]) blast

theorem batch_answers_witness:
  "\<exists>p'. worker_finish (Err NotLeaderError) 0 processor_x = Some p' \<and> cp_results p' 0 = Some (Err NotLeaderError)"
proof -
  have "submit_commands [put_x] (\<lambda>nf. nf) ((\<lambda>nf. nf), []) (\<lambda>nf. nf) ((\<lambda>nf. nf), []) (voter_b, []) =
      ((voter_b, []), Err NotLeaderError)"
    by (simp add: submit_commands_def submit_begin_def voter_b_eq node_eval)
  then have "node_service (map q_command [\<lparr>q_command = put_x, q_future = 0\<rparr>]) (Err NotLeaderError)"
    using node_service.intros by simp
  moreover have "nth_opt (cp_workers processor_x) 0 = Some (Submitting [\<lparr>q_command = put_x, q_future = 0\<rparr>] False)"
    by (simp add: processor_x_def)
  ultimately show ?thesis using batch_answers [OF processor_x_reachable] by fastforce
qed

section \<open>HTTP\<close>

text \<open>C30 A call over HTTP is a call of the handler. When the posts of the client reach the routes of a
  node, each of the four calls of the transport leaves the node as its handler leaves it and returns
  the handler's response; an exception in the handler arrives as \<open>TransportError\<close>.\<close>

theorem http_transport_direct:
  assumes "reaches client base c" "map_of (addresses t) target = Some base"
  shows "http_request_vote client t target rv n = direct (node_request_vote c rv n) \<and>
    http_append_entries client t target ae n = direct (node_append_entries c ae n) \<and>
    http_install_snapshot client t target ins n = direct (node_install_snapshot c ins n) \<and>
    http_timeout_now client t target tn n = direct (node_timeout_now tn n)"
  using http_direct [OF assms] by blast

theorem http_transport_direct_witness:
  "http_request_vote ((\<lambda>url. serve_raft (clk 2) (drop 8 url)), (\<lambda>status. 200 \<le> status \<and> status < 300))
     (http_transport_init [(''b'', ''http://b/'')] False) ''b'' vote_request1 (fresh_node ''b'') =
   (voter_b, Ok \<lparr>rvr_term = 1, rvr_vote_granted = True\<rparr>)"
proof -
  let ?client = "((\<lambda>url. serve_raft (clk 2) (drop 8 url)), (\<lambda>status. 200 \<le> status \<and> status < 300))"
  have "reaches ?client ''http://b'' (clk 2)" by (simp add: reaches_def)
  moreover have "map_of (addresses (http_transport_init [(''b'', ''http://b/'')] False)) ''b'' = Some ''http://b''"
    by (simp add: http_transport_init_def rstrip_slash_def)
  ultimately show ?thesis
    using http_transport_direct [of ?client "''http://b''" "clk 2"] voter_b_step by (simp add: direct_def)
qed

text \<open>Whatever the network answers, a call over HTTP fails with \<open>TransportError\<close> only: an unknown peer,
  a failed request, an error status, a body that is not JSON or not a response. The callers rely on
  it, they catch no other exception.\<close>

theorem http_only_transport_errors:
  assumes "json_bodies client"
  shows "snd (http_request_vote client t target rv w) \<in> {Err TransportError} \<union> range Ok \<and>
    snd (http_append_entries client t target ae w) \<in> {Err TransportError} \<union> range Ok \<and>
    snd (http_install_snapshot client t target ins w) \<in> {Err TransportError} \<union> range Ok \<and>
    snd (http_timeout_now client t target tn w) \<in> {Err TransportError} \<union> range Ok"
  unfolding http_request_vote_def http_append_entries_def http_install_snapshot_def http_timeout_now_def
  by (intro conjI http_call_only [OF assms] response_errors)

theorem http_only_transport_errors_witness:
  "snd (http_timeout_now ((\<lambda>url j w. (w, Reply 200 (Ok (JList [])))), (\<lambda>status. True))
     (http_transport_init [(''b'', ''http://b'')] False) ''b'' \<lparr>tn_term = 1, tn_leader_id = ''a''\<rparr> ()) \<in>
     {Err TransportError} \<union> range Ok"
  by (rule conjunct2 [OF conjunct2 [OF conjunct2 [OF http_only_transport_errors]]]) (simp add: json_bodies_def)

section \<open>Clients\<close>

text \<open>The command of the example is submitted to the processor, taken by its worker, and answered.\<close>

lemma processed_x: "processed put_x [put_x] (Ok [True]) (Ok True)"
proof -
  let ?p = "processor_start (processor_init 1024 64)"
  let ?p1 = "fst (processor_submit put_x ?p)"
  let ?p2 = "the (worker_get 0 ?p1)"
  let ?p3 = "the (worker_collect True 0 ?p2)"
  note eval = worker_get_def worker_collect_def processor_submit_def processor_start_def processor_init_def
    queue_full_def nth_opt_def
  have reach: "processor_reachable node_service ?p"
    by (rule processor_reachable.step [OF processor_reachable.init processor_step.start])
  have submit: "processor_submit put_x ?p = (?p1, Ok 0)" by (simp add: eval)
  have "worker_get 0 ?p1 = Some ?p2" "worker_collect True 0 ?p2 = Some ?p3" by (simp_all add: eval)
  then have steps: "(processor_step node_service)\<^sup>*\<^sup>* ?p1 ?p3"
    by (meson processor_step.worker worker_step.get worker_step.collect r_into_rtranclp rtranclp.rtrancl_into_rtrancl)
  have w: "cp_workers ?p3 = [Submitting [\<lparr>q_command = put_x, q_future = 0\<rparr>] False]" "cp_results ?p3 = Map.empty"
    by (simp_all add: eval)
  obtain p4 where finish: "worker_finish (Ok [True]) 0 ?p3 = Some p4" "cp_results p4 0 = Some (Ok True)"
    by (simp add: worker_finish_def nth_opt_def w resolve_batch_def)
  have taken: "nth_opt (cp_workers ?p3) 0 = Some (Submitting [\<lparr>q_command = put_x, q_future = 0\<rparr>] False)"
    "cp_results ?p3 0 = None"
    by (simp_all add: w nth_opt_def)
  show ?thesis
    unfolding processed_def
    by (intro exI conjI, rule reach, rule submit, rule steps, rule taken, simp, rule taken, rule finish, rule finish)
qed

text \<open>C31 A PUT that is answered with success. The route returns without an exception for a command that
  \<open>submit_commands\<close> has run on a member of the group: given to the node directly, or queued at the
  command processor, as in the running program, and taken by a worker in a batch with others. What
  happens between the append of the batch and the answer, here and elsewhere, is a run of the group
  from the state with the batch appended to one where the results are read (\<open>results_read\<close>). Then the
  entry with the client's key and value was appended by this node as leader, and when the results were
  read the node led and its commit index had reached the entry. If it led the same term, the entry is
  at its index in the one history which all members follow, then and ever after. (If it lost the
  leadership meanwhile and was elected again, another entry may have taken the place:
  \<open>lost_write_answered\<close>.)\<close>

theorem put_committed:
  fixes node :: "'s \<Rightarrow> raft_node"
  assumes "put_key node put processor key val s = (s', Returned j)"
    and "(case processor of None \<Rightarrow> put key val s
      | Some submit \<Rightarrow> submit \<lparr>operation = ''PUT'', cmd_key = key, cmd_value = Some val\<rparr> s) = (t, r)"
    and "served \<lparr>operation = ''PUT'', cmd_key = key, cmd_value = Some val\<rparr> cs outcome r"
    and "submit_commands cs env1 rnd env2 heartbeat_rnd (nodes (group S) i, fs) = (nf', outcome)"
    and "system_reachable members S" "i \<in> set members"
    and "(system_step members)\<^sup>*\<^sup>* (S\<lparr>group := put_node i (fst (submit_begin cs (nodes (group S) i))) (group S)\<rparr>) S'"
      "nodes (group S') i = results_read cs env1 rnd env2 (nodes (group S) i, fs)"
      "(system_step members)\<^sup>*\<^sup>* S' S''"
  shows "\<exists>e. entry_command e = \<lparr>operation = ''PUT'', cmd_key = key, cmd_value = Some val\<rparr> \<and>
    entry_term e = current_term (n_state (nodes (group S) i)) \<and>
    log_get (entry_index e) (n_log (fst (submit_begin cs (nodes (group S) i)))) = Some e \<and>
    role (n_state (nodes (group S) i)) = LEADER \<and> role (n_state (nodes (group S') i)) = LEADER \<and>
    entry_index e \<le> commit_index (n_state (nodes (group S') i)) \<and>
    (current_term (n_state (nodes (group S') i)) = entry_term e \<longrightarrow>
       (\<exists>h. nat (entry_index e) \<le> length h \<and> h ! (nat (entry_index e) - 1) = e \<and>
          (\<forall>k \<in> set members. follows_history h (nodes (group S') k) \<and> follows_history h (nodes (group S'') k))))"
proof -
  have "r = Ok True" by (rule put_key_answer [OF assms(1,2)])
  then show ?thesis using write_in_history [OF assms(5,6,4) _ assms(7-9)] assms(3) by blast
qed

theorem put_committed_witness:
  "\<exists>nf' j h. put_key fst (\<lambda>k v. node_put k v (\<lambda>nf. (acknowledged_a, snd nf)) ((\<lambda>nf. nf), []) (\<lambda>nf. nf) ((\<lambda>nf. nf), []))
       None ''x'' ''1'' (leader_a, []) = (nf', Returned j) \<and>
     h ! 0 = entry_x \<and> follows_history h committed_a \<and> follows_history h informed_b"
proof -
  let ?env = "\<lambda>nf. (acknowledged_a, snd nf)" and ?rnd = "((\<lambda>nf. nf), []) :: round"
  let ?put = "\<lambda>k v. node_put k v ?env ?rnd (\<lambda>nf. nf) ?rnd"
  have c: "\<lparr>operation = ''PUT'', cmd_key = ''x'', cmd_value = Some ''1''\<rparr> = put_x" by (simp add: put_x_def)
  have a: "nodes (group elected_system) ''a'' = leader_a" "''a'' \<in> set members3" "''b'' \<in> set members3"
    by (simp_all add: elected_system_def elected_cluster_def put_node_def members3_def Let_def)
  obtain nf' where n: "?put ''x'' ''1'' (leader_a, []) = (nf', Ok True)" using put_x_run by blast
  then have ret: "put_key fst ?put None ''x'' ''1'' (leader_a, []) =
    (nf', Returned (JObj [(''key'', JStr ''x''), (''value'', JStr ''1''), (''committed'', JBool True),
       (''leader_id'', JStr (n_id (fst nf')))]))"
    by (simp add: put_key_def)
  obtain nf2 where sub: "submit_commands [put_x] ?env ?rnd (\<lambda>nf. nf) ?rnd (nodes (group elected_system) ''a'', []) = (nf2, Ok [True])"
    using submit_x_run a(1) by metis
  have read: "nodes (group committed_system) ''a'' =
      results_read [put_x] ?env ?rnd (\<lambda>nf. nf) (nodes (group elected_system) ''a'', [])"
    by (simp add: results_read_def a(1) submitted_a_step acknowledged_replicate committed_nodes(1))
  have run: "(system_step members3)\<^sup>*\<^sup>* (elected_system\<lparr>group := put_node ''a''
      (fst (submit_begin [put_x] (nodes (group elected_system) ''a''))) (group elected_system)\<rparr>) committed_system"
    using submitted_run(2) a(1) submitted_a_step by (simp add: elected_system_def)
  have "current_term (n_state leader_a) = 1" "current_term (n_state committed_a) = 1"
    by (simp_all add: committed_a_eq leader_a_eq)
  moreover have "served put_x [put_x] (Ok [True]) (Ok True)" using processed_x by (simp add: served_def)
  ultimately obtain e h where E: "log_get (entry_index e) (n_log submitted_a) = Some e" "h ! (nat (entry_index e) - 1) = e"
      "\<forall>k \<in> set members3. follows_history h (nodes (group committed_system) k) \<and> follows_history h (nodes (group informed_system) k)"
    using put_committed [OF ret _ _ sub committed_reachable(1) a(2) run read informed_run] n
      committed_nodes(1) by (auto simp: c a(1) submitted_a_step)
  have "follows_history h committed_a" "follows_history h informed_b"
    using E(3) a(2,3) committed_nodes(1) informed_nodes(2) by metis+
  moreover from E(1) have "entry_index e = 1" "e = entry_x"
    by (auto simp: submitted_a_def log_x_def entry_x_def log_get_def nth_opt_def last_index_def split: if_splits)
  ultimately show ?thesis using ret E(2) by (intro exI conjI) auto
qed

section \<open>The running node\<close>

text \<open>C32 The metrics follow the node. On every reachable node the update succeeds and every call it makes
  is one the registry accepts; the gauges are then the term, the commit index, the last applied index,
  the end of the log and the index of the snapshot, exactly the gauge of the current role is 1, and the
  lag gauge of a member is what the end of the log has over the progress recorded for it, if the node
  leads with replication state, and there is none otherwise: those of former followers are removed.\<close>

theorem metrics_follow_status:
  assumes "node_reachable n" "metrics_ok m"
  shows "\<exists>m'. update_from_node n m = Ok m' \<and> metrics_ok m' \<and> list_all well_labelled (m_calls m') \<and>
    gauge ''pyraftkv_raft_current_term'' [m_node_id m] m' = Some (current_term (n_state n)) \<and>
    gauge ''pyraftkv_raft_commit_index'' [m_node_id m] m' = Some (commit_index (n_state n)) \<and>
    gauge ''pyraftkv_raft_last_applied'' [m_node_id m] m' = Some (last_applied (n_state n)) \<and>
    gauge ''pyraftkv_raft_log_last_index'' [m_node_id m] m' = Some (last_index (n_log n)) \<and>
    gauge ''pyraftkv_raft_snapshot_index'' [m_node_id m] m' = Some (last_included_index (n_snapshot n)) \<and>
    (\<forall>r. gauge ''pyraftkv_raft_role'' [m_node_id m, role_value r] m' = Some (if role (n_state n) = r then 1 else 0)) \<and>
    (\<forall>f. gauge ''pyraftkv_raft_follower_replication_lag'' [m_node_id m, f] m' = follower_lag n f) \<and>
    {f. gauge ''pyraftkv_raft_follower_replication_lag'' [m_node_id m, f] m' \<noteq> None} =
      (if role (n_state n) = LEADER \<and> n_replication n \<noteq> None then set (n_members n) - {n_id n} else {})"
proof -
  obtain m' where m': "update_from_node n m = Ok m'" "metrics_ok m'"
    "gauge ''pyraftkv_raft_current_term'' [m_node_id m] m' = Some (current_term (n_state n))"
    "gauge ''pyraftkv_raft_commit_index'' [m_node_id m] m' = Some (commit_index (n_state n))"
    "gauge ''pyraftkv_raft_last_applied'' [m_node_id m] m' = Some (last_applied (n_state n))"
    "gauge ''pyraftkv_raft_log_last_index'' [m_node_id m] m' = Some (last_index (n_log n))"
    "gauge ''pyraftkv_raft_snapshot_index'' [m_node_id m] m' = Some (last_included_index (n_snapshot n))"
    "\<forall>r. gauge ''pyraftkv_raft_role'' [m_node_id m, role_value r] m' = Some (if role (n_state n) = r then 1 else 0)"
    "\<forall>f. gauge lag_name [m_node_id m, f] m' = follower_lag n f"
    "{f. gauge lag_name [m_node_id m, f] m' \<noteq> None} =
      (if role (n_state n) = LEADER \<and> n_replication n \<noteq> None then set (n_members n) - {n_id n} else {})"
    by (rule update_from_ok_node [OF node_reachable_ok [OF assms(1)] assms(2)])
  moreover have "list_all well_labelled (m_calls m')" using m'(2) by (simp add: metrics_ok_def)
  ultimately show ?thesis by blast
qed

theorem metrics_follow_status_witness:
  "\<exists>m'. update_from_node committed_a (metrics_init ''a'') = Ok m' \<and>
     gauge ''pyraftkv_raft_commit_index'' [''a''] m' = Some 1 \<and>
     {f. gauge ''pyraftkv_raft_follower_replication_lag'' [''a'', f] m' \<noteq> None} = {''b'', ''c''}"
proof -
  have a: "role (n_state committed_a) = LEADER" "n_replication committed_a = Some (replication_a 1)" "commit_index (n_state committed_a) = 1"
    "set (n_members committed_a) - {n_id committed_a} = {''b'', ''c''}" "m_node_id (metrics_init ''a'') = ''a''"
    by (auto simp: committed_a_eq acknowledged_a_def submitted_a_def leader_eval metrics_init_def)
  show ?thesis
    using metrics_follow_status [OF committed_a_reachable(3) metrics_ok_init [of "''a''"]] unfolding a by auto
qed

text \<open>C33 The background loop keeps the node sound. However the iterations end, with an exception or not,
  and whatever sound things other threads do in between and meanwhile, the node satisfies its
  invariant after the loop, its files hold its state, and the metrics are consistent.\<close>

theorem background_loop_safe:
  assumes "node_reachable n" "metrics_ok m" "list_all (\<lambda>(it, asleep). iteration_ok it \<and> env_ok asleep) its"
    and "raft_background_loop its ((n, futures), Some m) = ((n', futures'), metrics')"
  shows "node_wf n' \<and> node_durable n' \<and> pred_option metrics_ok metrics'"
  using raft_background_loop_ok [OF assms(3), of "(n, futures)" "Some m"] assms(2,4) node_reachable_ok [OF assms(1)]
  by (simp add: node_ok_def)

theorem background_loop_safe_witness:
  "\<exists>n' futures' metrics'. raft_background_loop [((clk 2, (\<lambda>nf. nf), ((\<lambda>nf. nf), []), (\<lambda>requests. [])), (\<lambda>nf. nf))]
     ((committed_a, []), Some (metrics_init ''a'')) = ((n', futures'), metrics') \<and> node_wf n'"
proof -
  let ?its = "[((clk 2, (\<lambda>nf. nf), ((\<lambda>nf. nf), []), (\<lambda>requests. [])), (\<lambda>nf. nf))]"
  obtain n' futures' metrics' where run: "raft_background_loop ?its ((committed_a, []), Some (metrics_init ''a'')) =
      ((n', futures'), metrics')"
    by (metis prod.exhaust)
  have "list_all (\<lambda>(it, asleep). iteration_ok it \<and> env_ok asleep) ?its"
    by (simp add: iteration_ok_def)
  from background_loop_safe [OF committed_a_reachable(3) metrics_ok_init this run] run show ?thesis by blast
qed

text \<open>A node comes up from the command line's peers: on an empty data directory it starts as a member
  of the group of itself and its peers, and on the directory it has left it restarts with its term,
  vote, log and store; the files are not changed by either.\<close>

theorem runtime_restarts:
  assumes "node_reachable n" "n_disk n = Some d" "n_members n = n_id n # map fst peers" "map_of peers (n_id n) = None"
    and "files (''data/'' @ n_id n) = d" "empty_files (''data/'' @ n_id n) = empty_disk"
  shows "(\<exists>rt. create_runtime c (n_id n) peers None files = (files, Ok rt) \<and> node_ok (rt_node rt) \<and>
      current_term (n_state (rt_node rt)) = current_term (n_state n) \<and>
      voted_for (n_state (rt_node rt)) = voted_for (n_state n) \<and>
      n_log (rt_node rt) = n_log n \<and> n_store (rt_node rt) = n_store n) \<and>
    (\<exists>rt. create_runtime c (n_id n) peers None empty_files = (empty_files, Ok rt) \<and> node_ok (rt_node rt) \<and>
      set (n_members (rt_node rt)) = insert (n_id n) (fst ` set peers) \<and> n_store (rt_node rt) = [])"
proof
  have ok: "node_ok n" by (rule node_reachable_ok [OF assms(1)])
  have wf: "dict_wf peers"
    using ok assms(3) by (simp add: node_ok_def node_wf_def dict_wf_def)
  show "\<exists>rt. create_runtime c (n_id n) peers None files = (files, Ok rt) \<and> node_ok (rt_node rt) \<and>
      current_term (n_state (rt_node rt)) = current_term (n_state n) \<and>
      voted_for (n_state (rt_node rt)) = voted_for (n_state n) \<and>
      n_log (rt_node rt) = n_log n \<and> n_store (rt_node rt) = n_store n"
    by (rule create_runtime_restart [OF ok assms(2) refl assms(4,3), where data_dir = None and files = files])
      (use assms(5) in auto)
  show "\<exists>rt. create_runtime c (n_id n) peers None empty_files = (empty_files, Ok rt) \<and> node_ok (rt_node rt) \<and>
      set (n_members (rt_node rt)) = insert (n_id n) (fst ` set peers) \<and> n_store (rt_node rt) = []"
    by (rule create_runtime_empty [OF assms(4) wf, where data_dir = None and files = empty_files])
      (use assms(6) in auto)
qed

theorem runtime_restarts_witness:
  "\<exists>rt. create_runtime (clk 9) ''a'' [(''b'', ''http://b''), (''c'', ''http://c'')] None (\<lambda>path. the (n_disk committed_a)) =
     ((\<lambda>path. the (n_disk committed_a)), Ok rt) \<and> n_store (rt_node rt) = [(''x'', ''1'')]"
proof -
  have a: "n_disk committed_a = Some (the (n_disk committed_a))" "n_id committed_a = ''a''"
    "n_members committed_a = n_id committed_a # map fst [(''b'', ''http://b''), (''c'', ''http://c'')]"
    "map_of [(''b'', ''http://b''), (''c'', ''http://c'')] (n_id committed_a) = None"
    "n_store committed_a = [(''x'', ''1'')]"
    by (simp_all add: committed_a_eq acknowledged_a_def submitted_a_def leader_eval)
  show ?thesis
    using runtime_restarts [OF committed_a_reachable(3) a(1,3,4), of "\<lambda>path. the (n_disk committed_a)" "\<lambda>path. empty_disk" "clk 9"]
    unfolding a(2,5) by auto
qed

section \<open>The demonstration\<close>

text \<open>C34 A demonstration that passes has seen a failover. In this order, a first leader confirmed a write
  and returned it, was stopped, another node with a greater term confirmed a second write and returned
  both, the first leader was started, all three nodes reported at least the commit index the second
  had, and a leader returned the second value.\<close>

theorem demo_passes:
  assumes "demo_run p d build s = Some (s', Ok ())" "0 < stable_samples d"
  shows "\<exists>initial new final unique target events e1 e2 e3 e4 e5 e6 e7 e8 e9 caught.
    io_history s' = io_history s @ events \<and>
    subseq ([e1, e2, e3, e4, e5, e6, e7, e8] @ caught @ [e9]) events \<and>
    wrote initial (''demo-before-'' @ unique) ''before-failover'' e1 \<and>
    has_read initial (''demo-before-'' @ unique) ''before-failover'' e2 \<and>
    stop_done (l_node_id initial) e3 \<and>
    wrote new (''demo-after-'' @ unique) ''after-failover'' e4 \<and>
    has_read new (''demo-after-'' @ unique) ''after-failover'' e5 \<and>
    has_read new (''demo-before-'' @ unique) ''before-failover'' e6 \<and>
    told_index new target e7 \<and> started (l_node_id initial) e8 \<and>
    list_all2 (reached target) NODE_IDS caught \<and>
    has_read final (''demo-after-'' @ unique) ''after-failover'' e9 \<and>
    l_node_id new \<noteq> l_node_id initial \<and> l_term initial < l_term new"
  by (rule demo_run_passes [OF assms], intro exI conjI) assumption+

theorem demo_passes_witness:
  "\<exists>s' (initial :: demo_leader) (new :: demo_leader) events e3 e8.
    demo_run lab_platform lab_demo True (lab_start None False) = Some (s', Ok ()) \<and>
    io_history s' = io_history (lab_start None False) @ events \<and>
    stop_done (l_node_id initial) e3 \<and> started (l_node_id initial) e8 \<and> l_term initial < l_term new"
proof -
  obtain s' where run: "demo_run lab_platform lab_demo True (lab_start None False) = Some (s', Ok ())"
    using lab_passes lab_start_summary [of None False] unfolding gives_def by blast
  have "0 < stable_samples lab_demo" by (simp add: lab_demo_def)
  from demo_passes [OF run this] show ?thesis
    by (elim exE conjE) (intro exI conjI, rule run, assumption+)
qed

text \<open>A stable leader was the only one for as many samples as asked: a leader the wait returns was
  the only node that reported itself leader, with the same term, in each of the last
  \<open>stable_samples\<close> samples, and it is not the excluded node.\<close>

theorem stable_leader_was_stable:
  assumes "wait_for_stable_leader p d excluded s = Some (s', Ok ldr)" "0 < stable_samples d"
  shows "\<exists>samples. sampled p d (fst (read_clock p s)) samples s' \<and> nat (stable_samples d) \<le> length samples \<and>
    (\<forall>sts \<in> set (drop (length samples - nat (stable_samples d)) samples).
       leaders_of excluded sts = [ldr]) \<and> Some (l_node_id ldr) \<noteq> excluded"
proof -
  obtain samples where S: "sampled p d (fst (read_clock p s)) samples s'"
      "streak excluded ldr (nat (stable_samples d)) samples"
    using stable_leader_samples [OF assms] by blast
  have "leaders_of excluded sts = [ldr]" if "select_leader sts excluded = Some ldr" for sts
    using that by (auto simp: select_leader_def split: list.splits)
  then show ?thesis using S streak_excluded [OF S(2)] assms(2) by (auto simp: streak_def)
qed

theorem stable_leader_was_stable_witness:
  "\<exists>s' samples. wait_for_stable_leader lab_platform lab_demo None (lab_start None False) = Some (s', Ok node1_leads) \<and>
    sampled lab_platform lab_demo (fst (read_clock lab_platform (lab_start None False))) samples s' \<and> samples \<noteq> []"
proof -
  obtain s' where run: "wait_for_stable_leader lab_platform lab_demo None (lab_start None False) = Some (s', Ok node1_leads)"
    using gives_leader [OF lab_says(1) lab_leaders(1), where n = None and b = False] lab_start_summary [of None False]
    unfolding gives_def by blast
  have "0 < stable_samples lab_demo" by (simp add: lab_demo_def)
  from stable_leader_was_stable [OF run this] this run show ?thesis by fastforce
qed

text \<open>C35 The demonstration ends. The three waits have no bound but the clock: with a clock that no call
  turns back and a sleep that takes as long as asked, \<open>main\<close> returns or raises, whatever the processes
  and the nodes answer.\<close>

theorem demo_ends:
  assumes "steady p now"
  shows "\<exists>s' r. demo_main p args s = Some (s', r)"
  by (rule demo_main_ends [OF assms])

theorem demo_ends_witness:
  "\<exists>s' r. demo_main lab_platform default_args (lab_start (Some (HttpStatus 500 None)) True) = Some (s', r)"
  by (rule demo_ends [where now = "\<lambda>w. of_int (lab_time w)"], rule lab_steady)

text \<open>C36 A node that was stopped is started again: where \<open>main\<close> ends with an exit status, every stop
  command that returned 0 is followed by a command to start the same node. Nothing is said of a stop
  command that failed or ran into its timeout, which may have stopped the node all the same.\<close>

theorem demo_restarts_node:
  assumes "demo_main p args s = Some (s', Ok code)" "io_history s = []"
    and "io_history s' = before @ Ran (docker_command [''stop'', nid]) (Completed 0 out err) # after"
  shows "\<exists>outcome. Ran (docker_command [''start'', nid]) outcome \<in> set after"
proof (rule ccontr)
  assume none: "\<nexists>outcome. Ran (docker_command [''start'', nid]) outcome \<in> set after"
  have "down (io_history s') nid"
    unfolding down_def assms(3)
    by (intro exI conjI, rule refl) (use none in \<open>auto simp: stop_done_def start_issued_def\<close>)
  then show False using demo_main_starts [OF assms(1,2)] by simp
qed

theorem demo_restarts_node_witness:
  "\<exists>s' nid before out err after. demo_main lab_platform one_sample (lab_start None False) = Some (s', Ok 0) \<and>
    io_history s' = before @ Ran (docker_command [''stop'', nid]) (Completed 0 out err) # after \<and>
    (\<exists>outcome. Ran (docker_command [''start'', nid]) outcome \<in> set after)"
proof -
  obtain s' where run: "demo_main lab_platform one_sample (lab_start None False) = Some (s', Ok 0)"
    using lab_main_passes by blast
  have i: "io_history (lab_start None False) = []" by (simp add: lab_start_def)
  obtain nid ev where "ev \<in> set (io_history s')" "stop_done nid ev" using lab_main_stops [OF run] by blast
  then obtain before out err after where
    h: "io_history s' = before @ Ran (docker_command [''stop'', nid]) (Completed 0 out err) # after"
    unfolding stop_done_def by (meson split_list)
  from demo_restarts_node [OF run i h] run h show ?thesis by blast
qed

text \<open>C37 It is not started where \<open>main\<close> raises. A reply of another node that is cut short raises an
  exception \<open>main\<close> does not handle, one that is not UTF-8 raises again while the failure is
  diagnosed: the stopped node stays down. And a stop that takes longer than its timeout stops the node
  without being recorded: \<open>main\<close> ends with status 1 and the node is down.\<close>

theorem demo_leaves_node_down:
  "(\<exists>s'. demo_main lab_platform one_sample (lab_start (Some (UrlFailed ProtocolError)) False) = Some (s', Err ProtocolError) \<and>
      down (io_history s') ''node1'') \<and>
   (\<exists>s'. demo_main lab_platform one_sample
        (lab_start (Some (Replied \<lparr>as_json = Undecodable, as_text = None\<rparr>)) False) = Some (s', Err ValueError) \<and>
      down (io_history s') ''node1'') \<and>
   (\<exists>s'. demo_main lab_platform one_sample (lab_start None True) = Some (s', Ok 1) \<and>
      lab_down (world s') = Some ''node1'')"
  using lab_main_glitch [of "UrlFailed ProtocolError" ProtocolError]
    lab_main_glitch [of "Replied \<lparr>as_json = Undecodable, as_text = None\<rparr>" ValueError] lab_main_slow_stop
  by (simp add: json_reply_def)

text \<open>C38 The leaders the demonstration sees are leaders of the cluster: two samples of statuses, each
  status taken in some state of the cluster before the state \<open>C\<close>, that select leaders of the same
  term select the same node. So a new leader on another node has another term.\<close>

theorem demo_leaders_agree:
  assumes "seen members C sts" "seen members C sts'"
    and "select_leader sts excluded = Some ldr" "select_leader sts' excluded' = Some ldr'"
  shows "(l_term ldr = l_term ldr' \<longrightarrow> ldr = ldr') \<and> (l_term ldr, l_node_id ldr) \<in> leaders C"
  using seen_leaders_agree [OF assms] seen_leader(1) [OF assms(1,3)] by blast

theorem demo_leaders_agree_witness:
  "\<exists>status. cluster_status (nodes elected_cluster ''a'') = Returned (JObj status) \<and>
    (1, ''a'') \<in> leaders elected_cluster"
proof -
  have mem: "''a'' \<in> set members3" by (simp add: members3_def)
  obtain status where st: "cluster_status (nodes elected_cluster ''a'') = Returned (JObj status)"
    using cluster_status_Returned [of "nodes elected_cluster ''a''"] node_reachable_ok
      system_node_reachable [OF committed_reachable(1) mem] by (auto simp: elected_system_def)
  have lead: "role (n_state (nodes elected_cluster ''a'')) = LEADER" "current_term (n_state (nodes elected_cluster ''a'')) = 1"
    using elected_leader by simp_all
  have "seen members3 elected_cluster [(''a'', status)]"
    using mem st elected_reachable by (auto simp: seen_def)
  moreover have "select_leader [(''a'', status)] None = Some \<lparr>l_node_id = ''a'', l_term = 1\<rparr>"
    using cluster_status_fields [OF st] lead by (simp add: select_leader_def int_value_def)
  ultimately show ?thesis using demo_leaders_agree [of members3 elected_cluster] st by fastforce
qed

section \<open>The application and the files\<close>

text \<open>C39 The requests are counted. After any sequence of requests to a node's application the counter
  for a method, a path template and a status has grown by the number of requests with that method and
  path that were answered with that status; a request that ended with an exception is not counted.\<close>

theorem requests_are_counted:
  "requests_counted meth path status (snd (fst (serve c reqs ((n, x), m)))) =
     requests_counted meth path status m +
     int (length (filter (counts_as meth path status) (zip reqs (snd (serve c reqs ((n, x), m))))))"
proof -
  obtain nx m' outs where "serve c reqs ((n, x), m) = ((nx, m'), outs)" by (metis prod.exhaust)
  then show ?thesis using serve_counts by simp
qed

text \<open>C40 The atomic write leaves a whole text. Where the path leads to one of the texts \<open>S\<close> however the
  directory is found after a power cut, it leads to one of these or the new text in every state of
  the write, whatever call of it fails; without a power cut the file is the new text exactly when the
  write returned. But a write that has returned can be undone by a power cut.\<close>

theorem power_cut_leaves_whole_text:
  assumes "whole S path f" "temp \<noteq> path" "atomic_write x temp path text f = (states, r)"
  shows "(\<forall>g \<in> set states. whole (insert (Some text) S) path g \<and>
      (\<forall>h. power_cut g h \<longrightarrow> read_file h path \<in> insert (Some text) S)) \<and>
    read_file (last states) path = (if r = Ok () then Some text else read_file f path) \<and>
    (r = Ok () \<longrightarrow> (\<exists>h. power_cut (last states) h \<and> read_file h path = read_file f path))"
  using atomic_write_whole [OF assms] whole_power_cut [of "insert (Some text) S" path] atomic_write_undone [OF assms(1)] assms(3)
  by (auto simp: list_all_iff)

theorem power_cut_leaves_whole_text_witness:
  "\<exists>states h. atomic_write no_faults ''.raft-state.json.x.tmp'' ''raft-state.json'' ''new'' old_file = (states, Ok ()) \<and>
    read_file (last states) ''raft-state.json'' = Some ''new'' \<and>
    power_cut (last states) h \<and> read_file h ''raft-state.json'' = Some ''old''"
proof -
  obtain states r where run: "atomic_write no_faults ''.raft-state.json.x.tmp'' ''raft-state.json'' ''new'' old_file = (states, r)"
    by fastforce
  have "r = Ok ()" using run by (auto simp: atomic_write_def no_faults_def Let_def split: prod.splits)
  moreover have "read_file old_file ''raft-state.json'' = Some ''old''" by (simp add: read_file_def old_file_def)
  ultimately show ?thesis
    using power_cut_leaves_whole_text [OF old_file_whole _ run] run by auto
qed

end
